(* ===== verification/Emu_Prelude.thy ===== *)
theory Emu_Prelude
  imports Main "HOL-Library.Word"
begin

text \<open>
  Shared vocabulary of the development: the machine integer types of the C++ sources, the host
  exceptions they throw, the little-endian byte loops that RAM, boot ROM and the image loaders
  share, and the word lemmas the component theories rely on.
\<close>

unbundle bit_operations_syntax

subsection \<open>Types\<close>

type_synonym u8 = "8 word"
type_synonym u16 = "16 word"
type_synonym u32 = "32 word"
type_synonym u64 = "64 word"

datatype host_exception = OutOfRange | InvalidArgument | LogicError | RuntimeError

named_theorems emu_bits \<open>bit-level characterisations of the model's word operations\<close>
named_theorems emu_wf \<open>preservation of the components' well-formedness invariants\<close>
named_theorems emu_frame \<open>fields an operation leaves alone\<close>

subsection \<open>Words\<close>

text \<open>A single bit of a 64-bit register: the \<open>bit(index)\<close> helper that the sources use.\<close>

definition bit64 :: "nat \<Rightarrow> u64" where
  "bit64 i = push_bit i 1"

text \<open>The two-bit field mask \<open>0x3 << n\<close>.\<close>

definition two_bits :: "nat \<Rightarrow> u64" where
  "two_bits n = push_bit n 3"

lemma bit_bit64 [simp]: "bit (bit64 i) n \<longleftrightarrow> n = i \<and> i < 64"
  by (auto simp: bit64_def bit_simps)

lemma and_bit64_eq_0_iff [simp]:
  "i < 64 \<Longrightarrow> (w AND bit64 i = 0) \<longleftrightarrow> \<not> bit w i"
proof -
  assume i: "i < 64"
  show ?thesis
  proof
    assume "w AND bit64 i = 0"
    then have "\<not> bit (w AND bit64 i) i" by simp
    with i show "\<not> bit w i" by (simp add: bit_simps)
  next
    assume "\<not> bit w i"
    then show "w AND bit64 i = 0"
      by (intro bit_word_eqI) (auto simp: bit_simps)
  qed
qed

lemma word_and_mask_le: "(w :: 'a::len word) AND m \<le> m"
  by (rule word_and_le1)

lemma unat_and_le: "unat ((w :: 'a::len word) AND m) \<le> unat m"
  using word_and_le1 [of w m] by (simp add: word_le_nat_alt)

lemma and_idem_mask [simp]: "((w :: 'a::len word) AND m) AND m = w AND m"
  by (simp add: and.assoc)

lemma and_not_same [simp]: "((w :: 'a::len word) AND NOT m) AND m = 0"
  by (intro bit_word_eqI) (auto simp: bit_simps)

lemma mask_merge_and:
  "(((w :: 'a::len word) AND NOT m) OR (v AND m)) AND m = v AND m"
  by (intro bit_word_eqI) (auto simp: bit_simps)

lemma mask_merge_and_not:
  "(((w :: 'a::len word) AND NOT m) OR (v AND m)) AND NOT m = w AND NOT m"
  by (intro bit_word_eqI) (auto simp: bit_simps)

lemma and_eq_self_iff:
  "(w :: 'a::len word) AND m = w \<longleftrightarrow> (\<forall>n < LENGTH('a). bit w n \<longrightarrow> bit m n)"
proof
  assume "w AND m = w"
  then show "\<forall>n < LENGTH('a). bit w n \<longrightarrow> bit m n"
    by (metis bit_and_iff)
next
  assume "\<forall>n < LENGTH('a). bit w n \<longrightarrow> bit m n"
  then show "w AND m = w"
    by (intro bit_word_eqI) (auto simp: bit_simps)
qed

lemma unat_le_diff:
  "(b :: 'a::len word) \<le> a \<Longrightarrow> unat (a - b) = unat a - unat b"
  by (simp add: unat_sub)

lemma unat_u64_less: "unat (w :: u64) < 18446744073709551616"
proof -
  have "unat w < 2 ^ LENGTH(64)" by (rule unsigned_less)
  then show ?thesis by simp
qed

lemma unat_plus_no_overflow:
  "unat (a :: u64) + unat b < 2 ^ 64 \<Longrightarrow> unat (a + b) = unat a + unat b"
  by (simp add: unat_word_ariths)

lemma bit_u64_less: "bit (w :: u64) n \<Longrightarrow> n < 64"
  using bit_imp_le_length by fastforce

lemma bit_u32_less: "bit (w :: u32) n \<Longrightarrow> n < 32"
  using bit_imp_le_length by fastforce

lemma take_bit_32_ucast [simp]: "take_bit 32 (ucast (x :: u32) :: u64) = ucast x"
  by (intro bit_word_eqI) (auto simp: bit_simps dest: bit_u32_less)

lemma nth_list_update_in: "j < length xs \<Longrightarrow> xs[i := v] ! j = (if i = j then v else xs ! j)"
  by simp

lemma take_bit_64_u64 [simp]: "take_bit 64 (w :: u64) = w"
  by (rule bit_word_eqI) (auto simp: bit_simps)

lemma low_word: "(0xFFFFFFFF :: u64) = mask 32"
  by (simp add: mask_eq_exp_minus_1)

lemma high_word: "(0xFFFFFFFF00000000 :: u64) = NOT (mask 32)"
  by (simp add: mask_eq_exp_minus_1)

lemma take_bit_drop_bit_32: "take_bit 32 (drop_bit 32 (w :: u64)) = drop_bit 32 w"
proof (rule bit_word_eqI)
  fix n
  show "bit (take_bit 32 (drop_bit 32 w)) n = bit (drop_bit 32 w) n"
    using bit_u64_less [of w "32 + n"] by (auto simp: bit_simps)
qed

lemma and_3_eq: "(w :: u64) AND 3 = of_bool (bit w 0) + 2 * of_bool (bit w 1)"
proof -
  have "(3 :: u64) = mask 2" by (simp add: mask_eq_exp_minus_1)
  then have "w AND 3 = take_bit 2 w" by (simp add: take_bit_eq_mask)
  also have "\<dots> = of_bool (bit w 0) + 2 * of_bool (bit w 1)"
    by (simp add: numeral_2_eq_2 take_bit_Suc bit_0 bit_Suc mod_2_eq_odd)
  finally show ?thesis .
qed

lemma field2_eq:
  "drop_bit n (w :: u64) AND 3 = of_bool (bit w n) + 2 * of_bool (bit w (Suc n))"
  by (simp add: and_3_eq bit_drop_bit_eq)

lemma field2_cases [emu_bits]:
  "(drop_bit n (w :: u64) AND 3 = 0) \<longleftrightarrow> \<not> bit w n \<and> \<not> bit w (Suc n)"
  "(drop_bit n (w :: u64) AND 3 = 1) \<longleftrightarrow> bit w n \<and> \<not> bit w (Suc n)"
  "(drop_bit n (w :: u64) AND 3 = 2) \<longleftrightarrow> \<not> bit w n \<and> bit w (Suc n)"
  "(drop_bit n (w :: u64) AND 3 = 3) \<longleftrightarrow> bit w n \<and> bit w (Suc n)"
  by (auto simp: field2_eq)

lemma bit_small_numerals [emu_bits]:
  "bit (1 :: u64) k \<longleftrightarrow> k = 0"
  "bit (2 :: u64) k \<longleftrightarrow> k = 1"
  "bit (3 :: u64) k \<longleftrightarrow> k = 0 \<or> k = 1"
  "bit (7 :: u64) k \<longleftrightarrow> k < 3"
proof -
  show "bit (1 :: u64) k \<longleftrightarrow> k = 0" by (simp add: bit_1_iff)
  have "(2 :: u64) = push_bit 1 1" "(3 :: u64) = mask 2" "(7 :: u64) = mask 3"
    by (simp_all add: mask_eq_exp_minus_1)
  then show "bit (2 :: u64) k \<longleftrightarrow> k = 1" "bit (3 :: u64) k \<longleftrightarrow> k = 0 \<or> k = 1" "bit (7 :: u64) k \<longleftrightarrow> k < 3"
    by (auto simp only: bit_push_bit_iff bit_mask_iff bit_1_iff) (auto simp: less_Suc_eq)
qed

lemma bit_two_bits [simp]: "bit (two_bits k) n \<longleftrightarrow> n < 64 \<and> (n = k \<or> n = Suc k)"
  unfolding two_bits_def bit_push_bit_iff bit_small_numerals by auto

lemma bit_push_2: "bit (push_bit k (2 :: u64)) n \<longleftrightarrow> n < 64 \<and> n = Suc k"
  unfolding bit_push_bit_iff bit_small_numerals by auto

text \<open>A register that only has bits of a mask: the WARL invariants are stated with it.\<close>

definition bits_within :: "u64 \<Rightarrow> u64 \<Rightarrow> bool" where
  "bits_within w m \<longleftrightarrow> w AND NOT m = 0"

lemma bits_within_iff: "bits_within w m \<longleftrightarrow> (\<forall>n. bit w n \<longrightarrow> bit m n)"
proof
  assume "bits_within w m"
  then have "\<not> bit (w AND NOT m) n" for n by (simp add: bits_within_def)
  then have "n < 64 \<longrightarrow> bit w n \<longrightarrow> bit m n" for n by (simp add: bit_simps)
  then show "\<forall>n. bit w n \<longrightarrow> bit m n" using bit_u64_less by blast
next
  assume "\<forall>n. bit w n \<longrightarrow> bit m n"
  then show "bits_within w m"
    unfolding bits_within_def by (intro bit_word_eqI) (auto simp: bit_simps)
qed

lemma bits_within_and [simp]: "bits_within (v AND m) m"
  by (auto simp: bits_within_iff bit_simps)

lemma bits_within_0 [simp]: "bits_within 0 m"
  by (simp add: bits_within_def)

lemma bits_within_mono: "bits_within w m \<Longrightarrow> bits_within m m' \<Longrightarrow> bits_within w m'"
  by (auto simp: bits_within_iff)

lemma bits_within_merge:
  "bits_within w m \<Longrightarrow> bits_within k m \<Longrightarrow> bits_within ((w AND NOT k) OR (v AND k)) m"
  by (auto simp: bits_within_iff bit_simps)

lemma bits_within_and_left: "bits_within w m \<Longrightarrow> bits_within (w AND v) m"
  "bits_within v m \<Longrightarrow> bits_within (w AND v) m"
  by (auto simp: bits_within_iff bit_simps)

lemma bits_within_or: "bits_within w m \<Longrightarrow> bits_within v m \<Longrightarrow> bits_within (w OR v) m"
  by (auto simp: bits_within_iff bit_simps)

subsection \<open>Little-endian byte loops\<close>

text \<open>
  The loops \<open>value |= bytes[offset + i] << (8 * i)\<close> and
  \<open>bytes[offset + i] = (value >> (8 * i)) & 0xFF\<close> for \<open>i < n\<close>.
\<close>

definition le_read :: "u8 list \<Rightarrow> nat \<Rightarrow> nat \<Rightarrow> u64" where
  "le_read bs pos n =
     fold (\<lambda>i v. v OR push_bit (8 * i) (ucast (bs ! (pos + i)))) [0..<n] 0"

definition le_write :: "u8 list \<Rightarrow> nat \<Rightarrow> nat \<Rightarrow> u64 \<Rightarrow> u8 list" where
  "le_write bs pos n v =
     fold (\<lambda>i b. b[pos + i := ucast (drop_bit (8 * i) v AND 0xFF)]) [0..<n] bs"

lemma le_read_0 [simp]: "le_read bs pos 0 = 0"
  by (simp add: le_read_def)

lemma le_read_Suc:
  "le_read bs pos (Suc n) = le_read bs pos n OR push_bit (8 * n) (ucast (bs ! (pos + n)))"
  by (simp add: le_read_def)

lemma le_write_0 [simp]: "le_write bs pos 0 v = bs"
  by (simp add: le_write_def)

lemma le_write_Suc:
  "le_write bs pos (Suc n) v =
     (le_write bs pos n v)[pos + n := ucast (drop_bit (8 * n) v AND 0xFF)]"
  by (simp add: le_write_def)

lemma length_le_write [simp]: "length (le_write bs pos n v) = length bs"
  by (induction n) (simp_all add: le_write_Suc)

lemma nth_le_write:
  "j < length bs \<Longrightarrow>
     le_write bs pos n v ! j =
       (if pos \<le> j \<and> j < pos + n then ucast (drop_bit (8 * (j - pos)) v AND 0xFF) else bs ! j)"
  by (induction n) (auto simp: le_write_Suc nth_list_update less_Suc_eq)

lemma bit_le_read_Suc:
  "bit (le_read bs pos (Suc n)) k \<longleftrightarrow>
     bit (le_read bs pos n) k \<or> (k < 64 \<and> 8 * n \<le> k \<and> bit (bs ! (pos + n)) (k - 8 * n))"
  by (auto simp: le_read_Suc bit_simps dest: bit_imp_le_length)

lemma bit_u8_less: "bit (w :: u8) k \<Longrightarrow> k < 8"
  using bit_imp_le_length by fastforce

lemma bit_le_read:
  "bit (le_read bs pos n) k \<longleftrightarrow> k < 64 \<and> k < 8 * n \<and> bit (bs ! (pos + k div 8)) (k mod 8)"
proof (induction n)
  case 0
  then show ?case by simp
next
  case (Suc n)
  consider "k < 8 * n" | "8 * n \<le> k" "k < 8 * Suc n" | "8 * Suc n \<le> k" by linarith
  then show ?case
  proof cases
    case 1
    then show ?thesis using Suc by (simp add: bit_le_read_Suc)
  next
    case 2
    then obtain d where "k = 8 * n + d" "d < 8"
      by (metis add_less_cancel_left le_Suc_ex mult_Suc_right add.commute)
    with Suc show ?thesis by (simp add: bit_le_read_Suc)
  next
    case 3
    then have "\<not> bit (bs ! (pos + n)) (k - 8 * n)" using bit_u8_less by fastforce
    with 3 Suc show ?thesis by (simp add: bit_le_read_Suc)
  qed
qed

lemma le_read_cong:
  assumes "\<And>i. i < n \<Longrightarrow> bs ! (pos + i) = cs ! (qos + i)"
  shows "le_read bs pos n = le_read cs qos n"
  using assms by (induction n) (simp_all add: le_read_Suc)

lemma le_read_take_bit: "take_bit (8 * n) (le_read bs pos n) = le_read bs pos n"
  by (intro bit_word_eqI) (auto simp: bit_simps bit_le_read)

text \<open>Writing and reading back at the same place gives the value cut to the width.\<close>

lemma le_read_write_same:
  assumes "pos + n \<le> length bs"
  shows "le_read (le_write bs pos n v) pos n = take_bit (8 * n) v"
proof (rule bit_word_eqI)
  fix k assume k: "k < LENGTH(64)"
  show "bit (le_read (le_write bs pos n v) pos n) k \<longleftrightarrow> bit (take_bit (8 * n) v) k"
  proof (cases "k < 8 * n")
    case False
    then show ?thesis by (simp add: bit_le_read bit_simps)
  next
    case True
    then have "k div 8 < n" by auto
    moreover have "k mod 8 < 8" by simp
    moreover have "bit (0xFF :: u64) (k mod 8)"
    proof -
      have "(0xFF :: u64) = mask 8" by (simp add: mask_eq_exp_minus_1)
      then show ?thesis using \<open>k mod 8 < 8\<close> by (simp only: bit_mask_iff) simp
    qed
    ultimately show ?thesis
      using True k assms
      by (simp add: bit_le_read nth_le_write bit_simps)
  qed
qed

lemma le_write_take_bit: "n \<le> k \<Longrightarrow> le_write bs pos n (take_bit (8 * k) v) = le_write bs pos n v"
proof (induction n)
  case 0
  then show ?case by simp
next
  case (Suc n)
  have ff: "(0xFF :: u64) = mask 8" by (simp add: mask_eq_exp_minus_1)
  have "drop_bit (8 * n) (take_bit (8 * k) v) AND 0xFF = drop_bit (8 * n) v AND 0xFF"
    using Suc.prems unfolding ff by (intro bit_word_eqI) (auto simp: bit_simps)
  with Suc show ?case by (simp add: le_write_Suc)
qed

text \<open>A write leaves every disjoint read unchanged.\<close>

lemma le_read_write_disjoint:
  assumes "qos + m \<le> length bs" "qos + m \<le> pos \<or> pos + n \<le> qos"
  shows "le_read (le_write bs pos n v) qos m = le_read bs qos m"
  using assms by (intro le_read_cong) (auto simp: nth_le_write)

lemma le_write_read_same:
  assumes "pos + n \<le> length bs" "n \<le> 8"
  shows "le_write bs pos n (le_read bs pos n) = bs"
proof (rule nth_equalityI)
  show "length (le_write bs pos n (le_read bs pos n)) = length bs" by simp
next
  fix j assume "j < length (le_write bs pos n (le_read bs pos n))"
  then have j: "j < length bs" by simp
  show "le_write bs pos n (le_read bs pos n) ! j = bs ! j"
  proof (cases "pos \<le> j \<and> j < pos + n")
    case False
    with j show ?thesis by (auto simp: nth_le_write)
  next
    case True
    define d where "d = j - pos"
    have d: "d < n" "j = pos + d" using True by (auto simp: d_def)
    have ff: "(0xFF :: u64) = mask 8" by (simp add: mask_eq_exp_minus_1)
    have "ucast (drop_bit (8 * d) (le_read bs pos n) AND 0xFF) = bs ! j"
    proof (rule bit_word_eqI)
      fix k assume k: "k < LENGTH(8)"
      have q: "(8 * d + k) div 8 = d" "(8 * d + k) mod 8 = k" using k by auto
      show "bit (ucast (drop_bit (8 * d) (le_read bs pos n) AND 0xFF) :: u8) k
              \<longleftrightarrow> bit (bs ! j) k"
        using k d assms q by (auto simp: bit_simps bit_le_read ff)
    qed
    with True j show ?thesis by (simp add: nth_le_write d_def)
  qed
qed

end
