(* ===== verification/Decoder.thy ===== *)
theory Decoder
  imports Emu_Prelude
begin

unbundle bit_operations_syntax

text \<open>
  The field and immediate extraction of 32-bit instructions: \<open>core/decoder.cpp\<close> with the records of
  \<open>core/instruction.hpp\<close>. A shift count or a bit width is a natural number; every value that the C++
  code keeps in a fixed-width integer is a word of that width.
\<close>

subsection \<open>Instruction packets and decoded fields\<close>

record instruction_packet =
  ip_program_counter :: u64
  ip_bits :: u32
  ip_length :: u8

definition packet_compressed :: "instruction_packet \<Rightarrow> bool" where
  "packet_compressed p \<longleftrightarrow> ip_length p = 2"

record decoded_instruction =
  di_bits :: u32
  di_opcode :: u8
  di_destination :: u8
  di_function3 :: u8
  di_source1 :: u8
  di_source2 :: u8
  di_function7 :: u8

definition decode :: "u32 \<Rightarrow> decoded_instruction" where
  "decode bits = \<lparr>di_bits = bits,
     di_opcode = ucast (bits AND 0x7F),
     di_destination = ucast (drop_bit 7 bits AND 0x1F),
     di_function3 = ucast (drop_bit 12 bits AND 0x07),
     di_source1 = ucast (drop_bit 15 bits AND 0x1F),
     di_source2 = ucast (drop_bit 20 bits AND 0x1F),
     di_function7 = ucast (drop_bit 25 bits AND 0x7F)\<rparr>"

subsection \<open>Sign extension and immediates\<close>

definition sign_extend :: "u64 \<Rightarrow> nat \<Rightarrow> u64" where
  "sign_extend value width =
     (if width = 0 \<or> 64 \<le> width then value
      else let mask' = push_bit width 1 - 1; sign = push_bit (width - 1) 1; narrowed = value AND mask'
        in (narrowed XOR sign) - sign)"

definition immediate_i :: "u32 \<Rightarrow> u64" where
  "immediate_i bits = sign_extend (ucast (drop_bit 20 bits)) 12"

definition immediate_s :: "u32 \<Rightarrow> u64" where
  "immediate_s bits =
     (let upper = push_bit 5 (ucast (drop_bit 25 bits AND 0x7F)); lower = ucast (drop_bit 7 bits AND 0x1F)
      in sign_extend (upper OR lower) 12)"

definition immediate_b :: "u32 \<Rightarrow> u64" where
  "immediate_b bits =
     (let bit12 = push_bit 12 (ucast (drop_bit 31 bits AND 0x01));
          bit11 = push_bit 11 (ucast (drop_bit 7 bits AND 0x01));
          bits10_5 = push_bit 5 (ucast (drop_bit 25 bits AND 0x3F));
          bits4_1 = push_bit 1 (ucast (drop_bit 8 bits AND 0x0F))
      in sign_extend (bit12 OR bit11 OR bits10_5 OR bits4_1) 13)"

definition immediate_u :: "u32 \<Rightarrow> u64" where
  "immediate_u bits = sign_extend (ucast (bits AND 0xFFFFF000)) 32"

definition immediate_j :: "u32 \<Rightarrow> u64" where
  "immediate_j bits =
     (let bit20 = push_bit 20 (ucast (drop_bit 31 bits AND 0x01));
          bits19_12 = push_bit 12 (ucast (drop_bit 12 bits AND 0xFF));
          bit11 = push_bit 11 (ucast (drop_bit 20 bits AND 0x01));
          bits10_1 = push_bit 1 (ucast (drop_bit 21 bits AND 0x3FF))
      in sign_extend (bit20 OR bits19_12 OR bit11 OR bits10_1) 21)"

subsection \<open>Masks as bit predicates\<close>

text \<open>The literal masks of the source, as predicates on bit positions.\<close>

lemma int_literal_masks:
  "(3 :: int) = mask 2"
  "(7 :: int) = mask 3"
  "(15 :: int) = mask 4"
  "(31 :: int) = mask 5"
  "(63 :: int) = mask 6"
  "(127 :: int) = mask 7"
  "(255 :: int) = mask 8"
  "(1023 :: int) = mask 10"
  "(2047 :: int) = mask 11"
  "(4095 :: int) = mask 12"
  "(8191 :: int) = mask 13"
  "(65535 :: int) = mask 16"
  "(2097151 :: int) = mask 21"
  "(4294967295 :: int) = mask 32"
  by (simp_all add: mask_eq_exp_minus_1)

lemma bit_int_literal_mask [emu_bits]:
  "bit (3 :: int) n \<longleftrightarrow> n < 2"
  "bit (7 :: int) n \<longleftrightarrow> n < 3"
  "bit (15 :: int) n \<longleftrightarrow> n < 4"
  "bit (31 :: int) n \<longleftrightarrow> n < 5"
  "bit (63 :: int) n \<longleftrightarrow> n < 6"
  "bit (127 :: int) n \<longleftrightarrow> n < 7"
  "bit (255 :: int) n \<longleftrightarrow> n < 8"
  "bit (1023 :: int) n \<longleftrightarrow> n < 10"
  "bit (2047 :: int) n \<longleftrightarrow> n < 11"
  "bit (4095 :: int) n \<longleftrightarrow> n < 12"
  "bit (8191 :: int) n \<longleftrightarrow> n < 13"
  "bit (65535 :: int) n \<longleftrightarrow> n < 16"
  "bit (2097151 :: int) n \<longleftrightarrow> n < 21"
  "bit (4294967295 :: int) n \<longleftrightarrow> n < 32"
  unfolding int_literal_masks by (simp_all add: bit_mask_iff)

lemma bit_int_upper_immediate [emu_bits]: "bit (0xFFFFF000 :: int) n \<longleftrightarrow> 12 \<le> n \<and> n < 32"
proof -
  have "(0xFFFFF000 :: int) = push_bit 12 (mask 20)" by (simp add: mask_eq_exp_minus_1 push_bit_eq_mult)
  then show ?thesis by (simp only: bit_push_bit_iff bit_mask_iff) auto
qed

lemma bit_word_double [emu_bits]:
  "bit (x * 2) n \<longleftrightarrow> 0 < n \<and> n < LENGTH('a) \<and> bit x (n - 1)" for x :: "'a :: len word"
proof -
  have "x * 2 = push_bit 1 x" by (simp add: push_bit_eq_mult)
  then show ?thesis by (simp only: bit_push_bit_iff possible_bit_word) auto
qed

lemma xor_sign_minus_sign:
  assumes "k < 64"
  shows "(take_bit (Suc k) v XOR 2 ^ k) - 2 ^ k = signed_take_bit k (v :: u64)"
proof (cases "bit v k")
  case True
  have "take_bit (Suc k) v XOR 2 ^ k = take_bit k v"
    using True assms by (intro bit_word_eqI) (auto simp: bit_simps less_Suc_eq)
  moreover have "signed_take_bit k v = take_bit k v OR NOT (mask k)"
    using True by (simp add: signed_take_bit_def)
  moreover have "take_bit k v OR NOT (mask k) = take_bit k v + NOT (mask k)"
    by (rule disjunctive_add_eq_or [symmetric]) (rule bit_word_eqI, auto simp: bit_simps)
  moreover have "NOT (mask k) = - (2 ^ k :: u64)"
    by (simp add: mask_eq_exp_minus_1 not_eq_complement)
  ultimately show ?thesis by simp
next
  case False
  have x: "take_bit (Suc k) v XOR 2 ^ k = take_bit (Suc k) v OR 2 ^ k" "take_bit (Suc k) v AND 2 ^ k = 0"
    using False by (auto intro!: bit_word_eqI simp: bit_simps)
  have "take_bit (Suc k) v XOR 2 ^ k = take_bit (Suc k) v + 2 ^ k"
    unfolding x(1) by (rule disjunctive_add_eq_or [symmetric]) (rule x(2))
  moreover have "take_bit (Suc k) v = signed_take_bit k v"
    using False by (intro bit_word_eqI) (auto simp: bit_simps min_def not_le less_Suc_eq)
  ultimately show ?thesis by simp
qed

lemma sign_extend_eq_signed_take_bit:
  assumes "0 < w" "w < 64"
  shows "sign_extend v w = signed_take_bit (w - 1) v"
proof -
  obtain k where k: "w = Suc k" using assms(1) by (cases w) auto
  have "v AND (push_bit w 1 - 1) = take_bit w v"
    by (simp add: take_bit_eq_mask mask_eq_exp_minus_1 push_bit_eq_mult)
  then have "sign_extend v w = (take_bit (Suc k) v XOR 2 ^ k) - 2 ^ k"
    using assms k by (simp add: sign_extend_def Let_def push_bit_eq_mult)
  then show ?thesis using assms k by (simp add: xor_sign_minus_sign)
qed

lemma sign_extend_bits [emu_bits]:
  assumes "0 < w" "w < 64"
  shows "bit (sign_extend v w) n \<longleftrightarrow> n < 64 \<and> bit v (if n < w then n else w - 1)"
proof -
  obtain k where k: "w = Suc k" using assms(1) by (cases w) auto
  have e: "sign_extend v (Suc k) = signed_take_bit k v"
    using sign_extend_eq_signed_take_bit [OF assms] k by simp
  show ?thesis
    using assms unfolding k e by (auto simp: bit_simps min_def less_Suc_eq not_le)
qed


subsection \<open>The decoded fields and immediates\<close>

lemma u8_field_bound:
  "unat (ucast (x AND 31) :: u8) < 32" "unat (ucast (x AND 7) :: u8) < 8"
  "unat (ucast (x AND 127) :: u8) < 128" for x :: u32
proof -
  have b: "unat (ucast (x AND mask k) :: u8) < 2 ^ k" if "k < 8" for k
  proof -
    have "(ucast (x AND mask k) :: u8) = take_bit k (ucast x)"
      by (rule bit_word_eqI) (auto simp: bit_simps)
    then show ?thesis using that
      by (simp add: unsigned_take_bit_eq)
  qed
  show "unat (ucast (x AND 31) :: u8) < 32" "unat (ucast (x AND 7) :: u8) < 8"
    "unat (ucast (x AND 127) :: u8) < 128"
    using b [of 5] b [of 3] b [of 7] by (simp_all add: mask_eq_exp_minus_1)
qed

lemma decode_register_bounds [simp]:
  "unat (di_destination (decode bits)) < 32" "unat (di_source1 (decode bits)) < 32"
  "unat (di_source2 (decode bits)) < 32"
  by (simp_all add: decode_def u8_field_bound)

lemma decode_selects [simp]: "di_bits (decode bits) = bits"
  by (simp add: decode_def)

lemma nat_less_splits:
  "(n :: nat) < 12 \<longleftrightarrow> n < 11 \<or> n = 11" "(n :: nat) < 13 \<longleftrightarrow> n < 11 \<or> n = 11 \<or> n = 12"
  "(n :: nat) < 21 \<longleftrightarrow> n < 20 \<or> n = 20" "(n :: nat) < 32 \<longleftrightarrow> n < 31 \<or> n = 31"
  by auto

lemma bit_u32_le: "bit (x :: u32) n \<Longrightarrow> n < 32"
  using bit_imp_le_length by fastforce

lemma immediate_bits:
  "bit (immediate_i x) n \<longleftrightarrow> n < 64 \<and> bit x (if n < 11 then 20 + n else 31)"
  "bit (immediate_s x) n \<longleftrightarrow> n < 64 \<and> bit x (if n < 5 then 7 + n else if n < 11 then 20 + n else 31)"
  "bit (immediate_b x) n \<longleftrightarrow> n < 64 \<and> n \<noteq> 0 \<and>
     bit x (if n < 5 then 7 + n else if n < 11 then 20 + n else if n = 11 then 7 else 31)"
  "bit (immediate_u x) n \<longleftrightarrow> n < 64 \<and> 12 \<le> n \<and> bit x (if n < 31 then n else 31)"
  "bit (immediate_j x) n \<longleftrightarrow> n < 64 \<and> n \<noteq> 0 \<and>
     bit x (if n < 11 then 20 + n else if n = 11 then 20 else if n < 20 then n else 31)"
proof -
  show "bit (immediate_i x) n \<longleftrightarrow> n < 64 \<and> bit x (if n < 11 then 20 + n else 31)"
    by (auto simp: immediate_i_def emu_bits bit_simps nat_less_splits dest: bit_u32_le)
  show "bit (immediate_s x) n \<longleftrightarrow> n < 64 \<and> bit x (if n < 5 then 7 + n else if n < 11 then 20 + n else 31)"
    by (auto simp: immediate_s_def Let_def emu_bits bit_simps nat_less_splits dest: bit_u32_le)
  show "bit (immediate_b x) n \<longleftrightarrow> n < 64 \<and> n \<noteq> 0 \<and>
      bit x (if n < 5 then 7 + n else if n < 11 then 20 + n else if n = 11 then 7 else 31)"
    by (auto simp: immediate_b_def Let_def emu_bits bit_simps nat_less_splits dest: bit_u32_le)
  show "bit (immediate_u x) n \<longleftrightarrow> n < 64 \<and> 12 \<le> n \<and> bit x (if n < 31 then n else 31)"
    by (auto simp: immediate_u_def Let_def emu_bits bit_simps nat_less_splits dest: bit_u32_le)
  show "bit (immediate_j x) n \<longleftrightarrow> n < 64 \<and> n \<noteq> 0 \<and>
      bit x (if n < 11 then 20 + n else if n = 11 then 20 else if n < 20 then n else 31)"
    by (auto simp: immediate_j_def Let_def emu_bits bit_simps nat_less_splits dest: bit_u32_le)
qed

text \<open>C28. The immediates are the ones of the instruction formats: each bit of the 64-bit immediate is the
  instruction bit that the I, S, B, U and J formats place there, the sign is instruction bit 31, and bit 0
  of a branch or jump offset is always clear.\<close>

theorem immediates_exact:
  "(bit (immediate_i x) n \<longleftrightarrow> n < 64 \<and> bit x (if n < 11 then 20 + n else 31)) \<and>
   (bit (immediate_s x) n \<longleftrightarrow> n < 64 \<and> bit x (if n < 5 then 7 + n else if n < 11 then 20 + n else 31)) \<and>
   (bit (immediate_b x) n \<longleftrightarrow> n < 64 \<and> n \<noteq> 0 \<and>
      bit x (if n < 5 then 7 + n else if n < 11 then 20 + n else if n = 11 then 7 else 31)) \<and>
   (bit (immediate_u x) n \<longleftrightarrow> n < 64 \<and> 12 \<le> n \<and> bit x (if n < 31 then n else 31)) \<and>
   (bit (immediate_j x) n \<longleftrightarrow> n < 64 \<and> n \<noteq> 0 \<and>
      bit x (if n < 11 then 20 + n else if n = 11 then 20 else if n < 20 then n else 31))"
  by (intro conjI immediate_bits)

end
