(* ===== verification/Compressed_Decoder.thy ===== *)
theory Compressed_Decoder
  imports Decoder
begin

unbundle bit_operations_syntax

text \<open>
  The RV64C decompressor: \<open>core/compressed_decoder.cpp\<close>. A 16-bit encoding is expanded to one 32-bit
  instruction, or to nothing when the encoding is reserved.
\<close>

definition kNop :: u32 where "kNop = 0x00000013"
definition kEbreak :: u32 where "kEbreak = 0x00100073"

definition compact_register :: "u16 \<Rightarrow> u8" where
  "compact_register field = ucast (8 + (field AND 0x7))"

definition full_register :: "u16 \<Rightarrow> nat \<Rightarrow> u8" where
  "full_register bits shift = ucast (drop_bit shift bits AND 0x1F)"

subsection \<open>Encoders of the standard formats\<close>

definition encode_i :: "u8 \<Rightarrow> u8 \<Rightarrow> u8 \<Rightarrow> u8 \<Rightarrow> u64 \<Rightarrow> u32" where
  "encode_i opcode destination function3 source immediate =
     push_bit 20 (ucast (immediate AND 0xFFF)) OR push_bit 15 (ucast source)
     OR push_bit 12 (ucast function3) OR push_bit 7 (ucast destination) OR ucast opcode"

definition encode_r :: "u8 \<Rightarrow> u8 \<Rightarrow> u8 \<Rightarrow> u8 \<Rightarrow> u8 \<Rightarrow> u8 \<Rightarrow> u32" where
  "encode_r opcode destination function3 source1 source2 function7 =
     push_bit 25 (ucast function7) OR push_bit 20 (ucast source2) OR push_bit 15 (ucast source1)
     OR push_bit 12 (ucast function3) OR push_bit 7 (ucast destination) OR ucast opcode"

definition encode_s :: "u8 \<Rightarrow> u8 \<Rightarrow> u8 \<Rightarrow> u8 \<Rightarrow> u64 \<Rightarrow> u32" where
  "encode_s opcode function3 source1 source2 immediate =
     (let encoded = ucast (immediate AND 0xFFF) in
      push_bit 25 (drop_bit 5 encoded) OR push_bit 20 (ucast source2) OR push_bit 15 (ucast source1)
      OR push_bit 12 (ucast function3) OR push_bit 7 (encoded AND 0x1F) OR ucast opcode)"

definition encode_b :: "u8 \<Rightarrow> u8 \<Rightarrow> u8 \<Rightarrow> u64 \<Rightarrow> u32" where
  "encode_b function3 source1 source2 immediate =
     (let encoded = ucast (immediate AND 0x1FFF) in
      push_bit 31 (drop_bit 12 encoded AND 1) OR push_bit 25 (drop_bit 5 encoded AND 0x3F)
      OR push_bit 20 (ucast source2) OR push_bit 15 (ucast source1) OR push_bit 12 (ucast function3)
      OR push_bit 8 (drop_bit 1 encoded AND 0x0F) OR push_bit 7 (drop_bit 11 encoded AND 1) OR 0x63)"

definition encode_j :: "u64 \<Rightarrow> u32" where
  "encode_j immediate =
     (let encoded = ucast (immediate AND 0x1FFFFF) in
      push_bit 31 (drop_bit 20 encoded AND 1) OR push_bit 21 (drop_bit 1 encoded AND 0x3FF)
      OR push_bit 20 (drop_bit 11 encoded AND 1) OR push_bit 12 (drop_bit 12 encoded AND 0xFF) OR 0x6F)"

subsection \<open>Compressed immediates\<close>

definition ci_immediate :: "u16 \<Rightarrow> u64" where
  "ci_immediate bits = sign_extend (ucast ((drop_bit 7 bits AND 0x20) OR (drop_bit 2 bits AND 0x1F))) 6"

definition jump_immediate :: "u16 \<Rightarrow> u64" where
  "jump_immediate bits = sign_extend
     (push_bit 11 (ucast (drop_bit 12 bits AND 1)) OR push_bit 4 (ucast (drop_bit 11 bits AND 1))
      OR push_bit 8 (ucast (drop_bit 9 bits AND 0x3)) OR push_bit 10 (ucast (drop_bit 8 bits AND 1))
      OR push_bit 6 (ucast (drop_bit 7 bits AND 1)) OR push_bit 7 (ucast (drop_bit 6 bits AND 1))
      OR push_bit 1 (ucast (drop_bit 3 bits AND 0x7)) OR push_bit 5 (ucast (drop_bit 2 bits AND 1))) 12"

definition branch_immediate :: "u16 \<Rightarrow> u64" where
  "branch_immediate bits = sign_extend
     (push_bit 8 (ucast (drop_bit 12 bits AND 1)) OR push_bit 3 (ucast (drop_bit 10 bits AND 0x3))
      OR push_bit 6 (ucast (drop_bit 5 bits AND 0x3)) OR push_bit 1 (ucast (drop_bit 3 bits AND 0x3))
      OR push_bit 5 (ucast (drop_bit 2 bits AND 1))) 9"

subsection \<open>The three quadrants\<close>

definition decompress_quadrant0 :: "u16 \<Rightarrow> u8 \<Rightarrow> u32 option" where
  "decompress_quadrant0 bits function3 =
     (let destination = compact_register (drop_bit 2 bits);
          source1 = compact_register (drop_bit 7 bits);
          source2 = compact_register (drop_bit 2 bits)
      in
      if function3 = 0 then
        let immediate = push_bit 6 (ucast (drop_bit 7 bits AND 0xF)) OR push_bit 4 (ucast (drop_bit 11 bits AND 0x3))
              OR push_bit 3 (ucast (drop_bit 5 bits AND 1)) OR push_bit 2 (ucast (drop_bit 6 bits AND 1))
        in if immediate = 0 then None else Some (encode_i 0x13 destination 0 2 immediate)
      else if function3 = 1 \<or> function3 = 3 then
        let immediate = push_bit 6 (ucast (drop_bit 5 bits AND 0x3)) OR push_bit 3 (ucast (drop_bit 10 bits AND 0x7))
        in Some (encode_i (if function3 = 1 then 0x07 else 0x03) destination 3 source1 immediate)
      else if function3 = 2 then
        let immediate = push_bit 6 (ucast (drop_bit 5 bits AND 1)) OR push_bit 3 (ucast (drop_bit 10 bits AND 0x7))
              OR push_bit 2 (ucast (drop_bit 6 bits AND 1))
        in Some (encode_i 0x03 destination 2 source1 immediate)
      else if function3 = 5 \<or> function3 = 7 then
        let immediate = push_bit 6 (ucast (drop_bit 5 bits AND 0x3)) OR push_bit 3 (ucast (drop_bit 10 bits AND 0x7))
        in Some (encode_s (if function3 = 5 then 0x27 else 0x23) 3 source1 source2 immediate)
      else if function3 = 6 then
        let immediate = push_bit 6 (ucast (drop_bit 5 bits AND 1)) OR push_bit 3 (ucast (drop_bit 10 bits AND 0x7))
              OR push_bit 2 (ucast (drop_bit 6 bits AND 1))
        in Some (encode_s 0x23 2 source1 source2 immediate)
      else None)"

definition decompress_misc_alu :: "u16 \<Rightarrow> u32 option" where
  "decompress_misc_alu bits =
     (let destination = compact_register (drop_bit 7 bits);
          selector = (ucast (drop_bit 10 bits AND 0x3) :: u8)
      in
      if selector < 2 then
        let shift = (ucast ((drop_bit 7 bits AND 0x20) OR (drop_bit 2 bits AND 0x1F)) :: u64)
        in if shift = 0 then Some kNop
           else let immediate = (if selector = 0 then shift else 0x400 OR shift)
             in Some (encode_i 0x13 destination 5 destination immediate)
      else if selector = 2 then
        Some (encode_i 0x13 destination 7 destination (ci_immediate bits))
      else
        let source2 = compact_register (drop_bit 2 bits);
            function2 = (ucast (drop_bit 5 bits AND 0x3) :: u8);
            word_operation = (drop_bit 12 bits AND 1 \<noteq> 0);
            functions = [0, 4, 6, 7]
        in
        if \<not> word_operation then
          Some (encode_r 0x33 destination (functions ! unat function2) destination source2
                  (if function2 = 0 then 0x20 else 0))
        else if 1 < function2 then None
        else Some (encode_r 0x3B destination 0 destination source2 (if function2 = 0 then 0x20 else 0)))"

definition decompress_quadrant1 :: "u16 \<Rightarrow> u8 \<Rightarrow> u32 option" where
  "decompress_quadrant1 bits function3 =
     (let destination = full_register bits 7; immediate = ci_immediate bits in
      if function3 = 0 then
        if destination = 0 \<or> immediate = 0 then Some kNop
        else Some (encode_i 0x13 destination 0 destination immediate)
      else if function3 = 1 then
        if destination = 0 then None else Some (encode_i 0x1B destination 0 destination immediate)
      else if function3 = 2 then
        if destination = 0 then Some kNop else Some (encode_i 0x13 destination 0 0 immediate)
      else if function3 = 3 then
        if destination = 2 then
          let encoded = push_bit 9 (ucast (drop_bit 12 bits AND 1)) OR push_bit 4 (ucast (drop_bit 6 bits AND 1))
                OR push_bit 6 (ucast (drop_bit 5 bits AND 1)) OR push_bit 7 (ucast (drop_bit 3 bits AND 0x3))
                OR push_bit 5 (ucast (drop_bit 2 bits AND 1));
              stack_immediate = sign_extend encoded 10
          in if stack_immediate = 0 then None else Some (encode_i 0x13 2 0 2 stack_immediate)
        else if immediate = 0 then None
        else if destination = 0 then Some kNop
        else Some (ucast (push_bit 12 immediate AND 0xFFFFF000) OR push_bit 7 (ucast destination) OR 0x37)
      else if function3 = 4 then decompress_misc_alu bits
      else if function3 = 5 then Some (encode_j (jump_immediate bits))
      else if function3 = 6 \<or> function3 = 7 then
        Some (encode_b (if function3 = 6 then 0 else 1) (compact_register (drop_bit 7 bits)) 0 (branch_immediate bits))
      else None)"

definition decompress_cr :: "u16 \<Rightarrow> u32 option" where
  "decompress_cr bits =
     (let destination = full_register bits 7; source2 = full_register bits 2;
          high_bit = (drop_bit 12 bits AND 1 \<noteq> 0)
      in
      if \<not> high_bit \<and> source2 = 0 then
        if destination = 0 then None else Some (encode_i 0x67 0 0 destination 0)
      else if \<not> high_bit then
        if destination = 0 then Some kNop else Some (encode_r 0x33 destination 0 0 source2 0)
      else if source2 = 0 then
        if destination = 0 then Some kEbreak else Some (encode_i 0x67 1 0 destination 0)
      else if destination = 0 then Some kNop
      else Some (encode_r 0x33 destination 0 destination source2 0))"

definition decompress_quadrant2 :: "u16 \<Rightarrow> u8 \<Rightarrow> u32 option" where
  "decompress_quadrant2 bits function3 =
     (let destination = full_register bits 7; source2 = full_register bits 2 in
      if function3 = 0 then
        let shift = (ucast ((drop_bit 7 bits AND 0x20) OR (drop_bit 2 bits AND 0x1F)) :: u64)
        in if destination = 0 \<or> shift = 0 then Some kNop
           else Some (encode_i 0x13 destination 1 destination shift)
      else if function3 = 1 \<or> function3 = 3 then
        let immediate = push_bit 6 (ucast (drop_bit 2 bits AND 0x7)) OR push_bit 5 (ucast (drop_bit 12 bits AND 1))
              OR push_bit 3 (ucast (drop_bit 5 bits AND 0x3))
        in if function3 = 3 \<and> destination = 0 then None
           else Some (encode_i (if function3 = 1 then 0x07 else 0x03) destination 3 2 immediate)
      else if function3 = 2 then
        if destination = 0 then None
        else let immediate = push_bit 6 (ucast (drop_bit 2 bits AND 0x3)) OR push_bit 5 (ucast (drop_bit 12 bits AND 1))
                   OR push_bit 2 (ucast (drop_bit 4 bits AND 0x7))
          in Some (encode_i 0x03 destination 2 2 immediate)
      else if function3 = 4 then decompress_cr bits
      else if function3 = 5 \<or> function3 = 7 then
        let immediate = push_bit 6 (ucast (drop_bit 7 bits AND 0x7)) OR push_bit 3 (ucast (drop_bit 10 bits AND 0x7))
        in Some (encode_s (if function3 = 5 then 0x27 else 0x23) 3 2 source2 immediate)
      else if function3 = 6 then
        let immediate = push_bit 6 (ucast (drop_bit 7 bits AND 0x3)) OR push_bit 2 (ucast (drop_bit 9 bits AND 0xF))
        in Some (encode_s 0x23 2 2 source2 immediate)
      else None)"

definition decompress_rv64c :: "u16 \<Rightarrow> u32 option" where
  "decompress_rv64c bits =
     (let quadrant = (ucast (bits AND 0x3) :: u8); function3 = (ucast (drop_bit 13 bits AND 0x7) :: u8) in
      if quadrant = 0 then decompress_quadrant0 bits function3
      else if quadrant = 1 then decompress_quadrant1 bits function3
      else if quadrant = 2 then decompress_quadrant2 bits function3
      else None)"

subsection \<open>Encoding and decoding\<close>

lemma u8_low_bits: "unat (x :: u8) < 2 ^ k \<Longrightarrow> bit x n \<Longrightarrow> n < k"
  by (metis bit_take_bit_iff take_bit_nat_eq_self unsigned_take_bit_eq word_unat_eq_iff)

lemma u8_high_bits_clear:
  "x < 128 \<Longrightarrow> 7 \<le> n \<Longrightarrow> \<not> bit (x :: u8) n" "x < 32 \<Longrightarrow> 5 \<le> n \<Longrightarrow> \<not> bit (x :: u8) n"
  "x < 8 \<Longrightarrow> 3 \<le> n \<Longrightarrow> \<not> bit (x :: u8) n"
  using u8_low_bits [of x 7 n] u8_low_bits [of x 5 n] u8_low_bits [of x 3 n]
  by (auto simp add: word_less_nat_alt)

lemma u8_low_bits_rules:
  "bit (x :: u8) n \<Longrightarrow> x < 128 \<Longrightarrow> n < 7" "bit (x :: u8) n \<Longrightarrow> x < 32 \<Longrightarrow> n < 5"
  "bit (x :: u8) n \<Longrightarrow> x < 8 \<Longrightarrow> n < 3"
  using u8_high_bits_clear [of x n] not_le by blast+

lemmas encode_bits = decode_def emu_bits bit_simps u8_high_bits_clear

lemma encode_i_fields:
  assumes "opcode < 128" "rd < 32" "f3 < 8" "rs < 32"
  shows "di_opcode (decode (encode_i opcode rd f3 rs imm)) = opcode"
    "di_destination (decode (encode_i opcode rd f3 rs imm)) = rd"
    "di_function3 (decode (encode_i opcode rd f3 rs imm)) = f3"
    "di_source1 (decode (encode_i opcode rd f3 rs imm)) = rs"
    "immediate_i (encode_i opcode rd f3 rs imm) = sign_extend imm 12"
  using assms
  by (auto intro!: bit_word_eqI simp: encode_i_def immediate_i_def encode_bits intro: u8_low_bits_rules)

lemma encode_r_fields:
  assumes "opcode < 128" "rd < 32" "f3 < 8" "rs1 < 32" "rs2 < 32" "f7 < 128"
  shows "di_opcode (decode (encode_r opcode rd f3 rs1 rs2 f7)) = opcode"
    "di_destination (decode (encode_r opcode rd f3 rs1 rs2 f7)) = rd"
    "di_function3 (decode (encode_r opcode rd f3 rs1 rs2 f7)) = f3"
    "di_source1 (decode (encode_r opcode rd f3 rs1 rs2 f7)) = rs1"
    "di_source2 (decode (encode_r opcode rd f3 rs1 rs2 f7)) = rs2"
    "di_function7 (decode (encode_r opcode rd f3 rs1 rs2 f7)) = f7"
  using assms
  by (auto intro!: bit_word_eqI simp: encode_r_def encode_bits intro: u8_low_bits_rules)

lemma encode_s_fields:
  assumes "opcode < 128" "f3 < 8" "rs1 < 32" "rs2 < 32"
  shows "di_opcode (decode (encode_s opcode f3 rs1 rs2 imm)) = opcode"
    "di_function3 (decode (encode_s opcode f3 rs1 rs2 imm)) = f3"
    "di_source1 (decode (encode_s opcode f3 rs1 rs2 imm)) = rs1"
    "di_source2 (decode (encode_s opcode f3 rs1 rs2 imm)) = rs2"
    "immediate_s (encode_s opcode f3 rs1 rs2 imm) = sign_extend imm 12"
  using assms
  by (auto intro!: bit_word_eqI simp: encode_s_def immediate_s_def Let_def encode_bits intro: u8_low_bits_rules)

text \<open>Enumerations of the bit positions of an immediate.\<close>

lemma below_8: "(bit_index :: nat) = 0 \<or> bit_index = 1 \<or> bit_index = 2 \<or> bit_index = 3 \<or> bit_index = 4 \<or> bit_index = 5 \<or> bit_index = 6 \<or> bit_index = 7 \<or> 8 \<le> bit_index"
  by presburger

lemma below_13: "(bit_index :: nat) = 0 \<or> bit_index = 1 \<or> bit_index = 2 \<or> bit_index = 3 \<or> bit_index = 4 \<or> bit_index = 5 \<or> bit_index = 6 \<or> bit_index = 7 \<or> bit_index = 8 \<or> bit_index = 9 \<or> bit_index = 10 \<or> bit_index = 11 \<or> bit_index = 12 \<or> 13 \<le> bit_index"
  by presburger

lemma below_21: "(bit_index :: nat) = 0 \<or> bit_index = 1 \<or> bit_index = 2 \<or> bit_index = 3 \<or> bit_index = 4 \<or> bit_index = 5 \<or> bit_index = 6 \<or> bit_index = 7 \<or> bit_index = 8 \<or> bit_index = 9 \<or> bit_index = 10
     \<or> bit_index = 11 \<or> bit_index = 12 \<or> bit_index = 13 \<or> bit_index = 14 \<or> bit_index = 15 \<or> bit_index = 16 \<or> bit_index = 17 \<or> bit_index = 18 \<or> bit_index = 19 \<or> bit_index = 20 \<or> 21 \<le> bit_index"
  by presburger

lemma encode_b_fields:
  assumes "f3 < 8" "rs1 < 32" "rs2 < 32"
  shows "di_opcode (decode (encode_b f3 rs1 rs2 imm)) = 0x63"
    "di_function3 (decode (encode_b f3 rs1 rs2 imm)) = f3"
    "di_source1 (decode (encode_b f3 rs1 rs2 imm)) = rs1"
    "di_source2 (decode (encode_b f3 rs1 rs2 imm)) = rs2"
proof -
  show "di_opcode (decode (encode_b f3 rs1 rs2 imm)) = 0x63"
  proof (rule bit_word_eqI)
    fix n assume "n < LENGTH(8)"
    then show "bit (di_opcode (decode (encode_b f3 rs1 rs2 imm))) n = bit (0x63 :: u8) n"
      using below_8 [of n] assms by (elim disjE; simp add: encode_b_def Let_def encode_bits)
  qed
qed (use assms in \<open>auto intro!: bit_word_eqI simp: encode_b_def Let_def encode_bits intro: u8_low_bits_rules\<close>)

lemma encode_b_immediate:
  assumes "f3 < 8" "rs1 < 32" "rs2 < 32"
  shows "immediate_b (encode_b f3 rs1 rs2 imm) = sign_extend (imm AND NOT 1) 13"
proof (rule bit_word_eqI)
  fix n assume "n < LENGTH(64)"
  then show "bit (immediate_b (encode_b f3 rs1 rs2 imm)) n = bit (sign_extend (imm AND NOT 1) 13) n"
    using assms below_13 [of n]
    by (elim disjE; simp add: immediate_bits encode_b_def Let_def encode_bits numeral_2_eq_2 [symmetric])
qed

lemma encode_j_fields:
  "di_opcode (decode (encode_j imm)) = 0x6F" "di_destination (decode (encode_j imm)) = 0"
proof -
  show "di_opcode (decode (encode_j imm)) = 0x6F"
  proof (rule bit_word_eqI)
    fix n assume "n < LENGTH(8)"
    then show "bit (di_opcode (decode (encode_j imm))) n = bit (0x6F :: u8) n"
      using below_8 [of n] by (elim disjE; simp add: encode_j_def Let_def encode_bits)
  qed
  show "di_destination (decode (encode_j imm)) = 0"
  proof (rule bit_word_eqI)
    fix n assume "n < LENGTH(8)"
    then show "bit (di_destination (decode (encode_j imm))) n = bit (0 :: u8) n"
      using below_8 [of n] by (elim disjE; simp add: encode_j_def Let_def encode_bits)
  qed
qed

lemma encode_j_immediate: "immediate_j (encode_j imm) = sign_extend (imm AND NOT 1) 21"
proof (rule bit_word_eqI)
  fix n assume "n < LENGTH(64)"
  then show "bit (immediate_j (encode_j imm)) n = bit (sign_extend (imm AND NOT 1) 21) n"
    using below_21 [of n]
    by (elim disjE; simp add: immediate_bits encode_j_def Let_def encode_bits numeral_2_eq_2 [symmetric])
qed

subsection \<open>What an expansion looks like\<close>

text \<open>
  The shape every expansion has: one of the standard opcodes, and for a load or a store an offset that is a
  multiple of the access size below 512.
\<close>

definition scaled_offset :: "u8 \<Rightarrow> u64 \<Rightarrow> bool" where
  "scaled_offset f3 offset \<longleftrightarrow> (f3 = 2 \<or> f3 = 3) \<and> unat offset < 512 \<and> 2 ^ unat f3 dvd unat offset"

definition rvc_expansion :: "u32 \<Rightarrow> bool" where
  "rvc_expansion e \<longleftrightarrow>
     di_opcode (decode e) \<in> {0x03, 0x07, 0x13, 0x1B, 0x23, 0x27, 0x33, 0x37, 0x3B, 0x63, 0x67, 0x6F}
     \<and> (di_opcode (decode e) \<in> {0x03, 0x07} \<longrightarrow> scaled_offset (di_function3 (decode e)) (immediate_i e))
     \<and> (di_opcode (decode e) \<in> {0x23, 0x27} \<longrightarrow> scaled_offset (di_function3 (decode e)) (immediate_s e))"

lemma scaled_offset_bits:
  assumes "f3 = 2 \<or> f3 = 3" "\<And>n. bit imm n \<Longrightarrow> unat f3 \<le> n \<and> n < 9"
  shows "scaled_offset f3 (sign_extend imm 12)"
proof -
  have e: "sign_extend imm 12 = imm"
    by (rule bit_word_eqI) (use assms(2) in \<open>force simp: sign_extend_bits\<close>)
  have "take_bit 9 imm = imm" by (rule bit_word_eqI) (use assms(2) in \<open>auto simp: bit_simps\<close>)
  then have "unat imm = take_bit 9 (unat imm)" by (metis unsigned_take_bit_eq)
  then have lt: "unat imm < 512" using take_bit_nat_less_exp [of 9 "unat imm"] by simp
  have "take_bit (unat f3) imm = 0"
    by (rule bit_word_eqI) (use assms(2) in \<open>auto simp: bit_simps dest: leD\<close>)
  then have "take_bit (unat f3) (unat imm) = 0" by (metis unsigned_0 unsigned_take_bit_eq)
  then have "2 ^ unat f3 dvd unat imm" by (simp add: take_bit_eq_0_iff)
  with assms(1) lt e show ?thesis by (simp add: scaled_offset_def)
qed

lemma rvc_expansion_i:
  "opcode \<in> {0x13, 0x1B, 0x67} \<Longrightarrow> rd < 32 \<Longrightarrow> f3 < 8 \<Longrightarrow> rs < 32 \<Longrightarrow> rvc_expansion (encode_i opcode rd f3 rs imm)"
  by (auto simp: rvc_expansion_def encode_i_fields)

lemma rvc_expansion_load:
  assumes "opcode \<in> {0x03, 0x07}" "rd < 32" "rs < 32" "f3 = 2 \<or> f3 = 3"
    "\<And>n. bit imm n \<Longrightarrow> unat f3 \<le> n \<and> n < 9"
  shows "rvc_expansion (encode_i opcode rd f3 rs imm)"
proof -
  have "opcode < 128" "f3 < 8" using assms by auto
  then show ?thesis
    using assms scaled_offset_bits [OF assms(4,5)] by (auto simp: rvc_expansion_def encode_i_fields)
qed

lemma rvc_expansion_store:
  assumes "opcode \<in> {0x23, 0x27}" "rs1 < 32" "rs2 < 32" "f3 = 2 \<or> f3 = 3"
    "\<And>n. bit imm n \<Longrightarrow> unat f3 \<le> n \<and> n < 9"
  shows "rvc_expansion (encode_s opcode f3 rs1 rs2 imm)"
proof -
  have "opcode < 128" "f3 < 8" using assms by auto
  then show ?thesis
    using assms scaled_offset_bits [OF assms(4,5)] by (auto simp: rvc_expansion_def encode_s_fields)
qed

lemma rvc_expansion_r:
  "opcode \<in> {0x33, 0x3B} \<Longrightarrow> rd < 32 \<Longrightarrow> f3 < 8 \<Longrightarrow> rs1 < 32 \<Longrightarrow> rs2 < 32 \<Longrightarrow> f7 < 128 \<Longrightarrow>
     rvc_expansion (encode_r opcode rd f3 rs1 rs2 f7)"
  by (auto simp: rvc_expansion_def encode_r_fields)

lemma rvc_expansion_b: "f3 < 8 \<Longrightarrow> rs1 < 32 \<Longrightarrow> rs2 < 32 \<Longrightarrow> rvc_expansion (encode_b f3 rs1 rs2 imm)"
  by (auto simp: rvc_expansion_def encode_b_fields)

lemma rvc_expansion_j: "rvc_expansion (encode_j imm)"
  by (auto simp: rvc_expansion_def encode_j_fields)

lemma rvc_expansion_nop: "rvc_expansion kNop"
  by code_simp

lemma rvc_expansion_lui:
  "rvc_expansion (ucast (push_bit 12 imm AND (0xFFFFF000 :: u64)) OR push_bit 7 (ucast (rd :: u8)) OR 0x37)"
proof -
  let ?e = "ucast (push_bit 12 imm AND (0xFFFFF000 :: u64)) OR push_bit 7 (ucast rd) OR (0x37 :: u32)"
  have "di_opcode (decode ?e) = 0x37"
  proof (rule bit_word_eqI)
    fix n assume "n < LENGTH(8)"
    then show "bit (di_opcode (decode ?e)) n = bit (0x37 :: u8) n"
      using below_8 [of n] by (elim disjE; simp add: encode_bits)
  qed
  then show ?thesis by (simp add: rvc_expansion_def)
qed

lemmas rvc_expansion_i_opcodes = rvc_expansion_i [of "0x13", simplified] rvc_expansion_i [of "0x1B", simplified]
  rvc_expansion_i [of "0x67", simplified] rvc_expansion_load [of "0x03", simplified]
  rvc_expansion_load [of "0x07", simplified]

lemmas rvc_expansion_intros = rvc_expansion_i_opcodes rvc_expansion_store rvc_expansion_r
  rvc_expansion_b rvc_expansion_j rvc_expansion_nop rvc_expansion_lui

lemma compact_register_bound: "compact_register f < 32"
proof -
  have "unat (f AND 7) < 8"
    using unat_mono [of "f AND 7" 8] word_and_le1 [of f 7] by (simp add: word_le_nat_alt le_less_trans)
  then have "unat (8 + (f AND 7)) < 16" by (simp add: unat_word_ariths)
  then have "take_bit 8 (unat (8 + (f AND 7))) < 32"
    using take_bit_nat_less_eq_self [of 8 "unat (8 + (f AND 7))"] by linarith
  then show ?thesis by (simp add: compact_register_def word_less_nat_alt unsigned_ucast_eq)
qed

lemma full_register_bound: "full_register b s < 32"
proof -
  have "unat (drop_bit s b AND 31) \<le> 31"
    using word_and_le1 [of "drop_bit s b" 31] by (simp add: word_le_nat_alt)
  then have "take_bit 8 (unat (drop_bit s b AND 31)) < 32"
    using take_bit_nat_less_eq_self [of 8 "unat (drop_bit s b AND 31)"] by linarith
  then show ?thesis by (simp add: full_register_def word_less_nat_alt unsigned_ucast_eq)
qed

lemmas register_bounds = compact_register_bound full_register_bound

lemma decompress_quadrant0_shape: "decompress_quadrant0 bits f3 = Some e \<Longrightarrow> rvc_expansion e"
  by (auto simp: decompress_quadrant0_def Let_def register_bounds bit_simps emu_bits split: if_splits
      intro!: rvc_expansion_intros)

lemma alu_functions_bound: "[0, 4, 6, 7 :: u8] ! unat (ucast (x AND 3) :: u8) < 8" for x :: u16
proof -
  have "unat (x AND 3) \<le> 3" using word_and_le1 [of x 3] by (simp add: word_le_nat_alt)
  then have "take_bit 8 (unat (x AND 3)) < 4"
    using take_bit_nat_less_eq_self [of 8 "unat (x AND 3)"] by linarith
  then have "unat (ucast (x AND 3) :: u8) \<in> {0, 1, 2, 3}"
    by (simp add: unsigned_ucast_eq) linarith
  then show ?thesis by (elim insertE; simp)
qed

lemma decompress_misc_alu_shape: "decompress_misc_alu bits = Some e \<Longrightarrow> rvc_expansion e"
  by (auto simp: decompress_misc_alu_def Let_def register_bounds alu_functions_bound split: if_splits
      intro!: rvc_expansion_intros)

lemma decompress_quadrant1_shape: "decompress_quadrant1 bits f3 = Some e \<Longrightarrow> rvc_expansion e"
  by (auto simp: decompress_quadrant1_def Let_def register_bounds decompress_misc_alu_shape split: if_splits
      intro!: rvc_expansion_intros)

lemma decompress_cr_shape: "decompress_cr bits = Some e \<Longrightarrow> e = kEbreak \<or> rvc_expansion e"
  by (auto simp: decompress_cr_def Let_def register_bounds split: if_splits
      intro!: rvc_expansion_intros)

lemma decompress_quadrant2_shape: "decompress_quadrant2 bits f3 = Some e \<Longrightarrow> e = kEbreak \<or> rvc_expansion e"
  by (auto simp: decompress_quadrant2_def Let_def register_bounds bit_simps emu_bits split: if_splits
      dest!: decompress_cr_shape intro!: rvc_expansion_intros)

lemma rvc_expansion_low_bits:
  assumes "rvc_expansion e"
  shows "e AND 3 = 3"
proof -
  have "bit (di_opcode (decode e)) n \<longleftrightarrow> n < 7 \<and> bit e n" for n
    by (auto simp: encode_bits)
  moreover have "bit (di_opcode (decode e)) 0 \<and> bit (di_opcode (decode e)) 1"
    using assms unfolding rvc_expansion_def by (elim conjE insertE emptyE; simp)
  ultimately have "bit e 0" "bit e 1" by blast+
  then show ?thesis
    by (intro bit_word_eqI) (auto simp: bit_and_iff bit_int_literal_mask less_2_cases_iff)
qed

text \<open>The decompressor only produces standard instructions: an expansion exists only for a 16-bit
  encoding, it is itself a 32-bit encoding, it is a plain computational, memory or control-transfer
  instruction or EBREAK (so never a CSR access or a privileged instruction), and the offset of an expanded
  load or store is a multiple of the access size below 512.\<close>

theorem compressed_expansion_standard:
  assumes "decompress_rv64c bits = Some e"
  shows "bits AND 3 \<noteq> 3 \<and> e AND 3 = 3 \<and> (e = kEbreak \<or> rvc_expansion e)"
proof -
  have "bits AND 3 \<noteq> 3"
    using assms by (auto simp: decompress_rv64c_def Let_def)
  moreover have shape: "e = kEbreak \<or> rvc_expansion e"
    using assms by (auto simp: decompress_rv64c_def Let_def decompress_quadrant0_shape
        decompress_quadrant1_shape decompress_quadrant2_shape split: if_splits)
  moreover have "kEbreak AND 3 = 3" by (simp add: kEbreak_def)
  ultimately show ?thesis using rvc_expansion_low_bits by auto
qed

theorem compressed_expansion_standard_witness:
  "decompress_rv64c 0x4188 = Some 0x0005A503 \<and> (0x0005A503 :: u32) AND 3 = 3"
  using compressed_expansion_standard [of "0x4188" "0x0005A503"] by code_simp

lemma decode_field_bits:
  "bit (di_opcode (decode i)) n \<longleftrightarrow> n < 7 \<and> bit i n"
  "bit (di_destination (decode i)) n \<longleftrightarrow> n < 5 \<and> bit i (7 + n)"
  "bit (di_function3 (decode i)) n \<longleftrightarrow> n < 3 \<and> bit i (12 + n)"
  "bit (di_source1 (decode i)) n \<longleftrightarrow> n < 5 \<and> bit i (15 + n)"
  "bit (di_source2 (decode i)) n \<longleftrightarrow> n < 5 \<and> bit i (20 + n)"
  "bit (di_function7 (decode i)) n \<longleftrightarrow> n < 7 \<and> bit i (25 + n)"
  by (auto simp: decode_def emu_bits bit_simps)

text \<open>Two instruction words are equal when they agree on each of the 32 positions.\<close>

lemma u32_eqI:
  assumes "\<And>n. n \<in> {0, 1, 2, 3, 4, 5, 6, 7, 8, 9, 10, 11, 12, 13, 14, 15, 16, 17, 18, 19, 20, 21, 22, 23, 24, 25, 26, 27, 28,
      29, 30, 31 :: nat} \<Longrightarrow> bit x n = bit y n"
  shows "x = (y :: u32)"
proof (rule bit_word_eqI)
  fix n assume "n < LENGTH(32)"
  then show "bit x n = bit y n" by (intro assms) (simp, presburger)
qed

lemma encode_i_whole:
  "encode_i (di_opcode (decode i)) (di_destination (decode i)) (di_function3 (decode i)) (di_source1 (decode i)) (immediate_i i) = i"
  by (rule u32_eqI, elim insertE emptyE; simp add: encode_i_def decode_field_bits immediate_bits emu_bits bit_simps)

lemma encode_r_whole:
  "encode_r (di_opcode (decode i)) (di_destination (decode i)) (di_function3 (decode i)) (di_source1 (decode i))
     (di_source2 (decode i)) (di_function7 (decode i)) = i"
  by (rule u32_eqI, elim insertE emptyE; simp add: encode_r_def decode_field_bits emu_bits bit_simps)

lemma encode_s_whole:
  "encode_s (di_opcode (decode i)) (di_function3 (decode i)) (di_source1 (decode i)) (di_source2 (decode i)) (immediate_s i) = i"
  by (rule u32_eqI, elim insertE emptyE; simp add: encode_s_def Let_def decode_field_bits immediate_bits emu_bits bit_simps)

lemma opcode_bits:
  assumes "di_opcode (decode i) = c"
  shows "bit i 0 = bit c 0" "bit i 1 = bit c 1" "bit i (Suc 0) = bit c 1" "bit i 2 = bit c 2" "bit i 3 = bit c 3"
    "bit i 4 = bit c 4" "bit i 5 = bit c 5" "bit i 6 = bit c 6"
  using decode_field_bits(1) [of i] assms by auto

lemma encode_b_whole:
  assumes "di_opcode (decode i) = 0x63"
  shows "encode_b (di_function3 (decode i)) (di_source1 (decode i)) (di_source2 (decode i)) (immediate_b i) = i"
  by (rule u32_eqI, elim insertE emptyE;
      simp add: encode_b_def Let_def opcode_bits [OF assms] decode_field_bits immediate_bits emu_bits bit_simps)

lemma destination_zero_bits:
  assumes "di_destination (decode i) = 0"
  shows "\<not> bit i 7" "\<not> bit i 8" "\<not> bit i 9" "\<not> bit i 10" "\<not> bit i 11"
  using decode_field_bits(2) [of i 0] decode_field_bits(2) [of i 1] decode_field_bits(2) [of i 2]
    decode_field_bits(2) [of i 3] decode_field_bits(2) [of i 4] assms by simp_all

lemma encode_j_whole:
  assumes "di_opcode (decode i) = 0x6F" "di_destination (decode i) = 0"
  shows "encode_j (immediate_j i) = i"
  by (rule u32_eqI, elim insertE emptyE;
      simp add: encode_j_def Let_def opcode_bits [OF assms(1)] destination_zero_bits [OF assms(2)] immediate_bits emu_bits bit_simps)

text \<open>C29. Encoding and decoding are inverse to each other in both directions and for every format. The decoder reads
  back from an encoded instruction every field it was built from - opcode, registers, function fields - and the
  immediate modulo its format's width (the even part, for branches and jumps). Conversely every 32-bit word is the I-,
  R- and S-type encoding of its own decoded fields and immediate, every branch the B-type encoding of its fields, and
  every jump that discards its link the J-type encoding of its offset.\<close>

theorem encode_decode_roundtrip:
  assumes "opcode < 128" "f3 < 8" "rd < 32" "rs1 < 32" "rs2 < 32" "f7 < 128"
  shows "di_opcode (decode (encode_i opcode rd f3 rs1 imm)) = opcode
    \<and> di_destination (decode (encode_i opcode rd f3 rs1 imm)) = rd
    \<and> di_function3 (decode (encode_i opcode rd f3 rs1 imm)) = f3
    \<and> di_source1 (decode (encode_i opcode rd f3 rs1 imm)) = rs1
    \<and> immediate_i (encode_i opcode rd f3 rs1 imm) = signed_take_bit 11 imm
    \<and> decode (encode_r opcode rd f3 rs1 rs2 f7) =
        \<lparr>di_bits = encode_r opcode rd f3 rs1 rs2 f7, di_opcode = opcode, di_destination = rd, di_function3 = f3,
         di_source1 = rs1, di_source2 = rs2, di_function7 = f7\<rparr>
    \<and> di_opcode (decode (encode_s opcode f3 rs1 rs2 imm)) = opcode
    \<and> di_function3 (decode (encode_s opcode f3 rs1 rs2 imm)) = f3
    \<and> di_source1 (decode (encode_s opcode f3 rs1 rs2 imm)) = rs1
    \<and> di_source2 (decode (encode_s opcode f3 rs1 rs2 imm)) = rs2
    \<and> immediate_s (encode_s opcode f3 rs1 rs2 imm) = signed_take_bit 11 imm
    \<and> di_opcode (decode (encode_b f3 rs1 rs2 imm)) = 0x63
    \<and> di_function3 (decode (encode_b f3 rs1 rs2 imm)) = f3
    \<and> di_source1 (decode (encode_b f3 rs1 rs2 imm)) = rs1
    \<and> di_source2 (decode (encode_b f3 rs1 rs2 imm)) = rs2
    \<and> immediate_b (encode_b f3 rs1 rs2 imm) = signed_take_bit 12 (imm AND NOT 1)
    \<and> di_opcode (decode (encode_j imm)) = 0x6F \<and> di_destination (decode (encode_j imm)) = 0
    \<and> immediate_j (encode_j imm) = signed_take_bit 20 (imm AND NOT 1)
    \<and> encode_i (di_opcode (decode i)) (di_destination (decode i)) (di_function3 (decode i)) (di_source1 (decode i)) (immediate_i i) = i
    \<and> encode_r (di_opcode (decode i)) (di_destination (decode i)) (di_function3 (decode i)) (di_source1 (decode i))
        (di_source2 (decode i)) (di_function7 (decode i)) = i
    \<and> encode_s (di_opcode (decode i)) (di_function3 (decode i)) (di_source1 (decode i)) (di_source2 (decode i)) (immediate_s i) = i
    \<and> (di_opcode (decode i) = 0x63 \<longrightarrow>
        encode_b (di_function3 (decode i)) (di_source1 (decode i)) (di_source2 (decode i)) (immediate_b i) = i)
    \<and> (di_opcode (decode i) = 0x6F \<and> di_destination (decode i) = 0 \<longrightarrow> encode_j (immediate_j i) = i)"
proof -
  have "decode (encode_r opcode rd f3 rs1 rs2 f7) =
        \<lparr>di_bits = encode_r opcode rd f3 rs1 rs2 f7, di_opcode = opcode, di_destination = rd, di_function3 = f3,
         di_source1 = rs1, di_source2 = rs2, di_function7 = f7\<rparr>"
    using encode_r_fields [OF assms(1,3,2,4,5,6)] by simp
  then show ?thesis
    using assms
    by (simp add: encode_i_fields encode_s_fields encode_b_fields encode_b_immediate encode_j_fields encode_j_immediate
        sign_extend_eq_signed_take_bit encode_i_whole encode_r_whole encode_s_whole encode_b_whole encode_j_whole)
qed

text \<open>BNE x8, x0, -16: its offset survives the encoder, and the encoder rebuilds the word from its fields.\<close>

theorem encode_decode_roundtrip_witness:
  "immediate_b (encode_b 1 8 0 0xFFFFFFFFFFFFFFF0) = 0xFFFFFFFFFFFFFFF0
   \<and> di_opcode (decode 0xFE0418E3) = 0x63
   \<and> encode_b (di_function3 (decode 0xFE0418E3)) (di_source1 (decode 0xFE0418E3)) (di_source2 (decode 0xFE0418E3))
       (immediate_b 0xFE0418E3) = 0xFE0418E3"
proof -
  have "immediate_b (encode_b 1 8 0 0xFFFFFFFFFFFFFFF0) = signed_take_bit 12 (0xFFFFFFFFFFFFFFF0 AND NOT 1)"
    using encode_decode_roundtrip [of "0x63" 1 1 8 0 0 "0xFFFFFFFFFFFFFFF0"] by simp
  moreover have "signed_take_bit 12 (0xFFFFFFFFFFFFFFF0 AND NOT 1) = (0xFFFFFFFFFFFFFFF0 :: u64)" by code_simp
  moreover have o: "di_opcode (decode 0xFE0418E3) = 0x63" by code_simp
  ultimately show ?thesis using encode_decode_roundtrip [of "0x63" 1 1 8 0 0 0 "0xFE0418E3"] by simp
qed

lemma compressed_offset_bits:
  "bit (jump_immediate bits) n \<longleftrightarrow> n < 64 \<and> n \<noteq> 0 \<and>
     bit bits (if n < 4 then n + 2 else if n = 4 then 11 else if n = 5 then 2 else if n = 6 then 7
       else if n = 7 then 6 else if n < 10 then n + 1 else if n = 10 then 8 else 12)"
  "bit (branch_immediate bits) n \<longleftrightarrow> n < 64 \<and> n \<noteq> 0 \<and>
     bit bits (if n < 3 then n + 2 else if n < 5 then n + 7 else if n = 5 then 2 else if n < 8 then n - 1 else 12)"
proof -
  show "bit (jump_immediate bits) n \<longleftrightarrow> n < 64 \<and> n \<noteq> 0 \<and>
     bit bits (if n < 4 then n + 2 else if n = 4 then 11 else if n = 5 then 2 else if n = 6 then 7
       else if n = 7 then 6 else if n < 10 then n + 1 else if n = 10 then 8 else 12)"
    using below_13 [of n] by (elim disjE; simp add: jump_immediate_def emu_bits bit_simps numeral_2_eq_2 [symmetric])
  show "bit (branch_immediate bits) n \<longleftrightarrow> n < 64 \<and> n \<noteq> 0 \<and>
     bit bits (if n < 3 then n + 2 else if n < 5 then n + 7 else if n = 5 then 2 else if n < 8 then n - 1 else 12)"
    using below_13 [of n] by (elim disjE; simp add: branch_immediate_def emu_bits bit_simps numeral_2_eq_2 [symmetric])
qed

lemma even_offset_extends:
  assumes "\<not> bit x 0" "k < w" "w < 64" "\<And>n. k \<le> n \<Longrightarrow> n < 64 \<Longrightarrow> bit x n = bit x k"
  shows "sign_extend (x AND NOT 1) w = x"
proof (rule bit_word_eqI)
  fix n assume n: "n < LENGTH(64)"
  have "bit (x AND NOT 1) i = bit x i" if "i < 64" for i
    using that assms(1) by (cases i) (auto simp: bit_simps)
  then show "bit (sign_extend (x AND NOT 1) w) n = bit x n"
    using n assms(2,3) assms(4) [of n] assms(4) [of "w - 1"] by (auto simp: sign_extend_bits)
qed

text \<open>Compressed jumps and branches keep their targets: the offset that the standard decoder reads from
  the expansion of C.J, C.BEQZ and C.BNEZ is the scrambled offset of the 16-bit encoding, bit by bit as the C
  extension places it.\<close>

theorem compressed_branch_targets:
  assumes "bits AND 3 = 1"
  shows "(drop_bit 13 bits AND 7 = 5 \<longrightarrow> (\<exists>e. decompress_rv64c bits = Some e \<and> di_opcode (decode e) = 0x6F
      \<and> di_destination (decode e) = 0
      \<and> (\<forall>n. bit (immediate_j e) n \<longleftrightarrow> n < 64 \<and> n \<noteq> 0 \<and>
           bit bits (if n < 4 then n + 2 else if n = 4 then 11 else if n = 5 then 2 else if n = 6 then 7
             else if n = 7 then 6 else if n < 10 then n + 1 else if n = 10 then 8 else 12))))
   \<and> (drop_bit 13 bits AND 7 = 6 \<or> drop_bit 13 bits AND 7 = 7 \<longrightarrow>
      (\<exists>e. decompress_rv64c bits = Some e \<and> di_opcode (decode e) = 0x63
      \<and> di_function3 (decode e) = (if drop_bit 13 bits AND 7 = 6 then 0 else 1) \<and> di_source2 (decode e) = 0
      \<and> di_source1 (decode e) = compact_register (drop_bit 7 bits)
      \<and> (\<forall>n. bit (immediate_b e) n \<longleftrightarrow> n < 64 \<and> n \<noteq> 0 \<and>
           bit bits (if n < 3 then n + 2 else if n < 5 then n + 7 else if n = 5 then 2
             else if n < 8 then n - 1 else 12))))"
proof -
  have "sign_extend (jump_immediate bits AND NOT 1) 21 = jump_immediate bits"
    by (rule even_offset_extends [of _ 11]) (auto simp: compressed_offset_bits)
  then have j: "immediate_j (encode_j (jump_immediate bits)) = jump_immediate bits"
    by (simp only: encode_j_immediate)
  have "sign_extend (branch_immediate bits AND NOT 1) 13 = branch_immediate bits"
    by (rule even_offset_extends [of _ 8]) (auto simp: compressed_offset_bits)
  then have b: "immediate_b (encode_b f3 (compact_register x) 0 (branch_immediate bits)) = branch_immediate bits"
    if "f3 < 8" for f3 x
    using that encode_b_immediate [OF that compact_register_bound, of 0 x "branch_immediate bits"] by simp
  show ?thesis
    using assms
    by (auto simp: decompress_rv64c_def Let_def decompress_quadrant1_def encode_j_fields j
        encode_b_fields b compact_register_bound compressed_offset_bits)
qed

theorem compressed_branch_targets_witness:
  "\<exists>e. decompress_rv64c 0xA001 = Some e \<and> di_opcode (decode e) = 0x6F"
proof -
  have "(0xA001 :: u16) AND 3 = 1" "drop_bit 13 (0xA001 :: u16) AND 7 = 5" by code_simp+
  then show ?thesis using compressed_branch_targets [of "0xA001"] by blast
qed

end
