(* ===== verification/Wide_Unsigned.thy ===== *)
theory Wide_Unsigned
  imports Decoder
begin

unbundle bit_operations_syntax

text \<open>
  The fixed-width big integers of the software floating-point core: class \<open>WideUnsigned\<close> of
  \<open>core/soft_float_internal.hpp\<close> and \<open>core/soft_float_arithmetic.cpp\<close>, as lists of 72 limbs,
  least significant first, together with the natural number they stand for.
\<close>

type_synonym wide = "u64 list"

abbreviation (input) kWideLimbs :: nat where "kWideLimbs \<equiv> 72"

subsection \<open>The operations\<close>

definition wide_zero_value :: wide where
  "wide_zero_value = replicate kWideLimbs 0"

definition wide_of :: "u64 \<Rightarrow> wide" where
  "wide_of v = wide_zero_value[0 := v]"

definition wide_zero :: "wide \<Rightarrow> bool" where
  "wide_zero w = list_all (\<lambda>limb. limb = 0) w"

text \<open>The inner loop of \<open>bit_length\<close> counts the bits of the highest non-zero limb.\<close>

function limb_bits :: "u64 \<Rightarrow> nat \<Rightarrow> nat" where
  "limb_bits remaining bits = (if remaining \<noteq> 0 then limb_bits (drop_bit 1 remaining) (bits + 1) else bits)"
  by pat_completeness auto
termination
proof (relation "measure (\<lambda>(r, _). unat r)")
  fix r :: u64 and b :: nat
  assume "r \<noteq> 0"
  then have "0 < unat r" by (simp add: unat_gt_0)
  then show "((drop_bit 1 r, b + 1), r, b) \<in> measure (\<lambda>(r, _). unat r)"
    by (simp add: drop_bit_eq_div unat_div_distrib)
qed simp

declare limb_bits.simps [simp del]

primrec bit_length_loop :: "wide \<Rightarrow> nat \<Rightarrow> nat" where
  "bit_length_loop w 0 = 0"
| "bit_length_loop w (Suc index) =
     (if w ! index = 0 then bit_length_loop w index else index * 64 + limb_bits (w ! index) 0)"

definition wide_bit_length :: "wide \<Rightarrow> nat" where
  "wide_bit_length w = bit_length_loop w kWideLimbs"

definition wide_bit :: "wide \<Rightarrow> nat \<Rightarrow> bool" where
  "wide_bit w index = (index < kWideLimbs * 64 \<and> drop_bit (index mod 64) (w ! (index div 64)) AND 1 \<noteq> 0)"

definition wide_set_bit :: "wide \<Rightarrow> nat \<Rightarrow> wide" where
  "wide_set_bit w index =
     (if index < kWideLimbs * 64 then w[index div 64 := (w ! (index div 64)) OR push_bit (index mod 64) 1] else w)"

text \<open>
  The shifts run over the limbs in the direction in which every limb they still need is unchanged, so the new
  limbs are functions of the old ones.
\<close>

definition shift_left_limb :: "wide \<Rightarrow> nat \<Rightarrow> nat \<Rightarrow> nat \<Rightarrow> u64" where
  "shift_left_limb w words bits index =
     (if words \<le> index
      then push_bit bits (w ! (index - words))
           OR (if bits \<noteq> 0 \<and> words < index then drop_bit (64 - bits) (w ! (index - words - 1)) else 0)
      else 0)"

definition wide_shift_left :: "wide \<Rightarrow> nat \<Rightarrow> wide" where
  "wide_shift_left w amount =
     (if amount = 0 then w
      else if kWideLimbs * 64 \<le> amount then wide_zero_value
      else map (shift_left_limb w (amount div 64) (amount mod 64)) [0..<kWideLimbs])"

definition shift_right_limb :: "wide \<Rightarrow> nat \<Rightarrow> nat \<Rightarrow> nat \<Rightarrow> u64" where
  "shift_right_limb w words bits index =
     (if index + words < kWideLimbs
      then drop_bit bits (w ! (index + words))
           OR (if bits \<noteq> 0 \<and> index + words + 1 < kWideLimbs then push_bit (64 - bits) (w ! (index + words + 1)) else 0)
      else 0)"

definition wide_shift_right :: "wide \<Rightarrow> nat \<Rightarrow> wide" where
  "wide_shift_right w amount =
     (if amount = 0 then w
      else if kWideLimbs * 64 \<le> amount then wide_zero_value
      else map (shift_right_limb w (amount div 64) (amount mod 64)) [0..<kWideLimbs])"

definition wide_any_low_bits :: "wide \<Rightarrow> nat \<Rightarrow> bool" where
  "wide_any_low_bits w count =
     (let bounded = min count (kWideLimbs * 64); whole_words = bounded div 64; remainder = bounded mod 64 in
      if list_ex (\<lambda>index. w ! index \<noteq> 0) [0..<whole_words] then True
      else if remainder \<noteq> 0 \<and> whole_words < kWideLimbs
        then (w ! whole_words) AND (push_bit remainder 1 - 1) \<noteq> 0
        else False)"

primrec compare_loop :: "wide \<Rightarrow> wide \<Rightarrow> nat \<Rightarrow> int" where
  "compare_loop w other 0 = 0"
| "compare_loop w other (Suc index) =
     (if w ! index \<noteq> other ! index then if w ! index < other ! index then - 1 else 1
      else compare_loop w other index)"

definition wide_compare :: "wide \<Rightarrow> wide \<Rightarrow> int" where
  "wide_compare w other = compare_loop w other kWideLimbs"

fun add_loop :: "u64 \<Rightarrow> wide \<Rightarrow> wide \<Rightarrow> wide" where
  "add_loop carry (limb # limbs) (other # others) =
     (let first = limb + other;
          carry_first = (first < limb);
          result = first + carry;
          carry_second = (result < first)
      in result # add_loop (if carry_first \<or> carry_second then 1 else 0) limbs others)"
| "add_loop carry limbs others = limbs"

definition wide_add :: "wide \<Rightarrow> wide \<Rightarrow> wide" where
  "wide_add w other = add_loop 0 w other"

fun subtract_loop :: "u64 \<Rightarrow> wide \<Rightarrow> wide \<Rightarrow> wide" where
  "subtract_loop borrow (limb # limbs) (other # others) =
     (let subtrahend = other + borrow;
          wrapped = (subtrahend < other);
          next_borrow = (wrapped \<or> limb < subtrahend)
      in (limb - subtrahend) # subtract_loop (if next_borrow then 1 else 0) limbs others)"
| "subtract_loop borrow limbs others = limbs"

definition wide_subtract :: "wide \<Rightarrow> wide \<Rightarrow> wide" where
  "wide_subtract w other = subtract_loop 0 w other"

definition wide_low64 :: "wide \<Rightarrow> u64" where
  "wide_low64 w = w ! 0"

subsection \<open>The number a limb list stands for\<close>

fun limbs_val :: "u64 list \<Rightarrow> nat" where
  "limbs_val [] = 0"
| "limbs_val (x # xs) = unat x + 2 ^ 64 * limbs_val xs"

definition wide_wf :: "wide \<Rightarrow> bool" where
  "wide_wf w \<longleftrightarrow> length w = kWideLimbs"

lemma limbs_val_less: "limbs_val xs < 2 ^ (64 * length xs)"
proof (induction xs)
  case (Cons x xs)
  have "unat x < 2 ^ 64" using unsigned_less [of x, where 'a = nat] by simp
  moreover have "Suc (limbs_val xs) * 2 ^ 64 \<le> 2 ^ (64 * length xs) * 2 ^ 64"
    using Cons.IH by (intro mult_le_mono1) simp
  ultimately show ?case by (simp add: power_add ac_simps)
qed simp

lemma bit_limbs_val:
  "bit (limbs_val xs) i \<longleftrightarrow> i < 64 * length xs \<and> bit (xs ! (i div 64)) (i mod 64)"
proof (induction xs arbitrary: i)
  case Nil
  then show ?case by simp
next
  case (Cons x xs)
  have sum: "limbs_val (x # xs) = unat x OR push_bit 64 (limbs_val xs)"
  proof -
    have "unat x AND push_bit 64 (limbs_val xs) = 0"
      by (rule bit_eqI) (auto simp: bit_simps dest: bit_imp_le_length)
    then show ?thesis by (simp add: push_bit_eq_mult disjunctive_add_eq_or [symmetric] ac_simps)
  qed
  show ?case
  proof (cases "i < 64")
    case True
    then show ?thesis unfolding sum by (auto simp: bit_simps)
  next
    case False
    then obtain j where j: "i = 64 + j" using le_Suc_ex not_less by blast
    have "\<not> bit x (64 + j)" "(64 + j) div 64 - Suc 0 = j div 64" by (simp_all add: impossible_bit div_add)
    then show ?thesis unfolding sum using Cons.IH [of j] by (simp add: j bit_simps)
  qed
qed

lemma limbs_val_eqI:
  assumes "length xs = length ys" "\<And>i. i < 64 * length xs \<Longrightarrow> bit (limbs_val xs) i = bit (limbs_val ys) i"
  shows "limbs_val xs = limbs_val ys"
  by (rule bit_eqI) (metis assms bit_limbs_val)

lemma bit_wide_val: "wide_wf w \<Longrightarrow> bit (limbs_val w) i \<longleftrightarrow> i < 4608 \<and> bit (w ! (i div 64)) (i mod 64)"
  by (simp add: bit_limbs_val wide_wf_def)

lemma wide_val_less: "wide_wf w \<Longrightarrow> limbs_val w < 2 ^ 4608"
  using limbs_val_less [of w] unfolding wide_wf_def by (simp only:) simp

lemma bit_val_limb: "wide_wf w \<Longrightarrow> i < 72 \<Longrightarrow> b < 64 \<Longrightarrow> bit (limbs_val w) (64 * i + b) \<longleftrightarrow> bit (w ! i) b"
  by (simp add: bit_wide_val)

lemma wide_bitI:
  assumes "wide_wf w" "\<And>i b. i < 72 \<Longrightarrow> b < 64 \<Longrightarrow> bit (w ! i) b \<longleftrightarrow> bit (v :: nat) (64 * i + b)" "v < 2 ^ 4608"
  shows "limbs_val w = v"
proof (rule bit_eqI)
  fix n
  show "bit (limbs_val w) n \<longleftrightarrow> bit v n"
  proof (cases "n < 4608")
    case True
    then show ?thesis using assms(2) [of "n div 64" "n mod 64"] by (simp add: bit_wide_val [OF assms(1)])
  next
    case False
    have "take_bit 4608 v = v" using assms(3) by (simp add: take_bit_nat_eq_self)
    then have "\<not> bit v n" using False by (metis bit_take_bit_iff)
    then show ?thesis using False by (simp add: bit_wide_val [OF assms(1)])
  qed
qed

subsection \<open>Each operation is arithmetic modulo \<open>2 ^ 4608\<close>\<close>

lemma wide_of_val [simp]: "wide_wf (wide_of v)" "limbs_val (wide_of v) = unat v"
proof -
  have z: "limbs_val (replicate n 0) = 0" for n by (induction n) simp_all
  have "replicate 72 0 = (0 :: u64) # replicate 71 0" by (simp add: numeral_eq_Suc)
  then have "wide_of v = v # replicate 71 0" by (simp add: wide_of_def wide_zero_value_def)
  then show "wide_wf (wide_of v)" "limbs_val (wide_of v) = unat v" by (simp_all add: wide_wf_def z)
qed

lemma wide_zero_value_val [simp]: "wide_wf wide_zero_value" "limbs_val wide_zero_value = 0"
proof -
  have "limbs_val (replicate n 0) = 0" for n by (induction n) simp_all
  then show "wide_wf wide_zero_value" "limbs_val wide_zero_value = 0"
    by (simp_all add: wide_wf_def wide_zero_value_def)
qed

lemma wide_zero_val: "wide_zero w \<longleftrightarrow> limbs_val w = 0"
  unfolding wide_zero_def by (induction w) (auto simp: unat_eq_0)

lemma wide_bit_val: "wide_wf w \<Longrightarrow> wide_bit w i \<longleftrightarrow> bit (limbs_val w) i"
proof -
  assume w: "wide_wf w"
  have "drop_bit k x AND 1 \<noteq> 0 \<longleftrightarrow> bit x k" for k and x :: u64
    by (simp add: and_one_eq bit_iff_odd_drop_bit odd_iff_mod_2_eq_one)
  then show ?thesis using w by (auto simp: wide_bit_def bit_wide_val)
qed

lemma wide_low64_val: "wide_wf w \<Longrightarrow> unat (wide_low64 w) = limbs_val w mod 2 ^ 64"
proof -
  assume "wide_wf w"
  then obtain x xs where "w = x # xs" by (cases w) (auto simp: wide_wf_def)
  then show ?thesis using unsigned_less [of x, where 'a = nat] by (simp add: wide_low64_def)
qed

lemma wide_set_bit_val:
  assumes "wide_wf w" "i < 4608"
  shows "wide_wf (wide_set_bit w i)" "limbs_val (wide_set_bit w i) = set_bit i (limbs_val w)"
proof -
  show wf: "wide_wf (wide_set_bit w i)" using assms by (simp add: wide_set_bit_def wide_wf_def)
  have "bit (limbs_val (wide_set_bit w i)) n \<longleftrightarrow> bit (set_bit i (limbs_val w)) n" for n
  proof (cases "n < 4608")
    case True
    have "bit (wide_set_bit w i ! (n div 64)) (n mod 64) \<longleftrightarrow> n = i \<or> bit (w ! (n div 64)) (n mod 64)"
    proof (cases "n div 64 = i div 64")
      case eq: True
      then have "n mod 64 = i mod 64 \<longleftrightarrow> n = i" by (metis div_mult_mod_eq)
      then show ?thesis using eq True assms
        by (auto simp: wide_set_bit_def wide_wf_def bit_simps)
    next
      case False
      then show ?thesis using assms by (auto simp: wide_set_bit_def)
    qed
    then show ?thesis using True assms by (auto simp: bit_wide_val wf bit_set_bit_iff)
  next
    case False
    then show ?thesis using assms by (auto simp: bit_wide_val wf bit_set_bit_iff)
  qed
  then show "limbs_val (wide_set_bit w i) = set_bit i (limbs_val w)" by (intro bit_eqI) simp
qed

lemma wide_shift_left_val:
  assumes "wide_wf w"
  shows "wide_wf (wide_shift_left w n)" "limbs_val (wide_shift_left w n) = limbs_val w * 2 ^ n mod 2 ^ 4608"
proof -
  show wf: "wide_wf (wide_shift_left w n)"
    using assms by (simp add: wide_shift_left_def) (simp add: wide_wf_def)
  have v: "limbs_val w * 2 ^ n mod 2 ^ 4608 = take_bit 4608 (push_bit n (limbs_val w))"
    by (simp only: take_bit_eq_mod push_bit_eq_mult)
  show "limbs_val (wide_shift_left w n) = limbs_val w * 2 ^ n mod 2 ^ 4608"
  proof (cases "n = 0 \<or> 4608 \<le> n")
    case True
    have "take_bit 4608 (push_bit n (limbs_val w)) = 0" if "4608 \<le> n"
      by (rule bit_eqI) (use that in \<open>auto simp: bit_simps\<close>)
    moreover have "take_bit 4608 (limbs_val w) = limbs_val w"
      using wide_val_less [OF assms] by (simp only: take_bit_nat_eq_self)
    ultimately show ?thesis using True unfolding v by (auto simp: wide_shift_left_def)
  next
    case False
    define W s where "W = n div 64" "s = n mod 64"
    have n: "n = 64 * W + s" "s < 64" by (simp_all add: W_s_def)
    show ?thesis
    proof (rule wide_bitI [OF wf])
      fix i b :: nat assume i: "i < 72" and b: "b < 64"
      have limb: "wide_shift_left w n ! i = shift_left_limb w W s i"
        using False i by (simp add: wide_shift_left_def W_s_def)
      have "bit (take_bit 4608 (push_bit n (limbs_val w))) (64 * i + b)
          \<longleftrightarrow> n \<le> 64 * i + b \<and> bit (limbs_val w) (64 * i + b - n)"
        using i b by (auto simp: bit_simps)
      also have "\<dots> \<longleftrightarrow> bit (shift_left_limb w W s i) b"
      proof (cases "s \<le> b")
        case True
        have le: "n \<le> 64 * i + b \<longleftrightarrow> W \<le> i" using n b True by auto
        show ?thesis
        proof (cases "W \<le> i")
          case Wi: True
          have e: "64 * i + b - n = 64 * (i - W) + (b - s)" using n Wi True by simp
          have "bit (limbs_val w) (64 * (i - W) + (b - s)) \<longleftrightarrow> bit (w ! (i - W)) (b - s)"
            using assms i b by (intro bit_val_limb) auto
          then show ?thesis unfolding e using Wi True b i le n(2)
            by (auto simp: shift_left_limb_def bit_simps dest: bit_imp_le_length)
        next
          case False
          then show ?thesis using le by (simp add: shift_left_limb_def)
        qed
      next
        case False
        have le: "n \<le> 64 * i + b \<longleftrightarrow> W < i" using n b False by auto
        show ?thesis
        proof (cases "W < i")
          case Wi: True
          have e: "64 * i + b - n = 64 * (i - W - 1) + (64 - s + b)" using n Wi False b by simp
          have "bit (limbs_val w) (64 * (i - W - 1) + (64 - s + b)) \<longleftrightarrow> bit (w ! (i - W - 1)) (64 - s + b)"
            using assms i b False n(2) by (intro bit_val_limb) auto
          then show ?thesis unfolding e using Wi False b i le n(2)
            by (auto simp: shift_left_limb_def bit_simps dest: bit_imp_le_length)
        next
          case False
          then show ?thesis using le \<open>\<not> s \<le> b\<close> by (auto simp: shift_left_limb_def bit_simps)
        qed
      qed
      finally show "bit (wide_shift_left w n ! i) b \<longleftrightarrow> bit (limbs_val w * 2 ^ n mod 2 ^ 4608) (64 * i + b)"
        unfolding v limb by simp
    next
      show "limbs_val w * 2 ^ n mod 2 ^ 4608 < 2 ^ 4608" by (rule mod_less_divisor) simp
    qed
  qed
qed

lemma wide_shift_right_val:
  assumes "wide_wf w"
  shows "wide_wf (wide_shift_right w n)" "limbs_val (wide_shift_right w n) = limbs_val w div 2 ^ n"
proof -
  show wf: "wide_wf (wide_shift_right w n)"
    using assms by (simp add: wide_shift_right_def) (simp add: wide_wf_def)
  have v: "limbs_val w div 2 ^ n = drop_bit n (limbs_val w)" by (simp only: drop_bit_eq_div)
  show "limbs_val (wide_shift_right w n) = limbs_val w div 2 ^ n"
  proof (cases "n = 0 \<or> 4608 \<le> n")
    case True
    have "drop_bit n (limbs_val w) = 0" if "4608 \<le> n"
      by (rule bit_eqI) (use that in \<open>auto simp: bit_simps bit_wide_val [OF assms]\<close>)
    then show ?thesis using True unfolding v by (auto simp: wide_shift_right_def)
  next
    case False
    define W s where "W = n div 64" "s = n mod 64"
    have n: "n = 64 * W + s" "s < 64" by (simp_all add: W_s_def)
    show ?thesis
    proof (rule wide_bitI [OF wf])
      fix i b :: nat assume i: "i < 72" and b: "b < 64"
      have limb: "wide_shift_right w n ! i = shift_right_limb w W s i"
        using False i by (simp add: wide_shift_right_def W_s_def)
      have "bit (limbs_val w) (n + (64 * i + b)) \<longleftrightarrow> bit (shift_right_limb w W s i) b"
      proof (cases "s + b < 64")
        case True
        have e: "n + (64 * i + b) = 64 * (i + W) + (s + b)" using n by simp
        show ?thesis
        proof (cases "i + W < 72")
          case in_range: True
          then have "bit (limbs_val w) (64 * (i + W) + (s + b)) \<longleftrightarrow> bit (w ! (i + W)) (s + b)"
            using assms True by (intro bit_val_limb) auto
          moreover have "\<not> 64 - s \<le> b" using True by simp
          ultimately show ?thesis unfolding e using True b n(2) in_range
            by (auto simp: shift_right_limb_def bit_simps)
        next
          case False
          then show ?thesis unfolding e by (simp add: shift_right_limb_def bit_wide_val [OF assms])
        qed
      next
        case False
        have e: "n + (64 * i + b) = 64 * (i + W + 1) + (s + b - 64)" using n False by simp
        have hi: "\<not> bit x (s + b)" for x :: u64 using False by (simp add: impossible_bit)
        show ?thesis
        proof (cases "i + W + 1 < 72")
          case in_range: True
          have "b - (64 - s) = s + b - 64" "64 - s \<le> b" "s \<noteq> 0" using False n(2) b by auto
          moreover have "bit (limbs_val w) (64 * (i + W + 1) + (s + b - 64)) \<longleftrightarrow> bit (w ! (i + W + 1)) (s + b - 64)"
            using assms in_range b n(2) by (intro bit_val_limb) auto
          ultimately show ?thesis unfolding e using in_range b n(2) hi
            by (auto simp: shift_right_limb_def bit_simps)
        next
          case False
          then show ?thesis unfolding e using hi
            by (auto simp: shift_right_limb_def bit_wide_val [OF assms] bit_simps)
        qed
      qed
      then show "bit (wide_shift_right w n ! i) b \<longleftrightarrow> bit (limbs_val w div 2 ^ n) (64 * i + b)"
        unfolding v limb by (simp add: bit_drop_bit_eq)
    next
      show "limbs_val w div 2 ^ n < 2 ^ 4608"
        using wide_val_less [OF assms] by (rule le_less_trans [OF div_le_dividend])
    qed
  qed
qed

lemma limb_low_bits:
  fixes x :: u64
  assumes "k < 64"
  shows "x AND (2 ^ k - 1) \<noteq> 0 \<longleftrightarrow> (\<exists>b < k. bit x b)"
proof -
  have "x AND (2 ^ k - 1) = take_bit k x"
    by (simp add: take_bit_eq_mask mask_eq_exp_minus_1)
  then show ?thesis using assms by (auto simp: bit_eq_iff [of _ 0] bit_simps) (meson order.strict_trans)
qed

lemma wide_any_low_bits_val:
  assumes "wide_wf w"
  shows "wide_any_low_bits w n \<longleftrightarrow> limbs_val w mod 2 ^ n \<noteq> 0"
proof -
  define m where "m = min n 4608"
  define W s where "W = m div 64" "s = m mod 64"
  have m: "m = 64 * W + s" "s < 64" "W \<le> 72" by (simp_all add: W_s_def m_def)
  have "wide_any_low_bits w n \<longleftrightarrow> (\<exists>i < W. w ! i \<noteq> 0) \<or> (W < 72 \<and> (\<exists>b < s. bit (w ! W) b))"
    using m(2) by (cases "s = 0")
      (auto simp: wide_any_low_bits_def Let_def m_def [symmetric] W_s_def [symmetric] list_ex_iff limb_low_bits Bex_def)
  also have "\<dots> \<longleftrightarrow> (\<exists>i < m. bit (limbs_val w) i)"
  proof
    assume "(\<exists>i < W. w ! i \<noteq> 0) \<or> (W < 72 \<and> (\<exists>b < s. bit (w ! W) b))"
    then obtain i b where ib: "i < 72" "b < 64" "bit (w ! i) b" "64 * i + b < m"
    proof (elim disjE exE conjE)
      fix i assume i: "i < W" "w ! i \<noteq> 0"
      then obtain b where b: "bit (w ! i) b" using bit_eqI [of "w ! i" 0] by auto
      then have "b < 64" using bit_imp_le_length by fastforce
      with that [of i b] b i m show thesis by auto
    next
      fix b assume "W < 72" "b < s" "bit (w ! W) b"
      with that [of W b] m show thesis by auto
    qed
    then show "\<exists>i < m. bit (limbs_val w) i" using bit_val_limb [OF assms] by blast
  next
    assume "\<exists>i < m. bit (limbs_val w) i"
    then obtain j where j: "j < m" "bit (limbs_val w) j" by blast
    then have lb: "j < 4608" "bit (w ! (j div 64)) (j mod 64)" by (auto simp: bit_wide_val [OF assms])
    show "(\<exists>i < W. w ! i \<noteq> 0) \<or> (W < 72 \<and> (\<exists>b < s. bit (w ! W) b))"
    proof (cases "j div 64 < W")
      case True
      then show ?thesis using lb by auto
    next
      case False
      have "j = 64 * (j div 64) + j mod 64" by simp
      with False j(1) m have "j div 64 = W" "j mod 64 < s" by linarith+
      then show ?thesis using lb by auto
    qed
  qed
  also have "\<dots> \<longleftrightarrow> (\<exists>i < n. bit (limbs_val w) i)"
    by (auto simp: m_def bit_wide_val [OF assms])
  also have "\<dots> \<longleftrightarrow> take_bit n (limbs_val w) \<noteq> 0"
    by (auto simp: bit_eq_iff [of _ "0 :: nat"] bit_simps)
  finally show ?thesis by (simp add: take_bit_eq_mod)
qed

lemma limbs_val_append: "limbs_val (xs @ [y]) = limbs_val xs + 2 ^ (64 * length xs) * unat y"
  by (induction xs) (simp_all add: power_add algebra_simps)

lemma limbs_val_take_Suc: "k < length xs \<Longrightarrow> limbs_val (take (Suc k) xs) = limbs_val (take k xs) + 2 ^ (64 * k) * unat (xs ! k)"
  by (simp add: take_Suc_conv_app_nth limbs_val_append)

lemma compare_loop_val:
  "k \<le> length xs \<Longrightarrow> k \<le> length ys \<Longrightarrow>
     compare_loop xs ys k = (if limbs_val (take k xs) < limbs_val (take k ys) then - 1
       else if limbs_val (take k xs) = limbs_val (take k ys) then 0 else 1)"
proof (induction k)
  case 0
  then show ?case by simp
next
  case (Suc k)
  have lt: "limbs_val (take k zs) < 2 ^ (64 * k)" if "Suc k \<le> length zs" for zs
    using limbs_val_less [of "take k zs"] that by (simp add: min_absorb2)
  have step: "limbs_val (take (Suc k) zs) = limbs_val (take k zs) + 2 ^ (64 * k) * unat (zs ! k)" if "Suc k \<le> length zs" for zs
    using that by (simp add: limbs_val_take_Suc)
  have less: "limbs_val (take k us) + 2 ^ (64 * k) * a < limbs_val (take k vs) + 2 ^ (64 * k) * b"
    if "a < b" "Suc k \<le> length us" for a b us vs
  proof -
    have "2 ^ (64 * k) * Suc a \<le> 2 ^ (64 * k) * b" using that(1) by (intro mult_le_mono2) simp
    then show ?thesis using lt [OF that(2)] by simp
  qed
  consider "xs ! k = ys ! k" | "unat (xs ! k) < unat (ys ! k)" | "unat (ys ! k) < unat (xs ! k)"
    by (metis linorder_neqE_nat word_unat_eq_iff)
  then show ?case
  proof cases
    case 1
    then show ?thesis using Suc by (simp add: step)
  next
    case 2
    then have "xs ! k < ys ! k" "xs ! k \<noteq> ys ! k" by (auto simp: word_less_nat_alt)
    then show ?thesis using less [OF 2, of xs ys] Suc.prems by (simp add: step)
  next
    case 3
    then have "\<not> xs ! k < ys ! k" "xs ! k \<noteq> ys ! k" by (auto simp: word_less_nat_alt)
    then show ?thesis using less [OF 3, of ys xs] Suc.prems by (simp add: step)
  qed
qed

lemma wide_compare_val:
  "wide_wf x \<Longrightarrow> wide_wf y \<Longrightarrow> wide_compare x y =
     (if limbs_val x < limbs_val y then - 1 else if limbs_val x = limbs_val y then 0 else 1)"
  using compare_loop_val [of 72 x y] by (simp add: wide_compare_def wide_wf_def)

lemma mod_mult_split: "(r :: nat) < M \<Longrightarrow> r + M * (k mod N) = (r + M * k) mod (M * N)"
  by (simp add: mod_mult2_eq)

lemma add_loop_val:
  "length xs = length ys \<Longrightarrow> c \<le> 1 \<Longrightarrow>
     length (add_loop c xs ys) = length xs \<and>
     limbs_val (add_loop c xs ys) = (limbs_val xs + limbs_val ys + unat c) mod 2 ^ (64 * length xs)"
proof (induction c xs ys rule: add_loop.induct)
  case (1 carry x xs y ys)
  let ?M = "2 ^ 64 :: nat"
  define f r where fr: "f = x + y" "r = x + y + carry"
  define c' :: u64 where "c' = (if f < x \<or> r < f then 1 else 0)"
  have c01: "unat carry \<le> 1" "unat c' \<le> 1" using 1 by (auto simp: word_le_nat_alt c'_def)
  have lt: "unat x < ?M" "unat y < ?M" using unsigned_less [of x, where 'a = nat] unsigned_less [of y, where 'a = nat] by simp_all
  have f: "unat f = (unat x + unat y) mod ?M" by (simp add: fr unat_word_ariths)
  have r: "unat r = (unat f + unat carry) mod ?M" by (simp add: fr unat_word_ariths mod_simps)
  have total: "unat r + ?M * unat c' = unat x + unat y + unat carry"
  proof (cases "unat x + unat y < ?M")
    case True
    then have fx: "unat f = unat x + unat y" using f by simp
    then have nf: "\<not> f < x" by (simp add: word_less_nat_alt)
    show ?thesis
    proof (cases "unat f + unat carry < ?M")
      case True
      then have "unat r = unat f + unat carry" using r by simp
      then show ?thesis using nf fx by (simp add: c'_def word_less_nat_alt)
    next
      case False
      then have "unat f = ?M - 1" "unat carry = 1" using c01 unsigned_less [of f, where 'a = nat] by auto
      then have "unat r = 0" using r by simp
      then show ?thesis using fx \<open>unat f = ?M - 1\<close> \<open>unat carry = 1\<close> by (simp add: c'_def word_less_nat_alt)
    qed
  next
    case False
    have "unat x + unat y - ?M < ?M" using lt by linarith
    then have fx: "unat f = unat x + unat y - ?M" using f False by (simp add: mod_if)
    then have ff: "f < x" using lt False by (simp add: word_less_nat_alt)
    have "unat f + unat carry < ?M" using fx lt c01 False by linarith
    then have "unat r = unat f + unat carry" using r by simp
    then show ?thesis using ff fx False by (simp add: c'_def)
  qed
  have IH: "length (add_loop c' xs ys) = length xs \<and>
      limbs_val (add_loop c' xs ys) = (limbs_val xs + limbs_val ys + unat c') mod 2 ^ (64 * length xs)"
    using 1 by (simp add: c'_def fr Let_def)
  have "limbs_val (add_loop carry (x # xs) (y # ys))
      = unat r + ?M * ((limbs_val xs + limbs_val ys + unat c') mod 2 ^ (64 * length xs))"
    using IH by (simp add: Let_def fr c'_def)
  also have "\<dots> = (unat r + ?M * (limbs_val xs + limbs_val ys + unat c')) mod (?M * 2 ^ (64 * length xs))"
    using unsigned_less [of r, where 'a = nat] by (intro mod_mult_split) simp
  also have "unat r + ?M * (limbs_val xs + limbs_val ys + unat c')
      = limbs_val (x # xs) + limbs_val (y # ys) + unat carry"
    using total by (simp add: algebra_simps)
  finally show ?case using IH by (simp add: power_add Let_def fr c'_def)
qed simp_all

lemma wide_add_val:
  assumes "wide_wf x" "wide_wf y"
  shows "wide_wf (wide_add x y)" "limbs_val (wide_add x y) = (limbs_val x + limbs_val y) mod 2 ^ 4608"
  using add_loop_val [of x y 0] assms unfolding wide_add_def wide_wf_def by (simp_all only:) simp_all

lemma subtract_loop_val:
  "length xs = length ys \<Longrightarrow> c \<le> 1 \<Longrightarrow>
     length (subtract_loop c xs ys) = length xs \<and>
     (\<exists>k. limbs_val (subtract_loop c xs ys) + limbs_val ys + unat c = limbs_val xs + k * 2 ^ (64 * length xs))"
proof (induction c xs ys rule: subtract_loop.induct)
  case (1 borrow x xs y ys)
  let ?M = "2 ^ 64 :: nat"
  define t where "t = y + borrow"
  define c' :: u64 where "c' = (if t < y \<or> x < t then 1 else 0)"
  have c01: "unat borrow \<le> 1" using 1 by (simp add: word_le_nat_alt)
  have lt: "unat x < ?M" "unat y < ?M" "unat t < ?M"
    using unsigned_less [of x, where 'a = nat] unsigned_less [of y, where 'a = nat] unsigned_less [of t, where 'a = nat]
    by simp_all
  have total: "unat (x - t) + unat y + unat borrow = unat x + ?M * unat c'"
  proof (cases "unat y + unat borrow < ?M")
    case True
    then have t: "unat t = unat y + unat borrow" by (simp add: t_def unat_word_ariths)
    have d: "unat (x - t) = (if unat t \<le> unat x then unat x - unat t else unat x + ?M - unat t)"
      unfolding unat_sub_if_size word_size by simp
    show ?thesis using t lt unfolding c'_def d by (auto simp: word_less_nat_alt)
  next
    case False
    then have y: "unat y = ?M - 1" "unat borrow = 1" using c01 lt by auto
    then have "unat t = 0" by (simp add: t_def unat_word_ariths)
    then have "t = 0" by (simp add: unat_eq_0)
    moreover have "t < y" using \<open>unat t = 0\<close> y by (simp add: word_less_nat_alt)
    ultimately show ?thesis using y by (simp add: c'_def)
  qed
  have "c' \<le> 1" by (simp add: c'_def)
  then obtain k where IH: "length (subtract_loop c' xs ys) = length xs"
      "limbs_val (subtract_loop c' xs ys) + limbs_val ys + unat c' = limbs_val xs + k * 2 ^ (64 * length xs)"
    using "1.IH" [OF t_def, of "t < y" "t < y \<or> x < t"] "1.prems"(1)
    unfolding c'_def [symmetric] by auto
  have "limbs_val (subtract_loop borrow (x # xs) (y # ys)) + limbs_val (y # ys) + unat borrow
      = (unat (x - t) + unat y + unat borrow) + ?M * (limbs_val (subtract_loop c' xs ys) + limbs_val ys)"
    by (simp add: Let_def t_def c'_def algebra_simps)
  also have "\<dots> = unat x + ?M * (limbs_val (subtract_loop c' xs ys) + limbs_val ys + unat c')"
    unfolding total by (simp add: algebra_simps)
  also have "\<dots> = limbs_val (x # xs) + k * 2 ^ (64 * length (x # xs))"
    unfolding IH(2) by (simp add: power_add algebra_simps)
  finally show ?case using IH(1) by (auto simp: Let_def t_def c'_def)
qed simp_all

lemma wide_subtract_val:
  assumes "wide_wf x" "wide_wf y" "limbs_val y \<le> limbs_val x"
  shows "wide_wf (wide_subtract x y)" "limbs_val (wide_subtract x y) = limbs_val x - limbs_val y"
proof -
  obtain k where k: "length (wide_subtract x y) = 72"
      "limbs_val (wide_subtract x y) + limbs_val y = limbs_val x + k * 2 ^ 4608"
    using subtract_loop_val [of x y 0] assms(1,2) by (auto simp: wide_subtract_def wide_wf_def)
  show wf: "wide_wf (wide_subtract x y)" using k(1) by (simp add: wide_wf_def)
  have "k = 0"
  proof (rule ccontr)
    assume "k \<noteq> 0"
    then have "(2 :: nat) ^ 4608 \<le> k * 2 ^ 4608" by (cases k) simp_all
    then show False using k(2) wide_val_less [OF wf] assms(3) by linarith
  qed
  then show "limbs_val (wide_subtract x y) = limbs_val x - limbs_val y" using k(2) by simp
qed

lemma limb_bits_val:
  "x \<noteq> 0 \<Longrightarrow> \<exists>k. limb_bits x n = n + k \<and> 0 < k \<and> k \<le> 64 \<and> 2 ^ (k - 1) \<le> unat x \<and> unat x < 2 ^ k"
proof (induction x n rule: limb_bits.induct)
  case (1 x n)
  have half: "unat (drop_bit 1 x) = unat x div 2" by (simp add: drop_bit_eq_div unat_div_distrib)
  show ?case
  proof (cases "drop_bit 1 x = 0")
    case True
    then have "unat x div 2 = 0" using half by simp
    then have "unat x = 1" using 1(2) by (simp add: div_eq_0_iff less_2_cases_iff unat_eq_0)
    then show ?thesis using True 1(2) by (simp add: limb_bits.simps [of x] limb_bits.simps [of 0])
  next
    case False
    then obtain k where k: "limb_bits (drop_bit 1 x) (n + 1) = n + 1 + k" "0 < k" "2 ^ (k - 1) \<le> unat x div 2" "unat x div 2 < 2 ^ k"
      using 1 half by auto
    have eq: "limb_bits x n = n + (k + 1)" using 1(2) k(1) by (simp add: limb_bits.simps [of x])
    have lo: "2 ^ (k + 1 - 1) \<le> unat x"
    proof -
      have "2 * 2 ^ (k - 1) \<le> 2 * (unat x div 2)" using k(3) by (intro mult_le_mono2)
      also have "\<dots> \<le> unat x" by simp
      finally show ?thesis using k(2) by (cases k) simp_all
    qed
    have hi: "unat x < 2 ^ (k + 1)" using k(4) by simp
    have "k + 1 \<le> 64"
    proof (rule ccontr)
      assume "\<not> k + 1 \<le> 64"
      then have "(2 :: nat) ^ 64 \<le> 2 ^ (k + 1 - 1)" by (intro power_increasing) auto
      then show False using lo unsigned_less [of x, where 'a = nat] by simp
    qed
    then show ?thesis using eq lo hi by auto
  qed
qed

lemma bit_length_loop_val:
  "k \<le> length w \<Longrightarrow> limbs_val (take k w) \<noteq> 0 \<Longrightarrow>
     0 < bit_length_loop w k \<and> bit_length_loop w k \<le> 64 * k \<and>
     2 ^ (bit_length_loop w k - 1) \<le> limbs_val (take k w) \<and> limbs_val (take k w) < 2 ^ bit_length_loop w k"
proof (induction k)
  case 0
  then show ?case by simp
next
  case (Suc k)
  have step: "limbs_val (take (Suc k) w) = limbs_val (take k w) + 2 ^ (64 * k) * unat (w ! k)"
    using Suc.prems by (simp add: limbs_val_take_Suc)
  show ?case
  proof (cases "w ! k = 0")
    case True
    then show ?thesis using Suc step by simp
  next
    case False
    obtain b where b: "limb_bits (w ! k) 0 = b" "0 < b" "b \<le> 64" "2 ^ (b - 1) \<le> unat (w ! k)" "unat (w ! k) < 2 ^ b"
      using limb_bits_val [OF False, of 0] by auto
    have lt: "limbs_val (take k w) < 2 ^ (64 * k)"
      using limbs_val_less [of "take k w"] Suc.prems by (simp add: min_absorb2)
    have "2 ^ (64 * k) * Suc (unat (w ! k)) \<le> 2 ^ (64 * k) * 2 ^ b" using b by (intro mult_le_mono2) simp
    then have "limbs_val (take (Suc k) w) < 2 ^ (64 * k + b)" using lt step by (simp add: power_add)
    moreover have "2 ^ (64 * k) * 2 ^ (b - 1) \<le> limbs_val (take (Suc k) w)"
      unfolding step using b(4) by (intro trans_le_add2 mult_le_mono2)
    moreover have "64 * k + b - 1 = 64 * k + (b - 1)" using b by simp
    ultimately have "limbs_val (take (Suc k) w) < 2 ^ (64 * k + b)" "2 ^ (64 * k + b - 1) \<le> limbs_val (take (Suc k) w)"
      by (simp_all only: power_add)
    moreover have "bit_length_loop w (Suc k) = 64 * k + b" using False b(1) by simp
    ultimately show ?thesis using b(2,3) by simp
  qed
qed

lemma bit_length_loop_zero: "k \<le> length w \<Longrightarrow> limbs_val (take k w) = 0 \<Longrightarrow> bit_length_loop w k = 0"
  by (induction k) (simp_all add: limbs_val_take_Suc unat_eq_0)

lemma wide_bit_length_val:
  assumes "wide_wf w" "limbs_val w \<noteq> 0"
  shows "0 < wide_bit_length w" "wide_bit_length w \<le> 4608"
    "2 ^ (wide_bit_length w - 1) \<le> limbs_val w" "limbs_val w < 2 ^ wide_bit_length w"
  using bit_length_loop_val [of 72 w] assms by (simp_all add: wide_bit_length_def wide_wf_def)

lemma wide_bit_length_zero: "wide_wf w \<Longrightarrow> limbs_val w = 0 \<Longrightarrow> wide_bit_length w = 0"
  using bit_length_loop_zero [of 72 w] by (simp add: wide_bit_length_def wide_wf_def)

end
