(* ===== verification/Floating_State.thy ===== *)
theory Floating_State
  imports Decoder
begin

unbundle bit_operations_syntax

text \<open>
  Rounding modes, exception flags and NaN boxing of the F and D extensions:
  \<open>core/floating_state.hpp\<close> and \<open>core/floating_state.cpp\<close>.
\<close>

datatype floating_rounding_mode =
    NearestTiesToEven | TowardZero | Down | Up | NearestTiesToMaximumMagnitude

definition FlagInexact :: u8 where "FlagInexact = 1"
definition FlagUnderflow :: u8 where "FlagUnderflow = 2"
definition FlagOverflow :: u8 where "FlagOverflow = 4"
definition FlagDivideByZero :: u8 where "FlagDivideByZero = 8"
definition FlagInvalidOperation :: u8 where "FlagInvalidOperation = 16"

definition kCanonicalSingleNan :: u32 where "kCanonicalSingleNan = 0x7FC00000"
definition kCanonicalDoubleNan :: u64 where "kCanonicalDoubleNan = 0x7FF8000000000000"

definition decode_rounding_mode :: "u8 \<Rightarrow> floating_rounding_mode option" where
  "decode_rounding_mode encoded =
     (if encoded = 0 then Some NearestTiesToEven
      else if encoded = 1 then Some TowardZero
      else if encoded = 2 then Some Down
      else if encoded = 3 then Some Up
      else if encoded = 4 then Some NearestTiesToMaximumMagnitude
      else None)"

definition resolve_floating_rounding_mode :: "u8 \<Rightarrow> u8 \<Rightarrow> floating_rounding_mode option" where
  "resolve_floating_rounding_mode instruction_rounding_mode dynamic_rounding_mode =
     (let encoded = instruction_rounding_mode AND 0x7 in
      if encoded = 0x7 then decode_rounding_mode (dynamic_rounding_mode AND 0x7)
      else decode_rounding_mode encoded)"

definition box_single_precision :: "u32 \<Rightarrow> u64" where
  "box_single_precision bits = 0xFFFFFFFF00000000 OR ucast bits"

definition unbox_single_precision :: "u64 \<Rightarrow> u32" where
  "unbox_single_precision bits = (if drop_bit 32 bits = 0xFFFFFFFF then ucast bits else kCanonicalSingleNan)"

lemma bit_box_prefix: "bit (0xFFFFFFFF00000000 :: int) n \<longleftrightarrow> 32 \<le> n \<and> n < 64"
proof -
  have "(0xFFFFFFFF00000000 :: int) = push_bit 32 (mask 32)" by (simp add: mask_eq_exp_minus_1 push_bit_eq_mult)
  then show ?thesis by (simp only: bit_push_bit_iff bit_mask_iff) auto
qed

lemma drop_box: "drop_bit 32 (box_single_precision b) = 0xFFFFFFFF"
  by (rule bit_word_eqI)
    (auto simp: box_single_precision_def bit_simps bit_box_prefix emu_bits dest: bit_u32_le)

text \<open>NaN boxing round-trips and is checked: a boxed single is read back unchanged, a register that is not
  a valid box is read as the canonical quiet NaN, and a register is a valid box exactly when it is the box of
  its low half.\<close>

theorem nan_boxing_roundtrip:
  "unbox_single_precision (box_single_precision b) = b
   \<and> (unbox_single_precision v = (if v = box_single_precision (ucast v) then ucast v else kCanonicalSingleNan))"
proof -
  have "(ucast (box_single_precision b) :: u32) = b"
    by (rule bit_word_eqI) (auto simp: box_single_precision_def bit_simps bit_box_prefix)
  moreover have "drop_bit 32 v = 0xFFFFFFFF \<longleftrightarrow> v = box_single_precision (ucast v)"
  proof
    assume d: "drop_bit 32 v = 0xFFFFFFFF"
    have h: "bit v (32 + n)" if "n < 32" for n
    proof -
      have "bit (drop_bit 32 v) n" using d that by (simp add: emu_bits)
      then show ?thesis by (simp add: bit_drop_bit_eq)
    qed
    show "v = box_single_precision (ucast v)"
    proof (rule bit_word_eqI)
      fix n assume "n < LENGTH(64)"
      then show "bit v n = bit (box_single_precision (ucast v)) n"
        using h [of "n - 32"] by (cases "n < 32") (auto simp: box_single_precision_def bit_simps bit_box_prefix)
    qed
  next
    assume "v = box_single_precision (ucast v)"
    then show "drop_bit 32 v = 0xFFFFFFFF" using drop_box by metis
  qed
  ultimately show ?thesis by (simp add: unbox_single_precision_def drop_box)
qed

end
