(* ===== verification/Soft_Float.thy ===== *)
theory Soft_Float
  imports Wide_Unsigned Floating_State "HOL-Library.Signed_Division"
begin

unbundle bit_operations_syntax

text \<open>
  The software floating-point core, \<open>core/soft_float_arithmetic.cpp\<close> and
  \<open>core/soft_float_conversion.cpp\<close>: unpacking, the one place that rounds and packs, and the arithmetic,
  comparison, classification and conversion operations. The operations work on bit patterns and return the
  result bits with the exception flags. Exponents are integers (the code keeps them in \<open>int32_t\<close>, far from its
  bounds) and shift distances naturals; an output parameter \<open>bool& inexact\<close> is a second component of the result.
\<close>

datatype floating_format = Single | Double

datatype floating_comparison = FEqual | FLessThan | FLessThanOrEqual

record floating_result =
  fr_bits :: u64
  fr_flags :: u8

record floating_integer_result =
  fir_value :: u64
  fir_flags :: u8

record floating_comparison_result =
  fcr_value :: bool
  fcr_flags :: u8

record format =
  exponent_bits :: nat
  fraction_bits :: nat
  bias :: int
  minimum_exponent :: int
  maximum_exponent :: int
  sign_mask :: u64
  exponent_mask :: u64
  fraction_mask :: u64
  canonical_nan :: u64

datatype category = CatZero | CatFinite | CatInfinity | CatQuietNan | CatSignalingNan

record unpacked =
  up_sign :: bool
  up_category :: category
  up_significand :: u64
  up_exponent :: int

subsection \<open>Formats and unpacking\<close>

definition kSingleFormat :: format where
  "kSingleFormat = \<lparr>exponent_bits = 8, fraction_bits = 23, bias = 127, minimum_exponent = - 126,
     maximum_exponent = 127, sign_mask = 0x80000000, exponent_mask = 0x7F800000, fraction_mask = 0x007FFFFF,
     canonical_nan = ucast kCanonicalSingleNan\<rparr>"

definition kDoubleFormat :: format where
  "kDoubleFormat = \<lparr>exponent_bits = 11, fraction_bits = 52, bias = 1023, minimum_exponent = - 1022,
     maximum_exponent = 1023, sign_mask = 0x8000000000000000, exponent_mask = 0x7FF0000000000000,
     fraction_mask = 0x000FFFFFFFFFFFFF, canonical_nan = kCanonicalDoubleNan\<rparr>"

definition exponent_all_ones :: "format \<Rightarrow> u64" where
  "exponent_all_ones fmt = push_bit (exponent_bits fmt) 1 - 1"

definition format_of :: "floating_format \<Rightarrow> format" where
  "format_of f = (if f = Single then kSingleFormat else kDoubleFormat)"

definition unpack :: "floating_format \<Rightarrow> u64 \<Rightarrow> unpacked" where
  "unpack floating_fmt bits =
     (let fmt = format_of floating_fmt;
          sign = (bits AND sign_mask fmt \<noteq> 0);
          exponent_field = drop_bit (fraction_bits fmt) (bits AND exponent_mask fmt);
          fraction = bits AND fraction_mask fmt
      in if exponent_field = exponent_all_ones fmt
         then if fraction = 0 then \<lparr>up_sign = sign, up_category = CatInfinity, up_significand = 0, up_exponent = 0\<rparr>
           else let quiet_bit = push_bit (fraction_bits fmt - 1) 1 in
             \<lparr>up_sign = sign, up_category = (if fraction AND quiet_bit \<noteq> 0 then CatQuietNan else CatSignalingNan),
              up_significand = 0, up_exponent = 0\<rparr>
         else if exponent_field = 0
         then if fraction = 0 then \<lparr>up_sign = sign, up_category = CatZero, up_significand = 0, up_exponent = 0\<rparr>
           else \<lparr>up_sign = sign, up_category = CatFinite, up_significand = fraction,
                 up_exponent = minimum_exponent fmt - int (fraction_bits fmt)\<rparr>
         else \<lparr>up_sign = sign, up_category = CatFinite, up_significand = push_bit (fraction_bits fmt) 1 OR fraction,
               up_exponent = uint exponent_field - bias fmt - int (fraction_bits fmt)\<rparr>)"

definition is_nan :: "category \<Rightarrow> bool" where
  "is_nan c = (c = CatQuietNan \<or> c = CatSignalingNan)"

definition invalid_flag :: u8 where
  "invalid_flag = FlagInvalidOperation"

definition signed_zero :: "format \<Rightarrow> bool \<Rightarrow> u64" where
  "signed_zero fmt sign = (if sign then sign_mask fmt else 0)"

definition float_infinity :: "format \<Rightarrow> bool \<Rightarrow> u64" where
  "float_infinity fmt sign = (if sign then sign_mask fmt else 0) OR exponent_mask fmt"

subsection \<open>Rounding\<close>

definition should_increment :: "floating_rounding_mode \<Rightarrow> bool \<Rightarrow> bool \<Rightarrow> bool \<Rightarrow> bool \<Rightarrow> bool" where
  "should_increment rounding sign halfway_bit lower_bits retained_odd =
     (let discarded = (halfway_bit \<or> lower_bits) in
      case rounding of
        NearestTiesToEven \<Rightarrow> halfway_bit \<and> (lower_bits \<or> retained_odd)
      | TowardZero \<Rightarrow> False
      | Down \<Rightarrow> sign \<and> discarded
      | Up \<Rightarrow> \<not> sign \<and> discarded
      | NearestTiesToMaximumMagnitude \<Rightarrow> halfway_bit)"

definition rounded_right_shift :: "wide \<Rightarrow> nat \<Rightarrow> bool \<Rightarrow> floating_rounding_mode \<Rightarrow> bool \<Rightarrow> wide \<times> bool" where
  "rounded_right_shift v shift sign rounding inexact =
     (if shift = 0 then (v, inexact)
      else let halfway = wide_bit v (shift - 1);
               lower = wide_any_low_bits v (shift - 1);
               v' = wide_shift_right v shift
           in (if should_increment rounding sign halfway lower (wide_bit v' 0) then wide_add v' (wide_of 1) else v',
               halfway \<or> lower))"

definition overflow_to_infinity :: "floating_rounding_mode \<Rightarrow> bool \<Rightarrow> bool" where
  "overflow_to_infinity rounding sign =
     (rounding = NearestTiesToEven \<or> rounding = NearestTiesToMaximumMagnitude
      \<or> (rounding = Up \<and> \<not> sign) \<or> (rounding = Down \<and> sign))"

definition tiny_after_unbounded_rounding ::
    "format \<Rightarrow> bool \<Rightarrow> wide \<Rightarrow> int \<Rightarrow> floating_rounding_mode \<Rightarrow> bool" where
  "tiny_after_unbounded_rounding fmt sign magnitude expo rounding =
     (if wide_zero magnitude then False
      else let precision = fraction_bits fmt + 1;
               bit_length = wide_bit_length magnitude;
               rounded_exponent = expo + int bit_length - 1;
               magnitude = (if precision < bit_length
                  then fst (rounded_right_shift magnitude (bit_length - precision) sign rounding False)
                  else if bit_length < precision then wide_shift_left magnitude (precision - bit_length) else magnitude);
               rounded_exponent = (if precision < wide_bit_length magnitude then rounded_exponent + 1 else rounded_exponent)
           in rounded_exponent < minimum_exponent fmt)"

definition pack_normal ::
    "format \<Rightarrow> bool \<Rightarrow> wide \<Rightarrow> int \<Rightarrow> bool \<Rightarrow> bool \<Rightarrow> floating_rounding_mode \<Rightarrow> floating_result" where
  "pack_normal fmt sign magnitude result_exponent tiny_after_rounding inexact rounding =
     (let precision = fraction_bits fmt + 1;
          carried = (precision < wide_bit_length magnitude);
          magnitude = (if carried then wide_shift_right magnitude 1 else magnitude);
          result_exponent = (if carried then result_exponent + 1 else result_exponent)
      in if maximum_exponent fmt < result_exponent
         then let flags = FlagOverflow OR FlagInexact in
           if overflow_to_infinity rounding sign then \<lparr>fr_bits = float_infinity fmt sign, fr_flags = flags\<rparr>
           else let maximum_finite = push_bit (fraction_bits fmt) (exponent_all_ones fmt - 1) OR fraction_mask fmt
             in \<lparr>fr_bits = (if sign then sign_mask fmt else 0) OR maximum_finite, fr_flags = flags\<rparr>
         else let exponent_field = word_of_int (result_exponent + bias fmt);
                  fraction = wide_low64 magnitude AND fraction_mask fmt;
                  flags = (if inexact then FlagInexact else 0);
                  flags = (if inexact \<and> tiny_after_rounding then flags OR FlagUnderflow else flags)
           in \<lparr>fr_bits = (if sign then sign_mask fmt else 0) OR push_bit (fraction_bits fmt) exponent_field OR fraction,
               fr_flags = flags\<rparr>)"

definition pack_subnormal :: "format \<Rightarrow> bool \<Rightarrow> wide \<Rightarrow> bool \<Rightarrow> bool \<Rightarrow> floating_result" where
  "pack_subnormal fmt sign magnitude tiny_after_rounding inexact =
     (let minimum_normal = push_bit (fraction_bits fmt) 1;
          encoded_magnitude = wide_low64 magnitude;
          bits = (if sign then sign_mask fmt else 0);
          bits = (if minimum_normal \<le> encoded_magnitude then bits OR push_bit (fraction_bits fmt) 1
                  else bits OR encoded_magnitude);
          flags = (if inexact then FlagInexact OR (if tiny_after_rounding then FlagUnderflow else 0) else 0)
      in \<lparr>fr_bits = bits, fr_flags = flags\<rparr>)"

definition round_and_pack :: "format \<Rightarrow> bool \<Rightarrow> wide \<Rightarrow> int \<Rightarrow> floating_rounding_mode \<Rightarrow> floating_result" where
  "round_and_pack fmt sign magnitude expo rounding =
     (if wide_zero magnitude then \<lparr>fr_bits = signed_zero fmt sign, fr_flags = 0\<rparr>
      else let precision = fraction_bits fmt + 1;
               bit_length = wide_bit_length magnitude;
               result_exponent = expo + int bit_length - 1;
               tiny_after_rounding = tiny_after_unbounded_rounding fmt sign magnitude expo rounding
           in if minimum_exponent fmt \<le> result_exponent
              then let (magnitude, inexact) =
                     (if precision < bit_length
                      then rounded_right_shift magnitude (bit_length - precision) sign rounding False
                      else if bit_length < precision then (wide_shift_left magnitude (precision - bit_length), False)
                      else (magnitude, False))
                in pack_normal fmt sign magnitude result_exponent tiny_after_rounding inexact rounding
              else let unit_exponent = minimum_exponent fmt - int (fraction_bits fmt);
                       (magnitude, inexact) =
                         (if expo < unit_exponent
                          then rounded_right_shift magnitude (nat (unit_exponent - expo)) sign rounding False
                          else if unit_exponent < expo then (wide_shift_left magnitude (nat (expo - unit_exponent)), False)
                          else (magnitude, False))
                in pack_subnormal fmt sign magnitude tiny_after_rounding inexact)"

definition round_to_integer_magnitude ::
    "wide \<Rightarrow> int \<Rightarrow> bool \<Rightarrow> floating_rounding_mode \<Rightarrow> wide \<times> bool" where
  "round_to_integer_magnitude magnitude expo sign rounding =
     (if 0 \<le> expo then (wide_shift_left magnitude (nat expo), False)
      else rounded_right_shift magnitude (nat (- expo)) sign rounding False)"

subsection \<open>Exact significand arithmetic\<close>

function multiply_loop :: "u64 \<Rightarrow> wide \<Rightarrow> wide \<Rightarrow> wide" where
  "multiply_loop rhs shifted result =
     (if rhs \<noteq> 0
      then multiply_loop (drop_bit 1 rhs) (wide_shift_left shifted 1)
             (if rhs AND 1 \<noteq> 0 then wide_add result shifted else result)
      else result)"
  by pat_completeness auto
termination
proof (relation "measure (\<lambda>(r, _). unat r)")
  fix r :: u64 and s t :: wide
  assume "r \<noteq> 0"
  then have "0 < unat r" by (simp add: unat_gt_0)
  then show "((drop_bit 1 r, wide_shift_left s 1, if r AND 1 \<noteq> 0 then wide_add t s else t), r, s, t)
      \<in> measure (\<lambda>(r, _). unat r)"
    by (simp add: drop_bit_eq_div unat_div_distrib)
qed simp

declare multiply_loop.simps [simp del]

definition multiply_significands :: "u64 \<Rightarrow> u64 \<Rightarrow> wide" where
  "multiply_significands lhs rhs = multiply_loop rhs (wide_of lhs) wide_zero_value"

primrec divide_loop :: "wide \<Rightarrow> u64 \<Rightarrow> nat \<Rightarrow> wide \<times> u64 \<Rightarrow> wide \<times> u64" where
  "divide_loop dividend denominator 0 state = state"
| "divide_loop dividend denominator (Suc index) state =
     (let (quotient, remainder) = state;
          remainder = push_bit 1 remainder OR (if wide_bit dividend index then 1 else 0)
      in divide_loop dividend denominator index
           (if denominator \<le> remainder then (wide_set_bit quotient index, remainder - denominator)
            else (quotient, remainder)))"

definition divide_significands :: "u64 \<Rightarrow> u64 \<Rightarrow> nat \<Rightarrow> wide \<times> bool" where
  "divide_significands numerator denominator precision =
     (let dividend = wide_shift_left (wide_of numerator) precision;
          (quotient, remainder) = divide_loop dividend denominator (wide_bit_length dividend) (wide_zero_value, 0)
      in (quotient, remainder \<noteq> 0))"

primrec square_root_loop :: "wide \<Rightarrow> nat \<Rightarrow> wide \<times> wide \<Rightarrow> wide \<times> wide" where
  "square_root_loop radicand 0 state = state"
| "square_root_loop radicand (Suc pair) state =
     (let (root, remainder) = state;
          remainder = wide_shift_left remainder 2;
          low_bit = pair * 2;
          remainder = (if wide_bit radicand low_bit then wide_set_bit remainder 0 else remainder);
          remainder = (if wide_bit radicand (low_bit + 1) then wide_set_bit remainder 1 else remainder);
          root = wide_shift_left root 1;
          trial = wide_add (wide_shift_left root 1) (wide_of 1)
      in square_root_loop radicand pair
           (if 0 \<le> wide_compare remainder trial
            then (wide_add root (wide_of 1), wide_subtract remainder trial)
            else (root, remainder)))"

definition square_root_significand :: "u64 \<Rightarrow> nat \<Rightarrow> wide \<times> bool" where
  "square_root_significand significand shift_pairs =
     (let radicand = wide_shift_left (wide_of significand) (shift_pairs * 2);
          (root, remainder) = square_root_loop radicand ((wide_bit_length radicand + 1) div 2) (wide_zero_value, wide_zero_value)
      in (root, \<not> wide_zero remainder))"

subsection \<open>Arithmetic\<close>

definition invalid_result :: "format \<Rightarrow> floating_result" where
  "invalid_result fmt = \<lparr>fr_bits = canonical_nan fmt, fr_flags = invalid_flag\<rparr>"

definition add_magnitudes ::
    "format \<Rightarrow> bool \<Rightarrow> wide \<Rightarrow> bool \<Rightarrow> wide \<Rightarrow> int \<Rightarrow> floating_rounding_mode \<Rightarrow> floating_result" where
  "add_magnitudes fmt lhs_sign left rhs_sign right common_exponent rounding =
     (if lhs_sign = rhs_sign then round_and_pack fmt lhs_sign (wide_add left right) common_exponent rounding
      else let ordering = wide_compare left right in
        if ordering = 0 then \<lparr>fr_bits = signed_zero fmt (rounding = Down), fr_flags = 0\<rparr>
        else if 0 < ordering then round_and_pack fmt lhs_sign (wide_subtract left right) common_exponent rounding
        else round_and_pack fmt rhs_sign (wide_subtract right left) common_exponent rounding)"

definition add_unpacked :: "format \<Rightarrow> unpacked \<Rightarrow> unpacked \<Rightarrow> floating_rounding_mode \<Rightarrow> floating_result" where
  "add_unpacked fmt lhs rhs rounding =
     (if is_nan (up_category lhs) \<or> is_nan (up_category rhs)
      then let signaling = (up_category lhs = CatSignalingNan \<or> up_category rhs = CatSignalingNan)
        in \<lparr>fr_bits = canonical_nan fmt, fr_flags = (if signaling then invalid_flag else 0)\<rparr>
      else if up_category lhs = CatInfinity \<or> up_category rhs = CatInfinity
      then if up_category lhs = CatInfinity \<and> up_category rhs = CatInfinity \<and> up_sign lhs \<noteq> up_sign rhs
        then invalid_result fmt
        else let infinite = (if up_category lhs = CatInfinity then lhs else rhs)
          in \<lparr>fr_bits = float_infinity fmt (up_sign infinite), fr_flags = 0\<rparr>
      else if up_category lhs = CatZero \<and> up_category rhs = CatZero
      then let sign = (if up_sign lhs = up_sign rhs then up_sign lhs else rounding = Down)
        in \<lparr>fr_bits = signed_zero fmt sign, fr_flags = 0\<rparr>
      else if up_category lhs = CatZero
      then round_and_pack fmt (up_sign rhs) (wide_of (up_significand rhs)) (up_exponent rhs) rounding
      else if up_category rhs = CatZero
      then round_and_pack fmt (up_sign lhs) (wide_of (up_significand lhs)) (up_exponent lhs) rounding
      else let common_exponent = min (up_exponent lhs) (up_exponent rhs);
               left = wide_shift_left (wide_of (up_significand lhs)) (nat (up_exponent lhs - common_exponent));
               right = wide_shift_left (wide_of (up_significand rhs)) (nat (up_exponent rhs - common_exponent))
        in add_magnitudes fmt (up_sign lhs) left (up_sign rhs) right common_exponent rounding)"

definition floating_add :: "floating_format \<Rightarrow> u64 \<Rightarrow> u64 \<Rightarrow> floating_rounding_mode \<Rightarrow> floating_result" where
  "floating_add fmt lhs rhs rounding = add_unpacked (format_of fmt) (unpack fmt lhs) (unpack fmt rhs) rounding"

definition floating_subtract :: "floating_format \<Rightarrow> u64 \<Rightarrow> u64 \<Rightarrow> floating_rounding_mode \<Rightarrow> floating_result" where
  "floating_subtract fmt lhs rhs rounding = floating_add fmt lhs (rhs XOR sign_mask (format_of fmt)) rounding"

definition multiply_impl :: "floating_format \<Rightarrow> u64 \<Rightarrow> u64 \<Rightarrow> floating_rounding_mode \<Rightarrow> floating_result" where
  "multiply_impl format_name lhs_bits rhs_bits rounding =
     (let fmt = format_of format_name; lhs = unpack format_name lhs_bits; rhs = unpack format_name rhs_bits in
      if is_nan (up_category lhs) \<or> is_nan (up_category rhs)
      then let signaling = (up_category lhs = CatSignalingNan \<or> up_category rhs = CatSignalingNan)
        in \<lparr>fr_bits = canonical_nan fmt, fr_flags = (if signaling then invalid_flag else 0)\<rparr>
      else let sign = (up_sign lhs \<noteq> up_sign rhs);
               zero = (up_category lhs = CatZero \<or> up_category rhs = CatZero);
               infinite = (up_category lhs = CatInfinity \<or> up_category rhs = CatInfinity)
        in if zero \<and> infinite then \<lparr>fr_bits = canonical_nan fmt, fr_flags = invalid_flag\<rparr>
           else if infinite then \<lparr>fr_bits = float_infinity fmt sign, fr_flags = 0\<rparr>
           else if zero then \<lparr>fr_bits = signed_zero fmt sign, fr_flags = 0\<rparr>
           else round_and_pack fmt sign (multiply_significands (up_significand lhs) (up_significand rhs))
                  (up_exponent lhs + up_exponent rhs) rounding)"

definition floating_multiply :: "floating_format \<Rightarrow> u64 \<Rightarrow> u64 \<Rightarrow> floating_rounding_mode \<Rightarrow> floating_result" where
  "floating_multiply fmt lhs rhs rounding = multiply_impl fmt lhs rhs rounding"

definition with_sticky :: "wide \<times> bool \<Rightarrow> wide" where
  "with_sticky result =
     (let (v, remainder) = result; v = wide_shift_left v 1 in if remainder then wide_set_bit v 0 else v)"

definition floating_divide :: "floating_format \<Rightarrow> u64 \<Rightarrow> u64 \<Rightarrow> floating_rounding_mode \<Rightarrow> floating_result" where
  "floating_divide format_name lhs_bits rhs_bits rounding =
     (let fmt = format_of format_name; lhs = unpack format_name lhs_bits; rhs = unpack format_name rhs_bits in
      if is_nan (up_category lhs) \<or> is_nan (up_category rhs)
      then let signaling = (up_category lhs = CatSignalingNan \<or> up_category rhs = CatSignalingNan)
        in \<lparr>fr_bits = canonical_nan fmt, fr_flags = (if signaling then invalid_flag else 0)\<rparr>
      else let sign = (up_sign lhs \<noteq> up_sign rhs) in
        if (up_category lhs = CatZero \<and> up_category rhs = CatZero)
           \<or> (up_category lhs = CatInfinity \<and> up_category rhs = CatInfinity)
        then \<lparr>fr_bits = canonical_nan fmt, fr_flags = invalid_flag\<rparr>
        else if up_category lhs = CatInfinity then \<lparr>fr_bits = float_infinity fmt sign, fr_flags = 0\<rparr>
        else if up_category rhs = CatInfinity then \<lparr>fr_bits = signed_zero fmt sign, fr_flags = 0\<rparr>
        else if up_category rhs = CatZero then \<lparr>fr_bits = float_infinity fmt sign, fr_flags = FlagDivideByZero\<rparr>
        else if up_category lhs = CatZero then \<lparr>fr_bits = signed_zero fmt sign, fr_flags = 0\<rparr>
        else let precision = fraction_bits fmt + 128;
                 quotient = with_sticky (divide_significands (up_significand lhs) (up_significand rhs) precision)
          in round_and_pack fmt sign quotient (up_exponent lhs - up_exponent rhs - int precision - 1) rounding)"

definition floating_square_root :: "floating_format \<Rightarrow> u64 \<Rightarrow> floating_rounding_mode \<Rightarrow> floating_result" where
  "floating_square_root format_name operand_bits rounding =
     (let fmt = format_of format_name; operand = unpack format_name operand_bits in
      if is_nan (up_category operand)
      then \<lparr>fr_bits = canonical_nan fmt, fr_flags = (if up_category operand = CatSignalingNan then invalid_flag else 0)\<rparr>
      else if up_category operand = CatZero then \<lparr>fr_bits = signed_zero fmt (up_sign operand), fr_flags = 0\<rparr>
      else if up_sign operand then \<lparr>fr_bits = canonical_nan fmt, fr_flags = invalid_flag\<rparr>
      else if up_category operand = CatInfinity then \<lparr>fr_bits = float_infinity fmt False, fr_flags = 0\<rparr>
      else let odd_exponent = (up_exponent operand AND 1 \<noteq> 0);
               significand = (if odd_exponent then push_bit 1 (up_significand operand) else up_significand operand);
               expo = (if odd_exponent then up_exponent operand - 1 else up_exponent operand);
               precision = fraction_bits fmt + 5;
               source_bits = wide_bit_length (wide_of significand);
               source_root_bits = (source_bits + 1) div 2;
               shift_pairs = (if source_root_bits < precision then precision - source_root_bits else 0);
               root = with_sticky (square_root_significand significand shift_pairs)
        in round_and_pack fmt False root (expo sdiv 2 - int shift_pairs - 1) rounding)"

definition floating_fused_multiply_add ::
    "floating_format \<Rightarrow> u64 \<Rightarrow> u64 \<Rightarrow> u64 \<Rightarrow> bool \<Rightarrow> bool \<Rightarrow> floating_rounding_mode \<Rightarrow> floating_result" where
  "floating_fused_multiply_add format_name multiplicand_bits multiplier_bits addend_bits negate_product negate_addend rounding =
     (let fmt = format_of format_name;
          lhs = unpack format_name multiplicand_bits;
          rhs = unpack format_name multiplier_bits;
          addend = unpack format_name addend_bits
      in if (up_category lhs = CatInfinity \<and> up_category rhs = CatZero)
            \<or> (up_category rhs = CatInfinity \<and> up_category lhs = CatZero)
      then \<lparr>fr_bits = canonical_nan fmt, fr_flags = invalid_flag\<rparr>
      else if is_nan (up_category lhs) \<or> is_nan (up_category rhs) \<or> is_nan (up_category addend)
      then let signaling = (up_category lhs = CatSignalingNan \<or> up_category rhs = CatSignalingNan
                            \<or> up_category addend = CatSignalingNan)
        in \<lparr>fr_bits = canonical_nan fmt, fr_flags = (if signaling then invalid_flag else 0)\<rparr>
      else let product_sign = ((up_sign lhs \<noteq> up_sign rhs) \<noteq> negate_product);
               addend_sign = (up_sign addend \<noteq> negate_addend)
        in if up_category lhs = CatInfinity \<or> up_category rhs = CatInfinity
           then if up_category addend = CatInfinity \<and> product_sign \<noteq> addend_sign
             then \<lparr>fr_bits = canonical_nan fmt, fr_flags = invalid_flag\<rparr>
             else \<lparr>fr_bits = float_infinity fmt product_sign, fr_flags = 0\<rparr>
           else if up_category addend = CatInfinity
           then \<lparr>fr_bits = float_infinity fmt addend_sign, fr_flags = 0\<rparr>
           else let product_zero = (up_category lhs = CatZero \<or> up_category rhs = CatZero) in
             if product_zero \<and> up_category addend = CatZero
             then let sign = (if product_sign = addend_sign then product_sign else rounding = Down)
               in \<lparr>fr_bits = signed_zero fmt sign, fr_flags = 0\<rparr>
             else if product_zero
             then round_and_pack fmt addend_sign (wide_of (up_significand addend)) (up_exponent addend) rounding
             else let product = multiply_significands (up_significand lhs) (up_significand rhs);
                      expo = up_exponent lhs + up_exponent rhs
               in if up_category addend = CatZero then round_and_pack fmt product_sign product expo rounding
                  else let common_exponent = min expo (up_exponent addend);
                           product = wide_shift_left product (nat (expo - common_exponent));
                           addend_magnitude = wide_shift_left (wide_of (up_significand addend))
                             (nat (up_exponent addend - common_exponent))
                    in add_magnitudes fmt product_sign product addend_sign addend_magnitude common_exponent rounding)"

subsection \<open>Sign injection, minimum and maximum, comparison, classification\<close>

definition floating_sign_inject :: "floating_format \<Rightarrow> u64 \<Rightarrow> u64 \<Rightarrow> u8 \<Rightarrow> u64" where
  "floating_sign_inject format_name magnitude sign_source operation =
     (let sm = sign_mask (format_of format_name);
          first_sign = magnitude AND sm;
          second_sign = sign_source AND sm;
          result_sign = (if operation = 1 then second_sign XOR sm
                         else if operation = 2 then first_sign XOR second_sign else second_sign)
      in (magnitude AND NOT sm) OR result_sign)"

definition numeric_less :: "format \<Rightarrow> u64 \<Rightarrow> u64 \<Rightarrow> bool" where
  "numeric_less fmt lhs_bits rhs_bits =
     (let lhs_magnitude = lhs_bits AND NOT (sign_mask fmt);
          rhs_magnitude = rhs_bits AND NOT (sign_mask fmt)
      in if lhs_magnitude = 0 \<and> rhs_magnitude = 0 then False
         else let lhs_sign = (lhs_bits AND sign_mask fmt \<noteq> 0); rhs_sign = (rhs_bits AND sign_mask fmt \<noteq> 0)
           in if lhs_sign \<noteq> rhs_sign then lhs_sign
              else if lhs_sign then rhs_magnitude < lhs_magnitude else lhs_magnitude < rhs_magnitude)"

definition floating_minimum_maximum :: "floating_format \<Rightarrow> u64 \<Rightarrow> u64 \<Rightarrow> bool \<Rightarrow> floating_result" where
  "floating_minimum_maximum format_name lhs_bits rhs_bits maximum =
     (let fmt = format_of format_name; lhs = unpack format_name lhs_bits; rhs = unpack format_name rhs_bits;
          signaling = (up_category lhs = CatSignalingNan \<or> up_category rhs = CatSignalingNan);
          lhs_nan = is_nan (up_category lhs); rhs_nan = is_nan (up_category rhs);
          flags = (if signaling then invalid_flag else 0)
      in if lhs_nan \<and> rhs_nan then \<lparr>fr_bits = canonical_nan fmt, fr_flags = flags\<rparr>
         else if lhs_nan then \<lparr>fr_bits = rhs_bits, fr_flags = flags\<rparr>
         else if rhs_nan then \<lparr>fr_bits = lhs_bits, fr_flags = flags\<rparr>
         else let less = numeric_less fmt lhs_bits rhs_bits;
                  equal = (\<not> less \<and> \<not> numeric_less fmt rhs_bits lhs_bits)
           in if equal
              then if lhs_bits AND NOT (sign_mask fmt) = 0 \<and> rhs_bits AND NOT (sign_mask fmt) = 0
                then \<lparr>fr_bits = (if maximum then lhs_bits AND rhs_bits else lhs_bits OR rhs_bits), fr_flags = 0\<rparr>
                else \<lparr>fr_bits = lhs_bits, fr_flags = 0\<rparr>
              else \<lparr>fr_bits = (if maximum then if less then rhs_bits else lhs_bits
                               else if less then lhs_bits else rhs_bits), fr_flags = 0\<rparr>)"

definition floating_compare :: "floating_format \<Rightarrow> u64 \<Rightarrow> u64 \<Rightarrow> floating_comparison \<Rightarrow> floating_comparison_result" where
  "floating_compare format_name lhs_bits rhs_bits comparison =
     (let fmt = format_of format_name; lhs = unpack format_name lhs_bits; rhs = unpack format_name rhs_bits in
      if is_nan (up_category lhs) \<or> is_nan (up_category rhs)
      then let signaling_comparison = (comparison \<noteq> FEqual);
               signaling_nan = (up_category lhs = CatSignalingNan \<or> up_category rhs = CatSignalingNan)
        in \<lparr>fcr_value = False, fcr_flags = (if signaling_comparison \<or> signaling_nan then invalid_flag else 0)\<rparr>
      else let less = numeric_less fmt lhs_bits rhs_bits;
               equal = (\<not> less \<and> \<not> numeric_less fmt rhs_bits lhs_bits)
        in if comparison = FEqual then \<lparr>fcr_value = equal, fcr_flags = 0\<rparr>
           else if comparison = FLessThan then \<lparr>fcr_value = less, fcr_flags = 0\<rparr>
           else \<lparr>fcr_value = (less \<or> equal), fcr_flags = 0\<rparr>)"

definition floating_classify :: "floating_format \<Rightarrow> u64 \<Rightarrow> u16" where
  "floating_classify format_name operand_bits =
     (let operand = unpack format_name operand_bits in
      if up_category operand = CatInfinity then push_bit (if up_sign operand then 0 else 7) 1
      else if up_category operand = CatZero then push_bit (if up_sign operand then 3 else 4) 1
      else if up_category operand = CatSignalingNan then push_bit 8 1
      else if up_category operand = CatQuietNan then push_bit 9 1
      else let fmt = format_of format_name;
               exponent_field = drop_bit (fraction_bits fmt) (operand_bits AND exponent_mask fmt);
               subnormal = (exponent_field = 0)
        in if up_sign operand then push_bit (if subnormal then 2 else 1) 1
           else push_bit (if subnormal then 5 else 6) 1)"

subsection \<open>Conversions\<close>

definition width_mask :: "u8 \<Rightarrow> u64" where
  "width_mask width = (if width = 32 then 0xFFFFFFFF else 0xFFFFFFFFFFFFFFFF)"

definition signed_maximum :: "u8 \<Rightarrow> u64" where
  "signed_maximum width = (if width = 32 then 0x7FFFFFFF else 0x7FFFFFFFFFFFFFFF)"

definition signed_minimum_bits :: "u8 \<Rightarrow> u64" where
  "signed_minimum_bits width = (if width = 32 then 0x80000000 else 0x8000000000000000)"

definition invalid_integer_result :: "bool \<Rightarrow> bool \<Rightarrow> u8 \<Rightarrow> floating_integer_result" where
  "invalid_integer_result sign unsigned_integer width =
     \<lparr>fir_value = (if unsigned_integer then if sign then 0 else width_mask width
                   else if sign then signed_minimum_bits width else signed_maximum width),
      fir_flags = FlagInvalidOperation\<rparr>"

definition floating_convert_format ::
    "floating_format \<Rightarrow> floating_format \<Rightarrow> u64 \<Rightarrow> floating_rounding_mode \<Rightarrow> floating_result" where
  "floating_convert_format destination source operand_bits rounding =
     (let target = format_of destination; operand = unpack source operand_bits in
      if is_nan (up_category operand)
      then \<lparr>fr_bits = canonical_nan target, fr_flags = (if up_category operand = CatSignalingNan then invalid_flag else 0)\<rparr>
      else if up_category operand = CatInfinity
      then \<lparr>fr_bits = float_infinity target (up_sign operand), fr_flags = 0\<rparr>
      else if up_category operand = CatZero then \<lparr>fr_bits = signed_zero target (up_sign operand), fr_flags = 0\<rparr>
      else round_and_pack target (up_sign operand) (wide_of (up_significand operand)) (up_exponent operand) rounding)"

definition floating_from_integer ::
    "floating_format \<Rightarrow> u64 \<Rightarrow> bool \<Rightarrow> u8 \<Rightarrow> floating_rounding_mode \<Rightarrow> floating_result" where
  "floating_from_integer destination operand unsigned_integer integer_width rounding =
     (let msk = width_mask integer_width;
          operand = operand AND msk;
          sign_bit = (if integer_width = 32 then 0x80000000 else 0x8000000000000000);
          sign = (\<not> unsigned_integer \<and> operand AND sign_bit \<noteq> 0);
          magnitude = (if sign then (NOT operand + 1) AND msk else operand)
      in round_and_pack (format_of destination) sign (wide_of magnitude) 0 rounding)"

definition floating_to_integer ::
    "floating_format \<Rightarrow> u64 \<Rightarrow> bool \<Rightarrow> u8 \<Rightarrow> floating_rounding_mode \<Rightarrow> floating_integer_result" where
  "floating_to_integer source operand_bits unsigned_integer integer_width rounding =
     (let operand = unpack source operand_bits in
      if is_nan (up_category operand) then invalid_integer_result False unsigned_integer integer_width
      else if up_category operand = CatInfinity
      then invalid_integer_result (up_sign operand) unsigned_integer integer_width
      else if up_category operand = CatZero then \<lparr>fir_value = 0, fir_flags = 0\<rparr>
      else let (magnitude, inexact) = round_to_integer_magnitude (wide_of (up_significand operand))
                 (up_exponent operand) (up_sign operand) rounding
        in if 64 < wide_bit_length magnitude
           then invalid_integer_result (up_sign operand) unsigned_integer integer_width
           else let rounded = wide_low64 magnitude; flags = (if inexact then FlagInexact else 0) in
             if unsigned_integer
             then if (up_sign operand \<and> rounded \<noteq> 0) \<or> width_mask integer_width < rounded
               then invalid_integer_result (up_sign operand) True integer_width
               else \<lparr>fir_value = rounded, fir_flags = flags\<rparr>
             else if (up_sign operand \<and> signed_minimum_bits integer_width < rounded)
                     \<or> (\<not> up_sign operand \<and> signed_maximum integer_width < rounded)
               then invalid_integer_result (up_sign operand) False integer_width
               else \<lparr>fir_value = (if up_sign operand then (NOT rounded + 1) AND width_mask integer_width else rounded),
                     fir_flags = flags\<rparr>)"

end
