(* ===== verification/Soft_Float_Round.thy ===== *)
theory Soft_Float_Round
  imports Complex_Main Soft_Float
begin

unbundle bit_operations_syntax

text \<open>
  Correct rounding of the software floating-point core. The reference \<open>ieee_round\<close> rounds a positive real to
  the format the way IEEE 754 defines it, from the real alone, and \<open>round_and_pack\<close> is shown to compute it.
\<close>

subsection \<open>Rounding a real to an integer\<close>

definition round_to_int :: "floating_rounding_mode \<Rightarrow> bool \<Rightarrow> real \<Rightarrow> int" where
  "round_to_int rounding sign x =
     (let q = \<lfloor>x\<rfloor>; r = x - of_int q in
      q + (if (case rounding of
                 NearestTiesToEven \<Rightarrow> 1 / 2 < r \<or> (r = 1 / 2 \<and> odd q)
               | TowardZero \<Rightarrow> False
               | Down \<Rightarrow> sign \<and> 0 < r
               | Up \<Rightarrow> \<not> sign \<and> 0 < r
               | NearestTiesToMaximumMagnitude \<Rightarrow> 1 / 2 \<le> r) then 1 else 0))"

lemma round_to_int_of_int [simp]: "round_to_int rounding sign (of_int k) = k"
  by (simp add: round_to_int_def split: floating_rounding_mode.split)

lemma round_to_int_of_nat [simp]: "round_to_int rounding sign (real k) = int k"
  using round_to_int_of_int [of rounding sign "int k"] by simp

lemma round_to_int_bounds: "\<lfloor>x\<rfloor> \<le> round_to_int rounding sign x" "round_to_int rounding sign x \<le> \<lceil>x\<rceil>"
proof -
  have "\<lceil>x\<rceil> = \<lfloor>x\<rfloor> + 1" if "0 < x - of_int \<lfloor>x\<rfloor>" using that by (simp add: ceiling_altdef)
  moreover have "\<lfloor>x\<rfloor> \<le> \<lceil>x\<rceil>" by (meson ceiling_mono floor_le_ceiling)
  ultimately show "\<lfloor>x\<rfloor> \<le> round_to_int rounding sign x" "round_to_int rounding sign x \<le> \<lceil>x\<rceil>"
    by (auto simp: round_to_int_def Let_def split: floating_rounding_mode.split)
qed

lemma round_nat_quotient:
  fixes v d :: nat
  assumes "0 < d"
  shows "round_to_int rounding sign (real v / real d) =
    int (v div d) + (if (case rounding of
       NearestTiesToEven \<Rightarrow> d < 2 * (v mod d) \<or> (2 * (v mod d) = d \<and> odd (v div d))
     | TowardZero \<Rightarrow> False
     | Down \<Rightarrow> sign \<and> v mod d \<noteq> 0
     | Up \<Rightarrow> \<not> sign \<and> v mod d \<noteq> 0
     | NearestTiesToMaximumMagnitude \<Rightarrow> d \<le> 2 * (v mod d)) then 1 else 0)"
proof -
  have q: "\<lfloor>real v / real d\<rfloor> = int (v div d)" by (simp add: floor_divide_of_nat_eq)
  have "real v = real d * real (v div d) + real (v mod d)"
    by (metis mult_div_mod_eq of_nat_add of_nat_mult)
  then have r: "real v / real d - real_of_int \<lfloor>real v / real d\<rfloor> = real (v mod d) / real d"
    unfolding q using assms by (simp add: field_simps)
  have "1 / 2 < real (v mod d) / real d \<longleftrightarrow> real d < real (2 * (v mod d))"
    "real (v mod d) / real d = 1 / 2 \<longleftrightarrow> real (2 * (v mod d)) = real d"
    "1 / 2 \<le> real (v mod d) / real d \<longleftrightarrow> real d \<le> real (2 * (v mod d))"
    "0 < real (v mod d) / real d \<longleftrightarrow> v mod d \<noteq> 0"
    using assms by (auto simp: field_simps)
  then show ?thesis using assms unfolding round_to_int_def Let_def r unfolding q
    by (simp only: of_nat_less_iff of_nat_eq_iff of_nat_le_iff) (simp only: even_of_nat)
qed

lemma half_sticky:
  fixes v :: nat
  shows "v mod 2 ^ Suc j = (if bit v j then 2 ^ j else 0) + v mod 2 ^ j"
proof -
  have "v mod (2 ^ j * 2) = 2 ^ j * (v div 2 ^ j mod 2) + v mod 2 ^ j" by (rule mod_mult2_eq)
  then show ?thesis by (simp add: bit_iff_odd odd_iff_mod_2_eq_one mult.commute)
qed

lemma rounded_right_shift_val:
  assumes w: "wide_wf w" and k: "0 < k" and rrs: "rounded_right_shift w k sign rounding i0 = (w', inexact)"
  shows "wide_wf w'" "int (limbs_val w') = round_to_int rounding sign (real (limbs_val w) / 2 ^ k)"
    "inexact \<longleftrightarrow> limbs_val w mod 2 ^ k \<noteq> 0"
proof -
  define v where "v = limbs_val w"
  obtain j where j: "k = Suc j" using k by (cases k) auto
  define r where "r = v mod 2 ^ j"
  have r: "r < 2 ^ j" by (simp add: r_def)
  have m: "v mod 2 ^ k = (if bit v j then 2 ^ j else 0) + r" unfolding j r_def by (rule half_sticky)
  have half: "wide_bit w (k - 1) = bit v j" "wide_any_low_bits w (k - 1) = (r \<noteq> 0)"
    "wide_bit (wide_shift_right w k) 0 = odd (v div 2 ^ k)"
    using w by (simp_all add: j v_def r_def wide_bit_val wide_any_low_bits_val wide_shift_right_val bit_0)
  let ?inc = "should_increment rounding sign (bit v j) (r \<noteq> 0) (odd (v div 2 ^ k))"
  have split: "w' = (if ?inc then wide_add (wide_shift_right w k) (wide_of 1) else wide_shift_right w k)"
      "inexact = (bit v j \<or> r \<noteq> 0)"
    using rrs k unfolding rounded_right_shift_def half by (simp_all add: Let_def half)
  show "wide_wf w'" unfolding split using w by (simp add: wide_add_val wide_shift_right_val)
  show "inexact \<longleftrightarrow> limbs_val w mod 2 ^ k \<noteq> 0" unfolding split(2) v_def [symmetric] m by auto
  have small: "v div 2 ^ k + 1 < 2 ^ 4608"
  proof -
    have "v div 2 ^ k \<le> v div 2" using j by (simp add: div_le_mono2)
    moreover have "v < 2 ^ 4608" unfolding v_def using wide_val_less [OF w] .
    moreover have "(4 :: nat) \<le> 2 ^ 4608" using power_increasing [of 2 4608 "2 :: nat"] by (simp del: power_increasing_iff)
    ultimately show ?thesis by linarith
  qed
  have "limbs_val w' = v div 2 ^ k + (if ?inc then 1 else 0)"
    unfolding split(1) using w mod_less [OF small]
    by (simp add: wide_add_val wide_shift_right_val v_def [symmetric])
  moreover have "?inc = (case rounding of
       NearestTiesToEven \<Rightarrow> 2 ^ k < 2 * (v mod 2 ^ k) \<or> (2 * (v mod 2 ^ k) = 2 ^ k \<and> odd (v div 2 ^ k))
     | TowardZero \<Rightarrow> False
     | Down \<Rightarrow> sign \<and> v mod 2 ^ k \<noteq> 0
     | Up \<Rightarrow> \<not> sign \<and> v mod 2 ^ k \<noteq> 0
     | NearestTiesToMaximumMagnitude \<Rightarrow> 2 ^ k \<le> 2 * (v mod 2 ^ k))"
    unfolding m using r by (auto simp: should_increment_def j split: floating_rounding_mode.split)
  ultimately show "int (limbs_val w') = round_to_int rounding sign (real (limbs_val w) / 2 ^ k)"
    using round_nat_quotient [of "2 ^ k" rounding sign v] by (simp add: v_def)
qed


subsection \<open>The reference rounding\<close>

definition binade :: "real \<Rightarrow> int" where
  "binade x = \<lfloor>log 2 x\<rfloor>"

text \<open>Where an overflow goes by IEEE 754: to infinity in the nearest modes and in the mode that rounds away from zero
  on that side, else to the largest finite number.\<close>

fun overflow_is_infinite :: "floating_rounding_mode \<Rightarrow> bool \<Rightarrow> bool" where
  "overflow_is_infinite NearestTiesToEven sign = True"
| "overflow_is_infinite NearestTiesToMaximumMagnitude sign = True"
| "overflow_is_infinite TowardZero sign = False"
| "overflow_is_infinite Down sign = sign"
| "overflow_is_infinite Up sign = (\<not> sign)"

lemma overflow_to_infinity_iff: "overflow_to_infinity rounding sign = overflow_is_infinite rounding sign"
  by (cases rounding) (simp_all add: overflow_to_infinity_def)

definition ieee_round :: "format \<Rightarrow> floating_rounding_mode \<Rightarrow> bool \<Rightarrow> real \<Rightarrow> floating_result" where
  "ieee_round fmt rounding sign x =
     (let least = minimum_exponent fmt - int (fraction_bits fmt);
          unit = max (binade x - int (fraction_bits fmt)) least;
          n = round_to_int rounding sign (x / 2 powi unit);
          encoded = n + (unit - least) * 2 ^ fraction_bits fmt;
          free_unit = binade x - int (fraction_bits fmt);
          unbounded = of_int (round_to_int rounding sign (x / 2 powi free_unit)) * 2 powi free_unit;
          sign_part = (if sign then 2 ^ (exponent_bits fmt + fraction_bits fmt) else 0);
          beyond = (2 ^ exponent_bits fmt - 1) * 2 ^ fraction_bits fmt
      in if beyond \<le> encoded
         then \<lparr>fr_bits = word_of_int (sign_part + (if overflow_is_infinite rounding sign then beyond else beyond - 1)),
               fr_flags = FlagOverflow OR FlagInexact\<rparr>
         else \<lparr>fr_bits = word_of_int (sign_part + encoded),
               fr_flags = (if of_int n * 2 powi unit \<noteq> x
                           then FlagInexact OR (if unbounded < (2 :: real) powi minimum_exponent fmt then FlagUnderflow else 0)
                           else 0)\<rparr>)"

lemma ieee_round_eq:
  assumes "unit = max (binade x) (minimum_exponent fmt) - int (fraction_bits fmt)"
    and n: "int n = round_to_int rounding sign (x / 2 powi unit)"
    and "inexact \<longleftrightarrow> real n * 2 powi unit \<noteq> x"
    and "tiny \<longleftrightarrow> of_int (round_to_int rounding sign (x / 2 powi (binade x - int (fraction_bits fmt))))
           * 2 powi (binade x - int (fraction_bits fmt)) < (2 :: real) powi minimum_exponent fmt"
    and "encoded = int n + (unit - (minimum_exponent fmt - int (fraction_bits fmt))) * 2 ^ fraction_bits fmt"
    and "sign_part = (if sign then 2 ^ (exponent_bits fmt + fraction_bits fmt) else 0)"
    and "beyond = (2 ^ exponent_bits fmt - 1) * 2 ^ fraction_bits fmt"
  shows "ieee_round fmt rounding sign x =
    (if beyond \<le> encoded
     then \<lparr>fr_bits = word_of_int (sign_part + (if overflow_to_infinity rounding sign then beyond else beyond - 1)),
           fr_flags = FlagOverflow OR FlagInexact\<rparr>
     else \<lparr>fr_bits = word_of_int (sign_part + encoded),
           fr_flags = (if inexact then FlagInexact OR (if tiny then FlagUnderflow else 0) else 0)\<rparr>)"
proof -
  have u: "max (binade x - int (fraction_bits fmt)) (minimum_exponent fmt - int (fraction_bits fmt)) = unit"
    using assms(1) by simp
  show ?thesis
    unfolding ieee_round_def Let_def overflow_to_infinity_iff u n [symmetric] assms(3-7) by (simp only: of_int_of_nat_eq)
qed

lemma binade_iff: "0 < x \<Longrightarrow> binade x = k \<longleftrightarrow> 2 powi k \<le> x \<and> x < 2 powi (k + 1)"
  unfolding binade_def using powr_real_of_int' [of 2 "k + 1"]
  by (simp add: floor_log_eq_powr_iff powr_real_of_int')

lemma powi_pos [simp]: "0 < (2 :: real) powi k"
  by (simp add: zero_less_power_int)

lemma powi_add2: "(2 :: real) powi (a + b) = 2 powi a * 2 powi b"
  by (simp add: power_int_add)

lemma powi_diff2: "(2 :: real) powi (a - b) = 2 powi a / 2 powi b"
  by (simp add: power_int_diff)

lemma powi_nat: "0 \<le> k \<Longrightarrow> (2 :: real) powi k = 2 ^ nat k"
  by (simp add: power_int_def)

definition wide_value :: "wide \<Rightarrow> int \<Rightarrow> real" where
  "wide_value w e = real (limbs_val w) * 2 powi e"

lemma binade_wide:
  assumes "wide_wf w" "limbs_val w \<noteq> 0"
  shows "binade (wide_value w e) = e + int (wide_bit_length w) - 1"
proof -
  let ?L = "wide_bit_length w"
  have L: "0 < ?L" "2 ^ (?L - 1) \<le> limbs_val w" "limbs_val w < 2 ^ ?L"
    using wide_bit_length_val [OF assms] by auto
  have "real (2 ^ (?L - 1)) \<le> real (limbs_val w)" "real (limbs_val w) < real (2 ^ ?L)"
    using L by (simp_all only: of_nat_le_iff of_nat_less_iff)
  then have "2 powi (int ?L - 1) \<le> real (limbs_val w)" "real (limbs_val w) < 2 powi int ?L"
    using L(1) by (simp_all add: powi_nat nat_diff_distrib)
  moreover have "0 < wide_value w e" using assms(2) by (simp add: wide_value_def)
  ultimately show ?thesis
    by (simp add: binade_iff wide_value_def powi_add2 powi_diff2 add_diff_eq [symmetric] del: power_int_of_nat)
qed

lemma bit_length_le_iff:
  assumes "wide_wf w"
  shows "wide_bit_length w \<le> k \<longleftrightarrow> limbs_val w < 2 ^ k"
proof (cases "limbs_val w = 0")
  case True
  then show ?thesis using assms by (simp add: wide_bit_length_zero)
next
  case False
  note L = wide_bit_length_val [OF assms False]
  show ?thesis
  proof
    assume "wide_bit_length w \<le> k"
    then have "(2 :: nat) ^ wide_bit_length w \<le> 2 ^ k" by simp
    then show "limbs_val w < 2 ^ k" using L(4) by (rule order.strict_trans2 [rotated])
  next
    assume "limbs_val w < 2 ^ k"
    then have "(2 :: nat) ^ (wide_bit_length w - 1) < 2 ^ k" using L(3) by (rule order.strict_trans1 [rotated])
    then show "wide_bit_length w \<le> k" using L(1) by simp
  qed
qed

text \<open>Aligning a magnitude to a unit: the two branches of \<open>round_and_pack\<close> are this scaling at two units.\<close>

definition scale_to :: "wide \<Rightarrow> int \<Rightarrow> int \<Rightarrow> bool \<Rightarrow> floating_rounding_mode \<Rightarrow> wide \<times> bool" where
  "scale_to w e u sign rounding =
     (if e < u then rounded_right_shift w (nat (u - e)) sign rounding False
      else if u < e then (wide_shift_left w (nat (e - u)), False) else (w, False))"

lemma nat_div_ne: "real v / 2 ^ k = real n \<Longrightarrow> v mod 2 ^ k = 0"
proof -
  assume "real v / 2 ^ k = real n"
  then have "real v = real (n * 2 ^ k)" by (simp add: field_simps)
  then have "v = n * 2 ^ k" by (simp only: of_nat_eq_iff)
  then show ?thesis by simp
qed

lemma scale_to_val:
  assumes w: "wide_wf w" and fits: "u < e \<Longrightarrow> limbs_val w * 2 ^ nat (e - u) < 2 ^ 4608"
    and sc: "scale_to w e u sign rounding = (w', inexact)"
  shows "wide_wf w'" "int (limbs_val w') = round_to_int rounding sign (wide_value w e / 2 powi u)"
    "inexact \<longleftrightarrow> real (limbs_val w') * 2 powi u \<noteq> wide_value w e"
proof -
  consider (right) "e < u" | (left) "u \<le> e" by linarith
  then have "wide_wf w' \<and> int (limbs_val w') = round_to_int rounding sign (wide_value w e / 2 powi u)
    \<and> (inexact \<longleftrightarrow> real (limbs_val w') * 2 powi u \<noteq> wide_value w e)"
  proof cases
    case right
    define k where "k = nat (u - e)"
    have k: "0 < k" "u = e + int k" using right by (simp_all add: k_def)
    have x: "wide_value w e / 2 powi u = real (limbs_val w) / 2 ^ k"
      by (simp add: wide_value_def k(2) powi_add2)
    have rr: "rounded_right_shift w k sign rounding False = (w', inexact)" using sc right by (simp add: scale_to_def k_def)
    note R = rounded_right_shift_val [OF w k(1) rr]
    have "real (limbs_val w') * 2 powi u = wide_value w e \<longleftrightarrow> limbs_val w mod 2 ^ k = 0"
    proof
      assume "real (limbs_val w') * 2 powi u = wide_value w e"
      then have "wide_value w e / 2 powi u = real (limbs_val w')" by (simp add: field_simps)
      then show "limbs_val w mod 2 ^ k = 0" unfolding x by (rule nat_div_ne)
    next
      assume z: "limbs_val w mod 2 ^ k = 0"
      then obtain q where q: "limbs_val w = 2 ^ k * q" by (metis mod_0_imp_dvd dvdE)
      then have "limbs_val w' = q" using R(2) by simp
      then show "real (limbs_val w') * 2 powi u = wide_value w e" unfolding k(2) wide_value_def q by (simp add: powi_add2)
    qed
    then show ?thesis using R x by simp
  next
    case left
    define k where "k = nat (e - u)"
    have k: "e = u + int k" using left by (simp add: k_def)
    have x: "wide_value w e / 2 powi u = real (limbs_val w * 2 ^ k)" "wide_value w e = real (limbs_val w * 2 ^ k) * 2 powi u"
      by (simp_all add: wide_value_def k powi_add2)
    have "wide_wf w' \<and> limbs_val w' = limbs_val w * 2 ^ k \<and> \<not> inexact"
    proof (cases "e = u")
      case True
      then show ?thesis using sc w by (auto simp: scale_to_def k_def)
    next
      case False
      then have "u < e" using left by simp
      then show ?thesis using sc w mod_less [OF fits] wide_shift_left_val [OF w, of k]
        unfolding scale_to_def k_def by auto
    qed
    then show ?thesis unfolding x(1) unfolding x(2) by (metis round_to_int_of_nat)
  qed
  then show "wide_wf w'" "int (limbs_val w') = round_to_int rounding sign (wide_value w e / 2 powi u)"
    "inexact \<longleftrightarrow> real (limbs_val w') * 2 powi u \<noteq> wide_value w e" by blast+
qed


subsection \<open>Packing\<close>

definition format_ok :: "format \<Rightarrow> bool" where
  "format_ok fmt \<longleftrightarrow> 0 < fraction_bits fmt \<and> 2 \<le> exponent_bits fmt \<and> exponent_bits fmt + fraction_bits fmt < 64
     \<and> fraction_mask fmt = mask (fraction_bits fmt)
     \<and> exponent_mask fmt = push_bit (fraction_bits fmt) (mask (exponent_bits fmt))
     \<and> sign_mask fmt = push_bit (exponent_bits fmt + fraction_bits fmt) 1
     \<and> 2 * bias fmt = 2 ^ exponent_bits fmt - 2
     \<and> minimum_exponent fmt = 1 - bias fmt \<and> maximum_exponent fmt = bias fmt"

lemma format_of_ok: "format_ok (format_of f)"
  by (cases f) (simp_all add: format_of_def format_ok_def kSingleFormat_def kDoubleFormat_def mask_eq_exp_minus_1 push_bit_eq_mult)

lemma or_add:
  fixes a b :: "'a :: len word"
  assumes "\<And>n. n < LENGTH('a) \<Longrightarrow> \<not> (bit a n \<and> bit b n)"
  shows "a OR b = a + b"
proof -
  have "a AND b = 0" by (rule bit_word_eqI) (use assms in \<open>simp add: bit_and_iff\<close>)
  then show ?thesis by (simp add: disjunctive_add_eq_or)
qed

lemma bit_word_of_int_below:
  "0 \<le> k \<Longrightarrow> k < 2 ^ n \<Longrightarrow> bit (word_of_int k :: u64) i \<Longrightarrow> i < n"
  by (metis bit_take_bit_iff bit_word_of_int_iff take_bit_int_eq_self)

lemma pack_or:
  fixes field frac :: int
  assumes "fb + eb < 64" "0 \<le> field" "field < 2 ^ eb" "0 \<le> frac" "frac < 2 ^ fb"
  shows "(if sign then push_bit (eb + fb) 1 else 0) OR push_bit fb (word_of_int field) OR (word_of_int frac :: u64)
    = word_of_int ((if sign then 2 ^ (eb + fb) else 0) + (field * 2 ^ fb + frac))"
proof -
  let ?s = "(if sign then push_bit (eb + fb) 1 else 0) :: u64"
  let ?f = "push_bit fb (word_of_int field) :: u64"
  have f: "bit ?f i \<Longrightarrow> fb \<le> i \<and> i < eb + fb" for i
    using bit_word_of_int_below [OF assms(2,3), of "i - fb"] by (auto simp: bit_push_bit_iff)
  have g: "bit (word_of_int frac :: u64) i \<Longrightarrow> i < fb" for i
    by (rule bit_word_of_int_below [OF assms(4,5)])
  have h: "bit ?s i \<Longrightarrow> i = eb + fb" for i by (auto simp: bit_exp_iff split: if_splits)
  have e1: "?f OR word_of_int frac = ?f + word_of_int frac" by (rule or_add) (use f g in fastforce)
  have "?s OR (?f OR word_of_int frac) = ?s + (?f OR word_of_int frac)"
    by (rule or_add) (use f g h in \<open>fastforce simp: bit_or_iff\<close>)
  then show ?thesis unfolding e1 by (simp add: push_bit_eq_mult or.assoc [symmetric] e1)
qed

lemma word_of_unat: "unat a = k \<Longrightarrow> a = word_of_nat k"
  by auto

lemma low64_mask:
  assumes "wide_wf w" "fb \<le> 64"
  shows "wide_low64 w AND mask fb = word_of_nat (limbs_val w mod 2 ^ fb)"
proof -
  have "unat (wide_low64 w AND mask fb) = limbs_val w mod 2 ^ 64 mod 2 ^ fb"
    unfolding take_bit_eq_mask [symmetric] unsigned_take_bit_eq wide_low64_val [OF assms(1)]
    by (simp only: take_bit_eq_mod)
  also have "\<dots> = limbs_val w mod 2 ^ fb" using assms(2) by (intro mod_mod_cancel le_imp_power_dvd)
  finally show ?thesis by (rule word_of_unat)
qed

lemma pack_normal_val:
  assumes fmt: "format_ok fmt" and w: "wide_wf w"
    and n: "2 ^ fraction_bits fmt \<le> limbs_val w" "limbs_val w \<le> 2 ^ (fraction_bits fmt + 1)"
    and E: "minimum_exponent fmt \<le> E"
    and enc: "encoded = int (limbs_val w) + (E - minimum_exponent fmt) * 2 ^ fraction_bits fmt"
    and beyond: "beyond = (2 ^ exponent_bits fmt - 1) * 2 ^ fraction_bits fmt"
    and sp: "sign_part = (if sign then 2 ^ (exponent_bits fmt + fraction_bits fmt) else 0)"
  shows "pack_normal fmt sign w E tiny inexact rounding =
    (if beyond \<le> encoded
     then \<lparr>fr_bits = word_of_int (sign_part + (if overflow_to_infinity rounding sign then beyond else beyond - 1)),
           fr_flags = FlagOverflow OR FlagInexact\<rparr>
     else \<lparr>fr_bits = word_of_int (sign_part + encoded),
           fr_flags = (if inexact then FlagInexact OR (if tiny then FlagUnderflow else 0) else 0)\<rparr>)"
proof -
  define fb eb where "fb = fraction_bits fmt" "eb = exponent_bits fmt"
  have ok: "0 < fb" "2 \<le> eb" "fb + eb < 64" "fraction_mask fmt = mask fb" "exponent_mask fmt = push_bit fb (mask eb)"
      "sign_mask fmt = push_bit (eb + fb) 1" "2 * bias fmt = 2 ^ eb - 2" "minimum_exponent fmt = 1 - bias fmt"
      "maximum_exponent fmt = bias fmt"
    using fmt by (simp_all add: format_ok_def fb_eb_def)
  have powers: "int (2 ^ fb) = 2 ^ fb" "int (2 ^ (fb + 1)) = 2 * 2 ^ fb" by simp_all
  let ?c = "fb + 1 < wide_bit_length w"
  define w1 E1 where "w1 = (if ?c then wide_shift_right w 1 else w)" "E1 = (if ?c then E + 1 else E)"
  have c: "?c \<longleftrightarrow> limbs_val w = 2 ^ (fb + 1)"
    using bit_length_le_iff [OF w, of "fb + 1"] n(2) by (auto simp: fb_eb_def)
  have w1: "wide_wf w1" "limbs_val w1 mod 2 ^ fb = (if ?c then 0 else limbs_val w - 2 ^ fb)"
  proof -
    have "limbs_val w - 2 ^ fb < 2 ^ fb" if "\<not> ?c" using that n c by (auto simp: fb_eb_def)
    then have "limbs_val w mod 2 ^ fb = limbs_val w - 2 ^ fb" if "\<not> ?c"
      using that n(1) by (metis fb_eb_def(1) le_mod_geq mod_less)
    then show "wide_wf w1" "limbs_val w1 mod 2 ^ fb = (if ?c then 0 else limbs_val w - 2 ^ fb)"
      using w c by (auto simp: w1_E1_def wide_shift_right_val)
  qed
  have split: "encoded = (E1 + bias fmt) * 2 ^ fb + int (limbs_val w1 mod 2 ^ fb)"
  proof (cases ?c)
    case True
    then have "E1 = E + 1" "int (limbs_val w) = 2 * 2 ^ fb" "limbs_val w1 mod 2 ^ fb = 0" using c w1 by (auto simp: w1_E1_def)
    then show ?thesis unfolding enc ok(8) fb_eb_def(1) [symmetric] by (simp add: algebra_simps)
  next
    case False
    then have "E1 = E" "int (limbs_val w) = 2 ^ fb + int (limbs_val w1 mod 2 ^ fb)"
      using w1 n(1) by (auto simp: w1_E1_def(2) fb_eb_def of_nat_diff)
    then show ?thesis unfolding enc ok(8) fb_eb_def(1) [symmetric] by (simp add: algebra_simps)
  qed
  have frac: "int (limbs_val w1 mod 2 ^ fb) < 2 ^ fb"
    by (metis of_nat_less_iff mod_less_divisor pos2 powers(1) zero_less_power)
  have over: "beyond \<le> encoded \<longleftrightarrow> maximum_exponent fmt < E1"
  proof
    assume "maximum_exponent fmt < E1"
    then have "2 ^ eb - 1 \<le> E1 + bias fmt" using ok by linarith
    then have "(2 ^ eb - 1) * 2 ^ fb \<le> (E1 + bias fmt) * 2 ^ fb" by (intro mult_right_mono) simp_all
    then show "beyond \<le> encoded" unfolding split beyond fb_eb_def [symmetric] by linarith
  next
    assume "beyond \<le> encoded"
    moreover have "(E1 + bias fmt + 1) * 2 ^ fb = (E1 + bias fmt) * 2 ^ fb + 2 ^ fb" by (simp add: algebra_simps)
    ultimately have "(2 ^ eb - 1) * 2 ^ fb < (E1 + bias fmt + 1) * 2 ^ fb"
      unfolding split beyond fb_eb_def [symmetric] using frac by linarith
    then have "2 ^ eb - 1 < E1 + bias fmt + 1" by (simp only: mult_less_cancel_right_pos zero_less_power zero_less_numeral)
    then show "maximum_exponent fmt < E1" using ok by linarith
  qed
  have ones: "0 \<le> (2 :: int) ^ eb - 1" "(2 :: int) ^ eb - 1 < 2 ^ eb" "0 \<le> (2 :: int) ^ fb - 1" "(2 :: int) ^ fb - 1 < 2 ^ fb"
    "0 \<le> (2 :: int) ^ eb - 1 - 1" "(2 :: int) ^ eb - 1 - 1 < 2 ^ eb"
    using power_increasing [OF ok(2), of "2 :: int"] by (auto simp del: power_increasing_iff)
  have msk: "(mask k :: u64) = word_of_int (2 ^ k - 1)" for k by (simp add: mask_eq_exp_minus_1)
  have sgn: "(if sign then sign_mask fmt else 0) = (if sign then push_bit (eb + fb) 1 else 0)" using ok by simp
  have inf: "float_infinity fmt sign = word_of_int (sign_part + beyond)"
    using pack_or [OF ok(3) ones(1,2), of 0 sign]
    unfolding float_infinity_def sgn ok(5) msk sp beyond fb_eb_def [symmetric] by simp
  have aones: "exponent_all_ones fmt - 1 = word_of_int (2 ^ eb - 1 - 1)"
    by (simp add: exponent_all_ones_def fb_eb_def push_bit_eq_mult)
  have mx: "(if sign then sign_mask fmt else 0) OR (push_bit fb (exponent_all_ones fmt - 1) OR fraction_mask fmt)
      = word_of_int (sign_part + (beyond - 1))"
    using pack_or [OF ok(3) ones(5,6,3,4), of sign]
    unfolding sgn aones ok(4) msk sp beyond fb_eb_def [symmetric] or.assoc [symmetric]
    by (simp add: algebra_simps)
  have fin: "(if sign then sign_mask fmt else 0) OR push_bit fb (word_of_int (E1 + bias fmt)) OR (wide_low64 w1 AND fraction_mask fmt)
      = word_of_int (sign_part + encoded)" if "\<not> maximum_exponent fmt < E1"
  proof -
    have "0 \<le> E1 + bias fmt" using E ok by (auto simp: w1_E1_def)
    moreover have "E1 + bias fmt < 2 ^ eb" using that ok by linarith
    moreover have "wide_low64 w1 AND fraction_mask fmt = word_of_int (int (limbs_val w1 mod 2 ^ fb))"
      using low64_mask [OF w1(1), of fb] ok by simp
    ultimately show ?thesis using pack_or [OF ok(3), of "E1 + bias fmt" "int (limbs_val w1 mod 2 ^ fb)" sign] frac
      unfolding sgn sp split fb_eb_def [symmetric] by simp
  qed
  show ?thesis
    unfolding pack_normal_def Let_def over w1_E1_def [symmetric] fb_eb_def(1) [symmetric] inf
    using mx fin by (auto simp: w1_E1_def [symmetric])
qed


lemma pack_subnormal_val:
  assumes fmt: "format_ok fmt" and w: "wide_wf w" and n: "limbs_val w \<le> 2 ^ fraction_bits fmt"
    and sp: "sign_part = (if sign then 2 ^ (exponent_bits fmt + fraction_bits fmt) else 0)"
  shows "pack_subnormal fmt sign w tiny inexact =
     \<lparr>fr_bits = word_of_int (sign_part + int (limbs_val w)),
      fr_flags = (if inexact then FlagInexact OR (if tiny then FlagUnderflow else 0) else 0)\<rparr>"
proof -
  define fb eb where "fb = fraction_bits fmt" "eb = exponent_bits fmt"
  have ok: "2 \<le> eb" "fb + eb < 64" "sign_mask fmt = push_bit (eb + fb) 1"
    using fmt by (simp_all add: format_ok_def fb_eb_def)
  have "limbs_val w < 2 ^ 64"
    using le_less_trans [OF n power_strict_increasing [of "fraction_bits fmt" 64 "2 :: nat"]] ok by (simp add: fb_eb_def)
  then have low: "unat (wide_low64 w) = limbs_val w" using wide_low64_val [OF w] by (simp only: mod_less)
  then have low': "wide_low64 w = word_of_int (int (limbs_val w))" using word_of_unat [of "wide_low64 w"] unfolding of_int_of_nat_eq by blast
  have "unat (push_bit fb 1 :: u64) = 2 ^ fb"
    using ok unsigned_of_nat [of "2 ^ fb", where 'b = 64 and 'a = nat] by (simp add: take_bit_nat_eq_self)
  then have le: "push_bit fb 1 \<le> wide_low64 w \<longleftrightarrow> limbs_val w = 2 ^ fb"
    using n by (auto simp: word_le_nat_alt low fb_eb_def)
  have one: "(1 :: int) < 2 ^ eb" using ok(1) by (simp add: one_less_power)
  show ?thesis
  proof (cases "limbs_val w = 2 ^ fb")
    case True
    then show ?thesis using pack_or [OF ok(2), of 1 0 sign] one le
      unfolding pack_subnormal_def Let_def fb_eb_def(1) [symmetric] sp fb_eb_def(2) [symmetric] by (cases sign) (simp_all add: ok(3))
  next
    case False
    then have "int (limbs_val w) < int (2 ^ fb)" using n by (auto simp: fb_eb_def)
    then show ?thesis using pack_or [OF ok(2), of 0 "int (limbs_val w)" sign] False le low'
      unfolding pack_subnormal_def Let_def fb_eb_def(1) [symmetric] sp fb_eb_def(2) [symmetric] by (cases sign) (simp_all add: ok(3))
  qed
qed

lemma powi_le_iff [simp]: "(2 :: real) powi a \<le> 2 powi b \<longleftrightarrow> a \<le> b"
  using power_int_increasing [of a b "2 :: real"] power_int_strict_increasing [of b a "2 :: real"]
  by (cases "a \<le> b") auto

lemma powi_less_iff [simp]: "(2 :: real) powi a < 2 powi b \<longleftrightarrow> a < b"
  by (simp add: not_le [symmetric])

lemma round_to_int_within:
  assumes "of_int a \<le> x" "x \<le> of_int b"
  shows "a \<le> round_to_int rounding sign x" "round_to_int rounding sign x \<le> b"
  using round_to_int_bounds(1) [where x = x and rounding = rounding and sign = sign]
    round_to_int_bounds(2) [where x = x and rounding = rounding and sign = sign] assms
  by (metis ceiling_le_iff le_floor_iff order_trans)+

text \<open>A magnitude scaled to its own binade has exactly the precision of the format, or one bit more after a carry.\<close>

lemma binade_scaled:
  assumes w: "wide_wf w" "limbs_val w \<noteq> 0" and u: "u = e + int (wide_bit_length w) - 1 - int fb" and fb: "fb < 64"
    and sc: "scale_to w e u sign rounding = (w', inexact)"
  shows "wide_wf w'" "int (limbs_val w') = round_to_int rounding sign (wide_value w e / 2 powi u)"
    "inexact \<longleftrightarrow> real (limbs_val w') * 2 powi u \<noteq> wide_value w e"
    "2 ^ fb \<le> limbs_val w'" "limbs_val w' \<le> 2 ^ (fb + 1)"
proof -
  note L = wide_bit_length_val [OF w]
  have pos: "0 < wide_value w e" using w(2) by (simp add: wide_value_def)
  have fits: "limbs_val w * 2 ^ nat (e - u) < 2 ^ 4608" if "u < e"
  proof -
    have "limbs_val w * 2 ^ nat (e - u) < 2 ^ wide_bit_length w * 2 ^ nat (e - u)" using L(4) by simp
    also have "\<dots> = 2 ^ (fb + 1)" using that L(1) u by (simp only: power_add [symmetric]) (rule arg_cong [of _ _ "power 2"], simp)
    also have "\<dots> \<le> 2 ^ 4608" using fb by (intro power_increasing) auto
    finally show ?thesis .
  qed
  show *: "wide_wf w'" "int (limbs_val w') = round_to_int rounding sign (wide_value w e / 2 powi u)"
    "inexact \<longleftrightarrow> real (limbs_val w') * 2 powi u \<noteq> wide_value w e"
    using scale_to_val [OF w(1) fits sc] by blast+
  have "2 powi (u + int fb) \<le> wide_value w e" "wide_value w e < 2 powi (u + int fb + 1)"
    using binade_iff [OF pos, of "u + int fb"] binade_wide [OF w, of e] u by (simp_all add: add.assoc)
  then have "of_int (2 ^ fb) \<le> wide_value w e / 2 powi u" "wide_value w e / 2 powi u \<le> of_int (2 ^ (fb + 1))"
    by (simp_all add: powi_add2 field_simps)
  then have "2 ^ fb \<le> int (limbs_val w')" "int (limbs_val w') \<le> 2 ^ (fb + 1)" unfolding *(2) by (rule round_to_int_within)+
  then have "int (2 ^ fb) \<le> int (limbs_val w')" "int (limbs_val w') \<le> int (2 ^ (fb + 1))" by simp_all
  then show "2 ^ fb \<le> limbs_val w'" "limbs_val w' \<le> 2 ^ (fb + 1)" by (simp_all only: of_nat_le_iff)
qed

lemma scale_binade:
  assumes "u = e + int (wide_bit_length w) - 1 - int fb"
  shows "scale_to w e u sign rounding =
    (if fb + 1 < wide_bit_length w then rounded_right_shift w (wide_bit_length w - (fb + 1)) sign rounding False
     else if wide_bit_length w < fb + 1 then (wide_shift_left w (fb + 1 - wide_bit_length w), False) else (w, False))"
proof -
  have "nat (u - e) = wide_bit_length w - (fb + 1)" "nat (e - u) = fb + 1 - wide_bit_length w"
    "e < u \<longleftrightarrow> fb + 1 < wide_bit_length w" "u < e \<longleftrightarrow> wide_bit_length w < fb + 1"
    using assms by auto
  then show ?thesis by (simp only: scale_to_def)
qed

lemma tiny_val:
  assumes w: "wide_wf w" "limbs_val w \<noteq> 0" and u: "u = e + int (wide_bit_length w) - 1 - int (fraction_bits fmt)"
    and fb: "fraction_bits fmt < 64"
  shows "tiny_after_unbounded_rounding fmt sign w e rounding \<longleftrightarrow>
    of_int (round_to_int rounding sign (wide_value w e / 2 powi u)) * 2 powi u < (2 :: real) powi minimum_exponent fmt"
proof -
  obtain w' i where sc: "scale_to w e u sign rounding = (w', i)" by (metis surj_pair)
  note B = binade_scaled [OF w u fb sc]
  define E where "E = e + int (wide_bit_length w) - 1"
  have E: "E = u + int (fraction_bits fmt)" using u by (simp add: E_def)
  have w': "(if fraction_bits fmt + 1 < wide_bit_length w
       then fst (rounded_right_shift w (wide_bit_length w - (fraction_bits fmt + 1)) sign rounding False)
       else if wide_bit_length w < fraction_bits fmt + 1
       then wide_shift_left w (fraction_bits fmt + 1 - wide_bit_length w) else w) = w'"
    using scale_binade [OF u, of sign rounding] unfolding sc by (simp add: prod_eq_iff split: if_splits)
  have "tiny_after_unbounded_rounding fmt sign w e rounding \<longleftrightarrow>
      (if fraction_bits fmt + 1 < wide_bit_length w' then E + 1 else E) < minimum_exponent fmt"
    using w(2) unfolding tiny_after_unbounded_rounding_def Let_def w' by (simp add: wide_zero_val E_def)
  also have "\<dots> \<longleftrightarrow> real (limbs_val w') * 2 powi u < 2 powi minimum_exponent fmt"
  proof (cases "fraction_bits fmt + 1 < wide_bit_length w'")
    case True
    then have "limbs_val w' = 2 ^ (fraction_bits fmt + 1)" using bit_length_le_iff [OF B(1), of "fraction_bits fmt + 1"] B(5) by auto
    then have "real (limbs_val w') * 2 powi u = 2 powi (E + 1)" unfolding E by (simp add: powi_add2)
    then show ?thesis using True by simp
  next
    case False
    then have "limbs_val w' < 2 ^ (fraction_bits fmt + 1)" using bit_length_le_iff [OF B(1), of "fraction_bits fmt + 1"] by auto
    then have "real (limbs_val w') < real (2 ^ (fraction_bits fmt + 1))" by (simp only: of_nat_less_iff)
    then have hi: "real (limbs_val w') * 2 powi u < 2 powi (E + 1)" unfolding E by (simp add: powi_add2)
    have "real (2 ^ fraction_bits fmt) \<le> real (limbs_val w')" using B(4) by (simp only: of_nat_le_iff)
    then have lo: "2 powi E \<le> real (limbs_val w') * 2 powi u" unfolding E by (simp add: powi_add2)
    have "2 powi (E + 1) \<le> (2 :: real) powi minimum_exponent fmt" if "E < minimum_exponent fmt" using that by simp
    moreover have "2 powi minimum_exponent fmt \<le> (2 :: real) powi E" if "\<not> E < minimum_exponent fmt" using that by simp
    ultimately show ?thesis using False hi lo by (smt (verit))
  qed
  finally show ?thesis using B(2) by (metis of_int_of_nat_eq)
qed

theorem round_and_pack_correct:
  assumes fmt: "format_ok fmt" and w: "wide_wf w" "limbs_val w \<noteq> 0"
  shows "round_and_pack fmt sign w e rounding = ieee_round fmt rounding sign (wide_value w e)"
proof -
  define fb where "fb = fraction_bits fmt"
  define L where "L = wide_bit_length w"
  define E where "E = e + int L - 1"
  define x where "x = wide_value w e"
  define tiny where "tiny = tiny_after_unbounded_rounding fmt sign w e rounding"
  have fb: "fb < 64" using fmt by (simp add: format_ok_def fb_def)
  have bx: "binade x = E" using binade_wide [OF w] by (simp add: x_def E_def L_def)
  have pos: "0 < x" using w(2) by (simp add: wide_value_def x_def)
  have tiny: "tiny \<longleftrightarrow> of_int (round_to_int rounding sign (x / 2 powi (E - int fb))) * 2 powi (E - int fb)
      < (2 :: real) powi minimum_exponent fmt"
    unfolding tiny_def x_def by (rule tiny_val [OF w]) (use fb in \<open>simp_all add: E_def L_def fb_def\<close>)
  have nz: "\<not> wide_zero w" using w(2) by (simp add: wide_zero_val)
  show ?thesis
  proof (cases "minimum_exponent fmt \<le> E")
    case True
    obtain w' i where sc: "scale_to w e (E - int fb) sign rounding = (w', i)" by (metis surj_pair)
    have u: "E - int fb = e + int (wide_bit_length w) - 1 - int fb" by (simp add: E_def L_def)
    note B = binade_scaled [OF w u fb sc]
    have "round_and_pack fmt sign w e rounding = pack_normal fmt sign w' E tiny i rounding"
      using nz True sc scale_binade [OF u, of sign rounding]
      unfolding round_and_pack_def tiny_def E_def L_def fb_def by (auto simp: Let_def)
    also have "\<dots> = ieee_round fmt rounding sign x"
    proof (subst ieee_round_eq [OF _ _ _ _ refl refl refl, where n = "limbs_val w'" and inexact = i and tiny = tiny
          and unit = "E - int fb"])
      show "E - int fb = max (binade x) (minimum_exponent fmt) - int (fraction_bits fmt)" using True bx by (simp add: fb_def)
    qed (use B tiny in \<open>simp_all add: bx x_def [symmetric] fb_def [symmetric]
          pack_normal_val [OF fmt B(1) _ _ True refl refl refl, folded fb_def]\<close>)
    finally show ?thesis unfolding x_def .
  next
    case False
    define u where "u = minimum_exponent fmt - int fb"
    obtain w' i where sc: "scale_to w e u sign rounding = (w', i)" by (metis surj_pair)
    have xlt: "x < 2 powi (minimum_exponent fmt)"
      using binade_iff [OF pos, of E] bx False by (smt (verit) powi_le_iff)
    have fits: "limbs_val w * 2 ^ nat (e - u) < 2 ^ 4608" if "u < e"
    proof -
      have "real (limbs_val w * 2 ^ nat (e - u)) = x / 2 powi u"
        using that by (simp add: x_def wide_value_def powi_nat [symmetric] powi_diff2)
      also have "\<dots> < 2 ^ fb" using xlt unfolding u_def by (simp add: powi_diff2 field_simps)
      also have "\<dots> = real (2 ^ fb)" by simp
      finally have "limbs_val w * 2 ^ nat (e - u) < 2 ^ fb" by (simp only: of_nat_less_iff)
      also have "\<dots> \<le> 2 ^ 4608" using fb by (intro power_increasing) auto
      finally show ?thesis .
    qed
    note S = scale_to_val [OF w(1) fits sc]
    have "x / 2 powi u \<le> of_int (2 ^ fb)" using xlt unfolding u_def by (simp add: powi_diff2 field_simps)
    then have "int (limbs_val w') \<le> 2 ^ fb" using round_to_int_within(2) S(2) by (metis x_def of_int_0 pos powi_pos zero_le_divide_iff less_imp_le)
    then have le: "limbs_val w' \<le> 2 ^ fb" by (metis of_nat_le_iff of_nat_numeral of_nat_power)
    have "2 * 2 ^ fb \<le> (2 ^ exponent_bits fmt - 1) * (2 ^ fb :: int)"
    proof (rule mult_right_mono)
      show "2 \<le> (2 :: int) ^ exponent_bits fmt - 1"
        using fmt power_increasing [of 2 "exponent_bits fmt" "2 :: int"] by (simp add: format_ok_def del: power_increasing_iff)
    qed simp
    then have nb: "\<not> (2 ^ exponent_bits fmt - 1) * 2 ^ fb \<le> int (limbs_val w')"
      using \<open>int (limbs_val w') \<le> 2 ^ fb\<close> by (smt (verit) zero_less_power)
    have "round_and_pack fmt sign w e rounding = pack_subnormal fmt sign w' tiny i"
      using nz False sc unfolding round_and_pack_def tiny_def E_def L_def fb_def u_def scale_to_def by (auto simp: Let_def)
    also have "\<dots> = ieee_round fmt rounding sign x"
    proof (subst ieee_round_eq [OF _ _ _ _ refl refl refl, where n = "limbs_val w'" and inexact = i and tiny = tiny
          and unit = u])
      show "u = max (binade x) (minimum_exponent fmt) - int (fraction_bits fmt)" using False bx by (simp add: fb_def u_def)
    qed (use S tiny nb le in \<open>simp_all add: bx x_def [symmetric] fb_def [symmetric] u_def [symmetric]
          pack_subnormal_val [OF fmt S(1) _ refl, folded fb_def]\<close>)
    finally show ?thesis unfolding x_def .
  qed
qed

end
