(* ===== verification/Soft_Float_Exact.thy ===== *)
theory Soft_Float_Exact
  imports Soft_Float_Round
begin

unbundle bit_operations_syntax

text \<open>
  The integer arithmetic under the floating-point operations is exact: the shift-and-add product, the restoring
  division and the digit-by-digit square root on 72-limb integers compute product, quotient with remainder flag,
  and integer square root with remainder flag.
\<close>

subsection \<open>Significand arithmetic is exact\<close>

lemma unat_of_nat_u64: "k < 2 ^ 64 \<Longrightarrow> unat (word_of_nat k :: u64) = k"
  by (simp add: unsigned_of_nat take_bit_nat_eq_self)

lemma wide_shift_left_small:
  "wide_wf w \<Longrightarrow> limbs_val w * 2 ^ n < 2 ^ 4608 \<Longrightarrow> limbs_val (wide_shift_left w n) = limbs_val w * 2 ^ n"
  by (simp only: wide_shift_left_val mod_less)

lemma wide_add_small:
  "wide_wf x \<Longrightarrow> wide_wf y \<Longrightarrow> limbs_val x + limbs_val y < 2 ^ 4608 \<Longrightarrow> limbs_val (wide_add x y) = limbs_val x + limbs_val y"
  by (simp only: wide_add_val mod_less)

lemma multiply_loop_val:
  "wide_wf shifted \<Longrightarrow> wide_wf result \<Longrightarrow> limbs_val result + limbs_val shifted * unat rhs < 2 ^ 4608 \<Longrightarrow>
     wide_wf (multiply_loop rhs shifted result) \<and>
     limbs_val (multiply_loop rhs shifted result) = limbs_val result + limbs_val shifted * unat rhs"
proof (induction rhs shifted result rule: multiply_loop.induct)
  case (1 rhs shifted result)
  show ?case
  proof (cases "rhs = 0")
    case True
    then show ?thesis using 1(3) by (simp add: multiply_loop.simps [of 0])
  next
    case False
    define s where "s = limbs_val shifted"
    define rhs' shifted' result' where d: "rhs' = drop_bit 1 rhs" "shifted' = wide_shift_left shifted 1"
      "result' = (if rhs AND 1 \<noteq> 0 then wide_add result shifted else result)"
    have unf: "multiply_loop rhs shifted result = multiply_loop rhs' shifted' result'"
      using False by (simp add: multiply_loop.simps [of rhs] d)
    have h: "unat rhs' = unat rhs div 2" by (simp add: d drop_bit_eq_div unat_div_distrib)
    have lowbit: "rhs AND 1 \<noteq> 0 \<longleftrightarrow> odd (unat rhs)"
      by (simp add: and_one_eq odd_iff_mod_2_eq_one [symmetric] bit_0 [symmetric] bit_unsigned_iff)
    have rhs: "unat rhs = 2 * unat rhs' + (if odd (unat rhs) then 1 else 0)" unfolding h by presburger
    have tot: "limbs_val result + s * unat rhs = limbs_val result + (if odd (unat rhs) then s else 0) + 2 * s * unat rhs'"
      by (subst rhs) (simp add: algebra_simps)
    have wf: "wide_wf shifted'" "wide_wf result'" using 1(2,3) by (simp_all add: d wide_shift_left_val wide_add_val)
    have "limbs_val result + s < 2 ^ 4608" if "odd (unat rhs)" using tot that 1(4) unfolding s_def by (simp only: if_True simp_thms)
    then have rv: "limbs_val result' = limbs_val result + (if odd (unat rhs) then s else 0)"
      unfolding d(3) lowbit using wide_add_small [OF 1(3,2)] by (cases "odd (unat rhs)") (simp_all only: s_def if_True if_False add_0_right simp_thms)
    show ?thesis
    proof (cases "unat rhs' = 0")
      case True
      then have "rhs' = 0" by (simp add: unat_eq_0)
      then show ?thesis using unf wf rv tot True by (simp add: multiply_loop.simps [of 0] s_def)
    next
      case nz: False
      have "2 * s \<le> 2 * s * unat rhs'" using nz by simp
      then have "s * 2 < 2 ^ 4608" using tot 1(4) unfolding s_def by linarith
      then have sv: "limbs_val shifted' = 2 * s"
        unfolding d(2) wide_shift_left_val(2) [OF 1(2)] by (simp only: s_def power_one_right mod_less mult.commute)
      have "limbs_val result' + limbs_val shifted' * unat rhs' < 2 ^ 4608"
        using 1(4) tot unfolding rv sv s_def by linarith
      then show ?thesis using "1.IH" [folded d, OF False wf] unf tot by (simp add: rv sv s_def)
    qed
  qed
qed

lemma multiply_significands_val:
  "wide_wf (multiply_significands a b)" "limbs_val (multiply_significands a b) = unat a * unat b"
proof -
  have "unat a < 2 ^ 64" "unat b < 2 ^ 64" using unsigned_less [of a, where 'a = nat] unsigned_less [of b, where 'a = nat] by simp_all
  then have "unat a * unat b < 2 ^ 64 * 2 ^ 64" by (intro mult_strict_mono) simp_all
  also have "\<dots> \<le> 2 ^ 4608" unfolding power_add [symmetric] by (rule power_increasing) simp_all
  finally have "limbs_val wide_zero_value + limbs_val (wide_of a) * unat b < 2 ^ 4608" by simp
  then show "wide_wf (multiply_significands a b)" "limbs_val (multiply_significands a b) = unat a * unat b"
    using multiply_loop_val [of "wide_of a" wide_zero_value b] by (simp_all add: multiply_significands_def)
qed

lemma set_clear_bit: "\<not> bit (v :: nat) i \<Longrightarrow> set_bit i v = v + 2 ^ i"
  by (simp add: set_bit_eq)

lemma divide_loop_val:
  assumes d: "0 < unat d" "unat d < 2 ^ 63" and D: "wide_wf D"
  shows "i \<le> 4608 \<Longrightarrow> wide_wf q \<Longrightarrow> limbs_val D div 2 ^ i = Q * unat d + unat r \<Longrightarrow> limbs_val q = Q * 2 ^ i \<Longrightarrow> unat r < unat d \<Longrightarrow>
    divide_loop D d i (q, r) = (q', r') \<Longrightarrow>
    wide_wf q' \<and> limbs_val D = limbs_val q' * unat d + unat r' \<and> unat r' < unat d"
proof (induction i arbitrary: q r Q)
  case 0
  then show ?case by simp
next
  case (Suc i)
  define v where "v = limbs_val D"
  define b :: nat where "b = (if bit v i then 1 else 0)"
  define r1 where "r1 = push_bit 1 r OR (if wide_bit D i then 1 else 0)"
  have r1: "unat r1 = 2 * unat r + b"
  proof -
    have "push_bit 1 r OR (if wide_bit D i then 1 else 0) = push_bit 1 r + (if wide_bit D i then 1 else 0)"
      by (rule or_add) (auto simp: bit_push_bit_iff bit_1_iff simp del: push_bit_Suc)
    also have "\<dots> = word_of_nat (2 * unat r + b)"
      using D by (simp add: wide_bit_val b_def v_def)
    finally have "r1 = word_of_nat (2 * unat r + b)" by (simp add: r1_def)
    moreover have "2 * unat r + b < 2 ^ 64" using Suc.prems(5) d(2) by (auto simp: b_def)
    ultimately show ?thesis using unat_of_nat_u64 by blast
  qed
  have vi: "v div 2 ^ i = 2 * (v div 2 ^ Suc i) + b"
    using div_mult2_eq [of v "2 ^ i" 2] by (auto simp: b_def bit_iff_odd mult.commute elim!: oddE)
  also have "\<dots> = 2 * Q * unat d + unat r1" unfolding r1 using Suc.prems(3) by (simp add: v_def algebra_simps)
  finally have vq: "v div 2 ^ i = 2 * Q * unat d + unat r1" .
  show ?case
  proof (cases "d \<le> r1")
    case True
    then have le: "unat d \<le> unat r1" by (simp add: word_le_nat_alt)
    have sub: "unat (r1 - d) = unat r1 - unat d" using True by (simp add: unat_sub)
    have nb: "\<not> bit (limbs_val q) i" unfolding Suc.prems(4) by (simp add: bit_iff_odd)
    have i: "i < 4608" using Suc.prems(1) by simp
    note sb = wide_set_bit_val [OF Suc.prems(2) i]
    show ?thesis
    proof (rule Suc.IH [of "wide_set_bit q i" "2 * Q + 1" "r1 - d"])
      show "limbs_val D div 2 ^ i = (2 * Q + 1) * unat d + unat (r1 - d)" using vq le sub by (simp add: v_def)
      show "limbs_val (wide_set_bit q i) = (2 * Q + 1) * 2 ^ i" using sb(2) nb Suc.prems(4) by (simp add: set_clear_bit)
      show "unat (r1 - d) < unat d" using sub r1 Suc.prems(5) le by (auto simp: b_def)
      show "divide_loop D d i (wide_set_bit q i, r1 - d) = (q', r')" using Suc.prems(6) True by (simp add: Let_def r1_def)
    qed (use sb i in simp_all)
  next
    case False
    then have lt: "unat r1 < unat d" by (simp add: word_le_nat_alt)
    show ?thesis
    proof (rule Suc.IH [of q "2 * Q" r1])
      show "limbs_val D div 2 ^ i = 2 * Q * unat d + unat r1" using vq by (simp add: v_def)
      show "divide_loop D d i (q, r1) = (q', r')" using Suc.prems(6) False by (simp add: Let_def r1_def)
    qed (use Suc.prems lt in simp_all)
  qed
qed

lemma divide_significands_val:
  assumes "0 < unat d" "unat d < 2 ^ 63" and p: "p \<le> 4000" and ds: "divide_significands a d p = (q, inexact)"
  shows "wide_wf q" "limbs_val q = unat a * 2 ^ p div unat d" "inexact \<longleftrightarrow> unat a * 2 ^ p mod unat d \<noteq> 0"
proof -
  define D where "D = wide_shift_left (wide_of a) p"
  have D: "wide_wf D" by (simp add: D_def wide_shift_left_val)
  have "unat a * 2 ^ p < 2 ^ 64 * 2 ^ p" using unsigned_less [of a, where 'a = nat] by simp
  also have "\<dots> \<le> 2 ^ 4608" unfolding power_add [symmetric] using p by (intro power_increasing) simp_all
  finally have Dv: "limbs_val D = unat a * 2 ^ p"
    unfolding D_def wide_shift_left_val(2) [OF wide_of_val(1)] by (simp only: wide_of_val mod_less)
  obtain r where r: "divide_loop D d (wide_bit_length D) (wide_zero_value, 0) = (q, r)" "inexact = (r \<noteq> 0)"
    using ds by (auto simp: divide_significands_def D_def Let_def split: prod.splits)
  have top: "limbs_val D div 2 ^ wide_bit_length D = 0" "wide_bit_length D \<le> 4608"
    using bit_length_le_iff [OF D, of "wide_bit_length D"] bit_length_le_iff [OF D, of 4608] wide_val_less [OF D] by simp_all
  have "wide_wf q \<and> limbs_val D = limbs_val q * unat d + unat r \<and> unat r < unat d"
    by (rule divide_loop_val [OF assms(1,2) D top(2) _ _ _ _ r(1), of 0]) (use top assms in simp_all)
  then have "wide_wf q" "limbs_val D div unat d = limbs_val q" "limbs_val D mod unat d = unat r" by auto
  then show "wide_wf q" "limbs_val q = unat a * 2 ^ p div unat d" "inexact \<longleftrightarrow> unat a * 2 ^ p mod unat d \<noteq> 0"
    using r(2) Dv by (auto simp: unat_eq_0)
qed


lemma two_bits: "(v :: nat) div 2 ^ (2 * i) = 4 * (v div 2 ^ (2 * Suc i)) + 2 * (if bit v (2 * i + 1) then 1 else 0) + (if bit v (2 * i) then 1 else 0)"
proof -
  define u where "u = v div 2 ^ (2 * i)"
  have "bit v (2 * i) \<longleftrightarrow> odd u" "bit v (2 * i + 1) \<longleftrightarrow> odd (u div 2)"
    by (simp_all add: u_def bit_iff_odd div_mult2_eq [symmetric] mult.commute)
  moreover have "v div 2 ^ (2 * Suc i) = u div 4" by (simp add: u_def div_mult2_eq [symmetric] mult.commute)
  moreover have "u = 4 * (u div 4) + 2 * (if odd (u div 2) then 1 else 0) + (if odd u then 1 else 0)" by presburger
  ultimately show ?thesis unfolding u_def [symmetric] by simp
qed

lemma square_root_step:
  fixes rt rm :: nat
  assumes "V = rt * rt + rm" "rm \<le> 2 * rt" "V' = 4 * V + t" "t < 4"
  shows "4 * rt + 1 \<le> 4 * rm + t \<Longrightarrow> V' = (2 * rt + 1) * (2 * rt + 1) + (4 * rm + t - (4 * rt + 1))
      \<and> 4 * rm + t - (4 * rt + 1) \<le> 2 * (2 * rt + 1)"
    and "\<not> 4 * rt + 1 \<le> 4 * rm + t \<Longrightarrow> V' = (2 * rt) * (2 * rt) + (4 * rm + t) \<and> 4 * rm + t \<le> 2 * (2 * rt)"
  using assms by (auto simp: algebra_simps)

text \<open>The operations of one round of the digit-by-digit square root, on values that stay far below the width.\<close>

lemma wide_of_1_val: "limbs_val (wide_of 1) = 1" by simp

lemma root_remainder_val:
  fixes rm R :: wide and i :: nat
  assumes "wide_wf rm" "4 * limbs_val rm < 2 ^ 4608" "wide_wf R"
  defines "m1 \<equiv> wide_shift_left rm 2"
  defines "m2 \<equiv> (if wide_bit R i then wide_set_bit m1 0 else m1)"
  defines "m3 \<equiv> (if wide_bit R (i + 1) then wide_set_bit m2 1 else m2)"
  shows "wide_wf m3" "limbs_val m3 = 4 * limbs_val rm
    + (2 * (if bit (limbs_val R) (i + 1) then 1 else 0) + (if bit (limbs_val R) i then 1 else 0))"
proof -
  have m1: "wide_wf m1" "limbs_val m1 = 4 * limbs_val rm"
    using assms(1,2) wide_shift_left_small [of rm 2] by (simp_all add: m1_def wide_shift_left_val(1) mult.commute)
  have z: "\<not> bit (4 * k) 0" "\<not> bit (4 * k) (Suc 0)" "\<not> bit (Suc (4 * k)) (Suc 0)" for k :: nat
    by (simp_all add: bit_iff_odd)
  have m2: "wide_wf m2" "limbs_val m2 = 4 * limbs_val rm + (if bit (limbs_val R) i then 1 else 0)"
    using m1 wide_set_bit_val [OF m1(1), of 0] z(1) [of "limbs_val rm"]
    by (simp_all add: m2_def wide_bit_val [OF assms(3)] set_clear_bit)
  show "wide_wf m3" "limbs_val m3 = 4 * limbs_val rm
    + (2 * (if bit (limbs_val R) (i + 1) then 1 else 0) + (if bit (limbs_val R) i then 1 else 0))"
    using m2 wide_set_bit_val [OF m2(1), of 1] z [of "limbs_val rm"]
    by (simp_all add: m3_def wide_bit_val [OF assms(3)] set_clear_bit)
qed

lemma square_root_loop_val:
  assumes R: "wide_wf R" "limbs_val R < 2 ^ 4000"
  shows "wide_wf rt \<Longrightarrow> wide_wf rm \<Longrightarrow>
    limbs_val R div 2 ^ (2 * i) = limbs_val rt * limbs_val rt + limbs_val rm \<Longrightarrow> limbs_val rm \<le> 2 * limbs_val rt \<Longrightarrow>
    square_root_loop R i (rt, rm) = (rt', rm') \<Longrightarrow>
    wide_wf rt' \<and> wide_wf rm' \<and> limbs_val R = limbs_val rt' * limbs_val rt' + limbs_val rm' \<and> limbs_val rm' \<le> 2 * limbs_val rt'"
proof (induction i arbitrary: rt rm)
  case 0
  then show ?case by simp
next
  case (Suc i)
  define v where "v = limbs_val R"
  define t :: nat where "t = 2 * (if bit v (2 * i + 1) then 1 else 0) + (if bit v (2 * i) then 1 else 0)"
  define V where "V = v div 2 ^ (2 * Suc i)"
  have V': "v div 2 ^ (2 * i) = 4 * V + t" unfolding V_def t_def by (simp only: two_bits [of v i] add.assoc)
  have t: "t < 4" by (simp add: t_def)
  have inv: "V = limbs_val rt * limbs_val rt + limbs_val rm" "limbs_val rm \<le> 2 * limbs_val rt"
    using Suc.prems(3,4) by (simp_all add: V_def v_def)
  have "4 * V + t < 2 ^ 4000" using R(2) unfolding V' [symmetric] v_def by (rule le_less_trans [OF div_le_dividend])
  moreover have "2 ^ 4000 + 4 < (2 :: nat) ^ 4608"
  proof -
    have "(2 :: nat) ^ 4000 + 4 \<le> 2 ^ 4000 + 2 ^ 4000" using power_increasing [of 2 4000 "2 :: nat"] by (simp del: power_increasing_iff)
    also have "\<dots> = 2 ^ 4001" by (simp only: mult_2 [symmetric] power_Suc [symmetric]) simp
    also have "\<dots> < 2 ^ 4608" by (rule power_strict_increasing) simp_all
    finally show ?thesis .
  qed
  ultimately have V: "4 * V + 4 < 2 ^ 4608" by linarith
  have "limbs_val rt \<le> limbs_val rt * limbs_val rt" by (cases "limbs_val rt") simp_all
  then have small: "limbs_val rt \<le> V" "limbs_val rm \<le> V" unfolding inv(1) by linarith+
  define m3 where "m3 = (let m1 = wide_shift_left rm 2; m2 = (if wide_bit R (2 * i) then wide_set_bit m1 0 else m1)
    in if wide_bit R (2 * i + 1) then wide_set_bit m2 1 else m2)"
  have "4 * limbs_val rm < 2 ^ 4608" using V small by linarith
  then have m3: "wide_wf m3" "limbs_val m3 = 4 * limbs_val rm + t"
    using root_remainder_val [OF Suc.prems(2) _ R(1), of "2 * i"] by (simp_all only: m3_def Let_def t_def v_def)
  define r1 where "r1 = wide_shift_left rt 1"
  have r1: "wide_wf r1" "limbs_val r1 = 2 * limbs_val rt"
    using wide_shift_left_small [OF Suc.prems(1), of 1] V small(1) wide_shift_left_val(1) [OF Suc.prems(1), of 1]
    unfolding r1_def by (simp_all only: power_one_right mult.commute [of _ 2])
  define r2 where "r2 = wide_shift_left r1 1"
  have r2: "wide_wf r2" "limbs_val r2 = 4 * limbs_val rt"
    using wide_shift_left_small [OF r1(1), of 1] V small(1) wide_shift_left_val(1) [OF r1(1), of 1]
    unfolding r2_def r1(2) by (simp_all only: power_one_right)
  define trial where "trial = wide_add r2 (wide_of 1)"
  have trial: "wide_wf trial" "limbs_val trial = 4 * limbs_val rt + 1"
    using wide_add_small [OF r2(1) wide_of_val(1), of 1] wide_add_val(1) [OF r2(1) wide_of_val(1), of 1] V small(1)
    unfolding trial_def r2(2) wide_of_1_val by (simp_all only:)
  have cmp: "0 \<le> wide_compare m3 trial \<longleftrightarrow> 4 * limbs_val rt + 1 \<le> 4 * limbs_val rm + t"
    unfolding wide_compare_val [OF m3(1) trial(1)] m3(2) trial(2) by simp
  have unf: "square_root_loop R (Suc i) (rt, rm) = square_root_loop R i
      (if 0 \<le> wide_compare m3 trial then (wide_add r1 (wide_of 1), wide_subtract m3 trial) else (r1, m3))"
    by (simp add: Let_def m3_def r1_def r2_def trial_def mult.commute)
  note step = square_root_step [OF inv V' t]
  show ?case
  proof (cases "0 \<le> wide_compare m3 trial")
    case True
    note le = True [unfolded cmp]
    have sub: "wide_wf (wide_subtract m3 trial)" "limbs_val (wide_subtract m3 trial) = 4 * limbs_val rm + t - (4 * limbs_val rt + 1)"
      using wide_subtract_val [OF m3(1) trial(1)] le unfolding m3(2) trial(2) by blast+
    have plus: "wide_wf (wide_add r1 (wide_of 1))" "limbs_val (wide_add r1 (wide_of 1)) = 2 * limbs_val rt + 1"
      using wide_add_small [OF r1(1) wide_of_val(1), of 1] wide_add_val(1) [OF r1(1) wide_of_val(1), of 1] V small(1)
      unfolding r1(2) wide_of_1_val by (simp_all only:)
    show ?thesis
      by (rule Suc.IH [OF plus(1) sub(1)])
        (use step(1) [OF le] Suc.prems(5) unf True in \<open>simp_all only: plus(2) sub(2) v_def if_True\<close>)
  next
    case False
    note le = False [unfolded cmp]
    show ?thesis
      by (rule Suc.IH [OF r1(1) m3(1)])
        (use step(2) [OF le] Suc.prems(5) unf False in \<open>simp_all only: r1(2) m3(2) v_def if_False\<close>)
  qed
qed

lemma square_root_significand_val:
  assumes "p \<le> 1000" and sr: "square_root_significand a p = (rt, inexact)"
  shows "wide_wf rt" "limbs_val rt * limbs_val rt \<le> unat a * 4 ^ p" "unat a * 4 ^ p < (limbs_val rt + 1) * (limbs_val rt + 1)"
    "inexact \<longleftrightarrow> limbs_val rt * limbs_val rt \<noteq> unat a * 4 ^ p"
proof -
  define R where "R = wide_shift_left (wide_of a) (p * 2)"
  have R: "wide_wf R" by (simp add: R_def wide_shift_left_val)
  have p4: "(4 :: nat) ^ p = 2 ^ (p * 2)" by (subst mult.commute) (simp add: power_mult)
  have "unat a * 2 ^ (p * 2) < 2 ^ 64 * 2 ^ (p * 2)" using unsigned_less [of a, where 'a = nat] by simp
  also have "\<dots> \<le> 2 ^ 4000" unfolding power_add [symmetric] using assms(1) by (intro power_increasing) simp_all
  finally have lt: "unat a * 2 ^ (p * 2) < 2 ^ 4000" .
  moreover have "(2 :: nat) ^ 4000 \<le> 2 ^ 4608" by (rule power_increasing) simp_all
  ultimately have Rv: "limbs_val R = unat a * 4 ^ p"
    unfolding R_def p4 using wide_shift_left_small [OF wide_of_val(1), of a "p * 2"] by (simp only: wide_of_val)
  define n where "n = (wide_bit_length R + 1) div 2"
  obtain rm where l: "square_root_loop R n (wide_zero_value, wide_zero_value) = (rt, rm)" "inexact = (\<not> wide_zero rm)"
    using sr by (auto simp: square_root_significand_def R_def n_def Let_def split: prod.splits)
  have "wide_bit_length R \<le> 2 * n" unfolding n_def by linarith
  then have "limbs_val R < 2 ^ (2 * n)" using bit_length_le_iff [OF R] by blast
  then have "limbs_val R div 2 ^ (2 * n) = 0" by simp
  then have "wide_wf rt \<and> wide_wf rm \<and> limbs_val R = limbs_val rt * limbs_val rt + limbs_val rm \<and> limbs_val rm \<le> 2 * limbs_val rt"
    using lt Rv by (intro square_root_loop_val [OF R _ _ _ _ _ l(1)]) (simp_all only: p4 wide_zero_value_val)
  then have F: "wide_wf rt" "unat a * 4 ^ p = limbs_val rt * limbs_val rt + limbs_val rm" "limbs_val rm \<le> 2 * limbs_val rt"
    using Rv by simp_all
  show "wide_wf rt" "limbs_val rt * limbs_val rt \<le> unat a * 4 ^ p" "inexact \<longleftrightarrow> limbs_val rt * limbs_val rt \<noteq> unat a * 4 ^ p"
    unfolding F(2) l(2) wide_zero_val using F(1) by simp_all
  show "unat a * 4 ^ p < (limbs_val rt + 1) * (limbs_val rt + 1)" unfolding F(2) using F(3) by simp
qed

end
