(* ===== verification/Soft_Float_Correct.thy ===== *)
theory Soft_Float_Correct
  imports Soft_Float_Exact
begin

unbundle bit_operations_syntax

text \<open>
  Correct rounding of the floating-point operations: on finite operands each of them returns the reference
  rounding of the exact mathematical result, for every rounding mode, with the matching exception flags.
\<close>

subsection \<open>The number a bit pattern stands for\<close>

definition signum :: "bool \<Rightarrow> real" where
  "signum sign = (if sign then - 1 else 1)"

text \<open>The IEEE 754 binary interchange formats, read off the bits: a sign, a biased exponent and a fraction.\<close>

fun fraction_width :: "floating_format \<Rightarrow> nat" where
  "fraction_width Single = 23"
| "fraction_width Double = 52"

fun exponent_width :: "floating_format \<Rightarrow> nat" where
  "exponent_width Single = 8"
| "exponent_width Double = 11"

definition float_sign :: "floating_format \<Rightarrow> u64 \<Rightarrow> bool" where
  "float_sign f bits = bit bits (exponent_width f + fraction_width f)"

definition exponent_field :: "floating_format \<Rightarrow> u64 \<Rightarrow> nat" where
  "exponent_field f bits = unat bits div 2 ^ fraction_width f mod 2 ^ exponent_width f"

definition fraction_field :: "floating_format \<Rightarrow> u64 \<Rightarrow> nat" where
  "fraction_field f bits = unat bits mod 2 ^ fraction_width f"

definition float_finite :: "floating_format \<Rightarrow> u64 \<Rightarrow> bool" where
  "float_finite f bits \<longleftrightarrow> exponent_field f bits \<noteq> 2 ^ exponent_width f - 1"

definition float_nan :: "floating_format \<Rightarrow> u64 \<Rightarrow> bool" where
  "float_nan f bits \<longleftrightarrow> \<not> float_finite f bits \<and> fraction_field f bits \<noteq> 0"

definition float_signaling :: "floating_format \<Rightarrow> u64 \<Rightarrow> bool" where
  "float_signaling f bits \<longleftrightarrow> float_nan f bits \<and> fraction_field f bits < 2 ^ (fraction_width f - 1)"

text \<open>The number of a finite pattern; infinities and NaNs are not numbers and are given 0 here.\<close>

definition float_value :: "floating_format \<Rightarrow> u64 \<Rightarrow> real" where
  "float_value f bits =
     (let e = exponent_field f bits; m = fraction_field f bits;
          least = 2 - 2 ^ (exponent_width f - 1) - int (fraction_width f) in
      signum (float_sign f bits) *
        (if \<not> float_finite f bits then 0
         else if e = 0 then real m * 2 powi least
         else real (2 ^ fraction_width f + m) * 2 powi (int e - 1 + least)))"

definition exact_result :: "floating_format \<Rightarrow> floating_rounding_mode \<Rightarrow> bool \<Rightarrow> real \<Rightarrow> floating_result" where
  "exact_result f rounding zero_sign x =
     (if x = 0 then \<lparr>fr_bits = (if zero_sign then 2 ^ (exponent_width f + fraction_width f) else 0), fr_flags = 0\<rparr>
      else ieee_round (format_of f) rounding (x < 0) \<bar>x\<bar>)"

lemma exact_result_eq:
  "exact_result f rounding zero_sign x =
     (if x = 0 then \<lparr>fr_bits = signed_zero (format_of f) zero_sign, fr_flags = 0\<rparr>
      else ieee_round (format_of f) rounding (x < 0) \<bar>x\<bar>)"
  by (cases f) (simp_all add: exact_result_def signed_zero_def format_of_def kSingleFormat_def kDoubleFormat_def)

lemma signum_simps [simp]: "signum True = - 1" "signum False = 1" "signum s \<noteq> 0" "signum s * signum s = 1"
  "signum s * (signum s * x) = x" "\<bar>signum s\<bar> = 1"
  by (simp_all add: signum_def)

lemma signum_xor: "signum (s \<noteq> t) = signum s * signum t"
  by (simp add: signum_def)

lemma signum_less_0 [simp]: "0 < x \<Longrightarrow> signum s * x < 0 \<longleftrightarrow> s"
  by (simp add: signum_def)

lemma exponent_field_eq:
  "drop_bit fb (bits AND push_bit fb (mask eb)) = take_bit eb (drop_bit fb (bits :: u64))"
  by (rule bit_word_eqI) (auto simp: bit_simps dest: bit_imp_le_length)

lemma and_exp_nonzero: "k < 64 \<Longrightarrow> (x :: u64) AND push_bit k 1 \<noteq> 0 \<longleftrightarrow> bit x k"
  by (simp add: push_bit_of_1 and_exp_eq_0_iff_not_bit)

lemma quiet_bit_iff:
  assumes "k < 64" "unat (x :: u64) < 2 ^ Suc k"
  shows "x AND push_bit k 1 \<noteq> 0 \<longleftrightarrow> \<not> unat x < 2 ^ k"
proof -
  have "bit x k = bit (unat x) k" by (simp add: bit_unsigned_iff)
  also have "\<dots> = odd (unat x div 2 ^ k)" by (simp add: bit_iff_odd)
  also have "unat x div 2 ^ k < 2" using assms(2) by (simp add: less_mult_imp_div_less)
  then have "odd (unat x div 2 ^ k) = (\<not> unat x < 2 ^ k)" by (auto simp: less_2_cases_iff div_eq_0_iff)
  finally show ?thesis unfolding and_exp_nonzero [OF assms(1)] .
qed

lemma format_widths: "fraction_bits (format_of f) = fraction_width f" "exponent_bits (format_of f) = exponent_width f"
  by (cases f; simp add: format_of_def kSingleFormat_def kDoubleFormat_def)+

text \<open>The code's \<open>unpack\<close> against the fields.\<close>

lemma unpack_fields:
  fixes f bits
  defines "e \<equiv> exponent_field f bits" and "m \<equiv> fraction_field f bits"
  shows "up_sign (unpack f bits) = float_sign f bits"
    and "up_category (unpack f bits) =
      (if float_finite f bits then if e = 0 \<and> m = 0 then CatZero else CatFinite
       else if m = 0 then CatInfinity else if m < 2 ^ (fraction_width f - 1) then CatSignalingNan else CatQuietNan)"
    and "unat (up_significand (unpack f bits)) =
      (if \<not> float_finite f bits then 0 else if e = 0 then m else 2 ^ fraction_width f + m)"
    and "float_finite f bits \<Longrightarrow> e \<noteq> 0 \<or> m \<noteq> 0 \<Longrightarrow> up_exponent (unpack f bits) =
      (if e = 0 then 0 else int e - 1) + (2 - 2 ^ (exponent_width f - 1) - int (fraction_width f))"
proof -
  define fmt fb eb where d: "fmt = format_of f" "fb = fraction_bits fmt" "eb = exponent_bits fmt"
  have ok: "0 < fb" "2 \<le> eb" "fb + eb < 64" "fraction_mask fmt = mask fb" "exponent_mask fmt = push_bit fb (mask eb)"
      "sign_mask fmt = push_bit (eb + fb) 1" "2 * bias fmt = 2 ^ eb - 2" "minimum_exponent fmt = 1 - bias fmt"
    using format_of_ok [of f] by (simp_all add: format_ok_def d)
  have wd: "fraction_width f = fb" "exponent_width f = eb" by (simp_all add: d format_widths)
  define E where "E = take_bit eb (drop_bit fb bits)"
  define F where "F = take_bit fb bits"
  have ones: "exponent_all_ones fmt = mask eb" by (simp add: exponent_all_ones_def d mask_eq_exp_minus_1)
  have u: "unpack f bits = (if E = mask eb
      then if F = 0 then \<lparr>up_sign = (bits AND sign_mask fmt \<noteq> 0), up_category = CatInfinity, up_significand = 0, up_exponent = 0\<rparr>
        else \<lparr>up_sign = (bits AND sign_mask fmt \<noteq> 0), up_category = (if F AND push_bit (fb - 1) 1 \<noteq> 0 then CatQuietNan else CatSignalingNan),
           up_significand = 0, up_exponent = 0\<rparr>
      else if E = 0
      then if F = 0 then \<lparr>up_sign = (bits AND sign_mask fmt \<noteq> 0), up_category = CatZero, up_significand = 0, up_exponent = 0\<rparr>
        else \<lparr>up_sign = (bits AND sign_mask fmt \<noteq> 0), up_category = CatFinite, up_significand = F, up_exponent = minimum_exponent fmt - int fb\<rparr>
      else \<lparr>up_sign = (bits AND sign_mask fmt \<noteq> 0), up_category = CatFinite, up_significand = push_bit fb 1 OR F,
            up_exponent = uint E - bias fmt - int fb\<rparr>)"
    unfolding unpack_def Let_def d(1) [symmetric] d(2) [symmetric] ok(4,5) exponent_field_eq ones
    by (simp only: take_bit_eq_mask [symmetric] E_def F_def)
  have e: "e = unat E" "m = unat F"
    unfolding e_def m_def exponent_field_def fraction_field_def wd E_def F_def unsigned_take_bit_eq unsigned_drop_bit_eq
    by (simp_all only: take_bit_eq_mod drop_bit_eq_div mod_less [OF unsigned_less])
  have "(2 :: nat) ^ eb \<le> 2 ^ 64" using ok(3) by (intro power_increasing) simp_all
  then have "(mask eb :: nat) < 2 ^ 64" by (simp add: mask_eq_exp_minus_1)
  from unat_of_nat_u64 [OF this] have "unat (mask eb :: u64) = 2 ^ eb - 1" by (simp add: of_nat_mask_eq mask_eq_exp_minus_1)
  then have fin: "float_finite f bits \<longleftrightarrow> E \<noteq> mask eb"
    unfolding float_finite_def e_def [symmetric] e wd by (simp add: word_unat_eq_iff)
  have F: "unat F < 2 ^ fb" using take_bit_nat_less_exp [of fb "unat bits"] by (simp only: F_def unsigned_take_bit_eq)
  have S: "unat (push_bit fb 1 OR F) = 2 ^ fb + unat F"
  proof -
    have "push_bit fb 1 OR F = push_bit fb 1 + F" by (rule or_add) (auto simp: F_def bit_simps bit_exp_iff)
    moreover have "push_bit fb 1 + F = word_of_nat (2 ^ fb + unat F)" by simp
    moreover have "2 ^ fb + unat F < 2 ^ 64"
    proof -
      have "2 ^ fb + unat F < 2 ^ Suc fb" using F by simp
      also have "\<dots> \<le> 2 ^ 64" using ok by (intro power_increasing) simp_all
      finally show ?thesis .
    qed
    ultimately show ?thesis by (metis unat_of_nat_u64)
  qed
  have q: "F AND push_bit (fb - 1) 1 \<noteq> 0 \<longleftrightarrow> \<not> unat F < 2 ^ (fb - 1)"
    using quiet_bit_iff [of "fb - 1" F] F ok(1,3) by simp
  have sg: "(bits AND sign_mask fmt \<noteq> 0) = float_sign f bits"
    unfolding ok(6) float_sign_def wd using ok(3) and_exp_nonzero [of "eb + fb" bits] by (simp add: add.commute)
  have b: "bias fmt = 2 ^ (eb - 1) - 1" using ok(2,7) by (cases eb) auto
  show "up_sign (unpack f bits) = float_sign f bits" unfolding u sg by simp
  show "up_category (unpack f bits) =
      (if float_finite f bits then if e = 0 \<and> m = 0 then CatZero else CatFinite
       else if m = 0 then CatInfinity else if m < 2 ^ (fraction_width f - 1) then CatSignalingNan else CatQuietNan)"
    unfolding u q fin e wd by (simp add: unat_eq_0)
  show "unat (up_significand (unpack f bits)) =
      (if \<not> float_finite f bits then 0 else if e = 0 then m else 2 ^ fraction_width f + m)"
    unfolding u fin e wd
    by (cases "E = mask eb"; cases "E = 0")
      (simp_all only: if_True if_False simp_thms unpacked.select_convs S unat_eq_0 unsigned_0 split: if_split, auto)
  show "up_exponent (unpack f bits) = (if e = 0 then 0 else int e - 1) + (2 - 2 ^ (exponent_width f - 1) - int (fraction_width f))"
    if "float_finite f bits" "e \<noteq> 0 \<or> m \<noteq> 0"
    using that unfolding u fin e wd by (auto simp: unat_eq_0 b ok(8))
qed

lemma float_finite_unpack:
  "float_finite f bits \<longleftrightarrow> up_category (unpack f bits) = CatZero \<or> up_category (unpack f bits) = CatFinite"
  by (simp add: unpack_fields(2))

lemma float_nan_unpack:
  "is_nan (up_category (unpack f bits)) = float_nan f bits"
  "up_category (unpack f bits) = CatSignalingNan \<longleftrightarrow> float_signaling f bits"
  by (auto simp: unpack_fields(2) is_nan_def float_nan_def float_signaling_def)

lemma float_value_unpack:
  "float_value f bits =
     (let u = unpack f bits in signum (up_sign u) * (real (unat (up_significand u)) * 2 powi up_exponent u))"
proof (cases "float_finite f bits \<and> (exponent_field f bits \<noteq> 0 \<or> fraction_field f bits \<noteq> 0)")
  case True
  then show ?thesis
    unfolding float_value_def Let_def unpack_fields(1,3) unpack_fields(4) [OF conjunct1 [OF True] conjunct2 [OF True]] by simp
next
  case False
  then show ?thesis unfolding float_value_def Let_def unpack_fields(1,3) by auto
qed

lemma unpack_facts:
  fixes f bits
  defines "u \<equiv> unpack f bits" and "fmt \<equiv> format_of f"
  shows "up_category u \<noteq> CatFinite \<Longrightarrow> up_significand u = 0"
    and "up_category u = CatFinite \<Longrightarrow> 0 < unat (up_significand u)"
    and "unat (up_significand u) < 2 ^ (fraction_bits fmt + 1)"
    and "up_category u = CatFinite \<Longrightarrow> minimum_exponent fmt - int (fraction_bits fmt) \<le> up_exponent u"
    and "up_category u = CatFinite \<Longrightarrow> up_exponent u \<le> maximum_exponent fmt - int (fraction_bits fmt)"
proof -
  define fb eb where d: "fb = fraction_bits fmt" "eb = exponent_bits fmt"
  have fmt: "format_ok fmt" by (simp add: fmt_def format_of_ok)
  have ok: "0 < fb" "2 \<le> eb" "fb + eb < 64" "fraction_mask fmt = mask fb" "exponent_mask fmt = push_bit fb (mask eb)"
      "2 * bias fmt = 2 ^ eb - 2" "minimum_exponent fmt = 1 - bias fmt" "maximum_exponent fmt = bias fmt"
    using fmt by (simp_all add: format_ok_def d)
  define E where "E = take_bit eb (drop_bit fb bits)"
  define F where "F = take_bit fb bits"
  have ones: "exponent_all_ones fmt = mask eb" by (simp add: exponent_all_ones_def d mask_eq_exp_minus_1)
  have u: "u = (if E = mask eb
      then if F = 0 then \<lparr>up_sign = (bits AND sign_mask fmt \<noteq> 0), up_category = CatInfinity, up_significand = 0, up_exponent = 0\<rparr>
        else \<lparr>up_sign = (bits AND sign_mask fmt \<noteq> 0), up_category = (if F AND push_bit (fb - 1) 1 \<noteq> 0 then CatQuietNan else CatSignalingNan),
           up_significand = 0, up_exponent = 0\<rparr>
      else if E = 0
      then if F = 0 then \<lparr>up_sign = (bits AND sign_mask fmt \<noteq> 0), up_category = CatZero, up_significand = 0, up_exponent = 0\<rparr>
        else \<lparr>up_sign = (bits AND sign_mask fmt \<noteq> 0), up_category = CatFinite, up_significand = F, up_exponent = minimum_exponent fmt - int fb\<rparr>
      else \<lparr>up_sign = (bits AND sign_mask fmt \<noteq> 0), up_category = CatFinite, up_significand = push_bit fb 1 OR F,
            up_exponent = uint E - bias fmt - int fb\<rparr>)"
    unfolding u_def unpack_def Let_def fmt_def [symmetric] d(1) [symmetric] ok(4,5) exponent_field_eq ones
    by (simp only: take_bit_eq_mask [symmetric] E_def F_def)
  have F: "unat F < 2 ^ fb" using take_bit_nat_less_exp [of fb "unat bits"] by (simp only: F_def unsigned_take_bit_eq)
  have "push_bit fb 1 OR F = push_bit fb 1 + F"
    by (rule or_add) (auto simp: F_def bit_simps bit_exp_iff)
  moreover have "push_bit fb 1 + F = word_of_nat (2 ^ fb + unat F)" by simp
  moreover have "2 ^ fb + unat F < 2 ^ 64"
  proof -
    have "2 ^ fb + unat F < 2 ^ Suc fb" using F by simp
    also have "\<dots> \<le> 2 ^ 64" using ok by (intro power_increasing) simp_all
    finally show ?thesis .
  qed
  ultimately have S: "unat (push_bit fb 1 OR F) = 2 ^ fb + unat F" by (metis unat_of_nat_u64)
  have E: "uint E \<le> 2 ^ eb - 2" if "E \<noteq> mask eb"
  proof -
    have "uint E < 2 ^ eb" unfolding E_def unsigned_take_bit_eq by (rule take_bit_int_less_exp)
    moreover have "uint E \<noteq> 2 ^ eb - 1"
    proof
      assume "uint E = 2 ^ eb - 1"
      then have "word_of_int (uint E) = (word_of_int (2 ^ eb - 1) :: u64)" by simp
      then show False using that by (simp add: mask_eq_exp_minus_1)
    qed
    ultimately show ?thesis by linarith
  qed
  have four: "4 \<le> (2 :: int) ^ eb" using power_increasing [OF ok(2), of "2 :: int"] by (simp del: power_increasing_iff)
  have "1 \<le> uint E" if "E \<noteq> 0" using that by (metis unsigned_0 int_one_le_iff_zero_less order_le_less unsigned_greater_eq word_uint_eqI)
  then show "up_category u \<noteq> CatFinite \<Longrightarrow> up_significand u = 0" "up_category u = CatFinite \<Longrightarrow> 0 < unat (up_significand u)"
    "unat (up_significand u) < 2 ^ (fraction_bits fmt + 1)"
    "up_category u = CatFinite \<Longrightarrow> minimum_exponent fmt - int (fraction_bits fmt) \<le> up_exponent u"
    "up_category u = CatFinite \<Longrightarrow> up_exponent u \<le> maximum_exponent fmt - int (fraction_bits fmt)"
    unfolding u d(1) [symmetric] using F S E ok four by (auto simp: unat_gt_0 split: if_splits)
qed


lemma unpack_bounds:
  fixes f bits
  defines "u \<equiv> unpack f bits"
  shows "unat (up_significand u) < 2 ^ 53"
    and "up_category u = CatFinite \<Longrightarrow> - 1074 \<le> up_exponent u \<and> up_exponent u \<le> 971"
  using unpack_facts(3-5) [of f bits] unfolding u_def
  by (cases f; simp add: format_of_def kSingleFormat_def kDoubleFormat_def)+

lemma float_value_eq:
  "float_value f bits = signum (up_sign (unpack f bits)) * wide_value (wide_of (up_significand (unpack f bits))) (up_exponent (unpack f bits))"
  by (simp add: float_value_unpack Let_def wide_value_def)

lemma wide_value_0_iff: "wide_value w e = 0 \<longleftrightarrow> limbs_val w = 0"
  by (simp add: wide_value_def)

lemma wide_value_pos: "limbs_val w \<noteq> 0 \<Longrightarrow> 0 < wide_value w e"
  by (simp add: wide_value_def)

lemma significand_0_iff: "limbs_val (wide_of (up_significand (unpack f bits))) = 0 \<longleftrightarrow> up_category (unpack f bits) \<noteq> CatFinite"
  using unpack_facts(1,2) [of f bits] by auto

lemma float_value_0_iff: "float_value f bits = 0 \<longleftrightarrow> up_category (unpack f bits) \<noteq> CatFinite"
  by (simp only: float_value_eq mult_eq_0_iff signum_simps(3) wide_value_0_iff significand_0_iff simp_thms)

lemma round_and_pack_exact:
  assumes "wide_wf w" "limbs_val w \<noteq> 0"
  shows "round_and_pack (format_of f) sign w e rounding = exact_result f rounding z (signum sign * wide_value w e)"
proof -
  have "0 < wide_value w e" using assms by (simp add: wide_value_def)
  then show ?thesis using round_and_pack_correct [OF format_of_ok assms]
    by (simp add: exact_result_eq abs_mult)
qed

lemma round_operand_exact:
  "up_category (unpack f a) = CatFinite \<Longrightarrow>
     round_and_pack (format_of g) sign (wide_of (up_significand (unpack f a))) (up_exponent (unpack f a)) rounding
     = exact_result g rounding z (signum sign * wide_value (wide_of (up_significand (unpack f a))) (up_exponent (unpack f a)))"
  using unpack_facts(2) [of f a] by (intro round_and_pack_exact) simp_all

lemma add_magnitudes_exact:
  assumes "wide_wf l" "wide_wf r" "limbs_val l \<noteq> 0" and fits: "limbs_val l + limbs_val r < 2 ^ 4608"
  shows "add_magnitudes (format_of f) ls l rs r e rounding
    = exact_result f rounding (rounding = Down) (signum ls * wide_value l e + signum rs * wide_value r e)"
proof -
  consider "ls = rs" | "ls \<noteq> rs" "limbs_val l = limbs_val r" | "ls \<noteq> rs" "limbs_val r < limbs_val l" | "ls \<noteq> rs" "limbs_val l < limbs_val r"
    by linarith
  then show ?thesis
  proof cases
    case 1
    have v: "limbs_val (wide_add l r) = limbs_val l + limbs_val r" "wide_wf (wide_add l r)"
      using assms wide_add_small wide_add_val(1) by blast+
    have "signum ls * wide_value (wide_add l r) e = signum ls * wide_value l e + signum rs * wide_value r e"
      using 1 v(1) by (simp add: wide_value_def algebra_simps)
    moreover have "limbs_val (wide_add l r) \<noteq> 0" using v assms(3) by simp
    ultimately show ?thesis using 1 round_and_pack_exact [OF v(2), of f ls e rounding "rounding = Down"]
      by (simp add: add_magnitudes_def)
  next
    case 2
    then have "signum ls * wide_value l e + signum rs * wide_value r e = 0"
      by (cases ls; cases rs) (simp_all add: wide_value_def)
    then show ?thesis using 2 assms by (simp add: add_magnitudes_def wide_compare_val exact_result_eq)
  next
    case 3
    have v: "limbs_val (wide_subtract l r) = limbs_val l - limbs_val r" "wide_wf (wide_subtract l r)"
      using wide_subtract_val [OF assms(1,2)] 3 by simp_all
    have "signum ls * wide_value (wide_subtract l r) e = signum ls * wide_value l e + signum rs * wide_value r e"
      using 3 v(1) by (cases ls; cases rs) (simp_all add: wide_value_def of_nat_diff algebra_simps)
    moreover have "limbs_val (wide_subtract l r) \<noteq> 0" using v 3 by simp
    ultimately show ?thesis using 3 assms round_and_pack_exact [OF v(2), of f ls e rounding "rounding = Down"]
      by (simp add: add_magnitudes_def wide_compare_val)
  next
    case 4
    have v: "limbs_val (wide_subtract r l) = limbs_val r - limbs_val l" "wide_wf (wide_subtract r l)"
      using wide_subtract_val [OF assms(2,1)] 4 by simp_all
    have "signum rs * wide_value (wide_subtract r l) e = signum ls * wide_value l e + signum rs * wide_value r e"
      using 4 v(1) by (cases ls; cases rs) (simp_all add: wide_value_def of_nat_diff algebra_simps)
    moreover have "limbs_val (wide_subtract r l) \<noteq> 0" using v 4 by simp
    ultimately show ?thesis using 4 assms round_and_pack_exact [OF v(2), of f rs e rounding "rounding = Down"]
      by (simp add: add_magnitudes_def wide_compare_val)
  qed
qed

text \<open>Aligning to a smaller exponent keeps the value, as long as the limbs suffice.\<close>

lemma align_exact:
  assumes w: "wide_wf w" "limbs_val w < 2 ^ k" and c: "c \<le> e" and k: "k + nat (e - c) \<le> 4600"
  defines "w' \<equiv> wide_shift_left w (nat (e - c))"
  shows "wide_wf w'" "wide_value w' c = wide_value w e" "limbs_val w' < 2 ^ 4600" "limbs_val w' = limbs_val w * 2 ^ nat (e - c)"
proof -
  show "wide_wf w'" using w by (simp add: w'_def wide_shift_left_val)
  have "limbs_val w * 2 ^ nat (e - c) < 2 ^ k * 2 ^ nat (e - c)" using w by simp
  also have "\<dots> \<le> 2 ^ 4600" unfolding power_add [symmetric] using k by (intro power_increasing) simp_all
  finally have lt: "limbs_val w * 2 ^ nat (e - c) < 2 ^ 4600" .
  moreover have "(2 :: nat) ^ 4600 \<le> 2 ^ 4608" by (rule power_increasing) simp_all
  ultimately show v: "limbs_val w' = limbs_val w * 2 ^ nat (e - c)"
    unfolding w'_def by (intro wide_shift_left_small w) (rule less_le_trans)
  show "limbs_val w' < 2 ^ 4600" unfolding v by (rule lt)
  show "wide_value w' c = wide_value w e"
    unfolding wide_value_def v using c by (simp add: powi_nat [symmetric] powi_diff2)
qed

lemma sum_fits: "a < 2 ^ 4600 \<Longrightarrow> b < 2 ^ 4600 \<Longrightarrow> a + b < (2 :: nat) ^ 4608"
proof -
  assume "a < 2 ^ 4600" "b < 2 ^ 4600"
  then have "a + b < 2 * 2 ^ 4600" by linarith
  also have "\<dots> = (2 :: nat) ^ 4601" by (simp only: power_Suc [symmetric]) simp
  also have "\<dots> \<le> 2 ^ 4608" by (rule power_increasing) simp_all
  finally show ?thesis .
qed

lemma floating_add_exact:
  assumes "float_finite f a" "float_finite f b"
  shows "floating_add f a b rounding = exact_result f rounding
    (if up_sign (unpack f a) = up_sign (unpack f b) then up_sign (unpack f a) else rounding = Down)
    (float_value f a + float_value f b)"
proof -
  let ?l = "unpack f a" and ?r = "unpack f b"
  have cat: "up_category ?l = CatZero \<or> up_category ?l = CatFinite" "up_category ?r = CatZero \<or> up_category ?r = CatFinite"
    using assms by (simp_all add: float_finite_unpack)
  show ?thesis
  proof (cases "up_category ?l = CatFinite \<and> up_category ?r = CatFinite")
    case True
    define c where "c = min (up_exponent ?l) (up_exponent ?r)"
    define l r where lr: "l = wide_shift_left (wide_of (up_significand ?l)) (nat (up_exponent ?l - c))"
      "r = wide_shift_left (wide_of (up_significand ?r)) (nat (up_exponent ?r - c))"
    have bl: "limbs_val (wide_of (up_significand ?l)) < 2 ^ 53" "limbs_val (wide_of (up_significand ?r)) < 2 ^ 53"
      using unpack_bounds(1) by simp_all
    have e: "c \<le> up_exponent ?l" "c \<le> up_exponent ?r" "53 + nat (up_exponent ?l - c) \<le> 4600" "53 + nat (up_exponent ?r - c) \<le> 4600"
      using unpack_bounds(2) [of f a] unpack_bounds(2) [of f b] True by (auto simp: c_def min_def)
    note L = align_exact [OF wide_of_val(1) bl(1) e(1,3), folded lr] and R = align_exact [OF wide_of_val(1) bl(2) e(2,4), folded lr]
    have nz: "limbs_val l \<noteq> 0" using L(4) unpack_facts(2) [of f a] True by simp
    have "floating_add f a b rounding = add_magnitudes (format_of f) (up_sign ?l) l (up_sign ?r) r c rounding"
      using True by (simp add: floating_add_def add_unpacked_def is_nan_def Let_def lr c_def)
    also have "\<dots> = exact_result f rounding (rounding = Down) (float_value f a + float_value f b)"
      unfolding add_magnitudes_exact [OF L(1) R(1) nz sum_fits [OF L(3) R(3)]] L(2) R(2) float_value_eq ..
    also have "\<dots> = exact_result f rounding
      (if up_sign ?l = up_sign ?r then up_sign ?l else rounding = Down) (float_value f a + float_value f b)"
    proof (cases "up_sign ?l = up_sign ?r")
      case same: True
      have "float_value f a + float_value f b = signum (up_sign ?l) *
          (wide_value (wide_of (up_significand ?l)) (up_exponent ?l) + wide_value (wide_of (up_significand ?r)) (up_exponent ?r))"
        unfolding float_value_eq using same by (simp add: algebra_simps)
      moreover have "0 < wide_value (wide_of (up_significand ?l)) (up_exponent ?l)" "0 < wide_value (wide_of (up_significand ?r)) (up_exponent ?r)"
        using True by (simp_all only: wide_value_pos significand_0_iff simp_thms not_False_eq_True)
      ultimately have "float_value f a + float_value f b \<noteq> 0" by simp
      then show ?thesis by (simp add: exact_result_eq)
    qed simp
    finally show ?thesis .
  next
    case False
    then consider "up_category ?l = CatZero" "up_category ?r = CatZero" | "up_category ?l = CatZero" "up_category ?r = CatFinite"
      | "up_category ?l = CatFinite" "up_category ?r = CatZero" using cat by blast
    then show ?thesis
    proof cases
      case 1
      then show ?thesis using float_value_0_iff [of f a] float_value_0_iff [of f b]
        by (simp add: floating_add_def add_unpacked_def is_nan_def exact_result_eq)
    next
      case 2
      then have "float_value f a = 0" by (simp add: float_value_0_iff)
      then show ?thesis using 2 round_operand_exact [of f b f]
        by (simp add: floating_add_def add_unpacked_def is_nan_def float_value_eq [of f b])
    next
      case 3
      then have "float_value f b = 0" by (simp add: float_value_0_iff)
      then show ?thesis using 3 round_operand_exact [of f a f]
        by (simp add: floating_add_def add_unpacked_def is_nan_def float_value_eq [of f a])
    qed
  qed
qed


subsection \<open>Multiplication and fused multiply-add\<close>

lemma product_exact:
  assumes "up_category (unpack f a) = CatFinite" "up_category (unpack f b) = CatFinite"
  defines "p \<equiv> multiply_significands (up_significand (unpack f a)) (up_significand (unpack f b))"
    and "e \<equiv> up_exponent (unpack f a) + up_exponent (unpack f b)"
  shows "wide_wf p" "limbs_val p \<noteq> 0" "limbs_val p < 2 ^ 106" "- 2148 \<le> e" "e \<le> 1942"
    "signum (up_sign (unpack f a) \<noteq> up_sign (unpack f b)) * wide_value p e = float_value f a * float_value f b"
proof -
  have v: "limbs_val p = unat (up_significand (unpack f a)) * unat (up_significand (unpack f b))"
    by (simp add: p_def multiply_significands_val)
  show "wide_wf p" by (simp add: p_def multiply_significands_val)
  show "limbs_val p \<noteq> 0" unfolding v using unpack_facts(2) assms(1,2) by auto
  have "limbs_val p < 2 ^ 53 * 2 ^ 53" unfolding v by (intro mult_strict_mono unpack_bounds) simp_all
  then show "limbs_val p < 2 ^ 106" by simp
  show "- 2148 \<le> e" "e \<le> 1942" using unpack_bounds(2) [OF assms(1)] unpack_bounds(2) [OF assms(2)] by (simp_all add: e_def)
  have "wide_value p e = wide_value (wide_of (up_significand (unpack f a))) (up_exponent (unpack f a))
      * wide_value (wide_of (up_significand (unpack f b))) (up_exponent (unpack f b))"
    unfolding wide_value_def v e_def by (simp add: powi_add2)
  then show "signum (up_sign (unpack f a) \<noteq> up_sign (unpack f b)) * wide_value p e = float_value f a * float_value f b"
    unfolding float_value_eq signum_xor by simp
qed

lemma floating_multiply_exact:
  assumes "float_finite f a" "float_finite f b"
  shows "floating_multiply f a b rounding
    = exact_result f rounding (up_sign (unpack f a) \<noteq> up_sign (unpack f b)) (float_value f a * float_value f b)"
proof (cases "up_category (unpack f a) = CatFinite \<and> up_category (unpack f b) = CatFinite")
  case True
  note P = product_exact [OF conjunct1 [OF True] conjunct2 [OF True]]
  have "floating_multiply f a b rounding = round_and_pack (format_of f) (up_sign (unpack f a) \<noteq> up_sign (unpack f b))
      (multiply_significands (up_significand (unpack f a)) (up_significand (unpack f b)))
      (up_exponent (unpack f a) + up_exponent (unpack f b)) rounding"
    using True by (simp add: floating_multiply_def multiply_impl_def is_nan_def Let_def)
  then show ?thesis
    using round_and_pack_exact [OF P(1,2), of f "up_sign (unpack f a) \<noteq> up_sign (unpack f b)"
        "up_exponent (unpack f a) + up_exponent (unpack f b)" rounding] P(6) by metis
next
  case False
  then have "float_value f a * float_value f b = 0" by (auto simp: float_value_0_iff)
  then show ?thesis using False assms
    by (auto simp: floating_multiply_def multiply_impl_def is_nan_def Let_def exact_result_eq float_finite_unpack)
qed

lemma floating_fma_exact:
  fixes np na :: bool
  assumes "float_finite f a" "float_finite f b" "float_finite f c"
  defines "ps \<equiv> ((up_sign (unpack f a) \<noteq> up_sign (unpack f b)) \<noteq> np)" and "as \<equiv> (up_sign (unpack f c) \<noteq> na)"
  shows "floating_fused_multiply_add f a b c np na rounding
    = exact_result f rounding (if ps = as then ps else rounding = Down)
        (signum np * (float_value f a * float_value f b) + signum na * float_value f c)"
proof -
  let ?l = "unpack f a" and ?r = "unpack f b" and ?a = "unpack f c"
  have fin: "up_category ?l = CatZero \<or> up_category ?l = CatFinite" "up_category ?r = CatZero \<or> up_category ?r = CatFinite"
      "up_category ?a = CatZero \<or> up_category ?a = CatFinite"
    using assms by (simp_all add: float_finite_unpack)
  have addend: "signum na * float_value f c = signum as * wide_value (wide_of (up_significand ?a)) (up_exponent ?a)"
    unfolding as_def float_value_eq signum_xor by simp
  let ?p = "multiply_significands (up_significand ?l) (up_significand ?r)" and ?e = "up_exponent ?l + up_exponent ?r"
  consider (zero) "up_category ?l = CatZero \<or> up_category ?r = CatZero" "up_category ?a = CatZero"
    | (addend) "up_category ?l = CatZero \<or> up_category ?r = CatZero" "up_category ?a = CatFinite"
    | (product) "up_category ?l = CatFinite" "up_category ?r = CatFinite" "up_category ?a = CatZero"
    | (both) "up_category ?l = CatFinite" "up_category ?r = CatFinite" "up_category ?a = CatFinite"
    using fin by blast
  then show ?thesis
  proof cases
    case zero
    then have "float_value f a * float_value f b = 0" "float_value f c = 0" by (auto simp: float_value_0_iff)
    then have "exact_result f rounding (if ps = as then ps else rounding = Down)
        (signum np * (float_value f a * float_value f b) + signum na * float_value f c)
        = \<lparr>fr_bits = signed_zero (format_of f) (if ps = as then ps else rounding = Down), fr_flags = 0\<rparr>"
      unfolding exact_result_eq by simp
    moreover have "\<dots> = floating_fused_multiply_add f a b c np na rounding"
      using zero fin unfolding floating_fused_multiply_add_def Let_def ps_def [symmetric] as_def [symmetric]
      by (elim disjE; simp add: is_nan_def)
    ultimately show ?thesis by (rule trans [THEN sym])
  next
    case addend
    then have z: "float_value f a * float_value f b = 0" by (auto simp: float_value_0_iff)
    have "floating_fused_multiply_add f a b c np na rounding
        = round_and_pack (format_of f) as (wide_of (up_significand ?a)) (up_exponent ?a) rounding"
      using addend fin by (auto simp: floating_fused_multiply_add_def is_nan_def Let_def as_def)
    then show ?thesis unfolding z \<open>signum na * float_value f c = _\<close> mult_zero_right add_0_left
      by (rule trans [OF _ round_operand_exact [OF addend(2)]])
  next
    case product
    note P = product_exact [OF product(1,2)]
    have z: "float_value f c = 0" using product by (simp add: float_value_0_iff)
    have sg: "signum ps * wide_value ?p ?e = signum np * (float_value f a * float_value f b)"
      unfolding P(6) [symmetric] ps_def signum_xor by (simp add: mult_ac)
    have "floating_fused_multiply_add f a b c np na rounding = round_and_pack (format_of f) ps ?p ?e rounding"
      using product by (simp add: floating_fused_multiply_add_def is_nan_def Let_def ps_def)
    then show ?thesis
      using round_and_pack_exact [OF P(1,2), of f ps ?e rounding "if ps = as then ps else rounding = Down"]
      unfolding sg z by simp
  next
    case both
    note P = product_exact [OF both(1,2)]
    define cm where "cm = min ?e (up_exponent ?a)"
    define l r where lr: "l = wide_shift_left ?p (nat (?e - cm))"
      "r = wide_shift_left (wide_of (up_significand ?a)) (nat (up_exponent ?a - cm))"
    have ba: "limbs_val (wide_of (up_significand ?a)) < 2 ^ 53" using unpack_bounds(1) by simp
    have e: "cm \<le> ?e" "cm \<le> up_exponent ?a" "106 + nat (?e - cm) \<le> 4600" "53 + nat (up_exponent ?a - cm) \<le> 4600"
      using P(4,5) unpack_bounds(2) [OF both(3)] by (auto simp: cm_def min_def)
    note L = align_exact [OF P(1,3) e(1,3), folded lr] and R = align_exact [OF wide_of_val(1) ba e(2,4), folded lr]
    have nz: "limbs_val l \<noteq> 0" using L(4) P(2) by simp
    have sg: "signum ps * wide_value ?p ?e = signum np * (float_value f a * float_value f b)"
      unfolding P(6) [symmetric] ps_def signum_xor by (simp add: mult_ac)
    have "floating_fused_multiply_add f a b c np na rounding = add_magnitudes (format_of f) ps l as r cm rounding"
      using both by (simp add: floating_fused_multiply_add_def is_nan_def Let_def ps_def as_def lr cm_def)
    also have "\<dots> = exact_result f rounding (rounding = Down)
        (signum np * (float_value f a * float_value f b) + signum na * float_value f c)"
      unfolding add_magnitudes_exact [OF L(1) R(1) nz sum_fits [OF L(3) R(3)]] L(2) R(2) sg addend ..
    also have "\<dots> = exact_result f rounding (if ps = as then ps else rounding = Down)
        (signum np * (float_value f a * float_value f b) + signum na * float_value f c)"
    proof (cases "ps = as")
      case True
      have "signum np * (float_value f a * float_value f b) + signum na * float_value f c
          = signum ps * (wide_value ?p ?e + wide_value (wide_of (up_significand ?a)) (up_exponent ?a))"
        unfolding sg [symmetric] addend using True by (simp add: algebra_simps)
      moreover have "0 < wide_value ?p ?e" "0 < wide_value (wide_of (up_significand ?a)) (up_exponent ?a)"
        using P(2) both(3) wide_value_pos significand_0_iff by blast+
      ultimately have "signum np * (float_value f a * float_value f b) + signum na * float_value f c \<noteq> 0" by simp
      then show ?thesis by (simp add: exact_result_eq)
    qed simp
    finally show ?thesis .
  qed
qed


subsection \<open>Rounding only depends on the cell of the exact result\<close>

text \<open>
  Division and square root hand \<open>round_and_pack\<close> a truncated result with a sticky bit. The truncated result lies in
  the same cell of the grid \<open>2 ^ g\<close> as the exact one: it compares in the same way with every multiple of \<open>2 ^ g\<close>.
  When the grid is at least twice as fine as the last place of the format, both round to the same result.
\<close>

definition same_cell :: "int \<Rightarrow> real \<Rightarrow> real \<Rightarrow> bool" where
  "same_cell g x y \<longleftrightarrow> (\<forall>k :: int. (of_int k * 2 powi g \<le> x \<longleftrightarrow> of_int k * 2 powi g \<le> y)
     \<and> (of_int k * 2 powi g < x \<longleftrightarrow> of_int k * 2 powi g < y))"

lemma same_cellD:
  assumes "same_cell g x y" "g \<le> u"
  shows "of_int k * 2 powi u \<le> x \<longleftrightarrow> of_int k * 2 powi u \<le> y" "of_int k * 2 powi u < x \<longleftrightarrow> of_int k * 2 powi u < y"
proof -
  have "of_int k * 2 powi u = of_int (k * 2 ^ nat (u - g)) * (2 :: real) powi g"
    using assms(2) by (simp add: powi_nat [symmetric] powi_diff2)
  then show "of_int k * 2 powi u \<le> x \<longleftrightarrow> of_int k * 2 powi u \<le> y" "of_int k * 2 powi u < x \<longleftrightarrow> of_int k * 2 powi u < y"
    using assms(1) unfolding same_cell_def by metis+
qed

lemma same_cell_round:
  assumes c: "same_cell g x y" and u: "g + 1 \<le> u"
  shows "round_to_int rounding sign (x / 2 powi u) = round_to_int rounding sign (y / 2 powi u)"
proof -
  have int_le: "of_int k \<le> x / 2 powi u \<longleftrightarrow> of_int k \<le> y / 2 powi u" for k
    using same_cellD(1) [OF c, of u k] u by (simp add: pos_le_divide_eq)
  then have fl: "\<lfloor>x / 2 powi u\<rfloor> = \<lfloor>y / 2 powi u\<rfloor>" by (metis floor_unique le_floor_iff order_refl linorder_not_le zle_add1_eq_le of_int_floor_le floor_correct dual_order.antisym)
  define q where "q = \<lfloor>y / 2 powi u\<rfloor>"
  have half: "1 / 2 \<le> z / 2 powi u - of_int q \<longleftrightarrow> of_int (2 * q + 1) * 2 powi (u - 1) \<le> z"
    "1 / 2 < z / 2 powi u - of_int q \<longleftrightarrow> of_int (2 * q + 1) * 2 powi (u - 1) < z"
    "0 < z / 2 powi u - of_int q \<longleftrightarrow> of_int q * 2 powi u < z" for z :: real
    by (auto simp: powi_diff2 field_simps)
  have g: "g \<le> u - 1" "g \<le> u" using u by simp_all
  have "(1 / 2 \<le> x / 2 powi u - of_int q) = (1 / 2 \<le> y / 2 powi u - of_int q)"
    "(1 / 2 < x / 2 powi u - of_int q) = (1 / 2 < y / 2 powi u - of_int q)"
    "(0 < x / 2 powi u - of_int q) = (0 < y / 2 powi u - of_int q)"
    unfolding half using same_cellD [OF c g(1)] same_cellD [OF c g(2)] by blast+
  moreover from this have "(x / 2 powi u - of_int q = 1 / 2) = (y / 2 powi u - of_int q = 1 / 2)"
    by (metis (no_types) order.order_iff_strict order_less_irrefl)
  ultimately show ?thesis unfolding round_to_int_def Let_def fl q_def [symmetric] by (simp only:)
qed

lemma same_cell_ieee_round:
  assumes c: "same_cell g x y" and x: "2 powi (g + 1 + int (fraction_bits fmt)) \<le> x"
  shows "ieee_round fmt rounding sign x = ieee_round fmt rounding sign y"
proof -
  let ?fb = "int (fraction_bits fmt)"
  have x0: "0 < x" using x powi_pos less_le_trans by blast
  have y: "2 powi (g + 1 + ?fb) \<le> y" using x same_cellD(1) [OF c, of "g + 1 + ?fb" 1] by simp
  then have y0: "0 < y" using powi_pos less_le_trans by blast
  have bx: "2 powi binade x \<le> x" "x < 2 powi (binade x + 1)" using binade_iff [OF x0] by blast+
  have ge: "g + 1 + ?fb \<le> binade x" using x bx(2) by (smt (verit) powi_less_iff)
  have "2 powi binade x \<le> y" "y < 2 powi (binade x + 1)"
    using bx same_cellD [OF c, of "binade x" 1] same_cellD [OF c, of "binade x + 1" 1] ge by (simp_all add: not_le [symmetric])
  then have b: "binade y = binade x" using binade_iff [OF y0] by blast
  define u where "u = max (binade x - ?fb) (minimum_exponent fmt - ?fb)"
  have u: "g + 1 \<le> u" "g + 1 \<le> binade x - ?fb" using ge by (auto simp: u_def)
  have eq: "of_int n * 2 powi u = x \<longleftrightarrow> of_int n * 2 powi u = y" for n
  proof -
    have "g \<le> u" using u(1) by simp
    then have "of_int n * 2 powi u \<le> x \<longleftrightarrow> of_int n * 2 powi u \<le> y" "of_int n * 2 powi u < x \<longleftrightarrow> of_int n * 2 powi u < y"
      using same_cellD [OF c] by blast+
    then show ?thesis by linarith
  qed
  show ?thesis
    unfolding ieee_round_def Let_def b u_def [symmetric] same_cell_round [OF c u(1)] same_cell_round [OF c u(2)] eq ..
qed

text \<open>A truncated result with its sticky bit stays in the cell of the exact one.\<close>

lemma with_sticky_val:
  assumes "wide_wf q" "limbs_val q < 2 ^ 4000"
  shows "wide_wf (with_sticky (q, s))" "limbs_val (with_sticky (q, s)) = 2 * limbs_val q + (if s then 1 else 0)"
proof -
  have "(2 :: nat) ^ 4001 \<le> 2 ^ 4608" by (rule power_increasing) simp_all
  moreover have "limbs_val q * 2 < 2 ^ 4001" using assms(2) by (simp only: power_Suc2 [of 2 4000, simplified])
  ultimately have "limbs_val q * 2 ^ 1 < 2 ^ 4608" unfolding power_one_right by linarith
  then have v: "limbs_val (wide_shift_left q 1) = 2 * limbs_val q" "wide_wf (wide_shift_left q 1)"
    using wide_shift_left_small [OF assms(1)] wide_shift_left_val(1) [OF assms(1)] by (simp_all only: power_one_right mult.commute)
  have "\<not> bit (2 * limbs_val q) 0" by (simp add: bit_0)
  then show "wide_wf (with_sticky (q, s))" "limbs_val (with_sticky (q, s)) = 2 * limbs_val q + (if s then 1 else 0)"
    using v wide_set_bit_val [OF v(2), of 0] by (simp_all add: with_sticky_def Let_def set_clear_bit)
qed

lemma sticky_same_cell:
  assumes q: "wide_wf q" "limbs_val q < 2 ^ 4000"
    and lo: "real (limbs_val q) * 2 powi g \<le> x" and hi: "x < (real (limbs_val q) + 1) * 2 powi g"
    and s: "s \<longleftrightarrow> real (limbs_val q) * 2 powi g \<noteq> x"
  shows "same_cell g x (wide_value (with_sticky (q, s)) (g - 1))"
proof -
  define n where "n = int (limbs_val q)"
  have y: "wide_value (with_sticky (q, s)) (g - 1) = (of_int n + (if s then 1 / 2 else 0)) * 2 powi g"
    unfolding wide_value_def with_sticky_val [OF q] n_def by (simp add: powi_diff2 field_simps)
  have x: "of_int n * 2 powi g \<le> x" "x < (of_int n + 1) * 2 powi g" "s \<longleftrightarrow> of_int n * 2 powi g \<noteq> x"
    using lo hi s by (simp_all add: n_def)
  have le: "of_int k * 2 powi g \<le> x \<longleftrightarrow> k \<le> n" for k
  proof
    assume "of_int k * 2 powi g \<le> x"
    then have "of_int k * 2 powi g < (of_int n + 1) * (2 :: real) powi g" using x(2) by linarith
    then have "of_int k * 2 powi g < of_int (n + 1) * (2 :: real) powi g" by (simp only: of_int_add of_int_1)
    then show "k \<le> n" by (simp only: mult_less_cancel_right_pos [OF powi_pos] of_int_less_iff zless_add1_eq order_le_less)
  next
    assume "k \<le> n"
    then have "of_int k * 2 powi g \<le> of_int n * (2 :: real) powi g" by (simp add: mult_right_mono less_imp_le)
    then show "of_int k * 2 powi g \<le> x" using x(1) by linarith
  qed
  have lt: "of_int k * 2 powi g < x \<longleftrightarrow> (if s then k \<le> n else k < n)" for k
  proof (cases s)
    case True
    then have "of_int n * 2 powi g < x" using x by linarith
    then show ?thesis using True le [of k] x(3) by (cases "k = n") (auto simp: order.order_iff_strict)
  next
    case False
    then have "x = of_int n * 2 powi g" using x(3) by simp
    then show ?thesis using False by simp
  qed
  have "of_int k \<le> of_int n + (if s then 1 / 2 else 0 :: real) \<longleftrightarrow> k \<le> n" for k by (cases s; simp) linarith+
  moreover have "of_int k < of_int n + (if s then 1 / 2 else 0 :: real) \<longleftrightarrow> (if s then k \<le> n else k < n)" for k
    by (cases s; simp) linarith+
  ultimately show ?thesis
    unfolding same_cell_def y le lt mult_le_cancel_right_pos [OF powi_pos] mult_less_cancel_right_pos [OF powi_pos] by blast
qed


lemma sticky_round:
  assumes q: "wide_wf q" "limbs_val q < 2 ^ 4000" "2 ^ (fraction_bits (format_of f) + 1) \<le> limbs_val q"
    and lo: "real (limbs_val q) * 2 powi g \<le> x" and hi: "x < (real (limbs_val q) + 1) * 2 powi g"
    and s: "s \<longleftrightarrow> real (limbs_val q) * 2 powi g \<noteq> x"
  shows "round_and_pack (format_of f) sign (with_sticky (q, s)) (g - 1) rounding = exact_result f rounding z (signum sign * x)"
proof -
  let ?fb = "fraction_bits (format_of f)"
  have "real (2 ^ (?fb + 1)) \<le> real (limbs_val q)" using q(3) by (simp only: of_nat_le_iff)
  then have "real (2 ^ (?fb + 1)) * 2 powi g \<le> real (limbs_val q) * 2 powi g" by (rule mult_right_mono) (simp add: less_imp_le)
  moreover have "2 powi (g + 1 + int ?fb) = real (2 ^ (?fb + 1)) * 2 powi g" by (simp add: powi_add2)
  ultimately have big: "2 powi (g + 1 + int ?fb) \<le> x" using lo by linarith
  have x: "0 < x" using big powi_pos less_le_trans by blast
  have nz: "limbs_val (with_sticky (q, s)) \<noteq> 0"
    unfolding with_sticky_val [OF q(1,2)] using q(3) by (cases "limbs_val q") simp_all
  have "round_and_pack (format_of f) sign (with_sticky (q, s)) (g - 1) rounding
      = ieee_round (format_of f) rounding sign (wide_value (with_sticky (q, s)) (g - 1))"
    by (rule round_and_pack_correct [OF format_of_ok with_sticky_val(1) [OF q(1,2)] nz])
  also have "\<dots> = ieee_round (format_of f) rounding sign x"
    by (rule same_cell_ieee_round [OF sticky_same_cell [OF q(1,2) lo hi s] big, symmetric])
  also have "\<dots> = exact_result f rounding z (signum sign * x)" using x by (simp add: exact_result_eq abs_mult)
  finally show ?thesis .
qed

lemma fraction_bits_le: "fraction_bits (format_of f) \<le> 52" "23 \<le> fraction_bits (format_of f)"
  by (simp_all add: format_of_def kSingleFormat_def kDoubleFormat_def)

lemma floating_divide_exact:
  assumes "float_finite f a" "float_finite f b" "float_value f b \<noteq> 0"
  shows "floating_divide f a b rounding
    = exact_result f rounding (up_sign (unpack f a) \<noteq> up_sign (unpack f b)) (float_value f a / float_value f b)"
proof -
  let ?l = "unpack f a" and ?r = "unpack f b"
  have rf: "up_category ?r = CatFinite" using assms(3) by (simp add: float_value_0_iff)
  show ?thesis
  proof (cases "up_category ?l = CatFinite")
    case False
    then have "up_category ?l = CatZero" "float_value f a = 0" using assms(1) by (auto simp: float_finite_unpack float_value_0_iff)
    then show ?thesis using rf by (simp add: floating_divide_def is_nan_def Let_def exact_result_eq)
  next
    case True
    define p where "p = fraction_bits (format_of f) + 128"
    define m n where mn: "m = unat (up_significand ?l)" "n = unat (up_significand ?r)"
    have b: "0 < m" "0 < n" "m < 2 ^ 53" "n < 2 ^ 53" "n < 2 ^ (fraction_bits (format_of f) + 1)"
      using unpack_facts(2,3) unpack_bounds(1) True rf by (simp_all add: mn)
    obtain q s where qs: "divide_significands (up_significand ?l) (up_significand ?r) p = (q, s)" by (metis surj_pair)
    have p: "p \<le> 4000" using fraction_bits_le(1) [of f] by (simp add: p_def)
    have n63: "unat (up_significand ?r) < 2 ^ 63" using b(4) by (simp add: mn)
    have Q: "wide_wf q" "limbs_val q = m * 2 ^ p div n" "s \<longleftrightarrow> m * 2 ^ p mod n \<noteq> 0"
      using divide_significands_val [OF _ n63 p qs] b(2) by (simp_all add: mn)
    define g where "g = up_exponent ?l - up_exponent ?r - int p"
    define x where "x = real m / real n * 2 powi (up_exponent ?l - up_exponent ?r)"
    have xg: "x = real (m * 2 ^ p) / real n * 2 powi g"
      unfolding x_def g_def by (simp add: powi_diff2)
    have nq: "real n * real (limbs_val q) \<le> real (m * 2 ^ p)" "real (m * 2 ^ p) < real n * (real (limbs_val q) + 1)"
      "(real (limbs_val q) * real n = real (m * 2 ^ p)) \<longleftrightarrow> \<not> s"
    proof -
      have "n * limbs_val q \<le> m * 2 ^ p" "m * 2 ^ p < n * (limbs_val q + 1)"
        unfolding Q(2) using b(2) by (simp_all add: dividend_less_times_div)
      then have "real (n * limbs_val q) \<le> real (m * 2 ^ p)" "real (m * 2 ^ p) < real (n * (limbs_val q + 1))"
        by (simp_all only: of_nat_le_iff of_nat_less_iff)
      then show "real n * real (limbs_val q) \<le> real (m * 2 ^ p)" "real (m * 2 ^ p) < real n * (real (limbs_val q) + 1)"
        by (simp_all only: of_nat_mult of_nat_add of_nat_1)
      have "m * 2 ^ p = limbs_val q * n + m * 2 ^ p mod n" unfolding Q(2) by (simp only: div_mult_mod_eq)
      then have "limbs_val q * n = m * 2 ^ p \<longleftrightarrow> \<not> s" unfolding Q(3) by linarith
      then show "(real (limbs_val q) * real n = real (m * 2 ^ p)) \<longleftrightarrow> \<not> s" by (simp only: of_nat_mult [symmetric] of_nat_eq_iff)
    qed
    have lo: "real (limbs_val q) * 2 powi g \<le> x" and hi: "x < (real (limbs_val q) + 1) * 2 powi g"
      and st: "s \<longleftrightarrow> real (limbs_val q) * 2 powi g \<noteq> x"
    proof -
      have r: "real (limbs_val q) \<le> real (m * 2 ^ p) / real n" "real (m * 2 ^ p) / real n < real (limbs_val q) + 1"
        "s \<longleftrightarrow> real (limbs_val q) \<noteq> real (m * 2 ^ p) / real n"
        using nq b(2) by (auto simp: pos_le_divide_eq pos_divide_less_eq eq_divide_eq mult.commute)
      show "real (limbs_val q) * 2 powi g \<le> x" unfolding xg by (rule mult_right_mono [OF r(1)]) (simp add: less_imp_le)
      show "x < (real (limbs_val q) + 1) * 2 powi g" unfolding xg by (rule mult_strict_right_mono [OF r(2)]) simp
      show "s \<longleftrightarrow> real (limbs_val q) * 2 powi g \<noteq> x" unfolding xg mult_cancel_right using r(3) powi_pos [of g] by (metis order_less_irrefl)
    qed
    have qlo: "2 ^ (fraction_bits (format_of f) + 1) \<le> limbs_val q"
    proof -
      have "2 ^ 127 * n \<le> 2 ^ 127 * 2 ^ (fraction_bits (format_of f) + 1)" using b(5) by (intro mult_le_mono2) simp
      also have "\<dots> = 2 ^ p" by (simp only: p_def power_add [symmetric]) (simp add: add.commute)
      also have "\<dots> \<le> m * 2 ^ p" using b(1) by simp
      finally have "2 ^ 127 \<le> limbs_val q" unfolding Q(2) using b(2) by (simp only: less_eq_div_iff_mult_less_eq)
      moreover have "(2 :: nat) ^ (fraction_bits (format_of f) + 1) \<le> 2 ^ 127"
        using fraction_bits_le(1) [of f] by (intro power_increasing) simp_all
      ultimately show ?thesis by linarith
    qed
    have qhi: "limbs_val q < 2 ^ 4000"
    proof -
      have "limbs_val q \<le> m * 2 ^ p" unfolding Q(2) by (rule div_le_dividend)
      also have "\<dots> < 2 ^ 53 * 2 ^ p" using b(3) by simp
      also have "\<dots> \<le> 2 ^ 4000" unfolding power_add [symmetric] using fraction_bits_le(1) [of f]
        by (intro power_increasing) (simp_all add: p_def)
      finally show ?thesis .
    qed
    have fa: "float_value f a = signum (up_sign ?l) * (real m * 2 powi up_exponent ?l)"
      "float_value f b = signum (up_sign ?r) * (real n * 2 powi up_exponent ?r)"
      by (simp_all only: float_value_unpack Let_def mn)
    have v: "float_value f a / float_value f b = signum (up_sign ?l \<noteq> up_sign ?r) * x"
      unfolding fa x_def signum_xor by (cases "up_sign ?l"; cases "up_sign ?r") (simp_all add: powi_diff2)
    have "floating_divide f a b rounding
        = round_and_pack (format_of f) (up_sign ?l \<noteq> up_sign ?r) (with_sticky (q, s)) (g - 1) rounding"
      using True rf unfolding floating_divide_def Let_def p_def [symmetric] qs g_def by (simp add: is_nan_def)
    then show ?thesis unfolding v by (rule trans [OF _ sticky_round [OF Q(1) qhi qlo lo hi st]])
  qed
qed


subsection \<open>Square root\<close>

lemma floating_square_root_exact:
  assumes "float_finite f a" "0 < float_value f a"
  shows "floating_square_root f a rounding = exact_result f rounding False (sqrt (float_value f a))"
proof -
  let ?u = "unpack f a"
  let ?fb = "fraction_bits (format_of f)"
  have cat: "up_category ?u = CatFinite" using assms float_value_0_iff [of f a] by auto
  define m where "m = unat (up_significand ?u)"
  have m: "0 < m" "m < 2 ^ 53" using unpack_facts(2) [OF cat] unpack_bounds(1) [of f a] by (simp_all add: m_def)
  have val: "float_value f a = signum (up_sign ?u) * (real m * 2 powi up_exponent ?u)"
    by (simp only: float_value_unpack Let_def m_def)
  have pos: "\<not> up_sign ?u"
  proof
    assume "up_sign ?u"
    then have "float_value f a = - (real m * 2 powi up_exponent ?u)" using val by simp
    then show False using assms(2) m(1) by (smt (verit) mult_pos_pos of_nat_0_less_iff powi_pos)
  qed
  define odd_e where "odd_e = odd (up_exponent ?u)"
  define sig where "sig = (if odd_e then push_bit 1 (up_significand ?u) else up_significand ?u)"
  define h where "h = up_exponent ?u div 2"
  have e: "(if odd_e then up_exponent ?u - 1 else up_exponent ?u) = 2 * h" unfolding odd_e_def h_def by presburger
  have sigv: "unat sig = (if odd_e then 2 * m else m)"
  proof -
    have "push_bit 1 (up_significand ?u) = word_of_nat (2 * m)" by (simp add: m_def)
    moreover have "2 * m < 2 ^ 64" using m(2) by simp
    ultimately show ?thesis unfolding sig_def by (metis m_def unat_of_nat_u64)
  qed
  have val2: "float_value f a = real (unat sig) * 2 powi (2 * h)"
  proof -
    have "up_exponent ?u = 2 * h + (if odd_e then 1 else 0)" using e by (auto split: if_splits)
    then show ?thesis unfolding val sigv using pos by (simp add: powi_add2)
  qed
  define L where "L = wide_bit_length (wide_of sig)"
  define sr where "sr = (L + 1) div 2"
  have sig0: "limbs_val (wide_of sig) \<noteq> 0" using sigv m by simp
  note LL = wide_bit_length_val [OF wide_of_val(1) sig0, folded L_def]
  have "limbs_val (wide_of sig) < 2 ^ 54" using sigv m(2) by (simp split: if_splits)
  then have "L \<le> 54" using bit_length_le_iff [OF wide_of_val(1)] unfolding L_def by blast
  then have sr: "sr \<le> 27" by (simp add: sr_def)
  have small: "sr < ?fb + 5" using sr fraction_bits_le(2) [of f] by simp
  define sp where "sp = ?fb + 5 - sr"
  have sp: "sp \<le> 1000" using fraction_bits_le(1) [of f] by (simp add: sp_def)
  obtain rt s where rs: "square_root_significand sig sp = (rt, s)" by (metis surj_pair)
  note S = square_root_significand_val [OF sp rs]
  define R where "R = unat sig * 4 ^ sp"
  define g where "g = h - int sp"
  define x where "x = sqrt (float_value f a)"
  have x: "x = sqrt (real R) * 2 powi g"
  proof -
    have "real R * 2 powi (2 * g) = float_value f a"
    proof -
      have "(4 :: real) ^ sp = 2 powi (2 * int sp)" by (simp add: powi_nat nat_mult_distrib power_mult)
      then show ?thesis unfolding val2 R_def g_def by (simp add: powi_diff2 right_diff_distrib)
    qed
    moreover have "sqrt (2 powi (2 * g)) = (2 :: real) powi g"
      by (rule real_sqrt_unique) (simp_all add: power2_eq_square powi_add2 [symmetric] less_imp_le)
    ultimately show ?thesis unfolding x_def by (metis real_sqrt_mult)
  qed
  have lo: "real (limbs_val rt) \<le> sqrt (real R)"
    using S(2) unfolding R_def [symmetric] by (intro real_le_rsqrt) (simp add: power2_eq_square of_nat_mult [symmetric] del: of_nat_mult)
  have hi: "sqrt (real R) < real (limbs_val rt) + 1"
  proof (rule real_less_lsqrt)
    have "real R < real ((limbs_val rt + 1) * (limbs_val rt + 1))" using S(3) unfolding R_def [symmetric] by (simp only: of_nat_less_iff)
    then show "real R < (real (limbs_val rt) + 1)\<^sup>2" by (simp only: power2_eq_square of_nat_mult of_nat_add of_nat_1)
  qed simp_all
  have st: "s \<longleftrightarrow> real (limbs_val rt) \<noteq> sqrt (real R)"
  proof -
    have "real (limbs_val rt) = sqrt (real R) \<longleftrightarrow> real (limbs_val rt * limbs_val rt) = real R"
      by (metis of_nat_0_le_iff of_nat_mult real_sqrt_mult_self real_sqrt_eq_iff real_sqrt_abs2 abs_of_nat)
    then show ?thesis using S(4) unfolding R_def [symmetric] by (simp only: of_nat_eq_iff)
  qed
  have qlo: "2 ^ (?fb + 1) \<le> limbs_val rt"
  proof (rule ccontr)
    assume "\<not> 2 ^ (?fb + 1) \<le> limbs_val rt"
    then have "limbs_val rt + 1 \<le> 2 ^ (?fb + 1)" by simp
    then have "(limbs_val rt + 1) * (limbs_val rt + 1) \<le> 2 ^ (?fb + 1) * 2 ^ (?fb + 1)" by (rule mult_le_mono) fact
    also have "\<dots> \<le> 2 ^ (L - 1 + 2 * sp)"
      unfolding power_add [symmetric] using small LL(1) by (intro power_increasing) (auto simp: sp_def sr_def)
    also have "\<dots> = 2 ^ (L - 1) * 4 ^ sp" by (simp add: power_add power_mult)
    also have "\<dots> \<le> R" unfolding R_def using LL(3) by (intro mult_le_mono1) simp
    finally show False using S(3) unfolding R_def [symmetric] by simp
  qed
  have qhi: "limbs_val rt < 2 ^ 4000"
  proof -
    have "limbs_val rt \<le> limbs_val rt * limbs_val rt" by (cases "limbs_val rt") simp_all
    also have "\<dots> \<le> unat sig * 4 ^ sp" by (rule S(2))
    also have "\<dots> < 2 ^ 64 * 4 ^ sp" using unsigned_less [of sig, where 'a = nat] by simp
    also have "\<dots> = 2 ^ (64 + 2 * sp)" by (simp add: power_add power_mult)
    also have "\<dots> \<le> 2 ^ 4000" using sp by (intro power_increasing) simp_all
    finally show ?thesis .
  qed
  have "floating_square_root f a rounding = round_and_pack (format_of f) False (with_sticky (rt, s)) (g - 1) rounding"
  proof -
    have "(2 * h) sdiv 2 = h" by (simp add: signed_divide_int_def sgn_mult abs_mult sgn_mult_abs)
    moreover have "(up_exponent ?u AND 1 \<noteq> 0) = odd_e" by (simp add: and_one_eq odd_e_def odd_iff_mod_2_eq_one)
    moreover have "(if sr < ?fb + 5 then ?fb + 5 - sr else 0) = sp" using small by (simp add: sp_def)
    ultimately show ?thesis using cat pos
      unfolding floating_square_root_def Let_def by (simp only: sig_def [symmetric] L_def [symmetric] sr_def [symmetric] e rs)
        (simp add: is_nan_def g_def)
  qed
  also have "\<dots> = exact_result f rounding False (signum False * x)"
  proof (rule sticky_round [OF S(1) qhi qlo])
    show "real (limbs_val rt) * 2 powi g \<le> x" unfolding x by (rule mult_right_mono [OF lo]) (simp add: less_imp_le)
    show "x < (real (limbs_val rt) + 1) * 2 powi g" unfolding x by (rule mult_strict_right_mono [OF hi]) simp
    show "s \<longleftrightarrow> real (limbs_val rt) * 2 powi g \<noteq> x"
      unfolding x mult_cancel_right using st powi_pos [of g] by (metis order_less_irrefl)
  qed
  finally show ?thesis by (simp add: x_def)
qed

subsection \<open>The correctly rounded operations\<close>

text \<open>Subtraction flips the sign bit of its second operand.\<close>

lemma negated_fields:
  fixes f b
  defines "b' \<equiv> b XOR sign_mask (format_of f)"
  shows "exponent_field f b' = exponent_field f b" "fraction_field f b' = fraction_field f b" "float_sign f b' = (\<not> float_sign f b)"
proof -
  define k where "k = exponent_width f + fraction_width f"
  have m: "sign_mask (format_of f) = push_bit k 1"
    using format_of_ok [of f] by (simp add: format_ok_def format_widths k_def)
  have k: "k < 64" by (cases f) (simp_all add: k_def)
  have low: "take_bit k b' = take_bit k b"
    by (rule bit_word_eqI) (auto simp: b'_def m bit_simps bit_exp_iff)
  have "unat b' mod 2 ^ k = unat b mod 2 ^ k"
    using low by (metis take_bit_eq_mod unsigned_take_bit_eq)
  then have r: "unat b' mod (2 ^ fraction_width f * 2 ^ exponent_width f) = unat b mod (2 ^ fraction_width f * 2 ^ exponent_width f)"
    by (simp add: k_def power_add mult.commute)
  have "x div 2 ^ fraction_width f mod 2 ^ exponent_width f
      = x mod (2 ^ fraction_width f * 2 ^ exponent_width f) div 2 ^ fraction_width f" for x :: nat
    by (simp add: mod_mult2_eq)
  then show "exponent_field f b' = exponent_field f b" unfolding exponent_field_def using r by metis
  have "x mod 2 ^ fraction_width f = x mod (2 ^ fraction_width f * 2 ^ exponent_width f) mod 2 ^ fraction_width f" for x :: nat
    by (simp add: mod_mod_cancel)
  then show "fraction_field f b' = fraction_field f b" unfolding fraction_field_def using r by metis
  show "float_sign f b' = (\<not> float_sign f b)"
    unfolding float_sign_def k_def [symmetric] b'_def m using k by (simp add: bit_simps bit_exp_iff)
qed

lemma negated_value:
  "float_finite f (b XOR sign_mask (format_of f)) = float_finite f b"
  "float_value f (b XOR sign_mask (format_of f)) = - float_value f b"
  by (simp_all add: float_finite_def float_value_def Let_def negated_fields signum_def)

lemma floating_subtract_exact:
  assumes "float_finite f a" "float_finite f b"
  shows "floating_subtract f a b rounding = exact_result f rounding
    (if float_sign f a \<noteq> float_sign f b then float_sign f a else rounding = Down) (float_value f a - float_value f b)"
proof -
  have "float_finite f (b XOR sign_mask (format_of f))" using assms(2) by (simp add: negated_value)
  from floating_add_exact [OF assms(1) this] show ?thesis
    unfolding floating_subtract_def unpack_fields(1) negated_fields(3) negated_value(2) by simp
qed

text \<open>C34. Addition, subtraction, multiplication and fused multiply-add of finite numbers, with either product or addend
  negated, are correctly rounded for every rounding mode: the result and its flags are the IEEE rounding of the exact
  real result of the numbers the operand bits encode, and an exact zero has the sign the standard prescribes.\<close>

theorem floating_arithmetic_correct:
  assumes "float_finite f a" "float_finite f b" "float_finite f c"
  shows "floating_add f a b rounding = exact_result f rounding
      (if float_sign f a = float_sign f b then float_sign f a else rounding = Down) (float_value f a + float_value f b)
    \<and> floating_subtract f a b rounding = exact_result f rounding
      (if float_sign f a \<noteq> float_sign f b then float_sign f a else rounding = Down) (float_value f a - float_value f b)
    \<and> floating_multiply f a b rounding
      = exact_result f rounding (float_sign f a \<noteq> float_sign f b) (float_value f a * float_value f b)
    \<and> floating_fused_multiply_add f a b c negate_product negate_addend rounding = exact_result f rounding
      (if ((float_sign f a \<noteq> float_sign f b) \<noteq> negate_product) = (float_sign f c \<noteq> negate_addend)
       then (float_sign f a \<noteq> float_sign f b) \<noteq> negate_product else rounding = Down)
      ((if negate_product then - 1 else 1) * (float_value f a * float_value f b)
       + (if negate_addend then - 1 else 1) * float_value f c)"
proof -
  have "floating_fused_multiply_add f a b c negate_product negate_addend rounding = exact_result f rounding
      (if ((float_sign f a \<noteq> float_sign f b) \<noteq> negate_product) = (float_sign f c \<noteq> negate_addend)
       then (float_sign f a \<noteq> float_sign f b) \<noteq> negate_product else rounding = Down)
      ((if negate_product then - 1 else 1) * (float_value f a * float_value f b)
       + (if negate_addend then - 1 else 1) * float_value f c)"
    using floating_fma_exact [OF assms, of negate_product negate_addend rounding]
    unfolding unpack_fields(1) signum_def .
  then show ?thesis
    using floating_add_exact [OF assms(1,2), of rounding] floating_multiply_exact [OF assms(1,2), of rounding]
      floating_subtract_exact [OF assms(1,2), of rounding] unfolding unpack_fields(1) by blast
qed

text \<open>Two and three, whose product with minus one added back is checked at every rounding mode.\<close>

theorem floating_arithmetic_correct_witness:
  "float_finite Single 0x40000000 \<and> float_finite Single 0x40400000 \<and> float_finite Single 0xBF800000
   \<and> floating_add Single 0x40000000 0x40400000 NearestTiesToEven = exact_result Single NearestTiesToEven False 5
   \<and> floating_subtract Single 0x40000000 0x40400000 NearestTiesToEven = exact_result Single NearestTiesToEven False (- 1)
   \<and> floating_fused_multiply_add Single 0x40000000 0x40400000 0xBF800000 False False Up = exact_result Single Up False 5"
proof -
  have u: "unpack Single 0x40000000 = \<lparr>up_sign = False, up_category = CatFinite, up_significand = 0x800000, up_exponent = - 22\<rparr>"
    "unpack Single 0x40400000 = \<lparr>up_sign = False, up_category = CatFinite, up_significand = 0xC00000, up_exponent = - 22\<rparr>"
    "unpack Single 0xBF800000 = \<lparr>up_sign = True, up_category = CatFinite, up_significand = 0x800000, up_exponent = - 23\<rparr>"
    by code_simp+
  have fin: "float_finite Single 0x40000000" "float_finite Single 0x40400000" "float_finite Single 0xBF800000"
    by (simp_all add: float_finite_unpack u)
  have v: "float_value Single 0x40000000 = 2" "float_value Single 0x40400000 = 3" "float_value Single 0xBF800000 = - 1"
    by (simp_all add: float_value_unpack u power_int_def power_divide)
  have s: "\<not> float_sign Single 0x40000000" "\<not> float_sign Single 0x40400000" "float_sign Single 0xBF800000"
    by (simp_all add: unpack_fields(1) [symmetric] u)
  show ?thesis
    using floating_arithmetic_correct [OF fin, of NearestTiesToEven False False]
      floating_arithmetic_correct [OF fin, of Up False False] fin
    by (simp add: v s)
qed

text \<open>C35. Division by a finite nonzero number and the square root of a positive number are correctly rounded for every
  rounding mode, although the code only computes a truncated result with a sticky bit.\<close>

theorem floating_divide_sqrt_correct:
  assumes "float_finite f a" "float_finite f b" "float_value f b \<noteq> 0"
  shows "floating_divide f a b rounding
      = exact_result f rounding (float_sign f a \<noteq> float_sign f b) (float_value f a / float_value f b)
    \<and> (0 < float_value f a \<longrightarrow>
      floating_square_root f a rounding = exact_result f rounding False (sqrt (float_value f a)))"
  using floating_divide_exact [OF assms] floating_square_root_exact [OF assms(1)] unfolding unpack_fields(1) by blast

theorem floating_divide_sqrt_correct_witness:
  "float_finite Single 0x40000000 \<and> float_value Single 0x40400000 \<noteq> 0
   \<and> floating_divide Single 0x40000000 0x40400000 Down = exact_result Single Down False (2 / 3)
   \<and> floating_square_root Single 0x40000000 Up = exact_result Single Up False (sqrt 2)"
proof -
  have u: "unpack Single 0x40000000 = \<lparr>up_sign = False, up_category = CatFinite, up_significand = 0x800000, up_exponent = - 22\<rparr>"
    "unpack Single 0x40400000 = \<lparr>up_sign = False, up_category = CatFinite, up_significand = 0xC00000, up_exponent = - 22\<rparr>"
    by code_simp+
  have fin: "float_finite Single 0x40000000" "float_finite Single 0x40400000"
    by (simp_all add: float_finite_unpack u)
  have v: "float_value Single 0x40000000 = 2" "float_value Single 0x40400000 = 3"
    by (simp_all add: float_value_unpack u power_int_def power_divide)
  have nz: "float_value Single 0x40400000 \<noteq> 0" by (simp add: v)
  have s: "float_sign Single 0x40000000 = False" "float_sign Single 0x40400000 = False"
    by (simp_all add: unpack_fields(1) [symmetric] u)
  show ?thesis
    using floating_divide_sqrt_correct [OF fin nz, of Down] floating_divide_sqrt_correct [OF fin nz, of Up] fin
    by (simp add: v s)
qed

end
