(* ===== verification/Soft_Float_Convert.thy ===== *)
theory Soft_Float_Convert
  imports Soft_Float_Correct
begin

unbundle bit_operations_syntax

text \<open>
  Conversions between the formats and to and from integers, and the comparisons, against the reals the bit patterns
  stand for.
\<close>

subsection \<open>Conversions\<close>

lemma floating_convert_exact:
  assumes "float_finite s a"
  shows "floating_convert_format d s a rounding = exact_result d rounding (up_sign (unpack s a)) (float_value s a)"
proof (cases "up_category (unpack s a) = CatFinite")
  case True
  then have "floating_convert_format d s a rounding = round_and_pack (format_of d) (up_sign (unpack s a))
      (wide_of (up_significand (unpack s a))) (up_exponent (unpack s a)) rounding"
    by (simp add: floating_convert_format_def is_nan_def Let_def)
  then show ?thesis unfolding float_value_eq by (rule trans [OF _ round_operand_exact [OF True]])
next
  case False
  then have "up_category (unpack s a) = CatZero" "float_value s a = 0"
    using assms by (auto simp: float_finite_unpack float_value_0_iff)
  then show ?thesis by (simp add: floating_convert_format_def is_nan_def Let_def exact_result_eq)
qed

definition operand_integer :: "bool \<Rightarrow> u8 \<Rightarrow> u64 \<Rightarrow> int" where
  "operand_integer unsigned_integer width operand =
     (if width = 32 then if unsigned_integer then uint (ucast operand :: u32) else sint (ucast operand :: u32)
      else if unsigned_integer then uint operand else sint operand)"

lemma sint_sign_split: "sint (v :: 'a :: len word) = uint v - (if bit v (LENGTH('a) - 1) then 2 ^ LENGTH('a) else 0)"
proof -
  have "take_bit LENGTH('a) (uint v) = uint v" by (rule take_bit_int_eq_self) (simp_all add: uint_bounded)
  then show ?thesis by (simp add: sint_uint signed_take_bit_eq_take_bit_minus bit_uint_iff)
qed

lemma and_sign_bit_u32: "ucast (v :: u32) AND (0x80000000 :: u64) \<noteq> 0 \<longleftrightarrow> bit v 31"
proof -
  have "(0x80000000 :: u64) = 2 ^ 31" by simp
  then show ?thesis by (simp only: and_exp_eq_0_iff_not_bit) (simp add: bit_simps)
qed

lemma and_sign_bit_u64: "v AND (0x8000000000000000 :: u64) \<noteq> 0 \<longleftrightarrow> bit v 63"
proof -
  have "(0x8000000000000000 :: u64) = 2 ^ 63" by simp
  then show ?thesis by (simp only: and_exp_eq_0_iff_not_bit) simp
qed

lemma and_low32: "x AND (0xFFFFFFFF :: u64) = ucast (ucast x :: u32)"
  by (rule bit_word_eqI) (auto simp: bit_simps emu_bits)

lemma low32_negate: "(NOT (ucast v) + 1) AND (0xFFFFFFFF :: u64) = ucast (- v :: u32)"
proof -
  have "(ucast (NOT (ucast v :: u64) + 1) :: u32) = - v"
    unfolding minus_eq_not_plus_1 [symmetric] by transfer (simp add: take_bit_minus)
  then show ?thesis unfolding and_low32 by simp
qed


lemma uint_negate_word: "uint (- v) = (if v = 0 then 0 else 2 ^ LENGTH('b) - uint v)" for v :: "'b :: len word"
proof -
  have "uint v mod 2 ^ LENGTH('b) = uint v" by (rule mod_pos_pos_trivial) (simp_all add: uint_bounded)
  then show ?thesis by (simp only: uint_word_ariths zmod_zminus1_eq_if unsigned_eq_0_iff)
qed

lemma sint_magnitude:
  fixes v :: "'b :: len word"
  shows "bit v (LENGTH('b) - 1) \<longleftrightarrow> sint v < 0" "bit v (LENGTH('b) - 1) \<Longrightarrow> uint (- v) = - sint v"
    "\<not> bit v (LENGTH('b) - 1) \<Longrightarrow> uint v = sint v"
  using sint_sign_split [of v] uint_bounded [of v] uint_negate_word [of v] unsigned_greater_eq [of v, where 'a = int] by auto

lemma uint_ucast_u32: "uint (ucast (v :: u32) :: u64) = uint v"
  using uint_bounded [of v] by (simp add: unsigned_ucast_eq take_bit_int_eq_self)

lemma operand_sign_magnitude:
  fixes operand :: u64 and unsigned_integer :: bool and width :: u8
  assumes "width = 32 \<or> width = 64"
  defines "msk \<equiv> width_mask width"
  defines "sgn_bit \<equiv> (if width = 32 then 0x80000000 else 0x8000000000000000 :: u64)"
  defines "op \<equiv> operand AND msk" and "n \<equiv> operand_integer unsigned_integer width operand"
  defines "s \<equiv> (\<not> unsigned_integer \<and> op AND sgn_bit \<noteq> 0)"
  shows "s \<longleftrightarrow> n < 0" "int (unat (if s then (NOT op + 1) AND msk else op)) = \<bar>n\<bar>"
proof -
  have "(s \<longleftrightarrow> n < 0) \<and> int (unat (if s then (NOT op + 1) AND msk else op)) = \<bar>n\<bar>"
  proof (cases "width = 32")
    case True
    define v where "v = (ucast operand :: u32)"
    have op: "op = ucast v" using True by (simp add: op_def msk_def width_mask_def and_low32 v_def)
    have s: "s \<longleftrightarrow> \<not> unsigned_integer \<and> bit v 31" unfolding s_def op sgn_bit_def using True and_sign_bit_u32 [of v] by simp
    have m: "(NOT op + 1) AND msk = ucast (- v)" unfolding op using low32_negate [of v] True by (simp add: msk_def width_mask_def)
    have n: "n = (if unsigned_integer then uint v else sint v)" using True by (simp add: n_def operand_integer_def v_def)
    show ?thesis unfolding s n unfolding m unfolding op using sint_magnitude [of v]
      by (cases unsigned_integer; cases "bit v 31") (simp_all add: uint_ucast_u32)
  next
    case False
    then have w: "width = 64" using assms(1) by simp
    have msk: "msk = - 1" using w by (simp add: msk_def width_mask_def)
    have op: "op = operand" by (simp add: op_def msk)
    have s: "s \<longleftrightarrow> \<not> unsigned_integer \<and> bit operand 63" unfolding s_def op sgn_bit_def using w and_sign_bit_u64 by simp
    have m: "(NOT op + 1) AND msk = - operand" unfolding op msk and.right_neutral by (rule minus_eq_not_plus_1 [symmetric])
    have n: "n = (if unsigned_integer then uint operand else sint operand)" using w by (simp add: n_def operand_integer_def)
    show ?thesis unfolding s n unfolding m unfolding op using sint_magnitude [of operand]
      by (cases unsigned_integer; cases "bit operand 63") simp_all
  qed
  then show "s \<longleftrightarrow> n < 0" "int (unat (if s then (NOT op + 1) AND msk else op)) = \<bar>n\<bar>" by blast+
qed

lemma floating_from_integer_exact:
  assumes "width = 32 \<or> width = 64"
  shows "floating_from_integer d operand unsigned_integer width rounding
    = exact_result d rounding False (of_int (operand_integer unsigned_integer width operand))"
proof -
  define n where "n = operand_integer unsigned_integer width operand"
  define op where "op = operand AND width_mask width"
  define s where "s = (\<not> unsigned_integer \<and> op AND (if width = 32 then 0x80000000 else 0x8000000000000000) \<noteq> 0)"
  define m where "m = (if s then (NOT op + 1) AND width_mask width else op)"
  have sm: "s \<longleftrightarrow> n < 0" "int (unat m) = \<bar>n\<bar>"
    using operand_sign_magnitude [OF assms, of unsigned_integer operand] by (simp_all only: n_def op_def s_def m_def)
  have unf: "floating_from_integer d operand unsigned_integer width rounding = round_and_pack (format_of d) s (wide_of m) 0 rounding"
    by (simp only: floating_from_integer_def Let_def op_def s_def m_def)
  show ?thesis
  proof (cases "n = 0")
    case True
    then have "\<not> s" "wide_zero (wide_of m)" using sm by (simp_all add: wide_zero_val unat_eq_0 unsigned_eq_0_iff)
    then show ?thesis unfolding unf n_def [symmetric] using True by (simp add: round_and_pack_def exact_result_eq)
  next
    case False
    then have "limbs_val (wide_of m) \<noteq> 0" using sm(2) unfolding wide_of_val by linarith
    moreover have "signum s * wide_value (wide_of m) 0 = of_int n"
    proof -
      have "real (unat m) = of_int \<bar>n\<bar>" using sm(2) by (metis of_int_of_nat_eq)
      then show ?thesis unfolding wide_value_def wide_of_val using sm(1) by (auto simp: signum_def)
    qed
    ultimately show ?thesis unfolding unf n_def [symmetric] using round_and_pack_exact [OF wide_of_val(1)] by metis
  qed
qed


subsection \<open>Floating point to integer\<close>

definition integer_low :: "bool \<Rightarrow> u8 \<Rightarrow> int" where
  "integer_low unsigned_integer width = (if unsigned_integer then 0 else if width = 32 then - (2 ^ 31) else - (2 ^ 63))"

definition integer_high :: "bool \<Rightarrow> u8 \<Rightarrow> int" where
  "integer_high unsigned_integer width =
     (if width = 32 then if unsigned_integer then 2 ^ 32 - 1 else 2 ^ 31 - 1
      else if unsigned_integer then 2 ^ 64 - 1 else 2 ^ 63 - 1)"

lemma round_to_integer_magnitude_val:
  assumes w: "wide_wf w" "limbs_val w < 2 ^ 53" and e: "e \<le> 971"
    and r: "round_to_integer_magnitude w e sign rounding = (w', inexact)"
  shows "wide_wf w'" "int (limbs_val w') = round_to_int rounding sign (wide_value w e)"
    "inexact \<longleftrightarrow> real (limbs_val w') \<noteq> wide_value w e"
proof -
  have "scale_to w e 0 sign rounding = (w', inexact)"
  proof (cases "e = 0")
    case True
    then show ?thesis using r w wide_shift_left_def by (simp add: scale_to_def round_to_integer_magnitude_def)
  next
    case False
    then show ?thesis using r by (auto simp: scale_to_def round_to_integer_magnitude_def split: if_splits)
  qed
  moreover have "limbs_val w * 2 ^ nat (e - 0) < 2 ^ 4608"
  proof -
    have "limbs_val w * 2 ^ nat e < 2 ^ 53 * 2 ^ nat e" using w(2) by simp
    also have "\<dots> \<le> 2 ^ 4608" unfolding power_add [symmetric] using e by (intro power_increasing) simp_all
    finally show ?thesis by simp
  qed
  ultimately have S: "wide_wf w'" "int (limbs_val w') = round_to_int rounding sign (wide_value w e / 2 powi 0)"
      "inexact \<longleftrightarrow> real (limbs_val w') * 2 powi 0 \<noteq> wide_value w e"
    using scale_to_val [OF w(1)] by blast+
  then show "wide_wf w'" "int (limbs_val w') = round_to_int rounding sign (wide_value w e)"
    "inexact \<longleftrightarrow> real (limbs_val w') \<noteq> wide_value w e" by simp_all
qed

lemma and_all_ones: "v AND (0xFFFFFFFFFFFFFFFF :: u64) = v"
proof -
  have "(0xFFFFFFFFFFFFFFFF :: u64) = - 1" by simp
  then show ?thesis by (simp only: and.right_neutral)
qed

lemma wide_value_nonneg [simp]: "0 \<le> wide_value w e"
  by (simp add: wide_value_def)

lemma and_width_mask_small: "uint v < 2 ^ 32 \<Longrightarrow> v AND width_mask width = (v :: u64)"
proof -
  assume v: "uint v < 2 ^ 32"
  have "(0xFFFFFFFF :: u64) = mask 32" by (simp add: mask_eq_exp_minus_1)
  then have "v AND 0xFFFFFFFF = take_bit 32 v" by (simp only: take_bit_eq_mask)
  moreover have "take_bit 32 v = v" using v by (metis take_bit_int_eq_self unsigned_greater_eq unsigned_take_bit_eq word_uint_eqI)
  ultimately show ?thesis by (simp add: width_mask_def and_all_ones)
qed

lemma and_width_mask_64: "width \<noteq> 32 \<Longrightarrow> v AND width_mask width = (v :: u64)"
  by (simp add: width_mask_def and_all_ones)

lemma floating_to_integer_exact:
  fixes rounding :: floating_rounding_mode
  assumes "width = 32 \<or> width = 64" "float_finite f a"
  defines "sign \<equiv> up_sign (unpack f a)" and "x \<equiv> float_value f a"
  defines "n \<equiv> (if up_sign (unpack f a) then - 1 else 1) * round_to_int rounding (up_sign (unpack f a)) \<bar>float_value f a\<bar>"
  shows "floating_to_integer f a unsigned_integer width rounding =
    (if integer_low unsigned_integer width \<le> n \<and> n \<le> integer_high unsigned_integer width
     then \<lparr>fir_value = word_of_int n AND width_mask width, fir_flags = (if of_int n = x then 0 else FlagInexact)\<rparr>
     else invalid_integer_result sign unsigned_integer width)"
proof (cases "up_category (unpack f a) = CatFinite")
  case False
  then have z: "up_category (unpack f a) = CatZero" "x = 0"
    using assms(2) by (auto simp: float_finite_unpack float_value_0_iff x_def)
  then have "n = 0" using round_to_int_of_int [of rounding sign 0] by (simp add: n_def x_def sign_def)
  then show ?thesis using z by (simp add: floating_to_integer_def is_nan_def integer_low_def integer_high_def)
next
  case True
  define e where "e = up_exponent (unpack f a)"
  define w where "w = wide_of (up_significand (unpack f a))"
  have w: "wide_wf w" "limbs_val w < 2 ^ 53" "e \<le> 971"
    using unpack_bounds [of f a] True by (simp_all add: w_def e_def)
  have ax: "\<bar>x\<bar> = wide_value w e" "x = signum sign * wide_value w e"
    unfolding x_def float_value_eq w_def [symmetric] e_def [symmetric] sign_def [symmetric] abs_mult signum_simps
    by (simp_all only: mult_1_left abs_of_nonneg wide_value_nonneg)
  obtain w' i where r: "round_to_integer_magnitude w e sign rounding = (w', i)" by (metis surj_pair)
  note R = round_to_integer_magnitude_val [OF w r]
  have n: "n = (if sign then - int (limbs_val w') else int (limbs_val w'))"
    unfolding n_def R(2) ax(1) [unfolded x_def] sign_def by simp
  have i: "i \<longleftrightarrow> of_int n \<noteq> x"
    unfolding R(3) n ax(2) by (cases sign) auto
  show ?thesis
  proof (cases "64 < wide_bit_length w'")
    case big: True
    then have "2 ^ 64 \<le> int (limbs_val w')"
      using bit_length_le_iff [OF R(1), of 64] by (metis of_nat_le_iff of_nat_numeral of_nat_power not_less)
    then have "\<not> (integer_low unsigned_integer width \<le> n \<and> n \<le> integer_high unsigned_integer width)"
      unfolding n by (auto simp: integer_low_def integer_high_def)
    then have "(if integer_low unsigned_integer width \<le> n \<and> n \<le> integer_high unsigned_integer width then A else B) = B" for A B :: floating_integer_result
      by (rule if_not_P)
    then show ?thesis using big True r
      by (simp only:) (simp add: floating_to_integer_def is_nan_def Let_def w_def e_def sign_def)
  next
    case small: False
    then have lt: "limbs_val w' < 2 ^ 64" using bit_length_le_iff [OF R(1), of 64] by simp
    define v where "v = wide_low64 w'"
    have v: "unat v = limbs_val w'" unfolding v_def wide_low64_val [OF R(1)] using lt by (rule mod_less)
    have uv: "uint v = int (limbs_val w')" using v by (metis of_nat_unat)
    have n': "n = (if sign then - uint v else uint v)" using n uv by simp
    have neg: "NOT v + 1 = word_of_int (- uint v)" unfolding minus_eq_not_plus_1 [symmetric] by simp
    have unf: "floating_to_integer f a unsigned_integer width rounding =
       (if unsigned_integer
        then if (sign \<and> v \<noteq> 0) \<or> width_mask width < v then invalid_integer_result sign True width
          else \<lparr>fir_value = v, fir_flags = (if i then FlagInexact else 0)\<rparr>
        else if (sign \<and> signed_minimum_bits width < v) \<or> (\<not> sign \<and> signed_maximum width < v)
          then invalid_integer_result sign False width
          else \<lparr>fir_value = (if sign then (NOT v + 1) AND width_mask width else v), fir_flags = (if i then FlagInexact else 0)\<rparr>)"
      using small True r
      by (simp add: floating_to_integer_def is_nan_def Let_def w_def e_def sign_def v_def)
    have b: "0 \<le> uint v" "uint v < 2 ^ 64" "v = 0 \<longleftrightarrow> uint v = 0" using uint_bounded [of v] by (simp_all add: unsigned_eq_0_iff)
    note cmp = word_less_def width_mask_def signed_minimum_bits_def signed_maximum_def
    have "(if integer_low unsigned_integer width \<le> n \<and> n \<le> integer_high unsigned_integer width then
        unsigned_integer \<and> \<not> (sign \<and> v \<noteq> 0) \<and> \<not> width_mask width < v
        \<or> \<not> unsigned_integer \<and> \<not> (sign \<and> signed_minimum_bits width < v) \<and> \<not> (\<not> sign \<and> signed_maximum width < v)
      else
        unsigned_integer \<and> ((sign \<and> v \<noteq> 0) \<or> width_mask width < v)
        \<or> \<not> unsigned_integer \<and> ((sign \<and> signed_minimum_bits width < v) \<or> (\<not> sign \<and> signed_maximum width < v)))"
      unfolding n' integer_low_def integer_high_def b(3) cmp using assms(1) b(1,2)
      by (cases sign; cases unsigned_integer; elim disjE; simp; linarith)
    moreover have "word_of_int n AND width_mask width = (if sign then (NOT v + 1) AND width_mask width else v)"
      if "integer_low unsigned_integer width \<le> n \<and> n \<le> integer_high unsigned_integer width"
      using that assms(1) and_width_mask_small [of v width] and_width_mask_64 [of width v]
      by (auto simp: n' integer_high_def neg split: if_splits)
    ultimately show ?thesis unfolding unf i by (auto split: if_splits)
  qed
qed

end
