(* ===== verification/Soft_Float_Compare.thy ===== *)
theory Soft_Float_Compare
  imports Soft_Float_Convert
begin

unbundle bit_operations_syntax

text \<open>
  The comparisons work on the bit patterns alone. They agree with the order of the reals the patterns stand for,
  because the magnitude field read as a natural number is a strictly monotone encoding.
\<close>

definition magnitude_value :: "format \<Rightarrow> nat \<Rightarrow> real" where
  "magnitude_value fmt k =
     (let E = k div 2 ^ fraction_bits fmt; F = k mod 2 ^ fraction_bits fmt;
          least = minimum_exponent fmt - int (fraction_bits fmt) in
      if E = 0 then real F * 2 powi least else real (2 ^ fraction_bits fmt + F) * 2 powi (int E - 1 + least))"

lemma magnitude_value_bounds:
  assumes "E = k div 2 ^ fraction_bits fmt"
  shows "magnitude_value fmt k < 2 powi (int E + minimum_exponent fmt)"
    "E \<noteq> 0 \<Longrightarrow> 2 powi (int E - 1 + minimum_exponent fmt) \<le> magnitude_value fmt k"
proof -
  let ?fb = "fraction_bits fmt"
  have "real (k mod 2 ^ ?fb) < real (2 ^ ?fb)" by (simp only: of_nat_less_iff mod_less_divisor zero_less_power zero_less_numeral)
  then have F: "real (k mod 2 ^ ?fb) < 2 powi int ?fb" by simp
  have p: "2 powi (x + minimum_exponent fmt) = 2 powi int ?fb * (2 :: real) powi (x + (minimum_exponent fmt - int ?fb))" for x
    by (simp add: powi_add2 powi_diff2)
  show "magnitude_value fmt k < 2 powi (int E + minimum_exponent fmt)"
  proof (cases "E = 0")
    case True
    then show ?thesis using F assms p [of 0] by (simp add: magnitude_value_def Let_def)
  next
    case False
    have "real (2 ^ ?fb + k mod 2 ^ ?fb) < 2 * 2 powi int ?fb" using F by simp
    then have "real (2 ^ ?fb + k mod 2 ^ ?fb) * 2 powi (int E - 1 + (minimum_exponent fmt - int ?fb))
        < 2 * 2 powi int ?fb * 2 powi (int E - 1 + (minimum_exponent fmt - int ?fb))" by (rule mult_strict_right_mono) simp
    also have "\<dots> = 2 powi (int E + minimum_exponent fmt)"
      unfolding p [of "int E"] by (simp add: powi_add2 powi_diff2)
    finally show ?thesis using False assms by (simp add: magnitude_value_def Let_def)
  qed
  assume "E \<noteq> 0"
  have "2 powi int ?fb \<le> real (2 ^ ?fb + k mod 2 ^ ?fb)" by simp
  then have "2 powi int ?fb * 2 powi (int E - 1 + (minimum_exponent fmt - int ?fb))
      \<le> real (2 ^ ?fb + k mod 2 ^ ?fb) * 2 powi (int E - 1 + (minimum_exponent fmt - int ?fb))"
    by (rule mult_right_mono) (simp add: less_imp_le)
  then show "2 powi (int E - 1 + minimum_exponent fmt) \<le> magnitude_value fmt k"
    unfolding p [of "int E - 1"] using \<open>E \<noteq> 0\<close> assms by (simp add: magnitude_value_def Let_def)
qed

lemma magnitude_value_mono: "k < l \<Longrightarrow> magnitude_value fmt k < magnitude_value fmt l"
proof -
  assume kl: "k < l"
  let ?B = "2 ^ fraction_bits fmt"
  define E E' where EE: "E = k div ?B" "E' = l div ?B"
  have "E \<le> E'" using kl by (simp add: EE div_le_mono)
  then consider "E = E'" | "E < E'" by linarith
  then show ?thesis
  proof cases
    case 1
    then have "k mod ?B < l mod ?B" using kl by (metis EE add_less_cancel_left div_mult_mod_eq)
    then have "real (k mod ?B) < real (l mod ?B)" by simp
    then show ?thesis using 1 by (simp add: magnitude_value_def Let_def EE)
  next
    case 2
    then have "(2 :: real) powi (int E + minimum_exponent fmt) \<le> 2 powi (int E' - 1 + minimum_exponent fmt)" by simp
    then show ?thesis using magnitude_value_bounds(1) [OF EE(1)] magnitude_value_bounds(2) [OF EE(2)] 2 by linarith
  qed
qed

lemma magnitude_value_less_iff: "magnitude_value fmt k < magnitude_value fmt l \<longleftrightarrow> k < l"
  using magnitude_value_mono [of k l fmt] magnitude_value_mono [of l k fmt] by (cases k l rule: linorder_cases) auto

lemma magnitude_value_0 [simp]: "magnitude_value fmt 0 = 0"
  by (simp add: magnitude_value_def)

lemma magnitude_value_pos: "0 < magnitude_value fmt k \<longleftrightarrow> 0 < k"
  using magnitude_value_less_iff [of fmt 0 k] by simp

definition float_word :: "floating_format \<Rightarrow> u64 \<Rightarrow> bool" where
  "float_word f bits \<longleftrightarrow> f = Double \<or> bits < 2 ^ 32"

lemma magnitude_bits:
  assumes "float_word f bits"
  shows "bits AND NOT (sign_mask (format_of f)) = take_bit (exponent_bits (format_of f) + fraction_bits (format_of f)) bits"
proof (rule bit_word_eqI)
  fix n assume n: "n < LENGTH(64)"
  have ok: "sign_mask (format_of f) = push_bit (exponent_bits (format_of f) + fraction_bits (format_of f)) 1"
    using format_of_ok [of f] by (simp add: format_ok_def)
  have top: "bit bits n \<Longrightarrow> n \<le> exponent_bits (format_of f) + fraction_bits (format_of f)"
  proof (cases f)
    case Single
    assume b: "bit bits n"
    have "uint bits < 2 ^ 32" using assms Single by (simp add: float_word_def word_less_def)
    then have "take_bit 32 bits = bits" by (metis take_bit_int_eq_self unsigned_greater_eq unsigned_take_bit_eq word_uint_eqI)
    then have "n < 32" using b by (metis bit_take_bit_iff)
    then show ?thesis using Single by (simp add: format_of_def kSingleFormat_def)
  next
    case Double
    then show ?thesis using n by (simp add: format_of_def kDoubleFormat_def)
  qed
  show "bit (bits AND NOT (sign_mask (format_of f))) n
      = bit (take_bit (exponent_bits (format_of f) + fraction_bits (format_of f)) bits) n"
    unfolding ok using n top by (auto simp: bit_simps bit_exp_iff)
qed

lemma float_value_magnitude:
  assumes "float_word f bits" "float_finite f bits"
  shows "float_value f bits = signum (bits AND sign_mask (format_of f) \<noteq> 0)
    * magnitude_value (format_of f) (unat (bits AND NOT (sign_mask (format_of f))))"
proof -
  define fmt fb eb where d: "fmt = format_of f" "fb = fraction_bits fmt" "eb = exponent_bits fmt"
  have ok: "0 < fb" "2 \<le> eb" "fb + eb < 64" "fraction_mask fmt = mask fb" "exponent_mask fmt = push_bit fb (mask eb)"
      "2 * bias fmt = 2 ^ eb - 2" "minimum_exponent fmt = 1 - bias fmt"
    using format_of_ok [of f] by (simp_all add: format_ok_def d)
  define E where "E = take_bit eb (drop_bit fb bits)"
  define F where "F = take_bit fb bits"
  have k: "unat (bits AND NOT (sign_mask fmt)) = 2 ^ fb * unat E + unat F"
  proof -
    have "unat (bits AND NOT (sign_mask fmt)) = unat bits mod (2 ^ fb * 2 ^ eb)"
      unfolding magnitude_bits [OF assms(1), folded d(1), folded d(2,3)] unsigned_take_bit_eq
      by (simp only: take_bit_eq_mod power_add mult.commute)
    also have "\<dots> = 2 ^ fb * (unat bits div 2 ^ fb mod 2 ^ eb) + unat bits mod 2 ^ fb" by (rule mod_mult2_eq)
    finally show ?thesis unfolding E_def F_def unsigned_take_bit_eq unsigned_drop_bit_eq
      by (simp only: take_bit_eq_mod drop_bit_eq_div mod_less [OF unsigned_less])
  qed
  have F: "unat F < 2 ^ fb" using take_bit_nat_less_exp [of fb "unat bits"] by (simp only: F_def unsigned_take_bit_eq)
  have kE: "unat (bits AND NOT (sign_mask fmt)) div 2 ^ fb = unat E" "unat (bits AND NOT (sign_mask fmt)) mod 2 ^ fb = unat F"
    unfolding k using F by simp_all
  have ones: "exponent_all_ones fmt = mask eb" by (simp add: exponent_all_ones_def d mask_eq_exp_minus_1)
  have fin: "E \<noteq> mask eb"
    using assms(2) unfolding float_finite_unpack unpack_def Let_def d(1) [symmetric] d(2) [symmetric] ok(4,5) exponent_field_eq ones
      E_def [symmetric] by (auto split: if_splits)
  have S: "unat (push_bit fb 1 OR F) = 2 ^ fb + unat F"
  proof -
    have "push_bit fb 1 OR F = push_bit fb 1 + F" by (rule or_add) (auto simp: F_def bit_simps bit_exp_iff)
    moreover have "push_bit fb 1 + F = word_of_nat (2 ^ fb + unat F)" by simp
    moreover have "2 ^ fb + unat F < 2 ^ 64"
    proof -
      have "2 ^ fb + unat F < 2 ^ Suc fb" using F by simp
      also have "\<dots> \<le> 2 ^ 64" using ok by (intro power_increasing) simp_all
      finally show ?thesis .
    qed
    ultimately show ?thesis by (metis unat_of_nat_u64)
  qed
  have u: "up_sign (unpack f bits) = (bits AND sign_mask fmt \<noteq> 0)"
    "unat (up_significand (unpack f bits)) = (if E = 0 then unat F else 2 ^ fb + unat F)"
    "E \<noteq> 0 \<Longrightarrow> up_exponent (unpack f bits) = int (unat E) - 1 + (minimum_exponent fmt - int fb)"
    "E = 0 \<Longrightarrow> F \<noteq> 0 \<Longrightarrow> up_exponent (unpack f bits) = minimum_exponent fmt - int fb"
    using fin S ok(7)
    unfolding unpack_def Let_def d(1) [symmetric] d(2) [symmetric] ok(4,5) exponent_field_eq ones E_def [symmetric]
      take_bit_eq_mask [symmetric] F_def [symmetric]
    by simp_all
  have z: "unat E = 0 \<longleftrightarrow> E = 0" "unat F = 0 \<longleftrightarrow> F = 0" by (simp_all add: unat_eq_0)
  have "real (unat (up_significand (unpack f bits))) * 2 powi up_exponent (unpack f bits)
      = magnitude_value fmt (unat (bits AND NOT (sign_mask fmt)))"
    unfolding magnitude_value_def Let_def d(2) [symmetric] kE z u(2) using u(3,4) z(2)
    by (cases "E = 0"; cases "F = 0") (simp_all only: if_True if_False simp_thms of_nat_0 mult_zero_left)
  then show ?thesis unfolding float_value_unpack Let_def u(1) d(1) [symmetric] by (simp only:)
qed

lemma numeric_less_iff:
  assumes "float_word f a" "float_word f b" "float_finite f a" "float_finite f b"
  shows "numeric_less (format_of f) a b \<longleftrightarrow> float_value f a < float_value f b"
proof -
  let ?fmt = "format_of f"
  define k l where kl: "k = unat (a AND NOT (sign_mask ?fmt))" "l = unat (b AND NOT (sign_mask ?fmt))"
  define s t where st: "s = (a AND sign_mask ?fmt \<noteq> 0)" "t = (b AND sign_mask ?fmt \<noteq> 0)"
  have v: "float_value f a = signum s * magnitude_value ?fmt k" "float_value f b = signum t * magnitude_value ?fmt l"
    using float_value_magnitude assms by (simp_all add: kl st)
  have nl: "numeric_less ?fmt a b \<longleftrightarrow> (if k = 0 \<and> l = 0 then False else if s \<noteq> t then s else if s then l < k else k < l)"
    by (simp add: numeric_less_def Let_def kl st word_less_nat_alt unat_eq_0)
  have pos: "0 \<le> magnitude_value ?fmt k" "0 \<le> magnitude_value ?fmt l" "0 < magnitude_value ?fmt k \<longleftrightarrow> 0 < k" "0 < magnitude_value ?fmt l \<longleftrightarrow> 0 < l"
    using magnitude_value_pos [of ?fmt k] magnitude_value_pos [of ?fmt l] by (cases "k = 0"; cases "l = 0"; simp)+
  show ?thesis unfolding nl v using pos magnitude_value_less_iff [of ?fmt k l] magnitude_value_less_iff [of ?fmt l k]
    by (cases s; cases t) auto
qed


text \<open>C36. Comparisons follow the order of the reals: on finite numbers equality, less-than and less-or-equal are those
  of the values (so the two zeros are equal), and a NaN compares false, raising the invalid flag for the ordered
  comparisons and for a signaling NaN.\<close>

theorem floating_compare_correct:
  assumes "float_word f a" "float_word f b"
  shows "(float_finite f a \<and> float_finite f b \<longrightarrow> floating_compare f a b comparison =
      \<lparr>fcr_value = (case comparison of FEqual \<Rightarrow> float_value f a = float_value f b
         | FLessThan \<Rightarrow> float_value f a < float_value f b | FLessThanOrEqual \<Rightarrow> float_value f a \<le> float_value f b),
       fcr_flags = 0\<rparr>)
    \<and> (float_nan f a \<or> float_nan f b \<longrightarrow> floating_compare f a b comparison =
      \<lparr>fcr_value = False,
       fcr_flags = (if comparison \<noteq> FEqual \<or> float_signaling f a \<or> float_signaling f b then 0x10 else 0)\<rparr>)"
proof (intro conjI impI)
  assume fin: "float_finite f a \<and> float_finite f b"
  then have "\<not> (is_nan (up_category (unpack f a)) \<or> is_nan (up_category (unpack f b)))"
    by (simp add: float_nan_unpack float_nan_def)
  then show "floating_compare f a b comparison =
      \<lparr>fcr_value = (case comparison of FEqual \<Rightarrow> float_value f a = float_value f b
         | FLessThan \<Rightarrow> float_value f a < float_value f b | FLessThanOrEqual \<Rightarrow> float_value f a \<le> float_value f b),
       fcr_flags = 0\<rparr>"
    using numeric_less_iff [OF assms] numeric_less_iff [OF assms(2,1)] fin
    by (cases comparison) (auto simp: floating_compare_def Let_def)
next
  assume "float_nan f a \<or> float_nan f b"
  then have "is_nan (up_category (unpack f a)) \<or> is_nan (up_category (unpack f b))" by (simp add: float_nan_unpack)
  then show "floating_compare f a b comparison =
      \<lparr>fcr_value = False,
       fcr_flags = (if comparison \<noteq> FEqual \<or> float_signaling f a \<or> float_signaling f b then 0x10 else 0)\<rparr>"
    unfolding float_nan_unpack(2) [symmetric]
    by (auto simp: floating_compare_def Let_def invalid_flag_def FlagInvalidOperation_def)
qed

text \<open>The two zeros of binary32 are equal, and a quiet NaN is not ordered.\<close>

theorem floating_compare_correct_witness:
  "float_word Single 0x80000000 \<and> float_word Single 0 \<and> float_finite Single 0x80000000 \<and> float_finite Single 0
   \<and> float_nan Single 0x7FC00000 \<and> fcr_value (floating_compare Single 0x80000000 0 FEqual)
   \<and> floating_compare Single 0x7FC00000 0 FLessThan = \<lparr>fcr_value = False, fcr_flags = 0x10\<rparr>"
proof -
  have w: "float_word Single 0x80000000" "float_word Single 0" "float_word Single 0x7FC00000" by (simp_all add: float_word_def)
  note fields = float_finite_def float_nan_def exponent_field_def fraction_field_def
  have fin: "float_finite Single 0x80000000" "float_finite Single 0" "float_nan Single 0x7FC00000" by (simp_all add: fields)
  have v: "float_value Single 0x80000000 = 0" "float_value Single 0 = 0" by (simp_all add: float_value_def fields)
  show ?thesis
    using floating_compare_correct [OF w(1,2), of FEqual] floating_compare_correct [OF w(3,2), of FLessThan] w fin v
    by simp
qed

text \<open>The bounds of the integer formats, and the pattern of an integer in a 64-bit register.\<close>

lemma invalid_integer_saturates:
  assumes "width = 32 \<or> width = 64"
  shows "invalid_integer_result sign unsigned_integer width =
    \<lparr>fir_value = take_bit (unat width) (word_of_int (if sign then integer_low unsigned_integer width
        else integer_high unsigned_integer width)), fir_flags = 0x10\<rparr>"
  using assms
  by (cases sign; cases unsigned_integer; elim disjE)
    (simp_all add: invalid_integer_result_def integer_low_def integer_high_def width_mask_def signed_minimum_bits_def
      signed_maximum_def FlagInvalidOperation_def take_bit_eq_mask mask_eq_exp_minus_1)

lemma width_mask_take_bit: "width = 32 \<or> width = 64 \<Longrightarrow> x AND width_mask width = take_bit (unat width) x"
  by (elim disjE) (simp_all add: width_mask_def take_bit_eq_mask mask_eq_exp_minus_1)

lemma round_to_int_sign:
  fixes rounding :: floating_rounding_mode and f :: floating_format and a :: u64
  defines "n \<equiv> (if float_sign f a then - 1 else 1) * round_to_int rounding (float_sign f a) \<bar>float_value f a\<bar>"
  assumes "\<not> (integer_low u width \<le> n \<and> n \<le> integer_high u width)"
  shows "n < integer_low u width \<longleftrightarrow> float_sign f a"
proof -
  have "0 \<le> round_to_int rounding (float_sign f a) \<bar>float_value f a\<bar>"
    using round_to_int_bounds(1) [of "\<bar>float_value f a\<bar>" rounding "float_sign f a"]
    by (meson abs_ge_zero order_trans zero_le_floor)
  moreover have "integer_low u width \<le> 0" "0 \<le> integer_high u width" by (simp_all add: integer_low_def integer_high_def)
  ultimately show ?thesis using assms(2) by (cases "float_sign f a") (auto simp: n_def)
qed

lemma floating_to_integer_special:
  assumes "\<not> float_finite f a"
  shows "floating_to_integer f a unsigned_integer width rounding
    = invalid_integer_result (float_sign f a \<and> \<not> float_nan f a) unsigned_integer width"
  using assms
  by (auto simp: floating_to_integer_def Let_def is_nan_def unpack_fields(1,2) float_nan_def)

text \<open>C37. Conversions are correctly rounded: between the formats and from integers the result is the IEEE rounding of the
  operand, and to an integer it is the operand rounded in the given mode when that fits the destination, with the
  inexact flag exactly when digits were lost. When it does not fit, the result is the bound of the destination it lies
  beyond and only the invalid flag (0x10) is raised; an infinity saturates the same way and a NaN gives the largest
  integer. The result is the two's complement of the destination's width, zero-extended.\<close>

theorem floating_conversion_correct:
  assumes "width = 32 \<or> width = 64"
  shows "(float_finite f a \<longrightarrow>
      floating_convert_format d f a rounding = exact_result d rounding (float_sign f a) (float_value f a))
    \<and> floating_from_integer d operand unsigned_integer width rounding
       = exact_result d rounding False (of_int (operand_integer unsigned_integer width operand))
    \<and> (let low = (if unsigned_integer then 0 else - (2 ^ (unat width - 1)));
           high = (if unsigned_integer then 2 ^ unat width - 1 else 2 ^ (unat width - 1) - 1);
           n = (if float_sign f a then - 1 else 1) * round_to_int rounding (float_sign f a) \<bar>float_value f a\<bar> in
       floating_to_integer f a unsigned_integer width rounding =
        (if \<not> float_finite f a
         then \<lparr>fir_value = take_bit (unat width) (word_of_int (if float_sign f a \<and> \<not> float_nan f a then low else high)),
               fir_flags = 0x10\<rparr>
         else if n < low then \<lparr>fir_value = take_bit (unat width) (word_of_int low), fir_flags = 0x10\<rparr>
         else if high < n then \<lparr>fir_value = take_bit (unat width) (word_of_int high), fir_flags = 0x10\<rparr>
         else \<lparr>fir_value = take_bit (unat width) (word_of_int n),
               fir_flags = (if of_int n = float_value f a then 0 else 0x01)\<rparr>))"
proof -
  have lh: "(if unsigned_integer then 0 else - (2 ^ (unat width - 1))) = integer_low unsigned_integer width"
      "(if unsigned_integer then 2 ^ unat width - 1 else 2 ^ (unat width - 1) - 1) = integer_high unsigned_integer width"
    using assms by (auto simp: integer_low_def integer_high_def)
  define n where "n = (if float_sign f a then - 1 else 1) * round_to_int rounding (float_sign f a) \<bar>float_value f a\<bar>"
  have "floating_to_integer f a unsigned_integer width rounding =
        (if \<not> float_finite f a
         then \<lparr>fir_value = take_bit (unat width) (word_of_int (if float_sign f a \<and> \<not> float_nan f a
                 then integer_low unsigned_integer width else integer_high unsigned_integer width)), fir_flags = 0x10\<rparr>
         else if n < integer_low unsigned_integer width
         then \<lparr>fir_value = take_bit (unat width) (word_of_int (integer_low unsigned_integer width)), fir_flags = 0x10\<rparr>
         else if integer_high unsigned_integer width < n
         then \<lparr>fir_value = take_bit (unat width) (word_of_int (integer_high unsigned_integer width)), fir_flags = 0x10\<rparr>
         else \<lparr>fir_value = take_bit (unat width) (word_of_int n), fir_flags = (if of_int n = float_value f a then 0 else 0x01)\<rparr>)"
  proof (cases "float_finite f a")
    case True
    note x = floating_to_integer_exact [OF assms True, of unsigned_integer rounding,
        unfolded unpack_fields(1), folded n_def]
    show ?thesis
      using round_to_int_sign [of unsigned_integer width f a rounding, folded n_def] True
      unfolding x width_mask_take_bit [OF assms] invalid_integer_saturates [OF assms] FlagInexact_def
      by (auto simp: not_le not_less)
  next
    case False
    then show ?thesis unfolding floating_to_integer_special [OF False] invalid_integer_saturates [OF assms] by simp
  qed
  then show ?thesis
    unfolding Let_def lh n_def [symmetric]
    using floating_convert_exact [of f a d rounding, unfolded unpack_fields(1)]
      floating_from_integer_exact [OF assms, of d operand unsigned_integer rounding] by blast
qed

text \<open>Minus two and a half converts to the integer minus two, inexactly, when ties go to even; as an unsigned integer it
  saturates to zero with the invalid flag.\<close>

theorem floating_conversion_correct_witness:
  "float_finite Single 0xC0200000 \<and> floating_to_integer Single 0xC0200000 False 32 NearestTiesToEven
     = \<lparr>fir_value = 0xFFFFFFFE, fir_flags = 0x01\<rparr>
   \<and> floating_to_integer Single 0xC0200000 True 32 NearestTiesToEven = \<lparr>fir_value = 0, fir_flags = 0x10\<rparr>"
proof -
  have u: "unpack Single 0xC0200000 = \<lparr>up_sign = True, up_category = CatFinite, up_significand = 0xA00000, up_exponent = - 22\<rparr>"
    by code_simp
  have fin: "float_finite Single 0xC0200000" by (simp add: float_finite_unpack u)
  have v: "float_value Single 0xC0200000 = - (5 / 2)" by (simp add: float_value_unpack u power_int_def power_divide)
  have s: "float_sign Single 0xC0200000" by (simp add: unpack_fields(1) [symmetric] u)
  have f: "\<lfloor>5 / 2 :: real\<rfloor> = 2" by (simp add: floor_unique)
  have r: "round_to_int NearestTiesToEven True (5 / 2) = 2" by (simp add: round_to_int_def f)
  have t: "take_bit 32 (- 2 :: u64) = 0xFFFFFFFE" by code_simp
  have "(32 :: u8) = 32 \<or> (32 :: u8) = 64" by simp
  from floating_conversion_correct [OF this, of Single "0xC0200000" Single NearestTiesToEven 0 False]
    floating_conversion_correct [OF this, of Single "0xC0200000" Single NearestTiesToEven 0 True] fin
  show ?thesis by (simp add: Let_def s v r t)
qed

end
