(* ===== verification/Bus_Access.thy ===== *)
theory Bus_Access
  imports Emu_Prelude
begin

text \<open>
  The vocabulary of the physical bus: access widths and kinds, error codes and results
  (\<open>include/rvemu/bus/access.hpp\<close>), half-open address ranges
  (\<open>address_range.hpp/.cpp\<close>) and the fixed address map (\<open>address_map.hpp\<close>).
  The human-readable \<open>detail\<close> text of an error is not modelled: no code reads it.
\<close>

subsection \<open>Accesses and their results\<close>

text \<open>
  \<open>AccessWidth\<close> is an enum over \<open>uint8_t\<close>; a cast can produce a value that is none of the
  four enumerators, and \<open>width_in_bytes\<close> returns 0 for it. \<open>UnnamedWidth\<close> stands for these.
\<close>

datatype access_width = Byte | HalfWord | Word32 | DoubleWord | UnnamedWidth

fun width_in_bytes :: "access_width \<Rightarrow> u64" where
  "width_in_bytes Byte = 1"
| "width_in_bytes HalfWord = 2"
| "width_in_bytes Word32 = 4"
| "width_in_bytes DoubleWord = 8"
| "width_in_bytes UnnamedWidth = 0"

datatype access_type =
  InstructionFetch | Load | Store | Atomic | DmaRead | DmaWrite | Initialization

datatype bus_error_code =
  ErrNone | InvalidWidth | AddressOverflow | Unmapped | OutOfBounds | ReadOnly | RegionOverlap
  | InvalidRegion | BackendFailure

record bus_error =
  be_code :: bus_error_code
  be_address :: u64
  be_length :: u64
  be_region :: string

record access_result =
  ar_error :: bus_error
  ar_value :: u64
  ar_exchanged :: bool

definition no_error :: bus_error where
  "no_error = \<lparr>be_code = ErrNone, be_address = 0, be_length = 0, be_region = []\<rparr>"

definition ar_ok :: "access_result \<Rightarrow> bool" where
  "ar_ok r \<longleftrightarrow> be_code (ar_error r) = ErrNone"

definition ar_success :: "u64 \<Rightarrow> bool \<Rightarrow> access_result" where
  "ar_success v did_exchange =
     \<lparr>ar_error = no_error, ar_value = v, ar_exchanged = did_exchange\<rparr>"

definition ar_failure :: "bus_error \<Rightarrow> access_result" where
  "ar_failure e = \<lparr>ar_error = e, ar_value = 0, ar_exchanged = False\<rparr>"

definition make_error :: "bus_error_code \<Rightarrow> u64 \<Rightarrow> u64 \<Rightarrow> string \<Rightarrow> bus_error" where
  "make_error c a n region =
     \<lparr>be_code = c, be_address = a, be_length = n, be_region = region\<rparr>"

lemma ar_ok_success [simp]: "ar_ok (ar_success v x)"
  by (simp add: ar_ok_def ar_success_def no_error_def)

lemma ar_value_success [simp]: "ar_value (ar_success v x) = v"
  by (simp add: ar_success_def)

lemma ar_exchanged_success [simp]: "ar_exchanged (ar_success v x) = x"
  by (simp add: ar_success_def)

lemma ar_failure_simps [simp]:
  "ar_ok (ar_failure e) \<longleftrightarrow> be_code e = ErrNone"
  "ar_value (ar_failure e) = 0" "ar_exchanged (ar_failure e) = False"
  "ar_error (ar_failure e) = e"
  by (simp_all add: ar_ok_def ar_failure_def)

lemma be_code_make_error [simp]: "be_code (make_error c a n region) = c"
  by (simp add: make_error_def)

lemma unat_width_in_bytes_le: "unat (width_in_bytes w) \<le> 8"
  by (cases w) simp_all

lemma width_in_bytes_eq_0_iff [simp]: "width_in_bytes w = 0 \<longleftrightarrow> w = UnnamedWidth"
  by (cases w) simp_all

subsection \<open>Address ranges\<close>

record address_range =
  rng_base :: u64
  rng_size :: u64
  rng_end_exclusive :: u64

definition range_create :: "u64 \<Rightarrow> u64 \<Rightarrow> address_range option" where
  "range_create base sz =
     (if sz = 0 then None
      else if base > (- 1) - sz then None
      else Some \<lparr>rng_base = base, rng_size = sz, rng_end_exclusive = base + sz\<rparr>)"

definition range_contains :: "address_range \<Rightarrow> u64 \<Rightarrow> bool" where
  "range_contains r a \<longleftrightarrow> a \<ge> rng_base r \<and> a < rng_end_exclusive r"

definition range_contains_length :: "address_range \<Rightarrow> u64 \<Rightarrow> u64 \<Rightarrow> bool" where
  "range_contains_length r a len =
     (if len = 0 \<or> \<not> range_contains r a then False else len \<le> rng_end_exclusive r - a)"

definition range_overlaps :: "address_range \<Rightarrow> address_range \<Rightarrow> bool" where
  "range_overlaps r s \<longleftrightarrow>
     rng_base r < rng_end_exclusive s \<and> rng_base s < rng_end_exclusive r"

definition range_offset_of :: "address_range \<Rightarrow> u64 \<Rightarrow> u64" where
  "range_offset_of r a = a - rng_base r"

text \<open>What every range built by \<open>create\<close> satisfies, and the addresses it stands for.\<close>

definition range_wf :: "address_range \<Rightarrow> bool" where
  "range_wf r \<longleftrightarrow> rng_size r \<noteq> 0 \<and> unat (rng_base r) + unat (rng_size r) < 2 ^ 64
     \<and> rng_end_exclusive r = rng_base r + rng_size r"

definition range_addresses :: "address_range \<Rightarrow> nat set" where
  "range_addresses r = {unat (rng_base r) ..< unat (rng_base r) + unat (rng_size r)}"

lemma unat_max64: "unat ((- 1 :: u64) - s) = 2 ^ 64 - 1 - unat s"
proof -
  have "s \<le> - 1" by simp
  then have "unat ((- 1 :: u64) - s) = unat (- 1 :: u64) - unat s" by (rule unat_sub)
  moreover have "unat (- 1 :: u64) = 2 ^ 64 - 1"
    by (simp add: unsigned_minus_1_eq_mask mask_eq_exp_minus_1)
  ultimately show ?thesis by simp
qed

lemma range_wf_end:
  "range_wf r \<Longrightarrow> unat (rng_end_exclusive r) = unat (rng_base r) + unat (rng_size r)"
  by (simp add: range_wf_def unat_plus_no_overflow)

lemma range_create_wf: "range_create b s = Some r \<Longrightarrow> range_wf r"
  using unat_u64_less [of s]
  by (auto simp: range_create_def range_wf_def word_le_nat_alt word_less_nat_alt unat_max64
      split: if_splits)

lemma range_contains_iff:
  "range_wf r \<Longrightarrow> range_contains r a \<longleftrightarrow> unat a \<in> range_addresses r"
  by (simp add: range_contains_def range_addresses_def word_le_nat_alt word_less_nat_alt
      range_wf_end)

lemma range_contains_length_iff:
  assumes "range_wf r"
  shows "range_contains_length r a len \<longleftrightarrow>
     len \<noteq> 0 \<and> {unat a ..< unat a + unat len} \<subseteq> range_addresses r"
proof -
  have E: "unat (rng_end_exclusive r) = unat (rng_base r) + unat (rng_size r)"
    using assms by (rule range_wf_end)
  show ?thesis
  proof (cases "range_contains r a")
    case True
    then have ge: "a \<le> rng_end_exclusive r" by (simp add: range_contains_def order_less_imp_le)
    from True have in_r: "unat a \<in> range_addresses r"
      using assms by (simp add: range_contains_iff)
    have "unat (rng_end_exclusive r - a) = unat (rng_end_exclusive r) - unat a"
      using ge by (rule unat_sub)
    then have "range_contains_length r a len \<longleftrightarrow>
        len \<noteq> 0 \<and> unat len \<le> unat (rng_base r) + unat (rng_size r) - unat a"
      using True by (simp add: range_contains_length_def word_le_nat_alt E)
    moreover have "unat a < unat (rng_base r) + unat (rng_size r)" "unat (rng_base r) \<le> unat a"
      using in_r by (auto simp: range_addresses_def)
    ultimately show ?thesis
      by (auto simp: range_addresses_def atLeastLessThan_subset_iff unat_eq_0)
  next
    case False
    then have "unat a \<notin> range_addresses r" using assms by (simp add: range_contains_iff)
    moreover have "unat a \<in> {unat a ..< unat a + unat len}" if "len \<noteq> 0"
      using that by (simp add: unat_gt_0)
    ultimately have "len = 0 \<or> \<not> {unat a ..< unat a + unat len} \<subseteq> range_addresses r" by blast
    with False show ?thesis by (simp add: range_contains_length_def)
  qed
qed

lemma range_overlaps_iff:
  assumes "range_wf r" "range_wf s"
  shows "range_overlaps r s \<longleftrightarrow> range_addresses r \<inter> range_addresses s \<noteq> {}"
proof -
  have "unat (rng_size r) > 0" "unat (rng_size s) > 0"
    using assms by (auto simp: range_wf_def unat_gt_0)
  then have "range_addresses r \<inter> range_addresses s \<noteq> {} \<longleftrightarrow>
     unat (rng_base r) < unat (rng_base s) + unat (rng_size s) \<and>
     unat (rng_base s) < unat (rng_base r) + unat (rng_size r)"
    by (auto simp: range_addresses_def)
  with assms show ?thesis
    by (simp add: range_overlaps_def word_less_nat_alt range_wf_end)
qed

lemma range_overlaps_sym: "range_overlaps r s \<longleftrightarrow> range_overlaps s r"
  by (auto simp: range_overlaps_def)

lemma range_offset_fits:
  assumes "range_wf r" "range_contains_length r a len"
  shows "unat (range_offset_of r a) + unat len \<le> unat (rng_size r)"
    and "rng_base r \<le> a"
proof -
  have sub: "{unat a ..< unat a + unat len} \<subseteq> range_addresses r" and "len \<noteq> 0"
    using assms by (auto simp: range_contains_length_iff)
  then have *: "unat (rng_base r) \<le> unat a"
     "unat a + unat len \<le> unat (rng_base r) + unat (rng_size r)"
    by (auto simp: range_addresses_def atLeastLessThan_subset_iff unat_eq_0)
  then show le: "rng_base r \<le> a" by (simp add: word_le_nat_alt)
  show "unat (range_offset_of r a) + unat len \<le> unat (rng_size r)"
    using * by (simp add: range_offset_of_def unat_sub [OF le])
qed

subsection \<open>The address map\<close>

record map_entry =
  me_name :: string
  me_base :: u64
  me_size :: u64

definition kBootRom :: map_entry where
  "kBootRom = \<lparr>me_name = ''boot-rom'', me_base = 0x1000, me_size = 0xB000\<rparr>"
definition kClint :: map_entry where
  "kClint = \<lparr>me_name = ''clint'', me_base = 0x2000000, me_size = 0xC000\<rparr>"
definition kPlic :: map_entry where
  "kPlic = \<lparr>me_name = ''plic'', me_base = 0xC000000, me_size = 0x4000000\<rparr>"
definition kUart :: map_entry where
  "kUart = \<lparr>me_name = ''uart16550'', me_base = 0x10000000, me_size = 0x100\<rparr>"
definition kVirtioBlock :: map_entry where
  "kVirtioBlock = \<lparr>me_name = ''virtio-block'', me_base = 0x10001000, me_size = 0x1000\<rparr>"
definition kVirtioNetwork :: map_entry where
  "kVirtioNetwork = \<lparr>me_name = ''virtio-network'', me_base = 0x10002000, me_size = 0x1000\<rparr>"
definition kDefaultRam :: map_entry where
  "kDefaultRam = \<lparr>me_name = ''ram'', me_base = 0x80000000, me_size = 0x40000000\<rparr>"

definition kEntries :: "map_entry list" where
  "kEntries = [kBootRom, kClint, kPlic, kUart, kVirtioBlock, kVirtioNetwork, kDefaultRam]"

lemmas address_map_defs = kBootRom_def kClint_def kPlic_def kUart_def kVirtioBlock_def
  kVirtioNetwork_def kDefaultRam_def kEntries_def

definition entry_range :: "map_entry \<Rightarrow> address_range option" where
  "entry_range e = range_create (me_base e) (me_size e)"

end
