(* ===== verification/Region_Interface.thy ===== *)
theory Region_Interface
  imports Bus_Access
begin

text \<open>
  The contract of \<open>AddressRegion\<close> (\<open>include/rvemu/bus/address_region.hpp\<close>): the three virtual
  operations a region offers to the bus, as state transformers, and the laws the bus, the MMU
  and the atomic instructions rely on. Every region of the emulator interprets this locale.
\<close>

locale address_region =
  fixes rd :: "'d \<Rightarrow> u64 \<Rightarrow> access_width \<Rightarrow> access_type \<Rightarrow> 'd \<times> access_result"
    and wr :: "'d \<Rightarrow> u64 \<Rightarrow> access_width \<Rightarrow> u64 \<Rightarrow> access_type \<Rightarrow> 'd \<times> access_result"
    and cas :: "'d \<Rightarrow> u64 \<Rightarrow> access_width \<Rightarrow> u64 \<Rightarrow> u64 \<Rightarrow> access_type \<Rightarrow> 'd \<times> access_result"
    and rng :: "'d \<Rightarrow> 'r"
    and inv :: "'d \<Rightarrow> bool"
  assumes inv_rd: "inv d \<Longrightarrow> inv (fst (rd d off w t))"
    and inv_wr: "inv d \<Longrightarrow> inv (fst (wr d off w v t))"
    and inv_cas: "inv d \<Longrightarrow> inv (fst (cas d off w e n t))"
    and rng_rd: "rng (fst (rd d off w t)) = rng d"
    and rng_wr: "rng (fst (wr d off w v t)) = rng d"
    and rng_cas: "rng (fst (cas d off w e n t)) = rng d"
    and rd_fail: "\<not> ar_ok (snd (rd d off w t)) \<Longrightarrow> fst (rd d off w t) = d"
    and wr_fail: "\<not> ar_ok (snd (wr d off w v t)) \<Longrightarrow> fst (wr d off w v t) = d"
    and cas_fail: "\<not> ar_exchanged (snd (cas d off w e n t)) \<Longrightarrow> fst (cas d off w e n t) = d"
    and rd_value: "ar_ok (snd (rd d off w t)) \<Longrightarrow>
        take_bit (8 * unat (width_in_bytes w)) (ar_value (snd (rd d off w t)))
          = ar_value (snd (rd d off w t))"
    and cas_after_rd: "ar_ok (snd (rd d off w t)) \<Longrightarrow>
        ar_ok (snd (cas d off w (ar_value (snd (rd d off w t))) n t')) \<Longrightarrow>
        ar_exchanged (snd (cas d off w (ar_value (snd (rd d off w t))) n t'))"
    and cas_observed: "ar_ok (snd (cas d off w e n t)) \<Longrightarrow>
        ar_ok (snd (rd d off w t')) \<and> ar_value (snd (cas d off w e n t)) = ar_value (snd (rd d off w t'))"
    and cas_ok_cong: "ar_ok (snd (cas d off w e n t)) \<longleftrightarrow> ar_ok (snd (cas d off w e' n' t'))"
begin

text \<open>
  A compare-exchange that lost reports the current value; trying again with that value wins.
  This is what ends the loops of the atomic instructions.
\<close>

lemma cas_second_attempt:
  assumes "ar_ok (snd (cas d off w e n t))" "\<not> ar_exchanged (snd (cas d off w e n t))"
  shows "ar_exchanged (snd (cas (fst (cas d off w e n t)) off w
            (ar_value (snd (cas d off w e n t))) n' t'))"
proof -
  have same: "fst (cas d off w e n t) = d" using assms(2) by (rule cas_fail)
  have obs: "ar_ok (snd (rd d off w t))"
      "ar_value (snd (cas d off w e n t)) = ar_value (snd (rd d off w t))"
    using cas_observed [OF assms(1)] by blast+
  have "ar_ok (snd (cas d off w (ar_value (snd (rd d off w t))) n' t'))"
    using assms(1) cas_ok_cong by blast
  with obs(1) show ?thesis unfolding same obs(2) by (rule cas_after_rd)
qed

lemma cas_value_fits:
  assumes "ar_ok (snd (cas d off w e n t))"
  shows "take_bit (8 * unat (width_in_bytes w)) (ar_value (snd (cas d off w e n t)))
    = ar_value (snd (cas d off w e n t))"
proof -
  have "ar_ok (snd (rd d off w t))"
      "ar_value (snd (cas d off w e n t)) = ar_value (snd (rd d off w t))"
    using cas_observed [OF assms] by blast+
  then show ?thesis using rd_value by metis
qed

end

text \<open>
  What the page-table walker and the atomic instructions rely on beyond single accesses: a doubleword
  read has no side effect, a won compare-exchange stores the desired value, and it leaves the value of
  every access that shares no byte with it alone.
\<close>

locale atomic_region = address_region +
  assumes rd_double_pure: "fst (rd d off DoubleWord t) = d"
    and rd_after_cas: "inv d \<Longrightarrow> ar_exchanged (snd (cas d off w e n t)) \<Longrightarrow>
        snd (rd (fst (cas d off w e n t)) off w t')
          = ar_success (take_bit (8 * unat (width_in_bytes w)) n) False"
    and rd_after_cas_other: "inv d \<Longrightarrow> ar_exchanged (snd (cas d off w e n t)) \<Longrightarrow>
        unat off + unat (width_in_bytes w) \<le> unat off' \<or> unat off' + unat (width_in_bytes w') \<le> unat off \<Longrightarrow>
        snd (rd (fst (cas d off w e n t)) off' w' t') = snd (rd d off' w' t')"
begin

text \<open>Reading a doubleword and exchanging it in one go, as the walker does.\<close>

lemma rd_cas_double:
  assumes "ar_ok (snd (rd d off DoubleWord t))"
    and "ar_ok (snd (cas (fst (rd d off DoubleWord t)) off DoubleWord (ar_value (snd (rd d off DoubleWord t))) n t'))"
  shows "ar_exchanged (snd (cas (fst (rd d off DoubleWord t)) off DoubleWord
           (ar_value (snd (rd d off DoubleWord t))) n t'))"
  using assms cas_after_rd unfolding rd_double_pure by blast

end

end
