(* ===== verification/Physical_Memory.thy ===== *)
theory Physical_Memory
  imports Region_Interface
begin

text \<open>
  RAM (\<open>src/memory/physical_memory.cpp\<close>): a byte vector behind the region interface. The host
  mutex around every operation makes each one atomic; in the model each operation is one
  function, so the lock itself has no counterpart.
\<close>

record phys_mem =
  pm_range :: address_range
  pm_name :: string
  pm_bytes :: "u8 list"

definition pm_require_range :: "u64 \<Rightarrow> u64 \<Rightarrow> host_exception + address_range" where
  "pm_require_range base sz =
     (case range_create base sz of None \<Rightarrow> Inl InvalidArgument | Some r \<Rightarrow> Inr r)"

definition pm_create :: "u64 \<Rightarrow> u64 \<Rightarrow> string \<Rightarrow> host_exception + phys_mem" where
  "pm_create base sz name =
     (case pm_require_range base sz of
        Inl e \<Rightarrow> Inl e
      | Inr r \<Rightarrow> Inr \<lparr>pm_range = r, pm_name = name, pm_bytes = replicate (unat sz) 0\<rparr>)"

definition value_mask :: "access_width \<Rightarrow> u64" where
  "value_mask w =
     (let byte_count = width_in_bytes w in
      if byte_count = 8 then - 1
      else if byte_count = 0 then 0
      else push_bit (unat (byte_count * 8)) 1 - 1)"

definition pm_validate :: "phys_mem \<Rightarrow> u64 \<Rightarrow> access_width \<Rightarrow> access_result" where
  "pm_validate m off w =
     (let len = width_in_bytes w in
      if len = 0 then ar_failure (make_error InvalidWidth (rng_base (pm_range m)) 0 (pm_name m))
      else let memory_size = of_nat (length (pm_bytes m)) :: u64 in
        if off > memory_size \<or> len > memory_size - off
        then ar_failure (make_error OutOfBounds (rng_base (pm_range m)) len (pm_name m))
        else ar_success 0 False)"

definition pm_read_unlocked :: "phys_mem \<Rightarrow> u64 \<Rightarrow> access_width \<Rightarrow> u64" where
  "pm_read_unlocked m off w = le_read (pm_bytes m) (unat off) (unat (width_in_bytes w))"

definition pm_write_unlocked :: "phys_mem \<Rightarrow> u64 \<Rightarrow> access_width \<Rightarrow> u64 \<Rightarrow> phys_mem" where
  "pm_write_unlocked m off w v =
     m\<lparr>pm_bytes := le_write (pm_bytes m) (unat off) (unat (width_in_bytes w)) v\<rparr>"

definition pm_read ::
    "phys_mem \<Rightarrow> u64 \<Rightarrow> access_width \<Rightarrow> access_type \<Rightarrow> phys_mem \<times> access_result" where
  "pm_read m off w t =
     (let validation = pm_validate m off w in
      if \<not> ar_ok validation then (m, validation)
      else (m, ar_success (pm_read_unlocked m off w) False))"

definition pm_write ::
    "phys_mem \<Rightarrow> u64 \<Rightarrow> access_width \<Rightarrow> u64 \<Rightarrow> access_type \<Rightarrow> phys_mem \<times> access_result" where
  "pm_write m off w v t =
     (let validation = pm_validate m off w in
      if \<not> ar_ok validation then (m, validation)
      else (pm_write_unlocked m off w v, ar_success 0 False))"

definition pm_compare_exchange ::
    "phys_mem \<Rightarrow> u64 \<Rightarrow> access_width \<Rightarrow> u64 \<Rightarrow> u64 \<Rightarrow> access_type \<Rightarrow> phys_mem \<times> access_result" where
  "pm_compare_exchange m off w expected desired t =
     (let validation = pm_validate m off w in
      if \<not> ar_ok validation then (m, validation)
      else
        let observed = pm_read_unlocked m off w;
            masked_expected = expected AND value_mask w in
        if observed \<noteq> masked_expected then (m, ar_success observed False)
        else (pm_write_unlocked m off w (desired AND value_mask w), ar_success observed True))"

definition pm_wf :: "phys_mem \<Rightarrow> bool" where
  "pm_wf m \<longleftrightarrow> range_wf (pm_range m) \<and> length (pm_bytes m) = unat (rng_size (pm_range m))"

subsection \<open>Lemmas\<close>

lemma value_mask_eq_mask: "value_mask w = mask (8 * unat (width_in_bytes w))"
  by (cases w) (simp_all add: value_mask_def mask_eq_exp_minus_1)

lemma and_value_mask: "v AND value_mask w = take_bit (8 * unat (width_in_bytes w)) v"
  by (simp add: value_mask_eq_mask take_bit_eq_mask)

lemma pm_create_wf: "pm_create base sz name = Inr m \<Longrightarrow> pm_wf m"
  by (auto simp: pm_create_def pm_require_range_def pm_wf_def range_create_def
      intro: range_create_wf split: option.splits if_splits)

lemma pm_size: "pm_wf m \<Longrightarrow> unat (of_nat (length (pm_bytes m)) :: u64) = length (pm_bytes m)"
  by (simp add: pm_wf_def)

lemma pm_validate_ok_iff:
  assumes "pm_wf m"
  shows "ar_ok (pm_validate m off w) \<longleftrightarrow>
     w \<noteq> UnnamedWidth \<and> unat off + unat (width_in_bytes w) \<le> length (pm_bytes m)"
proof -
  let ?s = "of_nat (length (pm_bytes m)) :: u64"
  have s: "unat ?s = length (pm_bytes m)" using assms by (rule pm_size)
  have d: "off \<le> ?s \<Longrightarrow> unat (?s - off) = length (pm_bytes m) - unat off"
    by (simp add: unat_sub s)
  have pos: "w \<noteq> UnnamedWidth \<Longrightarrow> 0 < unat (width_in_bytes w)" by (cases w) simp_all
  show ?thesis
  proof (cases "w = UnnamedWidth")
    case True
    then show ?thesis by (simp add: pm_validate_def)
  next
    case False
    show ?thesis
    proof (cases "off \<le> ?s")
      case True
      then have "unat off \<le> length (pm_bytes m)" by (simp add: word_le_nat_alt s)
      with False True d show ?thesis
        by (auto simp: pm_validate_def Let_def word_less_nat_alt s not_less)
    next
      case off: False
      then have "unat off > length (pm_bytes m)" by (simp add: word_le_nat_alt s)
      with False off show ?thesis by (auto simp: pm_validate_def Let_def)
    qed
  qed
qed

lemma pm_validate_write_unlocked [simp]:
  "pm_validate (pm_write_unlocked m off w v) off' w' = pm_validate m off' w'"
  by (simp add: pm_validate_def pm_write_unlocked_def Let_def)

lemma pm_write_unlocked_wf [emu_wf]: "pm_wf m \<Longrightarrow> pm_wf (pm_write_unlocked m off w v)"
  by (simp add: pm_wf_def pm_write_unlocked_def)

lemma pm_write_unlocked_range [simp]: "pm_range (pm_write_unlocked m off w v) = pm_range m"
  by (simp add: pm_write_unlocked_def)

lemma pm_ops_ok:
  "ar_ok (snd (pm_read m off w t)) \<longleftrightarrow> ar_ok (pm_validate m off w)"
  "ar_ok (snd (pm_write m off w v t)) \<longleftrightarrow> ar_ok (pm_validate m off w)"
  "ar_ok (snd (pm_compare_exchange m off w e n t)) \<longleftrightarrow> ar_ok (pm_validate m off w)"
  by (auto simp: pm_read_def pm_write_def pm_compare_exchange_def Let_def)

lemma pm_read_unlocked_fits:
  "take_bit (8 * unat (width_in_bytes w)) (pm_read_unlocked m off w) = pm_read_unlocked m off w"
  by (simp add: pm_read_unlocked_def le_read_take_bit)

lemma pm_read_unlocked_write:
  "unat off + unat (width_in_bytes w) \<le> length (pm_bytes m) \<Longrightarrow>
     pm_read_unlocked (pm_write_unlocked m off w v) off w = v AND value_mask w"
  by (simp add: pm_read_unlocked_def pm_write_unlocked_def le_read_write_same and_value_mask)

lemma pm_range_ops [simp]:
  "pm_range (fst (pm_read m off w t)) = pm_range m"
  "pm_range (fst (pm_write m off w v t)) = pm_range m"
  "pm_range (fst (pm_compare_exchange m off w e n t)) = pm_range m"
  by (auto simp: pm_read_def pm_write_def pm_compare_exchange_def Let_def)

lemma pm_wf_ops [emu_wf]:
  "pm_wf m \<Longrightarrow> pm_wf (fst (pm_read m off w t))"
  "pm_wf m \<Longrightarrow> pm_wf (fst (pm_write m off w v t))"
  "pm_wf m \<Longrightarrow> pm_wf (fst (pm_compare_exchange m off w e n t))"
  by (auto simp: pm_read_def pm_write_def pm_compare_exchange_def Let_def intro: emu_wf)

interpretation ram: address_region pm_read pm_write pm_compare_exchange pm_range pm_wf
proof (unfold_locales, goal_cases)
  case (11 d off w t n t')
  then show ?case
    by (simp add: pm_compare_exchange_def pm_read_def Let_def and_value_mask
        pm_read_unlocked_fits split: if_splits)
next
  case (12 d off w e n t t')
  then show ?case
    by (auto simp: pm_compare_exchange_def pm_read_def Let_def split: if_splits)
qed (auto simp: emu_wf pm_ops_ok pm_read_def pm_write_def pm_compare_exchange_def Let_def
     pm_read_unlocked_fits)

lemma pm_read_disjoint:
  assumes "pm_wf m" "ar_ok (pm_validate m off w)"
    and "unat off' + unat (width_in_bytes w') \<le> unat off
         \<or> unat off + unat (width_in_bytes w) \<le> unat off'"
  shows "snd (pm_read (pm_write_unlocked m off w v) off' w' t) = snd (pm_read m off' w' t)"
proof (cases "ar_ok (pm_validate m off' w')")
  case True
  then have "unat off' + unat (width_in_bytes w') \<le> length (pm_bytes m)"
    using assms(1) by (simp add: pm_validate_ok_iff)
  with assms(3) have "pm_read_unlocked (pm_write_unlocked m off w v) off' w' = pm_read_unlocked m off' w'"
    by (simp add: pm_read_unlocked_def pm_write_unlocked_def le_read_write_disjoint)
  then show ?thesis by (simp add: pm_read_def Let_def)
qed (simp add: pm_read_def Let_def)

lemma pm_cas_exchanged:
  assumes "ar_exchanged (snd (pm_compare_exchange m off w e n t))"
  shows "ar_ok (pm_validate m off w)"
    "fst (pm_compare_exchange m off w e n t) = pm_write_unlocked m off w (n AND value_mask w)"
proof -
  have "\<not> ar_exchanged (pm_validate m off w)" by (simp add: pm_validate_def Let_def)
  then show "ar_ok (pm_validate m off w)"
    "fst (pm_compare_exchange m off w e n t) = pm_write_unlocked m off w (n AND value_mask w)"
    using assms by (auto simp: pm_compare_exchange_def Let_def split: if_splits)
qed

interpretation ram: atomic_region pm_read pm_write pm_compare_exchange pm_range pm_wf
proof (unfold_locales, goal_cases)
  case (1 d off t)
  then show ?case by (simp add: pm_read_def Let_def)
next
  case (2 d off w e n t t')
  then have v: "ar_ok (pm_validate d off w)" using pm_cas_exchanged(1) by blast
  then have "unat off + unat (width_in_bytes w) \<le> length (pm_bytes d)"
    using 2(1) by (simp add: pm_validate_ok_iff)
  with v show ?case
    unfolding pm_cas_exchanged(2) [OF 2(2)]
    by (simp add: pm_read_def Let_def pm_read_unlocked_write and_value_mask)
next
  case (3 d off w e n t off' w' t')
  from pm_cas_exchanged [OF 3(2)] 3(1,3) show ?case
    by (auto intro: pm_read_disjoint)
qed

subsection \<open>Properties\<close>

text \<open>C15. RAM is little-endian storage: on a well-formed RAM, after an accepted write, a read of the
  same width at the same offset returns the written value cut to that width, and a read (of any
  width) of bytes the write did not touch returns what it returned before.\<close>

theorem ram_store_load:
  assumes "pm_wf m" and "ar_ok (snd (pm_write m off w v t))"
  shows "snd (pm_read (fst (pm_write m off w v t)) off w t') = ar_success (v AND value_mask w) False
    \<and> (unat off' + unat (width_in_bytes w') \<le> unat off
         \<or> unat off + unat (width_in_bytes w) \<le> unat off' \<longrightarrow>
       snd (pm_read (fst (pm_write m off w v t)) off' w' t') = snd (pm_read m off' w' t'))"
proof (intro conjI impI)
  have ok: "ar_ok (pm_validate m off w)" using assms(2) by (simp add: pm_ops_ok)
  then have fits: "unat off + unat (width_in_bytes w) \<le> length (pm_bytes m)"
    using assms(1) by (simp add: pm_validate_ok_iff)
  show "snd (pm_read (fst (pm_write m off w v t)) off w t') = ar_success (v AND value_mask w) False"
    using ok fits
    by (simp add: pm_read_def pm_write_def Let_def pm_read_unlocked_write)
  assume disj: "unat off' + unat (width_in_bytes w') \<le> unat off
         \<or> unat off + unat (width_in_bytes w) \<le> unat off'"
  then show "snd (pm_read (fst (pm_write m off w v t)) off' w' t') = snd (pm_read m off' w' t')"
    using ok pm_read_disjoint [OF assms(1) ok disj] by (simp add: pm_write_def Let_def)
qed

definition example_ram :: phys_mem where
  "example_ram = \<lparr>pm_range = \<lparr>rng_base = 0x80000000, rng_size = 16, rng_end_exclusive = 0x80000010\<rparr>,
     pm_name = ''ram'', pm_bytes = replicate 16 0\<rparr>"

lemma example_ram_wf: "pm_wf example_ram"
  by (simp add: example_ram_def pm_wf_def range_wf_def)

theorem ram_store_load_witness:
  "pm_wf example_ram \<and> ar_ok (snd (pm_write example_ram 4 Word32 0x1122334455 Store))
   \<and> snd (pm_read (fst (pm_write example_ram 4 Word32 0x1122334455 Store)) 4 Word32 Load)
      = ar_success 0x22334455 False
   \<and> snd (pm_read (fst (pm_write example_ram 4 Word32 0x1122334455 Store)) 8 DoubleWord Load)
      = snd (pm_read example_ram 8 DoubleWord Load)"
proof -
  have ok: "ar_ok (snd (pm_write example_ram 4 Word32 0x1122334455 Store))"
    by (simp add: pm_ops_ok pm_validate_ok_iff [OF example_ram_wf]) (simp add: example_ram_def)
  show ?thesis
    using ram_store_load [OF example_ram_wf ok, where t' = Load and off' = 8 and w' = DoubleWord]
      example_ram_wf ok
    by (simp add: value_mask_def)
qed

text \<open>RAM compare-exchange is an atomic conditional store: on a well-formed RAM it is accepted
  exactly when the access lies inside the memory; the reported value is the one a read returns; it
  exchanges exactly when that value equals the expected value cut to the width; the memory then
  equals the one a plain write of the desired value leaves, and is untouched otherwise.\<close>

theorem ram_compare_exchange_correct:
  assumes "pm_wf m"
  shows "(ar_ok (snd (pm_compare_exchange m off w e n t)) \<longleftrightarrow>
            w \<noteq> UnnamedWidth \<and> unat off + unat (width_in_bytes w) \<le> length (pm_bytes m))
    \<and> ar_value (snd (pm_compare_exchange m off w e n t)) = ar_value (snd (pm_read m off w t))
    \<and> (ar_exchanged (snd (pm_compare_exchange m off w e n t)) \<longleftrightarrow>
        ar_ok (snd (pm_read m off w t)) \<and> ar_value (snd (pm_read m off w t)) = e AND value_mask w)
    \<and> fst (pm_compare_exchange m off w e n t) =
        (if ar_exchanged (snd (pm_compare_exchange m off w e n t)) then fst (pm_write m off w n t) else m)"
proof -
  have "le_write bs p (unat (width_in_bytes w)) (n AND value_mask w)
      = le_write bs p (unat (width_in_bytes w)) n" for bs p
    unfolding and_value_mask by (rule le_write_take_bit) simp
  then have "pm_write_unlocked m off w (n AND value_mask w) = pm_write_unlocked m off w n"
    by (simp add: pm_write_unlocked_def)
  moreover have "\<not> ar_ok (pm_validate m off w) \<Longrightarrow> ar_value (pm_validate m off w) = 0
      \<and> \<not> ar_exchanged (pm_validate m off w)"
    by (auto simp: pm_validate_def Let_def split: if_splits)
  ultimately show ?thesis
    using pm_validate_ok_iff [OF assms, of off w]
    by (auto simp: pm_compare_exchange_def pm_read_def pm_write_def Let_def)
qed

theorem ram_compare_exchange_correct_witness:
  "pm_wf example_ram
   \<and> fst (pm_compare_exchange example_ram 0 HalfWord 0xFFFF0000 0x12345 Atomic)
      = fst (pm_write example_ram 0 HalfWord 0x12345 Atomic)"
proof -
  have "snd (pm_read example_ram 0 HalfWord Atomic) = ar_success 0 False"
    by code_simp
  then show ?thesis
    using ram_compare_exchange_correct [OF example_ram_wf, where off = 0 and w = HalfWord
        and e = "0xFFFF0000" and n = "0x12345" and t = Atomic] example_ram_wf
    by (simp add: value_mask_def)
qed

end
