(* ===== verification/Boot_Rom.thy ===== *)
theory Boot_Rom
  imports Region_Interface
begin

text \<open>
  Boot ROM (\<open>src/memory/boot_rom.cpp\<close>): filled by \<open>load\<close> before \<open>seal\<close>, read-only for every
  bus access, and immutable once sealed.
\<close>

record boot_rom =
  br_range :: address_range
  br_name :: string
  br_bytes :: "u8 list"
  br_sealed :: bool

definition br_require_range :: "u64 \<Rightarrow> u64 \<Rightarrow> host_exception + address_range" where
  "br_require_range base sz =
     (case range_create base sz of None \<Rightarrow> Inl InvalidArgument | Some r \<Rightarrow> Inr r)"

definition br_create :: "u64 \<Rightarrow> u64 \<Rightarrow> string \<Rightarrow> host_exception + boot_rom" where
  "br_create base sz name =
     (case br_require_range base sz of
        Inl e \<Rightarrow> Inl e
      | Inr r \<Rightarrow> Inr \<lparr>br_range = r, br_name = name, br_bytes = replicate (unat sz) 0,
                      br_sealed = False\<rparr>)"

definition read_only_failure :: "boot_rom \<Rightarrow> u64 \<Rightarrow> u64 \<Rightarrow> access_result" where
  "read_only_failure r off len =
     (let address_value =
        (if off \<le> rng_size (br_range r) then rng_base (br_range r) + off else rng_base (br_range r))
      in ar_failure (make_error ReadOnly address_value len (br_name r)))"

text \<open>\<open>std::copy\<close> of \<open>data\<close> to \<open>bytes.begin() + pos\<close>.\<close>

definition copy_bytes :: "u8 list \<Rightarrow> nat \<Rightarrow> u8 list \<Rightarrow> u8 list" where
  "copy_bytes bs pos data = take pos bs @ data @ drop (pos + length data) bs"

definition br_load :: "boot_rom \<Rightarrow> u64 \<Rightarrow> u8 list \<Rightarrow> boot_rom \<times> access_result" where
  "br_load r off data =
     (if br_sealed r then (r, read_only_failure r off (of_nat (length data)))
      else
        let rom_size = of_nat (length (br_bytes r)) :: u64;
            data_size = of_nat (length data) :: u64 in
        if off > rom_size \<or> data_size > rom_size - off
        then (r, ar_failure (make_error OutOfBounds (rng_base (br_range r)) data_size (br_name r)))
        else (r\<lparr>br_bytes := copy_bytes (br_bytes r) (unat off) data\<rparr>, ar_success 0 False))"

definition br_seal :: "boot_rom \<Rightarrow> boot_rom" where
  "br_seal r = r\<lparr>br_sealed := True\<rparr>"

definition br_validate :: "boot_rom \<Rightarrow> u64 \<Rightarrow> access_width \<Rightarrow> access_result" where
  "br_validate r off w =
     (let len = width_in_bytes w in
      if len = 0 then ar_failure (make_error InvalidWidth (rng_base (br_range r)) 0 (br_name r))
      else let rom_size = of_nat (length (br_bytes r)) :: u64 in
        if off > rom_size \<or> len > rom_size - off
        then ar_failure (make_error OutOfBounds (rng_base (br_range r)) len (br_name r))
        else ar_success 0 False)"

definition br_read ::
    "boot_rom \<Rightarrow> u64 \<Rightarrow> access_width \<Rightarrow> access_type \<Rightarrow> boot_rom \<times> access_result" where
  "br_read r off w t =
     (let validation = br_validate r off w in
      if \<not> ar_ok validation then (r, validation)
      else (r, ar_success (le_read (br_bytes r) (unat off) (unat (width_in_bytes w))) False))"

definition br_write ::
    "boot_rom \<Rightarrow> u64 \<Rightarrow> access_width \<Rightarrow> u64 \<Rightarrow> access_type \<Rightarrow> boot_rom \<times> access_result" where
  "br_write r off w v t = (r, read_only_failure r off (width_in_bytes w))"

definition br_compare_exchange ::
    "boot_rom \<Rightarrow> u64 \<Rightarrow> access_width \<Rightarrow> u64 \<Rightarrow> u64 \<Rightarrow> access_type \<Rightarrow> boot_rom \<times> access_result" where
  "br_compare_exchange r off w expected desired t =
     (r, read_only_failure r off (width_in_bytes w))"

definition br_wf :: "boot_rom \<Rightarrow> bool" where
  "br_wf r \<longleftrightarrow> range_wf (br_range r) \<and> length (br_bytes r) = unat (rng_size (br_range r))"

text \<open>The public operations as events, and their run: every way a program can use the ROM.\<close>

datatype rom_event =
  RomLoad u64 "u8 list"
| RomSeal
| RomRead u64 access_width access_type
| RomWrite u64 access_width u64 access_type
| RomCompareExchange u64 access_width u64 u64 access_type

fun rom_step :: "boot_rom \<Rightarrow> rom_event \<Rightarrow> boot_rom" where
  "rom_step r (RomLoad off data) = fst (br_load r off data)"
| "rom_step r RomSeal = br_seal r"
| "rom_step r (RomRead off w t) = fst (br_read r off w t)"
| "rom_step r (RomWrite off w v t) = fst (br_write r off w v t)"
| "rom_step r (RomCompareExchange off w e n t) = fst (br_compare_exchange r off w e n t)"

definition rom_run :: "boot_rom \<Rightarrow> rom_event list \<Rightarrow> boot_rom" where
  "rom_run r es = foldl rom_step r es"

subsection \<open>Lemmas\<close>

lemma br_create_wf: "br_create base sz name = Inr r \<Longrightarrow> br_wf r \<and> \<not> br_sealed r"
  by (auto simp: br_create_def br_require_range_def br_wf_def range_create_def
      intro: range_create_wf split: option.splits if_splits)

lemma br_size: "br_wf r \<Longrightarrow> unat (of_nat (length (br_bytes r)) :: u64) = length (br_bytes r)"
  by (simp add: br_wf_def)

lemma length_copy_bytes:
  "pos + length data \<le> length bs \<Longrightarrow> length (copy_bytes bs pos data) = length bs"
  by (simp add: copy_bytes_def)

lemma nth_copy_bytes:
  assumes "pos + length data \<le> length bs" "j < length bs"
  shows "copy_bytes bs pos data ! j =
    (if pos \<le> j \<and> j < pos + length data then data ! (j - pos) else bs ! j)"
  using assms by (auto simp: copy_bytes_def nth_append)

lemma read_only_failure_not_ok [simp]: "\<not> ar_ok (read_only_failure r off len)"
  "\<not> ar_exchanged (read_only_failure r off len)"
  by (simp_all add: read_only_failure_def Let_def)

text \<open>Loads are accepted only where the data fits; the host keeps vectors below \<open>2 ^ 64\<close> bytes.\<close>

lemma br_load_accepted:
  assumes "br_wf r" "length data < 2 ^ 64"
  shows "ar_ok (snd (br_load r off data)) \<longleftrightarrow>
     \<not> br_sealed r \<and> unat off + length data \<le> length (br_bytes r)"
proof -
  let ?s = "of_nat (length (br_bytes r)) :: u64"
  have s: "unat ?s = length (br_bytes r)" using assms(1) by (rule br_size)
  have l: "unat (of_nat (length data) :: u64) = length data"
    using assms(2) by (simp add: unat_of_nat take_bit_eq_mod)
  have d: "off \<le> ?s \<Longrightarrow> unat (?s - off) = length (br_bytes r) - unat off"
    by (simp add: unat_sub s)
  show ?thesis
  proof (cases "off \<le> ?s")
    case True
    then have "unat off \<le> length (br_bytes r)" by (simp add: word_le_nat_alt s)
    with True d show ?thesis
      by (auto simp: br_load_def Let_def word_less_nat_alt s l not_less)
  next
    case False
    then have "unat off > length (br_bytes r)" by (simp add: word_le_nat_alt s)
    with False show ?thesis by (auto simp: br_load_def Let_def)
  qed
qed

lemma br_load_bytes:
  "fst (br_load r off data) = (if ar_ok (snd (br_load r off data))
     then r\<lparr>br_bytes := copy_bytes (br_bytes r) (unat off) data\<rparr> else r)"
  by (simp add: br_load_def Let_def)

interpretation rom: address_region br_read br_write br_compare_exchange br_range br_wf
  by unfold_locales
    (auto simp: br_read_def br_write_def br_compare_exchange_def Let_def le_read_take_bit)

lemma rom_step_sealed:
  "br_sealed r \<Longrightarrow> rom_step r e = r"
  by (cases e) (auto simp: br_load_def br_seal_def br_read_def br_write_def
      br_compare_exchange_def Let_def)

subsection \<open>Properties\<close>

text \<open>C16. A sealed boot ROM is immutable: no sequence of loads, seals, reads, writes and
  compare-exchanges changes any part of it.\<close>

theorem sealed_rom_immutable:
  assumes "br_sealed r"
  shows "rom_run r es = r"
  using assms
  by (induction es) (simp_all add: rom_run_def rom_step_sealed)

definition example_rom :: boot_rom where
  "example_rom = \<lparr>br_range = \<lparr>rng_base = 0x1000, rng_size = 8, rng_end_exclusive = 0x1008\<rparr>,
     br_name = ''boot-rom'', br_bytes = replicate 8 0, br_sealed = False\<rparr>"

theorem sealed_rom_immutable_witness:
  "br_sealed (br_seal example_rom)
   \<and> rom_run (br_seal example_rom) [RomLoad 0 [1, 2], RomWrite 0 Byte 7 Store, RomSeal]
      = br_seal example_rom"
proof -
  have "br_sealed (br_seal example_rom)" by (simp add: br_seal_def)
  then show ?thesis using sealed_rom_immutable by blast
qed

text \<open>Loading an image into a well-formed, unsealed boot ROM that has room for it succeeds, and
  every byte of the image can then be read back at its place, while bytes outside the image keep
  their value; reads never disturb the ROM.\<close>

theorem rom_load_read:
  assumes "br_wf r" and "\<not> br_sealed r" and "unat off + length data \<le> length (br_bytes r)"
    and "i < length (br_bytes r)"
  shows "ar_ok (snd (br_load r off data))
    \<and> br_read (fst (br_load r off data)) (of_nat i) Byte t
      = (fst (br_load r off data),
         ar_success (ucast (if unat off \<le> i \<and> i < unat off + length data
                            then data ! (i - unat off) else br_bytes r ! i)) False)"
proof -
  have n: "length (br_bytes r) < 2 ^ 64"
    using assms(1) unat_u64_less [of "rng_size (br_range r)"] by (simp add: br_wf_def)
  then have "length data < 2 ^ 64" using assms(3) by linarith
  then have ok: "ar_ok (snd (br_load r off data))"
    using assms by (simp add: br_load_accepted)
  let ?r = "fst (br_load r off data)"
  have bytes: "br_bytes ?r = copy_bytes (br_bytes r) (unat off) data"
    using ok by (simp add: br_load_bytes)
  have len: "length (br_bytes ?r) = length (br_bytes r)"
    unfolding bytes using assms(3) by (rule length_copy_bytes)
  have i: "unat (of_nat i :: u64) = i"
    using assms(4) n by (simp add: unat_of_nat take_bit_eq_mod)
  have s: "unat (of_nat (length (br_bytes r)) :: u64) = length (br_bytes r)"
    using assms(1) by (rule br_size)
  have lt: "(of_nat i :: u64) < of_nat (length (br_bytes r))"
    using assms(4) by (simp add: word_less_nat_alt i s)
  then have "unat (of_nat (length (br_bytes r)) - (of_nat i :: u64)) = length (br_bytes r) - i"
    using unat_sub [of "of_nat i :: u64"] by (simp add: order_less_imp_le i s)
  then have "1 \<le> of_nat (length (br_bytes r)) - (of_nat i :: u64)"
    using assms(4) by (simp add: word_le_nat_alt)
  with lt have v: "ar_ok (br_validate ?r (of_nat i) Byte)"
    by (auto simp: br_validate_def Let_def len not_less)
  have "le_read (br_bytes ?r) i 1 = ucast (br_bytes ?r ! i)"
    by (simp add: le_read_def)
  with v ok show ?thesis
    by (simp add: br_read_def Let_def i bytes nth_copy_bytes [OF assms(3,4)])
qed

theorem rom_load_read_witness:
  "br_wf example_rom \<and> \<not> br_sealed example_rom
   \<and> snd (br_read (fst (br_load example_rom 2 [0xAB, 0xCD])) 3 Byte Load) = ar_success 0xCD False"
proof -
  have "br_wf example_rom" "\<not> br_sealed example_rom"
    by (simp_all add: example_rom_def br_wf_def range_wf_def)
  moreover from this have "snd (br_read (fst (br_load example_rom 2 [0xAB, 0xCD])) 3 Byte Load)
      = ar_success 0xCD False"
    using rom_load_read [of example_rom 2 "[0xAB, 0xCD]" 3 Load]
    by (simp add: example_rom_def)
  ultimately show ?thesis by blast
qed

end
