(* ===== verification/Trap.thy ===== *)
theory Trap
  imports Emu_Prelude
begin

text \<open>
  Privilege modes, exception and interrupt causes and the trap value object
  (\<open>include/rvemu/core/trap.hpp\<close>), with the numeric encodings the casts of the sources use.
\<close>

datatype privilege_mode = User | Supervisor | Machine

fun privilege_rank :: "privilege_mode \<Rightarrow> u64" where
  "privilege_rank User = 0"
| "privilege_rank Supervisor = 1"
| "privilege_rank Machine = 3"

datatype exception_cause =
  InstructionAddressMisaligned | InstructionAccessFault | IllegalInstruction | Breakpoint
| LoadAddressMisaligned | LoadAccessFault | StoreAddressMisaligned | StoreAccessFault
| EnvironmentCallFromUser | EnvironmentCallFromSupervisor | EnvironmentCallFromMachine
| InstructionPageFault | LoadPageFault | StorePageFault

fun exception_code :: "exception_cause \<Rightarrow> u64" where
  "exception_code InstructionAddressMisaligned = 0"
| "exception_code InstructionAccessFault = 1"
| "exception_code IllegalInstruction = 2"
| "exception_code Breakpoint = 3"
| "exception_code LoadAddressMisaligned = 4"
| "exception_code LoadAccessFault = 5"
| "exception_code StoreAddressMisaligned = 6"
| "exception_code StoreAccessFault = 7"
| "exception_code EnvironmentCallFromUser = 8"
| "exception_code EnvironmentCallFromSupervisor = 9"
| "exception_code EnvironmentCallFromMachine = 11"
| "exception_code InstructionPageFault = 12"
| "exception_code LoadPageFault = 13"
| "exception_code StorePageFault = 15"

datatype interrupt_cause =
  SupervisorSoftware | MachineSoftware | SupervisorTimer | MachineTimer | SupervisorExternal
| MachineExternal

fun interrupt_code :: "interrupt_cause \<Rightarrow> u64" where
  "interrupt_code SupervisorSoftware = 1"
| "interrupt_code MachineSoftware = 3"
| "interrupt_code SupervisorTimer = 5"
| "interrupt_code MachineTimer = 7"
| "interrupt_code SupervisorExternal = 9"
| "interrupt_code MachineExternal = 11"

record trap =
  trap_cause :: exception_cause
  trap_value :: u64
  trap_pc :: u64
  trap_instruction :: u32

lemma exception_code_less: "unat (exception_code c) < 16"
  by (cases c) simp_all

lemma interrupt_code_less: "unat (interrupt_code c) < 12"
  by (cases c) simp_all

lemma interrupt_code_inject [simp]: "interrupt_code c = interrupt_code d \<longleftrightarrow> c = d"
  by (cases c; cases d) simp_all

lemma exception_code_inject [simp]: "exception_code c = exception_code d \<longleftrightarrow> c = d"
  by (cases c; cases d) simp_all

end
