(* ===== verification/Csr.thy ===== *)
theory Csr
  imports Trap
begin

text \<open>
  The control and status registers (\<open>src/core/csr.cpp\<close>, \<open>include/rvemu/core/csr.hpp\<close>): storage,
  WARL masks, access control, interrupt selection, trap entry and return. A CSR address is the
  12-bit field of the instruction kept in \<open>uint16_t\<close>; the enumerators are abbreviations.
\<close>

subsection \<open>Addresses\<close>

type_synonym csr_address = u16

abbreviation (input) Fflags :: csr_address where "Fflags \<equiv> 0x001"
abbreviation (input) Frm :: csr_address where "Frm \<equiv> 0x002"
abbreviation (input) Fcsr :: csr_address where "Fcsr \<equiv> 0x003"
abbreviation (input) Vstart :: csr_address where "Vstart \<equiv> 0x008"
abbreviation (input) Vxsat :: csr_address where "Vxsat \<equiv> 0x009"
abbreviation (input) Vxrm :: csr_address where "Vxrm \<equiv> 0x00A"
abbreviation (input) Vcsr :: csr_address where "Vcsr \<equiv> 0x00F"
abbreviation (input) Sstatus :: csr_address where "Sstatus \<equiv> 0x100"
abbreviation (input) Sie :: csr_address where "Sie \<equiv> 0x104"
abbreviation (input) Stvec :: csr_address where "Stvec \<equiv> 0x105"
abbreviation (input) Scounteren :: csr_address where "Scounteren \<equiv> 0x106"
abbreviation (input) Sscratch :: csr_address where "Sscratch \<equiv> 0x140"
abbreviation (input) Sepc :: csr_address where "Sepc \<equiv> 0x141"
abbreviation (input) Scause :: csr_address where "Scause \<equiv> 0x142"
abbreviation (input) Stval :: csr_address where "Stval \<equiv> 0x143"
abbreviation (input) Sip :: csr_address where "Sip \<equiv> 0x144"
abbreviation (input) Satp :: csr_address where "Satp \<equiv> 0x180"
abbreviation (input) Cycle :: csr_address where "Cycle \<equiv> 0xC00"
abbreviation (input) Time :: csr_address where "Time \<equiv> 0xC01"
abbreviation (input) Instret :: csr_address where "Instret \<equiv> 0xC02"
abbreviation (input) Vl :: csr_address where "Vl \<equiv> 0xC20"
abbreviation (input) Vtype :: csr_address where "Vtype \<equiv> 0xC21"
abbreviation (input) Vlenb :: csr_address where "Vlenb \<equiv> 0xC22"
abbreviation (input) Mstatus :: csr_address where "Mstatus \<equiv> 0x300"
abbreviation (input) Misa :: csr_address where "Misa \<equiv> 0x301"
abbreviation (input) Medeleg :: csr_address where "Medeleg \<equiv> 0x302"
abbreviation (input) Mideleg :: csr_address where "Mideleg \<equiv> 0x303"
abbreviation (input) Mie :: csr_address where "Mie \<equiv> 0x304"
abbreviation (input) Mtvec :: csr_address where "Mtvec \<equiv> 0x305"
abbreviation (input) Mcounteren :: csr_address where "Mcounteren \<equiv> 0x306"
abbreviation (input) Mcountinhibit :: csr_address where "Mcountinhibit \<equiv> 0x320"
abbreviation (input) Mscratch :: csr_address where "Mscratch \<equiv> 0x340"
abbreviation (input) Mepc :: csr_address where "Mepc \<equiv> 0x341"
abbreviation (input) Mcause :: csr_address where "Mcause \<equiv> 0x342"
abbreviation (input) Mtval :: csr_address where "Mtval \<equiv> 0x343"
abbreviation (input) Mip :: csr_address where "Mip \<equiv> 0x344"
abbreviation (input) Mtinst :: csr_address where "Mtinst \<equiv> 0x34A"
abbreviation (input) Mtval2 :: csr_address where "Mtval2 \<equiv> 0x34B"
abbreviation (input) Pmpcfg0 :: csr_address where "Pmpcfg0 \<equiv> 0x3A0"
abbreviation (input) Pmpaddr0 :: csr_address where "Pmpaddr0 \<equiv> 0x3B0"
abbreviation (input) Mcycle :: csr_address where "Mcycle \<equiv> 0xB00"
abbreviation (input) Minstret :: csr_address where "Minstret \<equiv> 0xB02"
abbreviation (input) Mhpmcounter3 :: csr_address where "Mhpmcounter3 \<equiv> 0xB03"
abbreviation (input) Mhpmevent3 :: csr_address where "Mhpmevent3 \<equiv> 0x323"
abbreviation (input) Mvendorid :: csr_address where "Mvendorid \<equiv> 0xF11"
abbreviation (input) Marchid :: csr_address where "Marchid \<equiv> 0xF12"
abbreviation (input) Mimpid :: csr_address where "Mimpid \<equiv> 0xF13"
abbreviation (input) Mhartid :: csr_address where "Mhartid \<equiv> 0xF14"

subsection \<open>State\<close>

record csr_file =
  csr_mstatus :: u64
  csr_fcsr :: u8
  csr_vstart :: u64
  csr_vxsat :: u8
  csr_vxrm :: u8
  csr_vl :: u64
  csr_vtype :: u64
  csr_medeleg :: u64
  csr_mideleg :: u64
  csr_mie :: u64
  csr_mtvec :: u64
  csr_mscratch :: u64
  csr_mepc :: u64
  csr_mcause :: u64
  csr_mtval :: u64
  csr_mip :: u64
  csr_mcounteren :: u64
  csr_mcountinhibit :: u64
  csr_pmpcfg :: "u64 list"
  csr_pmpaddr :: "u64 list"
  csr_mhpmcounter :: "u64 list"
  csr_mhpmevent :: "u64 list"
  csr_stvec :: u64
  csr_sscratch :: u64
  csr_sepc :: u64
  csr_scause :: u64
  csr_stval :: u64
  csr_scounteren :: u64
  csr_satp :: u64
  csr_cycle :: u64
  csr_time :: u64
  csr_instret :: u64

datatype csr_modify_operation = Replace | SetBits | ClearBits

record csr_access_request =
  rq_address :: csr_address
  rq_privilege :: privilege_mode
  rq_read :: bool
  rq_write :: bool
  rq_operation :: csr_modify_operation
  rq_operand :: u64

record csr_access_result =
  cr_success :: bool
  cr_value :: u64

record trap_return_state =
  tr_privilege :: privilege_mode
  tr_pc :: u64

record pending_interrupt =
  pi_cause :: interrupt_cause
  pi_target :: privilege_mode

subsection \<open>Masks\<close>

definition kSstatusWriteMask :: u64 where
  "kSstatusWriteMask = bit64 1 OR bit64 5 OR bit64 8 OR two_bits 9 OR two_bits 13
     OR bit64 18 OR bit64 19"
definition kSstatusReadMask :: u64 where
  "kSstatusReadMask = kSstatusWriteMask OR two_bits 32 OR bit64 63"
definition kMstatusWriteMask :: u64 where
  "kMstatusWriteMask = kSstatusWriteMask OR bit64 3 OR bit64 7 OR two_bits 11 OR bit64 17
     OR bit64 20 OR bit64 21 OR bit64 22"
definition kXlenFields :: u64 where
  "kXlenFields = push_bit 32 2 OR push_bit 34 2"
definition kSupervisorInterruptMask :: u64 where
  "kSupervisorInterruptMask = bit64 1 OR bit64 5 OR bit64 9"
definition kMachineInterruptMask :: u64 where
  "kMachineInterruptMask = bit64 3 OR bit64 7 OR bit64 11"
definition kImplementedInterruptMask :: u64 where
  "kImplementedInterruptMask = kSupervisorInterruptMask OR kMachineInterruptMask"
definition kSoftwareWritablePendingMask :: u64 where
  "kSoftwareWritablePendingMask = bit64 1"
definition kImplementedCounterenMask :: u64 where
  "kImplementedCounterenMask = bit64 0 OR bit64 1 OR bit64 2"
definition kImplementedHpmCounterMask :: u64 where
  "kImplementedHpmCounterMask = 0xFFFFFFF8"
definition kImplementedMcountinhibitMask :: u64 where
  "kImplementedMcountinhibitMask = bit64 0 OR bit64 2 OR kImplementedHpmCounterMask"
definition kDelegatableExceptionMask :: u64 where
  "kDelegatableExceptionMask = bit64 0 OR bit64 1 OR bit64 2 OR bit64 3 OR bit64 4 OR bit64 5
     OR bit64 6 OR bit64 7 OR bit64 8 OR bit64 9 OR bit64 12 OR bit64 13 OR bit64 15"
definition kMisa :: u64 where
  "kMisa = push_bit 62 2 OR bit64 0 OR bit64 2 OR bit64 3 OR bit64 5 OR bit64 8 OR bit64 12
     OR bit64 18 OR bit64 20"
definition kSatpModeMask :: u64 where "kSatpModeMask = push_bit 60 0xF"
definition kSatpSv39ModeField :: u64 where "kSatpSv39ModeField = push_bit 60 8"
definition kEpcAlignmentMask :: u64 where "kEpcAlignmentMask = NOT 1"
definition kVectorVtypeVill :: u64 where "kVectorVtypeVill = bit64 63"
definition kVectorRegisterBytes :: u64 where "kVectorRegisterBytes = 32"
definition kFloatingExceptionMask :: u8 where "kFloatingExceptionMask = 0x1F"

subsection \<open>Address classes\<close>

definition is_floating_csr :: "csr_address \<Rightarrow> bool" where
  "is_floating_csr a \<longleftrightarrow> a = Fflags \<or> a = Frm \<or> a = Fcsr"

definition is_vector_csr :: "csr_address \<Rightarrow> bool" where
  "is_vector_csr a \<longleftrightarrow> a = Vstart \<or> a = Vxsat \<or> a = Vxrm \<or> a = Vcsr \<or> a = Vl \<or> a = Vtype \<or> a = Vlenb"

definition is_rv64_pmpcfg :: "csr_address \<Rightarrow> bool" where
  "is_rv64_pmpcfg a \<longleftrightarrow> a \<ge> Pmpcfg0 \<and> a \<le> 0x3AE \<and> (a - Pmpcfg0) mod 2 = 0"

definition pmpcfg_index :: "csr_address \<Rightarrow> nat" where
  "pmpcfg_index a = unat ((a - Pmpcfg0) div 2)"

definition is_pmpaddr :: "csr_address \<Rightarrow> bool" where
  "is_pmpaddr a \<longleftrightarrow> a \<ge> Pmpaddr0 \<and> a \<le> 0x3EF"

definition pmpaddr_index :: "csr_address \<Rightarrow> nat" where
  "pmpaddr_index a = unat (a - Pmpaddr0)"

definition is_mhpmcounter :: "csr_address \<Rightarrow> bool" where
  "is_mhpmcounter a \<longleftrightarrow> a \<ge> Mhpmcounter3 \<and> a \<le> 0xB1F"

definition mhpmcounter_index :: "csr_address \<Rightarrow> nat" where
  "mhpmcounter_index a = unat (a - Mhpmcounter3)"

definition is_mhpmevent :: "csr_address \<Rightarrow> bool" where
  "is_mhpmevent a \<longleftrightarrow> a \<ge> Mhpmevent3 \<and> a \<le> 0x33F"

definition mhpmevent_index :: "csr_address \<Rightarrow> nat" where
  "mhpmevent_index a = unat (a - Mhpmevent3)"

definition cause_bit :: "u64 \<Rightarrow> u64" where
  "cause_bit cause = (if cause < 64 then bit64 (unat cause) else 0)"

subsection \<open>Operations\<close>

definition csr_reset :: "csr_file \<Rightarrow> csr_file" where
  "csr_reset c = \<lparr>csr_mstatus = kXlenFields, csr_fcsr = 0, csr_vstart = 0, csr_vxsat = 0,
     csr_vxrm = 0, csr_vl = 0, csr_vtype = kVectorVtypeVill, csr_medeleg = 0, csr_mideleg = 0,
     csr_mie = 0, csr_mtvec = 0, csr_mscratch = 0, csr_mepc = 0, csr_mcause = 0, csr_mtval = 0,
     csr_mip = 0, csr_mcounteren = 0, csr_mcountinhibit = 0,
     csr_pmpcfg = map (\<lambda>_. 0) (csr_pmpcfg c), csr_pmpaddr = map (\<lambda>_. 0) (csr_pmpaddr c),
     csr_mhpmcounter = map (\<lambda>_. 0) (csr_mhpmcounter c),
     csr_mhpmevent = map (\<lambda>_. 0) (csr_mhpmevent c),
     csr_stvec = 0, csr_sscratch = 0, csr_sepc = 0, csr_scause = 0, csr_stval = 0,
     csr_scounteren = 0, csr_satp = 0, csr_cycle = 0, csr_time = 0, csr_instret = 0\<rparr>"

text \<open>The constructor: zero-initialised members and arrays of 8, 64, 29 and 29 words, then \<open>reset\<close>.\<close>

definition csr_init :: csr_file where
  "csr_init = csr_reset \<lparr>csr_mstatus = 0, csr_fcsr = 0, csr_vstart = 0, csr_vxsat = 0,
     csr_vxrm = 0, csr_vl = 0, csr_vtype = 0, csr_medeleg = 0, csr_mideleg = 0,
     csr_mie = 0, csr_mtvec = 0, csr_mscratch = 0, csr_mepc = 0, csr_mcause = 0, csr_mtval = 0,
     csr_mip = 0, csr_mcounteren = 0, csr_mcountinhibit = 0,
     csr_pmpcfg = replicate 8 0, csr_pmpaddr = replicate 64 0,
     csr_mhpmcounter = replicate 29 0, csr_mhpmevent = replicate 29 0,
     csr_stvec = 0, csr_sscratch = 0, csr_sepc = 0, csr_scause = 0, csr_stval = 0,
     csr_scounteren = 0, csr_satp = 0, csr_cycle = 0, csr_time = 0, csr_instret = 0\<rparr>"

definition csr_exists :: "csr_address \<Rightarrow> bool" where
  "csr_exists a \<longleftrightarrow>
     (if is_rv64_pmpcfg a \<or> is_pmpaddr a \<or> is_mhpmcounter a \<or> is_mhpmevent a then True
      else a \<in> set [Fflags, Frm, Fcsr, Vstart, Vxsat, Vxrm, Vcsr, Sstatus, Sie, Stvec, Scounteren,
        Sscratch, Sepc, Scause, Stval, Sip, Satp, Cycle, Time, Instret, Vl, Vtype, Vlenb, Mstatus,
        Misa, Medeleg, Mideleg, Mie, Mtvec, Mcounteren, Mcountinhibit, Mscratch, Mepc, Mcause,
        Mtval, Mip, Mtinst, Mtval2, Pmpcfg0, Pmpaddr0, Mcycle, Minstret, Mhpmcounter3, Mhpmevent3,
        Mvendorid, Marchid, Mimpid, Mhartid])"

definition floating_state_enabled :: "csr_file \<Rightarrow> bool" where
  "floating_state_enabled c \<longleftrightarrow> drop_bit 13 (csr_mstatus c) AND 3 \<noteq> 0"

definition csr_floating_rounding_mode :: "csr_file \<Rightarrow> u8" where
  "csr_floating_rounding_mode c = drop_bit 5 (csr_fcsr c) AND 7"

definition floating_exception_flags :: "csr_file \<Rightarrow> u8" where
  "floating_exception_flags c = csr_fcsr c AND kFloatingExceptionMask"

definition mark_floating_state_dirty :: "csr_file \<Rightarrow> csr_file" where
  "mark_floating_state_dirty c =
     (if \<not> floating_state_enabled c then c
      else c\<lparr>csr_mstatus := (csr_mstatus c AND NOT (two_bits 13)) OR two_bits 13\<rparr>)"

definition normalize_floating_exception_flags :: "u8 \<Rightarrow> u8" where
  "normalize_floating_exception_flags flags = flags AND kFloatingExceptionMask"

definition accrue_floating_exception_flags :: "csr_file \<Rightarrow> u8 \<Rightarrow> csr_file" where
  "accrue_floating_exception_flags c flags =
     (let normalized = normalize_floating_exception_flags flags in
      if \<not> floating_state_enabled c \<or> normalized = 0 then c
      else mark_floating_state_dirty (c\<lparr>csr_fcsr := csr_fcsr c OR normalized\<rparr>))"

definition vector_state_enabled :: "csr_file \<Rightarrow> bool" where
  "vector_state_enabled c \<longleftrightarrow> drop_bit 9 (csr_mstatus c) AND 3 \<noteq> 0"

definition mark_vector_state_dirty :: "csr_file \<Rightarrow> csr_file" where
  "mark_vector_state_dirty c =
     (if \<not> vector_state_enabled c then c
      else c\<lparr>csr_mstatus := (csr_mstatus c AND NOT (two_bits 9)) OR two_bits 9\<rparr>)"

definition vector_start :: "csr_file \<Rightarrow> u64" where
  "vector_start c = csr_vstart c"

definition vector_rounding_mode :: "csr_file \<Rightarrow> u8" where
  "vector_rounding_mode c = csr_vxrm c"

definition vector_saturation :: "csr_file \<Rightarrow> bool" where
  "vector_saturation c \<longleftrightarrow> csr_vxsat c \<noteq> 0"

definition set_vector_start_for_trap :: "csr_file \<Rightarrow> u64 \<Rightarrow> csr_file" where
  "set_vector_start_for_trap c element_index =
     mark_vector_state_dirty (c\<lparr>csr_vstart := element_index AND 0xFF\<rparr>)"

definition clear_vector_start_after_instruction :: "csr_file \<Rightarrow> csr_file" where
  "clear_vector_start_after_instruction c = mark_vector_state_dirty (c\<lparr>csr_vstart := 0\<rparr>)"

definition accrue_vector_saturation :: "csr_file \<Rightarrow> bool \<Rightarrow> csr_file" where
  "accrue_vector_saturation c saturated =
     (if \<not> saturated then c else mark_vector_state_dirty (c\<lparr>csr_vxsat := 1\<rparr>))"

definition commit_vector_configuration :: "csr_file \<Rightarrow> u64 \<Rightarrow> u64 \<Rightarrow> csr_file" where
  "commit_vector_configuration c vtype vl =
     mark_vector_state_dirty (c\<lparr>csr_vtype := vtype, csr_vl := vl, csr_vstart := 0\<rparr>)"

definition csr_access_allowed :: "csr_file \<Rightarrow> csr_address \<Rightarrow> privilege_mode \<Rightarrow> bool \<Rightarrow> bool" where
  "csr_access_allowed c a p w =
     (if \<not> csr_exists a then False
      else if is_floating_csr a \<and> \<not> floating_state_enabled c then False
      else if is_vector_csr a \<and> \<not> vector_state_enabled c then False
      else
        let required = ucast (drop_bit 8 a AND 3) :: u64 in
        if required = 2 \<or> privilege_rank p < required then False
        else if w \<and> a AND 0x0C00 = 0x0C00 then False
        else if (a = Cycle \<or> a = Time \<or> a = Instret)
              \<and> (let counter_mask = bit64 (unat (a AND 0x1F)) in
                 (p = Supervisor \<and> csr_mcounteren c AND counter_mask = 0)
                 \<or> (p = User \<and> (csr_mcounteren c AND counter_mask = 0
                                  \<or> csr_scounteren c AND counter_mask = 0))) then False
        else if a = Satp \<and> p = Supervisor \<and> csr_mstatus c AND bit64 20 \<noteq> 0 then False
        else True)"

text \<open>\<open>read_value(Mstatus)\<close>: the stored fields with UXL/SXL forced and SD computed from FS and VS.\<close>

definition mstatus_read_value :: "csr_file \<Rightarrow> u64" where
  "mstatus_read_value c =
     (let v = (csr_mstatus c AND NOT (bit64 63)) OR kXlenFields;
          fs = drop_bit 13 v AND 3;
          vs = drop_bit 9 v AND 3 in
      if fs = 3 \<or> vs = 3 then v OR bit64 63 else v)"

definition csr_read_value :: "csr_file \<Rightarrow> csr_address \<Rightarrow> u64" where
  "csr_read_value c a =
     (if is_rv64_pmpcfg a then csr_pmpcfg c ! pmpcfg_index a
      else if is_pmpaddr a then csr_pmpaddr c ! pmpaddr_index a
      else if is_mhpmcounter a then csr_mhpmcounter c ! mhpmcounter_index a
      else if is_mhpmevent a then csr_mhpmevent c ! mhpmevent_index a
      else if a = Fflags then ucast (floating_exception_flags c)
      else if a = Frm then ucast (csr_floating_rounding_mode c)
      else if a = Fcsr then ucast (csr_fcsr c)
      else if a = Vstart then csr_vstart c
      else if a = Vxsat then ucast (csr_vxsat c)
      else if a = Vxrm then ucast (csr_vxrm c)
      else if a = Vcsr then push_bit 1 (ucast (csr_vxrm c)) OR ucast (csr_vxsat c)
      else if a = Sstatus then mstatus_read_value c AND kSstatusReadMask
      else if a = Sie then csr_mie c AND csr_mideleg c AND kSupervisorInterruptMask
      else if a = Stvec then csr_stvec c
      else if a = Scounteren then csr_scounteren c
      else if a = Sscratch then csr_sscratch c
      else if a = Sepc then csr_sepc c
      else if a = Scause then csr_scause c
      else if a = Stval then csr_stval c
      else if a = Sip then csr_mip c AND csr_mideleg c AND kSupervisorInterruptMask
      else if a = Satp then csr_satp c
      else if a = Cycle \<or> a = Mcycle then csr_cycle c
      else if a = Time then csr_time c
      else if a = Instret \<or> a = Minstret then csr_instret c
      else if a = Vl then csr_vl c
      else if a = Vtype then csr_vtype c
      else if a = Vlenb then kVectorRegisterBytes
      else if a = Mstatus then mstatus_read_value c
      else if a = Misa then kMisa
      else if a = Medeleg then csr_medeleg c
      else if a = Mideleg then csr_mideleg c
      else if a = Mie then csr_mie c
      else if a = Mtvec then csr_mtvec c
      else if a = Mcounteren then csr_mcounteren c
      else if a = Mcountinhibit then csr_mcountinhibit c
      else if a = Mscratch then csr_mscratch c
      else if a = Mepc then csr_mepc c
      else if a = Mcause then csr_mcause c
      else if a = Mtval then csr_mtval c
      else if a = Mip then csr_mip c
      else 0)"

definition tvec_warl :: "u64 \<Rightarrow> u64" where
  "tvec_warl v = (let mode = (if v AND 3 \<le> 1 then v AND 3 else 0) in (v AND NOT 3) OR mode)"

definition mstatus_warl :: "u64 \<Rightarrow> u64 \<Rightarrow> u64" where
  "mstatus_warl old v =
     (let desired = (old AND NOT kMstatusWriteMask) OR (v AND kMstatusWriteMask);
          mpp = drop_bit 11 desired AND 3;
          desired = (if mpp = 2 then (desired AND NOT (two_bits 11)) OR two_bits 11 else desired)
      in desired OR kXlenFields)"

definition csr_write_value :: "csr_file \<Rightarrow> csr_address \<Rightarrow> u64 \<Rightarrow> csr_file" where
  "csr_write_value c a v =
     (if is_rv64_pmpcfg a then c\<lparr>csr_pmpcfg := (csr_pmpcfg c)[pmpcfg_index a := v]\<rparr>
      else if is_pmpaddr a then c\<lparr>csr_pmpaddr := (csr_pmpaddr c)[pmpaddr_index a := v]\<rparr>
      else if is_mhpmcounter a
        then c\<lparr>csr_mhpmcounter := (csr_mhpmcounter c)[mhpmcounter_index a := v]\<rparr>
      else if is_mhpmevent a then c\<lparr>csr_mhpmevent := (csr_mhpmevent c)[mhpmevent_index a := v]\<rparr>
      else if a = Fflags then mark_floating_state_dirty
        (c\<lparr>csr_fcsr := (csr_fcsr c AND 0xE0) OR (ucast v AND kFloatingExceptionMask)\<rparr>)
      else if a = Frm then mark_floating_state_dirty
        (c\<lparr>csr_fcsr := (csr_fcsr c AND kFloatingExceptionMask) OR ucast (push_bit 5 (v AND 7))\<rparr>)
      else if a = Fcsr then mark_floating_state_dirty (c\<lparr>csr_fcsr := ucast (v AND 0xFF)\<rparr>)
      else if a = Vstart then mark_vector_state_dirty (c\<lparr>csr_vstart := v AND 0xFF\<rparr>)
      else if a = Vxsat then mark_vector_state_dirty (c\<lparr>csr_vxsat := ucast (v AND 1)\<rparr>)
      else if a = Vxrm then mark_vector_state_dirty (c\<lparr>csr_vxrm := ucast (v AND 3)\<rparr>)
      else if a = Vcsr then mark_vector_state_dirty
        (c\<lparr>csr_vxsat := ucast (v AND 1), csr_vxrm := ucast (drop_bit 1 v AND 3)\<rparr>)
      else if a = Sstatus then
        c\<lparr>csr_mstatus := (csr_mstatus c AND NOT kSstatusWriteMask) OR (v AND kSstatusWriteMask)\<rparr>
      else if a = Sie then
        (let m = csr_mideleg c AND kSupervisorInterruptMask in
         c\<lparr>csr_mie := (csr_mie c AND NOT m) OR (v AND m)\<rparr>)
      else if a = Stvec then c\<lparr>csr_stvec := tvec_warl v\<rparr>
      else if a = Scounteren then c\<lparr>csr_scounteren := v AND 7\<rparr>
      else if a = Sscratch then c\<lparr>csr_sscratch := v\<rparr>
      else if a = Sepc then c\<lparr>csr_sepc := v AND kEpcAlignmentMask\<rparr>
      else if a = Scause then c\<lparr>csr_scause := v\<rparr>
      else if a = Stval then c\<lparr>csr_stval := v\<rparr>
      else if a = Sip then
        (let m = csr_mideleg c AND kSoftwareWritablePendingMask in
         c\<lparr>csr_mip := (csr_mip c AND NOT m) OR (v AND m)\<rparr>)
      else if a = Satp then
        (let mode = v AND kSatpModeMask in
         if mode = 0 \<or> mode = kSatpSv39ModeField then c\<lparr>csr_satp := v\<rparr> else c)
      else if a = Mstatus then c\<lparr>csr_mstatus := mstatus_warl (csr_mstatus c) v\<rparr>
      else if a = Medeleg then c\<lparr>csr_medeleg := v AND kDelegatableExceptionMask\<rparr>
      else if a = Mideleg then c\<lparr>csr_mideleg := v AND kSupervisorInterruptMask\<rparr>
      else if a = Mie then c\<lparr>csr_mie := v AND kImplementedInterruptMask\<rparr>
      else if a = Mtvec then c\<lparr>csr_mtvec := tvec_warl v\<rparr>
      else if a = Mcounteren then
        c\<lparr>csr_mcounteren := v AND (kImplementedCounterenMask OR kImplementedHpmCounterMask)\<rparr>
      else if a = Mcountinhibit then
        c\<lparr>csr_mcountinhibit := v AND kImplementedMcountinhibitMask\<rparr>
      else if a = Mscratch then c\<lparr>csr_mscratch := v\<rparr>
      else if a = Mepc then c\<lparr>csr_mepc := v AND kEpcAlignmentMask\<rparr>
      else if a = Mcause then c\<lparr>csr_mcause := v\<rparr>
      else if a = Mtval then c\<lparr>csr_mtval := v\<rparr>
      else if a = Mip then
        c\<lparr>csr_mip := (csr_mip c AND NOT kSoftwareWritablePendingMask)
                        OR (v AND kSoftwareWritablePendingMask)\<rparr>
      else if a = Mcycle then c\<lparr>csr_cycle := v\<rparr>
      else if a = Minstret then c\<lparr>csr_instret := v\<rparr>
      else c)"

definition csr_access ::
    "csr_file \<Rightarrow> csr_access_request \<Rightarrow> csr_file \<times> csr_access_result" where
  "csr_access c rq =
     (if \<not> csr_access_allowed c (rq_address rq) (rq_privilege rq) (rq_write rq)
      then (c, \<lparr>cr_success = False, cr_value = 0\<rparr>)
      else
        let operation_needs_old_value = (rq_operation rq \<noteq> Replace);
            previous = (if rq_read rq \<or> (rq_write rq \<and> operation_needs_old_value)
                        then csr_read_value c (rq_address rq) else 0);
            desired = (case rq_operation rq of
                Replace \<Rightarrow> rq_operand rq
              | SetBits \<Rightarrow> previous OR rq_operand rq
              | ClearBits \<Rightarrow> previous AND NOT (rq_operand rq));
            c' = (if rq_write rq then csr_write_value c (rq_address rq) desired else c)
        in (c', \<lparr>cr_success = True, cr_value = (if rq_read rq then previous else 0)\<rparr>))"

definition csr_peek :: "csr_file \<Rightarrow> csr_address \<Rightarrow> u64" where
  "csr_peek c a = (if csr_exists a then csr_read_value c a else 0)"

definition set_interrupt_pending :: "csr_file \<Rightarrow> interrupt_cause \<Rightarrow> bool \<Rightarrow> csr_file" where
  "set_interrupt_pending c cause pending =
     (let m = cause_bit (interrupt_code cause) AND kImplementedInterruptMask in
      if pending then c\<lparr>csr_mip := csr_mip c OR m\<rparr>
      else c\<lparr>csr_mip := csr_mip c AND NOT m\<rparr>)"

definition set_time :: "csr_file \<Rightarrow> u64 \<Rightarrow> csr_file" where
  "set_time c v = c\<lparr>csr_time := v\<rparr>"

definition increment_cycle :: "csr_file \<Rightarrow> csr_file" where
  "increment_cycle c =
     (if csr_mcountinhibit c AND 1 = 0 then c\<lparr>csr_cycle := csr_cycle c + 1\<rparr> else c)"

definition increment_instret :: "csr_file \<Rightarrow> csr_file" where
  "increment_instret c =
     (if csr_mcountinhibit c AND 4 = 0 then c\<lparr>csr_instret := csr_instret c + 1\<rparr> else c)"

definition has_locally_enabled_interrupt :: "csr_file \<Rightarrow> bool" where
  "has_locally_enabled_interrupt c \<longleftrightarrow>
     csr_mip c AND csr_mie c AND kImplementedInterruptMask \<noteq> 0"

definition interrupt_priority :: "interrupt_cause list" where
  "interrupt_priority = [MachineExternal, MachineSoftware, MachineTimer,
     SupervisorExternal, SupervisorSoftware, SupervisorTimer]"

text \<open>The body of the selection loop: one cause in priority order, then the rest.\<close>

fun select_pending_loop ::
    "csr_file \<Rightarrow> privilege_mode \<Rightarrow> interrupt_cause list \<Rightarrow> pending_interrupt option" where
  "select_pending_loop c p [] = None"
| "select_pending_loop c p (cause # rest) =
     (let candidates = csr_mip c AND csr_mie c AND kImplementedInterruptMask;
          m = cause_bit (interrupt_code cause) in
      if candidates AND m = 0 then select_pending_loop c p rest
      else if csr_mideleg c AND m \<noteq> 0 then
        (if p = Machine then select_pending_loop c p rest
         else if p = User \<or> csr_mstatus c AND bit64 1 \<noteq> 0
           then Some \<lparr>pi_cause = cause, pi_target = Supervisor\<rparr>
         else select_pending_loop c p rest)
      else if p \<noteq> Machine \<or> csr_mstatus c AND bit64 3 \<noteq> 0
        then Some \<lparr>pi_cause = cause, pi_target = Machine\<rparr>
      else select_pending_loop c p rest)"

definition select_pending_interrupt ::
    "csr_file \<Rightarrow> privilege_mode \<Rightarrow> pending_interrupt option" where
  "select_pending_interrupt c p = select_pending_loop c p interrupt_priority"

definition enter_machine_trap ::
    "csr_file \<Rightarrow> privilege_mode \<Rightarrow> u64 \<Rightarrow> u64 \<Rightarrow> u64 \<Rightarrow> csr_file" where
  "enter_machine_trap c previous pc cause tval =
     (let ms = csr_mstatus c;
          mie = (ms AND bit64 3 \<noteq> 0);
          ms = (if mie then ms OR bit64 7 else ms AND NOT (bit64 7));
          ms = ms AND NOT (bit64 3);
          ms = (ms AND NOT (two_bits 11)) OR push_bit 11 (privilege_rank previous)
      in c\<lparr>csr_mstatus := ms, csr_mepc := pc AND kEpcAlignmentMask,
           csr_mcause := cause, csr_mtval := tval\<rparr>)"

definition enter_supervisor_trap ::
    "csr_file \<Rightarrow> privilege_mode \<Rightarrow> u64 \<Rightarrow> u64 \<Rightarrow> u64 \<Rightarrow> csr_file" where
  "enter_supervisor_trap c previous pc cause tval =
     (let ms = csr_mstatus c;
          sie = (ms AND bit64 1 \<noteq> 0);
          ms = (if sie then ms OR bit64 5 else ms AND NOT (bit64 5));
          ms = ms AND NOT (bit64 1);
          ms = (if previous = User then ms AND NOT (bit64 8) else ms OR bit64 8)
      in c\<lparr>csr_mstatus := ms, csr_sepc := pc AND kEpcAlignmentMask,
           csr_scause := cause, csr_stval := tval\<rparr>)"

definition return_from_machine :: "csr_file \<Rightarrow> csr_file \<times> trap_return_state" where
  "return_from_machine c =
     (let ms = csr_mstatus c;
          encoded = drop_bit 11 ms AND 3;
          target = (if encoded = 0 then User else if encoded = 1 then Supervisor else Machine);
          mpie = (ms AND bit64 7 \<noteq> 0);
          ms = (if mpie then ms OR bit64 3 else ms AND NOT (bit64 3));
          ms = ms OR bit64 7;
          ms = ms AND NOT (two_bits 11);
          ms = (if target \<noteq> Machine then ms AND NOT (bit64 17) else ms)
      in (c\<lparr>csr_mstatus := ms\<rparr>, \<lparr>tr_privilege = target, tr_pc = csr_mepc c\<rparr>))"

definition return_from_supervisor :: "csr_file \<Rightarrow> csr_file \<times> trap_return_state" where
  "return_from_supervisor c =
     (let ms = csr_mstatus c;
          target = (if ms AND bit64 8 \<noteq> 0 then Supervisor else User);
          spie = (ms AND bit64 5 \<noteq> 0);
          ms = (if spie then ms OR bit64 1 else ms AND NOT (bit64 1));
          ms = ms OR bit64 5;
          ms = ms AND NOT (bit64 8);
          ms = ms AND NOT (bit64 17)
      in (c\<lparr>csr_mstatus := ms\<rparr>, \<lparr>tr_privilege = target, tr_pc = csr_sepc c\<rparr>))"

definition trap_vector :: "csr_file \<Rightarrow> privilege_mode \<Rightarrow> bool \<Rightarrow> u64 \<Rightarrow> u64" where
  "trap_vector c target interrupt cause =
     (let vec = (if target = Machine then csr_mtvec c else csr_stvec c);
          base = vec AND NOT 3;
          mode = vec AND 3
      in if interrupt \<and> mode = 1 then base + 4 * cause else base)"

definition exception_delegated :: "csr_file \<Rightarrow> privilege_mode \<Rightarrow> exception_cause \<Rightarrow> bool" where
  "exception_delegated c source cause =
     (if source = Machine then False
      else csr_medeleg c AND cause_bit (exception_code cause) \<noteq> 0)"

definition supervisor_return_allowed :: "csr_file \<Rightarrow> privilege_mode \<Rightarrow> bool" where
  "supervisor_return_allowed c current =
     (if privilege_rank current < privilege_rank Supervisor then False
      else current \<noteq> Supervisor \<or> csr_mstatus c AND bit64 22 = 0)"

definition wait_for_interrupt_allowed :: "csr_file \<Rightarrow> privilege_mode \<Rightarrow> bool" where
  "wait_for_interrupt_allowed c current =
     (if current = User then False
      else current = Machine \<or> csr_mstatus c AND bit64 21 = 0)"

end
