(* ===== verification/Csr_Correct.thy ===== *)
theory Csr_Correct
  imports Csr
begin

text \<open>
  Correctness of the CSR file modelled in theory Csr: the invariant \<^verbatim>\<open>csr_wf\<close> of all WARL fields and
  its preservation by every operation, exactness of interrupt selection, the trap entry / return round
  trips, and the confinement of accesses made below machine mode.
\<close>

section \<open>The bits of the masks\<close>

lemma bit_kSstatusWriteMask [emu_bits]:
  "bit kSstatusWriteMask n \<longleftrightarrow> n \<in> {1, 5, 8, 9, 10, 13, 14, 18, 19}"
  unfolding kSstatusWriteMask_def bit_or_iff bit_bit64 bit_two_bits by auto

lemma bit_kMstatusWriteMask [emu_bits]:
  "bit kMstatusWriteMask n \<longleftrightarrow>
     n \<in> {1, 3, 5, 7, 8, 9, 10, 11, 12, 13, 14, 17, 18, 19, 20, 21, 22}"
  unfolding kMstatusWriteMask_def bit_or_iff bit_bit64 bit_two_bits bit_kSstatusWriteMask by auto

lemma bit_kXlenFields [emu_bits]: "bit kXlenFields n \<longleftrightarrow> n = 33 \<or> n = 35"
  unfolding kXlenFields_def bit_or_iff bit_push_2 by auto

lemma bit_kSupervisorInterruptMask [emu_bits]:
  "bit kSupervisorInterruptMask n \<longleftrightarrow> n \<in> {1, 5, 9}"
  by (auto simp: kSupervisorInterruptMask_def bit_simps)

lemma bit_kImplementedInterruptMask [emu_bits]:
  "bit kImplementedInterruptMask n \<longleftrightarrow> n \<in> {1, 3, 5, 7, 9, 11}"
  by (auto simp: kImplementedInterruptMask_def kMachineInterruptMask_def bit_simps emu_bits)

lemma bit_kSoftwareWritablePendingMask [emu_bits]:
  "bit kSoftwareWritablePendingMask n \<longleftrightarrow> n = 1"
  by (auto simp: kSoftwareWritablePendingMask_def)

lemma bit_kEpcAlignmentMask [emu_bits]: "bit kEpcAlignmentMask n \<longleftrightarrow> n < 64 \<and> n \<noteq> 0"
  by (auto simp: kEpcAlignmentMask_def bit_simps emu_bits)

section \<open>The invariant of the CSR file\<close>

definition csr_wf :: "csr_file \<Rightarrow> bool" where
  "csr_wf c \<longleftrightarrow>
     bits_within (csr_mstatus c) (kMstatusWriteMask OR kXlenFields)
   \<and> csr_mstatus c AND kXlenFields = kXlenFields
   \<and> drop_bit 11 (csr_mstatus c) AND 3 \<noteq> 2
   \<and> bits_within (csr_medeleg c) kDelegatableExceptionMask
   \<and> bits_within (csr_mideleg c) kSupervisorInterruptMask
   \<and> bits_within (csr_mie c) kImplementedInterruptMask
   \<and> bits_within (csr_mip c) kImplementedInterruptMask
   \<and> \<not> bit (csr_mtvec c) 1 \<and> \<not> bit (csr_stvec c) 1
   \<and> \<not> bit (csr_mepc c) 0 \<and> \<not> bit (csr_sepc c) 0
   \<and> (csr_satp c AND kSatpModeMask = 0 \<or> csr_satp c AND kSatpModeMask = kSatpSv39ModeField)
   \<and> bits_within (csr_mcounteren c) (kImplementedCounterenMask OR kImplementedHpmCounterMask)
   \<and> bits_within (csr_mcountinhibit c) kImplementedMcountinhibitMask
   \<and> bits_within (csr_scounteren c) 7
   \<and> bits_within (csr_vstart c) 0xFF \<and> csr_vxsat c \<le> 1 \<and> csr_vxrm c \<le> 3
   \<and> length (csr_pmpcfg c) = 8 \<and> length (csr_pmpaddr c) = 64
   \<and> length (csr_mhpmcounter c) = 29 \<and> length (csr_mhpmevent c) = 29"

definition mstatus_wf :: "u64 \<Rightarrow> bool" where
  "mstatus_wf ms \<longleftrightarrow>
     bits_within ms (kMstatusWriteMask OR kXlenFields) \<and> ms AND kXlenFields = kXlenFields
     \<and> drop_bit 11 ms AND 3 \<noteq> 2"

lemma xlen_fields_iff: "ms AND kXlenFields = kXlenFields \<longleftrightarrow> bit ms 33 \<and> bit ms 35"
proof
  assume "ms AND kXlenFields = kXlenFields"
  then have "bit (ms AND kXlenFields) n = bit kXlenFields n" for n by simp
  from this [of 33] this [of 35] show "bit ms 33 \<and> bit ms 35" by (simp add: bit_simps emu_bits)
next
  assume "bit ms 33 \<and> bit ms 35"
  then show "ms AND kXlenFields = kXlenFields"
    by (intro bit_word_eqI) (auto simp: bit_simps emu_bits)
qed

lemma mstatus_wf_bits:
  "mstatus_wf ms \<longleftrightarrow> bits_within ms (kMstatusWriteMask OR kXlenFields)
     \<and> bit ms 33 \<and> bit ms 35 \<and> (bit ms 12 \<longrightarrow> bit ms 11)"
  by (auto simp: mstatus_wf_def xlen_fields_iff emu_bits)

lemma mstatus_mask_parts:
  "k \<in> {1, 3, 5, 7, 8} \<Longrightarrow> bits_within (bit64 k) (kMstatusWriteMask OR kXlenFields)"
  "k \<in> {9, 11, 13} \<Longrightarrow> bits_within (two_bits k) (kMstatusWriteMask OR kXlenFields)"
  "bits_within kSstatusWriteMask (kMstatusWriteMask OR kXlenFields)"
  "bits_within (w AND kMstatusWriteMask) (kMstatusWriteMask OR kXlenFields)"
  "bits_within kXlenFields (kMstatusWriteMask OR kXlenFields)"
  by (auto simp: bits_within_iff bit_or_iff bit_and_iff emu_bits)

lemmas mstatus_within = mstatus_mask_parts bits_within_merge bits_within_or bits_within_and_left(1)

lemma mark_dirty_fields [simp]:
  "csr_fcsr (mark_floating_state_dirty c) = csr_fcsr c"
  "csr_mideleg (mark_floating_state_dirty c) = csr_mideleg c" "csr_mideleg (mark_vector_state_dirty c) = csr_mideleg c"
  "csr_medeleg (mark_floating_state_dirty c) = csr_medeleg c" "csr_medeleg (mark_vector_state_dirty c) = csr_medeleg c"
  "csr_mie (mark_floating_state_dirty c) = csr_mie c" "csr_mie (mark_vector_state_dirty c) = csr_mie c"
  "csr_mip (mark_floating_state_dirty c) = csr_mip c" "csr_mip (mark_vector_state_dirty c) = csr_mip c"
  "csr_mtvec (mark_floating_state_dirty c) = csr_mtvec c" "csr_mtvec (mark_vector_state_dirty c) = csr_mtvec c"
  "csr_mscratch (mark_floating_state_dirty c) = csr_mscratch c" "csr_mscratch (mark_vector_state_dirty c) = csr_mscratch c"
  "csr_mepc (mark_floating_state_dirty c) = csr_mepc c" "csr_mepc (mark_vector_state_dirty c) = csr_mepc c"
  "csr_mcause (mark_floating_state_dirty c) = csr_mcause c" "csr_mcause (mark_vector_state_dirty c) = csr_mcause c"
  "csr_mtval (mark_floating_state_dirty c) = csr_mtval c" "csr_mtval (mark_vector_state_dirty c) = csr_mtval c"
  "csr_mcounteren (mark_floating_state_dirty c) = csr_mcounteren c" "csr_mcounteren (mark_vector_state_dirty c) = csr_mcounteren c"
  "csr_mcountinhibit (mark_floating_state_dirty c) = csr_mcountinhibit c" "csr_mcountinhibit (mark_vector_state_dirty c) = csr_mcountinhibit c"
  "csr_pmpcfg (mark_floating_state_dirty c) = csr_pmpcfg c" "csr_pmpcfg (mark_vector_state_dirty c) = csr_pmpcfg c"
  "csr_pmpaddr (mark_floating_state_dirty c) = csr_pmpaddr c" "csr_pmpaddr (mark_vector_state_dirty c) = csr_pmpaddr c"
  "csr_cycle (mark_floating_state_dirty c) = csr_cycle c" "csr_cycle (mark_vector_state_dirty c) = csr_cycle c"
  "csr_time (mark_floating_state_dirty c) = csr_time c" "csr_time (mark_vector_state_dirty c) = csr_time c"
  "csr_instret (mark_floating_state_dirty c) = csr_instret c" "csr_instret (mark_vector_state_dirty c) = csr_instret c"
  "csr_satp (mark_floating_state_dirty c) = csr_satp c" "csr_satp (mark_vector_state_dirty c) = csr_satp c"
  "csr_mhpmcounter (mark_floating_state_dirty c) = csr_mhpmcounter c" "csr_mhpmcounter (mark_vector_state_dirty c) = csr_mhpmcounter c"
  "csr_mhpmevent (mark_floating_state_dirty c) = csr_mhpmevent c" "csr_mhpmevent (mark_vector_state_dirty c) = csr_mhpmevent c"
  by (simp_all add: mark_floating_state_dirty_def mark_vector_state_dirty_def)

lemma mstatus_wf_dirty [emu_wf]:
  "mstatus_wf ms \<Longrightarrow> k \<in> {9, 13} \<Longrightarrow> mstatus_wf ((ms AND NOT (two_bits k)) OR two_bits k)"
  by (auto simp: mstatus_wf_bits bit_simps intro!: mstatus_within)

lemma mstatus_wf_sstatus [emu_wf]:
  "mstatus_wf ms \<Longrightarrow> mstatus_wf ((ms AND NOT kSstatusWriteMask) OR (v AND kSstatusWriteMask))"
  by (auto simp: mstatus_wf_bits bit_simps emu_bits intro!: bits_within_merge mstatus_mask_parts)

lemma mstatus_warl_wf [emu_wf]:
  assumes "mstatus_wf ms" shows "mstatus_wf (mstatus_warl ms v)"
proof -
  define d where "d = (ms AND NOT kMstatusWriteMask) OR (v AND kMstatusWriteMask)"
  define e where "e = (if drop_bit 11 d AND 3 = 2 then (d AND NOT (two_bits 11)) OR two_bits 11 else d)"
  have r: "mstatus_warl ms v = e OR kXlenFields"
    by (simp add: mstatus_warl_def Let_def d_def e_def)
  have d: "bits_within d (kMstatusWriteMask OR kXlenFields)"
    using assms unfolding d_def mstatus_wf_bits by (auto intro!: mstatus_within)
  then have "bits_within e (kMstatusWriteMask OR kXlenFields)"
    unfolding e_def by (auto intro!: mstatus_within)
  moreover have "bit e 12 \<longrightarrow> bit e 11"
    unfolding e_def by (auto simp: bit_simps emu_bits)
  ultimately show ?thesis
    unfolding r by (auto simp: mstatus_wf_bits bit_or_iff emu_bits intro!: mstatus_within)
qed

lemma mstatus_wf_kXlen: "mstatus_wf kXlenFields"
  by (auto simp: mstatus_wf_bits bit_kXlenFields intro: mstatus_within)

lemma csr_wf_mstatus: "csr_wf c \<Longrightarrow> mstatus_wf ms \<Longrightarrow> csr_wf (c\<lparr>csr_mstatus := ms\<rparr>)"
  by (simp add: csr_wf_def mstatus_wf_def)

lemma csr_wf_imp_mstatus_wf: "csr_wf c \<Longrightarrow> mstatus_wf (csr_mstatus c)"
  by (simp add: csr_wf_def mstatus_wf_def)

lemma csr_wf_mark_floating [emu_wf]: "csr_wf c \<Longrightarrow> csr_wf (mark_floating_state_dirty c)"
  by (simp add: mark_floating_state_dirty_def csr_wf_mstatus csr_wf_imp_mstatus_wf emu_wf)

lemma csr_wf_mark_vector [emu_wf]: "csr_wf c \<Longrightarrow> csr_wf (mark_vector_state_dirty c)"
  by (simp add: mark_vector_state_dirty_def csr_wf_mstatus csr_wf_imp_mstatus_wf emu_wf)

lemma sup_within_impl: "bits_within kSupervisorInterruptMask kImplementedInterruptMask"
  "bits_within kSoftwareWritablePendingMask kImplementedInterruptMask"
  by (auto simp: bits_within_iff emu_bits)

lemma bit_tvec_warl: "\<not> bit (tvec_warl v) 1"
proof (cases "v AND 3 \<le> 1")
  case True
  then have "\<not> bit v 1" by (cases "bit v 0") (auto simp: and_3_eq word_le_nat_alt)
  then show ?thesis by (simp add: tvec_warl_def Let_def bit_simps emu_bits)
next
  case False
  then show ?thesis by (simp add: tvec_warl_def Let_def bit_simps emu_bits)
qed

lemma ucast_and_le: "(ucast ((v :: u64) AND 1) :: u8) \<le> 1" "(ucast ((v :: u64) AND 3) :: u8) \<le> 3"
  by (simp_all add: and_3_eq and_one_eq mod_2_eq_odd)

lemma csr_wf_upd:
  assumes "csr_wf c"
  shows "csr_wf (c\<lparr>csr_fcsr := x8\<rparr>)" "csr_wf (c\<lparr>csr_vl := x\<rparr>)" "csr_wf (c\<lparr>csr_vtype := x\<rparr>)"
    "csr_wf (c\<lparr>csr_mscratch := x\<rparr>)" "csr_wf (c\<lparr>csr_mcause := x\<rparr>)" "csr_wf (c\<lparr>csr_mtval := x\<rparr>)"
    "csr_wf (c\<lparr>csr_sscratch := x\<rparr>)" "csr_wf (c\<lparr>csr_scause := x\<rparr>)" "csr_wf (c\<lparr>csr_stval := x\<rparr>)"
    "csr_wf (c\<lparr>csr_cycle := x\<rparr>)" "csr_wf (c\<lparr>csr_time := x\<rparr>)" "csr_wf (c\<lparr>csr_instret := x\<rparr>)"
    "bits_within x 0xFF \<Longrightarrow> csr_wf (c\<lparr>csr_vstart := x\<rparr>)"
    "x8 \<le> 1 \<Longrightarrow> csr_wf (c\<lparr>csr_vxsat := x8\<rparr>)" "x8 \<le> 3 \<Longrightarrow> csr_wf (c\<lparr>csr_vxrm := x8\<rparr>)"
    "bits_within x kDelegatableExceptionMask \<Longrightarrow> csr_wf (c\<lparr>csr_medeleg := x\<rparr>)"
    "bits_within x kSupervisorInterruptMask \<Longrightarrow> csr_wf (c\<lparr>csr_mideleg := x\<rparr>)"
    "bits_within x kImplementedInterruptMask \<Longrightarrow> csr_wf (c\<lparr>csr_mie := x\<rparr>)"
    "bits_within x kImplementedInterruptMask \<Longrightarrow> csr_wf (c\<lparr>csr_mip := x\<rparr>)"
    "\<not> bit x 1 \<Longrightarrow> csr_wf (c\<lparr>csr_mtvec := x\<rparr>)" "\<not> bit x 1 \<Longrightarrow> csr_wf (c\<lparr>csr_stvec := x\<rparr>)"
    "\<not> bit x 0 \<Longrightarrow> csr_wf (c\<lparr>csr_mepc := x\<rparr>)" "\<not> bit x 0 \<Longrightarrow> csr_wf (c\<lparr>csr_sepc := x\<rparr>)"
    "x AND kSatpModeMask = 0 \<or> x AND kSatpModeMask = kSatpSv39ModeField \<Longrightarrow>
       csr_wf (c\<lparr>csr_satp := x\<rparr>)"
    "bits_within x (kImplementedCounterenMask OR kImplementedHpmCounterMask) \<Longrightarrow>
       csr_wf (c\<lparr>csr_mcounteren := x\<rparr>)"
    "bits_within x kImplementedMcountinhibitMask \<Longrightarrow> csr_wf (c\<lparr>csr_mcountinhibit := x\<rparr>)"
    "bits_within x 7 \<Longrightarrow> csr_wf (c\<lparr>csr_scounteren := x\<rparr>)"
    "length xs = 8 \<Longrightarrow> csr_wf (c\<lparr>csr_pmpcfg := xs\<rparr>)" "length xs = 64 \<Longrightarrow> csr_wf (c\<lparr>csr_pmpaddr := xs\<rparr>)"
    "length xs = 29 \<Longrightarrow> csr_wf (c\<lparr>csr_mhpmcounter := xs\<rparr>)"
    "length xs = 29 \<Longrightarrow> csr_wf (c\<lparr>csr_mhpmevent := xs\<rparr>)"
  using assms by (simp_all add: csr_wf_def)

lemma csr_wf_fields:
  assumes "csr_wf c"
  shows "bits_within (csr_mideleg c) kSupervisorInterruptMask"
    "bits_within (csr_mie c) kImplementedInterruptMask" "bits_within (csr_mip c) kImplementedInterruptMask"
    "length (csr_pmpcfg c) = 8" "length (csr_pmpaddr c) = 64" "length (csr_mhpmcounter c) = 29"
    "length (csr_mhpmevent c) = 29" "\<not> bit (csr_mepc c) 0" "\<not> bit (csr_sepc c) 0"
    "\<not> bit (csr_mtvec c) 1" "\<not> bit (csr_stvec c) 1"
  using assms by (simp_all add: csr_wf_def)

lemma not_bit_epc: "\<not> bit (v AND kEpcAlignmentMask) 0"
  by (simp add: bit_simps emu_bits)

lemma csr_wf_if: "(b \<Longrightarrow> csr_wf x) \<Longrightarrow> (\<not> b \<Longrightarrow> csr_wf y) \<Longrightarrow> csr_wf (if b then x else y)"
  by simp

lemma csr_wf_write_value [emu_wf]:
  assumes "csr_wf c" shows "csr_wf (csr_write_value c a v)"
proof -
  have vcsr: "csr_wf (c\<lparr>csr_vxsat := ucast (v AND 1), csr_vxrm := ucast (drop_bit 1 v AND 3)\<rparr>)"
    using assms ucast_and_le by (intro csr_wf_upd) simp_all
  have sie: "csr_wf (c\<lparr>csr_mie := (csr_mie c AND NOT k) OR (v AND k)\<rparr>)"
      "csr_wf (c\<lparr>csr_mip := (csr_mip c AND NOT k) OR (v AND k)\<rparr>)"
    if "bits_within k kImplementedInterruptMask" for k
    using assms that by (intro csr_wf_upd bits_within_merge csr_wf_fields; simp)+
  have k: "bits_within (csr_mideleg c AND kSupervisorInterruptMask) kImplementedInterruptMask"
      "bits_within (csr_mideleg c AND kSoftwareWritablePendingMask) kImplementedInterruptMask"
    by (intro bits_within_and_left(2) sup_within_impl)+
  show ?thesis
    unfolding csr_write_value_def Let_def
    by (intro csr_wf_if csr_wf_mark_floating csr_wf_mark_vector vcsr
        sie [OF k(1)] sie [OF k(2)] csr_wf_upd csr_wf_mstatus assms)
      (simp_all add: assms csr_wf_fields [OF assms] emu_wf csr_wf_imp_mstatus_wf
        bit_tvec_warl [unfolded One_nat_def] not_bit_epc ucast_and_le bits_within_merge bits_within_and_left(2)
        sup_within_impl)
qed

lemma mstatus_wf_or_bit:
  "mstatus_wf ms \<Longrightarrow> k \<in> {1, 3, 5, 7, 8} \<Longrightarrow> mstatus_wf (ms OR bit64 k)"
  by (auto simp: mstatus_wf_bits bit_or_iff intro!: mstatus_within)

lemma mstatus_wf_clear_bit:
  "mstatus_wf ms \<Longrightarrow> k \<in> {1, 3, 5, 7, 8, 17} \<Longrightarrow> mstatus_wf (ms AND NOT (bit64 k))"
  by (auto simp: mstatus_wf_bits bit_simps intro!: mstatus_within)

lemma mstatus_wf_clear_mpp: "mstatus_wf ms \<Longrightarrow> mstatus_wf (ms AND NOT (two_bits 11))"
  by (auto simp: mstatus_wf_bits bit_simps intro!: mstatus_within)

lemma bit_push_privilege:
  "bit (push_bit 11 (privilege_rank p)) n \<longleftrightarrow>
     (case p of User \<Rightarrow> False | Supervisor \<Rightarrow> n = 11 | Machine \<Rightarrow> n = 11 \<or> n = 12)"
proof (cases p)
  case Supervisor
  have "push_bit 11 (1 :: u64) = bit64 11" by (simp add: bit64_def)
  then show ?thesis using Supervisor by (simp only: privilege_rank.simps bit_bit64) auto
next
  case Machine
  have "push_bit 11 (3 :: u64) = two_bits 11" by (simp add: two_bits_def)
  then show ?thesis using Machine by (simp only: privilege_rank.simps bit_two_bits) auto
qed simp

lemma mstatus_wf_set_mpp:
  assumes "mstatus_wf ms"
  shows "mstatus_wf ((ms AND NOT (two_bits 11)) OR push_bit 11 (privilege_rank p))"
proof -
  have "bits_within (push_bit 11 (privilege_rank p)) (kMstatusWriteMask OR kXlenFields)"
    unfolding bits_within_iff bit_push_privilege by (cases p) (auto simp: bit_or_iff emu_bits)
  moreover have "bit (push_bit 11 (privilege_rank p)) 12 \<longrightarrow> bit (push_bit 11 (privilege_rank p)) 11"
    unfolding bit_push_privilege by (cases p) auto
  ultimately show ?thesis
    using assms unfolding mstatus_wf_bits bit_or_iff bit_and_iff bit_not_iff bit_two_bits
    by (auto intro!: mstatus_within)
qed

section \<open>Reachable CSR files\<close>

datatype csr_event =
  EvReset | EvAccess csr_access_request | EvAccrueFlags u8 | EvMarkFloating | EvMarkVector
| EvVectorStart u64 | EvClearVectorStart | EvSaturation bool | EvCommitVector u64 u64
| EvInterruptPending interrupt_cause bool | EvTime u64 | EvCycle | EvInstret
| EvMachineTrap privilege_mode u64 u64 u64 | EvSupervisorTrap privilege_mode u64 u64 u64
| EvMret | EvSret

fun csr_step :: "csr_file \<Rightarrow> csr_event \<Rightarrow> csr_file" where
  "csr_step c EvReset = csr_reset c"
| "csr_step c (EvAccess rq) = fst (csr_access c rq)"
| "csr_step c (EvAccrueFlags f) = accrue_floating_exception_flags c f"
| "csr_step c EvMarkFloating = mark_floating_state_dirty c"
| "csr_step c EvMarkVector = mark_vector_state_dirty c"
| "csr_step c (EvVectorStart e) = set_vector_start_for_trap c e"
| "csr_step c EvClearVectorStart = clear_vector_start_after_instruction c"
| "csr_step c (EvSaturation s) = accrue_vector_saturation c s"
| "csr_step c (EvCommitVector t l) = commit_vector_configuration c t l"
| "csr_step c (EvInterruptPending i b) = set_interrupt_pending c i b"
| "csr_step c (EvTime t) = set_time c t"
| "csr_step c EvCycle = increment_cycle c"
| "csr_step c EvInstret = increment_instret c"
| "csr_step c (EvMachineTrap p pc cause v) = enter_machine_trap c p pc cause v"
| "csr_step c (EvSupervisorTrap p pc cause v) = enter_supervisor_trap c p pc cause v"
| "csr_step c EvMret = fst (return_from_machine c)"
| "csr_step c EvSret = fst (return_from_supervisor c)"

lemma csr_wf_reset [emu_wf]: "csr_wf c \<Longrightarrow> csr_wf (csr_reset c)"
  using mstatus_wf_kXlen by (simp add: csr_wf_def csr_reset_def mstatus_wf_def)

lemma csr_wf_init [emu_wf]: "csr_wf csr_init"
  using mstatus_wf_kXlen by (simp add: csr_wf_def csr_init_def csr_reset_def mstatus_wf_def)

lemma csr_wf_access [emu_wf]: "csr_wf c \<Longrightarrow> csr_wf (fst (csr_access c rq))"
  by (simp add: csr_access_def Let_def emu_wf)

lemma csr_wf_accrue [emu_wf]: "csr_wf c \<Longrightarrow> csr_wf (accrue_floating_exception_flags c f)"
  by (simp add: accrue_floating_exception_flags_def Let_def emu_wf csr_wf_upd)

lemma csr_wf_vector_ops [emu_wf]:
  assumes "csr_wf c"
  shows "csr_wf (set_vector_start_for_trap c e)" "csr_wf (clear_vector_start_after_instruction c)"
    "csr_wf (accrue_vector_saturation c s)" "csr_wf (commit_vector_configuration c t l)"
  using assms
  by (simp_all add: set_vector_start_for_trap_def clear_vector_start_after_instruction_def
      accrue_vector_saturation_def commit_vector_configuration_def emu_wf csr_wf_upd)

lemma csr_wf_set_interrupt [emu_wf]: "csr_wf c \<Longrightarrow> csr_wf (set_interrupt_pending c i b)"
  by (auto simp: set_interrupt_pending_def Let_def csr_wf_fields
      intro!: csr_wf_upd bits_within_or intro: bits_within_and_left(1) bits_within_and)

lemma csr_wf_counters [emu_wf]:
  "csr_wf c \<Longrightarrow> csr_wf (set_time c t)" "csr_wf c \<Longrightarrow> csr_wf (increment_cycle c)"
  "csr_wf c \<Longrightarrow> csr_wf (increment_instret c)"
  by (simp_all add: set_time_def increment_cycle_def increment_instret_def csr_wf_upd)

lemma mstatus_wf_if:
  "mstatus_wf x \<Longrightarrow> mstatus_wf y \<Longrightarrow> mstatus_wf (if b then x else y)"
  by simp

lemma csr_wf_machine_trap [emu_wf]:
  assumes "csr_wf c" shows "csr_wf (enter_machine_trap c p pc cause v)"
  unfolding enter_machine_trap_def Let_def
  by (intro csr_wf_upd csr_wf_mstatus assms mstatus_wf_set_mpp mstatus_wf_clear_bit mstatus_wf_or_bit
      mstatus_wf_if csr_wf_imp_mstatus_wf not_bit_epc; simp add: assms)

lemma csr_wf_supervisor_trap [emu_wf]:
  assumes "csr_wf c" shows "csr_wf (enter_supervisor_trap c p pc cause v)"
  unfolding enter_supervisor_trap_def Let_def
  by (intro csr_wf_upd csr_wf_mstatus assms mstatus_wf_clear_bit mstatus_wf_or_bit
      mstatus_wf_if csr_wf_imp_mstatus_wf not_bit_epc; simp add: assms)

lemma csr_wf_mret [emu_wf]:
  assumes "csr_wf c" shows "csr_wf (fst (return_from_machine c))"
  unfolding return_from_machine_def Let_def fst_conv
  by (intro csr_wf_mstatus assms mstatus_wf_clear_mpp mstatus_wf_clear_bit mstatus_wf_or_bit
      mstatus_wf_if csr_wf_imp_mstatus_wf; simp add: assms)

lemma csr_wf_sret [emu_wf]:
  assumes "csr_wf c" shows "csr_wf (fst (return_from_supervisor c))"
  unfolding return_from_supervisor_def Let_def fst_conv
  by (intro csr_wf_mstatus assms mstatus_wf_clear_mpp mstatus_wf_clear_bit mstatus_wf_or_bit
      mstatus_wf_if csr_wf_imp_mstatus_wf; simp add: assms)

lemma csr_wf_step [emu_wf]: "csr_wf c \<Longrightarrow> csr_wf (csr_step c e)"
  by (cases e) (simp_all add: emu_wf)


subsection \<open>Interrupt selection\<close>

definition interrupt_takeable :: "csr_file \<Rightarrow> privilege_mode \<Rightarrow> interrupt_cause \<Rightarrow> bool" where
  "interrupt_takeable c p cause \<longleftrightarrow>
     (let n = unat (interrupt_code cause) in
      bit (csr_mip c) n \<and> bit (csr_mie c) n
      \<and> (if bit (csr_mideleg c) n then p \<noteq> Machine \<and> (p = User \<or> bit (csr_mstatus c) 1)
         else p \<noteq> Machine \<or> bit (csr_mstatus c) 3))"

definition interrupt_target :: "csr_file \<Rightarrow> interrupt_cause \<Rightarrow> privilege_mode" where
  "interrupt_target c cause =
     (if bit (csr_mideleg c) (unat (interrupt_code cause)) then Supervisor else Machine)"

lemma cause_bit_interrupt: "cause_bit (interrupt_code i) = bit64 (unat (interrupt_code i))"
  by (cases i) (simp_all add: cause_bit_def)

lemma cause_bit_exception: "cause_bit (exception_code i) = bit64 (unat (exception_code i))"
  by (cases i) (simp_all add: cause_bit_def)

lemma interrupt_implemented: "bit kImplementedInterruptMask (unat (interrupt_code i))"
  by (cases i) (simp_all add: emu_bits)

lemma and_cause_bit [simp]:
  "(w AND cause_bit (interrupt_code i) = 0) \<longleftrightarrow> \<not> bit w (unat (interrupt_code i))"
  using interrupt_code_less [of i] by (simp add: cause_bit_interrupt)

lemma select_pending_loop_eq:
  "select_pending_loop c p cs =
     map_option (\<lambda>i. \<lparr>pi_cause = i, pi_target = interrupt_target c i\<rparr>) (find (interrupt_takeable c p) cs)"
  by (induction cs)
    (auto simp: Let_def interrupt_takeable_def interrupt_target_def bit_and_iff interrupt_implemented)


text \<open>A selected interrupt never moves the hart to a lower privilege, is never taken in user mode,
  and implies the wake-up condition that WFI polls.\<close>

theorem interrupt_never_lowers_privilege:
  assumes "select_pending_interrupt c p = Some i"
  shows "privilege_rank p \<le> privilege_rank (pi_target i) \<and> pi_target i \<noteq> User
    \<and> has_locally_enabled_interrupt c"
proof -
  obtain cause where f: "find (interrupt_takeable c p) interrupt_priority = Some cause"
      and i: "i = \<lparr>pi_cause = cause, pi_target = interrupt_target c cause\<rparr>"
    using assms by (auto simp: select_pending_interrupt_def select_pending_loop_eq)
  have t: "interrupt_takeable c p cause"
    using f by (auto simp: find_Some_iff)
  have "bit (csr_mip c AND csr_mie c AND kImplementedInterruptMask) (unat (interrupt_code cause))"
    using t by (simp add: interrupt_takeable_def Let_def bit_and_iff interrupt_implemented)
  then have "has_locally_enabled_interrupt c"
    by (auto simp: has_locally_enabled_interrupt_def)
  moreover have "privilege_rank p \<le> privilege_rank (interrupt_target c cause)"
    using t by (cases p) (auto simp: interrupt_takeable_def interrupt_target_def Let_def split: if_splits)
  ultimately show ?thesis by (simp add: i interrupt_target_def)
qed

theorem interrupt_never_lowers_privilege_witness:
  "select_pending_interrupt (csr_init\<lparr>csr_mie := 0x80, csr_mip := 0x80\<rparr>) User
     = Some \<lparr>pi_cause = MachineTimer, pi_target = Machine\<rparr>
   \<and> privilege_rank User \<le> privilege_rank Machine"
proof -
  have "select_pending_interrupt (csr_init\<lparr>csr_mie := 0x80, csr_mip := 0x80\<rparr>) User
     = Some \<lparr>pi_cause = MachineTimer, pi_target = Machine\<rparr>" by code_simp
  from this interrupt_never_lowers_privilege [OF this] show ?thesis by simp
qed

subsection \<open>Trap entry and return\<close>

lemma bit_push_privilege':
  "bit (push_bit 11 (privilege_rank p)) n \<longleftrightarrow> (n = 11 \<and> p \<noteq> User) \<or> (n = 12 \<and> p = Machine)"
  unfolding bit_push_privilege by (cases p) auto

lemma bit_enter_machine_trap:
  "bit (csr_mstatus (enter_machine_trap c p pc cause tv)) n \<longleftrightarrow>
     (if n = 7 then bit (csr_mstatus c) 3 else if n = 3 then False
      else if n = 11 then p \<noteq> User else if n = 12 then p = Machine else bit (csr_mstatus c) n)"
  using bit_u64_less [of "csr_mstatus c" n]
  by (auto simp: enter_machine_trap_def Let_def bit_or_iff bit_and_iff bit_not_iff bit_push_privilege')

lemma bit_enter_supervisor_trap:
  "bit (csr_mstatus (enter_supervisor_trap c p pc cause tv)) n \<longleftrightarrow>
     (if n = 5 then bit (csr_mstatus c) 1 else if n = 1 then False
      else if n = 8 then p \<noteq> User else bit (csr_mstatus c) n)"
  using bit_u64_less [of "csr_mstatus c" n]
  by (auto simp: enter_supervisor_trap_def Let_def bit_or_iff bit_and_iff bit_not_iff)

lemma return_from_machine_target:
  "tr_privilege (snd (return_from_machine c)) =
     (if bit (csr_mstatus c) 12 then Machine else if bit (csr_mstatus c) 11 then Supervisor else User)"
  "tr_pc (snd (return_from_machine c)) = csr_mepc c"
  by (simp_all add: return_from_machine_def Let_def emu_bits)

lemma bit_return_from_machine:
  "bit (csr_mstatus (fst (return_from_machine c))) n \<longleftrightarrow>
     (if n = 3 then bit (csr_mstatus c) 7 else if n = 7 then True
      else if n = 11 \<or> n = 12 then False
      else if n = 17 then bit (csr_mstatus c) 17 \<and> bit (csr_mstatus c) 12
      else bit (csr_mstatus c) n)"
  using bit_u64_less [of "csr_mstatus c" n]
  by (auto simp: return_from_machine_def Let_def bit_or_iff bit_and_iff bit_not_iff emu_bits)

lemma return_from_supervisor_target:
  "tr_privilege (snd (return_from_supervisor c)) =
     (if bit (csr_mstatus c) 8 then Supervisor else User)"
  "tr_pc (snd (return_from_supervisor c)) = csr_sepc c"
  by (simp_all add: return_from_supervisor_def Let_def)

lemma bit_return_from_supervisor:
  "bit (csr_mstatus (fst (return_from_supervisor c))) n \<longleftrightarrow>
     (if n = 1 then bit (csr_mstatus c) 5 else if n = 5 then True
      else if n = 8 \<or> n = 17 then False else bit (csr_mstatus c) n)"
  using bit_u64_less [of "csr_mstatus c" n]
  by (auto simp: return_from_supervisor_def Let_def bit_or_iff bit_and_iff bit_not_iff)

text \<open>A machine trap followed by MRET is transparent: MRET returns to the interrupted privilege and
  to the (even) interrupted pc, MIE is off in the handler and restored afterwards, MPIE is set, MPP is
  reset to User, MPRV survives only a return to machine mode, and every other mstatus bit, mcause and
  mtval are as the trap left them.\<close>

theorem machine_trap_roundtrip:
  "let c' = enter_machine_trap c p pc cause tv;
         c'' = fst (return_from_machine c'); r = snd (return_from_machine c') in
     r = \<lparr>tr_privilege = p, tr_pc = pc AND NOT 1\<rparr>
     \<and> \<not> bit (csr_mstatus c') 3
     \<and> (\<forall>n. bit (csr_mstatus c'') n =
            (if n = 7 then True else if n = 11 \<or> n = 12 then False
             else if n = 17 then bit (csr_mstatus c) 17 \<and> p = Machine else bit (csr_mstatus c) n))
     \<and> csr_mcause c'' = cause \<and> csr_mtval c'' = tv"
proof -
  let ?c = "enter_machine_trap c p pc cause tv"
  have pc: "csr_mepc ?c = pc AND NOT 1" "csr_mcause ?c = cause" "csr_mtval ?c = tv"
    by (simp_all add: enter_machine_trap_def Let_def kEpcAlignmentMask_def)
  have f: "csr_mcause (fst (return_from_machine c')) = csr_mcause c'"
     "csr_mtval (fst (return_from_machine c')) = csr_mtval c'" for c'
    by (simp_all add: return_from_machine_def Let_def)
  have "tr_privilege (snd (return_from_machine ?c)) = p"
    by (cases p) (simp_all add: return_from_machine_target bit_enter_machine_trap)
  then have "snd (return_from_machine ?c) = \<lparr>tr_privilege = p, tr_pc = pc AND NOT 1\<rparr>"
    by (simp add: return_from_machine_target pc trap_return_state.equality)
  then show ?thesis
    by (simp add: Let_def f pc bit_return_from_machine bit_enter_machine_trap)
qed

text \<open>A supervisor trap taken below machine mode followed by SRET is transparent in the same way for
  SIE, SPIE and SPP; SRET always clears MPRV.\<close>

theorem supervisor_trap_roundtrip:
  assumes "p \<noteq> Machine"
  shows "let c' = enter_supervisor_trap c p pc cause tv;
         c'' = fst (return_from_supervisor c'); r = snd (return_from_supervisor c') in
     r = \<lparr>tr_privilege = p, tr_pc = pc AND NOT 1\<rparr>
     \<and> \<not> bit (csr_mstatus c') 1
     \<and> (\<forall>n. bit (csr_mstatus c'') n =
            (if n = 5 then True else if n = 8 \<or> n = 17 then False else bit (csr_mstatus c) n))
     \<and> csr_scause c'' = cause \<and> csr_stval c'' = tv"
proof -
  let ?c = "enter_supervisor_trap c p pc cause tv"
  have pc: "csr_sepc ?c = pc AND NOT 1" "csr_scause ?c = cause" "csr_stval ?c = tv"
    by (simp_all add: enter_supervisor_trap_def Let_def kEpcAlignmentMask_def)
  have f: "csr_scause (fst (return_from_supervisor c')) = csr_scause c'"
     "csr_stval (fst (return_from_supervisor c')) = csr_stval c'" for c'
    by (simp_all add: return_from_supervisor_def Let_def)
  have "tr_privilege (snd (return_from_supervisor ?c)) = p"
    using assms by (cases p) (simp_all add: return_from_supervisor_target bit_enter_supervisor_trap)
  then have "snd (return_from_supervisor ?c) = \<lparr>tr_privilege = p, tr_pc = pc AND NOT 1\<rparr>"
    by (simp add: return_from_supervisor_target pc trap_return_state.equality)
  then show ?thesis
    by (simp add: Let_def f pc bit_return_from_supervisor bit_enter_supervisor_trap)
qed

theorem supervisor_trap_roundtrip_witness:
  "snd (return_from_supervisor (enter_supervisor_trap csr_init User 0x1001 8 0))
     = \<lparr>tr_privilege = User, tr_pc = 0x1001 AND NOT 1\<rparr>"
  using supervisor_trap_roundtrip [where p = User and c = csr_init and pc = "0x1001" and cause = 8 and tv = 0]
  by (simp add: Let_def)

section \<open>Access control\<close>

definition csr_required_level :: "csr_address \<Rightarrow> u64" where
  "csr_required_level a = ucast (drop_bit 8 a AND 3)"

lemma required_level_range:
  assumes "0x300 \<le> a" "a \<le> 0x3FF" shows "csr_required_level a = 3"
proof -
  have n: "0x300 \<le> unat a" "unat a \<le> 0x3FF" using assms by (simp_all add: word_le_nat_alt)
  then have "unat a div 256 = 3" by linarith
  then have "drop_bit 8 a = 3"
    by (simp add: word_unat_eq_iff drop_bit_eq_div unat_div)
  then show ?thesis by (simp add: csr_required_level_def)
qed

lemma required_level_range2:
  assumes "0xB00 \<le> a" "a \<le> 0xBFF" shows "csr_required_level a = 3"
proof -
  have n: "0xB00 \<le> unat a" "unat a \<le> 0xBFF" using assms by (simp_all add: word_le_nat_alt)
  then have "unat a div 256 = 11" by linarith
  then have "drop_bit 8 a = 11"
    by (simp add: word_unat_eq_iff drop_bit_eq_div unat_div)
  then show ?thesis by (simp add: csr_required_level_def)
qed

lemma machine_level_addresses:
  assumes "csr_required_level a \<noteq> 3"
  shows "\<not> is_rv64_pmpcfg a" "\<not> is_pmpaddr a" "\<not> is_mhpmcounter a" "\<not> is_mhpmevent a"
    "a \<notin> {Mstatus, Misa, Medeleg, Mideleg, Mie, Mtvec, Mcounteren, Mcountinhibit, Mscratch, Mepc,
         Mcause, Mtval, Mip, Mcycle, Minstret}"
proof -
  have r: "\<not> (0x300 \<le> a \<and> a \<le> 0x3FF)" "\<not> (0xB00 \<le> a \<and> a \<le> 0xBFF)"
    using assms required_level_range required_level_range2 by blast+
  then show "\<not> is_rv64_pmpcfg a" "\<not> is_pmpaddr a" "\<not> is_mhpmcounter a" "\<not> is_mhpmevent a"
    by (auto simp: is_rv64_pmpcfg_def is_pmpaddr_def is_mhpmcounter_def is_mhpmevent_def
        word_le_nat_alt)
  show "a \<notin> {Mstatus, Misa, Medeleg, Mideleg, Mie, Mtvec, Mcounteren, Mcountinhibit, Mscratch, Mepc,
         Mcause, Mtval, Mip, Mcycle, Minstret}"
    using assms by (auto simp: csr_required_level_def)
qed

text \<open>What a write below machine level can reach.\<close>

lemma csr_write_value_below_machine:
  assumes "csr_required_level a \<noteq> 3"
  shows "csr_write_value c a v =
     (if a = Fflags then mark_floating_state_dirty
        (c\<lparr>csr_fcsr := (csr_fcsr c AND 0xE0) OR (ucast v AND kFloatingExceptionMask)\<rparr>)
      else if a = Frm then mark_floating_state_dirty
        (c\<lparr>csr_fcsr := (csr_fcsr c AND kFloatingExceptionMask) OR ucast (push_bit 5 (v AND 7))\<rparr>)
      else if a = Fcsr then mark_floating_state_dirty (c\<lparr>csr_fcsr := ucast (v AND 0xFF)\<rparr>)
      else if a = Vstart then mark_vector_state_dirty (c\<lparr>csr_vstart := v AND 0xFF\<rparr>)
      else if a = Vxsat then mark_vector_state_dirty (c\<lparr>csr_vxsat := ucast (v AND 1)\<rparr>)
      else if a = Vxrm then mark_vector_state_dirty (c\<lparr>csr_vxrm := ucast (v AND 3)\<rparr>)
      else if a = Vcsr then mark_vector_state_dirty
        (c\<lparr>csr_vxsat := ucast (v AND 1), csr_vxrm := ucast (drop_bit 1 v AND 3)\<rparr>)
      else if a = Sstatus then
        c\<lparr>csr_mstatus := (csr_mstatus c AND NOT kSstatusWriteMask) OR (v AND kSstatusWriteMask)\<rparr>
      else if a = Sie then
        (let m = csr_mideleg c AND kSupervisorInterruptMask in
         c\<lparr>csr_mie := (csr_mie c AND NOT m) OR (v AND m)\<rparr>)
      else if a = Stvec then c\<lparr>csr_stvec := tvec_warl v\<rparr>
      else if a = Scounteren then c\<lparr>csr_scounteren := v AND 7\<rparr>
      else if a = Sscratch then c\<lparr>csr_sscratch := v\<rparr>
      else if a = Sepc then c\<lparr>csr_sepc := v AND kEpcAlignmentMask\<rparr>
      else if a = Scause then c\<lparr>csr_scause := v\<rparr>
      else if a = Stval then c\<lparr>csr_stval := v\<rparr>
      else if a = Sip then
        (let m = csr_mideleg c AND kSoftwareWritablePendingMask in
         c\<lparr>csr_mip := (csr_mip c AND NOT m) OR (v AND m)\<rparr>)
      else if a = Satp then
        (let mode = v AND kSatpModeMask in
         if mode = 0 \<or> mode = kSatpSv39ModeField then c\<lparr>csr_satp := v\<rparr> else c)
      else c)"
  using machine_level_addresses [OF assms] unfolding csr_write_value_def by simp

text \<open>The machine-level part of the CSR file: all that supervisor software must not change.\<close>

definition machine_view :: "csr_file \<Rightarrow> csr_file" where
  "machine_view c = csr_init
     \<lparr>csr_mstatus := csr_mstatus c AND NOT kSstatusWriteMask,
      csr_mie := csr_mie c AND NOT (csr_mideleg c), csr_mip := csr_mip c AND NOT (csr_mideleg c),
      csr_medeleg := csr_medeleg c, csr_mideleg := csr_mideleg c, csr_mtvec := csr_mtvec c,
      csr_mscratch := csr_mscratch c, csr_mepc := csr_mepc c, csr_mcause := csr_mcause c,
      csr_mtval := csr_mtval c, csr_mcounteren := csr_mcounteren c,
      csr_mcountinhibit := csr_mcountinhibit c, csr_pmpcfg := csr_pmpcfg c,
      csr_pmpaddr := csr_pmpaddr c, csr_mhpmcounter := csr_mhpmcounter c,
      csr_mhpmevent := csr_mhpmevent c, csr_cycle := csr_cycle c, csr_time := csr_time c,
      csr_instret := csr_instret c\<rparr>"

lemma machine_view_eqI:
  assumes "csr_mstatus c AND NOT kSstatusWriteMask = csr_mstatus d AND NOT kSstatusWriteMask"
    "csr_mie c AND NOT (csr_mideleg c) = csr_mie d AND NOT (csr_mideleg d)"
    "csr_mip c AND NOT (csr_mideleg c) = csr_mip d AND NOT (csr_mideleg d)"
    "csr_medeleg c = csr_medeleg d" "csr_mideleg c = csr_mideleg d" "csr_mtvec c = csr_mtvec d"
    "csr_mscratch c = csr_mscratch d" "csr_mepc c = csr_mepc d" "csr_mcause c = csr_mcause d"
    "csr_mtval c = csr_mtval d" "csr_mcounteren c = csr_mcounteren d"
    "csr_mcountinhibit c = csr_mcountinhibit d" "csr_pmpcfg c = csr_pmpcfg d"
    "csr_pmpaddr c = csr_pmpaddr d" "csr_mhpmcounter c = csr_mhpmcounter d"
    "csr_mhpmevent c = csr_mhpmevent d" "csr_cycle c = csr_cycle d" "csr_time c = csr_time d"
    "csr_instret c = csr_instret d"
  shows "machine_view c = machine_view d"
  using assms by (simp add: machine_view_def)

lemma machine_view_mark_dirty:
  "machine_view (mark_floating_state_dirty c) = machine_view c"
  "machine_view (mark_vector_state_dirty c) = machine_view c"
proof -
  have e: "((ms AND NOT (two_bits k)) OR two_bits k) AND NOT kSstatusWriteMask = ms AND NOT kSstatusWriteMask"
    if "k = 9 \<or> k = 13" for ms k
    using that by (intro bit_word_eqI) (auto simp: bit_simps emu_bits)
  then show "machine_view (mark_floating_state_dirty c) = machine_view c"
    "machine_view (mark_vector_state_dirty c) = machine_view c"
    by (auto intro!: machine_view_eqI)
      (simp_all add: mark_floating_state_dirty_def mark_vector_state_dirty_def)
qed

lemma merge_and_not_mideleg:
  "((w AND NOT (d AND k)) OR (v AND (d AND k))) AND NOT d = (w :: u64) AND NOT d"
  by (intro bit_word_eqI) (auto simp: bit_simps)

lemma machine_view_if:
  "(b \<Longrightarrow> machine_view x = z) \<Longrightarrow> (\<not> b \<Longrightarrow> machine_view y = z) \<Longrightarrow> machine_view (if b then x else y) = z"
  by simp

lemma machine_view_upd:
  "machine_view (c\<lparr>csr_fcsr := f\<rparr>) = machine_view c" "machine_view (c\<lparr>csr_vstart := x\<rparr>) = machine_view c"
  "machine_view (c\<lparr>csr_vxsat := f\<rparr>) = machine_view c" "machine_view (c\<lparr>csr_vxrm := f\<rparr>) = machine_view c"
  "machine_view (c\<lparr>csr_stvec := x\<rparr>) = machine_view c" "machine_view (c\<lparr>csr_scounteren := x\<rparr>) = machine_view c"
  "machine_view (c\<lparr>csr_sscratch := x\<rparr>) = machine_view c" "machine_view (c\<lparr>csr_sepc := x\<rparr>) = machine_view c"
  "machine_view (c\<lparr>csr_scause := x\<rparr>) = machine_view c" "machine_view (c\<lparr>csr_stval := x\<rparr>) = machine_view c"
  "machine_view (c\<lparr>csr_satp := x\<rparr>) = machine_view c"
  by (simp_all add: machine_view_def)

lemma machine_view_upd_eqI:
  "w AND NOT kSstatusWriteMask = csr_mstatus c AND NOT kSstatusWriteMask \<Longrightarrow>
     machine_view (c\<lparr>csr_mstatus := w\<rparr>) = machine_view c"
  "w AND NOT (csr_mideleg c) = csr_mie c AND NOT (csr_mideleg c) \<Longrightarrow>
     machine_view (c\<lparr>csr_mie := w\<rparr>) = machine_view c"
  "w AND NOT (csr_mideleg c) = csr_mip c AND NOT (csr_mideleg c) \<Longrightarrow>
     machine_view (c\<lparr>csr_mip := w\<rparr>) = machine_view c"
  by (simp_all add: machine_view_def)

lemmas machine_view_merges =
  machine_view_upd_eqI(1) [OF mask_merge_and_not] machine_view_upd_eqI(2) [OF merge_and_not_mideleg]
  machine_view_upd_eqI(3) [OF merge_and_not_mideleg]

lemma machine_view_write:
  assumes "csr_required_level a \<noteq> 3"
  shows "machine_view (csr_write_value c a v) = machine_view c"
  unfolding csr_write_value_below_machine [OF assms] Let_def
  by (intro machine_view_if machine_view_merges)
    (simp_all only: machine_view_mark_dirty machine_view_upd)

lemma access_allowed_level:
  "csr_access_allowed c a p w \<Longrightarrow> csr_required_level a \<le> privilege_rank p \<and> csr_required_level a \<noteq> 2
     \<and> csr_exists a \<and> (w \<longrightarrow> a AND 0xC00 \<noteq> 0xC00)"
  by (auto simp: csr_access_allowed_def csr_required_level_def Let_def not_less split: if_splits)

lemma csr_access_denied:
  "\<not> cr_success (snd (csr_access c rq)) \<Longrightarrow> csr_access c rq = (c, \<lparr>cr_success = False, cr_value = 0\<rparr>)"
  by (auto simp: csr_access_def Let_def split: if_splits)

lemma csr_access_success_iff:
  "cr_success (snd (csr_access c rq)) \<longleftrightarrow>
     csr_access_allowed c (rq_address rq) (rq_privilege rq) (rq_write rq)"
  by (auto simp: csr_access_def Let_def)

text \<open>C9. A CSR instruction succeeds only on an implemented register, at or above the privilege its
  number encodes, and never writes a read-only number; a refused access leaves the whole file unchanged
  and yields no value, and so does a successful read leave it unchanged.\<close>

theorem csr_access_guarded:
  "(cr_success (snd (csr_access c rq)) \<longrightarrow>
      csr_exists (rq_address rq)
      \<and> ucast (drop_bit 8 (rq_address rq) AND 3) \<le> privilege_rank (rq_privilege rq)
      \<and> (rq_write rq \<longrightarrow> rq_address rq AND 0xC00 \<noteq> 0xC00))
   \<and> (\<not> cr_success (snd (csr_access c rq)) \<longrightarrow> csr_access c rq = (c, \<lparr>cr_success = False, cr_value = 0\<rparr>))
   \<and> (\<not> rq_write rq \<longrightarrow> fst (csr_access c rq) = c)"
proof (intro conjI impI)
  assume "cr_success (snd (csr_access c rq))"
  then have a: "csr_access_allowed c (rq_address rq) (rq_privilege rq) (rq_write rq)"
    by (simp add: csr_access_success_iff)
  from access_allowed_level [OF a] show "csr_exists (rq_address rq)"
    "ucast (drop_bit 8 (rq_address rq) AND 3) \<le> privilege_rank (rq_privilege rq)"
    by (simp_all add: csr_required_level_def)
  assume "rq_write rq"
  with access_allowed_level [OF a] show "rq_address rq AND 0xC00 \<noteq> 0xC00" by blast
next
  assume "\<not> cr_success (snd (csr_access c rq))"
  then show "csr_access c rq = (c, \<lparr>cr_success = False, cr_value = 0\<rparr>)" by (rule csr_access_denied)
next
  assume "\<not> rq_write rq"
  then show "fst (csr_access c rq) = c" by (simp add: csr_access_def Let_def)
qed

theorem csr_access_guarded_witness:
  "\<not> cr_success (snd (csr_access csr_init
        \<lparr>rq_address = Mscratch, rq_privilege = Supervisor, rq_read = True, rq_write = True, rq_operation = Replace, rq_operand = 5\<rparr>))
   \<and> csr_access csr_init
        \<lparr>rq_address = Mscratch, rq_privilege = Supervisor, rq_read = True, rq_write = True, rq_operation = Replace, rq_operand = 5\<rparr>
      = (csr_init, \<lparr>cr_success = False, cr_value = 0\<rparr>)"
proof -
  have "\<not> cr_success (snd (csr_access csr_init
        \<lparr>rq_address = Mscratch, rq_privilege = Supervisor, rq_read = True, rq_write = True, rq_operation = Replace, rq_operand = 5\<rparr>))"
    by code_simp
  then show ?thesis using csr_access_guarded by blast
qed

text \<open>C8. A CSR instruction executed in supervisor or user mode cannot change machine-level state: the
  mstatus bits outside the sstatus view, the non-delegated interrupt enables and pending bits, the
  delegation registers, machine trap CSRs, PMP registers and hardware counters all keep their values.\<close>

theorem supervisor_access_confined:
  assumes "rq_privilege rq \<noteq> Machine"
  shows "machine_view (fst (csr_access c rq)) = machine_view c"
proof (cases "csr_access_allowed c (rq_address rq) (rq_privilege rq) (rq_write rq)")
  case False
  then show ?thesis by (simp add: csr_access_def)
next
  case True
  then have "csr_required_level (rq_address rq) \<le> privilege_rank (rq_privilege rq)"
    using access_allowed_level by blast
  then have "csr_required_level (rq_address rq) \<noteq> 3"
    using assms by (cases "rq_privilege rq") (auto simp: word_le_nat_alt)
  then show ?thesis
    by (simp add: csr_access_def Let_def machine_view_write)
qed

theorem supervisor_access_confined_witness:
  "csr_sscratch (fst (csr_access csr_init
      \<lparr>rq_address = Sscratch, rq_privilege = Supervisor, rq_read = True, rq_write = True, rq_operation = Replace, rq_operand = 5\<rparr>)) = 5
   \<and> machine_view (fst (csr_access csr_init
      \<lparr>rq_address = Sscratch, rq_privilege = Supervisor, rq_read = True, rq_write = True, rq_operation = Replace, rq_operand = 5\<rparr>))
      = machine_view csr_init"
proof -
  have "csr_sscratch (fst (csr_access csr_init
      \<lparr>rq_address = Sscratch, rq_privilege = Supervisor, rq_read = True, rq_write = True, rq_operation = Replace, rq_operand = 5\<rparr>)) = 5"
    by code_simp
  moreover have "rq_privilege \<lparr>rq_address = Sscratch, rq_privilege = Supervisor,
      rq_read = True, rq_write = True, rq_operation = Replace, rq_operand = 5\<rparr> \<noteq> Machine" by simp
  ultimately show ?thesis using supervisor_access_confined by blast
qed

end
