(* ===== verification/Clint.thy ===== *)
theory Clint
  imports Region_Interface Csr_Correct
begin

text \<open>
  The core local interruptor (\<open>src/devices/clint.cpp\<close>): the registers msip, mtimecmp and mtime
  behind word and doubleword MMIO, the tick, and the projection of its levels into mip.
  All operations run under one mutex, so each is one atomic state change.
\<close>

record clint =
  cl_mtime :: u64
  cl_mtimecmp :: u64
  cl_msip :: bool

abbreviation (input) kMsipOffset :: u64 where "kMsipOffset \<equiv> 0x0000"
abbreviation (input) kMtimecmpOffset :: u64 where "kMtimecmpOffset \<equiv> 0x4000"
abbreviation (input) kMtimeOffset :: u64 where "kMtimeOffset \<equiv> 0xBFF8"

definition require_clint_range :: "host_exception + address_range" where
  "require_clint_range =
     (case range_create (me_base kClint) (me_size kClint) of None \<Rightarrow> Inl LogicError | Some r \<Rightarrow> Inr r)"

definition clint_range :: address_range where
  "clint_range = \<lparr>rng_base = 0x2000000, rng_size = 0xC000, rng_end_exclusive = 0x200C000\<rparr>"

definition clint_invalid_access :: "u64 \<Rightarrow> access_width \<Rightarrow> access_result" where
  "clint_invalid_access off w =
     ar_failure (make_error InvalidWidth (me_base kClint + off) (width_in_bytes w) (me_name kClint))"

definition clint_create :: clint where
  "clint_create = \<lparr>cl_mtime = 0, cl_mtimecmp = NOT 0, cl_msip = False\<rparr>"

definition clint_advance :: "clint \<Rightarrow> u64 \<Rightarrow> clint" where
  "clint_advance d ticks = d\<lparr>cl_mtime := cl_mtime d + ticks\<rparr>"

definition clint_synchronize :: "clint \<Rightarrow> csr_file \<Rightarrow> csr_file" where
  "clint_synchronize d c =
     set_interrupt_pending
       (set_interrupt_pending (set_time c (cl_mtime d)) MachineSoftware (cl_msip d))
       MachineTimer (cl_mtime d \<ge> cl_mtimecmp d)"

definition is_timer_register_access :: "u64 \<Rightarrow> access_width \<Rightarrow> u64 \<Rightarrow> bool" where
  "is_timer_register_access off w register_offset =
     (if w = DoubleWord then off = register_offset
      else w = Word32 \<and> (off = register_offset \<or> off = register_offset + 4))"

definition clint_validate_access :: "u64 \<Rightarrow> access_width \<Rightarrow> access_result" where
  "clint_validate_access off w =
     (let byte_count = width_in_bytes w in
      if w \<noteq> Word32 \<and> w \<noteq> DoubleWord then clint_invalid_access off w
      else if off mod byte_count \<noteq> 0 then clint_invalid_access off w
      else if off = kMsipOffset \<and> w = Word32 then ar_success 0 False
      else if is_timer_register_access off w kMtimecmpOffset
              \<or> is_timer_register_access off w kMtimeOffset then ar_success 0 False
      else clint_invalid_access off w)"

definition write_timer_register :: "u64 \<Rightarrow> u64 \<Rightarrow> u64 \<Rightarrow> access_width \<Rightarrow> u64 \<Rightarrow> u64" where
  "write_timer_register destination off register_offset w v =
     (if w = DoubleWord then v
      else let half = v AND 0xFFFFFFFF in
        if off = register_offset then (destination AND 0xFFFFFFFF00000000) OR half
        else (destination AND 0x00000000FFFFFFFF) OR push_bit 32 half)"

definition read_timer_register :: "u64 \<Rightarrow> u64 \<Rightarrow> u64 \<Rightarrow> access_width \<Rightarrow> u64" where
  "read_timer_register src off register_offset w =
     (if w = DoubleWord then src
      else if off = register_offset then src AND 0xFFFFFFFF else drop_bit 32 src)"

definition clint_read :: "clint \<Rightarrow> u64 \<Rightarrow> access_width \<Rightarrow> access_type \<Rightarrow> clint \<times> access_result" where
  "clint_read d off w t =
     (let validation = clint_validate_access off w in
      if \<not> ar_ok validation then (d, validation)
      else if off = kMsipOffset then (d, ar_success (if cl_msip d then 1 else 0) False)
      else if is_timer_register_access off w kMtimecmpOffset
        then (d, ar_success (read_timer_register (cl_mtimecmp d) off kMtimecmpOffset w) False)
      else (d, ar_success (read_timer_register (cl_mtime d) off kMtimeOffset w) False))"

definition clint_write ::
    "clint \<Rightarrow> u64 \<Rightarrow> access_width \<Rightarrow> u64 \<Rightarrow> access_type \<Rightarrow> clint \<times> access_result" where
  "clint_write d off w v t =
     (let validation = clint_validate_access off w in
      if \<not> ar_ok validation then (d, validation)
      else
        ((if off = kMsipOffset then d\<lparr>cl_msip := (v AND 1 \<noteq> 0)\<rparr>
          else if is_timer_register_access off w kMtimecmpOffset
            then d\<lparr>cl_mtimecmp := write_timer_register (cl_mtimecmp d) off kMtimecmpOffset w v\<rparr>
          else d\<lparr>cl_mtime := write_timer_register (cl_mtime d) off kMtimeOffset w v\<rparr>),
         ar_success 0 False))"

definition clint_compare_exchange ::
    "clint \<Rightarrow> u64 \<Rightarrow> access_width \<Rightarrow> u64 \<Rightarrow> u64 \<Rightarrow> access_type \<Rightarrow> clint \<times> access_result" where
  "clint_compare_exchange d off w expected desired t = (d, clint_invalid_access off w)"

subsection \<open>Lemmas\<close>

lemma require_clint_range_ok: "require_clint_range = Inr clint_range"
  by (simp add: require_clint_range_def clint_range_def range_create_def address_map_defs)

lemma clint_invalid_access_not_ok [simp]:
  "\<not> ar_ok (clint_invalid_access off w)" "\<not> ar_exchanged (clint_invalid_access off w)"
  by (simp_all add: clint_invalid_access_def)

lemma clint_validate_ok_iff:
  "ar_ok (clint_validate_access off w) \<longleftrightarrow>
     (w = Word32 \<and> off \<in> {0, 0x4000, 0x4004, 0xBFF8, 0xBFFC})
     \<or> (w = DoubleWord \<and> off \<in> {0x4000, 0xBFF8})"
  by (auto simp: clint_validate_access_def is_timer_register_access_def Let_def)

lemma clint_validate_value [simp]: "\<not> ar_exchanged (clint_validate_access off w)"
  by (simp add: clint_validate_access_def Let_def)

lemma clint_read_same [simp]: "fst (clint_read d off w t) = d"
  by (simp add: clint_read_def Let_def)

lemma clint_read_fits:
  assumes "ar_ok (snd (clint_read d off w t))"
  shows "take_bit (8 * unat (width_in_bytes w)) (ar_value (snd (clint_read d off w t)))
          = ar_value (snd (clint_read d off w t))"
proof -
  have ok: "ar_ok (clint_validate_access off w)"
    using assms by (simp add: clint_read_def Let_def split: if_splits)
  from ok have "w = Word32 \<or> w = DoubleWord" by (auto simp: clint_validate_ok_iff)
  moreover have "take_bit 32 (read_timer_register s off r Word32) = read_timer_register s off r Word32" for s r
    unfolding read_timer_register_def low_word take_bit_eq_mask [symmetric]
    by (simp add: take_bit_drop_bit_32)
  ultimately show ?thesis
    using ok by (auto simp: clint_read_def Let_def)
qed

interpretation clint_region: address_region clint_read clint_write clint_compare_exchange
    "\<lambda>_. clint_range" "\<lambda>_. True"
proof unfold_locales
  fix d off w t assume "ar_ok (snd (clint_read d off w t))"
  then show "take_bit (8 * unat (width_in_bytes w)) (ar_value (snd (clint_read d off w t)))
          = ar_value (snd (clint_read d off w t))" by (rule clint_read_fits)
qed (auto simp: clint_write_def clint_compare_exchange_def Let_def)

lemma bit_mip_set_interrupt_pending [emu_bits]:
  "bit (csr_mip (set_interrupt_pending c i b)) n =
     (if n = unat (interrupt_code i) then b else bit (csr_mip c) n)"
  using interrupt_code_less [of i] interrupt_implemented [of i] bit_u64_less [of "csr_mip c" n]
  by (auto simp: set_interrupt_pending_def Let_def cause_bit_interrupt bit_simps)

lemma set_interrupt_pending_frame [emu_frame]:
  "csr_mie (set_interrupt_pending c i b) = csr_mie c"
  "csr_time (set_interrupt_pending c i b) = csr_time c"
  "csr_mideleg (set_interrupt_pending c i b) = csr_mideleg c"
  "csr_mstatus (set_interrupt_pending c i b) = csr_mstatus c"
  by (simp_all add: set_interrupt_pending_def Let_def)

subsection \<open>Properties\<close>

text \<open>Synchronising the CLINT shows the hart exactly the device's levels: the time CSR is mtime, MTIP
  is pending iff mtime has reached mtimecmp (unsigned), MSIP iff msip is set, and every other pending
  bit - the PLIC's and the supervisor's among them - is untouched.\<close>

theorem clint_synchronize_levels:
  "csr_time (clint_synchronize d c) = cl_mtime d
   \<and> (\<forall>n. bit (csr_mip (clint_synchronize d c)) n =
        (if n = 7 then unat (cl_mtimecmp d) \<le> unat (cl_mtime d)
         else if n = 3 then cl_msip d else bit (csr_mip c) n))
   \<and> csr_mie (clint_synchronize d c) = csr_mie c"
  by (simp add: clint_synchronize_def emu_bits emu_frame set_time_def word_le_nat_alt)

text \<open>The 32-bit halves of the CLINT timer registers compose: writing the low and the high word of
  mtimecmp in either order leaves the same device as one doubleword write, word reads return exactly
  those halves, and mtime and msip are not disturbed.\<close>

theorem clint_mtimecmp_halves:
  "let lo = fst (clint_write d 0x4000 Word32 v t);
       hi = fst (clint_write d 0x4004 Word32 (drop_bit 32 v) t);
       full = fst (clint_write d 0x4000 DoubleWord v t) in
     fst (clint_write lo 0x4004 Word32 (drop_bit 32 v) t) = full
   \<and> fst (clint_write hi 0x4000 Word32 v t) = full
   \<and> full = d\<lparr>cl_mtimecmp := v\<rparr>
   \<and> ar_value (snd (clint_read full 0x4000 DoubleWord t)) = v
   \<and> ar_value (snd (clint_read full 0x4000 Word32 t)) = take_bit 32 v
   \<and> ar_value (snd (clint_read full 0x4004 Word32 t)) = drop_bit 32 v"
proof -
  have full: "clint_write d 0x4000 DoubleWord v t = (d\<lparr>cl_mtimecmp := v\<rparr>, ar_success 0 False)" for d
    by (simp add: clint_write_def Let_def clint_validate_ok_iff is_timer_register_access_def
        write_timer_register_def)
  have lo: "clint_write d 0x4000 Word32 v t
      = (d\<lparr>cl_mtimecmp := (cl_mtimecmp d AND NOT (mask 32)) OR take_bit 32 v\<rparr>, ar_success 0 False)" for d v
    unfolding clint_write_def write_timer_register_def low_word high_word take_bit_eq_mask
    by (simp add: Let_def clint_validate_ok_iff is_timer_register_access_def)
  have hi: "clint_write d 0x4004 Word32 v t
      = (d\<lparr>cl_mtimecmp := take_bit 32 (cl_mtimecmp d) OR push_bit 32 (take_bit 32 v)\<rparr>, ar_success 0 False)"
    for d v
    unfolding clint_write_def write_timer_register_def low_word high_word take_bit_eq_mask
    by (simp add: Let_def clint_validate_ok_iff is_timer_register_access_def)
  have parts: "take_bit 32 ((m AND NOT (mask 32)) OR take_bit 32 v)
        OR push_bit 32 (take_bit 32 (drop_bit 32 v)) = v"
      "((take_bit 32 m OR push_bit 32 (take_bit 32 (drop_bit 32 v))) AND NOT (mask 32)) OR take_bit 32 v = v"
    for m :: u64
    by (auto intro!: bit_word_eqI simp: bit_simps dest: bit_u64_less)
  have upd: "cl_mtimecmp (d\<lparr>cl_mtimecmp := x\<rparr>) = x"
      "d\<lparr>cl_mtimecmp := x, cl_mtimecmp := y\<rparr> = d\<lparr>cl_mtimecmp := y\<rparr>" for d :: clint and x y
    by simp_all
  have rd: "ar_value (snd (clint_read d 0x4000 DoubleWord t)) = cl_mtimecmp d"
      "ar_value (snd (clint_read d 0x4000 Word32 t)) = take_bit 32 (cl_mtimecmp d)"
      "ar_value (snd (clint_read d 0x4004 Word32 t)) = drop_bit 32 (cl_mtimecmp d)" for d
    unfolding clint_read_def read_timer_register_def low_word take_bit_eq_mask
    by (simp_all add: clint_validate_ok_iff Let_def is_timer_register_access_def)
  show ?thesis
    unfolding Let_def full lo hi fst_conv rd upd parts by simp
qed

end
