(* ===== verification/Plic.thy ===== *)
theory Plic
  imports Region_Interface Csr_Correct
begin

text \<open>
  The platform-level interrupt controller (\<open>src/devices/plic.cpp\<close>): 31 level-triggered sources,
  two contexts (0 machine, 1 supervisor), priority arbitration and claim/complete. The arrays of
  the class are lists of their declared length (32 sources, 2 contexts).
\<close>

record plic =
  pl_priority :: "u32 list"
  pl_level :: "bool list"
  pl_pending :: "bool list"
  pl_claimed_by :: "u8 list"
  pl_enable :: "u32 list"
  pl_threshold :: "u32 list"

abbreviation (input) kSourceCount :: nat where "kSourceCount \<equiv> 31"
abbreviation (input) kPendingOffset :: u64 where "kPendingOffset \<equiv> 0x1000"
abbreviation (input) kMachineEnableOffset :: u64 where "kMachineEnableOffset \<equiv> 0x2000"
abbreviation (input) kSupervisorEnableOffset :: u64 where "kSupervisorEnableOffset \<equiv> 0x2080"
abbreviation (input) kMachineContextOffset :: u64 where "kMachineContextOffset \<equiv> 0x200000"
abbreviation (input) kSupervisorContextOffset :: u64 where "kSupervisorContextOffset \<equiv> 0x201000"
abbreviation (input) kPriorityMask :: u32 where "kPriorityMask \<equiv> 0x7"

definition create_plic_range :: "host_exception + address_range" where
  "create_plic_range =
     (case range_create (me_base kPlic) (me_size kPlic) of None \<Rightarrow> Inl LogicError | Some r \<Rightarrow> Inr r)"

definition plic_range :: address_range where
  "plic_range = \<lparr>rng_base = 0xC000000, rng_size = 0x4000000, rng_end_exclusive = 0x10000000\<rparr>"

definition plic_unsupported_access :: "u64 \<Rightarrow> access_width \<Rightarrow> access_result" where
  "plic_unsupported_access off w =
     ar_failure (make_error InvalidWidth (me_base kPlic + off) (width_in_bytes w) (me_name kPlic))"

definition enable_offset :: "nat \<Rightarrow> u64" where
  "enable_offset ctx = (if ctx = 0 then kMachineEnableOffset else kSupervisorEnableOffset)"

definition context_offset :: "nat \<Rightarrow> u64" where
  "context_offset ctx = (if ctx = 0 then kMachineContextOffset else kSupervisorContextOffset)"

definition plic_create :: plic where
  "plic_create = \<lparr>pl_priority = replicate 32 0, pl_level = replicate 32 False,
     pl_pending = replicate 32 False, pl_claimed_by = replicate 32 0,
     pl_enable = replicate 2 0, pl_threshold = replicate 2 0\<rparr>"

definition set_source_level :: "plic \<Rightarrow> u32 \<Rightarrow> bool \<Rightarrow> plic" where
  "set_source_level d source asserted =
     (if source = 0 \<or> source > of_nat kSourceCount then d
      else
        let i = unat source; d1 = d\<lparr>pl_level := (pl_level d)[i := asserted]\<rparr> in
        if asserted \<and> pl_claimed_by d1 ! i = 0
        then d1\<lparr>pl_pending := (pl_pending d1)[i := True]\<rparr> else d1)"

definition plic_select_body :: "plic \<Rightarrow> nat \<Rightarrow> nat \<Rightarrow> nat \<Rightarrow> nat" where
  "plic_select_body d ctx selected source =
     (let enabled = (pl_enable d ! ctx AND push_bit source 1 \<noteq> 0) in
      if \<not> pl_pending d ! source \<or> pl_claimed_by d ! source \<noteq> 0 \<or> \<not> enabled
         \<or> pl_priority d ! source \<le> pl_threshold d ! ctx then selected
      else if selected = 0 \<or> pl_priority d ! source > pl_priority d ! selected then source
      else selected)"

definition plic_select :: "plic \<Rightarrow> nat \<Rightarrow> nat" where
  "plic_select d ctx = foldl (plic_select_body d ctx) 0 [1..<Suc kSourceCount]"

definition context_pending :: "plic \<Rightarrow> nat \<Rightarrow> bool" where
  "context_pending d ctx \<longleftrightarrow> plic_select d ctx \<noteq> 0"

definition plic_synchronize :: "plic \<Rightarrow> csr_file \<Rightarrow> csr_file" where
  "plic_synchronize d c =
     set_interrupt_pending (set_interrupt_pending c MachineExternal (context_pending d 0))
       SupervisorExternal (context_pending d 1)"

definition plic_pending_word :: "plic \<Rightarrow> u32" where
  "plic_pending_word d =
     foldl (\<lambda>p source. if pl_pending d ! source then p OR push_bit source 1 else p) 0
       [1..<Suc kSourceCount]"

definition plic_claim :: "plic \<Rightarrow> nat \<Rightarrow> plic \<times> nat" where
  "plic_claim d ctx =
     (let source = plic_select d ctx in
      (if source \<noteq> 0
       then d\<lparr>pl_pending := (pl_pending d)[source := False],
              pl_claimed_by := (pl_claimed_by d)[source := of_nat (ctx + 1)]\<rparr>
       else d, source))"

fun plic_read_contexts :: "plic \<Rightarrow> u64 \<Rightarrow> nat list \<Rightarrow> plic \<times> access_result" where
  "plic_read_contexts d off [] = (d, ar_success 0 False)"
| "plic_read_contexts d off (ctx # rest) =
     (if off = enable_offset ctx then (d, ar_success (ucast (pl_enable d ! ctx)) False)
      else if off = context_offset ctx then (d, ar_success (ucast (pl_threshold d ! ctx)) False)
      else if off = context_offset ctx + 4 then
        (let (d', source) = plic_claim d ctx in (d', ar_success (of_nat source) False))
      else plic_read_contexts d off rest)"

definition plic_read :: "plic \<Rightarrow> u64 \<Rightarrow> access_width \<Rightarrow> access_type \<Rightarrow> plic \<times> access_result" where
  "plic_read d off w t =
     (if w \<noteq> Word32 \<or> off AND 3 \<noteq> 0 then (d, plic_unsupported_access off w)
      else if off \<ge> 4 \<and> off < 4 * (of_nat kSourceCount + 1)
        then (d, ar_success (ucast (pl_priority d ! unat (off div 4))) False)
      else if off = kPendingOffset then (d, ar_success (ucast (plic_pending_word d)) False)
      else plic_read_contexts d off [0, 1])"

definition plic_complete :: "plic \<Rightarrow> nat \<Rightarrow> u32 \<Rightarrow> plic" where
  "plic_complete d ctx source =
     (if source > 0 \<and> source \<le> of_nat kSourceCount
         \<and> pl_claimed_by d ! unat source = of_nat (ctx + 1)
      then d\<lparr>pl_claimed_by := (pl_claimed_by d)[unat source := 0],
             pl_pending := (pl_pending d)[unat source := pl_level d ! unat source]\<rparr>
      else d)"

fun plic_write_contexts :: "plic \<Rightarrow> u64 \<Rightarrow> u64 \<Rightarrow> nat list \<Rightarrow> plic" where
  "plic_write_contexts d off v [] = d"
| "plic_write_contexts d off v (ctx # rest) =
     (if off = enable_offset ctx then d\<lparr>pl_enable := (pl_enable d)[ctx := ucast v AND NOT 1]\<rparr>
      else if off = context_offset ctx
        then d\<lparr>pl_threshold := (pl_threshold d)[ctx := ucast v AND kPriorityMask]\<rparr>
      else if off = context_offset ctx + 4 then plic_complete d ctx (ucast v)
      else plic_write_contexts d off v rest)"

definition plic_write ::
    "plic \<Rightarrow> u64 \<Rightarrow> access_width \<Rightarrow> u64 \<Rightarrow> access_type \<Rightarrow> plic \<times> access_result" where
  "plic_write d off w v t =
     (if w \<noteq> Word32 \<or> off AND 3 \<noteq> 0 then (d, plic_unsupported_access off w)
      else if off \<ge> 4 \<and> off < 4 * (of_nat kSourceCount + 1)
        then (d\<lparr>pl_priority := (pl_priority d)[unat (off div 4) := ucast v AND kPriorityMask]\<rparr>,
              ar_success 0 False)
      else (plic_write_contexts d off v [0, 1], ar_success 0 False))"

definition plic_compare_exchange ::
    "plic \<Rightarrow> u64 \<Rightarrow> access_width \<Rightarrow> u64 \<Rightarrow> u64 \<Rightarrow> access_type \<Rightarrow> plic \<times> access_result" where
  "plic_compare_exchange d off w expected desired t = (d, plic_unsupported_access off w)"

text \<open>Everything that can happen to the controller, as one event type.\<close>

datatype plic_event =
  PlicLevel u32 bool
| PlicRead u64 access_width access_type
| PlicWrite u64 access_width u64 access_type
| PlicCompareExchange u64 access_width u64 u64 access_type

fun plic_step :: "plic \<Rightarrow> plic_event \<Rightarrow> plic" where
  "plic_step d (PlicLevel s b) = set_source_level d s b"
| "plic_step d (PlicRead off w t) = fst (plic_read d off w t)"
| "plic_step d (PlicWrite off w v t) = fst (plic_write d off w v t)"
| "plic_step d (PlicCompareExchange off w e n t) = fst (plic_compare_exchange d off w e n t)"

definition plic_wf :: "plic \<Rightarrow> bool" where
  "plic_wf d \<longleftrightarrow>
     length (pl_priority d) = 32 \<and> length (pl_level d) = 32 \<and> length (pl_pending d) = 32
   \<and> length (pl_claimed_by d) = 32 \<and> length (pl_enable d) = 2 \<and> length (pl_threshold d) = 2
   \<and> \<not> pl_pending d ! 0 \<and> pl_claimed_by d ! 0 = 0
   \<and> (\<forall>s < 32. pl_claimed_by d ! s \<le> 2)
   \<and> (\<forall>s < 32. pl_claimed_by d ! s \<noteq> 0 \<longrightarrow> \<not> pl_pending d ! s)
   \<and> (\<forall>s < 32. pl_priority d ! s \<le> 7)
   \<and> (\<forall>c < 2. \<not> bit (pl_enable d ! c) 0 \<and> pl_threshold d ! c \<le> 7)"

text \<open>A source a context may be given: pending, unclaimed, enabled and above the threshold.\<close>

definition plic_eligible :: "plic \<Rightarrow> nat \<Rightarrow> nat \<Rightarrow> bool" where
  "plic_eligible d ctx s \<longleftrightarrow>
     pl_pending d ! s \<and> pl_claimed_by d ! s = 0 \<and> bit (pl_enable d ! ctx) s
     \<and> pl_priority d ! s > pl_threshold d ! ctx"

subsection \<open>Arbitration\<close>

lemma and_power_2_iff: "s < 32 \<Longrightarrow> ((w :: u32) AND 2 ^ s = 0) \<longleftrightarrow> \<not> bit w s"
proof
  assume s: "s < 32"
  show "\<not> bit w s" if "w AND 2 ^ s = 0"
  proof
    assume "bit w s"
    then have "bit (w AND 2 ^ s) s" using s by (simp add: bit_simps)
    with that show False by simp
  qed
  assume "\<not> bit w s"
  then show "w AND 2 ^ s = 0" by (intro bit_word_eqI) (auto simp: bit_simps)
qed

lemma plic_select_body_eq:
  "s < 32 \<Longrightarrow> plic_select_body d ctx sel s =
     (if plic_eligible d ctx s \<and> (sel = 0 \<or> pl_priority d ! s > pl_priority d ! sel) then s else sel)"
  by (auto simp: plic_select_body_def plic_eligible_def Let_def and_power_2_iff not_less)

definition plic_best :: "plic \<Rightarrow> nat \<Rightarrow> nat set \<Rightarrow> nat \<Rightarrow> bool" where
  "plic_best d ctx S sel \<longleftrightarrow>
     (if sel = 0 then \<forall>x\<in>S. \<not> plic_eligible d ctx x
      else sel \<in> S \<and> plic_eligible d ctx sel
        \<and> (\<forall>x\<in>S. plic_eligible d ctx x \<longrightarrow> pl_priority d ! x < pl_priority d ! sel
             \<or> (pl_priority d ! x = pl_priority d ! sel \<and> sel \<le> x)))"

lemma plic_best_step:
  assumes "plic_best d ctx {1..<n} sel" "0 < n" "n < 32"
  shows "plic_best d ctx {1..<Suc n} (plic_select_body d ctx sel n)"
proof -
  have n: "n \<noteq> 0" "{1..<Suc n} = insert n {1..<n}" using assms by auto
  have lt: "sel \<noteq> 0 \<Longrightarrow> sel < n" using assms(1) by (auto simp: plic_best_def split: if_splits)
  show ?thesis
    unfolding plic_select_body_eq [OF assms(3)] n(2)
    using assms(1) lt n(1)
    by (auto simp: plic_best_def not_less split: if_splits dest: order.strict_trans)
      (meson linorder_cases order.strict_trans)?
qed

lemma plic_select_prefix:
  "0 < n \<Longrightarrow> n \<le> 32 \<Longrightarrow> plic_best d ctx {1..<n} (foldl (plic_select_body d ctx) 0 [1..<n])"
proof (induction n)
  case (Suc n)
  show ?case
  proof (cases "n = 0")
    case True
    then show ?thesis by (simp add: plic_best_def)
  next
    case False
    then have "plic_best d ctx {1..<n} (foldl (plic_select_body d ctx) 0 [1..<n])" using Suc by simp
    then have "plic_best d ctx {1..<Suc n} (plic_select_body d ctx (foldl (plic_select_body d ctx) 0 [1..<n]) n)"
      using False Suc.prems by (intro plic_best_step) simp_all
    then show ?thesis using False by simp
  qed
qed simp

lemma plic_select_best: "plic_best d ctx {1..<32} (plic_select d ctx)"
  using plic_select_prefix [of 32 d ctx] by (simp add: plic_select_def del: upt_Suc)

lemma plic_select_less: "plic_select d ctx < 32"
  using plic_select_best [of d ctx] by (auto simp: plic_best_def split: if_splits)

lemma plic_select_eligible: "plic_select d ctx \<noteq> 0 \<Longrightarrow> plic_eligible d ctx (plic_select d ctx)"
  using plic_select_best [of d ctx] by (auto simp: plic_best_def)

subsection \<open>The invariant\<close>

lemma plic_wf_create: "plic_wf plic_create"
  by (simp add: plic_wf_def plic_create_def less_Suc_eq numeral_2_eq_2)

lemma plic_wf_level:
  assumes "plic_wf d" shows "plic_wf (set_source_level d s b)"
proof (cases "s = 0 \<or> s > 31")
  case False
  then have "unat s \<noteq> 0" "unat s < 32" by (auto simp: unat_eq_0 word_less_nat_alt)
  with assms False show ?thesis
    by (auto simp: plic_wf_def set_source_level_def Let_def nth_list_update)
qed (auto simp: set_source_level_def assms)

lemma plic_wf_claim:
  assumes "plic_wf d" "ctx < 2" shows "plic_wf (fst (plic_claim d ctx))"
proof (cases "plic_select d ctx = 0")
  case False
  have "(of_nat (Suc ctx) :: u8) \<le> 2" using assms(2) by (auto simp: less_2_cases_iff)
  then show ?thesis
    using False assms plic_select_less [of d ctx]
    by (auto simp: plic_wf_def plic_claim_def Let_def nth_list_update)
qed (simp add: plic_claim_def assms)

lemma plic_wf_complete:
  assumes "plic_wf d" shows "plic_wf (plic_complete d ctx s)"
proof (cases "s > 0 \<and> s \<le> 31")
  case True
  then have "unat s \<noteq> 0" "unat s < 32" by (auto simp: unat_eq_0 word_le_nat_alt)
  with assms True show ?thesis
    by (auto simp: plic_wf_def plic_complete_def nth_list_update)
qed (auto simp: plic_complete_def assms)

lemma plic_wf_read:
  assumes "plic_wf d" shows "plic_wf (fst (plic_read d off w t))"
  using assms by (simp add: plic_read_def plic_wf_claim split_beta Let_def)

lemma plic_wf_write:
  assumes "plic_wf d" shows "plic_wf (fst (plic_write d off w v t))"
proof -
  have m: "(x :: u32) AND 7 \<le> 7" for x by (rule word_and_le1)
  have e: "plic_wf (d\<lparr>pl_enable := (pl_enable d)[c := ucast v AND NOT 1]\<rparr>)"
      "plic_wf (d\<lparr>pl_threshold := (pl_threshold d)[c := ucast v AND 7]\<rparr>)"
      "plic_wf (d\<lparr>pl_priority := (pl_priority d)[i := ucast v AND 7]\<rparr>)" if "c < 2" for c i
    using assms that m by (auto simp: plic_wf_def nth_list_update_in bit_simps)
  show ?thesis
    using e [of 0] e [of 1] assms by (simp add: plic_write_def plic_wf_complete)
qed

lemma plic_wf_step: "plic_wf d \<Longrightarrow> plic_wf (plic_step d e)"
  by (cases e) (simp_all add: plic_wf_level plic_wf_read plic_wf_write plic_compare_exchange_def)

lemma plic_unsupported_access_not_ok [simp]:
  "\<not> ar_ok (plic_unsupported_access off w)" "ar_value (plic_unsupported_access off w) = 0" "\<not> ar_exchanged (plic_unsupported_access off w)"
  by (simp_all add: plic_unsupported_access_def)

lemma create_plic_range_ok: "create_plic_range = Inr plic_range"
  by (simp add: create_plic_range_def plic_range_def range_create_def address_map_defs)

lemma plic_read_fits:
  assumes "ar_ok (snd (plic_read d off w t))"
  shows "take_bit (8 * unat (width_in_bytes w)) (ar_value (snd (plic_read d off w t)))
          = ar_value (snd (plic_read d off w t))"
proof -
  have w: "w = Word32" using assms by (auto simp: plic_read_def split: if_splits)
  have "take_bit 32 (of_nat (plic_select d c) :: u64) = of_nat (plic_select d c)" for c
    using plic_select_less [of d c] by (simp add: take_bit_of_nat take_bit_nat_eq_self)
  then show ?thesis
    by (simp add: w plic_read_def plic_claim_def Let_def)
qed

lemma plic_read_contexts_ok [simp]: "ar_ok (snd (plic_read_contexts d off cs))"
  by (induction cs) (simp_all add: split_beta Let_def)

lemma plic_read_fail: "\<not> ar_ok (snd (plic_read d off w t)) \<Longrightarrow> fst (plic_read d off w t) = d"
  using plic_read_contexts_ok [of d off "[0, 1]"]
  by (auto simp: plic_read_def simp del: plic_read_contexts.simps split: if_splits)

lemma plic_write_fail: "\<not> ar_ok (snd (plic_write d off w v t)) \<Longrightarrow> fst (plic_write d off w v t) = d"
  by (auto simp: plic_write_def simp del: plic_write_contexts.simps split: if_splits)

lemma plic_cas [simp]:
  "fst (plic_compare_exchange d off w e n t) = d" "\<not> ar_ok (snd (plic_compare_exchange d off w e n t))"
  by (simp_all add: plic_compare_exchange_def)

interpretation plic_region: address_region plic_read plic_write plic_compare_exchange
    "\<lambda>_. plic_range" plic_wf
  by unfold_locales
    (simp_all add: plic_wf_read plic_wf_write plic_read_fits plic_read_fail plic_write_fail)

subsection \<open>Properties\<close>

text \<open>C17. PLIC arbitration is exact: a context is offered source 0 precisely when no source is eligible for
  it, and otherwise an eligible source of the highest priority, the smallest number among equals.\<close>

theorem plic_select_correct:
  "if plic_select d ctx = 0 then \<forall>x\<in>{1..31}. \<not> plic_eligible d ctx x
   else plic_select d ctx \<in> {1..31} \<and> plic_eligible d ctx (plic_select d ctx)
     \<and> (\<forall>x\<in>{1..31}. plic_eligible d ctx x \<longrightarrow>
          pl_priority d ! x < pl_priority d ! plic_select d ctx
          \<or> (pl_priority d ! x = pl_priority d ! plic_select d ctx \<and> plic_select d ctx \<le> x))"
proof -
  have "{1..31} = {1..<32 :: nat}" by auto
  then show ?thesis using plic_select_best [of d ctx] by (simp only: plic_best_def)
qed

text \<open>C18. Whatever the guest and the devices do to a constructed PLIC, a claimed source is never pending,
  sources are owned by nobody or by one of the two contexts, priorities and thresholds stay within their
  three bits, source 0 is never pending nor enabled, and the register arrays keep their sizes.\<close>

theorem plic_reachable_wf: "plic_wf (foldl plic_step plic_create es)"
proof (induction es rule: rev_induct)
  case Nil
  show ?case by (simp add: plic_wf_create)
next
  case (snoc e es)
  then show ?case by (simp add: plic_wf_step)
qed

lemma claimed_not_selected: "pl_claimed_by d ! s \<noteq> 0 \<Longrightarrow> s \<noteq> 0 \<Longrightarrow> plic_select d ctx \<noteq> s"
  using plic_select_eligible [of d ctx] by (auto simp: plic_eligible_def)

lemma claimed_by_write_contexts:
  "pl_claimed_by (plic_write_contexts d off v [0, 1]) =
     (if off = 0x200004 then pl_claimed_by (plic_complete d 0 (ucast v))
      else if off = 0x201004 then pl_claimed_by (plic_complete d 1 (ucast v)) else pl_claimed_by d)"
  by (simp add: enable_offset_def context_offset_def)

text \<open>The one event that releases a source: its owner's completion write.\<close>

definition plic_completes :: "nat \<Rightarrow> nat \<Rightarrow> plic_event \<Rightarrow> bool" where
  "plic_completes ctx s e \<longleftrightarrow>
     (case e of PlicWrite off w v t \<Rightarrow>
         w = Word32 \<and> off = context_offset ctx + 4 \<and> unat (ucast v :: u32) = s
      | _ \<Rightarrow> False)"

lemma claimed_by_claim:
  "s \<noteq> 0 \<Longrightarrow> pl_claimed_by d ! s \<noteq> 0 \<Longrightarrow> pl_claimed_by (fst (plic_claim d c)) ! s = pl_claimed_by d ! s"
  using claimed_not_selected [of d s c] by (auto simp: plic_claim_def Let_def)

lemma claimed_by_complete:
  assumes "pl_claimed_by d ! s = of_nat (ctx + 1)" "ctx < 2" "c < 2" "c = ctx \<Longrightarrow> unat x \<noteq> s"
  shows "pl_claimed_by (plic_complete d c x) ! s = of_nat (ctx + 1)"
proof (cases "unat x = s")
  case True
  with assms have "pl_claimed_by d ! unat x \<noteq> of_nat (c + 1)"
    by (auto simp: less_2_cases_iff)
  with assms(1) show ?thesis by (simp add: plic_complete_def)
qed (simp add: plic_complete_def assms(1))

lemma claimed_by_read:
  assumes "s \<noteq> 0" "pl_claimed_by d ! s \<noteq> 0"
  shows "pl_claimed_by (fst (plic_read d off w t)) ! s = pl_claimed_by d ! s"
  using claimed_by_claim [OF assms] by (simp add: plic_read_def split_beta Let_def)

lemma claimed_by_step:
  assumes "pl_claimed_by d ! s = of_nat (ctx + 1)" "ctx < 2" "s \<noteq> 0" "\<not> plic_completes ctx s e"
  shows "pl_claimed_by (plic_step d e) ! s = of_nat (ctx + 1)"
proof (cases e)
  case (PlicLevel src b)
  then show ?thesis using assms by (simp add: set_source_level_def Let_def)
next
  case (PlicRead off w t)
  have "pl_claimed_by d ! s \<noteq> 0" using assms(1,2) by (auto simp: less_2_cases_iff)
  then show ?thesis using PlicRead assms by (simp add: claimed_by_read)
next
  case (PlicWrite off w v t)
  from assms(4) have "off = 0x200004 \<Longrightarrow> w = Word32 \<Longrightarrow> pl_claimed_by (plic_complete d 0 (ucast v)) ! s = of_nat (ctx + 1)"
    "off = 0x201004 \<Longrightarrow> w = Word32 \<Longrightarrow> pl_claimed_by (plic_complete d 1 (ucast v)) ! s = of_nat (ctx + 1)"
    by (intro claimed_by_complete [OF assms(1,2)]; simp add: plic_completes_def context_offset_def PlicWrite)+
  then show ?thesis
    using PlicWrite assms(1)
    by (simp add: plic_write_def claimed_by_write_contexts [unfolded One_nat_def]
        del: plic_write_contexts.simps)
next
  case (PlicCompareExchange off w ev n t)
  then show ?thesis using assms by simp
qed

lemma claimed_by_run:
  assumes "pl_claimed_by d ! s = of_nat (ctx + 1)" "ctx < 2" "s \<noteq> 0"
    "\<forall>e\<in>set es. \<not> plic_completes ctx s e"
  shows "pl_claimed_by (foldl plic_step d es) ! s = of_nat (ctx + 1)"
  using assms(1,4) claimed_by_step [OF _ assms(2,3)] by (induction es arbitrary: d) auto

text \<open>C19. A claimed interrupt is delivered once: after a context claims a source, no sequence of level
  changes and register accesses lets either context claim it again, until the owner writes its number
  to its completion register.\<close>

theorem plic_claim_exclusive:
  assumes "plic_wf d" and "ctx < 2"
    and "plic_claim d ctx = (d', s)" and "s \<noteq> 0"
    and "\<forall>e\<in>set es. \<not> plic_completes ctx s e"
  shows "plic_select (foldl plic_step d' es) c \<noteq> s"
proof -
  have "pl_claimed_by d' ! s = of_nat (ctx + 1)"
    using assms(1,3,4) plic_select_less [of d ctx]
    by (auto simp: plic_claim_def Let_def plic_wf_def)
  then have *: "pl_claimed_by (foldl plic_step d' es) ! s = of_nat (ctx + 1)"
    using assms by (intro claimed_by_run)
  have "(of_nat (ctx + 1) :: u8) \<noteq> 0" using assms(2) by (auto simp: less_2_cases_iff)
  with * show ?thesis using assms(4) claimed_not_selected by metis
qed

definition example_plic :: plic where
  "example_plic = foldl plic_step plic_create
     [PlicWrite 0x28 Word32 5 Store, PlicWrite 0x2080 Word32 0x400 Store, PlicLevel 10 True]"

lemma example_plic_wf: "plic_wf example_plic"
  unfolding example_plic_def by (simp only: foldl.simps plic_wf_step plic_wf_create)

theorem plic_claim_exclusive_witness:
  "snd (plic_claim example_plic 1) = 10
   \<and> plic_select (foldl plic_step (fst (plic_claim example_plic 1)) [PlicLevel 10 True]) 1 \<noteq> 10"
proof -
  have s: "snd (plic_claim example_plic 1) = 10" by code_simp
  have "plic_claim example_plic 1 = (fst (plic_claim example_plic 1), 10)"
    using s by (metis prod.collapse)
  from plic_claim_exclusive [OF example_plic_wf _ this, of "[PlicLevel 10 True]" 1] s
  show ?thesis by (simp add: plic_completes_def)
qed

theorem plic_select_correct_witness:
  "plic_select example_plic 1 = 10 \<and> plic_eligible example_plic 1 10"
proof -
  have "plic_select example_plic 1 = 10" by code_simp
  then show ?thesis using plic_select_correct [of example_plic 1] by simp
qed

text \<open>Completion by the owner frees a claimed source and re-latches its line: the source becomes
  pending again exactly when the device still drives it high; a completion by anyone else, or of another
  source, changes nothing about it.\<close>

theorem plic_complete_relatches:
  assumes "plic_wf d" and "c < 2" and "ctx < 2" and "0 < s" and "s < 32"
    and "pl_claimed_by d ! s = of_nat (ctx + 1)" and "x = of_nat s"
  shows "plic_complete d c x =
    (if c = ctx then d\<lparr>pl_claimed_by := (pl_claimed_by d)[s := 0],
                       pl_pending := (pl_pending d)[s := pl_level d ! s]\<rparr> else d)"
proof -
  have x: "unat x = s" using assms(5,7) by (simp add: unat_of_nat take_bit_eq_mod)
  then have r: "0 < x" "x \<le> 31" using assms(4,5) by (auto simp: word_less_nat_alt word_le_nat_alt)
  have "(of_nat (ctx + 1) :: u8) = of_nat (c + 1) \<longleftrightarrow> c = ctx"
    using assms(2,3) by (auto simp: less_2_cases_iff)
  then show ?thesis using r assms(6) by (auto simp: plic_complete_def x)
qed

theorem plic_complete_relatches_witness:
  "pl_pending (plic_complete (fst (plic_claim example_plic 1)) 1 10) ! 10
   \<and> plic_complete (fst (plic_claim example_plic 1)) 0 10 = fst (plic_claim example_plic 1)"
proof -
  have w: "plic_wf (fst (plic_claim example_plic 1))"
    using plic_wf_claim [OF example_plic_wf, of 1] by simp
  have c: "pl_claimed_by (fst (plic_claim example_plic 1)) ! 10 = of_nat (1 + 1)"
     "pl_level (fst (plic_claim example_plic 1)) ! 10" "length (pl_pending (fst (plic_claim example_plic 1))) = 32"
    by code_simp+
  show ?thesis
    using plic_complete_relatches [OF w _ _ _ _ c(1), of 1 10]
      plic_complete_relatches [OF w _ _ _ _ c(1), of 0 10] c(2,3)
    by simp
qed

end
