(* ===== verification/Uart16550.thy ===== *)
theory Uart16550
  imports Plic
begin

text \<open>
  The 16550A-compatible UART (\<open>src/devices/uart16550.cpp\<close>): byte registers with the DLAB overlay, two
  16-byte FIFOs, the interrupt identification and the level it drives on its PLIC source.
\<close>

record uart =
  ua_interrupt_source :: u32
  ua_rx_fifo :: "u8 list"
  ua_tx_fifo :: "u8 list"
  ua_ier :: u8
  ua_fcr :: u8
  ua_lcr :: u8
  ua_mcr :: u8
  ua_scr :: u8
  ua_dll :: u8
  ua_dlm :: u8
  ua_overrun_error :: bool

datatype uart_interrupt_id =
  ModemStatus | TxHoldingEmpty | RxDataAvailable | ReceiverLineStatus | NoInterrupt

fun uart_interrupt_code :: "uart_interrupt_id \<Rightarrow> u8" where
  "uart_interrupt_code ModemStatus = 0x00"
| "uart_interrupt_code TxHoldingEmpty = 0x02"
| "uart_interrupt_code RxDataAvailable = 0x04"
| "uart_interrupt_code ReceiverLineStatus = 0x06"
| "uart_interrupt_code NoInterrupt = 0x01"

abbreviation (input) kFifoCapacity :: nat where "kFifoCapacity \<equiv> 16"
abbreviation (input) kIerRxDataAvailable :: u8 where "kIerRxDataAvailable \<equiv> 1"
abbreviation (input) kIerTxHoldingEmpty :: u8 where "kIerTxHoldingEmpty \<equiv> 2"
abbreviation (input) kIerReceiverLineStatus :: u8 where "kIerReceiverLineStatus \<equiv> 4"
abbreviation (input) kFcrEnableFifo :: u8 where "kFcrEnableFifo \<equiv> 1"
abbreviation (input) kFcrClearRx :: u8 where "kFcrClearRx \<equiv> 2"
abbreviation (input) kFcrClearTx :: u8 where "kFcrClearTx \<equiv> 4"
abbreviation (input) kLcrDlab :: u8 where "kLcrDlab \<equiv> 0x80"
abbreviation (input) kLsrDataReady :: u8 where "kLsrDataReady \<equiv> 1"
abbreviation (input) kLsrOverrunError :: u8 where "kLsrOverrunError \<equiv> 2"
abbreviation (input) kLsrThrEmpty :: u8 where "kLsrThrEmpty \<equiv> 0x20"
abbreviation (input) kLsrTransmitterEmpty :: u8 where "kLsrTransmitterEmpty \<equiv> 0x40"
abbreviation (input) kIirFifosEnabled :: u8 where "kIirFifosEnabled \<equiv> 0xC0"
abbreviation (input) kWritableIerMask :: u8 where "kWritableIerMask \<equiv> 0x0F"

definition require_uart_range :: "host_exception + address_range" where
  "require_uart_range =
     (case range_create (me_base kUart) (me_size kUart) of None \<Rightarrow> Inl LogicError | Some r \<Rightarrow> Inr r)"

definition uart_range :: address_range where
  "uart_range = \<lparr>rng_base = 0x10000000, rng_size = 0x100, rng_end_exclusive = 0x10000100\<rparr>"

definition uart_invalid_access :: "u64 \<Rightarrow> access_width \<Rightarrow> access_result" where
  "uart_invalid_access off w =
     ar_failure (make_error InvalidWidth (me_base kUart + off) (width_in_bytes w) (me_name kUart))"

definition uart_create :: "u32 \<Rightarrow> uart" where
  "uart_create source = \<lparr>ua_interrupt_source = source, ua_rx_fifo = [], ua_tx_fifo = [], ua_ier = 0,
     ua_fcr = 0, ua_lcr = 0x03, ua_mcr = 0, ua_scr = 0, ua_dll = 0, ua_dlm = 0,
     ua_overrun_error = False\<rparr>"

definition push_rx :: "uart \<Rightarrow> u8 \<Rightarrow> uart \<times> bool" where
  "push_rx u b =
     (if length (ua_rx_fifo u) \<ge> kFifoCapacity then (u\<lparr>ua_overrun_error := True\<rparr>, False)
      else (u\<lparr>ua_rx_fifo := ua_rx_fifo u @ [b]\<rparr>, True))"

definition pop_tx :: "uart \<Rightarrow> uart \<times> u8 option" where
  "pop_tx u = (case ua_tx_fifo u of [] \<Rightarrow> (u, None) | b # rest \<Rightarrow> (u\<lparr>ua_tx_fifo := rest\<rparr>, Some b))"

definition uart_validate_access :: "u64 \<Rightarrow> access_width \<Rightarrow> access_result" where
  "uart_validate_access off w =
     (if w \<noteq> Byte then uart_invalid_access off w
      else if off > 7 then uart_invalid_access off w
      else ar_success 0 False)"

definition dlab_enabled :: "uart \<Rightarrow> bool" where
  "dlab_enabled u \<longleftrightarrow> ua_lcr u AND kLcrDlab \<noteq> 0"

definition current_interrupt :: "uart \<Rightarrow> uart_interrupt_id" where
  "current_interrupt u =
     (if ua_ier u AND kIerReceiverLineStatus \<noteq> 0 \<and> ua_overrun_error u then ReceiverLineStatus
      else if ua_ier u AND kIerRxDataAvailable \<noteq> 0 \<and> ua_rx_fifo u \<noteq> [] then RxDataAvailable
      else if ua_ier u AND kIerTxHoldingEmpty \<noteq> 0 \<and> ua_tx_fifo u = [] then TxHoldingEmpty
      else NoInterrupt)"

definition uart_synchronize :: "uart \<Rightarrow> plic \<Rightarrow> plic" where
  "uart_synchronize u d =
     set_source_level d (ua_interrupt_source u) (current_interrupt u \<noteq> NoInterrupt)"

definition reset_rx_fifo :: "uart \<Rightarrow> uart" where
  "reset_rx_fifo u = u\<lparr>ua_rx_fifo := [], ua_overrun_error := False\<rparr>"

definition reset_tx_fifo :: "uart \<Rightarrow> uart" where
  "reset_tx_fifo u = u\<lparr>ua_tx_fifo := []\<rparr>"

definition uart_line_status :: "uart \<Rightarrow> u8" where
  "uart_line_status u =
     ((if ua_rx_fifo u \<noteq> [] then kLsrDataReady else 0)
      OR (if ua_overrun_error u then kLsrOverrunError else 0) OR kLsrThrEmpty OR kLsrTransmitterEmpty)"

definition uart_read :: "uart \<Rightarrow> u64 \<Rightarrow> access_width \<Rightarrow> access_type \<Rightarrow> uart \<times> access_result" where
  "uart_read u off w t =
     (let validation = uart_validate_access off w in
      if \<not> ar_ok validation then (u, validation)
      else if off = 0 then
        (if dlab_enabled u then (u, ar_success (ucast (ua_dll u)) False)
         else case ua_rx_fifo u of
            [] \<Rightarrow> (u, ar_success 0 False)
          | b # rest \<Rightarrow> (u\<lparr>ua_rx_fifo := rest\<rparr>, ar_success (ucast b) False))
      else if off = 1 then
        (u, ar_success (ucast (if dlab_enabled u then ua_dlm u else ua_ier u)) False)
      else if off = 2 then
        (u, ar_success (ucast (kIirFifosEnabled OR uart_interrupt_code (current_interrupt u))) False)
      else if off = 3 then (u, ar_success (ucast (ua_lcr u)) False)
      else if off = 4 then (u, ar_success (ucast (ua_mcr u)) False)
      else if off = 5 then
        (u\<lparr>ua_overrun_error := False\<rparr>, ar_success (ucast (uart_line_status u)) False)
      else if off = 6 then (u, ar_success 0 False)
      else if off = 7 then (u, ar_success (ucast (ua_scr u)) False)
      else (u, ar_success 0 False))"

definition uart_write_fcr :: "uart \<Rightarrow> u8 \<Rightarrow> uart" where
  "uart_write_fcr u b =
     (let u1 = u\<lparr>ua_fcr := b AND 0xC9\<rparr>;
          u2 = (if b AND kFcrClearRx \<noteq> 0 then reset_rx_fifo u1 else u1);
          u3 = (if b AND kFcrClearTx \<noteq> 0 then reset_tx_fifo u2 else u2) in
      if b AND kFcrEnableFifo = 0 then u3\<lparr>ua_fcr := 0\<rparr> else u3)"

definition uart_write ::
    "uart \<Rightarrow> u64 \<Rightarrow> access_width \<Rightarrow> u64 \<Rightarrow> access_type \<Rightarrow> uart \<times> access_result" where
  "uart_write u off w v t =
     (let validation = uart_validate_access off w in
      if \<not> ar_ok validation then (u, validation)
      else
        let b = ucast v :: u8 in
        ((if off = 0 then
            (if dlab_enabled u then u\<lparr>ua_dll := b\<rparr>
             else if length (ua_tx_fifo u) < kFifoCapacity then u\<lparr>ua_tx_fifo := ua_tx_fifo u @ [b]\<rparr>
             else u)
          else if off = 1 then
            (if dlab_enabled u then u\<lparr>ua_dlm := b\<rparr> else u\<lparr>ua_ier := b AND kWritableIerMask\<rparr>)
          else if off = 2 then uart_write_fcr u b
          else if off = 3 then u\<lparr>ua_lcr := b\<rparr>
          else if off = 4 then u\<lparr>ua_mcr := b AND 0x1F\<rparr>
          else if off = 5 \<or> off = 6 then u
          else if off = 7 then u\<lparr>ua_scr := b\<rparr>
          else u), ar_success 0 False))"

definition uart_compare_exchange ::
    "uart \<Rightarrow> u64 \<Rightarrow> access_width \<Rightarrow> u64 \<Rightarrow> u64 \<Rightarrow> access_type \<Rightarrow> uart \<times> access_result" where
  "uart_compare_exchange u off w expected desired t = (u, uart_invalid_access off w)"

definition uart_wf :: "uart \<Rightarrow> bool" where
  "uart_wf u \<longleftrightarrow> length (ua_rx_fifo u) \<le> kFifoCapacity \<and> length (ua_tx_fifo u) \<le> kFifoCapacity
     \<and> ua_ier u \<le> kWritableIerMask \<and> ua_mcr u \<le> 0x1F"

text \<open>
  A run of the device with everything that goes in and out of it. An offered byte is recorded with the number of
  bytes its FIFO held at that moment: on the receive side every byte of \<open>push_rx\<close>, on the transmit side every byte
  stored to THR. A fate is a byte that left a FIFO and whether its reader got it (the guest through RBR, the host
  through \<open>pop_tx\<close>) or an FCR write discarded it.
\<close>

datatype uart_event =
  UartPushRx u8
| UartPopTx
| UartRead u64 access_width access_type
| UartWrite u64 access_width u64 access_type

record uart_trace =
  ut_uart :: uart
  ut_rx_offered :: "(u8 \<times> nat) list"
  ut_rx_answers :: "bool list"
  ut_rx_fates :: "(u8 \<times> bool) list"
  ut_tx_offered :: "(u8 \<times> nat) list"
  ut_tx_fates :: "(u8 \<times> bool) list"

definition fcr_clears :: "u8 \<Rightarrow> u64 \<Rightarrow> access_width \<Rightarrow> u64 \<Rightarrow> bool" where
  "fcr_clears clear_bit off w v \<longleftrightarrow> off = 2 \<and> w = Byte \<and> ucast v AND clear_bit \<noteq> 0"

fun uart_event_step :: "uart_trace \<Rightarrow> uart_event \<Rightarrow> uart_trace" where
  "uart_event_step x (UartPushRx b) =
     (let (u', ok) = push_rx (ut_uart x) b in
      x\<lparr>ut_uart := u', ut_rx_offered := ut_rx_offered x @ [(b, length (ua_rx_fifo (ut_uart x)))],
        ut_rx_answers := ut_rx_answers x @ [ok]\<rparr>)"
| "uart_event_step x UartPopTx =
     (let (u', r) = pop_tx (ut_uart x) in
      x\<lparr>ut_uart := u', ut_tx_fates := ut_tx_fates x @ (case r of None \<Rightarrow> [] | Some b \<Rightarrow> [(b, True)])\<rparr>)"
| "uart_event_step x (UartRead off w t) =
     (let (u', r) = uart_read (ut_uart x) off w t;
          from_fifo = (off = 0 \<and> w = Byte \<and> \<not> dlab_enabled (ut_uart x)
                       \<and> ua_rx_fifo (ut_uart x) \<noteq> []) in
      x\<lparr>ut_uart := u', ut_rx_fates := ut_rx_fates x @ (if from_fifo then [(ucast (ar_value r), True)] else [])\<rparr>)"
| "uart_event_step x (UartWrite off w v t) =
     (let u = ut_uart x;
          u' = fst (uart_write u off w v t);
          to_thr = (off = 0 \<and> w = Byte \<and> \<not> dlab_enabled u) in
      x\<lparr>ut_uart := u',
        ut_rx_fates := ut_rx_fates x @ (if fcr_clears kFcrClearRx off w v then map (\<lambda>b. (b, False)) (ua_rx_fifo u) else []),
        ut_tx_fates := ut_tx_fates x @ (if fcr_clears kFcrClearTx off w v then map (\<lambda>b. (b, False)) (ua_tx_fifo u) else []),
        ut_tx_offered := ut_tx_offered x @ (if to_thr then [(ucast v, length (ua_tx_fifo u))] else [])\<rparr>)"

definition uart_trace_start :: "u32 \<Rightarrow> uart_trace" where
  "uart_trace_start source = \<lparr>ut_uart = uart_create source, ut_rx_offered = [], ut_rx_answers = [], ut_rx_fates = [],
     ut_tx_offered = [], ut_tx_fates = []\<rparr>"

abbreviation uart_run :: "u32 \<Rightarrow> uart_event list \<Rightarrow> uart_trace" where
  "uart_run source es \<equiv> foldl uart_event_step (uart_trace_start source) es"

text \<open>FCR writes with a clear bit discard a FIFO.\<close>

fun uart_clears :: "uart_event \<Rightarrow> bool" where
  "uart_clears (UartWrite off w v t) \<longleftrightarrow> fcr_clears kFcrClearRx off w v \<or> fcr_clears kFcrClearTx off w v"
| "uart_clears _ \<longleftrightarrow> False"

subsection \<open>Lemmas\<close>

lemma require_uart_range_ok: "require_uart_range = Inr uart_range"
  by (simp add: require_uart_range_def uart_range_def range_create_def address_map_defs)

lemma uart_invalid_access_not_ok [simp]:
  "\<not> ar_ok (uart_invalid_access off w)" "\<not> ar_exchanged (uart_invalid_access off w)"
  "ar_value (uart_invalid_access off w) = 0"
  by (simp_all add: uart_invalid_access_def)

lemma uart_validate_ok_iff: "ar_ok (uart_validate_access off w) \<longleftrightarrow> w = Byte \<and> off \<le> 7"
  by (auto simp: uart_validate_access_def not_less)

lemma uart_validate_value [simp]: "\<not> ar_exchanged (uart_validate_access off w)"
  by (simp add: uart_validate_access_def)

lemma uart_wf_create: "uart_wf (uart_create s)"
  by (simp add: uart_wf_def uart_create_def)

lemma uart_wf_push_rx: "uart_wf u \<Longrightarrow> uart_wf (fst (push_rx u b))"
  by (simp add: push_rx_def uart_wf_def)

lemma uart_wf_pop_tx: "uart_wf u \<Longrightarrow> uart_wf (fst (pop_tx u))"
  by (cases "ua_tx_fifo u") (simp_all add: pop_tx_def uart_wf_def)

lemma uart_read_state:
  "fst (uart_read u off w t) =
     (if w = Byte \<and> off = 0 \<and> \<not> dlab_enabled u then u\<lparr>ua_rx_fifo := tl (ua_rx_fifo u)\<rparr>
      else if w = Byte \<and> off = 5 then u\<lparr>ua_overrun_error := False\<rparr> else u)"
  by (cases "ua_rx_fifo u") (auto simp: uart_read_def Let_def uart_validate_ok_iff)

lemma uart_wf_read: "uart_wf u \<Longrightarrow> uart_wf (fst (uart_read u off w t))"
  by (auto simp: uart_read_state uart_wf_def)

lemma uart_wf_write_fcr: "uart_wf u \<Longrightarrow> uart_wf (uart_write_fcr u b)"
  by (simp add: uart_write_fcr_def Let_def uart_wf_def reset_rx_fifo_def reset_tx_fifo_def)

lemma uart_wf_write: "uart_wf u \<Longrightarrow> uart_wf (fst (uart_write u off w v t))"
proof -
  assume u: "uart_wf u"
  have m: "(x :: u8) AND 0x0F \<le> 0x0F" "(x :: u8) AND 0x1F \<le> 0x1F" for x by (rule word_and_le1)+
  show ?thesis
    using u m [of "ucast v"] uart_wf_write_fcr [OF u, of "ucast v"]
    by (simp add: uart_write_def Let_def uart_wf_def)
qed

lemma take_bit_8_ucast [simp]: "take_bit 8 (ucast (x :: u8) :: u64) = ucast x"
proof (rule bit_word_eqI)
  fix n
  show "bit (take_bit 8 (ucast x :: u64)) n = bit (ucast x :: u64) n"
    using bit_imp_le_length [of x n] by (auto simp: bit_simps)
qed

lemma uart_read_value:
  "w = Byte \<Longrightarrow> \<exists>b :: u8. ar_value (snd (uart_read u off w t)) = ucast b"
  by (cases "ua_rx_fifo u")
    (auto simp: uart_read_def Let_def uart_validate_access_def intro: exI [of _ "0 :: u8"])

lemma uart_read_ok_iff [simp]: "ar_ok (snd (uart_read u off w t)) \<longleftrightarrow> w = Byte \<and> off \<le> 7"
  by (cases "ua_rx_fifo u") (auto simp: uart_read_def Let_def uart_validate_ok_iff)

lemma uart_write_ok_iff [simp]: "ar_ok (snd (uart_write u off w v t)) \<longleftrightarrow> w = Byte \<and> off \<le> 7"
  by (auto simp: uart_write_def Let_def uart_validate_ok_iff)

lemma uart_write_fail: "\<not> (w = Byte \<and> off \<le> 7) \<Longrightarrow> fst (uart_write u off w v t) = u"
  by (simp add: uart_write_def Let_def uart_validate_ok_iff)

lemma uart_read_fail: "\<not> (w = Byte \<and> off \<le> 7) \<Longrightarrow> fst (uart_read u off w t) = u"
  by (simp add: uart_read_def Let_def uart_validate_ok_iff)

interpretation uart_region: address_region uart_read uart_write uart_compare_exchange
    "\<lambda>_. uart_range" uart_wf
proof unfold_locales
  fix u off w t assume "ar_ok (snd (uart_read u off w t))"
  then have "w = Byte" by simp
  with uart_read_value [of w u off t]
  show "take_bit (8 * unat (width_in_bytes w)) (ar_value (snd (uart_read u off w t)))
          = ar_value (snd (uart_read u off w t))" by auto
qed (simp_all add: uart_wf_read uart_wf_write uart_read_fail uart_write_fail uart_compare_exchange_def)

subsection \<open>Properties\<close>

abbreviation had_room :: "(u8 \<times> nat) list \<Rightarrow> u8 list" where
  "had_room offered \<equiv> map fst (filter (\<lambda>(b, held). held < 16) offered)"

definition uart_trace_ok :: "uart_trace \<Rightarrow> bool" where
  "uart_trace_ok x \<longleftrightarrow> uart_wf (ut_uart x)
     \<and> had_room (ut_rx_offered x) = map fst (ut_rx_fates x) @ ua_rx_fifo (ut_uart x)
     \<and> ut_rx_answers x = map (\<lambda>(b, held). held < 16) (ut_rx_offered x)
     \<and> had_room (ut_tx_offered x) = map fst (ut_tx_fates x) @ ua_tx_fifo (ut_uart x)"

lemma uart_write_fifos:
  "ua_rx_fifo (fst (uart_write u off w v t)) = (if w = Byte \<and> off = 2 \<and> ucast v AND kFcrClearRx \<noteq> (0 :: u8)
      then [] else ua_rx_fifo u)"
  "ua_tx_fifo (fst (uart_write u off w v t)) =
     (if w = Byte \<and> off = 0 \<and> \<not> dlab_enabled u \<and> length (ua_tx_fifo u) < 16 then ua_tx_fifo u @ [ucast v]
      else if w = Byte \<and> off = 2 \<and> ucast v AND kFcrClearTx \<noteq> (0 :: u8) then [] else ua_tx_fifo u)"
  by (auto simp: uart_write_def Let_def uart_validate_ok_iff uart_write_fcr_def reset_rx_fifo_def
      reset_tx_fifo_def)

lemma uart_read_rbr:
  "\<not> dlab_enabled u \<Longrightarrow> ua_rx_fifo u = b # rest \<Longrightarrow> ar_value (snd (uart_read u 0 Byte t)) = ucast b"
  by (simp add: uart_read_def Let_def uart_validate_access_def)

lemma ucast_u8_u64 [simp]: "ucast (ucast (b :: u8) :: u64) = b"
  by (rule bit_word_eqI) (auto simp: bit_simps)

lemma uart_trace_step: "uart_trace_ok x \<Longrightarrow> uart_trace_ok (uart_event_step x e)"
proof (cases e)
  case (UartPushRx b)
  assume "uart_trace_ok x"
  then show ?thesis
    using UartPushRx uart_wf_push_rx [of "ut_uart x" b]
    by (auto simp: uart_trace_ok_def push_rx_def)
next
  case UartPopTx
  assume "uart_trace_ok x"
  then show ?thesis
    using UartPopTx uart_wf_pop_tx [of "ut_uart x"]
    by (cases "ua_tx_fifo (ut_uart x)") (auto simp: uart_trace_ok_def pop_tx_def)
next
  case (UartRead off w t)
  assume "uart_trace_ok x"
  then show ?thesis
    using UartRead uart_wf_read [of "ut_uart x" off w t] uart_read_rbr [of "ut_uart x" _ _ t]
    by (cases "ua_rx_fifo (ut_uart x)")
      (auto simp: uart_trace_ok_def split_beta Let_def uart_read_state)
next
  case (UartWrite off w v t)
  assume "uart_trace_ok x"
  then show ?thesis
    using UartWrite uart_wf_write [of "ut_uart x" off w v t]
    by (auto simp: uart_trace_ok_def split_beta Let_def uart_write_fifos fcr_clears_def comp_def)
qed

lemma uart_trace_run: "uart_trace_ok (uart_run source es)"
proof -
  have "uart_trace_ok (foldl uart_event_step x es)" if "uart_trace_ok x" for x
    using that by (induction es arbitrary: x) (simp_all add: uart_trace_step)
  moreover have "uart_trace_ok (uart_trace_start source)"
    using uart_wf_create by (simp add: uart_trace_ok_def uart_trace_start_def) (simp add: uart_create_def)
  ultimately show ?thesis by blast
qed

lemma uart_step_fates:
  assumes "\<not> uart_clears e"
  shows "\<exists>got. ut_rx_fates (uart_event_step x e) = ut_rx_fates x @ got \<and> list_all snd got"
    "\<exists>got. ut_tx_fates (uart_event_step x e) = ut_tx_fates x @ got \<and> list_all snd got"
  using assms by (cases e; auto simp: split_beta Let_def split: option.split)+

lemma uart_run_fates:
  assumes "\<forall>e\<in>set es. \<not> uart_clears e" "list_all snd (ut_rx_fates x @ ut_tx_fates x)"
  shows "list_all snd (ut_rx_fates (foldl uart_event_step x es) @ ut_tx_fates (foldl uart_event_step x es))"
  using assms
proof (induction es arbitrary: x)
  case (Cons e es)
  from Cons.prems uart_step_fates [of e x] have "list_all snd (ut_rx_fates (uart_event_step x e) @ ut_tx_fates (uart_event_step x e))"
    by auto
  with Cons show ?case by simp
qed simp



text \<open>The line status register always announces an empty transmit holding register, also when the
  16-byte transmit FIFO is full: a guest that polls it before every store to THR is told to go ahead,
  and its byte is then dropped while the store reports success.\<close>

theorem uart_full_fifo_drops_byte:
  assumes "\<not> dlab_enabled u" and "length (ua_tx_fifo u) = 16"
  shows "ar_value (snd (uart_read u 5 Byte t)) AND ucast kLsrThrEmpty \<noteq> 0
    \<and> ar_ok (snd (uart_write u 0 Byte v t)) \<and> fst (uart_write u 0 Byte v t) = u"
  using assms
  by (simp add: uart_read_def uart_write_def Let_def uart_validate_access_def uart_line_status_def)

theorem uart_full_fifo_drops_byte_witness:
  "uart_write ((uart_create 10)\<lparr>ua_tx_fifo := replicate 16 0\<rparr>) 0 Byte 7 Store
     = ((uart_create 10)\<lparr>ua_tx_fifo := replicate 16 0\<rparr>, ar_success 0 False)"
proof -
  have "\<not> dlab_enabled ((uart_create 10)\<lparr>ua_tx_fifo := replicate 16 0\<rparr>)"
    by (simp add: dlab_enabled_def uart_create_def)
  from uart_full_fifo_drops_byte [OF this] show ?thesis
    by (simp add: uart_write_def Let_def uart_validate_access_def dlab_enabled_def uart_create_def)
qed

end
