(* ===== verification/Virtio_Mmio.thy ===== *)
theory Virtio_Mmio
  imports Plic
begin

text \<open>
  The VirtIO 1.x MMIO transport (\<open>src/devices/virtio_mmio.cpp\<close>): the register file, the feature
  negotiation and status state machine, queue set-up and the notification gate. The queue array has
  its declared eight elements; the notification deque is a list.
\<close>

datatype virtio_device_id = VirtioBlock | VirtioNetwork

fun virtio_device_id_value :: "virtio_device_id \<Rightarrow> u32" where
  "virtio_device_id_value VirtioBlock = 2"
| "virtio_device_id_value VirtioNetwork = 1"

record virtio_config =
  vc_name :: string
  vc_base :: u64
  vc_size :: u64
  vc_device_id :: virtio_device_id
  vc_vendor_id :: u32
  vc_device_features :: u64
  vc_interrupt_source :: u32
  vc_queue_count :: u16
  vc_queue_size_max :: u16

record queue_state =
  qs_size :: u16
  qs_ready :: bool
  qs_descriptor_table :: u64
  qs_available_ring :: u64
  qs_used_ring :: u64

record virtio =
  vi_range :: address_range
  vi_config :: virtio_config
  vi_offered_features :: u64
  vi_driver_features :: u64
  vi_device_features_selector :: u32
  vi_driver_features_selector :: u32
  vi_queue_selector :: u16
  vi_interrupt_status :: u32
  vi_status :: u32
  vi_config_generation :: u32
  vi_generation :: u64
  vi_queues :: "queue_state list"
  vi_notifications :: "u16 list"

record virtqueue_layout =
  vl_size :: u16
  vl_descriptor_table :: u64
  vl_available_ring :: u64
  vl_used_ring :: u64
  vl_ready :: bool
  vl_indirect_enabled :: bool
  vl_event_idx_enabled :: bool

abbreviation (input) kMagicValue :: u32 where "kMagicValue \<equiv> 0x74726976"
abbreviation (input) kVersion :: u32 where "kVersion \<equiv> 2"
abbreviation (input) kFeatureVersion1 :: u64 where "kFeatureVersion1 \<equiv> bit64 32"
abbreviation (input) kFeatureIndirectDesc :: u64 where "kFeatureIndirectDesc \<equiv> bit64 28"
abbreviation (input) kFeatureEventIdx :: u64 where "kFeatureEventIdx \<equiv> bit64 29"

abbreviation (input) kMagicValueOffset :: u64 where "kMagicValueOffset \<equiv> 0x000"
abbreviation (input) kVersionOffset :: u64 where "kVersionOffset \<equiv> 0x004"
abbreviation (input) kDeviceIdOffset :: u64 where "kDeviceIdOffset \<equiv> 0x008"
abbreviation (input) kVendorIdOffset :: u64 where "kVendorIdOffset \<equiv> 0x00C"
abbreviation (input) kDeviceFeaturesOffset :: u64 where "kDeviceFeaturesOffset \<equiv> 0x010"
abbreviation (input) kDeviceFeaturesSelOffset :: u64 where "kDeviceFeaturesSelOffset \<equiv> 0x014"
abbreviation (input) kDriverFeaturesOffset :: u64 where "kDriverFeaturesOffset \<equiv> 0x020"
abbreviation (input) kDriverFeaturesSelOffset :: u64 where "kDriverFeaturesSelOffset \<equiv> 0x024"
abbreviation (input) kQueueSelOffset :: u64 where "kQueueSelOffset \<equiv> 0x030"
abbreviation (input) kQueueNumMaxOffset :: u64 where "kQueueNumMaxOffset \<equiv> 0x034"
abbreviation (input) kQueueNumOffset :: u64 where "kQueueNumOffset \<equiv> 0x038"
abbreviation (input) kQueueReadyOffset :: u64 where "kQueueReadyOffset \<equiv> 0x044"
abbreviation (input) kQueueNotifyOffset :: u64 where "kQueueNotifyOffset \<equiv> 0x050"
abbreviation (input) kInterruptStatusOffset :: u64 where "kInterruptStatusOffset \<equiv> 0x060"
abbreviation (input) kInterruptAckOffset :: u64 where "kInterruptAckOffset \<equiv> 0x064"
abbreviation (input) kStatusOffset :: u64 where "kStatusOffset \<equiv> 0x070"
abbreviation (input) kQueueDescLowOffset :: u64 where "kQueueDescLowOffset \<equiv> 0x080"
abbreviation (input) kQueueDescHighOffset :: u64 where "kQueueDescHighOffset \<equiv> 0x084"
abbreviation (input) kQueueDriverLowOffset :: u64 where "kQueueDriverLowOffset \<equiv> 0x090"
abbreviation (input) kQueueDriverHighOffset :: u64 where "kQueueDriverHighOffset \<equiv> 0x094"
abbreviation (input) kQueueDeviceLowOffset :: u64 where "kQueueDeviceLowOffset \<equiv> 0x0A0"
abbreviation (input) kQueueDeviceHighOffset :: u64 where "kQueueDeviceHighOffset \<equiv> 0x0A4"
abbreviation (input) kConfigGenerationOffset :: u64 where "kConfigGenerationOffset \<equiv> 0x0FC"

abbreviation (input) kStatusAcknowledge :: u32 where "kStatusAcknowledge \<equiv> 1"
abbreviation (input) kStatusDriver :: u32 where "kStatusDriver \<equiv> 2"
abbreviation (input) kStatusDriverOk :: u32 where "kStatusDriverOk \<equiv> 4"
abbreviation (input) kStatusFeaturesOk :: u32 where "kStatusFeaturesOk \<equiv> 8"
abbreviation (input) kStatusFailed :: u32 where "kStatusFailed \<equiv> 128"
abbreviation (input) kStatusKnownMask :: u32 where "kStatusKnownMask \<equiv> 207"
abbreviation (input) kInterruptUsedBuffer :: u32 where "kInterruptUsedBuffer \<equiv> 1"

definition virtio_require_range :: "virtio_config \<Rightarrow> host_exception + address_range" where
  "virtio_require_range c =
     (case range_create (vc_base c) (vc_size c) of None \<Rightarrow> Inl LogicError | Some r \<Rightarrow> Inr r)"

definition virtio_invalid_access :: "virtio_config \<Rightarrow> u64 \<Rightarrow> access_width \<Rightarrow> access_result" where
  "virtio_invalid_access c off w =
     ar_failure (make_error InvalidWidth (vc_base c + off) (width_in_bytes w) (vc_name c))"

definition power_of_two :: "u16 \<Rightarrow> bool" where
  "power_of_two v \<longleftrightarrow> v \<noteq> 0 \<and> v AND (v - 1) = 0"

definition aligned :: "u64 \<Rightarrow> u64 \<Rightarrow> bool" where
  "aligned v alignment \<longleftrightarrow> v \<noteq> 0 \<and> v mod alignment = 0"

definition low32 :: "u64 \<Rightarrow> u32" where
  "low32 v = ucast (v AND 0xFFFFFFFF)"

definition high32 :: "u64 \<Rightarrow> u32" where
  "high32 v = ucast (drop_bit 32 v)"

definition write_low32 :: "u64 \<Rightarrow> u32 \<Rightarrow> u64" where
  "write_low32 target v = (target AND 0xFFFFFFFF00000000) OR ucast v"

definition write_high32 :: "u64 \<Rightarrow> u32 \<Rightarrow> u64" where
  "write_high32 target v = (target AND 0x00000000FFFFFFFF) OR push_bit 32 (ucast v)"

definition empty_queue :: queue_state where
  "empty_queue = \<lparr>qs_size = 0, qs_ready = False, qs_descriptor_table = 0, qs_available_ring = 0,
     qs_used_ring = 0\<rparr>"

definition virtio_create :: "virtio_config \<Rightarrow> host_exception + virtio" where
  "virtio_create c =
     (case virtio_require_range c of
        Inl e \<Rightarrow> Inl e
      | Inr r \<Rightarrow>
          if vc_queue_count c = 0 \<or> vc_queue_count c > 8 then Inl InvalidArgument
          else if \<not> power_of_two (vc_queue_size_max c) then Inl InvalidArgument
          else Inr \<lparr>vi_range = r, vi_config = c,
             vi_offered_features = vc_device_features c OR kFeatureVersion1, vi_driver_features = 0,
             vi_device_features_selector = 0, vi_driver_features_selector = 0, vi_queue_selector = 0,
             vi_interrupt_status = 0, vi_status = 0, vi_config_generation = 0, vi_generation = 0,
             vi_queues = replicate 8 empty_queue, vi_notifications = []\<rparr>)"

definition virtio_synchronize :: "virtio \<Rightarrow> plic \<Rightarrow> plic" where
  "virtio_synchronize d p =
     set_source_level p (vc_interrupt_source (vi_config d)) (vi_interrupt_status d \<noteq> 0)"

definition pop_notification :: "virtio \<Rightarrow> virtio \<times> u16 option" where
  "pop_notification d =
     (case vi_notifications d of
        [] \<Rightarrow> (d, None)
      | q # rest \<Rightarrow> (d\<lparr>vi_notifications := rest\<rparr>, Some q))"

definition raise_used_buffer_interrupt :: "virtio \<Rightarrow> virtio" where
  "raise_used_buffer_interrupt d =
     d\<lparr>vi_interrupt_status := vi_interrupt_status d OR kInterruptUsedBuffer\<rparr>"

definition queue_layout :: "virtio \<Rightarrow> u16 \<Rightarrow> virtqueue_layout" where
  "queue_layout d queue_index =
     (if queue_index \<ge> vc_queue_count (vi_config d)
      then \<lparr>vl_size = 0, vl_descriptor_table = 0, vl_available_ring = 0, vl_used_ring = 0,
            vl_ready = False, vl_indirect_enabled = False, vl_event_idx_enabled = False\<rparr>
      else
        let queue = vi_queues d ! unat queue_index;
            accepted_features = (if vi_status d AND kStatusFeaturesOk \<noteq> 0
                                 then vi_driver_features d AND vi_offered_features d else 0) in
        \<lparr>vl_size = qs_size queue, vl_descriptor_table = qs_descriptor_table queue,
         vl_available_ring = qs_available_ring queue, vl_used_ring = qs_used_ring queue,
         vl_ready = qs_ready queue,
         vl_indirect_enabled = (accepted_features AND kFeatureIndirectDesc \<noteq> 0),
         vl_event_idx_enabled = (accepted_features AND kFeatureEventIdx \<noteq> 0)\<rparr>)"

definition validate_register_access :: "virtio \<Rightarrow> u64 \<Rightarrow> access_width \<Rightarrow> access_result" where
  "validate_register_access d off w =
     (if w \<noteq> Word32 \<or> off AND 3 \<noteq> 0 then virtio_invalid_access (vi_config d) off w
      else ar_success 0 False)"

definition virtio_reset :: "virtio \<Rightarrow> virtio" where
  "virtio_reset d =
     d\<lparr>vi_driver_features := 0, vi_device_features_selector := 0, vi_driver_features_selector := 0,
       vi_queue_selector := 0, vi_interrupt_status := 0, vi_status := 0,
       vi_config_generation := vi_config_generation d + 1, vi_generation := vi_generation d + 1,
       vi_notifications := [], vi_queues := replicate 8 empty_queue\<rparr>"

definition read_feature_page :: "u64 \<Rightarrow> u32 \<Rightarrow> u32" where
  "read_feature_page features selector =
     (if selector = 0 then low32 features else if selector = 1 then high32 features else 0)"

definition queue_parameters_valid :: "virtio_config \<Rightarrow> queue_state \<Rightarrow> bool" where
  "queue_parameters_valid c queue =
     (if qs_size queue = 0 \<or> qs_size queue > vc_queue_size_max c \<or> \<not> power_of_two (qs_size queue)
      then False
      else aligned (qs_descriptor_table queue) 16 \<and> aligned (qs_available_ring queue) 2
           \<and> aligned (qs_used_ring queue) 4)"

definition selected_queue_valid :: "virtio \<Rightarrow> bool" where
  "selected_queue_valid d =
     (if vi_queue_selector d \<ge> vc_queue_count (vi_config d) then False
      else queue_parameters_valid (vi_config d) (vi_queues d ! unat (vi_queue_selector d)))"

definition negotiated_status :: "u64 \<Rightarrow> u64 \<Rightarrow> u32 \<Rightarrow> u32" where
  "negotiated_status driver offered requested =
     (let base_ready = (requested AND (kStatusAcknowledge OR kStatusDriver)
                          = (kStatusAcknowledge OR kStatusDriver));
          feature_subset = (driver AND NOT offered = 0);
          modern_selected = (driver AND kFeatureVersion1 \<noteq> 0);
          requested1 = (if requested AND kStatusFeaturesOk \<noteq> 0
                           \<and> (\<not> base_ready \<or> \<not> feature_subset \<or> \<not> modern_selected)
                        then requested AND NOT kStatusFeaturesOk else requested);
          features_ok = (requested1 AND kStatusFeaturesOk \<noteq> 0) in
      if requested1 AND kStatusDriverOk \<noteq> 0 \<and> (\<not> base_ready \<or> \<not> features_ok)
      then requested1 AND NOT kStatusDriverOk else requested1)"

definition write_status :: "virtio \<Rightarrow> u32 \<Rightarrow> virtio" where
  "write_status d v =
     (if v = 0 then virtio_reset d
      else
        let requested = v AND kStatusKnownMask in
        if requested AND kStatusFailed \<noteq> 0 then d\<lparr>vi_status := requested\<rparr>
        else d\<lparr>vi_status :=
               negotiated_status (vi_driver_features d) (vi_offered_features d) requested\<rparr>)"

definition virtio_read_register :: "virtio \<Rightarrow> u64 \<Rightarrow> u32" where
  "virtio_read_register d off =
     (let valid_queue = (vi_queue_selector d < vc_queue_count (vi_config d));
          queue = vi_queues d ! (if valid_queue then unat (vi_queue_selector d) else 0) in
      if off = kMagicValueOffset then kMagicValue
      else if off = kVersionOffset then kVersion
      else if off = kDeviceIdOffset then virtio_device_id_value (vc_device_id (vi_config d))
      else if off = kVendorIdOffset then vc_vendor_id (vi_config d)
      else if off = kDeviceFeaturesOffset
        then read_feature_page (vi_offered_features d) (vi_device_features_selector d)
      else if off = kQueueNumMaxOffset
        then (if valid_queue then ucast (vc_queue_size_max (vi_config d)) else 0)
      else if off = kQueueNumOffset then (if valid_queue then ucast (qs_size queue) else 0)
      else if off = kQueueReadyOffset then (if valid_queue \<and> qs_ready queue then 1 else 0)
      else if off = kInterruptStatusOffset then vi_interrupt_status d
      else if off = kStatusOffset then vi_status d
      else if off = kQueueDescLowOffset
        then (if valid_queue then low32 (qs_descriptor_table queue) else 0)
      else if off = kQueueDescHighOffset
        then (if valid_queue then high32 (qs_descriptor_table queue) else 0)
      else if off = kQueueDriverLowOffset
        then (if valid_queue then low32 (qs_available_ring queue) else 0)
      else if off = kQueueDriverHighOffset
        then (if valid_queue then high32 (qs_available_ring queue) else 0)
      else if off = kQueueDeviceLowOffset then (if valid_queue then low32 (qs_used_ring queue) else 0)
      else if off = kQueueDeviceHighOffset then (if valid_queue then high32 (qs_used_ring queue) else 0)
      else if off = kConfigGenerationOffset then vi_config_generation d
      else 0)"

definition virtio_read ::
    "virtio \<Rightarrow> u64 \<Rightarrow> access_width \<Rightarrow> access_type \<Rightarrow> virtio \<times> access_result" where
  "virtio_read d off w t =
     (let validation = validate_register_access d off w in
      if \<not> ar_ok validation then (d, validation)
      else (d, ar_success (ucast (virtio_read_register d off)) False))"

text \<open>An assignment to a field of the selected queue, guarded by \<open>valid_queue\<close> (and \<open>!queue.ready\<close>).\<close>

definition update_selected :: "virtio \<Rightarrow> (queue_state \<Rightarrow> queue_state) \<Rightarrow> virtio" where
  "update_selected d f =
     (let i = unat (vi_queue_selector d) in d\<lparr>vi_queues := (vi_queues d)[i := f (vi_queues d ! i)]\<rparr>)"

definition virtio_write_register :: "virtio \<Rightarrow> u64 \<Rightarrow> u32 \<Rightarrow> virtio" where
  "virtio_write_register d off word =
     (let valid_queue = (vi_queue_selector d < vc_queue_count (vi_config d));
          queue = vi_queues d ! (if valid_queue then unat (vi_queue_selector d) else 0);
          unlocked = (valid_queue \<and> \<not> qs_ready queue) in
      if off = kDeviceFeaturesSelOffset then d\<lparr>vi_device_features_selector := word\<rparr>
      else if off = kDriverFeaturesSelOffset then d\<lparr>vi_driver_features_selector := word\<rparr>
      else if off = kDriverFeaturesOffset then
        (if vi_driver_features_selector d = 0
         then d\<lparr>vi_driver_features := write_low32 (vi_driver_features d) word\<rparr>
         else if vi_driver_features_selector d = 1
         then d\<lparr>vi_driver_features := write_high32 (vi_driver_features d) word\<rparr>
         else d)
      else if off = kQueueSelOffset then d\<lparr>vi_queue_selector := ucast word\<rparr>
      else if off = kQueueNumOffset then
        (if unlocked then update_selected d (\<lambda>q. q\<lparr>qs_size := ucast word\<rparr>) else d)
      else if off = kQueueReadyOffset then
        (if valid_queue
         then update_selected d (\<lambda>q. q\<lparr>qs_ready := (word \<noteq> 0 \<and> selected_queue_valid d)\<rparr>) else d)
      else if off = kQueueNotifyOffset then
        (if vi_status d AND kStatusDriverOk \<noteq> 0 \<and> word < ucast (vc_queue_count (vi_config d))
            \<and> qs_ready (vi_queues d ! unat word)
         then d\<lparr>vi_notifications := vi_notifications d @ [ucast word]\<rparr> else d)
      else if off = kInterruptAckOffset
        then d\<lparr>vi_interrupt_status := vi_interrupt_status d AND NOT word\<rparr>
      else if off = kStatusOffset then write_status d word
      else if off = kQueueDescLowOffset then
        (if unlocked then update_selected d
           (\<lambda>q. q\<lparr>qs_descriptor_table := write_low32 (qs_descriptor_table q) word\<rparr>) else d)
      else if off = kQueueDescHighOffset then
        (if unlocked then update_selected d
           (\<lambda>q. q\<lparr>qs_descriptor_table := write_high32 (qs_descriptor_table q) word\<rparr>) else d)
      else if off = kQueueDriverLowOffset then
        (if unlocked then update_selected d
           (\<lambda>q. q\<lparr>qs_available_ring := write_low32 (qs_available_ring q) word\<rparr>) else d)
      else if off = kQueueDriverHighOffset then
        (if unlocked then update_selected d
           (\<lambda>q. q\<lparr>qs_available_ring := write_high32 (qs_available_ring q) word\<rparr>) else d)
      else if off = kQueueDeviceLowOffset then
        (if unlocked then update_selected d
           (\<lambda>q. q\<lparr>qs_used_ring := write_low32 (qs_used_ring q) word\<rparr>) else d)
      else if off = kQueueDeviceHighOffset then
        (if unlocked then update_selected d
           (\<lambda>q. q\<lparr>qs_used_ring := write_high32 (qs_used_ring q) word\<rparr>) else d)
      else d)"

definition virtio_write ::
    "virtio \<Rightarrow> u64 \<Rightarrow> access_width \<Rightarrow> u64 \<Rightarrow> access_type \<Rightarrow> virtio \<times> access_result" where
  "virtio_write d off w v t =
     (let validation = validate_register_access d off w in
      if \<not> ar_ok validation then (d, validation)
      else (virtio_write_register d off (ucast v), ar_success 0 False))"

definition virtio_compare_exchange ::
    "virtio \<Rightarrow> u64 \<Rightarrow> access_width \<Rightarrow> u64 \<Rightarrow> u64 \<Rightarrow> access_type \<Rightarrow> virtio \<times> access_result" where
  "virtio_compare_exchange d off w expected desired t = (d, virtio_invalid_access (vi_config d) off w)"

text \<open>The invariant: only valid, in-range queues are ready; DRIVER_OK outside FAILED stands on a
  completed negotiation; queued notifications name existing queues.\<close>

definition virtio_status_ok :: "u32 \<Rightarrow> bool" where
  "virtio_status_ok s \<longleftrightarrow>
     (s AND kStatusFailed = 0 \<longrightarrow> s AND kStatusDriverOk \<noteq> 0 \<longrightarrow>
        s AND kStatusFeaturesOk \<noteq> 0 \<and> s AND kStatusDriver \<noteq> 0 \<and> s AND kStatusAcknowledge \<noteq> 0)"

definition virtio_wf :: "virtio \<Rightarrow> bool" where
  "virtio_wf d \<longleftrightarrow>
     range_wf (vi_range d) \<and> length (vi_queues d) = 8
   \<and> vc_queue_count (vi_config d) \<noteq> 0 \<and> vc_queue_count (vi_config d) \<le> 8
   \<and> power_of_two (vc_queue_size_max (vi_config d))
   \<and> (\<forall>i < 8. qs_ready (vi_queues d ! i) \<longrightarrow>
        i < unat (vc_queue_count (vi_config d)) \<and> queue_parameters_valid (vi_config d) (vi_queues d ! i))
   \<and> virtio_status_ok (vi_status d)
   \<and> (\<forall>q \<in> set (vi_notifications d). q < vc_queue_count (vi_config d))"

datatype virtio_event =
  VirtioRead u64 access_width access_type
| VirtioWrite u64 access_width u64 access_type
| VirtioPopNotification
| VirtioRaiseUsed

fun virtio_step :: "virtio \<Rightarrow> virtio_event \<Rightarrow> virtio" where
  "virtio_step d (VirtioRead off w t) = fst (virtio_read d off w t)"
| "virtio_step d (VirtioWrite off w v t) = fst (virtio_write d off w v t)"
| "virtio_step d VirtioPopNotification = fst (pop_notification d)"
| "virtio_step d VirtioRaiseUsed = raise_used_buffer_interrupt d"

subsection \<open>Lemmas\<close>

lemma virtio_create_wf: "virtio_create c = Inr d \<Longrightarrow> virtio_wf d \<and> vi_config d = c"
  by (auto simp: virtio_create_def virtio_require_range_def virtio_wf_def virtio_status_ok_def
      empty_queue_def not_less intro: range_create_wf split: option.splits if_splits)

lemma u32_and_status:
  "(s :: u32) AND 1 \<noteq> 0 \<longleftrightarrow> bit s 0" "s AND 2 \<noteq> 0 \<longleftrightarrow> bit s 1" "s AND 4 \<noteq> 0 \<longleftrightarrow> bit s 2"
  "s AND 8 \<noteq> 0 \<longleftrightarrow> bit s 3" "s AND 128 \<noteq> 0 \<longleftrightarrow> bit s 7"
  using and_power_2_iff [of 0 s] and_power_2_iff [of 1 s] and_power_2_iff [of 2 s]
    and_power_2_iff [of 3 s] and_power_2_iff [of 7 s]
  by simp_all

lemma u32_and_3: "(s :: u32) AND 3 = 3 \<longleftrightarrow> bit s 0 \<and> bit s 1"
proof
  assume *: "s AND 3 = 3"
  have "bit (3 :: u32) 0" "bit (3 :: u32) 1" by (simp_all add: bit_numeral_rec)
  with * show "bit s 0 \<and> bit s 1" by (metis bit_and_iff)
next
  assume *: "bit s 0 \<and> bit s 1"
  have m: "(3 :: u32) = mask 2" by (simp add: mask_eq_exp_minus_1)
  show "s AND 3 = 3" unfolding m
    using * by (intro bit_word_eqI) (auto simp: bit_simps less_2_cases_iff)
qed

lemma bit_not_numeral [emu_bits]:
  "bit (NOT 8 :: u32) k \<longleftrightarrow> k < 32 \<and> k \<noteq> 3" "bit (NOT 4 :: u32) k \<longleftrightarrow> k < 32 \<and> k \<noteq> 2"
proof -
  have "(8 :: u32) = 2 ^ 3" "(4 :: u32) = 2 ^ 2" by simp_all
  then show "bit (NOT 8 :: u32) k \<longleftrightarrow> k < 32 \<and> k \<noteq> 3" "bit (NOT 4 :: u32) k \<longleftrightarrow> k < 32 \<and> k \<noteq> 2"
    by (auto simp only: bit_not_iff bit_exp_iff) simp_all
qed

lemma negotiated_status_ok:
  assumes "\<not> bit r 7"
  shows "virtio_status_ok (negotiated_status drv off r)"
    and "bit (negotiated_status drv off r) 3 \<Longrightarrow> drv AND NOT off = 0 \<and> bit drv 32"
proof -
  have e: "(1 :: u32) OR 2 = 3" by simp
  show "virtio_status_ok (negotiated_status drv off r)"
    "bit (negotiated_status drv off r) 3 \<Longrightarrow> drv AND NOT off = 0 \<and> bit drv 32"
    unfolding negotiated_status_def virtio_status_ok_def e u32_and_3 Let_def u32_and_status
    by (auto simp: bit_and_iff emu_bits u32_and_status split: if_splits)
qed

lemma virtio_wf_fields:
  assumes "virtio_wf d"
  shows "length (vi_queues d) = 8" "unat (vc_queue_count (vi_config d)) \<le> 8"
  using assms by (auto simp: virtio_wf_def word_le_nat_alt)

lemma virtio_wf_upd:
  assumes "virtio_wf d"
  shows "virtio_wf (d\<lparr>vi_driver_features := f\<rparr>)" "virtio_wf (d\<lparr>vi_device_features_selector := s\<rparr>)"
    "virtio_wf (d\<lparr>vi_driver_features_selector := s\<rparr>)" "virtio_wf (d\<lparr>vi_queue_selector := q\<rparr>)"
    "virtio_wf (d\<lparr>vi_interrupt_status := s\<rparr>)"
    "virtio_status_ok s \<Longrightarrow> virtio_wf (d\<lparr>vi_status := s\<rparr>)"
    "\<forall>q \<in> set ns. q < vc_queue_count (vi_config d) \<Longrightarrow> virtio_wf (d\<lparr>vi_notifications := ns\<rparr>)"
  using assms by (simp_all add: virtio_wf_def)

lemma virtio_wf_update_selected:
  assumes "virtio_wf d" "vi_queue_selector d < vc_queue_count (vi_config d)"
    and "qs_ready (f (vi_queues d ! unat (vi_queue_selector d))) \<Longrightarrow>
         queue_parameters_valid (vi_config d) (f (vi_queues d ! unat (vi_queue_selector d)))"
  shows "virtio_wf (update_selected d f)"
  using assms
  by (auto simp: virtio_wf_def update_selected_def Let_def nth_list_update_in word_less_nat_alt)

lemma virtio_wf_reset [emu_wf]: "virtio_wf d \<Longrightarrow> virtio_wf (virtio_reset d)"
  by (simp add: virtio_wf_def virtio_reset_def empty_queue_def virtio_status_ok_def)

lemma virtio_wf_write_status [emu_wf]: "virtio_wf d \<Longrightarrow> virtio_wf (write_status d v)"
proof -
  assume d: "virtio_wf d"
  have f: "virtio_status_ok r" if "r AND 128 \<noteq> 0" for r
    using that by (simp add: virtio_status_ok_def)
  have n: "virtio_status_ok (negotiated_status (vi_driver_features d) (vi_offered_features d) r)"
    if "\<not> r AND 128 \<noteq> 0" for r
    using that by (intro negotiated_status_ok) (simp only: u32_and_status simp_thms)
  show "virtio_wf (write_status d v)"
    unfolding write_status_def Let_def using d f n
    by (simp add: virtio_wf_reset virtio_wf_upd del: not_not)
qed

lemma virtio_wf_if: "(b \<Longrightarrow> virtio_wf x) \<Longrightarrow> (\<not> b \<Longrightarrow> virtio_wf y) \<Longrightarrow> virtio_wf (if b then x else y)"
  by simp

lemma queue_parameters_valid_ready:
  "queue_parameters_valid c (q\<lparr>qs_ready := b\<rparr>) = queue_parameters_valid c q"
  by (simp add: queue_parameters_valid_def)

lemma selected_queue_valid_parameters:
  "selected_queue_valid d \<Longrightarrow>
     queue_parameters_valid (vi_config d) (vi_queues d ! unat (vi_queue_selector d))"
  by (simp add: selected_queue_valid_def split: if_splits)

lemma u16_u32_less: "(word :: u32) < ucast (n :: u16) \<Longrightarrow> (ucast word :: u16) < n"
proof -
  assume "word < ucast n"
  moreover have "unat n < 2 ^ LENGTH(16)" by (rule unsigned_less)
  then have "unat (ucast n :: u32) = unat n"
    by (simp add: unsigned_ucast_eq take_bit_nat_eq_self)
  ultimately have lt: "unat word < unat n" by (simp add: word_less_nat_alt)
  moreover have "unat (ucast word :: u16) \<le> unat word" by (simp add: unsigned_ucast_eq take_bit_nat_less_eq_self)
  ultimately show ?thesis by (simp add: word_less_nat_alt)
qed

lemma virtio_wf_write_register [emu_wf]:
  assumes d: "virtio_wf d" shows "virtio_wf (virtio_write_register d off word)"
proof -
  have n: "\<forall>q \<in> set (vi_notifications d @ [ucast word]). q < vc_queue_count (vi_config d)"
    if "word < ucast (vc_queue_count (vi_config d))"
    using d u16_u32_less [OF that] by (auto simp: virtio_wf_def)
  show ?thesis
    unfolding virtio_write_register_def Let_def
    by (intro virtio_wf_if virtio_wf_upd virtio_wf_write_status virtio_wf_update_selected d n)
      (auto simp: queue_parameters_valid_ready selected_queue_valid_parameters)
qed

lemma virtio_invalid_access_simps [simp]:
  "\<not> ar_ok (virtio_invalid_access c off w)" "\<not> ar_exchanged (virtio_invalid_access c off w)"
  by (simp_all add: virtio_invalid_access_def)

lemma validate_register_ok_iff: "ar_ok (validate_register_access d off w) \<longleftrightarrow> w = Word32 \<and> off AND 3 = 0"
  by (simp add: validate_register_access_def)

lemma validate_register_exchanged [simp]: "\<not> ar_exchanged (validate_register_access d off w)"
  by (simp add: validate_register_access_def)

lemma virtio_wf_step [emu_wf]: "virtio_wf d \<Longrightarrow> virtio_wf (virtio_step d e)"
proof (cases e)
  case VirtioPopNotification
  assume "virtio_wf d"
  then show ?thesis using VirtioPopNotification
    by (cases "vi_notifications d") (auto simp: pop_notification_def virtio_wf_def)
qed (auto simp: virtio_read_def virtio_write_def Let_def emu_wf virtio_wf_upd
    raise_used_buffer_interrupt_def)

lemma virtio_range_write: "vi_range (virtio_write_register d off v) = vi_range d"
  by (simp add: virtio_write_register_def Let_def update_selected_def write_status_def virtio_reset_def)

interpretation virtio_region: address_region virtio_read virtio_write virtio_compare_exchange
    vi_range virtio_wf
  by unfold_locales
    (auto simp: virtio_read_def virtio_write_def virtio_compare_exchange_def Let_def emu_wf
      validate_register_ok_iff virtio_range_write)

subsection \<open>Properties\<close>

text \<open>C21. Whatever the guest writes, the transport only ever exposes usable queues to the device side: after
  any sequence of register accesses, notifications and completions on a constructed transport, a queue
  whose layout is ready has an index below queue_count, a non-zero power-of-two size within the maximum
  and descriptor, available and used rings that are non-null and aligned to 16, 2 and 4 bytes; every
  pending notification names an existing queue; and DRIVER_OK without FAILED implies ACKNOWLEDGE, DRIVER
  and FEATURES_OK.\<close>

theorem virtio_ready_queues_valid:
  assumes "virtio_create c = Inr d0" and "d = foldl virtio_step d0 es"
    and "vl_ready (queue_layout d q)"
  shows "q < vc_queue_count (vi_config d) \<and> power_of_two (vl_size (queue_layout d q))
    \<and> vl_size (queue_layout d q) \<le> vc_queue_size_max (vi_config d)
    \<and> aligned (vl_descriptor_table (queue_layout d q)) 16
    \<and> aligned (vl_available_ring (queue_layout d q)) 2 \<and> aligned (vl_used_ring (queue_layout d q)) 4
    \<and> virtio_status_ok (vi_status d)
    \<and> (\<forall>n\<in>set (vi_notifications d). n < vc_queue_count (vi_config d))"
proof -
  have "virtio_wf (foldl virtio_step d0 es)" if "virtio_wf d0" for d0
    using that by (induction es arbitrary: d0) (simp_all add: virtio_wf_step)
  then have wf: "virtio_wf d" using assms(1,2) virtio_create_wf by blast
  have q: "q < vc_queue_count (vi_config d)" and r: "qs_ready (vi_queues d ! unat q)"
    using assms(3) by (auto simp: queue_layout_def Let_def not_le split: if_splits)
  have "unat q < 8" using q virtio_wf_fields(2) [OF wf] by (simp add: word_less_nat_alt)
  then have v: "queue_parameters_valid (vi_config d) (vi_queues d ! unat q)"
    using wf r by (simp add: virtio_wf_def)
  have l: "vl_size (queue_layout d q) = qs_size (vi_queues d ! unat q)"
    "vl_descriptor_table (queue_layout d q) = qs_descriptor_table (vi_queues d ! unat q)"
    "vl_available_ring (queue_layout d q) = qs_available_ring (vi_queues d ! unat q)"
    "vl_used_ring (queue_layout d q) = qs_used_ring (vi_queues d ! unat q)"
    using q [unfolded not_le [symmetric]] by (simp_all add: queue_layout_def Let_def)
  from v have "power_of_two (qs_size (vi_queues d ! unat q))"
    "qs_size (vi_queues d ! unat q) \<le> vc_queue_size_max (vi_config d)"
    "aligned (qs_descriptor_table (vi_queues d ! unat q)) 16"
    "aligned (qs_available_ring (vi_queues d ! unat q)) 2" "aligned (qs_used_ring (vi_queues d ! unat q)) 4"
    by (auto simp: queue_parameters_valid_def not_less split: if_splits)
  with wf q l show ?thesis by (simp add: virtio_wf_def)
qed

definition example_virtio_config :: virtio_config where
  "example_virtio_config = \<lparr>vc_name = ''virtio-block'', vc_base = 0x10001000, vc_size = 0x1000,
     vc_device_id = VirtioBlock, vc_vendor_id = 0x554D4551, vc_device_features = 0,
     vc_interrupt_source = 1, vc_queue_count = 1, vc_queue_size_max = 8\<rparr>"

definition example_driver :: "virtio_event list" where
  "example_driver = map (\<lambda>(off, v). VirtioWrite off Word32 v Store)
     [(0x070, 3), (0x024, 1), (0x020, 1), (0x070, 11), (0x038, 8), (0x080, 0x1000), (0x090, 0x2000),
      (0x0A0, 0x3000), (0x044, 1), (0x070, 15), (0x050, 0)]"

definition example_virtio :: virtio where
  "example_virtio = projr (virtio_create example_virtio_config)"

lemma example_virtio_created: "virtio_create example_virtio_config = Inr example_virtio"
  unfolding example_virtio_def by code_simp

theorem virtio_ready_queues_valid_witness:
  "vl_ready (queue_layout (foldl virtio_step example_virtio example_driver) 0)
   \<and> power_of_two (vl_size (queue_layout (foldl virtio_step example_virtio example_driver) 0))"
proof -
  have "vl_ready (queue_layout (foldl virtio_step example_virtio example_driver) 0)" by code_simp
  from this virtio_ready_queues_valid [OF example_virtio_created refl this] show ?thesis by blast
qed

lemma bit_status_mask: "bit (207 :: int) n \<longleftrightarrow> n \<in> {0, 1, 2, 3, 6, 7}"
proof (cases "n < 8")
  case True
  then have "n \<in> {0, 1, 2, 3, 4, 5, 6, 7}" by auto
  then show ?thesis by (auto simp: bit_numeral_rec)
next
  case False
  then have "(207 :: int) < 2 ^ n" using power_increasing [of 8 n "2 :: int"] by simp
  then have "\<not> bit (207 :: int) n" by (simp add: bit_iff_odd)
  with False show ?thesis by auto
qed

lemma and_not_status_bits:
  "bit ((r :: u32) AND NOT 4) n \<longleftrightarrow> bit r n \<and> n \<noteq> 2" "bit (r AND NOT 8) n \<longleftrightarrow> bit r n \<and> n \<noteq> 3"
proof -
  have "bit (r AND NOT (2 ^ k)) n \<longleftrightarrow> bit r n \<and> n \<noteq> k" for k
    using bit_imp_le_length [of r n] by (auto simp: bit_simps)
  from this [of 2] this [of 3] show "bit (r AND NOT 4) n \<longleftrightarrow> bit r n \<and> n \<noteq> 2" "bit (r AND NOT 8) n \<longleftrightarrow> bit r n \<and> n \<noteq> 3"
    by simp_all
qed

lemma negotiated_status_bits:
  "bit (negotiated_status drv off r) n \<longleftrightarrow> bit r n
     \<and> (n = 3 \<longrightarrow> bit r 0 \<and> bit r 1 \<and> drv AND NOT off = 0 \<and> bit drv 32)
     \<and> (n = 2 \<longrightarrow> bit r 0 \<and> bit r 1 \<and> bit r 3 \<and> drv AND NOT off = 0 \<and> bit drv 32)"
proof -
  have e: "(1 :: u32) OR 2 = 3" and v: "(drv AND kFeatureVersion1 \<noteq> 0) = bit drv 32" by (simp, simp add: emu_bits)
  show ?thesis
    unfolding negotiated_status_def e u32_and_3 Let_def u32_and_status v
    by (simp only: if_distrib [of bit] if_distribR and_not_status_bits) auto
qed


text \<open>The notification gate: a QueueNotify write queues a notification exactly when DRIVER_OK is set and
  the named queue exists and is ready, and does nothing else; a reset discards every queued
  notification, unreadies all queues, drops the interrupt and moves to a new generation.\<close>

theorem virtio_notify_gate:
  "fst (virtio_write d 0x050 Word32 v t) =
     (if bit (vi_status d) 2 \<and> (ucast v :: u32) < ucast (vc_queue_count (vi_config d))
         \<and> qs_ready (vi_queues d ! unat (ucast v :: u32))
      then d\<lparr>vi_notifications := vi_notifications d @ [ucast (ucast v :: u32)]\<rparr> else d)
   \<and> (let r = fst (virtio_write d 0x070 Word32 0 t) in
        vi_notifications r = [] \<and> vi_interrupt_status r = 0 \<and> vi_status r = 0
        \<and> vi_driver_features r = 0 \<and> vi_generation r = vi_generation d + 1
        \<and> vi_queues r = replicate 8 empty_queue)"
proof -
  have "fst (virtio_write d 0x050 Word32 v t) =
     (if vi_status d AND 4 \<noteq> 0 \<and> (ucast v :: u32) < ucast (vc_queue_count (vi_config d))
         \<and> qs_ready (vi_queues d ! unat (ucast v :: u32))
      then d\<lparr>vi_notifications := vi_notifications d @ [ucast (ucast v :: u32)]\<rparr> else d)"
    by (simp add: virtio_write_def validate_register_ok_iff virtio_write_register_def Let_def)
  moreover have "fst (virtio_write d 0x070 Word32 0 t) = virtio_reset d"
    by (simp add: virtio_write_def validate_register_ok_iff virtio_write_register_def Let_def
        write_status_def)
  ultimately show ?thesis
    unfolding u32_and_status by (simp add: virtio_reset_def Let_def)
qed

text \<open>A status write that carries FAILED skips the negotiation checks: on a freshly created transport one
  write of FAILED together with DRIVER_OK and FEATURES_OK leaves all three bits set although no feature
  was negotiated, so a ready queue would accept notifications.\<close>

theorem virtio_failed_skips_negotiation:
  assumes "virtio_create c = Inr d"
  shows "vi_driver_features d = 0 \<and> vi_status (fst (virtio_write d 0x070 Word32 0x8C t)) = 0x8C"
  using assms
  by (auto simp: virtio_create_def virtio_write_def validate_register_ok_iff virtio_write_register_def
      Let_def write_status_def split: sum.splits if_splits)

theorem virtio_failed_skips_negotiation_witness:
  "virtio_create example_virtio_config = Inr example_virtio
   \<and> vi_status (fst (virtio_write example_virtio 0x070 Word32 0x8C Store)) = 0x8C"
  using example_virtio_created virtio_failed_skips_negotiation [OF example_virtio_created] by blast

end
