(* ===== verification/Bus.thy ===== *)
theory Bus
  imports Physical_Memory Boot_Rom Clint Uart16550 Virtio_Mmio
begin

text \<open>
  The physical bus (\<open>src/bus/bus.cpp\<close>): registration of non-overlapping regions, dispatch of an
  access to the one region that holds it, compare-exchange and the load-reserved / store-conditional
  reservation. Registered regions are held by value: the platform's shared handles to the devices
  are accesses to the element of \<open>bus_regions\<close>.
\<close>

datatype region =
  RamRegion phys_mem
| RomRegion boot_rom
| ClintRegion clint
| PlicRegion plic
| UartRegion uart
| VirtioRegion virtio

fun region_range :: "region \<Rightarrow> address_range" where
  "region_range (RamRegion m) = pm_range m"
| "region_range (RomRegion r) = br_range r"
| "region_range (ClintRegion d) = clint_range"
| "region_range (PlicRegion d) = plic_range"
| "region_range (UartRegion d) = uart_range"
| "region_range (VirtioRegion d) = vi_range d"

fun region_name :: "region \<Rightarrow> string" where
  "region_name (RamRegion m) = pm_name m"
| "region_name (RomRegion r) = br_name r"
| "region_name (ClintRegion d) = me_name kClint"
| "region_name (PlicRegion d) = me_name kPlic"
| "region_name (UartRegion d) = me_name kUart"
| "region_name (VirtioRegion d) = vc_name (vi_config d)"

fun region_read :: "region \<Rightarrow> u64 \<Rightarrow> access_width \<Rightarrow> access_type \<Rightarrow> region \<times> access_result" where
  "region_read (RamRegion m) off w t = map_prod RamRegion id (pm_read m off w t)"
| "region_read (RomRegion m) off w t = map_prod RomRegion id (br_read m off w t)"
| "region_read (ClintRegion m) off w t = map_prod ClintRegion id (clint_read m off w t)"
| "region_read (PlicRegion m) off w t = map_prod PlicRegion id (plic_read m off w t)"
| "region_read (UartRegion m) off w t = map_prod UartRegion id (uart_read m off w t)"
| "region_read (VirtioRegion m) off w t = map_prod VirtioRegion id (virtio_read m off w t)"

fun region_write ::
    "region \<Rightarrow> u64 \<Rightarrow> access_width \<Rightarrow> u64 \<Rightarrow> access_type \<Rightarrow> region \<times> access_result" where
  "region_write (RamRegion m) off w v t = map_prod RamRegion id (pm_write m off w v t)"
| "region_write (RomRegion m) off w v t = map_prod RomRegion id (br_write m off w v t)"
| "region_write (ClintRegion m) off w v t = map_prod ClintRegion id (clint_write m off w v t)"
| "region_write (PlicRegion m) off w v t = map_prod PlicRegion id (plic_write m off w v t)"
| "region_write (UartRegion m) off w v t = map_prod UartRegion id (uart_write m off w v t)"
| "region_write (VirtioRegion m) off w v t = map_prod VirtioRegion id (virtio_write m off w v t)"

fun region_compare_exchange ::
    "region \<Rightarrow> u64 \<Rightarrow> access_width \<Rightarrow> u64 \<Rightarrow> u64 \<Rightarrow> access_type \<Rightarrow> region \<times> access_result" where
  "region_compare_exchange (RamRegion m) off w e n t =
     map_prod RamRegion id (pm_compare_exchange m off w e n t)"
| "region_compare_exchange (RomRegion m) off w e n t =
     map_prod RomRegion id (br_compare_exchange m off w e n t)"
| "region_compare_exchange (ClintRegion m) off w e n t =
     map_prod ClintRegion id (clint_compare_exchange m off w e n t)"
| "region_compare_exchange (PlicRegion m) off w e n t =
     map_prod PlicRegion id (plic_compare_exchange m off w e n t)"
| "region_compare_exchange (UartRegion m) off w e n t =
     map_prod UartRegion id (uart_compare_exchange m off w e n t)"
| "region_compare_exchange (VirtioRegion m) off w e n t =
     map_prod VirtioRegion id (virtio_compare_exchange m off w e n t)"

fun region_wf :: "region \<Rightarrow> bool" where
  "region_wf (RamRegion m) = pm_wf m"
| "region_wf (RomRegion m) = br_wf m"
| "region_wf (ClintRegion m) = True"
| "region_wf (PlicRegion m) = plic_wf m"
| "region_wf (UartRegion m) = uart_wf m"
| "region_wf (VirtioRegion m) = virtio_wf m"

record reservation_record =
  rr_token :: u64
  rr_load_address :: u64
  rr_reserved_base :: u64
  rr_length :: u64

record bus =
  bus_regions :: "region list"
  bus_reservation :: "reservation_record option"
  bus_next_reservation_token :: u64

record load_reserved_result =
  lr_access :: access_result
  lr_token :: u64

definition bus_create :: bus where
  "bus_create = \<lparr>bus_regions = [], bus_reservation = None, bus_next_reservation_token = 1\<rparr>"

abbreviation (input) kReservationGranuleBytes :: u64 where "kReservationGranuleBytes \<equiv> 8"

definition reservation_base :: "u64 \<Rightarrow> u64" where
  "reservation_base a = a AND NOT (kReservationGranuleBytes - 1)"

text \<open>\<open>None\<close> is the null pointer; the sort is by base address, which is unique among regions.\<close>

definition register_region :: "bus \<Rightarrow> region option \<Rightarrow> bus \<times> access_result" where
  "register_region b r =
     (case r of
        None \<Rightarrow> (b, ar_failure (make_error InvalidRegion 0 0 []))
      | Some r \<Rightarrow>
          if \<exists>registered \<in> set (bus_regions b). range_overlaps (region_range r) (region_range registered)
          then (b, ar_failure (make_error RegionOverlap (rng_base (region_range r))
                     (rng_size (region_range r)) (region_name r)))
          else (b\<lparr>bus_regions := sort_key (\<lambda>x. rng_base (region_range x)) (bus_regions b @ [r])\<rparr>,
                ar_success 0 False))"

text \<open>A located region is its position in \<open>bus_regions\<close> and the offset inside it.\<close>

fun locate_loop :: "region list \<Rightarrow> nat \<Rightarrow> u64 \<Rightarrow> u64 \<Rightarrow> access_result + nat \<times> u64" where
  "locate_loop [] i a len = Inl (ar_failure (make_error Unmapped a len []))"
| "locate_loop (r # rs) i a len =
     (if \<not> range_contains (region_range r) a then locate_loop rs (Suc i) a len
      else if \<not> range_contains_length (region_range r) a len
        then Inl (ar_failure (make_error OutOfBounds a len (region_name r)))
      else Inr (i, range_offset_of (region_range r) a))"

definition bus_locate :: "bus \<Rightarrow> u64 \<Rightarrow> access_width \<Rightarrow> access_result + nat \<times> u64" where
  "bus_locate b a w =
     (let len = width_in_bytes w in
      if len = 0 then Inl (ar_failure (make_error InvalidWidth a 0 []))
      else if a > (- 1) - (len - 1) then Inl (ar_failure (make_error AddressOverflow a len []))
      else locate_loop (bus_regions b) 0 a len)"

definition set_region :: "bus \<Rightarrow> nat \<Rightarrow> region \<Rightarrow> bus" where
  "set_region b i r = b\<lparr>bus_regions := (bus_regions b)[i := r]\<rparr>"

definition bus_read :: "bus \<Rightarrow> u64 \<Rightarrow> access_width \<Rightarrow> access_type \<Rightarrow> bus \<times> access_result" where
  "bus_read b a w t =
     (case bus_locate b a w of
        Inl failure \<Rightarrow> (b, failure)
      | Inr (i, off) \<Rightarrow>
          let (r', result) = region_read (bus_regions b ! i) off w t in (set_region b i r', result))"

definition invalidate_reservation :: "bus \<Rightarrow> u64 \<Rightarrow> u64 \<Rightarrow> bus" where
  "invalidate_reservation b a len =
     (case bus_reservation b of
        None \<Rightarrow> b
      | Some rr \<Rightarrow>
          if len = 0 then b
          else
            let write_first = a; write_last = write_first + len - 1;
                reserved_first = rr_reserved_base rr;
                reserved_last = reserved_first + rr_length rr - 1 in
            if write_first \<le> reserved_last \<and> reserved_first \<le> write_last
            then b\<lparr>bus_reservation := None\<rparr> else b)"

definition bus_write ::
    "bus \<Rightarrow> u64 \<Rightarrow> access_width \<Rightarrow> u64 \<Rightarrow> access_type \<Rightarrow> bus \<times> access_result" where
  "bus_write b a w v t =
     (case bus_locate b a w of
        Inl failure \<Rightarrow> (b, failure)
      | Inr (i, off) \<Rightarrow>
          let (r', result) = region_write (bus_regions b ! i) off w v t; b1 = set_region b i r' in
          (if ar_ok result \<and> t = DmaWrite then invalidate_reservation b1 a (width_in_bytes w) else b1,
           result))"

definition bus_compare_exchange ::
    "bus \<Rightarrow> u64 \<Rightarrow> access_width \<Rightarrow> u64 \<Rightarrow> u64 \<Rightarrow> access_type \<Rightarrow> bus \<times> access_result" where
  "bus_compare_exchange b a w expected desired t =
     (case bus_locate b a w of
        Inl failure \<Rightarrow> (b, failure)
      | Inr (i, off) \<Rightarrow>
          let (r', result) = region_compare_exchange (bus_regions b ! i) off w expected desired t;
              b1 = set_region b i r' in
          (if ar_ok result \<and> ar_exchanged result
           then invalidate_reservation b1 a (width_in_bytes w) else b1, result))"

definition next_reservation_token :: "bus \<Rightarrow> bus \<times> u64" where
  "next_reservation_token b =
     (let token = bus_next_reservation_token b;
          b1 = b\<lparr>bus_next_reservation_token := bus_next_reservation_token b + 1\<rparr> in
      if token = 0
      then (b1\<lparr>bus_next_reservation_token := bus_next_reservation_token b1 + 1\<rparr>,
            bus_next_reservation_token b1)
      else (b1, token))"

definition load_reserved :: "bus \<Rightarrow> u64 \<Rightarrow> access_width \<Rightarrow> bus \<times> load_reserved_result" where
  "load_reserved b a w =
     (case bus_locate b a w of
        Inl failure \<Rightarrow> (b, \<lparr>lr_access = failure, lr_token = 0\<rparr>)
      | Inr (i, off) \<Rightarrow>
          let (r', loaded) = region_read (bus_regions b ! i) off w Atomic; b1 = set_region b i r' in
          if \<not> ar_ok loaded then (b1, \<lparr>lr_access = loaded, lr_token = 0\<rparr>)
          else
            let (b2, token) = next_reservation_token b1 in
            (b2\<lparr>bus_reservation := Some \<lparr>rr_token = token, rr_load_address = a,
                  rr_reserved_base = reservation_base a, rr_length = kReservationGranuleBytes\<rparr>\<rparr>,
             \<lparr>lr_access = loaded, lr_token = token\<rparr>))"

definition reservation_matches :: "reservation_record option \<Rightarrow> u64 \<Rightarrow> u64 \<Rightarrow> access_width \<Rightarrow> bool" where
  "reservation_matches prior token a w =
     (case prior of
        None \<Rightarrow> False
      | Some rr \<Rightarrow> token \<noteq> 0 \<and> rr_token rr = token \<and> rr_load_address rr = a
          \<and> reservation_base a = rr_reserved_base rr \<and> width_in_bytes w \<le> rr_length rr)"

definition store_conditional ::
    "bus \<Rightarrow> u64 \<Rightarrow> u64 \<Rightarrow> access_width \<Rightarrow> u64 \<Rightarrow> bus \<times> access_result" where
  "store_conditional b token a w v =
     (let prior = bus_reservation b; b1 = b\<lparr>bus_reservation := None\<rparr> in
      case bus_locate b1 a w of
        Inl failure \<Rightarrow> (b1, failure)
      | Inr (i, off) \<Rightarrow>
          if \<not> reservation_matches prior token a w then (b1, ar_success 0 False)
          else
            let (r', stored) = region_write (bus_regions b1 ! i) off w v Atomic;
                b2 = set_region b1 i r' in
            if \<not> ar_ok stored then (b2, stored) else (b2, ar_success 0 True))"

definition reservation_wf :: "reservation_record \<Rightarrow> bool" where
  "reservation_wf rr \<longleftrightarrow> rr_token rr \<noteq> 0 \<and> rr_reserved_base rr = reservation_base (rr_load_address rr)
     \<and> rr_length rr = kReservationGranuleBytes"

definition bus_wf :: "bus \<Rightarrow> bool" where
  "bus_wf b \<longleftrightarrow>
     (case bus_reservation b of None \<Rightarrow> True | Some rr \<Rightarrow> reservation_wf rr)
   \<and> (\<forall>r\<in>set (bus_regions b). region_wf r)
   \<and> sorted (map (\<lambda>r. rng_base (region_range r)) (bus_regions b))
   \<and> (\<forall>i < length (bus_regions b). \<forall>j < length (bus_regions b). i \<noteq> j \<longrightarrow>
        \<not> range_overlaps (region_range (bus_regions b ! i)) (region_range (bus_regions b ! j)))"

text \<open>The address ranges in use; no access ever changes them.\<close>

definition bus_layout :: "bus \<Rightarrow> address_range list" where
  "bus_layout b = map region_range (bus_regions b)"

subsection \<open>Regions\<close>

lemma region_wf_range: "region_wf r \<Longrightarrow> range_wf (region_range r)"
  by (cases r) (simp_all add: pm_wf_def br_wf_def virtio_wf_def clint_range_def plic_range_def
      uart_range_def range_wf_def)

lemma map_prod_simps: "fst (map_prod f id p) = f (fst p)" "snd (map_prod f id p) = snd p"
  by (cases p; simp)+

interpretation any_region: address_region region_read region_write region_compare_exchange
    region_range region_wf
proof unfold_locales
  fix d :: region and off w t v e n
  show "region_wf d \<Longrightarrow> region_wf (fst (region_read d off w t))"
    using ram.inv_rd rom.inv_rd plic_region.inv_rd uart_region.inv_rd virtio_region.inv_rd
    by (cases d) (simp_all add: map_prod_simps)
  show "region_wf d \<Longrightarrow> region_wf (fst (region_write d off w v t))"
    using ram.inv_wr rom.inv_wr plic_region.inv_wr uart_region.inv_wr virtio_region.inv_wr
    by (cases d) (simp_all add: map_prod_simps)
  show "region_wf d \<Longrightarrow> region_wf (fst (region_compare_exchange d off w e n t))"
    using ram.inv_cas rom.inv_cas plic_region.inv_cas uart_region.inv_cas virtio_region.inv_cas
    by (cases d) (simp_all add: map_prod_simps)
  show "region_range (fst (region_read d off w t)) = region_range d"
    using ram.rng_rd rom.rng_rd virtio_region.rng_rd by (cases d) (simp_all add: map_prod_simps)
  show "region_range (fst (region_write d off w v t)) = region_range d"
    using ram.rng_wr rom.rng_wr virtio_region.rng_wr by (cases d) (simp_all add: map_prod_simps)
  show "region_range (fst (region_compare_exchange d off w e n t)) = region_range d"
    using ram.rng_cas rom.rng_cas virtio_region.rng_cas by (cases d) (simp_all add: map_prod_simps)
  show "\<not> ar_ok (snd (region_read d off w t)) \<Longrightarrow> fst (region_read d off w t) = d"
    using ram.rd_fail rom.rd_fail clint_region.rd_fail plic_region.rd_fail uart_region.rd_fail
      virtio_region.rd_fail by (cases d) (simp_all add: map_prod_simps)
  show "\<not> ar_ok (snd (region_write d off w v t)) \<Longrightarrow> fst (region_write d off w v t) = d"
    using ram.wr_fail rom.wr_fail clint_region.wr_fail plic_region.wr_fail uart_region.wr_fail
      virtio_region.wr_fail by (cases d) (simp_all add: map_prod_simps)
  show "\<not> ar_exchanged (snd (region_compare_exchange d off w e n t)) \<Longrightarrow>
      fst (region_compare_exchange d off w e n t) = d"
    using ram.cas_fail rom.cas_fail clint_region.cas_fail plic_region.cas_fail uart_region.cas_fail
      virtio_region.cas_fail by (cases d) (simp_all add: map_prod_simps)
  show "ar_ok (snd (region_read d off w t)) \<Longrightarrow>
      take_bit (8 * unat (width_in_bytes w)) (ar_value (snd (region_read d off w t)))
        = ar_value (snd (region_read d off w t))"
    using ram.rd_value rom.rd_value clint_region.rd_value plic_region.rd_value uart_region.rd_value
      virtio_region.rd_value by (cases d) (simp_all add: map_prod_simps)
next
  fix d :: region and off w t e n t'
  show "ar_ok (snd (region_read d off w t)) \<Longrightarrow>
      ar_ok (snd (region_compare_exchange d off w (ar_value (snd (region_read d off w t))) n t')) \<Longrightarrow>
      ar_exchanged (snd (region_compare_exchange d off w (ar_value (snd (region_read d off w t))) n t'))"
    using ram.cas_after_rd rom.cas_after_rd clint_region.cas_after_rd plic_region.cas_after_rd
      uart_region.cas_after_rd virtio_region.cas_after_rd by (cases d) (simp_all add: map_prod_simps)
  show "ar_ok (snd (region_compare_exchange d off w e n t)) \<Longrightarrow>
      ar_ok (snd (region_read d off w t')) \<and>
      ar_value (snd (region_compare_exchange d off w e n t)) = ar_value (snd (region_read d off w t'))"
    using ram.cas_observed rom.cas_observed clint_region.cas_observed plic_region.cas_observed
      uart_region.cas_observed virtio_region.cas_observed by (cases d) (simp_all add: map_prod_simps)
next
  fix d :: region and off w e n t e' n' t'
  show "ar_ok (snd (region_compare_exchange d off w e n t))
      \<longleftrightarrow> ar_ok (snd (region_compare_exchange d off w e' n' t'))"
    using ram.cas_ok_cong rom.cas_ok_cong clint_region.cas_ok_cong plic_region.cas_ok_cong
      uart_region.cas_ok_cong virtio_region.cas_ok_cong
    by (cases d) (simp_all only: region_compare_exchange.simps map_prod_simps)
qed

subsection \<open>Locating a region\<close>

lemma locate_loop_Inr:
  "locate_loop rs k a len = Inr (i, off) \<Longrightarrow>
     k \<le> i \<and> i - k < length rs \<and> range_contains_length (region_range (rs ! (i - k))) a len
     \<and> off = range_offset_of (region_range (rs ! (i - k))) a"
proof (induction rs k a len rule: locate_loop.induct)
  case (2 r rs k a len)
  show ?case
  proof (cases "range_contains (region_range r) a")
    case True
    then show ?thesis using 2 by (auto split: if_splits)
  next
    case False
    then have "Suc k \<le> i \<and> i - Suc k < length rs
        \<and> range_contains_length (region_range (rs ! (i - Suc k))) a len
        \<and> off = range_offset_of (region_range (rs ! (i - Suc k))) a"
      using 2 by simp
    moreover from this have "i - k = Suc (i - Suc k)" by auto
    ultimately show ?thesis by simp
  qed
qed simp

lemma locate_loop_Inl: "locate_loop rs k a len = Inl r \<Longrightarrow> \<not> ar_ok r \<and> \<not> ar_exchanged r"
  by (induction rs k a len rule: locate_loop.induct) (auto split: if_splits)

lemma bus_locate_Inl: "bus_locate b a w = Inl r \<Longrightarrow> \<not> ar_ok r \<and> \<not> ar_exchanged r"
  by (auto simp: bus_locate_def Let_def dest: locate_loop_Inl split: if_splits)

lemma bus_locate_Inr:
  assumes "bus_locate b a w = Inr (i, off)"
  shows "i < length (bus_regions b)" "range_contains_length (region_range (bus_regions b ! i)) a (width_in_bytes w)"
    "off = range_offset_of (region_range (bus_regions b ! i)) a" "w \<noteq> UnnamedWidth"
    "unat a + unat (width_in_bytes w) \<le> 2 ^ 64"
proof -
  have l: "locate_loop (bus_regions b) 0 a (width_in_bytes w) = Inr (i, off)"
    and w: "w \<noteq> UnnamedWidth" and le: "a \<le> (- 1) - (width_in_bytes w - 1)"
    using assms by (auto simp: bus_locate_def Let_def not_less split: if_splits)
  from locate_loop_Inr [OF l] show "i < length (bus_regions b)"
    "range_contains_length (region_range (bus_regions b ! i)) a (width_in_bytes w)"
    "off = range_offset_of (region_range (bus_regions b ! i)) a" by simp_all
  show "w \<noteq> UnnamedWidth" by (rule w)
  have "unat a \<le> 2 ^ 64 - 1 - unat (width_in_bytes w - 1)"
    using le unat_max64 [of "width_in_bytes w - 1"] by (simp add: word_le_nat_alt)
  moreover have "unat (width_in_bytes w - 1) + 1 = unat (width_in_bytes w)" using w by (cases w) simp_all
  ultimately show "unat a + unat (width_in_bytes w) \<le> 2 ^ 64"
    using unat_width_in_bytes_le [of w] by simp
qed

lemma set_region_self [simp]: "i < length (bus_regions b) \<Longrightarrow> set_region b i (bus_regions b ! i) = b"
  by (simp add: set_region_def)

lemma bus_layout_set_region:
  "region_range r = region_range (bus_regions b ! i) \<Longrightarrow> bus_layout (set_region b i r) = bus_layout b"
  by (simp add: bus_layout_def set_region_def map_update)
    (metis list_update_beyond list_update_id map_update not_less nth_map length_map)

lemma bus_wf_set_region:
  assumes "bus_wf b" "i < length (bus_regions b)" "region_wf r"
    "region_range r = region_range (bus_regions b ! i)"
  shows "bus_wf (set_region b i r)"
proof -
  have nth: "region_range ((bus_regions b)[i := r] ! j) = region_range (bus_regions b ! j)"
    if "j < length (bus_regions b)" for j
    using assms(4) that by (cases "i = j") simp_all
  have "map (\<lambda>r. rng_base (region_range r)) ((bus_regions b)[i := r])
      = map (\<lambda>r. rng_base (region_range r)) (bus_regions b)"
    by (rule nth_equalityI) (simp_all add: nth)
  moreover have "\<forall>x\<in>set ((bus_regions b)[i := r]). region_wf x"
    using assms set_update_subset_insert [of "bus_regions b" i r] by (auto simp: bus_wf_def)
  ultimately show ?thesis
    using assms(1) by (simp add: bus_wf_def set_region_def nth)
qed

lemma invalidate_reservation_simps [simp]:
  "bus_regions (invalidate_reservation b a len) = bus_regions b"
  "bus_next_reservation_token (invalidate_reservation b a len) = bus_next_reservation_token b"
  by (simp_all add: invalidate_reservation_def Let_def split: option.splits)

lemma invalidate_reservation_cases:
  "bus_reservation (invalidate_reservation b a len) \<in> {None, bus_reservation b}"
  by (auto simp: invalidate_reservation_def Let_def split: option.splits)

lemma bus_wf_invalidate: "bus_wf b \<Longrightarrow> bus_wf (invalidate_reservation b a len)"
  using invalidate_reservation_cases [of b a len] by (auto simp: bus_wf_def)

lemma bus_layout_invalidate [simp]: "bus_layout (invalidate_reservation b a len) = bus_layout b"
  by (simp add: bus_layout_def)

lemmas bus_op_defs = bus_read_def bus_write_def bus_compare_exchange_def

lemma nth_region_wf: "bus_wf b \<Longrightarrow> i < length (bus_regions b) \<Longrightarrow> region_wf (bus_regions b ! i)"
  by (simp add: bus_wf_def)

interpretation phys_bus: address_region bus_read bus_write bus_compare_exchange bus_layout bus_wf
proof unfold_locales
  fix b off w t v e n
  show "bus_wf b \<Longrightarrow> bus_wf (fst (bus_read b off w t))"
    by (auto simp: bus_op_defs Let_def split_beta any_region.rng_rd
        intro!: any_region.inv_rd bus_wf_set_region nth_region_wf dest: bus_locate_Inr split: sum.split)
  show "bus_wf b \<Longrightarrow> bus_wf (fst (bus_write b off w v t))"
    by (auto simp: bus_op_defs Let_def split_beta any_region.rng_wr
        intro!: any_region.inv_wr bus_wf_set_region bus_wf_invalidate nth_region_wf dest: bus_locate_Inr split: sum.split)
  show "bus_wf b \<Longrightarrow> bus_wf (fst (bus_compare_exchange b off w e n t))"
    by (auto simp: bus_op_defs Let_def split_beta any_region.rng_cas
        intro!: any_region.inv_cas bus_wf_set_region bus_wf_invalidate nth_region_wf dest: bus_locate_Inr split: sum.split)
  show "bus_layout (fst (bus_read b off w t)) = bus_layout b"
    by (simp add: bus_op_defs Let_def split_beta any_region.rng_rd bus_layout_set_region split: sum.split)
  show "bus_layout (fst (bus_write b off w v t)) = bus_layout b"
    by (simp add: bus_op_defs Let_def split_beta any_region.rng_wr bus_layout_set_region split: sum.split)
  show "bus_layout (fst (bus_compare_exchange b off w e n t)) = bus_layout b"
    by (simp add: bus_op_defs Let_def split_beta any_region.rng_cas bus_layout_set_region split: sum.split)
  show "\<not> ar_ok (snd (bus_read b off w t)) \<Longrightarrow> fst (bus_read b off w t) = b"
    by (auto simp: bus_op_defs Let_def split_beta any_region.rd_fail bus_locate_Inr(1) split: sum.splits)
  show "\<not> ar_ok (snd (bus_write b off w v t)) \<Longrightarrow> fst (bus_write b off w v t) = b"
    by (auto simp: bus_op_defs Let_def split_beta any_region.wr_fail bus_locate_Inr(1) split: sum.splits)
  show "\<not> ar_exchanged (snd (bus_compare_exchange b off w e n t)) \<Longrightarrow>
      fst (bus_compare_exchange b off w e n t) = b"
    by (auto simp: bus_op_defs Let_def split_beta any_region.cas_fail bus_locate_Inr(1) split: sum.splits)
  show "ar_ok (snd (bus_read b off w t)) \<Longrightarrow>
      take_bit (8 * unat (width_in_bytes w)) (ar_value (snd (bus_read b off w t)))
        = ar_value (snd (bus_read b off w t))"
    by (auto simp: bus_op_defs Let_def split_beta any_region.rd_value dest: bus_locate_Inl split: sum.splits)
next
  fix b off w t e n t'
  show "ar_ok (snd (bus_read b off w t)) \<Longrightarrow>
      ar_ok (snd (bus_compare_exchange b off w (ar_value (snd (bus_read b off w t))) n t')) \<Longrightarrow>
      ar_exchanged (snd (bus_compare_exchange b off w (ar_value (snd (bus_read b off w t))) n t'))"
    by (auto simp: bus_op_defs Let_def split_beta any_region.cas_after_rd dest: bus_locate_Inl
        split: sum.splits)
  show "ar_ok (snd (bus_compare_exchange b off w e n t)) \<Longrightarrow>
      ar_ok (snd (bus_read b off w t')) \<and>
      ar_value (snd (bus_compare_exchange b off w e n t)) = ar_value (snd (bus_read b off w t'))"
    using any_region.cas_observed
    by (auto simp: bus_op_defs Let_def split_beta dest: bus_locate_Inl split: sum.splits)
next
  fix b off w e n t e' n' t'
  show "ar_ok (snd (bus_compare_exchange b off w e n t))
      \<longleftrightarrow> ar_ok (snd (bus_compare_exchange b off w e' n' t'))"
    using any_region.cas_ok_cong
    by (auto simp: bus_op_defs Let_def split_beta split: sum.splits)
qed

subsection \<open>The memory contract\<close>

lemma region_cas_exchanged:
  assumes "ar_exchanged (snd (region_compare_exchange r off w e n t))"
  obtains m where "r = RamRegion m" "ar_exchanged (snd (pm_compare_exchange m off w e n t))"
  using assms
  by (cases r) (auto simp: map_prod_simps br_compare_exchange_def clint_compare_exchange_def
      plic_compare_exchange_def uart_compare_exchange_def virtio_compare_exchange_def)

interpretation any_region: atomic_region region_read region_write region_compare_exchange
    region_range region_wf
proof (unfold_locales, goal_cases)
  case (1 d off t)
  show ?case
    by (cases d) (simp_all add: map_prod_simps ram.rd_double_pure br_read_def plic_read_def
        uart_read_fail virtio_read_def Let_def)
next
  case (2 d off w e n t t')
  then show ?case
    by (elim region_cas_exchanged) (auto simp: map_prod_simps ram.rd_after_cas)
next
  case (3 d off w e n t off' w' t')
  then show ?case
    by (elim region_cas_exchanged) (simp add: map_prod_simps ram.rd_after_cas_other)
qed

lemma region_name_cas: "region_name (fst (region_compare_exchange r off w e n t)) = region_name r"
  by (cases r) (simp_all add: map_prod_simps pm_compare_exchange_def pm_write_unlocked_def
      br_compare_exchange_def clint_compare_exchange_def uart_compare_exchange_def
      virtio_compare_exchange_def Let_def)

lemma locate_loop_cong:
  "map region_range rs = map region_range rs' \<Longrightarrow> map region_name rs = map region_name rs' \<Longrightarrow>
     locate_loop rs k a len = locate_loop rs' k a len"
proof (induction rs arbitrary: rs' k)
  case (Cons r rs)
  then obtain r' rs'' where "rs' = r' # rs''" by (cases rs') auto
  then show ?case using Cons by auto
qed simp

lemma bus_cas_exchanged:
  assumes "ar_exchanged (snd (bus_compare_exchange b a w e n t))"
  obtains i off where "bus_locate b a w = Inr (i, off)"
    "ar_exchanged (snd (region_compare_exchange (bus_regions b ! i) off w e n t))"
    "bus_regions (fst (bus_compare_exchange b a w e n t))
       = (bus_regions b)[i := fst (region_compare_exchange (bus_regions b ! i) off w e n t)]"
  using assms
  by (cases "bus_locate b a w")
    (auto simp: bus_compare_exchange_def split_beta Let_def set_region_def dest: bus_locate_Inl)

lemma bus_locate_after_cas:
  "bus_locate (fst (bus_compare_exchange b a w e n t)) a' w' = bus_locate b a' w'"
proof (cases "bus_locate b a w")
  case (Inr p)
  obtain i off where p: "p = (i, off)" by (cases p)
  let ?x = "region_compare_exchange (bus_regions b ! i) off w e n t"
  have i: "i < length (bus_regions b)" using Inr p bus_locate_Inr by simp
  have "bus_regions (fst (bus_compare_exchange b a w e n t)) = (bus_regions b)[i := fst ?x]"
    using Inr p by (simp add: bus_compare_exchange_def split_beta Let_def set_region_def)
  moreover have "locate_loop ((bus_regions b)[i := fst ?x]) 0 a' len = locate_loop (bus_regions b) 0 a' len" for len
    using i by (intro locate_loop_cong)
      (auto intro!: nth_equalityI simp: nth_list_update any_region.rng_cas region_name_cas)
  ultimately show ?thesis by (simp add: bus_locate_def Let_def)
qed (simp add: bus_compare_exchange_def)

interpretation phys_bus: atomic_region bus_read bus_write bus_compare_exchange bus_layout bus_wf
proof (unfold_locales, goal_cases)
  case (1 b off t)
  show ?case
    by (auto simp: bus_read_def any_region.rd_double_pure split_beta Let_def
        dest: bus_locate_Inr(1) split: sum.split)
next
  case (2 b a w e n t t')
  from 2(2) obtain i off where l: "bus_locate b a w = Inr (i, off)"
    and x: "ar_exchanged (snd (region_compare_exchange (bus_regions b ! i) off w e n t))"
    and r: "bus_regions (fst (bus_compare_exchange b a w e n t))
       = (bus_regions b)[i := fst (region_compare_exchange (bus_regions b ! i) off w e n t)]"
    by (rule bus_cas_exchanged)
  have i: "i < length (bus_regions b)" using l by (rule bus_locate_Inr)
  have "region_wf (bus_regions b ! i)" using 2(1) i by (rule nth_region_wf)
  from any_region.rd_after_cas [OF this x] i show ?case
    by (simp add: bus_read_def bus_locate_after_cas l r split_beta Let_def)
next
  case (3 b a w e n t a' w' t')
  from 3(2) obtain i off where l: "bus_locate b a w = Inr (i, off)"
    and x: "ar_exchanged (snd (region_compare_exchange (bus_regions b ! i) off w e n t))"
    and r: "bus_regions (fst (bus_compare_exchange b a w e n t))
       = (bus_regions b)[i := fst (region_compare_exchange (bus_regions b ! i) off w e n t)]"
    by (rule bus_cas_exchanged)
  have i: "i < length (bus_regions b)" using l by (rule bus_locate_Inr)
  have wf: "region_wf (bus_regions b ! i)" using 3(1) i by (rule nth_region_wf)
  show ?case
  proof (cases "bus_locate b a' w'")
    case (Inl f)
    then show ?thesis by (simp add: bus_read_def bus_locate_after_cas)
  next
    case (Inr p)
    obtain j off' where p: "p = (j, off')" by (cases p)
    have "unat off + unat (width_in_bytes w) \<le> unat off' \<or> unat off' + unat (width_in_bytes w') \<le> unat off"
      if "j = i"
    proof -
      have "rng_base (region_range (bus_regions b ! i)) \<le> a" "rng_base (region_range (bus_regions b ! i)) \<le> a'"
        using range_offset_fits(2) [OF region_wf_range [OF wf]] bus_locate_Inr(2) l Inr p that by blast+
      then have "unat off = unat a - unat (rng_base (region_range (bus_regions b ! i)))"
        "unat off' = unat a' - unat (rng_base (region_range (bus_regions b ! i)))"
        "unat (rng_base (region_range (bus_regions b ! i))) \<le> unat a"
        "unat (rng_base (region_range (bus_regions b ! i))) \<le> unat a'"
        using bus_locate_Inr(3) [OF l] bus_locate_Inr(3) [OF Inr [unfolded p]] that
        by (simp_all add: range_offset_of_def unat_sub word_le_nat_alt)
      then show ?thesis using 3(3) by linarith
    qed
    then show ?thesis
      using any_region.rd_after_cas_other [OF wf x] i
      by (cases "j = i") (simp_all add: bus_read_def bus_locate_after_cas Inr p r split_beta Let_def)
  qed
qed

subsection \<open>Registration\<close>

lemma range_overlaps_self: "range_wf r \<Longrightarrow> range_overlaps r r"
  by (auto simp: range_overlaps_def range_wf_def word_less_nat_alt unat_plus_no_overflow unat_gt_0)

lemma disjoint_regions_iff:
  assumes "\<forall>r\<in>set rs. region_wf r"
  shows "(\<forall>i < length rs. \<forall>j < length rs. i \<noteq> j \<longrightarrow>
            \<not> range_overlaps (region_range (rs ! i)) (region_range (rs ! j)))
    \<longleftrightarrow> distinct rs \<and> (\<forall>r\<in>set rs. \<forall>s\<in>set rs. r \<noteq> s \<longrightarrow> \<not> range_overlaps (region_range r) (region_range s))"
    (is "?I \<longleftrightarrow> ?S")
proof
  assume I: ?I
  have "distinct rs"
    unfolding distinct_conv_nth
  proof (intro allI impI)
    fix i j assume ij: "i < length rs" "j < length rs" "i \<noteq> j"
    show "rs ! i \<noteq> rs ! j"
      using I ij assms range_overlaps_self [OF region_wf_range, of "rs ! i"] by (metis nth_mem)
  qed
  with I show ?S by (metis in_set_conv_nth)
next
  assume ?S
  then show ?I by (metis nth_eq_iff_index_eq nth_mem)
qed

lemma bus_wf_register:
  assumes "bus_wf b" "region_wf r" shows "bus_wf (fst (register_region b (Some r)))"
proof (cases "\<exists>x\<in>set (bus_regions b). range_overlaps (region_range r) (region_range x)")
  case True
  then show ?thesis using assms by (simp add: register_region_def)
next
  case False
  let ?k = "\<lambda>x. rng_base (region_range x)"
  let ?rs = "bus_regions b" and ?rs' = "sort_key ?k (bus_regions b @ [r])"
  have sep: "\<forall>x\<in>set ?rs. \<not> range_overlaps (region_range r) (region_range x)
      \<and> \<not> range_overlaps (region_range x) (region_range r)"
    using False range_overlaps_sym by blast
  have wf: "\<forall>x\<in>set ?rs. region_wf x" using assms(1) by (simp add: bus_wf_def)
  have "distinct ?rs"
    "\<forall>x\<in>set ?rs. \<forall>y\<in>set ?rs. x \<noteq> y \<longrightarrow> \<not> range_overlaps (region_range x) (region_range y)"
    using assms(1) disjoint_regions_iff [OF wf] by (auto simp: bus_wf_def)
  moreover have "r \<notin> set ?rs"
    using False range_overlaps_self [OF region_wf_range [OF assms(2)]] by blast
  moreover have "\<forall>x\<in>set ?rs'. region_wf x" using wf assms(2) by simp
  ultimately have "\<forall>i < length ?rs'. \<forall>j < length ?rs'. i \<noteq> j \<longrightarrow>
      \<not> range_overlaps (region_range (?rs' ! i)) (region_range (?rs' ! j))"
    using sep by (subst disjoint_regions_iff) auto
  then show ?thesis
    using False assms(1) \<open>\<forall>x\<in>set ?rs'. region_wf x\<close>
    by (auto simp: register_region_def bus_wf_def)
qed

lemma next_token_nonzero: "snd (next_reservation_token b) \<noteq> 0"
  by (simp add: next_reservation_token_def Let_def)

lemma next_token_regions [simp]: "bus_regions (fst (next_reservation_token b)) = bus_regions b"
  by (simp add: next_reservation_token_def Let_def)

lemma bus_wf_load_reserved: "bus_wf b \<Longrightarrow> bus_wf (fst (load_reserved b a w))"
proof (cases "bus_locate b a w")
  case (Inr p)
  assume b: "bus_wf b"
  obtain i off where p: "p = (i, off)" by (cases p)
  let ?r = "region_read (bus_regions b ! i) off w Atomic"
  have i: "i < length (bus_regions b)" using Inr p bus_locate_Inr by simp
  then have "bus_wf (set_region b i (fst ?r))"
    using b by (intro bus_wf_set_region) (simp_all add: any_region.inv_rd any_region.rng_rd nth_region_wf)
  then show ?thesis
    using Inr p next_token_nonzero [of "set_region b i (fst ?r)"]
    by (auto simp: load_reserved_def split_beta Let_def bus_wf_def reservation_wf_def)
qed (simp add: load_reserved_def)

text \<open>A store-conditional is a plain bus write behind the reservation check.\<close>

lemma store_conditional_eq:
  "store_conditional b tok a w v =
     (let b1 = b\<lparr>bus_reservation := None\<rparr>; x = bus_write b1 a w v Atomic in
      if \<exists>f. bus_locate b a w = Inl f then x
      else if reservation_matches (bus_reservation b) tok a w
      then (fst x, if ar_ok (snd x) then ar_success 0 True else snd x)
      else (b1, ar_success 0 False))"
proof -
  have "bus_locate (b\<lparr>bus_reservation := None\<rparr>) a w = bus_locate b a w"
    by (simp add: bus_locate_def Let_def)
  then show ?thesis
    by (cases "bus_locate b a w") (auto simp: store_conditional_def bus_write_def Let_def split_beta)
qed

lemma bus_wf_store_conditional: "bus_wf b \<Longrightarrow> bus_wf (fst (store_conditional b tok a w v))"
proof -
  assume "bus_wf b"
  then have b: "bus_wf (b\<lparr>bus_reservation := None\<rparr>)" by (simp add: bus_wf_def)
  then show ?thesis by (simp add: store_conditional_eq Let_def phys_bus.inv_wr)
qed

datatype bus_event =
  BusRegister region
| BusRead u64 access_width access_type
| BusWrite u64 access_width u64 access_type
| BusCompareExchange u64 access_width u64 u64 access_type
| BusLoadReserved u64 access_width
| BusStoreConditional u64 u64 access_width u64

fun bus_step :: "bus \<Rightarrow> bus_event \<Rightarrow> bus" where
  "bus_step b (BusRegister r) = fst (register_region b (Some r))"
| "bus_step b (BusRead a w t) = fst (bus_read b a w t)"
| "bus_step b (BusWrite a w v t) = fst (bus_write b a w v t)"
| "bus_step b (BusCompareExchange a w e n t) = fst (bus_compare_exchange b a w e n t)"
| "bus_step b (BusLoadReserved a w) = fst (load_reserved b a w)"
| "bus_step b (BusStoreConditional tok a w v) = fst (store_conditional b tok a w v)"

fun registers_wf :: "bus_event \<Rightarrow> bool" where
  "registers_wf (BusRegister r) = region_wf r"
| "registers_wf _ = True"

lemma bus_wf_step: "bus_wf b \<Longrightarrow> registers_wf e \<Longrightarrow> bus_wf (bus_step b e)"
  by (cases e) (simp_all add: bus_wf_register phys_bus.inv_rd phys_bus.inv_wr phys_bus.inv_cas
      bus_wf_load_reserved bus_wf_store_conditional)

text \<open>A bus after any number of accesses, with no region registered in between: what a bus master can do to it.\<close>

fun is_access :: "bus_event \<Rightarrow> bool" where
  "is_access (BusRegister r) = False"
| "is_access _ = True"

definition bus_accessed :: "bus \<Rightarrow> bus \<Rightarrow> bool" where
  "bus_accessed b b' \<longleftrightarrow> (\<exists>es. list_all is_access es \<and> b' = foldl bus_step b es)"

lemma bus_accessed_refl [simp]: "bus_accessed b b"
  unfolding bus_accessed_def by (rule exI [of _ "[]"]) simp

lemma bus_accessed_trans: "bus_accessed b c \<Longrightarrow> bus_accessed c d \<Longrightarrow> bus_accessed b d"
  unfolding bus_accessed_def by (metis foldl_append list_all_append)

lemma bus_accessed_step: "is_access e \<Longrightarrow> bus_accessed b (bus_step b e)"
  unfolding bus_accessed_def by (rule exI [of _ "[e]"]) simp

lemma bus_accessed_ops:
  "bus_accessed b (fst (bus_read b a w t))" "bus_accessed b (fst (bus_write b a w v t))"
  "bus_accessed b (fst (bus_compare_exchange b a w x n t))" "bus_accessed b (fst (load_reserved b a w))"
  "bus_accessed b (fst (store_conditional b k a w v))"
  using bus_accessed_step [of "BusRead a w t" b] bus_accessed_step [of "BusWrite a w v t" b]
    bus_accessed_step [of "BusCompareExchange a w x n t" b] bus_accessed_step [of "BusLoadReserved a w" b]
    bus_accessed_step [of "BusStoreConditional k a w v" b] by simp_all

lemma bus_accessed_invariant:
  assumes "bus_accessed b b'" "P b" "\<And>b e. P b \<Longrightarrow> is_access e \<Longrightarrow> P (bus_step b e)"
  shows "P b'"
proof -
  have "list_all is_access es \<Longrightarrow> P (foldl bus_step b es)" for es
    by (induction es rule: rev_induct) (simp_all add: assms(2,3))
  then show ?thesis using assms(1) by (auto simp: bus_accessed_def)
qed

lemma bus_accessed_wf: "bus_accessed b b' \<Longrightarrow> bus_wf b \<Longrightarrow> bus_wf b'"
proof (erule bus_accessed_invariant)
  fix c e assume "bus_wf c" "is_access e"
  then show "bus_wf (bus_step c e)" by (intro bus_wf_step) (cases e; simp)+
qed

text \<open>No access adds, removes or moves a region; what every operation keeps of a region, every access keeps.\<close>

lemma invalidate_regions [simp]: "bus_regions (invalidate_reservation b a n) = bus_regions b"
  by (simp add: invalidate_reservation_def Let_def split: option.split)

lemma bus_accessed_nth:
  assumes "bus_accessed b b'" "\<forall>j < length (bus_regions b). P j (bus_regions b ! j)"
    and "\<And>j r off w t. P j r \<Longrightarrow> P j (fst (region_read r off w t))"
    and "\<And>j r off w v t. P j r \<Longrightarrow> P j (fst (region_write r off w v t))"
    and "\<And>j r off w x n t. P j r \<Longrightarrow> P j (fst (region_compare_exchange r off w x n t))"
  shows "length (bus_regions b') = length (bus_regions b) \<and> (\<forall>j < length (bus_regions b'). P j (bus_regions b' ! j))"
proof (rule bus_accessed_invariant [OF assms(1), where P = "\<lambda>c. length (bus_regions c) = length (bus_regions b)
    \<and> (\<forall>j < length (bus_regions c). P j (bus_regions c ! j))"])
  fix c :: bus and e
  let ?I = "\<lambda>c. length (bus_regions c) = length (bus_regions b) \<and> (\<forall>j < length (bus_regions c). P j (bus_regions c ! j))"
  assume c: "?I c" and e: "is_access e"
  have u: "?I (set_region c i y)" if "P i y" for i y
    using c that by (simp add: set_region_def) (metis nth_list_update_eq nth_list_update_neq)
  have n: "bus_locate c a w = Inr (i, off) \<Longrightarrow> P i (bus_regions c ! i)" for a w i off
    using c bus_locate_Inr(1) [of c a w i off] by simp
  have l: "bus_locate (c\<lparr>bus_reservation := z\<rparr>) a w = bus_locate c a w" for z a w
    by (simp add: bus_locate_def Let_def)
  have r: "P i (fst (region_read (bus_regions c ! i) off w t))" if "bus_locate c a w = Inr (i, off)" for a w i off t
    using assms(3) n that by blast
  have w: "P i (fst (region_write (bus_regions c ! i) off w v t))" if "bus_locate c a w = Inr (i, off)" for a w i off v t
    using assms(4) n that by blast
  have x: "P i (fst (region_compare_exchange (bus_regions c ! i) off w x v t))" if "bus_locate c a w = Inr (i, off)"
    for a w i off x v t
    using assms(5) n that by blast
  show "?I (bus_step c e)"
  proof (cases e)
    case (BusRead a w t)
    then show ?thesis using c u [OF r, of a w] by (auto simp: bus_read_def split_beta split: sum.split)
  next
    case (BusWrite a wd v t)
    then show ?thesis using c u [OF w, of a wd] by (auto simp: bus_write_def split_beta Let_def split: sum.split)
  next
    case (BusCompareExchange a wd v1 v2 t)
    then show ?thesis using c u [OF x, of a wd] by (auto simp: bus_compare_exchange_def split_beta Let_def split: sum.split)
  next
    case (BusLoadReserved a w)
    then show ?thesis using c u [OF r, of a w]
      by (auto simp: load_reserved_def next_reservation_token_def split_beta Let_def split: sum.split)
  next
    case (BusStoreConditional k a wd v)
    then show ?thesis using c u [OF w, of a wd]
      by (auto simp: store_conditional_def l set_region_def split_beta Let_def split: sum.split)
  qed (use e in simp)
qed (simp add: assms(2))

lemma bus_accessed_regions:
  assumes "bus_accessed b b'" "\<forall>r\<in>set (bus_regions b). P r"
    and "\<And>r off w t. P r \<Longrightarrow> P (fst (region_read r off w t))"
    and "\<And>r off w v t. P r \<Longrightarrow> P (fst (region_write r off w v t))"
    and "\<And>r off w x n t. P r \<Longrightarrow> P (fst (region_compare_exchange r off w x n t))"
  shows "\<forall>r\<in>set (bus_regions b'). P r"
  using bus_accessed_nth [OF assms(1), where P = "\<lambda>_. P"] assms(2-) by (simp add: all_set_conv_all_nth)

subsection \<open>Properties\<close>

text \<open>C11. However regions are registered and accessed, the bus keeps its regions sorted by base address and
  pairwise disjoint, every region in its own well-formed state, and any live reservation an aligned
  8-byte granule with a non-zero token.\<close>

theorem bus_reachable_wf:
  assumes "\<forall>e\<in>set es. registers_wf e"
  shows "bus_wf (foldl bus_step bus_create es)"
  using assms
proof (induction es rule: rev_induct)
  case Nil
  show ?case by (simp add: bus_wf_def bus_create_def)
next
  case (snoc e es)
  then show ?case by (simp add: bus_wf_step)
qed

definition example_bus :: bus where
  "example_bus = fst (register_region (fst (register_region bus_create (Some (RamRegion example_ram))))
     (Some (RomRegion example_rom)))"

theorem bus_reachable_wf_witness:
  "bus_wf (foldl bus_step bus_create [BusRegister (RamRegion example_ram), BusLoadReserved 0 Byte])"
proof -
  have "region_wf (RamRegion example_ram)"
    by (simp add: example_ram_def pm_wf_def range_wf_def)
  then show ?thesis
    using bus_reachable_wf [of "[BusRegister (RamRegion example_ram), BusLoadReserved 0 Byte]"] by simp
qed

lemma locate_loop_Inr_iff:
  assumes "\<forall>i < length rs. range_wf (region_range (rs ! i))" "len \<noteq> 0"
    and "\<forall>i < length rs. \<forall>j < length rs. i \<noteq> j \<longrightarrow>
        \<not> range_overlaps (region_range (rs ! i)) (region_range (rs ! j))"
    and "i < length rs" "range_contains_length (region_range (rs ! i)) a len"
  shows "locate_loop rs k a len = Inr (k + i, range_offset_of (region_range (rs ! i)) a)"
  using assms
proof (induction rs arbitrary: k i)
  case (Cons r rs)
  have c: "range_contains (region_range ((r # rs) ! i)) a"
    using Cons.prems by (simp add: range_contains_length_def split: if_splits)
  show ?case
  proof (cases i)
    case 0
    then show ?thesis using c Cons.prems by simp
  next
    case (Suc j)
    have "\<not> range_overlaps (region_range r) (region_range ((r # rs) ! i))"
      using Cons.prems(3,4) Suc by (metis Zero_not_Suc length_greater_0_conv list.distinct(1) nth_Cons_0)
    moreover have "range_wf (region_range r)" "range_wf (region_range ((r # rs) ! i))"
      using Cons.prems(1,4) by (metis length_greater_0_conv list.distinct(1) nth_Cons_0, blast)
    ultimately have nc: "\<not> range_contains (region_range r) a"
      using c by (auto simp: range_overlaps_iff range_contains_iff)
    have "locate_loop rs (Suc k) a len = Inr (Suc k + j, range_offset_of (region_range (rs ! j)) a)"
    proof (rule Cons.IH)
      show "\<forall>i<length rs. range_wf (region_range (rs ! i))" using Cons.prems(1) by fastforce
      show "\<forall>i<length rs. \<forall>j<length rs. i \<noteq> j \<longrightarrow>
          \<not> range_overlaps (region_range (rs ! i)) (region_range (rs ! j))"
        using Cons.prems(3) by fastforce
    qed (use Cons.prems Suc in simp_all)
    then show ?thesis using nc Suc by simp
  qed
qed simp

text \<open>C12. Address decoding is exact: on a well-formed bus an access is dispatched to a region precisely when
  all its bytes lie in that region, with the distance from the region's base as offset; by
  disjointness that region is unique, and otherwise the access fails without reaching any region.\<close>

theorem bus_locate_correct:
  assumes "bus_wf b" and "w \<noteq> UnnamedWidth"
  shows "bus_locate b a w = Inr (i, off) \<longleftrightarrow>
     i < length (bus_regions b)
   \<and> {unat a ..< unat a + unat (width_in_bytes w)} \<subseteq> range_addresses (region_range (bus_regions b ! i))
   \<and> unat off = unat a - unat (rng_base (region_range (bus_regions b ! i)))"
proof -
  have rw: "range_wf (region_range (bus_regions b ! j))" if "j < length (bus_regions b)" for j
    using assms(1) that by (simp add: nth_region_wf region_wf_range)
  have off: "off = range_offset_of r a \<longleftrightarrow> unat off = unat a - unat (rng_base r)"
    if "range_wf r" "range_contains_length r a (width_in_bytes w)" for r
    using range_offset_fits(2) [OF that] by (simp add: range_offset_of_def word_unat_eq_iff unat_sub)
  have len: "width_in_bytes w \<noteq> 0" using assms(2) by simp
  show ?thesis (is "?L \<longleftrightarrow> ?R")
  proof
    assume ?L
    from bus_locate_Inr [OF this] show ?R
      using rw off by (simp add: range_contains_length_iff)
  next
    assume R: ?R
    then have c: "range_contains_length (region_range (bus_regions b ! i)) a (width_in_bytes w)"
      using rw len by (simp add: range_contains_length_iff)
    then have o: "off = range_offset_of (region_range (bus_regions b ! i)) a" using R off rw by blast
    have "unat (rng_base (region_range (bus_regions b ! i))) + unat (rng_size (region_range (bus_regions b ! i)))
        < 2 ^ 64"
      using R rw by (simp add: range_wf_def)
    moreover have "unat a + unat (width_in_bytes w) \<le> unat (rng_base (region_range (bus_regions b ! i)))
        + unat (rng_size (region_range (bus_regions b ! i)))"
      using R len by (auto simp: range_addresses_def atLeastLessThan_subset_iff unat_eq_0)
    moreover have "unat (width_in_bytes w - 1) + 1 = unat (width_in_bytes w)"
      using assms(2) by (cases w) simp_all
    ultimately have "a \<le> (- 1) - (width_in_bytes w - 1)"
      using unat_max64 [of "width_in_bytes w - 1"] by (simp add: word_le_nat_alt)
    moreover have "locate_loop (bus_regions b) 0 a (width_in_bytes w) = Inr (i, off)"
      using locate_loop_Inr_iff [of "bus_regions b" "width_in_bytes w" i a 0] rw len R c o assms(1)
      by (simp add: bus_wf_def)
    ultimately show ?L using len by (simp add: bus_locate_def Let_def not_less [symmetric])
  qed
qed

lemma example_bus_wf: "bus_wf example_bus"
proof -
  have "bus_wf bus_create" by (simp add: bus_wf_def bus_create_def)
  moreover have "region_wf (RamRegion example_ram)" "region_wf (RomRegion example_rom)"
    by (simp_all add: example_ram_wf example_rom_def br_wf_def range_wf_def)
  ultimately show ?thesis unfolding example_bus_def by (intro bus_wf_register)
qed

theorem bus_locate_correct_witness:
  "bus_locate example_bus 0x80000004 Word32 = Inr (1, 4) \<and> bus_locate example_bus 0x1004 Word32 = Inr (0, 4)"
proof -
  have r: "bus_regions example_bus = [RomRegion example_rom, RamRegion example_ram]"
    by (simp add: example_bus_def register_region_def bus_create_def example_rom_def example_ram_def
        range_overlaps_def)
  have "bus_locate example_bus 0x80000004 Word32 = Inr (1, 4)"
    using bus_locate_correct [OF example_bus_wf, of Word32 "0x80000004" 1 4]
    by (simp add: r range_addresses_def example_ram_def)
  moreover have "bus_locate example_bus 0x1004 Word32 = Inr (0, 4)"
    using bus_locate_correct [OF example_bus_wf, of Word32 "0x1004" 0 4]
    by (simp add: r range_addresses_def example_rom_def)
  ultimately show ?thesis by blast
qed

lemma locate_loop_layout:
  "locate_loop rs k a len = Inr p \<Longrightarrow> map region_range rs = map region_range rs' \<Longrightarrow>
     locate_loop rs' k a len = Inr p"
proof (induction rs arbitrary: rs' k)
  case (Cons r rs)
  then obtain r' rs'' where "rs' = r' # rs''" "region_range r' = region_range r"
    "map region_range rs = map region_range rs''" by (cases rs') auto
  then show ?case using Cons by (auto split: if_splits)
qed simp

lemma bus_locate_layout:
  "bus_locate b a w = Inr p \<Longrightarrow> bus_layout b' = bus_layout b \<Longrightarrow> bus_locate b' a w = Inr p"
  using locate_loop_layout [of "bus_regions b" 0 a "width_in_bytes w" p "bus_regions b'"]
  by (simp add: bus_locate_def Let_def bus_layout_def split: if_splits)

lemma bus_layout_reservation [simp]:
  "bus_layout (b\<lparr>bus_reservation := x\<rparr>) = bus_layout b"
  "bus_layout (fst (next_reservation_token b)) = bus_layout b"
  by (simp_all add: bus_layout_def)

lemma load_reserved_ok:
  assumes "load_reserved b a w = (b1, r)" "ar_ok (lr_access r)"
  shows "bus_layout b1 = bus_layout b" "\<exists>p. bus_locate b a w = Inr p" "lr_token r \<noteq> 0"
    "bus_reservation b1 = Some \<lparr>rr_token = lr_token r, rr_load_address = a,
        rr_reserved_base = reservation_base a, rr_length = 8\<rparr>"
    "lr_access r = snd (bus_read b a w Atomic)" "bus_regions b1 = bus_regions (fst (bus_read b a w Atomic))"
proof -
  obtain i off where l: "bus_locate b a w = Inr (i, off)"
    using assms by (cases "bus_locate b a w") (auto simp: load_reserved_def dest: bus_locate_Inl)
  let ?x = "region_read (bus_regions b ! i) off w Atomic"
  have ok: "ar_ok (snd ?x)"
    using assms l by (auto simp: load_reserved_def split_beta Let_def split: if_splits)
  let ?n = "next_reservation_token (set_region b i (fst ?x))"
  have e: "b1 = (fst ?n)\<lparr>bus_reservation := Some \<lparr>rr_token = snd ?n, rr_load_address = a,
        rr_reserved_base = reservation_base a, rr_length = 8\<rparr>\<rparr>" "r = \<lparr>lr_access = snd ?x, lr_token = snd ?n\<rparr>"
    using assms l ok by (auto simp: load_reserved_def split_beta Let_def)
  show "bus_layout b1 = bus_layout b" "\<exists>p. bus_locate b a w = Inr p" "lr_token r \<noteq> 0"
    "bus_reservation b1 = Some \<lparr>rr_token = lr_token r, rr_load_address = a,
        rr_reserved_base = reservation_base a, rr_length = 8\<rparr>"
    "lr_access r = snd (bus_read b a w Atomic)" "bus_regions b1 = bus_regions (fst (bus_read b a w Atomic))"
    using e l next_token_nonzero
    by (simp_all add: bus_layout_set_region any_region.rng_rd bus_read_def split_beta Let_def)
qed

text \<open>C13. LR followed by SC to the same address succeeds: when nothing intervenes, the store-conditional
  performs exactly the bus write and reports an exchange if that write succeeds (and its error
  otherwise), and it always consumes the reservation.\<close>

theorem load_reserved_store_conditional:
  assumes "load_reserved b a w = (b1, r)" and "ar_ok (lr_access r)"
  shows "store_conditional b1 (lr_token r) a w v =
     (let x = bus_write (b1\<lparr>bus_reservation := None\<rparr>) a w v Atomic in
      (fst x, if ar_ok (snd x) then ar_success 0 True else snd x))"
proof -
  note lr = load_reserved_ok [OF assms]
  obtain p where "bus_locate b a w = Inr p" using lr(2) by blast
  then have "bus_locate b1 a w = Inr p" using lr(1) by (rule bus_locate_layout)
  moreover have "width_in_bytes w \<le> 8" by (cases w) simp_all
  then have "reservation_matches (bus_reservation b1) (lr_token r) a w"
    using lr(3,4) by (simp add: reservation_matches_def)
  ultimately show ?thesis by (simp add: store_conditional_eq Let_def)
qed

theorem load_reserved_store_conditional_witness:
  "ar_ok (lr_access (snd (load_reserved example_bus 0x80000008 Word32)))
   \<and> ar_exchanged (snd (store_conditional (fst (load_reserved example_bus 0x80000008 Word32))
        (lr_token (snd (load_reserved example_bus 0x80000008 Word32))) 0x80000008 Word32 7))"
proof -
  let ?l = "load_reserved example_bus 0x80000008 Word32"
  have ok: "ar_ok (lr_access (snd ?l))" by code_simp
  have w: "ar_ok (snd (bus_write ((fst ?l)\<lparr>bus_reservation := None\<rparr>) 0x80000008 Word32 7 Atomic))"
    by code_simp
  from load_reserved_store_conditional [of example_bus "0x80000008" Word32 "fst ?l" "snd ?l" 7] ok w
  show ?thesis by (simp add: Let_def)
qed

lemma sc_without_reservation:
  assumes "\<not> reservation_matches (bus_reservation b) tok a w"
  shows "\<not> ar_exchanged (snd (store_conditional b tok a w v))"
    "bus_regions (fst (store_conditional b tok a w v)) = bus_regions b"
    "bus_reservation (fst (store_conditional b tok a w v)) = None"
proof -
  let ?b = "b\<lparr>bus_reservation := None\<rparr>"
  have "snd (bus_write ?b a w v Atomic) = f \<and> fst (bus_write ?b a w v Atomic) = ?b"
    if "bus_locate b a w = Inl f" for f
    using that by (simp add: bus_write_def bus_locate_def Let_def split: if_splits)
  then show "\<not> ar_exchanged (snd (store_conditional b tok a w v))"
    "bus_regions (fst (store_conditional b tok a w v)) = bus_regions b"
    "bus_reservation (fst (store_conditional b tok a w v)) = None"
    using assms by (auto simp: store_conditional_eq Let_def dest: bus_locate_Inl)
qed

lemma bus_write_atomic_reservation: "t \<noteq> DmaWrite \<Longrightarrow> bus_reservation (fst (bus_write b a w v t)) = bus_reservation b"
  by (simp add: bus_write_def split_beta Let_def set_region_def split: sum.split)

text \<open>A reservation is used at most once: after any store-conditional, successful or not, every further
  store-conditional fails without touching a region until a new load-reserved.\<close>

theorem store_conditional_consumes:
  "let b1 = fst (store_conditional b tok a w v) in
     bus_reservation b1 = None
   \<and> \<not> ar_exchanged (snd (store_conditional b1 tok' a' w' v'))
   \<and> bus_regions (fst (store_conditional b1 tok' a' w' v')) = bus_regions b1"
proof -
  have n: "bus_reservation (fst (store_conditional b tok a w v)) = None"
    by (simp add: store_conditional_eq Let_def bus_write_atomic_reservation)
  then have "\<not> reservation_matches (bus_reservation (fst (store_conditional b tok a w v))) tok' a' w'"
    by (simp add: reservation_matches_def)
  then show ?thesis using n sc_without_reservation by (simp add: Let_def)
qed

lemma reservation_base_bounds:
  "unat (reservation_base a) + 8 \<le> 2 ^ 64" "unat (reservation_base a + 8 - 1) = unat (reservation_base a) + 7"
proof -
  have m: "(8 :: u64) - 1 = mask 3" by (simp add: mask_eq_exp_minus_1)
  have "reservation_base a = push_bit 3 (drop_bit 3 a)"
    unfolding reservation_base_def m by (intro bit_word_eqI) (auto simp: bit_simps)
  moreover have "unat a div 8 * 8 < 2 ^ 64" using unat_u64_less [of a] by simp
  ultimately have "unat (reservation_base a) = 8 * (unat a div 8)"
    by (simp add: word_unat_eq_iff push_bit_eq_mult drop_bit_eq_div unat_div unat_word_ariths)
  moreover have "8 * (unat a div 8) + 8 \<le> 2 ^ 64" using unat_u64_less [of a] by simp
  ultimately show "unat (reservation_base a) + 8 \<le> 2 ^ 64" by simp
  then have "unat (reservation_base a + 7) = unat (reservation_base a) + 7"
    by (simp add: unat_word_ariths)
  then show "unat (reservation_base a + 8 - 1) = unat (reservation_base a) + 7"
    by (simp add: add.commute)
qed

lemma invalidate_reservation_exact:
  assumes "bus_reservation b = Some rr" "reservation_wf rr" "w \<noteq> UnnamedWidth"
    "unat a + unat (width_in_bytes w) \<le> 2 ^ 64"
  shows "bus_reservation (invalidate_reservation b a (width_in_bytes w)) =
    (if {unat a ..< unat a + unat (width_in_bytes w)}
        \<inter> {unat (rr_reserved_base rr) ..< unat (rr_reserved_base rr) + 8} = {} then Some rr else None)"
proof -
  have n: "0 < unat (width_in_bytes w)" "unat (width_in_bytes w - 1) = unat (width_in_bytes w) - 1"
    using assms(3) by (cases w; simp)+
  have "unat (a + (width_in_bytes w - 1)) = unat a + (unat (width_in_bytes w) - 1)"
    using assms(4) n by (simp add: unat_plus_no_overflow)
  then have l: "unat (a + width_in_bytes w - 1) = unat a + unat (width_in_bytes w) - 1"
    using n(1) by (simp add: add_diff_eq)
  have r: "unat (rr_reserved_base rr + rr_length rr - 1) = unat (rr_reserved_base rr) + 7"
    using assms(2) reservation_base_bounds by (simp add: reservation_wf_def)
  show ?thesis
    using assms(1,3) n(1) by (auto simp: invalidate_reservation_def Let_def word_le_nat_alt l r)
qed

text \<open>C14. Device writes break exactly the reservations they touch: a successful DMA write or compare-exchange
  removes the hart's reservation if and only if its bytes overlap the reserved 8-byte granule.\<close>

theorem reservation_invalidation_exact:
  assumes "bus_wf b" and "bus_reservation b = Some rr"
    and "b' = fst (bus_write b a w v DmaWrite) \<and> ar_ok (snd (bus_write b a w v DmaWrite))
       \<or> b' = fst (bus_compare_exchange b a w e n t) \<and> ar_ok (snd (bus_compare_exchange b a w e n t))
          \<and> ar_exchanged (snd (bus_compare_exchange b a w e n t))"
  shows "bus_reservation b' =
    (if {unat a ..< unat a + unat (width_in_bytes w)}
        \<inter> {unat (rr_reserved_base rr) ..< unat (rr_reserved_base rr) + 8} = {} then Some rr else None)"
proof -
  obtain i off where l: "bus_locate b a w = Inr (i, off)"
    using assms(3) by (cases "bus_locate b a w") (auto simp: bus_op_defs dest: bus_locate_Inl)
  obtain r' where b': "b' = invalidate_reservation (set_region b i r') a (width_in_bytes w)"
    using assms(3) l by (auto simp: bus_op_defs split_beta Let_def)
  have "reservation_wf rr" using assms(1,2) by (simp add: bus_wf_def)
  then show ?thesis
    unfolding b' using assms(2) bus_locate_Inr(4,5) [OF l]
    by (intro invalidate_reservation_exact) (simp_all add: set_region_def)
qed

theorem reservation_invalidation_exact_witness:
  "bus_reservation (fst (bus_write (fst (load_reserved example_bus 0x80000008 Word32)) 0x8000000C Byte 1 DmaWrite))
     = None"
proof -
  let ?b = "fst (load_reserved example_bus 0x80000008 Word32)"
  obtain rr where rr: "bus_reservation ?b = Some rr" "rr_reserved_base rr = 0x80000008"
  proof -
    have "map_option rr_reserved_base (bus_reservation ?b) = Some 0x80000008" by code_simp
    then show ?thesis using that by auto
  qed
  have ok: "ar_ok (snd (bus_write ?b 0x8000000C Byte 1 DmaWrite))" by code_simp
  from reservation_invalidation_exact [OF bus_wf_load_reserved [OF example_bus_wf] rr(1),
      of _ "0x8000000C" Byte 1, OF disjI1, OF conjI, OF refl ok]
  show ?thesis by (simp add: rr(2))
qed

end
