(* ===== verification/Mmu.thy ===== *)
theory Mmu
  imports Bus
begin

text \<open>
  The Sv39 memory management unit (\<open>src/memory/mmu.cpp\<close>): address canonicality, the 64-entry TLB, the
  three-level page-table walk with atomic accessed/dirty updates, and SFENCE.VMA. The unit works on
  the bus it holds a reference to, so its operations pass the bus along. Page levels and TLB positions
  are natural numbers (the source uses small unsigned integers for them).
\<close>

datatype mmu_access_kind = MmuInstructionFetch | MmuLoad | MmuStore | MmuAtomic

record mmu_context =
  mc_privilege :: privilege_mode
  mc_satp :: u64
  mc_mstatus :: u64

record mmu_fault =
  mf_cause :: exception_cause
  mf_value :: u64

record translation_result =
  tr_physical_address :: "u64 option"
  tr_fault :: "mmu_fault option"

record tlb_entry =
  te_valid :: bool
  te_virtual_page :: u64
  te_asid :: u16
  te_level :: nat
  te_physical_page_number :: u64
  te_flags :: u16
  te_age :: u64

record mmu =
  mm_tlb :: "tlb_entry list"
  mm_next_tlb_age :: u64

record page_walk_result =
  pw_physical_address :: "u64 option"
  pw_fault :: "mmu_fault option"
  pw_retry :: bool

definition mmu_create :: mmu where
  "mmu_create = \<lparr>mm_tlb = replicate 64 \<lparr>te_valid = False, te_virtual_page = 0, te_asid = 0,
     te_level = 0, te_physical_page_number = 0, te_flags = 0, te_age = 0\<rparr>, mm_next_tlb_age = 1\<rparr>"

abbreviation (input) kPageSize :: u64 where "kPageSize \<equiv> 4096"
abbreviation (input) kSv39Mode :: u64 where "kSv39Mode \<equiv> 8"
definition kPteValid :: u16 where "kPteValid = 1"
definition kPteRead :: u16 where "kPteRead = 2"
definition kPteWrite :: u16 where "kPteWrite = 4"
definition kPteExecute :: u16 where "kPteExecute = 8"
definition kPteUser :: u16 where "kPteUser = 16"
definition kPteGlobal :: u16 where "kPteGlobal = 32"
definition kPteAccessed :: u16 where "kPteAccessed = 64"
definition kPteDirty :: u16 where "kPteDirty = 128"

abbreviation (input) kMstatusSum :: u64 where "kMstatusSum \<equiv> bit64 18"
abbreviation (input) kMstatusMxr :: u64 where "kMstatusMxr \<equiv> bit64 19"

definition satp_mode :: "u64 \<Rightarrow> u64" where
  "satp_mode satp = drop_bit 60 satp"

definition satp_asid :: "u64 \<Rightarrow> u16" where
  "satp_asid satp = ucast (drop_bit 44 satp AND 0xFFFF)"

definition satp_root_ppn :: "u64 \<Rightarrow> u64" where
  "satp_root_ppn satp = satp AND mask 44"

definition vpn :: "u64 \<Rightarrow> nat \<Rightarrow> u64" where
  "vpn va level = drop_bit (12 + 9 * level) va AND 0x1FF"

definition pte_ppn :: "u64 \<Rightarrow> u64" where
  "pte_ppn pte = drop_bit 10 pte AND mask 44"

definition pte_flags :: "u64 \<Rightarrow> u16" where
  "pte_flags pte = ucast (pte AND 0x3FF)"

definition canonical_sv39 :: "u64 \<Rightarrow> bool" where
  "canonical_sv39 va =
     (let sign = drop_bit 38 va AND 1; high = drop_bit 39 va in
      if sign = 0 then high = 0 else high = mask 25)"

definition pte_valid :: "u16 \<Rightarrow> bool" where
  "pte_valid flags \<longleftrightarrow> flags AND kPteValid \<noteq> 0 \<and> \<not> (flags AND kPteWrite \<noteq> 0 \<and> flags AND kPteRead = 0)"

definition pte_leaf :: "u16 \<Rightarrow> bool" where
  "pte_leaf flags \<longleftrightarrow> flags AND (kPteRead OR kPteExecute) \<noteq> 0"

definition page_size_for_level :: "nat \<Rightarrow> u64" where
  "page_size_for_level level = push_bit (9 * level) kPageSize"

definition virtual_page_for_level :: "u64 \<Rightarrow> nat \<Rightarrow> u64" where
  "virtual_page_for_level va level = va div page_size_for_level level"

text \<open>\<open>add_overflows\<close> returns the sum through a reference; here it is the second component.\<close>

definition add_overflows :: "u64 \<Rightarrow> u64 \<Rightarrow> bool \<times> u64" where
  "add_overflows lhs rhs = (let result = lhs + rhs in (result < lhs, result))"

fun page_fault_cause :: "mmu_access_kind \<Rightarrow> exception_cause" where
  "page_fault_cause MmuInstructionFetch = InstructionPageFault"
| "page_fault_cause MmuLoad = LoadPageFault"
| "page_fault_cause MmuStore = StorePageFault"
| "page_fault_cause MmuAtomic = StorePageFault"

definition page_fault :: "mmu_access_kind \<Rightarrow> u64 \<Rightarrow> mmu_fault" where
  "page_fault kind va = \<lparr>mf_cause = page_fault_cause kind, mf_value = va\<rparr>"

definition permission_allows :: "u16 \<Rightarrow> mmu_access_kind \<Rightarrow> mmu_context \<Rightarrow> bool" where
  "permission_allows flags kind ctx =
     (let user_page = (flags AND kPteUser \<noteq> 0) in
      if mc_privilege ctx = User \<and> \<not> user_page then False
      else if mc_privilege ctx = Supervisor \<and> user_page
              \<and> (kind = MmuInstructionFetch \<or> mc_mstatus ctx AND kMstatusSum = 0) then False
      else case kind of
        MmuInstructionFetch \<Rightarrow> flags AND kPteExecute \<noteq> 0
      | MmuLoad \<Rightarrow> flags AND kPteRead \<noteq> 0
                    \<or> (mc_mstatus ctx AND kMstatusMxr \<noteq> 0 \<and> flags AND kPteExecute \<noteq> 0)
      | MmuStore \<Rightarrow> flags AND kPteWrite \<noteq> 0
      | MmuAtomic \<Rightarrow> flags AND kPteRead \<noteq> 0 \<and> flags AND kPteWrite \<noteq> 0)"

definition superpage_aligned :: "u64 \<Rightarrow> nat \<Rightarrow> bool" where
  "superpage_aligned ppn level =
     (if level = 2 then ppn AND mask 18 = 0 else if level = 1 then ppn AND mask 9 = 0 else True)"

definition compose_physical_address :: "u64 \<Rightarrow> u64 \<Rightarrow> nat \<Rightarrow> u64" where
  "compose_physical_address va ppn level =
     (let page_offset = va AND mask 12;
          ppn0 = (if level = 0 then ppn AND 0x1FF else vpn va 0);
          ppn1 = (if level \<le> 1 then drop_bit 9 ppn AND 0x1FF else vpn va 1);
          ppn2 = drop_bit 18 ppn AND mask 26 in
      push_bit 30 ppn2 OR push_bit 21 ppn1 OR push_bit 12 ppn0 OR page_offset)"

subsection \<open>TLB\<close>

definition writes :: "mmu_access_kind \<Rightarrow> bool" where
  "writes kind \<longleftrightarrow> kind = MmuStore \<or> kind = MmuAtomic"

definition tlb_matches :: "tlb_entry \<Rightarrow> u64 \<Rightarrow> u16 \<Rightarrow> bool" where
  "tlb_matches e va asid \<longleftrightarrow> te_valid e \<and> (te_flags e AND kPteGlobal \<noteq> 0 \<or> te_asid e = asid)
     \<and> te_virtual_page e = virtual_page_for_level va (te_level e)"

fun lookup_tlb_loop ::
    "tlb_entry list \<Rightarrow> nat \<Rightarrow> u64 \<Rightarrow> mmu_access_kind \<Rightarrow> mmu_context \<Rightarrow> (nat \<times> u64) option" where
  "lookup_tlb_loop [] i va kind ctx = None"
| "lookup_tlb_loop (e # es) i va kind ctx =
     (if \<not> tlb_matches e va (satp_asid (mc_satp ctx)) then lookup_tlb_loop es (Suc i) va kind ctx
      else if \<not> permission_allows (te_flags e) kind ctx then None
      else if writes kind \<and> te_flags e AND kPteDirty = 0 then None
      else Some (i, compose_physical_address va (te_physical_page_number e) (te_level e)))"

definition lookup_tlb :: "mmu \<Rightarrow> u64 \<Rightarrow> mmu_access_kind \<Rightarrow> mmu_context \<Rightarrow> mmu \<times> u64 option" where
  "lookup_tlb m va kind ctx =
     (case lookup_tlb_loop (mm_tlb m) 0 va kind ctx of
        None \<Rightarrow> (m, None)
      | Some (i, pa) \<Rightarrow>
          (m\<lparr>mm_tlb := (mm_tlb m)[i := (mm_tlb m ! i)\<lparr>te_age := mm_next_tlb_age m\<rparr>],
             mm_next_tlb_age := mm_next_tlb_age m + 1\<rparr>, Some pa))"

fun tlb_victim :: "tlb_entry list \<Rightarrow> nat list \<Rightarrow> nat \<Rightarrow> nat" where
  "tlb_victim tlb [] victim = victim"
| "tlb_victim tlb (i # rest) victim =
     (if \<not> te_valid (tlb ! i) then i
      else tlb_victim tlb rest (if te_age (tlb ! i) < te_age (tlb ! victim) then i else victim))"

definition fill_tlb :: "mmu \<Rightarrow> u64 \<Rightarrow> nat \<Rightarrow> u64 \<Rightarrow> u16 \<Rightarrow> u16 \<Rightarrow> mmu" where
  "fill_tlb m va level ppn flags asid =
     (let victim = tlb_victim (mm_tlb m) [0..<length (mm_tlb m)] 0 in
      m\<lparr>mm_tlb := (mm_tlb m)[victim := \<lparr>te_valid = True,
            te_virtual_page = virtual_page_for_level va level, te_asid = asid, te_level = level,
            te_physical_page_number = ppn, te_flags = flags, te_age = mm_next_tlb_age m\<rparr>],
        mm_next_tlb_age := mm_next_tlb_age m + 1\<rparr>)"

definition sfence_keeps :: "u64 option \<Rightarrow> u16 option \<Rightarrow> tlb_entry \<Rightarrow> bool" where
  "sfence_keeps va asid e =
     (if \<not> te_valid e then True
      else if (case asid of None \<Rightarrow> False | Some a \<Rightarrow> te_asid e \<noteq> a \<and> te_flags e AND kPteGlobal = 0) then True
      else (case va of None \<Rightarrow> False
            | Some v \<Rightarrow> te_virtual_page e \<noteq> virtual_page_for_level v (te_level e)))"

definition sfence_vma :: "mmu \<Rightarrow> u64 option \<Rightarrow> u16 option \<Rightarrow> mmu" where
  "sfence_vma m va asid =
     m\<lparr>mm_tlb := map (\<lambda>e. if sfence_keeps va asid e then e else e\<lparr>te_valid := False\<rparr>) (mm_tlb m)\<rparr>"

definition valid_tlb_entries :: "mmu \<Rightarrow> nat" where
  "valid_tlb_entries m = length (filter te_valid (mm_tlb m))"

subsection \<open>The page-table walk\<close>

definition walk_faults :: "mmu_access_kind \<Rightarrow> u64 \<Rightarrow> page_walk_result" where
  "walk_faults kind va =
     \<lparr>pw_physical_address = None, pw_fault = Some (page_fault kind va), pw_retry = False\<rparr>"

text \<open>The leaf part of the loop body: alignment, permission, accessed/dirty update, TLB fill.\<close>

definition walk_leaf ::
    "u64 \<Rightarrow> mmu_access_kind \<Rightarrow> mmu_context \<Rightarrow> nat \<Rightarrow> u64 \<Rightarrow> u64 \<Rightarrow> mmu \<Rightarrow> bus \<Rightarrow> mmu \<times> bus \<times> page_walk_result" where
  "walk_leaf va kind ctx level pte_address pte m b =
     (let ppn = pte_ppn pte in
      if \<not> superpage_aligned ppn level \<or> \<not> permission_allows (pte_flags pte) kind ctx
      then (m, b, walk_faults kind va)
      else
        let desired1 = pte OR ucast kPteAccessed;
            desired = (if writes kind then desired1 OR ucast kPteDirty else desired1);
            done = (\<lambda>b'. (fill_tlb m va level ppn (pte_flags desired) (satp_asid (mc_satp ctx)), b',
                      \<lparr>pw_physical_address = Some (compose_physical_address va ppn level),
                       pw_fault = None, pw_retry = False\<rparr>)) in
        if desired \<noteq> pte then
          let (b', updated) = bus_compare_exchange b pte_address DoubleWord pte desired Atomic in
          if \<not> ar_ok updated then (m, b', walk_faults kind va)
          else if \<not> ar_exchanged updated
            then (m, b', \<lparr>pw_physical_address = None, pw_fault = None, pw_retry = True\<rparr>)
          else done b'
        else done b)"

text \<open>One pass over the levels \<open>level, ..., 0\<close>.\<close>

fun walk_level ::
    "u64 \<Rightarrow> mmu_access_kind \<Rightarrow> mmu_context \<Rightarrow> nat \<Rightarrow> u64 \<Rightarrow> mmu \<Rightarrow> bus \<Rightarrow> mmu \<times> bus \<times> page_walk_result" where
  "walk_level va kind ctx level table_ppn m b =
     (let (overflow, pte_address) = add_overflows (push_bit 12 table_ppn) (vpn va level * 8) in
      if overflow then (m, b, walk_faults kind va)
      else
        let (b1, pte_read) = bus_read b pte_address DoubleWord Load in
        if \<not> ar_ok pte_read then (m, b1, walk_faults kind va)
        else
          let pte = ar_value pte_read; flags = pte_flags pte in
          if \<not> pte_valid flags then (m, b1, walk_faults kind va)
          else if \<not> pte_leaf flags then
            (case level of 0 \<Rightarrow> (m, b1, walk_faults kind va)
             | Suc level' \<Rightarrow> walk_level va kind ctx level' (pte_ppn pte) m b1)
          else walk_leaf va kind ctx level pte_address pte m b1)"

declare walk_level.simps [simp del]

definition walk_page_table ::
    "u64 \<Rightarrow> mmu_access_kind \<Rightarrow> mmu_context \<Rightarrow> mmu \<Rightarrow> bus \<Rightarrow> mmu \<times> bus \<times> page_walk_result" where
  "walk_page_table va kind ctx m b = walk_level va kind ctx 2 (satp_root_ppn (mc_satp ctx)) m b"

lemma walk_leaf_no_retry:
  assumes "ar_ok (snd (bus_read b0 a DoubleWord Load))" "pte = ar_value (snd (bus_read b0 a DoubleWord Load))"
    "b = fst (bus_read b0 a DoubleWord Load)"
  shows "\<not> pw_retry (snd (snd (walk_leaf va kind ctx level a pte m b)))"
proof -
  have x: "ar_ok (snd (bus_compare_exchange b a DoubleWord pte n Atomic)) \<Longrightarrow>
      ar_exchanged (snd (bus_compare_exchange b a DoubleWord pte n Atomic))" for n
    using phys_bus.rd_cas_double [OF assms(1)] assms(2,3) by blast
  show ?thesis
    using x by (simp add: walk_leaf_def Let_def split_beta walk_faults_def)
qed

lemma walk_level_no_retry: "\<not> pw_retry (snd (snd (walk_level va kind ctx level ppn m b)))"
proof (induction level arbitrary: ppn b)
  case 0
  then show ?case
    by (simp add: walk_level.simps [of _ _ _ 0] Let_def split_beta walk_faults_def walk_leaf_no_retry)
next
  case (Suc level)
  then show ?case
    by (simp add: walk_level.simps [of _ _ _ "Suc level"] Let_def split_beta walk_faults_def walk_leaf_no_retry)
qed

text \<open>The \<open>for (;;)\<close> loop of \<open>translate\<close>; it is total because a walk never asks for a retry.\<close>

function translate_loop ::
    "u64 \<Rightarrow> mmu_access_kind \<Rightarrow> mmu_context \<Rightarrow> mmu \<Rightarrow> bus \<Rightarrow> mmu \<times> bus \<times> page_walk_result" where
  "translate_loop va kind ctx m b =
     (if pw_retry (snd (snd (walk_page_table va kind ctx m b)))
      then translate_loop va kind ctx (fst (walk_page_table va kind ctx m b))
             (fst (snd (walk_page_table va kind ctx m b)))
      else walk_page_table va kind ctx m b)"
  by pat_completeness auto
termination
  by (relation "{}") (simp_all add: walk_page_table_def walk_level_no_retry)

declare translate_loop.simps [simp del]

definition translate ::
    "u64 \<Rightarrow> access_width \<Rightarrow> mmu_access_kind \<Rightarrow> mmu_context \<Rightarrow> mmu \<Rightarrow> bus \<Rightarrow> mmu \<times> bus \<times> translation_result" where
  "translate va w kind ctx m b =
     (if mc_privilege ctx = Machine \<or> satp_mode (mc_satp ctx) = 0
      then (m, b, \<lparr>tr_physical_address = Some va, tr_fault = None\<rparr>)
      else if satp_mode (mc_satp ctx) \<noteq> kSv39Mode \<or> \<not> canonical_sv39 va
      then (m, b, \<lparr>tr_physical_address = None, tr_fault = Some (page_fault kind va)\<rparr>)
      else case lookup_tlb m va kind ctx of
          (m', Some pa) \<Rightarrow> (m', b, \<lparr>tr_physical_address = Some pa, tr_fault = None\<rparr>)
        | (m', None) \<Rightarrow>
            let (m2, b2, walked) = translate_loop va kind ctx m' b in
            (m2, b2, \<lparr>tr_physical_address = pw_physical_address walked, tr_fault = pw_fault walked\<rparr>))"

lemma translate_loop_eq: "translate_loop va kind ctx m b = walk_page_table va kind ctx m b"
  by (simp add: translate_loop.simps walk_page_table_def walk_level_no_retry)

subsection \<open>The page table as a function\<close>

text \<open>
  What the page table in memory says about an address, with no side effect: the leaf entry that the
  levels \<open>level, ..., 0\<close> lead to from the table \<open>ppn\<close>, as its level, address and value.
\<close>

definition pte_address_of :: "u64 \<Rightarrow> u64 \<Rightarrow> nat \<Rightarrow> u64" where
  "pte_address_of ppn va level = push_bit 12 ppn + vpn va level * 8"

fun sv39_leaf :: "bus \<Rightarrow> u64 \<Rightarrow> nat \<Rightarrow> u64 \<Rightarrow> (nat \<times> u64 \<times> u64) option" where
  "sv39_leaf b va level ppn =
     (let a = pte_address_of ppn va level; r = snd (bus_read b a DoubleWord Load); pte = ar_value r in
      if a < push_bit 12 ppn \<or> \<not> ar_ok r \<or> \<not> pte_valid (pte_flags pte) then None
      else if pte_leaf (pte_flags pte) then Some (level, a, pte)
      else case level of 0 \<Rightarrow> None | Suc l \<Rightarrow> sv39_leaf b va l (pte_ppn pte))"

declare sv39_leaf.simps [simp del]

definition pte_update :: "mmu_access_kind \<Rightarrow> u64 \<Rightarrow> u64" where
  "pte_update kind pte = (if writes kind then (pte OR bit64 6) OR bit64 7 else pte OR bit64 6)"

lemma walk_level_leaf:
  "walk_level va kind ctx level ppn m b =
     (case sv39_leaf b va level ppn of
        None \<Rightarrow> (m, b, walk_faults kind va)
      | Some (l, a, pte) \<Rightarrow> walk_leaf va kind ctx l a pte m b)"
proof (induction level arbitrary: ppn)
  case 0
  show ?case
    by (simp add: walk_level.simps [of _ _ _ 0] sv39_leaf.simps [of _ _ 0] Let_def split_beta
        add_overflows_def pte_address_of_def phys_bus.rd_double_pure)
next
  case (Suc level)
  then show ?case
    by (simp add: walk_level.simps [of _ _ _ "Suc level"] sv39_leaf.simps [of _ _ "Suc level"] Let_def
        split_beta add_overflows_def pte_address_of_def phys_bus.rd_double_pure)
qed

lemma sv39_leaf_read:
  "sv39_leaf b va level ppn = Some (l, a, pte) \<Longrightarrow>
     snd (bus_read b a DoubleWord Load) = snd (bus_read b a DoubleWord Load)
     \<and> ar_ok (snd (bus_read b a DoubleWord Load)) \<and> ar_value (snd (bus_read b a DoubleWord Load)) = pte
     \<and> pte_valid (pte_flags pte) \<and> pte_leaf (pte_flags pte) \<and> l \<le> level
     \<and> (\<exists>ppn' l'. a = pte_address_of ppn' va l')"
proof (induction level arbitrary: ppn)
  case 0
  then show ?case
    by (auto simp: sv39_leaf.simps [of _ _ 0] Let_def split: if_splits)
next
  case (Suc level)
  then show ?case
    by (auto simp: sv39_leaf.simps [of _ _ "Suc level"] Let_def le_Suc_eq split: if_splits)
qed

lemma pte_address_aligned: "unat (pte_address_of ppn va level) mod 8 = 0"
proof -
  have m: "unat (x * 8) mod 8 = 0" for x :: u64 by (simp add: unat_word_ariths mod_mod_cancel)
  have "pte_address_of ppn va level = (ppn * 512 + vpn va level) * 8"
    by (simp add: pte_address_of_def push_bit_eq_mult algebra_simps)
  then show ?thesis by (simp only: m)
qed

lemma aligned_disjoint:
  "(x :: nat) mod 8 = 0 \<Longrightarrow> y mod 8 = 0 \<Longrightarrow> x \<noteq> y \<Longrightarrow> x + 8 \<le> y \<or> y + 8 \<le> x"
  by presburger

subsection \<open>Flags\<close>

lemma u16_and_eq_0: "n < 16 \<Longrightarrow> ((f :: u16) AND 2 ^ n = 0) \<longleftrightarrow> \<not> bit f n"
proof
  assume n: "n < 16"
  show "\<not> bit f n" if "f AND 2 ^ n = 0"
  proof
    assume "bit f n"
    then have "bit (f AND 2 ^ n) n" using n by (simp add: bit_simps)
    with that show False by simp
  qed
  assume "\<not> bit f n"
  then show "f AND 2 ^ n = 0" by (intro bit_word_eqI) (auto simp: bit_simps)
qed

lemma flag_bits [emu_bits]:
  "(f AND kPteValid = 0) \<longleftrightarrow> \<not> bit f 0" "(f AND kPteRead = 0) \<longleftrightarrow> \<not> bit f 1"
  "(f AND kPteWrite = 0) \<longleftrightarrow> \<not> bit f 2" "(f AND kPteExecute = 0) \<longleftrightarrow> \<not> bit f 3"
  "(f AND kPteUser = 0) \<longleftrightarrow> \<not> bit f 4" "(f AND kPteGlobal = 0) \<longleftrightarrow> \<not> bit f 5"
  "(f AND kPteDirty = 0) \<longleftrightarrow> \<not> bit f 7"
  using u16_and_eq_0 [of 0 f] u16_and_eq_0 [of 1 f] u16_and_eq_0 [of 2 f] u16_and_eq_0 [of 3 f]
    u16_and_eq_0 [of 4 f] u16_and_eq_0 [of 5 f] u16_and_eq_0 [of 7 f]
  by (simp_all add: kPteValid_def kPteRead_def kPteWrite_def kPteExecute_def kPteUser_def kPteGlobal_def
      kPteDirty_def)

lemma pte_leaf_bits: "pte_leaf f \<longleftrightarrow> bit f 1 \<or> bit f 3"
proof -
  have "f AND (kPteRead OR kPteExecute) = (f AND kPteRead) OR (f AND kPteExecute)"
    by (rule bit.conj_disj_distrib)
  then have "f AND (kPteRead OR kPteExecute) = 0 \<longleftrightarrow> f AND kPteRead = 0 \<and> f AND kPteExecute = 0"
    by (simp only: or_eq_0_iff)
  then show ?thesis by (simp add: pte_leaf_def flag_bits)
qed

lemma pte_valid_bits: "pte_valid f \<longleftrightarrow> bit f 0 \<and> (bit f 2 \<longrightarrow> bit f 1)"
  by (auto simp: pte_valid_def flag_bits)

lemma bit_pte_flags: "bit (pte_flags pte) n \<longleftrightarrow> n < 10 \<and> bit pte n"
proof -
  have m: "(0x3FF :: u64) = mask 10" by (simp add: mask_eq_exp_minus_1)
  show ?thesis unfolding pte_flags_def m by (auto simp: bit_simps)
qed

lemma bit_pte_update:
  "bit (pte_update kind pte) n \<longleftrightarrow> bit pte n \<or> n = 6 \<or> (writes kind \<and> n = 7)"
  by (auto simp: pte_update_def bit_or_iff)

lemma pte_update_fields:
  "pte_ppn (pte_update kind pte) = pte_ppn pte"
  "pte_valid (pte_flags (pte_update kind pte)) = pte_valid (pte_flags pte)"
  "pte_leaf (pte_flags (pte_update kind pte)) = pte_leaf (pte_flags pte)"
  "permission_allows (pte_flags (pte_update kind pte)) k ctx = permission_allows (pte_flags pte) k ctx"
  "pte_update kind (pte_update kind pte) = pte_update kind pte"
  "writes kind \<Longrightarrow> bit (pte_flags (pte_update kind pte)) 7"
  by (auto simp: pte_valid_bits pte_leaf_bits bit_pte_flags bit_pte_update permission_allows_def flag_bits
      pte_ppn_def Let_def intro!: bit_word_eqI simp: bit_simps split: mmu_access_kind.splits)

end
