(* ===== verification/Mmu_Correct.thy ===== *)
theory Mmu_Correct
  imports Mmu
begin

text \<open>
  Correctness of the MMU: translation is total and faithful to the page table in memory, it is
  idempotent (which is what makes the loops of the atomic instructions end), permissions hold on TLB
  hits and walks alike, and SFENCE.VMA removes what it must.
\<close>

subsection \<open>One walk\<close>

lemma bus_cas_exchanged_ok:
  assumes "ar_exchanged (snd (bus_compare_exchange b a w e n t))"
  shows "ar_ok (snd (bus_compare_exchange b a w e n t))"
proof -
  from assms obtain i off where l: "bus_locate b a w = Inr (i, off)"
    and x: "ar_exchanged (snd (region_compare_exchange (bus_regions b ! i) off w e n t))"
    by (rule bus_cas_exchanged)
  from x obtain m where "bus_regions b ! i = RamRegion m" "ar_exchanged (snd (pm_compare_exchange m off w e n t))"
    by (rule region_cas_exchanged)
  with l pm_cas_exchanged(1) show ?thesis
    by (simp add: bus_compare_exchange_def split_beta Let_def map_prod_simps pm_ops_ok)
qed

lemma bus_cas_not_ok: "\<not> ar_ok (snd (bus_compare_exchange b a w e n t)) \<Longrightarrow> fst (bus_compare_exchange b a w e n t) = b"
  using bus_cas_exchanged_ok phys_bus.cas_fail by blast

definition walk_done :: "u64 \<Rightarrow> mmu_access_kind \<Rightarrow> mmu_context \<Rightarrow> nat \<Rightarrow> u64 \<Rightarrow> mmu \<Rightarrow> mmu \<times> page_walk_result" where
  "walk_done va kind ctx l pte m =
     (fill_tlb m va l (pte_ppn pte) (pte_flags (pte_update kind pte)) (satp_asid (mc_satp ctx)),
      \<lparr>pw_physical_address = Some (compose_physical_address va (pte_ppn pte) l), pw_fault = None,
       pw_retry = False\<rparr>)"

text \<open>The four outcomes of the leaf part of a walk.\<close>

lemma walk_leaf_eq:
  "walk_leaf va kind ctx l a pte m b =
     (let x = bus_compare_exchange b a DoubleWord pte (pte_update kind pte) Atomic;
          d = walk_done va kind ctx l pte m in
      if \<not> superpage_aligned (pte_ppn pte) l \<or> \<not> permission_allows (pte_flags pte) kind ctx
      then (m, b, walk_faults kind va)
      else if pte_update kind pte = pte then (fst d, b, snd d)
      else if \<not> ar_ok (snd x) then (m, b, walk_faults kind va)
      else if \<not> ar_exchanged (snd x)
        then (m, b, \<lparr>pw_physical_address = None, pw_fault = None, pw_retry = True\<rparr>)
      else (fst d, fst x, snd d))"
proof -
  have u: "pte OR ucast kPteAccessed = pte OR bit64 6" "x OR ucast kPteDirty = x OR bit64 7" for x :: u64
    by (simp_all add: kPteAccessed_def kPteDirty_def bit64_def)
  show ?thesis
    unfolding walk_leaf_def Let_def u
    by (simp add: split_beta pte_update_def walk_done_def bus_cas_not_ok phys_bus.cas_fail)
qed

lemma walk_leaf_success:
  assumes "walk_leaf va kind ctx l a pte m b = (m', b', r)" "pw_physical_address r = Some pa"
  shows "superpage_aligned (pte_ppn pte) l" "permission_allows (pte_flags pte) kind ctx"
    "pa = compose_physical_address va (pte_ppn pte) l" "(m', r) = walk_done va kind ctx l pte m"
    "pte_update kind pte = pte \<and> b' = b \<or>
     pte_update kind pte \<noteq> pte
       \<and> b' = fst (bus_compare_exchange b a DoubleWord pte (pte_update kind pte) Atomic)
       \<and> ar_exchanged (snd (bus_compare_exchange b a DoubleWord pte (pte_update kind pte) Atomic))"
  using assms
  by (auto simp: walk_leaf_eq Let_def walk_faults_def walk_done_def split: if_splits)

text \<open>Setting accessed/dirty bits in one leaf entry changes what the page table says only in that entry.\<close>

lemma sv39_leaf_update_any:
  assumes "bus_wf b" "ar_value (snd (bus_read b a DoubleWord Load)) = pte"
    "pte_valid (pte_flags pte)" "pte_leaf (pte_flags pte)" "unat a mod 8 = 0"
    "ar_ok (snd (bus_read b a DoubleWord Load))"
    "ar_exchanged (snd (bus_compare_exchange b a DoubleWord pte (pte_update kind pte) Atomic))"
  shows "sv39_leaf (fst (bus_compare_exchange b a DoubleWord pte (pte_update kind pte) Atomic)) va level ppn
     = map_option (\<lambda>(l, x, p). (l, x, if x = a then pte_update kind pte else p)) (sv39_leaf b va level ppn)"
proof (induction level arbitrary: ppn)
  let ?b = "fst (bus_compare_exchange b a DoubleWord pte (pte_update kind pte) Atomic)"
  have same: "snd (bus_read ?b a DoubleWord Load) = ar_success (pte_update kind pte) False"
    using phys_bus.rd_after_cas [OF assms(1,7), of Load] by simp
  have other: "snd (bus_read ?b x DoubleWord Load) = snd (bus_read b x DoubleWord Load)"
    if "x \<noteq> a" "unat x mod 8 = 0" for x
  proof -
    have "unat a + 8 \<le> unat x \<or> unat x + 8 \<le> unat a"
      using aligned_disjoint assms(5) that by (metis word_unat_eq_iff)
    then show ?thesis
      using phys_bus.rd_after_cas_other [OF assms(1,7), of x DoubleWord Load] by simp
  qed
  {
    case 0
    show ?case
      using same other [OF _ pte_address_aligned, of ppn va 0] assms(2-4,6)
      by (cases "pte_address_of ppn va 0 = a")
        (auto simp: sv39_leaf.simps [of _ _ 0] Let_def pte_update_fields)
  next
    case (Suc level)
    then show ?case
      using same other [OF _ pte_address_aligned, of ppn va "Suc level"] assms(2-4,6)
      by (cases "pte_address_of ppn va (Suc level) = a")
        (auto simp: sv39_leaf.simps [of _ _ "Suc level"] Let_def pte_update_fields)
  }
qed

lemma sv39_leaf_after_update:
  assumes "bus_wf b" "sv39_leaf b va level ppn = Some (l, a, pte)"
    "ar_exchanged (snd (bus_compare_exchange b a DoubleWord pte (pte_update kind pte) Atomic))"
  shows "sv39_leaf (fst (bus_compare_exchange b a DoubleWord pte (pte_update kind pte) Atomic)) va' level' ppn'
     = map_option (\<lambda>(l, x, p). (l, x, if x = a then pte_update kind pte else p)) (sv39_leaf b va' level' ppn')"
  using sv39_leaf_read [OF assms(2)] pte_address_aligned assms(1,3)
  by (intro sv39_leaf_update_any) auto

lemma walk_level_success:
  assumes "walk_level va kind ctx level ppn m b = (m', b', r)" "pw_physical_address r = Some pa"
  obtains l a pte where "sv39_leaf b va level ppn = Some (l, a, pte)" "walk_leaf va kind ctx l a pte m b = (m', b', r)"
  using assms by (auto simp: walk_level_leaf walk_faults_def split: option.splits)

text \<open>Walking again after a successful walk changes only the TLB and gives the same address.\<close>

lemma walk_again:
  assumes "bus_wf b" "walk_level va kind ctx level ppn m b = (m', b', r)" "pw_physical_address r = Some pa"
  shows "\<exists>m3. walk_level va kind ctx level ppn m2 b' = (m3, b', r)"
proof -
  from assms(2,3) obtain l a pte where leaf: "sv39_leaf b va level ppn = Some (l, a, pte)"
    and w: "walk_leaf va kind ctx l a pte m b = (m', b', r)" by (rule walk_level_success)
  note s = walk_leaf_success [OF w assms(3)]
  have r: "r = snd (walk_done va kind ctx l pte m)" using s(4) by (metis snd_conv)
  have "sv39_leaf b' va level ppn = Some (l, a, pte_update kind pte)"
    using s(5) leaf sv39_leaf_after_update [OF assms(1) leaf] by fastforce
  moreover have "walk_leaf va kind ctx l a (pte_update kind pte) m2 b'
      = (fst (walk_done va kind ctx l (pte_update kind pte) m2), b', r)"
    using s(1,2) by (simp add: walk_leaf_eq Let_def pte_update_fields r) (simp add: walk_done_def pte_update_fields)
  ultimately show ?thesis by (simp add: walk_level_leaf)
qed

subsection \<open>The TLB\<close>

definition tlb_gives :: "tlb_entry \<Rightarrow> u64 \<Rightarrow> mmu_access_kind \<Rightarrow> mmu_context \<Rightarrow> u64 \<Rightarrow> bool" where
  "tlb_gives e va kind ctx pa \<longleftrightarrow> tlb_matches e va (satp_asid (mc_satp ctx))
     \<and> permission_allows (te_flags e) kind ctx \<and> \<not> (writes kind \<and> te_flags e AND kPteDirty = 0)
     \<and> pa = compose_physical_address va (te_physical_page_number e) (te_level e)"

lemma lookup_loop_Some:
  "lookup_tlb_loop es k va kind ctx = Some (j, pa) \<Longrightarrow>
     k \<le> j \<and> j - k < length es \<and> tlb_gives (es ! (j - k)) va kind ctx pa"
proof (induction es arbitrary: k)
  case (Cons e es)
  show ?case
  proof (cases "tlb_matches e va (satp_asid (mc_satp ctx))")
    case True
    then show ?thesis using Cons.prems by (auto simp: tlb_gives_def split: if_splits)
  next
    case False
    then have "Suc k \<le> j \<and> j - Suc k < length es \<and> tlb_gives (es ! (j - Suc k)) va kind ctx pa"
      using Cons by simp
    moreover from this have "j - k = Suc (j - Suc k)" by auto
    ultimately show ?thesis by simp
  qed
qed simp

lemma lookup_loop_fill:
  assumes "lookup_tlb_loop es k va kind ctx = None" "i < length es" "tlb_gives e va kind ctx pa"
  shows "lookup_tlb_loop (es[i := e]) k va kind ctx \<in> {None, Some (k + i, pa)}"
  using assms
proof (induction es arbitrary: k i)
  case (Cons x es)
  show ?case
  proof (cases i)
    case 0
    then show ?thesis using Cons.prems(3) by (auto simp: tlb_gives_def)
  next
    case (Suc j)
    show ?thesis
    proof (cases "tlb_matches x va (satp_asid (mc_satp ctx))")
      case True
      then show ?thesis using Cons.prems Suc by (auto split: if_splits)
    next
      case False
      then show ?thesis using Cons.IH [of "Suc k" j] Cons.prems Suc by auto
    qed
  qed
qed simp

lemma tlb_gives_age: "tlb_gives (e\<lparr>te_age := x\<rparr>) va kind ctx pa = tlb_gives e va kind ctx pa"
  "tlb_matches (e\<lparr>te_age := x\<rparr>) va asid = tlb_matches e va asid"
  by (simp_all add: tlb_gives_def tlb_matches_def)

lemma lookup_loop_touch:
  "lookup_tlb_loop es k va kind ctx = Some (j, pa) \<Longrightarrow>
     lookup_tlb_loop (es[j - k := (es ! (j - k))\<lparr>te_age := x\<rparr>]) k va kind ctx = Some (j, pa)"
proof (induction es arbitrary: k)
  case (Cons e es)
  show ?case
  proof (cases "tlb_matches e va (satp_asid (mc_satp ctx))")
    case True
    then show ?thesis using Cons.prems by (auto simp: tlb_gives_age split: if_splits)
  next
    case False
    then have *: "lookup_tlb_loop es (Suc k) va kind ctx = Some (j, pa)" using Cons.prems by simp
    then have "Suc k \<le> j" using lookup_loop_Some by blast
    then have "j - k = Suc (j - Suc k)" by simp
    then show ?thesis using False Cons.IH [OF *] by simp
  qed
qed simp

lemma tlb_victim_less:
  "\<forall>i\<in>set is. i < n \<Longrightarrow> v < n \<Longrightarrow> tlb_victim tlb is v < n"
  by (induction tlb "is" v rule: tlb_victim.induct) auto

lemma fill_victim_less: "mm_tlb m \<noteq> [] \<Longrightarrow> tlb_victim (mm_tlb m) [0..<length (mm_tlb m)] 0 < length (mm_tlb m)"
  by (intro tlb_victim_less) auto

lemma walk_done_gives:
  assumes "permission_allows (pte_flags pte) kind ctx"
  shows "tlb_gives \<lparr>te_valid = True, te_virtual_page = virtual_page_for_level va l,
            te_asid = satp_asid (mc_satp ctx), te_level = l, te_physical_page_number = pte_ppn pte,
            te_flags = pte_flags (pte_update kind pte), te_age = g\<rparr> va kind ctx
          (compose_physical_address va (pte_ppn pte) l)"
  using assms by (auto simp: tlb_gives_def tlb_matches_def pte_update_fields flag_bits)

lemma lookup_after_fill:
  assumes "mm_tlb m \<noteq> []" "lookup_tlb_loop (mm_tlb m) 0 va kind ctx = None"
    "permission_allows (pte_flags pte) kind ctx"
  shows "lookup_tlb_loop (mm_tlb (fst (walk_done va kind ctx l pte m))) 0 va kind ctx
     \<in> {None, Some (tlb_victim (mm_tlb m) [0..<length (mm_tlb m)] 0, compose_physical_address va (pte_ppn pte) l)}"
  using lookup_loop_fill [OF assms(2) fill_victim_less [OF assms(1)] walk_done_gives [OF assms(3)]]
  by (simp add: walk_done_def fill_tlb_def Let_def)

subsection \<open>Coherence of the TLB\<close>

lemma virtual_page_drop_bit: "virtual_page_for_level va l = drop_bit (12 + 9 * l) va"
proof -
  have "page_size_for_level l = 2 ^ (12 + 9 * l)"
    by (simp add: page_size_for_level_def push_bit_eq_mult power_add)
  then show ?thesis by (simp add: virtual_page_for_level_def drop_bit_eq_div)
qed

lemma vpn_same_page:
  assumes "virtual_page_for_level va l = virtual_page_for_level va' l" "l \<le> i"
  shows "vpn va i = vpn va' i"
proof -
  have "vpn x i = drop_bit (9 * (i - l)) (virtual_page_for_level x l) AND 0x1FF" for x
    using assms(2) by (simp add: vpn_def virtual_page_drop_bit diff_mult_distrib2 add.commute)
  then show ?thesis using assms(1) by simp
qed

lemma sv39_leaf_same_page:
  "sv39_leaf b va level ppn = Some (l, a, pte) \<Longrightarrow> (\<And>i. l \<le> i \<Longrightarrow> vpn va' i = vpn va i) \<Longrightarrow>
     sv39_leaf b va' level ppn = Some (l, a, pte)"
proof (induction level arbitrary: ppn)
  case 0
  then have "l = 0" using sv39_leaf_read by fastforce
  then have "pte_address_of ppn va' 0 = pte_address_of ppn va 0" using 0(2) by (simp add: pte_address_of_def)
  then show ?case using 0(1) by (auto simp: sv39_leaf.simps [of _ _ 0] Let_def split: if_splits)
next
  case (Suc level)
  have "l \<le> Suc level" using Suc.prems(1) sv39_leaf_read by fastforce
  then have "pte_address_of ppn va' (Suc level) = pte_address_of ppn va (Suc level)"
    using Suc.prems(2) by (simp add: pte_address_of_def)
  then show ?case
    using Suc by (auto simp: sv39_leaf.simps [of _ _ "Suc level"] Let_def split: if_splits)
qed

text \<open>
  A TLB is coherent with an address space (a satp value) when every entry it may use there agrees, for all
  addresses of its page, with the leaf entry in memory: same level, page number and permissions,
  accessed in memory, and dirty in the TLB only if dirty in memory.
\<close>

definition entry_coherent :: "u64 \<Rightarrow> bus \<Rightarrow> tlb_entry \<Rightarrow> bool" where
  "entry_coherent satp b e \<longleftrightarrow>
     (\<forall>va. tlb_matches e va (satp_asid satp) \<longrightarrow>
        (\<exists>a pte. sv39_leaf b va 2 (satp_root_ppn satp) = Some (te_level e, a, pte)
           \<and> pte_ppn pte = te_physical_page_number e
           \<and> superpage_aligned (te_physical_page_number e) (te_level e)
           \<and> (\<forall>n. n \<noteq> 6 \<and> n \<noteq> 7 \<longrightarrow> bit (te_flags e) n = bit (pte_flags pte) n)
           \<and> bit pte 6 \<and> (bit (te_flags e) 7 \<longrightarrow> bit pte 7)))"

definition tlb_coherent :: "u64 \<Rightarrow> mmu \<Rightarrow> bus \<Rightarrow> bool" where
  "tlb_coherent satp m b \<longleftrightarrow> (\<forall>e\<in>set (mm_tlb m). entry_coherent satp b e)"

lemma tlb_coherent_create: "tlb_coherent satp mmu_create b"
  by (simp add: tlb_coherent_def mmu_create_def entry_coherent_def tlb_matches_def)

lemma tlb_coherent_flush: "tlb_coherent satp (sfence_vma m None None) b"
  by (auto simp: tlb_coherent_def sfence_vma_def entry_coherent_def tlb_matches_def sfence_keeps_def)

lemma entry_coherent_update:
  assumes "bus_wf b" "sv39_leaf b va level ppn = Some (l, a, pte)"
    "ar_exchanged (snd (bus_compare_exchange b a DoubleWord pte (pte_update kind pte) Atomic))"
    "entry_coherent satp b e"
  shows "entry_coherent satp (fst (bus_compare_exchange b a DoubleWord pte (pte_update kind pte) Atomic)) e"
  unfolding entry_coherent_def
proof (intro allI impI)
  let ?b = "fst (bus_compare_exchange b a DoubleWord pte (pte_update kind pte) Atomic)"
  fix va' assume "tlb_matches e va' (satp_asid satp)"
  then obtain a' pte' where c: "sv39_leaf b va' 2 (satp_root_ppn satp) = Some (te_level e, a', pte')"
      "pte_ppn pte' = te_physical_page_number e"
      "superpage_aligned (te_physical_page_number e) (te_level e)"
      "\<forall>n. n \<noteq> 6 \<and> n \<noteq> 7 \<longrightarrow> bit (te_flags e) n = bit (pte_flags pte') n"
      "bit pte' 6" "bit (te_flags e) 7 \<longrightarrow> bit pte' 7"
    using assms(4) unfolding entry_coherent_def by blast
  let ?p = "if a' = a then pte_update kind pte' else pte'"
  have "a' = a \<Longrightarrow> pte' = pte"
    using sv39_leaf_read [OF c(1)] sv39_leaf_read [OF assms(2)] by auto
  then have "sv39_leaf ?b va' 2 (satp_root_ppn satp) = Some (te_level e, a', ?p)"
    by (simp add: sv39_leaf_after_update [OF assms(1-3)] c(1))
  moreover have "pte_ppn ?p = te_physical_page_number e"
    "\<forall>n. n \<noteq> 6 \<and> n \<noteq> 7 \<longrightarrow> bit (te_flags e) n = bit (pte_flags ?p) n"
    "bit ?p 6" "bit (te_flags e) 7 \<longrightarrow> bit ?p 7"
    using c by (simp_all add: pte_update_fields bit_pte_flags bit_pte_update)
  ultimately show "\<exists>a pte. sv39_leaf ?b va' 2 (satp_root_ppn satp) = Some (te_level e, a, pte)
           \<and> pte_ppn pte = te_physical_page_number e
           \<and> superpage_aligned (te_physical_page_number e) (te_level e)
           \<and> (\<forall>n. n \<noteq> 6 \<and> n \<noteq> 7 \<longrightarrow> bit (te_flags e) n = bit (pte_flags pte) n)
           \<and> bit pte 6 \<and> (bit (te_flags e) 7 \<longrightarrow> bit pte 7)"
    using c(3) by blast
qed

lemma entry_coherent_filled:
  assumes "sv39_leaf b va 2 (satp_root_ppn (mc_satp ctx)) = Some (l, a, pte_update kind pte)"
    "superpage_aligned (pte_ppn pte) l"
  shows "entry_coherent (mc_satp ctx) b \<lparr>te_valid = True, te_virtual_page = virtual_page_for_level va l,
            te_asid = satp_asid (mc_satp ctx), te_level = l, te_physical_page_number = pte_ppn pte,
            te_flags = pte_flags (pte_update kind pte), te_age = g\<rparr>"
proof -
  have "sv39_leaf b va' 2 (satp_root_ppn (mc_satp ctx)) = Some (l, a, pte_update kind pte)"
    if "virtual_page_for_level va l = virtual_page_for_level va' l" for va'
    using that vpn_same_page by (intro sv39_leaf_same_page [OF assms(1)]) metis
  then show ?thesis
    using assms(2)
    by (auto simp: entry_coherent_def tlb_matches_def pte_update_fields bit_pte_update bit_pte_flags)
qed

lemma permission_same_flags:
  assumes "\<forall>n. n \<noteq> 6 \<and> n \<noteq> 7 \<longrightarrow> bit f n = bit g n"
  shows "permission_allows f kind ctx = permission_allows g kind ctx"
  using assms by (simp add: permission_allows_def flag_bits Let_def split: mmu_access_kind.split)

text \<open>On a coherent TLB a hit is what the walk would have found, with nothing left to update.\<close>

lemma hit_equals_walk:
  assumes "entry_coherent (mc_satp ctx) b e" "tlb_gives e va kind ctx pa"
  obtains m' r where "walk_page_table va kind ctx m b = (m', b, r)" "pw_physical_address r = Some pa" "pw_fault r = None"
proof -
  have g: "tlb_matches e va (satp_asid (mc_satp ctx))" "permission_allows (te_flags e) kind ctx"
    "writes kind \<Longrightarrow> bit (te_flags e) 7"
    "pa = compose_physical_address va (te_physical_page_number e) (te_level e)"
    using assms(2) by (auto simp: tlb_gives_def flag_bits)
  then obtain a pte where c: "sv39_leaf b va 2 (satp_root_ppn (mc_satp ctx)) = Some (te_level e, a, pte)"
      "pte_ppn pte = te_physical_page_number e"
      "superpage_aligned (te_physical_page_number e) (te_level e)"
      "\<forall>n. n \<noteq> 6 \<and> n \<noteq> 7 \<longrightarrow> bit (te_flags e) n = bit (pte_flags pte) n"
      "bit pte 6" "bit (te_flags e) 7 \<longrightarrow> bit pte 7"
    using assms(1) unfolding entry_coherent_def by blast
  have "pte_update kind pte = pte"
    using c(5,6) g(3) by (intro bit_word_eqI) (auto simp: bit_pte_update)
  moreover have "permission_allows (pte_flags pte) kind ctx"
    using g(2) permission_same_flags [OF c(4)] by simp
  ultimately have "walk_page_table va kind ctx m b
      = (fst (walk_done va kind ctx (te_level e) pte m), b, snd (walk_done va kind ctx (te_level e) pte m))"
    using c(1-3) by (simp add: walk_page_table_def walk_level_leaf walk_leaf_eq Let_def)
  then show ?thesis using that g(4) c(2) by (simp add: walk_done_def)
qed

subsection \<open>Properties\<close>

text \<open>C27. A page-table walk never asks to be retried: the compare-exchange of the accessed and dirty bits
  uses the value just read from memory, so it wins or the access fails. Hence the retry loop of
  translate runs its body exactly once and every translation returns.\<close>

theorem walk_never_retries:
  "\<not> pw_retry (snd (snd (walk_page_table va kind ctx m b)))
   \<and> translate_loop va kind ctx m b = walk_page_table va kind ctx m b"
  by (simp add: walk_page_table_def walk_level_no_retry translate_loop_eq)

lemma walk_outcome:
  "walk_page_table va kind ctx m b = (m', b', r) \<Longrightarrow>
     (pw_fault r = None \<and> pw_physical_address r \<noteq> None)
     \<or> (r = walk_faults kind va \<and> m' = m \<and> b' = b)"
  using walk_level_no_retry [of va kind ctx 2 "satp_root_ppn (mc_satp ctx)" m b]
  by (auto simp: walk_page_table_def walk_level_leaf walk_leaf_eq Let_def walk_done_def
      split: option.splits if_splits)

lemma translate_sv39:
  assumes "mc_privilege ctx \<noteq> Machine" "satp_mode (mc_satp ctx) = 8" "canonical_sv39 va"
  shows "translate va w kind ctx m b =
    (case lookup_tlb_loop (mm_tlb m) 0 va kind ctx of
       Some (i, pa) \<Rightarrow> (m\<lparr>mm_tlb := (mm_tlb m)[i := (mm_tlb m ! i)\<lparr>te_age := mm_next_tlb_age m\<rparr>],
             mm_next_tlb_age := mm_next_tlb_age m + 1\<rparr>, b, \<lparr>tr_physical_address = Some pa, tr_fault = None\<rparr>)
     | None \<Rightarrow> (let (m', b', r) = walk_page_table va kind ctx m b in
                 (m', b', \<lparr>tr_physical_address = pw_physical_address r, tr_fault = pw_fault r\<rparr>)))"
  using assms by (simp add: translate_def lookup_tlb_def translate_loop_eq split: option.split)

lemma bus_accessed_walk: "bus_accessed b (fst (snd (walk_page_table va kind ctx m b)))"
  by (simp add: walk_page_table_def walk_level_leaf walk_leaf_eq Let_def bus_accessed_ops split: option.split)

lemma bus_accessed_translate: "bus_accessed b (fst (snd (translate va w kind ctx m b)))"
  using bus_accessed_walk
  by (simp add: translate_def lookup_tlb_def translate_loop_eq split_beta Let_def split: option.split)

lemma bus_wf_translate: "bus_wf b \<Longrightarrow> bus_wf (fst (snd (translate va w kind ctx m b)))"
  using bus_accessed_translate by (rule bus_accessed_wf)

lemma mmu_length_translate: "length (mm_tlb (fst (translate va w kind ctx m b))) = length (mm_tlb m)"
  by (simp add: translate_def lookup_tlb_def translate_loop_eq walk_page_table_def walk_level_leaf
      walk_leaf_eq walk_done_def fill_tlb_def split_beta Let_def split: option.split)

text \<open>C26. Every translation ends in exactly one of two ways: a physical address, or a page fault of the cause
  that belongs to the access kind with the virtual address as trap value, and then neither the page
  table (nor anything else on the bus) nor the TLB has been touched. In machine mode and in Bare mode it
  is the identity without side effects.\<close>

theorem translate_outcome:
  assumes "translate va w kind ctx m b = (m', b', r)"
  shows "(tr_fault r = None \<and> tr_physical_address r \<noteq> None
          \<or> r = \<lparr>tr_physical_address = None, tr_fault = Some \<lparr>mf_cause = page_fault_cause kind, mf_value = va\<rparr>\<rparr>
             \<and> m' = m \<and> b' = b)
    \<and> (mc_privilege ctx = Machine \<or> satp_mode (mc_satp ctx) = 0 \<longrightarrow>
         r = \<lparr>tr_physical_address = Some va, tr_fault = None\<rparr> \<and> m' = m \<and> b' = b)"
proof (cases "mc_privilege ctx = Machine \<or> satp_mode (mc_satp ctx) = 0
      \<or> satp_mode (mc_satp ctx) \<noteq> 8 \<or> \<not> canonical_sv39 va")
  case True
  then show ?thesis using assms by (auto simp: translate_def page_fault_def split: if_splits)
next
  case False
  obtain m2 b2 r2 where w: "walk_page_table va kind ctx m b = (m2, b2, r2)" by (cases "walk_page_table va kind ctx m b")
  from False assms walk_outcome [OF w] show ?thesis
    by (auto simp: translate_sv39 w walk_faults_def page_fault_def split: option.splits)
qed

text \<open>A concrete address space: one writable gigapage at virtual address 0, mapped to RAM.\<close>

definition example_ctx :: mmu_context where
  "example_ctx = \<lparr>mc_privilege = Supervisor, mc_satp = 0x8000000000080000, mc_mstatus = 0\<rparr>"

definition example_paged_bus :: bus where
  "example_paged_bus = fst (bus_write example_bus 0x80000000 DoubleWord 0x2000000F Store)"

lemma example_paged_bus_wf: "bus_wf example_paged_bus"
  unfolding example_paged_bus_def by (rule phys_bus.inv_wr [OF example_bus_wf])

lemma example_store:
  "translate 0x8 DoubleWord MmuStore example_ctx mmu_create example_paged_bus
     = (fst (translate 0x8 DoubleWord MmuStore example_ctx mmu_create example_paged_bus),
        fst (snd (translate 0x8 DoubleWord MmuStore example_ctx mmu_create example_paged_bus)),
        \<lparr>tr_physical_address = Some 0x80000008, tr_fault = None\<rparr>)"
proof -
  have "snd (snd (translate 0x8 DoubleWord MmuStore example_ctx mmu_create example_paged_bus))
      = \<lparr>tr_physical_address = Some 0x80000008, tr_fault = None\<rparr>" by code_simp
  then show ?thesis by (metis prod.collapse)
qed

theorem translate_outcome_witness:
  "tr_physical_address (snd (snd (translate 0x40000000 Word32 MmuLoad example_ctx mmu_create example_paged_bus))) = None
   \<and> fst (translate 0x40000000 Word32 MmuLoad example_ctx mmu_create example_paged_bus) = mmu_create"
proof -
  obtain m' b' r where t: "translate 0x40000000 Word32 MmuLoad example_ctx mmu_create example_paged_bus = (m', b', r)"
    by (cases "translate 0x40000000 Word32 MmuLoad example_ctx mmu_create example_paged_bus")
  have "tr_physical_address (snd (snd (translate 0x40000000 Word32 MmuLoad example_ctx mmu_create example_paged_bus))) = None"
    by code_simp
  with translate_outcome [OF t] t show ?thesis by auto
qed

lemma lookup_create: "lookup_tlb_loop (mm_tlb mmu_create) 0 va kind ctx = None"
proof -
  have "lookup_tlb_loop (replicate n e) k va kind ctx = None" if "\<not> te_valid e" for n e k
    using that by (induction n arbitrary: k) (simp_all add: tlb_matches_def)
  then show ?thesis by (simp add: mmu_create_def)
qed

lemma walk_mmu_irrelevant:
  "snd (walk_page_table va kind ctx m b) = snd (walk_page_table va kind ctx m' b)"
  by (simp add: walk_page_table_def walk_level_leaf walk_leaf_eq Let_def walk_done_def split: option.split)

lemma walk_keeps_coherence:
  assumes "bus_wf b" "tlb_coherent (mc_satp ctx) m b" "walk_page_table va kind ctx m b = (m', b', r)"
  shows "tlb_coherent (mc_satp ctx) m' b'"
proof (cases "pw_physical_address r")
  case None
  then show ?thesis using walk_outcome [OF assms(3)] assms(2) by auto
next
  case (Some pa)
  from assms(3) [unfolded walk_page_table_def] Some obtain l a pte
    where leaf: "sv39_leaf b va 2 (satp_root_ppn (mc_satp ctx)) = Some (l, a, pte)"
    and wl: "walk_leaf va kind ctx l a pte m b = (m', b', r)" by (rule walk_level_success)
  note s = walk_leaf_success [OF wl Some]
  have b': "sv39_leaf b' va 2 (satp_root_ppn (mc_satp ctx)) = Some (l, a, pte_update kind pte)"
    using s(5) leaf sv39_leaf_after_update [OF assms(1) leaf] by fastforce
  have old: "\<forall>e\<in>set (mm_tlb m). entry_coherent (mc_satp ctx) b' e"
    using s(5) assms(2) entry_coherent_update [OF assms(1) leaf] by (auto simp: tlb_coherent_def)
  have "m' = fst (walk_done va kind ctx l pte m)" using s(4) by (metis fst_conv)
  then show ?thesis
    using old entry_coherent_filled [OF b' s(1)]
    by (auto simp: tlb_coherent_def walk_done_def fill_tlb_def Let_def
        dest!: set_update_subset_insert [THEN subsetD])
qed

text \<open>C24. The TLB is transparent: as long as it is coherent with the page table of the current address space,
  a translation has the same result and the same effect on memory as one by an MMU whose TLB is empty,
  and it leaves the TLB coherent with the page table it may just have updated.\<close>

theorem tlb_transparent:
  assumes "bus_wf b" and "mm_tlb m \<noteq> []" and "tlb_coherent (mc_satp ctx) m b"
  shows "snd (translate va w kind ctx m b) = snd (translate va w kind ctx mmu_create b)
    \<and> tlb_coherent (mc_satp ctx) (fst (translate va w kind ctx m b)) (fst (snd (translate va w kind ctx m b)))"
proof (cases "mc_privilege ctx = Machine \<or> satp_mode (mc_satp ctx) = 0
      \<or> satp_mode (mc_satp ctx) \<noteq> 8 \<or> \<not> canonical_sv39 va")
  case True
  then show ?thesis using assms(3) by (auto simp: translate_def)
next
  case False
  then have t: "translate va w kind ctx m b =
    (case lookup_tlb_loop (mm_tlb m) 0 va kind ctx of
       Some (i, pa) \<Rightarrow> (m\<lparr>mm_tlb := (mm_tlb m)[i := (mm_tlb m ! i)\<lparr>te_age := mm_next_tlb_age m\<rparr>],
             mm_next_tlb_age := mm_next_tlb_age m + 1\<rparr>, b, \<lparr>tr_physical_address = Some pa, tr_fault = None\<rparr>)
     | None \<Rightarrow> (let (m', b', r) = walk_page_table va kind ctx m b in
                 (m', b', \<lparr>tr_physical_address = pw_physical_address r, tr_fault = pw_fault r\<rparr>)))" for m
    by (intro translate_sv39) auto
  show ?thesis
  proof (cases "lookup_tlb_loop (mm_tlb m) 0 va kind ctx")
    case (Some p)
    obtain i pa where p: "p = (i, pa)" by (cases p)
    have g: "i < length (mm_tlb m)" "tlb_gives (mm_tlb m ! i) va kind ctx pa"
      using lookup_loop_Some [of "mm_tlb m" 0 va kind ctx i pa] Some p by simp_all
    then have "entry_coherent (mc_satp ctx) b (mm_tlb m ! i)"
      using assms(3) by (simp add: tlb_coherent_def)
    then obtain m' r where "walk_page_table va kind ctx mmu_create b = (m', b, r)"
        "pw_physical_address r = Some pa" "pw_fault r = None"
      using hit_equals_walk [OF _ g(2)] by blast
    moreover have "tlb_coherent (mc_satp ctx)
        (m\<lparr>mm_tlb := (mm_tlb m)[i := (mm_tlb m ! i)\<lparr>te_age := x\<rparr>], mm_next_tlb_age := y\<rparr>) b" for x y
      using assms(3) g(1) \<open>entry_coherent (mc_satp ctx) b (mm_tlb m ! i)\<close>
      by (auto simp: tlb_coherent_def entry_coherent_def tlb_gives_age dest!: set_update_subset_insert [THEN subsetD])
    ultimately show ?thesis by (simp add: t Some p lookup_create)
  next
    case None
    obtain m' b' r where w: "walk_page_table va kind ctx m b = (m', b', r)" by (cases "walk_page_table va kind ctx m b")
    have "tlb_coherent (mc_satp ctx) m' b'" using assms(1,3) w by (rule walk_keeps_coherence)
    moreover have "snd (walk_page_table va kind ctx mmu_create b) = (b', r)"
      using walk_mmu_irrelevant [of va kind ctx mmu_create b m] w by simp
    ultimately show ?thesis by (simp add: t None w lookup_create split_beta Let_def)
  qed
qed

theorem tlb_transparent_witness:
  "let m = fst (translate 0x8 DoubleWord MmuStore example_ctx mmu_create example_paged_bus);
       b = fst (snd (translate 0x8 DoubleWord MmuStore example_ctx mmu_create example_paged_bus)) in
     valid_tlb_entries m = 1
   \<and> snd (translate 0x0 Byte MmuLoad example_ctx m b) = snd (translate 0x0 Byte MmuLoad example_ctx mmu_create b)"
proof -
  let ?t = "translate 0x8 DoubleWord MmuStore example_ctx mmu_create example_paged_bus"
  have n: "mm_tlb mmu_create \<noteq> []" by (simp add: mmu_create_def)
  have v: "valid_tlb_entries (fst ?t) = 1" by code_simp
  then have ne: "mm_tlb (fst ?t) \<noteq> []" by (auto simp: valid_tlb_entries_def)
  have "tlb_coherent (mc_satp example_ctx) (fst ?t) (fst (snd ?t))"
    using tlb_transparent [OF example_paged_bus_wf n tlb_coherent_create] by blast
  moreover have "bus_wf (fst (snd ?t))" by (rule bus_wf_translate [OF example_paged_bus_wf])
  ultimately show ?thesis using tlb_transparent [OF _ ne] v unfolding Let_def by blast
qed

text \<open>Translation is idempotent: translating the same access again right after a success yields the same
  physical address and does not touch memory again. This is what lets the retry loop of an atomic
  instruction converge.\<close>

theorem translate_idempotent:
  assumes "bus_wf b" and "mm_tlb m \<noteq> []" and "translate va w kind ctx m b = (m', b', r)"
    and "tr_fault r = None"
  shows "\<exists>m''. translate va w kind ctx m' b' = (m'', b', r)"
proof (cases "mc_privilege ctx = Machine \<or> satp_mode (mc_satp ctx) = 0
      \<or> satp_mode (mc_satp ctx) \<noteq> 8 \<or> \<not> canonical_sv39 va")
  case True
  then show ?thesis using assms(3,4) by (auto simp: translate_def split: if_splits)
next
  case False
  then have t: "translate va w kind ctx m b =
    (case lookup_tlb_loop (mm_tlb m) 0 va kind ctx of
       Some (i, pa) \<Rightarrow> (m\<lparr>mm_tlb := (mm_tlb m)[i := (mm_tlb m ! i)\<lparr>te_age := mm_next_tlb_age m\<rparr>],
             mm_next_tlb_age := mm_next_tlb_age m + 1\<rparr>, b, \<lparr>tr_physical_address = Some pa, tr_fault = None\<rparr>)
     | None \<Rightarrow> (let (m', b', r) = walk_page_table va kind ctx m b in
                 (m', b', \<lparr>tr_physical_address = pw_physical_address r, tr_fault = pw_fault r\<rparr>)))" for m b
    by (intro translate_sv39) auto
  show ?thesis
  proof (cases "lookup_tlb_loop (mm_tlb m) 0 va kind ctx")
    case (Some p)
    obtain i pa where p: "p = (i, pa)" by (cases p)
    from lookup_loop_touch [of "mm_tlb m" 0 va kind ctx i pa "mm_next_tlb_age m"] Some p assms(3)
    show ?thesis by (auto simp: t)
  next
    case None
    obtain m2 b2 r2 where w: "walk_page_table va kind ctx m b = (m2, b2, r2)" by (cases "walk_page_table va kind ctx m b")
    with assms(3,4) None have e: "m' = m2" "b' = b2"
        "r = \<lparr>tr_physical_address = pw_physical_address r2, tr_fault = pw_fault r2\<rparr>" "pw_fault r2 = None"
      by (auto simp: t)
    then obtain pa where pa: "pw_physical_address r2 = Some pa"
      using walk_outcome [OF w] by (auto simp: walk_faults_def)
    note w' = w [unfolded walk_page_table_def]
    obtain m3 where again: "walk_page_table va kind ctx m2 b2 = (m3, b2, r2)"
      using walk_again [OF assms(1) w' pa] unfolding walk_page_table_def by blast
    from w' pa obtain l a pte where wl: "walk_leaf va kind ctx l a pte m b = (m2, b2, r2)" by (rule walk_level_success)
    note s = walk_leaf_success [OF wl pa]
    have "m2 = fst (walk_done va kind ctx l pte m)" using s(4) by (metis fst_conv)
    then have "lookup_tlb_loop (mm_tlb m2) 0 va kind ctx
        \<in> {None, Some (tlb_victim (mm_tlb m) [0..<length (mm_tlb m)] 0, pa)}"
      using lookup_after_fill [OF assms(2) None s(2), of l] s(3) by simp
    then show ?thesis using e pa again by (auto simp: t)
  qed
qed

theorem translate_idempotent_witness:
  "let b = fst (snd (translate 0x8 DoubleWord MmuStore example_ctx mmu_create example_paged_bus)) in
   b \<noteq> example_paged_bus
   \<and> (\<exists>m'. translate 0x8 DoubleWord MmuStore example_ctx
        (fst (translate 0x8 DoubleWord MmuStore example_ctx mmu_create example_paged_bus)) b
        = (m', b, \<lparr>tr_physical_address = Some 0x80000008, tr_fault = None\<rparr>))"
proof -
  let ?b = "fst (snd (translate 0x8 DoubleWord MmuStore example_ctx mmu_create example_paged_bus))"
  have "ar_value (snd (bus_read ?b 0x80000000 DoubleWord Load)) = 0x200000CF"
    "ar_value (snd (bus_read example_paged_bus 0x80000000 DoubleWord Load)) = 0x2000000F" by code_simp+
  then have "?b \<noteq> example_paged_bus" by auto
  moreover have "mm_tlb mmu_create \<noteq> []" by (simp add: mmu_create_def)
  ultimately show ?thesis
    using translate_idempotent [OF example_paged_bus_wf _ example_store] by (simp add: Let_def)
qed

lemma bit_pte_ppn: "bit (pte_ppn pte) n \<longleftrightarrow> n < 44 \<and> bit pte (n + 10)"
  by (auto simp: pte_ppn_def bit_simps add.commute)

lemma superpage_aligned_bits:
  "superpage_aligned ppn l \<longleftrightarrow> (l = 2 \<longrightarrow> (\<forall>n < 18. \<not> bit ppn n)) \<and> (l = 1 \<longrightarrow> (\<forall>n < 9. \<not> bit ppn n))"
proof -
  have m: "ppn AND mask k = 0 \<longleftrightarrow> (\<forall>n < k. \<not> bit ppn n)" if "k \<le> 64" for k
  proof
    assume z: "ppn AND mask k = 0"
    show "\<forall>n < k. \<not> bit ppn n"
    proof (intro allI impI)
      fix n assume "n < k"
      have "\<not> bit (ppn AND mask k) n" using z by simp
      then show "\<not> bit ppn n" using \<open>n < k\<close> that by (simp add: bit_simps)
    qed
  next
    assume "\<forall>n < k. \<not> bit ppn n"
    then show "ppn AND mask k = 0" by (intro bit_word_eqI) (auto simp: bit_simps)
  qed
  show ?thesis using m [of 18] m [of 9] by (auto simp: superpage_aligned_def)
qed

lemma superpage_aligned_low:
  "superpage_aligned ppn l \<Longrightarrow> l \<le> 2 \<Longrightarrow> n < 9 * l \<Longrightarrow> \<not> bit ppn n"
  unfolding superpage_aligned_bits by (cases "l = 2"; cases "l = 1") auto

lemma pte_ppn_bound: "bit (pte_ppn pte) n \<Longrightarrow> n < 44"
  by (simp add: bit_pte_ppn)

text \<open>The composed address, one group of nine bits at a time.\<close>

lemma compose_or:
  assumes "l \<le> 2" "superpage_aligned ppn l" "\<And>n. bit ppn n \<Longrightarrow> n < 44"
  shows "compose_physical_address va ppn l = push_bit 12 ppn OR take_bit (12 + 9 * l) va"
proof (rule bit_word_eqI)
  fix n assume n: "n < LENGTH(64)"
  have mask9: "(0x1FF :: u64) = mask 9" by (simp add: mask_eq_exp_minus_1)
  note c = compose_physical_address_def [unfolded vpn_def Let_def mask9]
  have low: "\<not> bit ppn k" if "k < 9 * l" for k using superpage_aligned_low assms(1,2) that by blast
  have l: "l = 0 \<or> l = 1 \<or> l = 2" using assms(1) by auto
  consider "n < 12" | k where "n = 12 + k" "k < 9" | k where "n = 21 + k" "k < 9"
    | k where "n = 30 + k" "k < 26" | "56 \<le> n"
  proof -
    have "n < 12 \<or> (\<exists>k. n = 12 + k \<and> k < 9) \<or> (\<exists>k. n = 21 + k \<and> k < 9) \<or> (\<exists>k. n = 30 + k \<and> k < 26) \<or> 56 \<le> n"
      by presburger
    then show ?thesis using that by blast
  qed
  then show "bit (compose_physical_address va ppn l) n = bit (push_bit 12 ppn OR take_bit (12 + 9 * l) va) n"
  proof cases
    case 1
    then show ?thesis using n unfolding c by (simp add: bit_simps)
  next
    case (2 k)
    then show ?thesis using n l low [of k] unfolding c
      by (auto simp: bit_simps)
  next
    case (3 k)
    then show ?thesis using n l low [of "k + 9"] unfolding c
      by (auto simp: bit_simps add.commute)
  next
    case (4 k)
    then show ?thesis using n l unfolding c
      by (auto simp: bit_simps add.commute)
  next
    case 5
    then show ?thesis using n l assms(3) [of "n - 12"] unfolding c
      by (auto simp: bit_simps)
  qed
qed

lemma compose_nat:
  assumes "l \<le> 2" "superpage_aligned (pte_ppn pte) l"
  shows "unat (compose_physical_address va (pte_ppn pte) l)
    = unat (pte_ppn pte) * 4096 + unat va mod 2 ^ (12 + 9 * l)"
proof -
  have "\<not> bit (pte_ppn pte) (n - 12)" if "12 \<le> n" "n < 12 + 9 * l" for n
    using superpage_aligned_low [OF assms(2,1), of "n - 12"] that by auto
  then have "push_bit 12 (pte_ppn pte) AND take_bit (12 + 9 * l) va = 0"
    by (intro bit_word_eqI) (auto simp: bit_and_iff bit_push_bit_iff bit_take_bit_iff)
  then have "compose_physical_address va (pte_ppn pte) l = push_bit 12 (pte_ppn pte) + take_bit (12 + 9 * l) va"
    using compose_or [OF assms pte_ppn_bound] by (simp add: disjunctive_add_eq_or)
  moreover have ppn: "unat (pte_ppn pte) < 2 ^ 44"
    unfolding pte_ppn_def by (rule le_less_trans [OF unat_and_le]) (simp add: mask_eq_exp_minus_1)
  then have "unat (push_bit 12 (pte_ppn pte)) = unat (pte_ppn pte) * 4096"
    by (simp add: push_bit_eq_mult unat_word_ariths)
  moreover have "unat (take_bit (12 + 9 * l) va) = unat va mod 2 ^ (12 + 9 * l)"
    unfolding unsigned_take_bit_eq by (rule take_bit_eq_mod)
  moreover have "unat va mod 2 ^ (12 + 9 * l) < 2 ^ 30"
  proof -
    have "unat va mod 2 ^ (12 + 9 * l) < 2 ^ (12 + 9 * l)" by simp
    also have "(2 :: nat) ^ (12 + 9 * l) \<le> 2 ^ 30" using assms(1) by (intro power_increasing) simp_all
    finally show ?thesis .
  qed
  ultimately show ?thesis using ppn by (simp add: unat_plus_no_overflow)
qed

text \<open>C23. On a TLB miss the MMU computes exactly the Sv39 translation of the page table in memory: an address
  is produced iff the table leads to a valid leaf that is aligned for its level, permits the access and
  can have its accessed/dirty bits recorded, and the address is the leaf's page frame plus the offset
  inside the 4 KiB, 2 MiB or 1 GiB page.\<close>

theorem translate_walks_page_table:
  assumes "mc_privilege ctx \<noteq> Machine" and "satp_mode (mc_satp ctx) = 8" and "canonical_sv39 va"
    and "snd (lookup_tlb m va kind ctx) = None"
  shows "tr_physical_address (snd (snd (translate va w kind ctx m b))) = Some pa \<longleftrightarrow>
    (\<exists>l a pte. sv39_leaf b va 2 (satp_root_ppn (mc_satp ctx)) = Some (l, a, pte)
       \<and> superpage_aligned (pte_ppn pte) l \<and> permission_allows (pte_flags pte) kind ctx
       \<and> (pte_update kind pte = pte
           \<or> ar_ok (snd (bus_compare_exchange b a DoubleWord pte (pte_update kind pte) Atomic)))
       \<and> unat pa = unat (pte_ppn pte) * 4096 + unat va mod 2 ^ (12 + 9 * l))"
proof -
  have miss: "lookup_tlb_loop (mm_tlb m) 0 va kind ctx = None"
    using assms(4) by (auto simp: lookup_tlb_def split: option.splits)
  have r: "tr_physical_address (snd (snd (translate va w kind ctx m b)))
      = pw_physical_address (snd (snd (walk_page_table va kind ctx m b)))"
    by (simp add: translate_sv39 [OF assms(1-3)] miss split_beta Let_def)
  show ?thesis
  proof (cases "sv39_leaf b va 2 (satp_root_ppn (mc_satp ctx))")
    case None
    then show ?thesis by (simp add: r walk_page_table_def walk_level_leaf walk_faults_def)
  next
    case (Some p)
    obtain l a pte where p: "p = (l, a, pte)" by (cases p)
    note leaf = sv39_leaf_read [OF Some [unfolded p]]
    then have l: "l \<le> 2" by blast
    have x: "ar_ok (snd (bus_compare_exchange b a DoubleWord pte n Atomic)) \<Longrightarrow>
        ar_exchanged (snd (bus_compare_exchange b a DoubleWord pte n Atomic))" for n
      using leaf phys_bus.cas_after_rd by blast
    have e: "Some (compose_physical_address va (pte_ppn pte) l) = Some pa \<longleftrightarrow>
        unat pa = unat (pte_ppn pte) * 4096 + unat va mod 2 ^ (12 + 9 * l)"
      if "superpage_aligned (pte_ppn pte) l"
      using compose_nat [OF l that, of va] by (auto simp: word_unat_eq_iff)
    show ?thesis
      unfolding r using Some p e x
      by (auto simp: walk_page_table_def walk_level_leaf walk_leaf_eq Let_def walk_faults_def walk_done_def)
  qed
qed

theorem translate_walks_page_table_witness:
  "\<exists>l a pte. sv39_leaf example_paged_bus 0x8 2 (satp_root_ppn (mc_satp example_ctx)) = Some (l, a, pte)
     \<and> unat (0x80000008 :: u64) = unat (pte_ppn pte) * 4096 + unat (0x8 :: u64) mod 2 ^ (12 + 9 * l)"
proof -
  have "mc_privilege example_ctx \<noteq> Machine" "satp_mode (mc_satp example_ctx) = 8" "canonical_sv39 0x8"
    "snd (lookup_tlb mmu_create 0x8 MmuStore example_ctx) = None"
    by code_simp+
  moreover have "tr_physical_address (snd (snd
      (translate 0x8 DoubleWord MmuStore example_ctx mmu_create example_paged_bus))) = Some 0x80000008"
    using example_store by (metis snd_conv translation_result.select_convs(1))
  ultimately show ?thesis using translate_walks_page_table by blast
qed

lemma translate_keeps_coherence:
  assumes "bus_wf b" "tlb_coherent (mc_satp ctx) m b" "translate va w kind ctx m b = (m', b', r)"
  shows "tlb_coherent (mc_satp ctx) m' b'"
proof (cases "mc_privilege ctx = Machine \<or> satp_mode (mc_satp ctx) = 0
      \<or> satp_mode (mc_satp ctx) \<noteq> 8 \<or> \<not> canonical_sv39 va")
  case True
  then show ?thesis using assms(2,3) by (auto simp: translate_def split: if_splits)
next
  case False
  then have t: "translate va w kind ctx m b =
    (case lookup_tlb_loop (mm_tlb m) 0 va kind ctx of
       Some (i, pa) \<Rightarrow> (m\<lparr>mm_tlb := (mm_tlb m)[i := (mm_tlb m ! i)\<lparr>te_age := mm_next_tlb_age m\<rparr>],
             mm_next_tlb_age := mm_next_tlb_age m + 1\<rparr>, b, \<lparr>tr_physical_address = Some pa, tr_fault = None\<rparr>)
     | None \<Rightarrow> (let (m', b', r) = walk_page_table va kind ctx m b in
                 (m', b', \<lparr>tr_physical_address = pw_physical_address r, tr_fault = pw_fault r\<rparr>)))"
    by (intro translate_sv39) auto
  show ?thesis
  proof (cases "lookup_tlb_loop (mm_tlb m) 0 va kind ctx")
    case (Some p)
    obtain i pa where p: "p = (i, pa)" by (cases p)
    have "i < length (mm_tlb m)" using lookup_loop_Some [of "mm_tlb m" 0 va kind ctx i pa] Some p by simp
    then have "entry_coherent (mc_satp ctx) b (mm_tlb m ! i)" using assms(2) by (simp add: tlb_coherent_def)
    then show ?thesis
      using assms(2,3) Some p unfolding t
      by (auto simp: tlb_coherent_def entry_coherent_def tlb_gives_age dest!: set_update_subset_insert [THEN subsetD])
  next
    case None
    with assms(3) have "\<exists>q. walk_page_table va kind ctx m b = (m', b', q)" unfolding t by (auto split: prod.splits)
    then show ?thesis using walk_keeps_coherence [OF assms(1,2)] by blast
  qed
qed

text \<open>The translations of one address space, by accesses of any privilege: what the CPU asks of the MMU between two
  fences as long as no store changes the page table.\<close>

type_synonym guest_access = "u64 \<times> access_width \<times> mmu_access_kind \<times> privilege_mode \<times> u64"

fun translate_all :: "u64 \<Rightarrow> guest_access list \<Rightarrow> mmu \<Rightarrow> bus \<Rightarrow> mmu \<times> bus" where
  "translate_all satp [] m b = (m, b)"
| "translate_all satp ((va, w, kind, privilege, mstatus) # rest) m b =
     (let (m', b', r) = translate va w kind \<lparr>mc_privilege = privilege, mc_satp = satp, mc_mstatus = mstatus\<rparr> m b
      in translate_all satp rest m' b')"

lemma translate_all_coherent:
  assumes "bus_wf b" "tlb_coherent satp m b" "translate_all satp xs m b = (m', b')"
  shows "bus_wf b' \<and> tlb_coherent satp m' b'"
  using assms
proof (induction xs arbitrary: m b)
  case (Cons x xs)
  obtain va w kind privilege mstatus where x: "x = (va, w, kind, privilege, mstatus)" by (cases x)
  let ?ctx = "\<lparr>mc_privilege = privilege, mc_satp = satp, mc_mstatus = mstatus\<rparr>"
  obtain m1 b1 r where t: "translate va w kind ?ctx m b = (m1, b1, r)" by (cases "translate va w kind ?ctx m b")
  have "tlb_coherent satp m1 b1" using translate_keeps_coherence [OF Cons.prems(1) _ t] Cons.prems(2) by simp
  moreover have "bus_wf b1" using bus_wf_translate [OF Cons.prems(1), of va w kind ?ctx m] t by simp
  ultimately show ?case using Cons.IH [of b1 m1] Cons.prems(3) x t by simp
qed simp

lemma permission_bits:
  "permission_allows f kind ctx \<longleftrightarrow>
     (mc_privilege ctx = User \<longrightarrow> bit f 4)
   \<and> (mc_privilege ctx = Supervisor \<and> bit f 4 \<longrightarrow> bit (mc_mstatus ctx) 18 \<and> kind \<noteq> MmuInstructionFetch)
   \<and> (case kind of MmuInstructionFetch \<Rightarrow> bit f 3
      | MmuLoad \<Rightarrow> bit f 1 \<or> bit (mc_mstatus ctx) 19 \<and> bit f 3
      | MmuStore \<Rightarrow> bit f 2 | MmuAtomic \<Rightarrow> bit f 1 \<and> bit f 2)"
  by (auto simp: permission_allows_def flag_bits Let_def split: mmu_access_kind.splits)

lemma translate_granted:
  assumes "tlb_coherent (mc_satp ctx) m b" "mc_privilege ctx \<noteq> Machine" "satp_mode (mc_satp ctx) \<noteq> 0"
    and "tr_physical_address (snd (snd (translate va w kind ctx m b))) = Some pa"
  shows "\<exists>l a pte. sv39_leaf b va 2 (satp_root_ppn (mc_satp ctx)) = Some (l, a, pte)
     \<and> permission_allows (pte_flags pte) kind ctx \<and> pa = compose_physical_address va (pte_ppn pte) l"
proof -
  have sv: "satp_mode (mc_satp ctx) = 8" "canonical_sv39 va"
    using assms by (auto simp: translate_def split: if_splits)
  note t = translate_sv39 [OF assms(2) sv]
  show ?thesis
  proof (cases "lookup_tlb_loop (mm_tlb m) 0 va kind ctx")
    case (Some p)
    obtain i q where p: "p = (i, q)" by (cases p)
    let ?e = "mm_tlb m ! i"
    have g: "i < length (mm_tlb m)" "tlb_gives ?e va kind ctx q"
      using lookup_loop_Some [of "mm_tlb m" 0 va kind ctx i q] Some p by simp_all
    then have "entry_coherent (mc_satp ctx) b ?e" using assms(1) by (simp add: tlb_coherent_def)
    with g(2) obtain a pte where c: "sv39_leaf b va 2 (satp_root_ppn (mc_satp ctx)) = Some (te_level ?e, a, pte)"
        "pte_ppn pte = te_physical_page_number ?e"
        "\<forall>n. n \<noteq> 6 \<and> n \<noteq> 7 \<longrightarrow> bit (te_flags ?e) n = bit (pte_flags pte) n"
      unfolding entry_coherent_def tlb_gives_def by blast
    have "permission_allows (te_flags ?e) kind ctx" "q = compose_physical_address va (te_physical_page_number ?e) (te_level ?e)"
      using g(2) by (simp_all add: tlb_gives_def)
    then have "permission_allows (pte_flags pte) kind ctx" "q = compose_physical_address va (pte_ppn pte) (te_level ?e)"
      unfolding permission_bits using c(2,3) by (auto split: mmu_access_kind.splits)
    moreover have "q = pa" using assms(4) Some p by (simp add: t)
    ultimately show ?thesis using c(1) by blast
  next
    case None
    obtain m' b' r where w: "walk_page_table va kind ctx m b = (m', b', r)" by (cases "walk_page_table va kind ctx m b")
    with assms(4) None have pa: "pw_physical_address r = Some pa" by (simp add: t)
    from w [unfolded walk_page_table_def] pa obtain l a pte
      where leaf: "sv39_leaf b va 2 (satp_root_ppn (mc_satp ctx)) = Some (l, a, pte)"
      and wl: "walk_leaf va kind ctx l a pte m b = (m', b', r)" by (rule walk_level_success)
    from leaf walk_leaf_success(2,3) [OF wl pa] show ?thesis by blast
  qed
qed

text \<open>C25. No translation breaks the page permissions. From a full SFENCE.VMA on, over any sequence of translations in
  one address space, whenever Sv39 translation succeeds, from the TLB or from memory, the leaf that the page table in
  memory then has for the address grants the access - a user page for user mode; for supervisor mode a supervisor
  page, or a user page with SUM and never for fetches; X for fetches, R (or X with MXR) for loads, W for stores, R
  and W for atomics - and the address is in the page of that leaf.\<close>

theorem translate_respects_permissions:
  assumes "bus_wf b0" and "translate_all (mc_satp ctx) accesses (sfence_vma m0 None None) b0 = (m, b)"
    and "mc_privilege ctx \<noteq> Machine" and "satp_mode (mc_satp ctx) \<noteq> 0"
    and "tr_physical_address (snd (snd (translate va w kind ctx m b))) = Some pa"
  shows "\<exists>l a pte f. sv39_leaf b va 2 (satp_root_ppn (mc_satp ctx)) = Some (l, a, pte) \<and> f = pte_flags pte
    \<and> pa = compose_physical_address va (pte_ppn pte) l
    \<and> (mc_privilege ctx = User \<longrightarrow> bit f 4)
    \<and> (mc_privilege ctx = Supervisor \<and> bit f 4 \<longrightarrow> bit (mc_mstatus ctx) 18 \<and> kind \<noteq> MmuInstructionFetch)
    \<and> (kind = MmuInstructionFetch \<longrightarrow> bit f 3)
    \<and> (kind = MmuLoad \<longrightarrow> bit f 1 \<or> (bit (mc_mstatus ctx) 19 \<and> bit f 3))
    \<and> (kind = MmuStore \<longrightarrow> bit f 2) \<and> (kind = MmuAtomic \<longrightarrow> bit f 1 \<and> bit f 2)"
proof -
  have "tlb_coherent (mc_satp ctx) m b"
    using translate_all_coherent [OF assms(1) tlb_coherent_flush assms(2)] by blast
  from translate_granted [OF this assms(3-5)] obtain l a pte
    where "sv39_leaf b va 2 (satp_root_ppn (mc_satp ctx)) = Some (l, a, pte)"
      "pa = compose_physical_address va (pte_ppn pte) l" "permission_allows (pte_flags pte) kind ctx" by blast
  then show ?thesis unfolding permission_bits by (intro exI conjI) (auto split: mmu_access_kind.splits)
qed

text \<open>A store fills the TLB and a load of the same page hits it: the leaf in memory is readable.\<close>

theorem translate_respects_permissions_witness:
  "let b = snd (translate_all (mc_satp example_ctx) [(0x8, DoubleWord, MmuStore, Supervisor, 0)]
        (sfence_vma mmu_create None None) example_paged_bus) in
   \<exists>l a pte. sv39_leaf b 0 2 (satp_root_ppn (mc_satp example_ctx)) = Some (l, a, pte)
     \<and> bit (pte_flags pte) 1 \<and> \<not> bit (pte_flags pte) 4 \<and> 0x80000000 = compose_physical_address 0 (pte_ppn pte) l"
proof -
  let ?t = "translate_all (mc_satp example_ctx) [(0x8, DoubleWord, MmuStore, Supervisor, 0)]
        (sfence_vma mmu_create None None) example_paged_bus"
  have "mc_privilege example_ctx \<noteq> Machine" "satp_mode (mc_satp example_ctx) \<noteq> 0"
    "mc_privilege example_ctx = Supervisor" "\<not> bit (mc_mstatus example_ctx) 18" "\<not> bit (mc_mstatus example_ctx) 19"
    by code_simp+
  moreover have "(case ?t of (m, b) \<Rightarrow> tr_physical_address (snd (snd (translate 0 Byte MmuLoad example_ctx m b)))) = Some 0x80000000"
    by code_simp
  then have "tr_physical_address (snd (snd (translate 0 Byte MmuLoad example_ctx (fst ?t) (snd ?t)))) = Some 0x80000000"
    by (simp only: split_beta)
  ultimately show ?thesis
    using translate_respects_permissions [OF example_paged_bus_wf, of example_ctx _ _ "fst ?t" "snd ?t" 0 Byte MmuLoad]
    unfolding Let_def by (metis prod.collapse)
qed

text \<open>SFENCE.VMA is effective: after a fence that covers a virtual address and an address space (each
  possibly by being left unspecified), no TLB entry serves that address there any more, so the next
  translation consults the page table in memory.\<close>

theorem sfence_vma_effective:
  assumes "va = None \<or> va = Some v" and "asid = None \<or> asid = Some (satp_asid (mc_satp ctx))"
  shows "lookup_tlb (sfence_vma m va asid) v kind ctx = (sfence_vma m va asid, None)"
proof -
  have no: "\<not> tlb_matches (if sfence_keeps va asid e then e else e\<lparr>te_valid := False\<rparr>) v (satp_asid (mc_satp ctx))" for e
    using assms by (auto simp: tlb_matches_def sfence_keeps_def split: option.splits if_splits)
  have "lookup_tlb_loop (map (\<lambda>e. if sfence_keeps va asid e then e else e\<lparr>te_valid := False\<rparr>) es) k v kind ctx = None" for es k
    using no by (induction es arbitrary: k) simp_all
  then show ?thesis by (simp add: lookup_tlb_def sfence_vma_def)
qed

theorem sfence_vma_effective_witness:
  "lookup_tlb (sfence_vma (fst (translate 0x8 DoubleWord MmuStore example_ctx mmu_create example_paged_bus))
      (Some 0x10) None) 0x10 MmuLoad example_ctx
   = (sfence_vma (fst (translate 0x8 DoubleWord MmuStore example_ctx mmu_create example_paged_bus))
      (Some 0x10) None, None)"
  using sfence_vma_effective [of "Some 0x10" "0x10" None example_ctx] by simp

text \<open>Translating a plain store as an atomic access (as the CPU does) gives the same permission as a
  store on every valid page-table entry, since a valid writable entry is readable.\<close>

theorem atomic_permission_is_store:
  assumes "pte_valid f"
  shows "permission_allows f MmuAtomic ctx = permission_allows f MmuStore ctx"
  using assms by (auto simp: permission_allows_def pte_valid_bits flag_bits Let_def)

theorem atomic_permission_is_store_witness:
  "permission_allows 0x7 MmuAtomic example_ctx = permission_allows 0x7 MmuStore example_ctx"
proof -
  have "pte_valid 0x7" by code_simp
  then show ?thesis by (rule atomic_permission_is_store)
qed

end
