(* ===== verification/Vector_Configuration.thy ===== *)
theory Vector_Configuration
  imports Decoder "HOL-Library.Monad_Syntax"
begin

unbundle bit_operations_syntax

text \<open>
  The RVV configuration: \<open>vector/vector_configuration.hpp\<close> and \<open>vector/vector_configuration.cpp\<close>.
\<close>

definition kVectorLengthBits :: u64 where "kVectorLengthBits = 256"
definition kVtypeVill :: u64 where "kVtypeVill = push_bit 63 1"
definition kVtypeImplementedMask :: u64 where "kVtypeImplementedMask = 0xFF"
definition kMaximumElementLengthBits :: u64 where "kMaximumElementLengthBits = 64"

record vector_configuration =
  vc_valid :: bool
  vc_vtype :: u64
  vc_sew_bits :: u64
  vc_lmul_numerator :: u64
  vc_lmul_denominator :: u64
  vc_vlmax :: u64

definition illegal_configuration :: vector_configuration where
  "illegal_configuration = \<lparr>vc_valid = False, vc_vtype = kVtypeVill, vc_sew_bits = 0, vc_lmul_numerator = 0,
     vc_lmul_denominator = 1, vc_vlmax = 0\<rparr>"

text \<open>The out-parameters of \<open>decode_lmul\<close> are the returned pair; \<open>None\<close> is the false return.\<close>

definition decode_lmul :: "u8 \<Rightarrow> (u64 \<times> u64) option" where
  "decode_lmul encoding =
     (if encoding = 0 then Some (1, 1)
      else if encoding = 1 then Some (2, 1)
      else if encoding = 2 then Some (4, 1)
      else if encoding = 3 then Some (8, 1)
      else if encoding = 5 then Some (1, 8)
      else if encoding = 6 then Some (1, 4)
      else if encoding = 7 then Some (1, 2)
      else None)"

definition decode_vector_configuration :: "u64 \<Rightarrow> vector_configuration" where
  "decode_vector_configuration vtype =
     (if vtype AND kVtypeVill \<noteq> 0 \<or> vtype AND NOT kVtypeImplementedMask \<noteq> 0 then illegal_configuration
      else let vsew = (ucast (drop_bit 3 vtype AND 0x7) :: u8) in
        if 3 < vsew then illegal_configuration
        else let sew_bits = push_bit (unat vsew) 8 in
          case decode_lmul (ucast (vtype AND 0x7)) of
            None \<Rightarrow> illegal_configuration
          | Some (numerator, denominator) \<Rightarrow>
              if (kMaximumElementLengthBits * numerator) div denominator < sew_bits then illegal_configuration
              else let elements_per_register = kVectorLengthBits div sew_bits;
                       vlmax = (elements_per_register * numerator) div denominator
                in if vlmax = 0 then illegal_configuration
                   else \<lparr>vc_valid = True, vc_vtype = vtype, vc_sew_bits = sew_bits, vc_lmul_numerator = numerator,
                          vc_lmul_denominator = denominator, vc_vlmax = vlmax\<rparr>)"

definition select_vector_length :: "u64 \<Rightarrow> u64 \<Rightarrow> u64" where
  "select_vector_length application_vector_length vlmax =
     (if vlmax = 0 then 0 else if application_vector_length < vlmax then application_vector_length else vlmax)"

definition can_preserve_vector_length :: "u64 \<Rightarrow> u64 \<Rightarrow> bool" where
  "can_preserve_vector_length previous_vtype requested_vtype =
     (let previous = decode_vector_configuration previous_vtype;
          requested = decode_vector_configuration requested_vtype
      in vc_valid previous \<and> vc_valid requested \<and> vc_vlmax previous = vc_vlmax requested)"

text \<open>
  The reduction loop of \<open>derive_memory_configuration\<close>; \<open>None\<close> is non-termination, which only the
  fraction 0/0 would cause.
\<close>

partial_function (option) reduce_fraction :: "u64 \<Rightarrow> u64 \<Rightarrow> (u64 \<times> u64) option" where
  "reduce_fraction numerator denominator =
     (if numerator AND 1 = 0 \<and> denominator AND 1 = 0
      then reduce_fraction (drop_bit 1 numerator) (drop_bit 1 denominator)
      else Some (numerator, denominator))"

declare reduce_fraction.simps [code]

definition lmul_supported :: "u64 \<Rightarrow> u64 \<Rightarrow> bool" where
  "lmul_supported numerator denominator =
     (\<exists>encoding \<in> set [0, 1, 2, 3, 4, 5, 6, 7]. decode_lmul encoding = Some (numerator, denominator))"

text \<open>The outer option is termination, the inner one the C++ optional.\<close>

definition derive_memory_configuration ::
    "vector_configuration \<Rightarrow> u64 \<Rightarrow> vector_configuration option option" where
  "derive_memory_configuration current element_width_bits =
     (if \<not> vc_valid current \<or> element_width_bits < 8 \<or> 64 < element_width_bits
         \<or> element_width_bits AND (element_width_bits - 1) \<noteq> 0 then Some None
      else do {
        (numerator, denominator) \<leftarrow> reduce_fraction (vc_lmul_numerator current * element_width_bits)
                                     (vc_lmul_denominator current * vc_sew_bits current);
        Some (if \<not> lmul_supported numerator denominator then None
              else Some \<lparr>vc_valid = True, vc_vtype = vc_vtype current, vc_sew_bits = element_width_bits,
                     vc_lmul_numerator = numerator, vc_lmul_denominator = denominator, vc_vlmax = vc_vlmax current\<rparr>)
      })"

subsection \<open>The legal configurations\<close>

text \<open>Every legal configuration, as (SEW, LMUL numerator, LMUL denominator, VLMAX).\<close>

definition legal_shapes :: "(u64 \<times> u64 \<times> u64 \<times> u64) list" where
  "legal_shapes =
     [(8, 1, 1, 32), (8, 2, 1, 64), (8, 4, 1, 128), (8, 8, 1, 256), (8, 1, 8, 4), (8, 1, 4, 8), (8, 1, 2, 16),
      (16, 1, 1, 16), (16, 2, 1, 32), (16, 4, 1, 64), (16, 8, 1, 128), (16, 1, 4, 4), (16, 1, 2, 8),
      (32, 1, 1, 8), (32, 2, 1, 16), (32, 4, 1, 32), (32, 8, 1, 64), (32, 1, 2, 4),
      (64, 1, 1, 4), (64, 2, 1, 8), (64, 4, 1, 16), (64, 8, 1, 32)]"

definition vc_shape :: "vector_configuration \<Rightarrow> u64 \<times> u64 \<times> u64 \<times> u64" where
  "vc_shape c = (vc_sew_bits c, vc_lmul_numerator c, vc_lmul_denominator c, vc_vlmax c)"

lemma vsew_cases: "\<not> 3 < (v :: u8) \<Longrightarrow> v = 0 \<or> v = 1 \<or> v = 2 \<or> v = 3"
proof -
  assume "\<not> 3 < v"
  then have "unat v \<le> 3" by (simp add: word_less_nat_alt not_less)
  then have "unat v = 0 \<or> unat v = 1 \<or> unat v = 2 \<or> unat v = 3" by linarith
  then show ?thesis by (auto simp: word_unat_eq_iff)
qed

lemma decode_lmul_cases:
  "decode_lmul e = Some (n, d) \<Longrightarrow> (n, d) = (1, 1) \<or> (n, d) = (2, 1) \<or> (n, d) = (4, 1) \<or> (n, d) = (8, 1)
     \<or> (n, d) = (1, 8) \<or> (n, d) = (1, 4) \<or> (n, d) = (1, 2)"
  by (simp add: decode_lmul_def split: if_splits)

lemma shape_table:
  assumes "\<not> 3 < (vsew :: u8)" "decode_lmul e = Some (n, d)" "\<not> (64 * n) div d < push_bit (unat vsew) 8"
  shows "(push_bit (unat vsew) 8, n, d, (256 div push_bit (unat vsew) 8 * n) div d) \<in> set legal_shapes"
  using vsew_cases [OF assms(1)] decode_lmul_cases [OF assms(2)] assms(3)
  by (elim disjE; simp add: legal_shapes_def)

lemma decode_shape:
  assumes "vc_valid (decode_vector_configuration t)"
  shows "vc_shape (decode_vector_configuration t) \<in> set legal_shapes"
    and "vc_vtype (decode_vector_configuration t) = t"
    and "decode_vector_configuration t \<noteq> illegal_configuration"
  using assms shape_table [of "ucast (drop_bit 3 t AND 0x7)" "ucast (t AND 0x7)"]
  unfolding decode_vector_configuration_def
  by (auto simp: Let_def illegal_configuration_def vc_shape_def kMaximumElementLengthBits_def kVectorLengthBits_def
      split: if_splits option.splits)


text \<open>The memory configurations derivable from a legal one: the same element count with another width.\<close>

definition derived_ok :: "u64 \<times> u64 \<times> u64 \<times> u64 \<Rightarrow> u64 \<Rightarrow> bool" where
  "derived_ok shape w = (case shape of (s, n, d, v) \<Rightarrow>
     case reduce_fraction (n * w) (d * s) of
       None \<Rightarrow> False
     | Some (n', d') \<Rightarrow>
         (lmul_supported n' d' \<longleftrightarrow> unat d * unat s \<le> 8 * unat n * unat w \<and> unat n * unat w \<le> 8 * unat d * unat s)
         \<and> (\<not> lmul_supported n' d' \<or> unat v * unat w * unat d' = 256 * unat n'))"

lemma derived_table: "list_all (\<lambda>shape. list_all (derived_ok shape) [8, 16, 32, 64]) legal_shapes"
  by code_simp

lemma legal_shapes_table:
  "list_all (\<lambda>(s, n, d, v). s \<in> set [8, 16, 32, 64] \<and> unat v * unat s * unat d = 256 * unat n
     \<and> 4 \<le> unat v \<and> unat v \<le> 256 \<and> (n, d) \<in> set [(1, 1), (2, 1), (4, 1), (8, 1), (1, 8), (1, 4), (1, 2)]) legal_shapes"
  by code_simp

text \<open>What the register groups rely on: a supported width, and a capacity that matches VLMAX exactly.\<close>

definition configuration_ok :: "vector_configuration \<Rightarrow> bool" where
  "configuration_ok c \<longleftrightarrow> vc_sew_bits c \<in> {8, 16, 32, 64}
     \<and> unat (vc_vlmax c) * unat (vc_sew_bits c) * unat (vc_lmul_denominator c) = 256 * unat (vc_lmul_numerator c)
     \<and> 4 \<le> unat (vc_vlmax c) \<and> unat (vc_vlmax c) \<le> 256
     \<and> (vc_lmul_numerator c, vc_lmul_denominator c) \<in> {(1, 1), (2, 1), (4, 1), (8, 1), (1, 8), (1, 4), (1, 2)}"

lemma decode_configuration_ok:
  assumes "vc_valid (decode_vector_configuration t)"
  shows "configuration_ok (decode_vector_configuration t)"
  using bspec [OF legal_shapes_table [unfolded list_all_iff] decode_shape(1) [OF assms]]
  by (simp only: vc_shape_def prod.case list.set configuration_ok_def simp_thms)

lemma lmul_supported_cases:
  "lmul_supported n d \<Longrightarrow> (n, d) \<in> {(1, 1), (2, 1), (4, 1), (8, 1), (1, 8), (1, 4), (1, 2)}"
proof -
  assume "lmul_supported n d"
  then obtain e where "decode_lmul e = Some (n, d)" unfolding lmul_supported_def by blast
  from decode_lmul_cases [OF this] show ?thesis by (simp only: insert_iff empty_iff) blast
qed

lemma power_of_two_widths:
  assumes "\<not> w < 8" "\<not> 64 < w" "w AND (w - 1) = (0 :: u64)"
  shows "w \<in> {8, 16, 32, 64}"
proof -
  have all: "list_all (\<lambda>k. k < 8 \<or> (of_nat k :: u64) AND (of_nat k - 1) \<noteq> 0 \<or> k \<in> set [8, 16, 32, 64]) [0..<65]"
    by code_simp
  have b: "8 \<le> unat w" "unat w < 65" using assms(1,2) by (simp_all add: word_less_nat_alt)
  then have "unat w \<in> set [8, 16, 32, 64]"
    using all assms(3) by (auto simp: list_all_iff Ball_def)
  then have "unat w = unat (8 :: u64) \<or> unat w = unat (16 :: u64) \<or> unat w = unat (32 :: u64) \<or> unat w = unat (64 :: u64)"
    by simp
  then show ?thesis by (simp add: word_unat_eq_iff)
qed

lemma derive_memory_configuration_ok:
  fixes t :: u64
  defines "c \<equiv> decode_vector_configuration t"
  shows "\<exists>r. derive_memory_configuration c w = Some r
     \<and> (r \<noteq> None \<longleftrightarrow> vc_valid c \<and> w \<in> {8, 16, 32, 64}
          \<and> unat (vc_lmul_denominator c) * unat (vc_sew_bits c) \<le> 8 * unat (vc_lmul_numerator c) * unat w
          \<and> unat (vc_lmul_numerator c) * unat w \<le> 8 * unat (vc_lmul_denominator c) * unat (vc_sew_bits c))
     \<and> (\<forall>c'. r = Some c' \<longrightarrow> configuration_ok c' \<and> vc_valid c' \<and> vc_sew_bits c' = w \<and> vc_vlmax c' = vc_vlmax c)"
proof (cases "\<not> vc_valid c \<or> w < 8 \<or> 64 < w \<or> w AND (w - 1) \<noteq> 0")
  case True
  then have "\<not> vc_valid c \<or> w \<notin> {8, 16, 32, 64}" by auto
  with True show ?thesis by (auto simp: derive_memory_configuration_def)
next
  case False
  have v: "vc_valid c" and w: "w \<in> set [8, 16, 32, 64]" using False power_of_two_widths [of w] by auto
  have "derived_ok (vc_shape c) w"
    using derived_table decode_shape(1) [OF v [unfolded c_def]] w unfolding list_all_iff c_def by blast
  then obtain n' d' where r: "reduce_fraction (vc_lmul_numerator c * w) (vc_lmul_denominator c * vc_sew_bits c) = Some (n', d')"
    and s: "lmul_supported n' d' \<longleftrightarrow> unat (vc_lmul_denominator c) * unat (vc_sew_bits c) \<le> 8 * unat (vc_lmul_numerator c) * unat w
          \<and> unat (vc_lmul_numerator c) * unat w \<le> 8 * unat (vc_lmul_denominator c) * unat (vc_sew_bits c)"
    and cap: "lmul_supported n' d' \<Longrightarrow> unat (vc_vlmax c) * unat w * unat d' = 256 * unat n'"
    by (auto simp: derived_ok_def vc_shape_def split: option.splits)
  have ok: "configuration_ok c" using decode_configuration_ok v c_def by blast
  have d: "derive_memory_configuration c w = Some (if lmul_supported n' d' then Some \<lparr>vc_valid = True, vc_vtype = vc_vtype c,
      vc_sew_bits = w, vc_lmul_numerator = n', vc_lmul_denominator = d', vc_vlmax = vc_vlmax c\<rparr> else None)"
    using False r by (simp add: derive_memory_configuration_def)
  show ?thesis
  proof (cases "lmul_supported n' d'")
    case True
    then show ?thesis
      using d s cap lmul_supported_cases [OF True] w ok v unfolding if_P [OF True]
      by (auto simp: configuration_ok_def)
  next
    case False
    then show ?thesis using d s by auto
  qed
qed

subsection \<open>The configuration against the fields of vtype\<close>

text \<open>The fields of vtype as RVV 1.0 reads them: SEW is 8 times 2 to the vsew, LMUL is 2 to the signed vlmul.\<close>

definition vtype_vsew :: "u64 \<Rightarrow> int" where
  "vtype_vsew t = uint t div 8 mod 8"

definition vtype_lmul_exponent :: "u64 \<Rightarrow> int" where
  "vtype_lmul_exponent t = (if uint t mod 8 < 4 then uint t mod 8 else uint t mod 8 - 8)"

definition vtype_legal :: "u64 \<Rightarrow> bool" where
  "vtype_legal t \<longleftrightarrow> uint t < 256 \<and> vtype_vsew t \<le> 3 \<and> uint t mod 8 \<noteq> 4 \<and> vtype_vsew t \<le> 3 + vtype_lmul_exponent t"

lemma vtype_low: "uint (t :: u64) < 256 \<longleftrightarrow> take_bit 8 t = t"
proof -
  have "take_bit 8 t = t \<longleftrightarrow> uint t < 2 ^ 8" by (metis take_bit_int_eq_self_iff uint_ge_0 unsigned_take_bit_eq word_uint_eq_iff)
  then show ?thesis by simp
qed

lemma vtype_masks: "t AND kVtypeVill = 0 \<and> t AND NOT kVtypeImplementedMask = 0 \<longleftrightarrow> uint t < 256"
proof
  have m: "kVtypeImplementedMask = mask 8" by (simp add: kVtypeImplementedMask_def mask_eq_exp_minus_1)
  show "uint t < 256" if "t AND kVtypeVill = 0 \<and> t AND NOT kVtypeImplementedMask = 0"
    unfolding vtype_low
  proof (rule bit_word_eqI)
    fix n assume "n < LENGTH(64)"
    moreover have "\<not> bit (t AND NOT (mask 8)) n" using that m by simp
    ultimately show "bit (take_bit 8 t) n = bit t n" by (auto simp: bit_simps)
  qed
  assume "uint t < 256"
  then have "bit t n \<Longrightarrow> n < 8" for n using bit_take_bit_iff [of 8 t n] by (auto simp: vtype_low)
  then have low: "n < 8" if "bit t n" for n using that .
  have "t AND push_bit 63 1 = 0"
    by (rule bit_word_eqI) (simp only: bit_and_iff bit_push_bit_iff bit_1_iff, use low in fastforce)
  moreover have "t AND NOT (mask 8) = 0"
    by (rule bit_word_eqI) (use low in \<open>auto simp: bit_and_iff bit_not_iff bit_mask_iff\<close>)
  ultimately show "t AND kVtypeVill = 0 \<and> t AND NOT kVtypeImplementedMask = 0"
    by (simp only: m kVtypeVill_def simp_thms)
qed

lemma vtype_fields:
  "uint (ucast (drop_bit 3 t AND 0x7) :: u8) = vtype_vsew t" "uint (ucast (t AND 0x7) :: u8) = uint t mod 8"
proof -
  have "x AND 7 = take_bit 3 x" for x :: u64 by (simp add: take_bit_eq_mask mask_eq_exp_minus_1)
  then have "x AND 7 = x mod 8" for x :: u64 by (simp add: take_bit_eq_mod)
  moreover have "uint t div 8 mod 8 mod 256 = uint t div 8 mod 8" "uint t mod 8 mod 256 = uint t mod 8" by simp_all
  ultimately show "uint (ucast (drop_bit 3 t AND 0x7) :: u8) = vtype_vsew t" "uint (ucast (t AND 0x7) :: u8) = uint t mod 8"
    by (simp_all add: vtype_vsew_def unsigned_ucast_eq take_bit_eq_mod drop_bit_eq_div uint_div uint_mod)
qed

lemma u8_below_8: "uint (x :: u8) < 8 \<Longrightarrow> x = 0 \<or> x = 1 \<or> x = 2 \<or> x = 3 \<or> x = 4 \<or> x = 5 \<or> x = 6 \<or> x = 7"
proof -
  assume "uint x < 8"
  moreover have "0 \<le> uint x" by simp
  ultimately have "uint x = 0 \<or> uint x = 1 \<or> uint x = 2 \<or> uint x = 3 \<or> uint x = 4 \<or> uint x = 5 \<or> uint x = 6 \<or> uint x = 7"
    by presburger
  then show ?thesis by (simp add: word_uint_eq_iff)
qed

lemma decode_exact:
  fixes t :: u64
  defines "c \<equiv> decode_vector_configuration t"
  assumes "uint t < 256"
  shows "if vtype_vsew t \<le> 3 \<and> uint t mod 8 \<noteq> 4 \<and> vtype_vsew t \<le> 3 + vtype_lmul_exponent t
     then vc_valid c \<and> uint (vc_sew_bits c) = 8 * 2 ^ nat (vtype_vsew t)
       \<and> uint (vc_lmul_numerator c) = 2 ^ nat (vtype_lmul_exponent t)
       \<and> uint (vc_lmul_denominator c) = 2 ^ nat (- vtype_lmul_exponent t)
     else c = illegal_configuration"
proof -
  define v where "v = (ucast (drop_bit 3 t AND 0x7) :: u8)"
  define e where "e = (ucast (t AND 0x7) :: u8)"
  have f: "uint v = vtype_vsew t" "uint e = uint t mod 8" unfolding v_def e_def by (rule vtype_fields)+
  have r: "uint v < 8" "uint e < 8" unfolding f by (simp_all add: vtype_vsew_def)
  have c: "c = (if 3 < v then illegal_configuration
        else let sew_bits = push_bit (unat v) 8 in
          case decode_lmul e of
            None \<Rightarrow> illegal_configuration
          | Some (numerator, denominator) \<Rightarrow>
              if (kMaximumElementLengthBits * numerator) div denominator < sew_bits then illegal_configuration
              else let elements_per_register = kVectorLengthBits div sew_bits;
                       vlmax = (elements_per_register * numerator) div denominator
                in if vlmax = 0 then illegal_configuration
                   else \<lparr>vc_valid = True, vc_vtype = t, vc_sew_bits = sew_bits, vc_lmul_numerator = numerator,
                          vc_lmul_denominator = denominator, vc_vlmax = vlmax\<rparr>)"
    using vtype_masks [of t] assms(2) unfolding c_def decode_vector_configuration_def v_def e_def Let_def by simp
  show ?thesis
    using u8_below_8 [OF r(1)] u8_below_8 [OF r(2)]
    unfolding c vtype_lmul_exponent_def f(1) [symmetric] f(2) [symmetric]
    by (elim disjE; simp add: decode_lmul_def kMaximumElementLengthBits_def kVectorLengthBits_def)
qed

lemma decode_invalid: "\<not> vc_valid (decode_vector_configuration t) \<Longrightarrow> decode_vector_configuration t = illegal_configuration"
  by (auto simp: decode_vector_configuration_def illegal_configuration_def Let_def split: option.splits)

lemma decode_valid_iff: "vc_valid (decode_vector_configuration t) \<longleftrightarrow> vtype_legal t"
proof (cases "uint t < 256")
  case True
  then show ?thesis using decode_exact [OF True] by (auto simp: vtype_legal_def illegal_configuration_def split: if_splits)
next
  case False
  then have "decode_vector_configuration t = illegal_configuration"
    using vtype_masks [of t] unfolding decode_vector_configuration_def by (metis (no_types, lifting))
  with False show ?thesis by (simp add: vtype_legal_def illegal_configuration_def)
qed

lemma select_vector_length_min: "uint (select_vector_length avl vlmax) = min (uint avl) (uint vlmax)"
  by (auto simp: select_vector_length_def word_less_def min_def)

lemma configuration_exact:
  fixes t :: u64
  defines "c \<equiv> decode_vector_configuration t"
  shows "(vc_valid c \<longleftrightarrow> uint t < 256 \<and> vtype_vsew t \<le> 3 \<and> uint t mod 8 \<noteq> 4 \<and> vtype_vsew t \<le> 3 + vtype_lmul_exponent t)
   \<and> (if vc_valid c
      then vc_vtype c = t \<and> uint (vc_sew_bits c) = 8 * 2 ^ nat (vtype_vsew t)
        \<and> uint (vc_lmul_numerator c) = 2 ^ nat (vtype_lmul_exponent t)
        \<and> uint (vc_lmul_denominator c) = 2 ^ nat (- vtype_lmul_exponent t)
        \<and> unat (vc_vlmax c) * unat (vc_sew_bits c) * unat (vc_lmul_denominator c) = 256 * unat (vc_lmul_numerator c)
      else c = illegal_configuration)
   \<and> uint (select_vector_length avl (vc_vlmax c)) = min (uint avl) (uint (vc_vlmax c))
   \<and> (\<exists>r. derive_memory_configuration c w = Some r
        \<and> (r \<noteq> None \<longleftrightarrow> vc_valid c \<and> w \<in> {8, 16, 32, 64}
          \<and> unat (vc_lmul_denominator c) * unat (vc_sew_bits c) \<le> 8 * unat (vc_lmul_numerator c) * unat w
          \<and> unat (vc_lmul_numerator c) * unat w \<le> 8 * unat (vc_lmul_denominator c) * unat (vc_sew_bits c))
        \<and> (\<forall>c'. r = Some c' \<longrightarrow> configuration_ok c' \<and> vc_valid c' \<and> vc_sew_bits c' = w \<and> vc_vlmax c' = vc_vlmax c))"
proof (intro conjI)
  show "vc_valid c \<longleftrightarrow> uint t < 256 \<and> vtype_vsew t \<le> 3 \<and> uint t mod 8 \<noteq> 4 \<and> vtype_vsew t \<le> 3 + vtype_lmul_exponent t"
    unfolding c_def decode_valid_iff vtype_legal_def ..
  show "if vc_valid c
      then vc_vtype c = t \<and> uint (vc_sew_bits c) = 8 * 2 ^ nat (vtype_vsew t)
        \<and> uint (vc_lmul_numerator c) = 2 ^ nat (vtype_lmul_exponent t)
        \<and> uint (vc_lmul_denominator c) = 2 ^ nat (- vtype_lmul_exponent t)
        \<and> unat (vc_vlmax c) * unat (vc_sew_bits c) * unat (vc_lmul_denominator c) = 256 * unat (vc_lmul_numerator c)
      else c = illegal_configuration"
  proof (cases "vc_valid c")
    case True
    then have l: "vtype_legal t" "configuration_ok c" unfolding c_def using decode_valid_iff decode_configuration_ok by blast+
    with decode_exact [of t] show ?thesis
      using True decode_shape(2) [of t] by (simp add: vtype_legal_def configuration_ok_def c_def)
  next
    case False
    then show ?thesis using decode_invalid [of t] by (simp add: c_def)
  qed
qed (use derive_memory_configuration_ok [of t w] select_vector_length_min in \<open>simp_all add: c_def\<close>)

text \<open>C31. The vector configuration is exact: a vtype is accepted if and only if its reserved bits are clear, SEW is at
  most 64, LMUL is not the reserved encoding and SEW fits in LMUL times 64 bits; then SEW and LMUL are the encoded
  powers of two and VLMAX fills the register group exactly, and every other vtype is reported as vill with VLMAX 0.
  The vector length chosen for a request is the request or VLMAX, whichever is smaller. The configuration derived for
  a memory access of another element width is found (the reduction loop ends) exactly when the effective LMUL is
  between 1/8 and 8, and it keeps VLMAX and the capacity equation.\<close>

theorem vector_configuration_exact:
  "let c = decode_vector_configuration t in
   (vc_valid c \<longleftrightarrow> uint t < 256 \<and> vtype_vsew t \<le> 3 \<and> uint t mod 8 \<noteq> 4 \<and> vtype_vsew t \<le> 3 + vtype_lmul_exponent t)
   \<and> (if vc_valid c
      then vc_vtype c = t \<and> uint (vc_sew_bits c) = 8 * 2 ^ nat (vtype_vsew t)
        \<and> uint (vc_lmul_numerator c) = 2 ^ nat (vtype_lmul_exponent t)
        \<and> uint (vc_lmul_denominator c) = 2 ^ nat (- vtype_lmul_exponent t)
        \<and> unat (vc_vlmax c) * unat (vc_sew_bits c) * unat (vc_lmul_denominator c) = 256 * unat (vc_lmul_numerator c)
      else c = illegal_configuration)
   \<and> uint (select_vector_length avl (vc_vlmax c)) = min (uint avl) (uint (vc_vlmax c))
   \<and> (\<exists>r. derive_memory_configuration c w = Some r
        \<and> (r \<noteq> None \<longleftrightarrow> vc_valid c \<and> w \<in> {8, 16, 32, 64}
          \<and> unat (vc_lmul_denominator c) * unat (vc_sew_bits c) \<le> 8 * unat (vc_lmul_numerator c) * unat w
          \<and> unat (vc_lmul_numerator c) * unat w \<le> 8 * unat (vc_lmul_denominator c) * unat (vc_sew_bits c))
        \<and> (\<forall>c'. r = Some c' \<longrightarrow> configuration_ok c' \<and> vc_valid c' \<and> vc_sew_bits c' = w \<and> vc_vlmax c' = vc_vlmax c))"
  unfolding Let_def by (rule configuration_exact)

theorem vector_configuration_exact_witness:
  "vc_valid (decode_vector_configuration 0xD0) \<and> uint (vc_sew_bits (decode_vector_configuration 0xD0)) = 32
   \<and> uint (vc_lmul_numerator (decode_vector_configuration 0xD0)) = 1
   \<and> decode_vector_configuration 0x1C = illegal_configuration
   \<and> uint (select_vector_length 5 (vc_vlmax (decode_vector_configuration 0xD0))) = 5
   \<and> (\<exists>c'. derive_memory_configuration (decode_vector_configuration 0xD0) 64 = Some (Some c') \<and> configuration_ok c')"
proof -
  let ?c = "decode_vector_configuration 0xD0"
  have v: "vc_valid ?c" "vc_vlmax ?c = 8" "vc_sew_bits ?c = 32" "vc_lmul_numerator ?c = 1" "vc_lmul_denominator ?c = 1"
    "\<not> vc_valid (decode_vector_configuration 0x1C)"
    by code_simp+
  have "unat (64 :: u64) = 64" "unat (32 :: u64) = 32" by simp_all
  with v vector_configuration_exact [of "0xD0" 5 64, unfolded Let_def] vector_configuration_exact [of "0x1C" 5 64, unfolded Let_def] show ?thesis
    by (auto simp: vtype_vsew_def vtype_lmul_exponent_def)
qed

end
