(* ===== verification/Vector_State.thy ===== *)
theory Vector_State
  imports Vector_Configuration
begin

unbundle bit_operations_syntax

text \<open>
  The vector register file and the element layout of register groups: \<open>vector/vector_state.cpp\<close>
  and \<open>vector/vector_register_group.cpp\<close>. In an option result of an accessor that may throw,
  the outer \<open>None\<close> is the \<open>std::out_of_range\<close> exception; the C++ optionals are the inner
  options.
\<close>

subsection \<open>The register file\<close>

type_synonym vector_state = "u8 list list"

abbreviation (input) kVectorRegisterCount :: nat where "kVectorRegisterCount \<equiv> 32"
abbreviation (input) kRegisterBytes :: nat where "kRegisterBytes \<equiv> 32"

definition vs_reset :: vector_state where
  "vs_reset = replicate kVectorRegisterCount (replicate kRegisterBytes 0)"

definition vs_register_value :: "vector_state \<Rightarrow> nat \<Rightarrow> u8 list option" where
  "vs_register_value st index = (if kVectorRegisterCount \<le> index then None else Some (st ! index))"

definition vs_set_register_value :: "vector_state \<Rightarrow> nat \<Rightarrow> u8 list \<Rightarrow> vector_state option" where
  "vs_set_register_value st index v = (if kVectorRegisterCount \<le> index then None else Some (st[index := v]))"

definition vs_byte_value :: "vector_state \<Rightarrow> nat \<Rightarrow> nat \<Rightarrow> u8 option" where
  "vs_byte_value st register_index byte_index =
     (if kVectorRegisterCount \<le> register_index then None
      else if kRegisterBytes \<le> byte_index then None
      else Some (st ! register_index ! byte_index))"

definition vs_set_byte_value :: "vector_state \<Rightarrow> nat \<Rightarrow> nat \<Rightarrow> u8 \<Rightarrow> vector_state option" where
  "vs_set_byte_value st register_index byte_index v =
     (if kVectorRegisterCount \<le> register_index then None
      else if kRegisterBytes \<le> byte_index then None
      else Some (st[register_index := (st ! register_index)[byte_index := v]]))"

definition vs_wf :: "vector_state \<Rightarrow> bool" where
  "vs_wf st \<longleftrightarrow> length st = 32 \<and> (\<forall>r < 32. length (st ! r) = 32)"

subsection \<open>Register groups\<close>

record vector_element_location =
  el_register_index :: u8
  el_byte_offset :: u8
  el_width_bytes :: u8

record vector_register_group =
  vg_configuration :: vector_configuration
  vg_base_register :: u8

definition physical_register_count :: "vector_configuration \<Rightarrow> u64" where
  "physical_register_count c =
     (if vc_lmul_denominator c \<le> vc_lmul_numerator c then vc_lmul_numerator c div vc_lmul_denominator c else 1)"

definition vg_create :: "vector_configuration \<Rightarrow> u8 \<Rightarrow> vector_register_group option" where
  "vg_create c base_register =
     (if \<not> vc_valid c \<or> 32 \<le> base_register then None
      else let register_count = physical_register_count c in
        if ucast base_register mod register_count \<noteq> 0 \<or> 32 - ucast base_register < register_count then None
        else Some \<lparr>vg_configuration = c, vg_base_register = base_register\<rparr>)"

definition vg_locate :: "vector_register_group \<Rightarrow> u64 \<Rightarrow> vector_element_location option" where
  "vg_locate g element_index =
     (let c = vg_configuration g in
      if vc_vlmax c \<le> element_index then None
      else let width_bytes = vc_sew_bits c div 8;
               byte_index = element_index * width_bytes;
               register_offset = byte_index div 32;
               byte_offset = byte_index mod 32
        in if physical_register_count c \<le> register_offset \<or> 32 < byte_offset + width_bytes then None
           else Some \<lparr>el_register_index = ucast (ucast (vg_base_register g) + register_offset),
                       el_byte_offset = ucast byte_offset, el_width_bytes = ucast width_bytes\<rparr>)"

text \<open>The byte loops of \<open>read_element\<close> and \<open>write_element\<close>, counting up to the element width.\<close>

primrec read_bytes_loop :: "vector_state \<Rightarrow> nat \<Rightarrow> nat \<Rightarrow> nat \<Rightarrow> u64 option" where
  "read_bytes_loop st r offset 0 = Some 0"
| "read_bytes_loop st r offset (Suc byte) = do {
     v \<leftarrow> read_bytes_loop st r offset byte;
     b \<leftarrow> vs_byte_value st r (offset + byte);
     Some (v OR push_bit (8 * byte) (ucast b))
   }"

primrec write_bytes_loop :: "vector_state \<Rightarrow> nat \<Rightarrow> nat \<Rightarrow> u64 \<Rightarrow> nat \<Rightarrow> vector_state option" where
  "write_bytes_loop st r offset v 0 = Some st"
| "write_bytes_loop st r offset v (Suc byte) = do {
     st' \<leftarrow> write_bytes_loop st r offset v byte;
     vs_set_byte_value st' r (offset + byte) (ucast (drop_bit (8 * byte) v))
   }"

definition vg_read_element :: "vector_register_group \<Rightarrow> vector_state \<Rightarrow> u64 \<Rightarrow> u64 option option" where
  "vg_read_element g st element_index =
     (case vg_locate g element_index of
        None \<Rightarrow> Some None
      | Some l \<Rightarrow> do {
          v \<leftarrow> read_bytes_loop st (unat (el_register_index l)) (unat (el_byte_offset l)) (unat (el_width_bytes l));
          Some (Some v)
        })"

text \<open>A false return of \<open>write_element\<close> is the inner \<open>None\<close>, and the state is then unchanged.\<close>

definition vg_write_element ::
    "vector_register_group \<Rightarrow> vector_state \<Rightarrow> u64 \<Rightarrow> u64 \<Rightarrow> vector_state option option" where
  "vg_write_element g st element_index v =
     (case vg_locate g element_index of
        None \<Rightarrow> Some None
      | Some l \<Rightarrow> do {
          st' \<leftarrow> write_bytes_loop st (unat (el_register_index l)) (unat (el_byte_offset l)) v (unat (el_width_bytes l));
          Some (Some st')
        })"

definition vg_mask_bit :: "vector_state \<Rightarrow> u64 \<Rightarrow> bool option option" where
  "vg_mask_bit st element_index =
     (if 256 \<le> element_index then Some None
      else do {
        b \<leftarrow> vs_byte_value st 0 (unat (ucast (element_index div 8) :: u8));
        Some (Some (drop_bit (unat (ucast (element_index mod 8) :: u8)) b AND 1 \<noteq> 0))
      })"

subsection \<open>The byte loops\<close>

lemma read_bytes_loop_eq:
  "r < 32 \<Longrightarrow> offset + n \<le> 32 \<Longrightarrow> read_bytes_loop st r offset n = Some (le_read (st ! r) offset n)"
  by (induction n) (simp_all add: le_read_Suc vs_byte_value_def)

lemma write_bytes_loop_eq:
  assumes "vs_wf st" "r < 32"
  shows "offset + n \<le> 32 \<Longrightarrow> write_bytes_loop st r offset v n = Some (st[r := le_write (st ! r) offset n v])"
proof (induction n)
  case 0
  then show ?case by simp
next
  case (Suc n)
  have "(ucast (drop_bit (8 * n) v AND 0xFF) :: u8) = ucast (drop_bit (8 * n) v)"
    by (rule bit_word_eqI) (auto simp: bit_simps emu_bits)
  with Suc assms show ?case by (simp add: vs_set_byte_value_def le_write_Suc vs_wf_def)
qed

lemma vs_wf_reset: "vs_wf vs_reset"
  by (simp add: vs_wf_def vs_reset_def)

lemma vs_wf_update: "vs_wf st \<Longrightarrow> length x = 32 \<Longrightarrow> vs_wf (st[r := x])"
  by (simp add: vs_wf_def) (metis nth_list_update_eq nth_list_update_neq)

subsection \<open>Where an element lives\<close>

definition group_ok :: "vector_register_group \<Rightarrow> bool" where
  "group_ok g \<longleftrightarrow> configuration_ok (vg_configuration g)
     \<and> unat (vg_base_register g) + unat (physical_register_count (vg_configuration g)) \<le> 32"

definition group_width :: "vector_register_group \<Rightarrow> nat" where
  "group_width g = unat (vc_sew_bits (vg_configuration g)) div 8"

definition group_registers :: "vector_register_group \<Rightarrow> nat set" where
  "group_registers g = {unat (vg_base_register g) ..<
     unat (vg_base_register g) + unat (physical_register_count (vg_configuration g))}"

lemma vg_create_ok:
  assumes "configuration_ok c" "vg_create c base = Some g"
  shows "group_ok g" "vg_configuration g = c" "vg_base_register g = base"
proof -
  have g: "g = \<lparr>vg_configuration = c, vg_base_register = base\<rparr>" "base < 32"
    "physical_register_count c \<le> 32 - ucast base"
    using assms(2) by (auto simp: vg_create_def Let_def not_le not_less split: if_splits)
  have b: "unat base < 32" using g(2) by (simp add: word_less_nat_alt)
  then have u: "unat (ucast base :: u64) = unat base"
    by (simp add: unsigned_ucast_eq take_bit_nat_eq_self_iff)
  have "unat (32 - ucast base :: u64) = 32 - unat base"
    using b u by (subst unat_sub) (auto simp: word_le_nat_alt)
  with g(3) b have "unat base + unat (physical_register_count c) \<le> 32" by (simp add: word_le_nat_alt)
  with g assms(1) show "group_ok g" "vg_configuration g = c" "vg_base_register g = base"
    by (auto simp: group_ok_def)
qed

lemma widths: "configuration_ok c \<Longrightarrow> unat (vc_sew_bits c) \<in> {8, 16, 32, 64}"
  by (auto simp: configuration_ok_def)

lemma element_fits:
  fixes i w v n d :: nat
  assumes "i < v" "v * (8 * w) * d = 256 * n" "w = 1 \<or> w = 2 \<or> w = 4 \<or> w = 8" "0 < d" "0 < n"
  shows "i * w + w \<le> 32 * n" "i * w mod 32 + w \<le> 32" "d \<noteq> 1 \<Longrightarrow> n = 1 \<Longrightarrow> i * w + w \<le> 32"
proof -
  have "i * w + w \<le> v * w" using assms(1) by (metis Suc_leI add.commute mult_Suc mult_le_mono1)
  moreover have "v * w * d = 32 * n" using assms(2) by (simp add: ac_simps)
  moreover have "v * w \<le> v * w * d" using assms(4) by (cases d) simp_all
  ultimately show "i * w + w \<le> 32 * n" by linarith
  then show "d \<noteq> 1 \<Longrightarrow> n = 1 \<Longrightarrow> i * w + w \<le> 32" by simp
  show "i * w mod 32 + w \<le> 32" using assms(3) by (elim disjE) (simp; presburger)+
qed

lemma locate_in_group:
  assumes ok: "group_ok g" and i: "i < vc_vlmax (vg_configuration g)"
  shows "\<exists>l. vg_locate g i = Some l
    \<and> unat (el_register_index l) = unat (vg_base_register g) + unat i * group_width g div 32
    \<and> unat (el_byte_offset l) = unat i * group_width g mod 32 \<and> unat (el_width_bytes l) = group_width g
    \<and> unat i * group_width g div 32 < unat (physical_register_count (vg_configuration g))
    \<and> unat i * group_width g mod 32 + group_width g \<le> 32"
proof -
  let ?c = "vg_configuration g" and ?w = "group_width g"
  have c: "configuration_ok ?c" and base: "unat (vg_base_register g) + unat (physical_register_count ?c) \<le> 32"
    using ok by (auto simp: group_ok_def)
  have w: "?w = 1 \<or> ?w = 2 \<or> ?w = 4 \<or> ?w = 8" "unat (vc_sew_bits ?c) = 8 * ?w"
    using widths [OF c] by (auto simp: group_width_def)
  have iv: "unat i < unat (vc_vlmax ?c)" "unat (vc_vlmax ?c) \<le> 256"
    using i c by (auto simp: configuration_ok_def word_less_nat_alt)
  have cap: "unat (vc_vlmax ?c) * (8 * ?w) * unat (vc_lmul_denominator ?c) = 256 * unat (vc_lmul_numerator ?c)"
    using c w(2) by (simp add: configuration_ok_def)
  have nd: "(vc_lmul_numerator ?c, vc_lmul_denominator ?c) \<in> {(1, 1), (2, 1), (4, 1), (8, 1), (1, 8), (1, 4), (1, 2)}"
    using c by (simp add: configuration_ok_def)
  then have pos: "0 < unat (vc_lmul_denominator ?c)" "0 < unat (vc_lmul_numerator ?c)" by auto
  note fits = element_fits [OF iv(1) cap w(1) pos]
  have reg: "unat i * ?w div 32 < unat (physical_register_count ?c)"
    using nd fits(1) w(1) by (auto simp: physical_register_count_def word_le_nat_alt)
  have wb: "vc_sew_bits ?c div 8 = of_nat ?w"
    using w by (auto simp: word_unat_eq_iff unat_div_distrib)
  have "unat i * ?w \<le> 255 * 8" using iv w(1) by (intro mult_le_mono) auto
  then have bi: "unat (i * of_nat ?w) = unat i * ?w" "unat (of_nat ?w :: u64) = ?w"
    using w(1) by (auto simp: unat_word_ariths)
  have off: "unat (i * of_nat ?w div 32) = unat i * ?w div 32" "unat (i * of_nat ?w mod 32) = unat i * ?w mod 32"
    by (simp_all add: unat_div_distrib unat_mod_distrib bi)
  have sum: "unat (i * of_nat ?w mod 32 + of_nat ?w) = unat i * ?w mod 32 + ?w"
    using fits(2) by (simp add: unat_word_ariths(1) off bi)
  have breg: "unat (ucast (vg_base_register g) + i * of_nat ?w div 32 :: u64)
      = unat (vg_base_register g) + unat i * ?w div 32"
  proof -
    have "unat (ucast (vg_base_register g) :: u64) = unat (vg_base_register g)"
      using base by (simp add: unsigned_ucast_eq take_bit_nat_eq_self_iff)
    then show ?thesis using reg base by (simp add: unat_word_ariths(1) off)
  qed
  have u8: "unat (ucast x :: u8) = unat x" if "unat x < 256" for x :: u64
    using that by (simp add: unsigned_ucast_eq take_bit_nat_eq_self_iff)
  show ?thesis
    using i reg fits(2) base off sum breg
    by (simp add: vg_locate_def Let_def wb word_le_nat_alt word_less_nat_alt u8 bi)
qed

subsection \<open>Element reads and writes\<close>

lemma vg_locate_outside: "\<not> i < vc_vlmax (vg_configuration g) \<Longrightarrow> vg_locate g i = None"
  by (simp add: vg_locate_def Let_def not_less)

definition element_register :: "vector_register_group \<Rightarrow> u64 \<Rightarrow> nat" where
  "element_register g i = unat (vg_base_register g) + unat i * group_width g div 32"

definition element_offset :: "vector_register_group \<Rightarrow> u64 \<Rightarrow> nat" where
  "element_offset g i = unat i * group_width g mod 32"

lemma element_bounds:
  assumes "group_ok g" "i < vc_vlmax (vg_configuration g)"
  shows "element_register g i < 32" "element_register g i \<in> group_registers g"
    "element_offset g i + group_width g \<le> 32"
  using locate_in_group [OF assms] assms(1)
  by (auto simp: group_ok_def group_registers_def element_register_def element_offset_def)

lemma vg_read_element_eq:
  assumes "group_ok g"
  shows "vg_read_element g st i =
    Some (if i < vc_vlmax (vg_configuration g)
      then Some (le_read (st ! element_register g i) (element_offset g i) (group_width g)) else None)"
proof (cases "i < vc_vlmax (vg_configuration g)")
  case True
  then obtain l where l: "vg_locate g i = Some l" "unat (el_register_index l) = element_register g i"
    "unat (el_byte_offset l) = element_offset g i" "unat (el_width_bytes l) = group_width g"
    using locate_in_group [OF assms] by (auto simp: element_register_def element_offset_def)
  show ?thesis
    using True element_bounds [OF assms True] by (simp add: vg_read_element_def l read_bytes_loop_eq)
next
  case False
  then show ?thesis by (simp add: vg_read_element_def vg_locate_outside)
qed

lemma vg_write_element_eq:
  assumes "group_ok g" "vs_wf st"
  shows "vg_write_element g st i v =
    Some (if i < vc_vlmax (vg_configuration g)
      then Some (st[element_register g i :=
          le_write (st ! element_register g i) (element_offset g i) (group_width g) v]) else None)"
proof (cases "i < vc_vlmax (vg_configuration g)")
  case True
  then obtain l where l: "vg_locate g i = Some l" "unat (el_register_index l) = element_register g i"
    "unat (el_byte_offset l) = element_offset g i" "unat (el_width_bytes l) = group_width g"
    using locate_in_group [OF assms(1)] by (auto simp: element_register_def element_offset_def)
  show ?thesis
    using True element_bounds [OF assms(1) True] assms(2)
    by (simp add: vg_write_element_def l write_bytes_loop_eq)
next
  case False
  then show ?thesis by (simp add: vg_write_element_def vg_locate_outside)
qed

lemma distinct_elements_disjoint:
  assumes "i \<noteq> j" "element_register g i = element_register g j"
  shows "element_offset g j + group_width g \<le> element_offset g i
    \<or> element_offset g i + group_width g \<le> element_offset g j"
proof -
  let ?w = "group_width g"
  have "unat i * ?w div 32 = unat j * ?w div 32" using assms(2) by (simp add: element_register_def)
  then have eq: "unat i * ?w = 32 * (unat j * ?w div 32) + element_offset g i"
    "unat j * ?w = 32 * (unat j * ?w div 32) + element_offset g j"
    unfolding element_offset_def by (metis mult_div_mod_eq)+
  have "unat i \<noteq> unat j" using assms(1) by (simp add: word_unat_eq_iff)
  then consider "Suc (unat i) \<le> unat j" | "Suc (unat j) \<le> unat i" by linarith
  then show ?thesis
  proof cases
    case 1
    from mult_le_mono1 [OF this, of ?w] eq show ?thesis by simp
  next
    case 2
    from mult_le_mono1 [OF this, of ?w] eq show ?thesis by simp
  qed
qed

lemma vs_wf_write_element:
  assumes "group_ok g" "vs_wf st" "vg_write_element g st i v = Some (Some st')"
  shows "vs_wf st'"
proof -
  have i: "i < vc_vlmax (vg_configuration g)"
    using assms by (auto simp: vg_write_element_eq split: if_splits)
  have "st' = st[element_register g i :=
          le_write (st ! element_register g i) (element_offset g i) (group_width g) v]"
    using assms i by (simp add: vg_write_element_eq)
  with assms(2) element_bounds(1) [OF assms(1) i] show ?thesis
    by (simp add: vs_wf_update vs_wf_def [of st])
qed

text \<open>C32. A register group is an array of VLMAX elements laid out in its own registers: for a group built from a
  legal configuration, element accesses never raise a host exception and succeed exactly below VLMAX, a
  written element is read back truncated to the element width, every other element of the group keeps its value,
  and registers outside the group are not touched.\<close>

theorem vector_group_is_array:
  assumes "configuration_ok c" "vg_create c base = Some g" "vs_wf st"
  shows "(vc_vlmax c \<le> i \<longrightarrow> vg_read_element g st i = Some None \<and> vg_write_element g st i v = Some None)
    \<and> (i < vc_vlmax c \<longrightarrow> (\<exists>st'. vg_write_element g st i v = Some (Some st') \<and> vs_wf st'
         \<and> vg_read_element g st' i = Some (Some (take_bit (unat (vc_sew_bits c)) v))
         \<and> (\<forall>j. j \<noteq> i \<longrightarrow> vg_read_element g st' j = vg_read_element g st j)
         \<and> (\<forall>r. r \<notin> group_registers g \<longrightarrow> st' ! r = st ! r)))"
proof (cases "i < vc_vlmax c")
  case False
  then show ?thesis
    using vg_create_ok [OF assms(1,2)] assms(3) by (auto simp: vg_read_element_eq vg_write_element_eq)
next
  case True
  note g = vg_create_ok [OF assms(1,2)]
  let ?r = "element_register g i" and ?o = "element_offset g i" and ?w = "group_width g"
  define st' where "st' = st[?r := le_write (st ! ?r) ?o ?w v]"
  have i: "i < vc_vlmax (vg_configuration g)" using True g(2) by simp
  note b = element_bounds [OF g(1) i]
  have w: "vg_write_element g st i v = Some (Some st')"
    using i by (simp add: vg_write_element_eq [OF g(1) assms(3)] st'_def)
  have len: "length st = 32" "length (st ! ?r) = 32" using assms(3) b(1) by (auto simp: vs_wf_def)
  have sew: "unat (vc_sew_bits c) = 8 * ?w" using widths [OF assms(1)] g(2) by (auto simp: group_width_def)
  have same: "vg_read_element g st' i = Some (Some (take_bit (unat (vc_sew_bits c)) v))"
    using i b len sew by (simp add: vg_read_element_eq [OF g(1)] st'_def le_read_write_same)
  have other: "vg_read_element g st' j = vg_read_element g st j" if "j \<noteq> i" for j
  proof (cases "j < vc_vlmax (vg_configuration g) \<and> element_register g j = ?r")
    case True
    then have "element_offset g j + ?w \<le> ?o \<or> ?o + ?w \<le> element_offset g j"
      using distinct_elements_disjoint [of i j g] that by auto
    with True element_bounds(3) [OF g(1), of j] b len show ?thesis
      by (simp add: vg_read_element_eq [OF g(1)] st'_def le_read_write_disjoint)
  next
    case False
    then show ?thesis by (auto simp: vg_read_element_eq [OF g(1)] st'_def)
  qed
  have "st' ! r = st ! r" if "r \<notin> group_registers g" for r
    unfolding st'_def using that b(2) by (intro nth_list_update_neq) auto
  with True w same other vs_wf_write_element [OF g(1) assms(3) w] show ?thesis by auto
qed

theorem vector_group_is_array_witness:
  "\<exists>g st'. vg_create (decode_vector_configuration 0xD1) 4 = Some g
     \<and> vg_write_element g vs_reset 9 0x1122334455 = Some (Some st') \<and> vg_read_element g st' 9 = Some (Some 0x22334455)"
proof -
  define c where "c = decode_vector_configuration 0xD1"
  define g where "g = \<lparr>vg_configuration = c, vg_base_register = (4 :: u8)\<rparr>"
  have c: "vc_valid c" "vg_create c 4 = Some g" "9 < vc_vlmax c" "take_bit (unat (vc_sew_bits c)) 0x1122334455 = (0x22334455 :: u64)"
    unfolding c_def g_def by code_simp+
  have "configuration_ok c" using c(1) decode_configuration_ok unfolding c_def by blast
  from vector_group_is_array [OF this c(2) vs_wf_reset, of 9 "0x1122334455"] c show ?thesis
    unfolding c_def by auto
qed

end
