(* ===== verification/Integer_M.thy ===== *)
theory Integer_M
  imports Decoder "HOL-Library.Signed_Division"
begin

unbundle bit_operations_syntax

text \<open>
  RV64M arithmetic: \<open>core/integer_m.cpp\<close>. The code avoids 128-bit and signed host types, so
  the theorems relate its limb products and magnitude divisions to integer arithmetic.
\<close>

subsection \<open>The operations\<close>

record unsigned_product_128 =
  up_low :: u64
  up_high :: u64

definition multiply_unsigned_64 :: "u64 \<Rightarrow> u64 \<Rightarrow> unsigned_product_128" where
  "multiply_unsigned_64 lhs rhs =
     (let limb_mask = 0xFFFFFFFF;
          lhs_low = lhs AND limb_mask; lhs_high = drop_bit 32 lhs;
          rhs_low = rhs AND limb_mask; rhs_high = drop_bit 32 rhs;
          low_low = lhs_low * rhs_low; low_high = lhs_low * rhs_high;
          high_low = lhs_high * rhs_low; high_high = lhs_high * rhs_high;
          middle = drop_bit 32 low_low + (low_high AND limb_mask) + (high_low AND limb_mask);
          low = (low_low AND limb_mask) OR push_bit 32 middle;
          high = high_high + drop_bit 32 low_high + drop_bit 32 high_low + drop_bit 32 middle
      in \<lparr>up_low = low, up_high = high\<rparr>)"

definition twos_complement_negate :: "'a :: len word \<Rightarrow> 'a word" where
  "twos_complement_negate value = NOT value + 1"

record 'a signed_division_result =
  sd_quotient :: 'a
  sd_remainder :: 'a

definition divide_signed :: "'a :: len word \<Rightarrow> 'a word \<Rightarrow> 'a word signed_division_result" where
  "divide_signed dividend divisor =
     (let sign_bit = push_bit (LENGTH('a) - 1) 1 in
      if divisor = 0 then \<lparr>sd_quotient = NOT 0, sd_remainder = dividend\<rparr>
      else
        let dividend_negative = (dividend AND sign_bit \<noteq> 0);
            divisor_negative = (divisor AND sign_bit \<noteq> 0);
            dividend_magnitude = (if dividend_negative then twos_complement_negate dividend else dividend);
            divisor_magnitude = (if divisor_negative then twos_complement_negate divisor else divisor);
            quotient = dividend_magnitude div divisor_magnitude;
            remainder = dividend_magnitude mod divisor_magnitude;
            quotient' = (if dividend_negative \<noteq> divisor_negative then twos_complement_negate quotient else quotient);
            remainder' = (if dividend_negative then twos_complement_negate remainder else remainder)
        in \<lparr>sd_quotient = quotient', sd_remainder = remainder'\<rparr>)"

definition extend_word :: "u32 \<Rightarrow> u64" where
  "extend_word value = sign_extend (ucast value) 32"

definition execute_doubleword :: "u8 \<Rightarrow> u64 \<Rightarrow> u64 \<Rightarrow> u64 option" where
  "execute_doubleword function3 lhs rhs =
     (if function3 = 0 then Some (up_low (multiply_unsigned_64 lhs rhs))
      else if function3 = 1 then
        let high = up_high (multiply_unsigned_64 lhs rhs);
            high1 = (if drop_bit 63 lhs \<noteq> 0 then high - rhs else high);
            high2 = (if drop_bit 63 rhs \<noteq> 0 then high1 - lhs else high1)
        in Some high2
      else if function3 = 2 then
        let high = up_high (multiply_unsigned_64 lhs rhs)
        in Some (if drop_bit 63 lhs \<noteq> 0 then high - rhs else high)
      else if function3 = 3 then Some (up_high (multiply_unsigned_64 lhs rhs))
      else if function3 = 4 then Some (sd_quotient (divide_signed lhs rhs))
      else if function3 = 5 then Some (if rhs = 0 then NOT 0 else lhs div rhs)
      else if function3 = 6 then Some (sd_remainder (divide_signed lhs rhs))
      else if function3 = 7 then Some (if rhs = 0 then lhs else lhs mod rhs)
      else None)"

definition execute_word :: "u8 \<Rightarrow> u64 \<Rightarrow> u64 \<Rightarrow> u64 option" where
  "execute_word function3 lhs rhs =
     (let lhs_word = (ucast (lhs AND 0xFFFFFFFF) :: u32); rhs_word = (ucast (rhs AND 0xFFFFFFFF) :: u32) in
      if function3 = 0 then
        let product = (ucast lhs_word :: u64) * ucast rhs_word
        in Some (extend_word (ucast (product AND 0xFFFFFFFF)))
      else if function3 = 4 then Some (extend_word (sd_quotient (divide_signed lhs_word rhs_word)))
      else if function3 = 5 then
        Some (extend_word (if rhs_word = 0 then NOT 0 else lhs_word div rhs_word))
      else if function3 = 6 then Some (extend_word (sd_remainder (divide_signed lhs_word rhs_word)))
      else if function3 = 7 then
        Some (extend_word (if rhs_word = 0 then lhs_word else lhs_word mod rhs_word))
      else None)"

definition execute_integer_m :: "u8 \<Rightarrow> u64 \<Rightarrow> u64 \<Rightarrow> bool \<Rightarrow> u64 option" where
  "execute_integer_m function3 lhs rhs word_operation =
     (if word_operation then execute_word function3 lhs rhs else execute_doubleword function3 lhs rhs)"

subsection \<open>Signs and magnitudes\<close>

lemma twos_complement_negate_eq: "twos_complement_negate x = - x"
  by (simp add: twos_complement_negate_def minus_eq_not_plus_1)

lemma sign_bit_test:
  "x AND push_bit (LENGTH('a) - 1) 1 \<noteq> 0 \<longleftrightarrow> sint x < 0" for x :: "'a :: len word"
proof -
  have "x AND push_bit (LENGTH('a) - 1) 1 = 0 \<longleftrightarrow> \<not> bit x (LENGTH('a) - 1)"
  proof
    assume "x AND push_bit (LENGTH('a) - 1) 1 = 0"
    then have "\<not> bit (x AND push_bit (LENGTH('a) - 1) 1) (LENGTH('a) - 1)" by simp
    then show "\<not> bit x (LENGTH('a) - 1)" by (simp add: bit_simps)
  next
    assume "\<not> bit x (LENGTH('a) - 1)"
    then show "x AND push_bit (LENGTH('a) - 1) 1 = 0"
      by (intro bit_word_eqI) (auto simp: bit_simps)
  qed
  then show ?thesis by (simp add: bit_last_iff)
qed

lemma sint_range:
  "- (2 ^ LENGTH('a)) < sint x" "sint x < 2 ^ LENGTH('a)" "- sint x < 2 ^ LENGTH('a)" for x :: "'a :: len word"
proof -
  have half: "(2 :: int) ^ (LENGTH('a) - 1) < 2 ^ LENGTH('a)" by (rule power_strict_increasing) simp_all
  show "- (2 ^ LENGTH('a)) < sint x" using sint_ge [of x] half by linarith
  show "sint x < 2 ^ LENGTH('a)" using sint_lt [of x] half by linarith
  show "- sint x < 2 ^ LENGTH('a)" using sint_ge [of x] half by linarith
qed

lemma magnitude:
  "uint (if sint x < 0 then - x else x) = \<bar>sint x\<bar>" for x :: "'a :: len word"
proof -
  have "uint (word_of_int k :: 'a word) = k" if "0 \<le> k" "k < 2 ^ LENGTH('a)" for k
    using that by (simp add: uint_word_of_int)
  from this [of "- sint x"] this [of "sint x"] show ?thesis
    using sint_range [of x] by (auto simp: of_int_sint)
qed

lemma magnitude_word: "(if sint x < 0 then - x else x) = word_of_int \<bar>sint x\<bar>" for x :: "'a :: len word"
  by (metis magnitude word_of_int_uint)

subsection \<open>Multiplication\<close>

lemma unat_limbs:
  "unat (x AND 0xFFFFFFFF) = unat x mod 2 ^ 32" "unat (drop_bit 32 x) = unat x div 2 ^ 32" for x :: u64
proof -
  have "x AND 0xFFFFFFFF = take_bit 32 x" by (simp add: take_bit_eq_mask mask_eq_exp_minus_1)
  then show "unat (x AND 0xFFFFFFFF) = unat x mod 2 ^ 32"
    by (metis unsigned_take_bit_eq take_bit_eq_mod)
  show "unat (drop_bit 32 x) = unat x div 2 ^ 32" by (metis unat_drop_bit_eq drop_bit_eq_div)
qed

lemma unat_mult_exact: "unat x * unat y < 2 ^ 64 \<Longrightarrow> unat (x * y) = unat x * unat y" for x y :: u64
  by (simp add: unat_word_ariths)

lemma unat_add_exact: "unat x + unat y < 2 ^ 64 \<Longrightarrow> unat (x + y) = unat x + unat y" for x y :: u64
  by (simp add: unat_word_ariths)

lemma limb_product_bound:
  "(a :: nat) < 4294967296 \<Longrightarrow> b < 4294967296 \<Longrightarrow> a * b \<le> 18446744065119617025"
proof -
  assume "a < 4294967296" "b < 4294967296"
  then have "a * b \<le> 4294967295 * 4294967295" by (intro mult_le_mono) auto
  then show ?thesis by simp
qed

lemma unat_low_word:
  "unat ((x AND 0xFFFFFFFF) OR push_bit 32 y) = unat x mod 2 ^ 32 + 2 ^ 32 * (unat y mod 2 ^ 32)" for x y :: u64
proof -
  have "(x AND 0xFFFFFFFF) OR push_bit 32 y = (x AND 0xFFFFFFFF) + push_bit 32 y"
    by (rule disjunctive_add_eq_or [symmetric]) (rule bit_word_eqI, simp add: bit_and_iff bit_push_bit_iff emu_bits)
  moreover have "unat (push_bit 32 y) = 2 ^ 32 * (unat y mod 2 ^ 32)"
    unfolding unsigned_push_bit_eq take_bit_push_bit by (simp add: push_bit_eq_mult take_bit_eq_mod)
  moreover have "unat x mod 2 ^ 32 + 2 ^ 32 * (unat y mod 2 ^ 32) < 2 ^ 64"
    using mod_less_divisor [of "2 ^ 32" "unat x"] mod_less_divisor [of "2 ^ 32" "unat y"] by simp
  ultimately show ?thesis by (simp add: unat_add_exact unat_limbs)
qed

lemma limb_sum_abstract:
  fixes qll rll qlh rlh qhl rhl qm rm hh :: nat
  assumes "qm * 4294967296 + rm = qll + rlh + rhl"
  shows "rll + 4294967296 * rm + 18446744073709551616 * (hh + qlh + qhl + qm)
       = (qll * 4294967296 + rll) + 4294967296 * (qlh * 4294967296 + rlh)
         + 4294967296 * (qhl * 4294967296 + rhl) + 18446744073709551616 * hh"
  using arg_cong [OF assms, of "\<lambda>z. 4294967296 * z"] by simp

lemma limb_sum_identity:
  fixes ll lh hl hh :: nat
  assumes "mid = ll div 2 ^ 32 + lh mod 2 ^ 32 + hl mod 2 ^ 32"
  shows "(ll mod 2 ^ 32 + 2 ^ 32 * (mid mod 2 ^ 32)) + 2 ^ 64 * (hh + lh div 2 ^ 32 + hl div 2 ^ 32 + mid div 2 ^ 32)
       = ll + 2 ^ 32 * lh + 2 ^ 32 * hl + 2 ^ 64 * hh"
  using limb_sum_abstract [of "mid div 2 ^ 32" "mid mod 2 ^ 32" "ll div 2 ^ 32" "lh mod 2 ^ 32" "hl mod 2 ^ 32"
      "ll mod 2 ^ 32" hh "lh div 2 ^ 32" "hl div 2 ^ 32"] assms
  by simp

text \<open>The limb multiplication is the exact 128-bit product: no partial sum wraps, and the two 64-bit
  halves together are the product of the operands.\<close>

lemma multiply_unsigned_64_exact:
  "unat (up_low (multiply_unsigned_64 x y)) + 2 ^ 64 * unat (up_high (multiply_unsigned_64 x y)) = unat x * unat y"
proof -
  define a b c d where abcd: "a = unat x mod 2 ^ 32" "b = unat x div 2 ^ 32" "c = unat y mod 2 ^ 32" "d = unat y div 2 ^ 32"
  define mid where "mid = a * c div 2 ^ 32 + a * d mod 2 ^ 32 + b * c mod 2 ^ 32"
  define h where "h = b * d + a * d div 2 ^ 32 + b * c div 2 ^ 32 + mid div 2 ^ 32"
  have lt: "a < 4294967296" "b < 4294967296" "c < 4294967296" "d < 4294967296"
    using unsigned_less [of x, where 'a = nat] unsigned_less [of y, where 'a = nat] by (simp_all add: abcd)
  note bound = limb_product_bound [OF lt(1,3)] limb_product_bound [OF lt(1,4)] limb_product_bound [OF lt(2,3)]
    limb_product_bound [OF lt(2,4)]
  have "unat x = a + 2 ^ 32 * b" "unat y = c + 2 ^ 32 * d" by (simp_all add: abcd)
  then have xy: "unat x * unat y = a * c + 2 ^ 32 * (a * d) + 2 ^ 32 * (b * c) + 2 ^ 64 * (b * d)"
    by (simp add: algebra_simps)
  with limb_sum_identity [of mid "a * c" "a * d" "b * c" "b * d"]
  have total: "(a * c mod 2 ^ 32 + 2 ^ 32 * (mid mod 2 ^ 32)) + 2 ^ 64 * h = unat x * unat y"
    by (simp add: mid_def h_def)
  have "unat x * unat y < 2 ^ 64 * 2 ^ 64"
    using unsigned_less [of x, where 'a = nat] unsigned_less [of y, where 'a = nat] by (intro mult_strict_mono) simp_all
  then have h: "h < 2 ^ 64" using total by simp
  have prods: "unat ((x AND 0xFFFFFFFF) * (y AND 0xFFFFFFFF)) = a * c"
    "unat ((x AND 0xFFFFFFFF) * drop_bit 32 y) = a * d" "unat (drop_bit 32 x * (y AND 0xFFFFFFFF)) = b * c"
    "unat (drop_bit 32 x * drop_bit 32 y) = b * d"
    using bound [unfolded abcd] by (subst unat_mult_exact; simp add: unat_limbs abcd)+
  have mid: "unat (drop_bit 32 ((x AND 0xFFFFFFFF) * (y AND 0xFFFFFFFF)) + (((x AND 0xFFFFFFFF) * drop_bit 32 y) AND 0xFFFFFFFF)
      + ((drop_bit 32 x * (y AND 0xFFFFFFFF)) AND 0xFFFFFFFF)) = mid"
    using bound by (simp add: unat_add_exact unat_limbs prods mid_def)
  show ?thesis
    using h total unfolding h_def
    by (simp add: multiply_unsigned_64_def Let_def unat_low_word unat_add_exact unat_limbs prods mid)
qed

lemma product_int:
  "uint x * uint y = uint (up_low (multiply_unsigned_64 x y)) + 2 ^ 64 * uint (up_high (multiply_unsigned_64 x y))"
proof -
  have "int (unat x * unat y)
      = int (unat (up_low (multiply_unsigned_64 x y)) + 2 ^ 64 * unat (up_high (multiply_unsigned_64 x y)))"
    by (simp only: multiply_unsigned_64_exact)
  then show ?thesis by (simp only: of_nat_mult of_nat_add of_nat_power of_nat_numeral uint_nat)
qed

lemma drop_63_test: "drop_bit 63 x \<noteq> 0 \<longleftrightarrow> sint x < 0" for x :: u64
proof -
  have "drop_bit 63 x = of_bool (bit x 63)"
  proof (rule bit_word_eqI)
    fix n
    show "bit (drop_bit 63 x) n = bit (of_bool (bit x 63) :: u64) n"
      using bit_imp_le_length [of x "63 + n"] by (cases n) (auto simp: bit_simps)
  qed
  then show ?thesis using bit_last_iff [of x] by simp
qed

lemma sint_eq_uint: "sint x = uint x - (if sint x < 0 then 2 ^ LENGTH('a) else 0)" for x :: "'a :: len word"
proof -
  have u: "uint x = sint x mod 2 ^ LENGTH('a)" by (metis take_bit_eq_mod uint_sint)
  show ?thesis
  proof (cases "sint x < 0")
    case True
    have "(sint x + 2 ^ LENGTH('a)) mod 2 ^ LENGTH('a) = sint x + 2 ^ LENGTH('a)"
      using True sint_range(1) [of x] by (intro mod_pos_pos_trivial) linarith+
    with u True show ?thesis by simp
  next
    case False
    have "sint x mod 2 ^ LENGTH('a) = sint x"
      using False sint_range(2) [of x] by (intro mod_pos_pos_trivial) linarith+
    with u False show ?thesis by simp
  qed
qed

lemma high_half:
  assumes "p = uint (up_low (multiply_unsigned_64 x y)) + 2 ^ 64 * h"
  shows "p div 2 ^ 64 = h"
  using assms unsigned_less [of "up_low (multiply_unsigned_64 x y)", where 'a = int] by (simp add: div_pos_pos_trivial)

lemma word_of_int_multiple: "word_of_int (k + 2 ^ 64 * l) = (word_of_int k :: u64)"
  by (rule word_of_int_eq_iff [THEN iffD2]) (simp add: take_bit_eq_mod)

lemma mulh_correct:
  "execute_doubleword 1 x y = Some (word_of_int ((sint x * sint y) div 2 ^ 64))"
  "execute_doubleword 2 x y = Some (word_of_int ((sint x * uint y) div 2 ^ 64))"
  "execute_doubleword 3 x y = Some (word_of_int ((uint x * uint y) div 2 ^ 64))"
proof -
  let ?h = "uint (up_high (multiply_unsigned_64 x y))"
  have s: "sint x = uint x - 2 ^ 64 * of_bool (sint x < 0)" "sint y = uint y - 2 ^ 64 * of_bool (sint y < 0)"
    using sint_eq_uint [of x] sint_eq_uint [of y] by auto
  have "sint x * sint y = uint x * uint y + 2 ^ 64 * (- of_bool (sint x < 0) * uint y - of_bool (sint y < 0) * uint x
        + 2 ^ 64 * (of_bool (sint x < 0) * of_bool (sint y < 0)))"
    by (subst s, subst s(2)) (simp add: algebra_simps)
  then have "(sint x * sint y) div 2 ^ 64 = (?h - of_bool (sint x < 0) * uint y - of_bool (sint y < 0) * uint x)
        + 2 ^ 64 * (of_bool (sint x < 0) * of_bool (sint y < 0))"
    by (intro high_half) (simp add: product_int algebra_simps)
  then show "execute_doubleword 1 x y = Some (word_of_int ((sint x * sint y) div 2 ^ 64))"
    by (simp only: word_of_int_multiple) (simp add: execute_doubleword_def Let_def drop_63_test)
  have "sint x * uint y = uint x * uint y + 2 ^ 64 * (- of_bool (sint x < 0) * uint y)"
    by (subst s) (simp add: algebra_simps)
  then have "(sint x * uint y) div 2 ^ 64 = ?h - of_bool (sint x < 0) * uint y"
    by (intro high_half) (simp add: product_int algebra_simps)
  then show "execute_doubleword 2 x y = Some (word_of_int ((sint x * uint y) div 2 ^ 64))"
    by (simp add: execute_doubleword_def Let_def drop_63_test)
  have "(uint x * uint y) div 2 ^ 64 = ?h" by (rule high_half) (rule product_int)
  then show "execute_doubleword 3 x y = Some (word_of_int ((uint x * uint y) div 2 ^ 64))"
    by (simp add: execute_doubleword_def Let_def)
qed

lemma mul_correct: "up_low (multiply_unsigned_64 x y) = x * y"
proof -
  have "word_of_int (uint x * uint y) = (word_of_int (uint (up_low (multiply_unsigned_64 x y))) :: u64)"
    unfolding product_int by (rule word_of_int_multiple)
  then show ?thesis by simp
qed

subsection \<open>Division\<close>

lemma divide_signed_by_zero: "divide_signed x 0 = \<lparr>sd_quotient = - 1, sd_remainder = x\<rparr>"
  by (simp add: divide_signed_def)

lemma divide_signed_correct:
  fixes x y :: "'a :: len word"
  assumes "y \<noteq> 0"
  shows "divide_signed x y =
    \<lparr>sd_quotient = word_of_int (sint x sdiv sint y), sd_remainder = word_of_int (sint x smod sint y)\<rparr>"
proof -
  let ?a = "\<bar>sint x\<bar>" and ?b = "\<bar>sint y\<bar>"
  have u: "uint (word_of_int ?a :: 'a word) = ?a" "uint (word_of_int ?b :: 'a word) = ?b"
    by (metis magnitude magnitude_word)+
  have "(word_of_int ?a :: 'a word) div word_of_int ?b = word_of_int (?a div ?b)"
    "(word_of_int ?a :: 'a word) mod word_of_int ?b = word_of_int (?a mod ?b)"
    by (simp_all add: word_div_def word_mod_def u)
  note magnitudes = this
  have "sint y \<noteq> 0" using assms by (simp add: signed_eq_0_iff)
  then have "(if (sint x < 0) \<noteq> (sint y < 0) then - word_of_int (?a div ?b) else word_of_int (?a div ?b))
      = (word_of_int (sint x sdiv sint y) :: 'a word)"
    by (auto simp: signed_divide_int_def sgn_if)
  moreover have "(if sint x < 0 then - word_of_int (?a mod ?b) else word_of_int (?a mod ?b))
      = (word_of_int (sint x smod sint y) :: 'a word)"
    by (auto simp: signed_modulo_int_def sgn_if)
  ultimately show ?thesis
    using assms
    unfolding divide_signed_def Let_def sign_bit_test twos_complement_negate_eq magnitude_word magnitudes
    by (simp only: if_False simp_thms)
qed


text \<open>C30. RV64M computes the arithmetic of the specification: MUL is the wrapping product, MULH, MULHSU and
  MULHU are the upper halves of the signed, mixed and unsigned 128-bit products, and the divisions round
  toward zero with the defined results for division by zero (all ones and the dividend) and for the signed
  overflow (the dividend and zero).\<close>

theorem execute_doubleword_reference:
  "execute_doubleword 0 x y = Some (x * y)
   \<and> execute_doubleword 1 x y = Some (word_of_int ((sint x * sint y) div 2 ^ 64))
   \<and> execute_doubleword 2 x y = Some (word_of_int ((sint x * uint y) div 2 ^ 64))
   \<and> execute_doubleword 3 x y = Some (word_of_int ((uint x * uint y) div 2 ^ 64))
   \<and> execute_doubleword 4 x y = Some (if y = 0 then - 1 else word_of_int (sint x sdiv sint y))
   \<and> execute_doubleword 5 x y = Some (if y = 0 then - 1 else x div y)
   \<and> execute_doubleword 6 x y = Some (if y = 0 then x else word_of_int (sint x smod sint y))
   \<and> execute_doubleword 7 x y = Some (if y = 0 then x else x mod y)"
proof -
  have "execute_doubleword 4 x y = Some (if y = 0 then - 1 else word_of_int (sint x sdiv sint y))"
    "execute_doubleword 6 x y = Some (if y = 0 then x else word_of_int (sint x smod sint y))"
    by (auto simp: execute_doubleword_def divide_signed_by_zero divide_signed_correct)
  moreover have "execute_doubleword 0 x y = Some (x * y)"
    by (simp add: execute_doubleword_def mul_correct)
  moreover have "execute_doubleword 5 x y = Some (if y = 0 then - 1 else x div y)"
    "execute_doubleword 7 x y = Some (if y = 0 then x else x mod y)"
    by (simp_all add: execute_doubleword_def)
  ultimately show ?thesis using mulh_correct by simp
qed

text \<open>The word forms MULW, DIVW, DIVUW, REMW and REMUW compute on the low 32 bits of the operands and
  sign-extend the 32-bit result; the function codes without a word form are refused.\<close>

theorem execute_word_reference:
  "execute_word 0 x y = Some (scast (ucast x * ucast y :: u32))
   \<and> execute_word 4 x y = Some (scast (if (ucast y :: u32) = 0 then - 1
        else word_of_int (sint (ucast x :: u32) sdiv sint (ucast y :: u32)) :: u32))
   \<and> execute_word 5 x y = Some (scast (if (ucast y :: u32) = 0 then - 1 else ucast x div ucast y :: u32))
   \<and> execute_word 6 x y = Some (scast (if (ucast y :: u32) = 0 then ucast x
        else word_of_int (sint (ucast x :: u32) smod sint (ucast y :: u32)) :: u32))
   \<and> execute_word 7 x y = Some (scast (if (ucast y :: u32) = 0 then ucast x else ucast x mod ucast y :: u32))
   \<and> execute_word 1 x y = None \<and> execute_word 2 x y = None \<and> execute_word 3 x y = None"
proof -
  have e: "extend_word w = scast w" for w
    unfolding extend_word_def
    by (rule bit_word_eqI) (auto simp: sign_extend_bits bit_simps)
  have l: "(ucast (v AND 0xFFFFFFFF) :: u32) = ucast v" for v :: u64
    by (rule bit_word_eqI) (auto simp: bit_simps emu_bits)
  have m: "(ucast ((ucast a :: u64) * ucast b) :: u32) = a * b" for a b :: u32
    using unsigned_less [of a, where 'a = nat] unsigned_less [of b, where 'a = nat]
    by (intro word_unat_eq_iff [THEN iffD2])
      (simp add: unsigned_ucast_eq unat_word_ariths take_bit_eq_mod mod_mod_cancel)
  show ?thesis
    by (auto simp: execute_word_def Let_def l e m divide_signed_by_zero divide_signed_correct)
qed

end
