(* ===== verification/Vector_Integer.thy ===== *)
theory Vector_Integer
  imports Vector_State Integer_M
begin

unbundle bit_operations_syntax

text \<open>
  The single-width vector integer instructions and the vector memory decoder:
  \<open>vector/vector_integer.cpp\<close> and \<open>vector/vector_memory.cpp\<close>. Element widths are natural
  numbers (the C++ code passes 8, 16, 32 or 64 in a \<open>std::uint8_t\<close>).
\<close>

subsection \<open>Integer operations\<close>

datatype vector_integer_operation =
    VAdd | VSubtract | VMultiply | VDivideUnsigned | VDivideSigned | VRemainderUnsigned | VRemainderSigned

datatype vector_integer_operand_form = VectorVector | VectorScalar | VectorImmediate

record vector_integer_instruction =
  vi_operation :: vector_integer_operation
  vi_form :: vector_integer_operand_form
  vi_masked :: bool
  vi_destination :: u8
  vi_source2 :: u8
  vi_source1 :: u8

definition mask_for :: "nat \<Rightarrow> u64" where
  "mask_for width = (if width = 64 then NOT 0 else push_bit width 1 - 1)"

definition negative :: "u64 \<Rightarrow> nat \<Rightarrow> bool" where
  "negative v width = (v AND push_bit (width - 1) 1 \<noteq> 0)"

definition negate :: "u64 \<Rightarrow> u64 \<Rightarrow> u64" where
  "negate v m = (- v) AND m"

definition vector_signed_divide :: "u64 \<Rightarrow> u64 \<Rightarrow> nat \<Rightarrow> u64" where
  "vector_signed_divide lhs0 rhs0 width =
     (let m = mask_for width; lhs = lhs0 AND m; rhs = rhs0 AND m in
      if rhs = 0 then m
      else let minimum = push_bit (width - 1) 1 in
        if lhs = minimum \<and> rhs = m then lhs
        else let lhs_negative = negative lhs width; rhs_negative = negative rhs width;
                 quotient = (if lhs_negative then negate lhs m else lhs) div (if rhs_negative then negate rhs m else rhs)
          in if lhs_negative \<noteq> rhs_negative then negate quotient m else quotient)"

definition decode_vector_integer_instruction :: "u32 \<Rightarrow> vector_integer_instruction option" where
  "decode_vector_integer_instruction instruction =
     (let funct3 = (ucast (drop_bit 12 instruction AND 0x7) :: u8);
          funct6 = (ucast (drop_bit 26 instruction AND 0x3F) :: u8) in
      case (if funct3 = 0 then Some VectorVector
            else if funct3 = 4 then Some VectorScalar
            else if funct3 = 3 then Some VectorImmediate
            else None) of
        None \<Rightarrow> None
      | Some form \<Rightarrow>
          (case (if funct6 = 0x00 then Some VAdd
                 else if funct6 = 0x02 then Some VSubtract
                 else if funct6 = 0x25 then Some VMultiply
                 else if funct6 = 0x20 then Some VDivideUnsigned
                 else if funct6 = 0x21 then Some VDivideSigned
                 else if funct6 = 0x22 then Some VRemainderUnsigned
                 else if funct6 = 0x23 then Some VRemainderSigned
                 else None) of
             None \<Rightarrow> None
           | Some operation \<Rightarrow>
               if form = VectorImmediate \<and> operation \<noteq> VAdd then None
               else Some \<lparr>vi_operation = operation, vi_form = form,
                 vi_masked = (instruction AND push_bit 25 1 = 0),
                 vi_destination = ucast (drop_bit 7 instruction AND 0x1F),
                 vi_source2 = ucast (drop_bit 20 instruction AND 0x1F),
                 vi_source1 = ucast (drop_bit 15 instruction AND 0x1F)\<rparr>))"

definition execute_vector_integer_operation :: "vector_integer_operation \<Rightarrow> u64 \<Rightarrow> u64 \<Rightarrow> nat \<Rightarrow> u64" where
  "execute_vector_integer_operation operation lhs0 rhs0 sew_bits =
     (let m = mask_for sew_bits; lhs = lhs0 AND m; rhs = rhs0 AND m in
      case operation of
        VAdd \<Rightarrow> (lhs + rhs) AND m
      | VSubtract \<Rightarrow> (lhs - rhs) AND m
      | VMultiply \<Rightarrow> (lhs * rhs) AND m
      | VDivideUnsigned \<Rightarrow> if rhs = 0 then m else lhs div rhs
      | VRemainderUnsigned \<Rightarrow> if rhs = 0 then lhs else lhs mod rhs
      | VDivideSigned \<Rightarrow> vector_signed_divide lhs rhs sew_bits
      | VRemainderSigned \<Rightarrow>
          if rhs = 0 then lhs
          else if lhs = push_bit (sew_bits - 1) 1 \<and> rhs = m then 0
          else (lhs - vector_signed_divide lhs rhs sew_bits * rhs) AND m)"

definition sign_extend_vector_immediate :: "u8 \<Rightarrow> nat \<Rightarrow> u64" where
  "sign_extend_vector_immediate immediate sew_bits =
     (let signed_value = (if immediate AND 0x10 \<noteq> 0 then ucast (immediate OR 0xE0) else ucast immediate)
      in signed_value AND mask_for sew_bits)"

subsection \<open>Memory instructions\<close>

datatype vector_memory_addressing_mode = UnitStride | Strided

record vector_memory_operation =
  vm_load :: bool
  vm_masked :: bool
  vm_element_width_bits :: u8
  vm_addressing_mode :: vector_memory_addressing_mode
  vm_vector_register :: u8
  vm_base_register :: u8
  vm_stride_register :: u8

definition decode_element_width :: "u8 \<Rightarrow> u8 option" where
  "decode_element_width encoding =
     (if encoding = 0 then Some 8
      else if encoding = 5 then Some 16
      else if encoding = 6 then Some 32
      else if encoding = 7 then Some 64
      else None)"

definition decode_vector_memory_operation :: "u32 \<Rightarrow> bool \<Rightarrow> vector_memory_operation option" where
  "decode_vector_memory_operation instruction load =
     (let nf = (ucast (drop_bit 29 instruction AND 0x7) :: u8);
          mew = (instruction AND push_bit 28 1 \<noteq> 0);
          mop = (ucast (drop_bit 26 instruction AND 0x3) :: u8);
          fields = (ucast (drop_bit 20 instruction AND 0x1F) :: u8)
      in case decode_element_width (ucast (drop_bit 12 instruction AND 0x7)) of
           None \<Rightarrow> None
         | Some width \<Rightarrow>
             if nf \<noteq> 0 \<or> mew then None
             else case (if mop = 0 then if fields \<noteq> 0 then None else Some UnitStride
                        else if mop = 2 then Some Strided else None) of
                 None \<Rightarrow> None
               | Some mode \<Rightarrow> Some \<lparr>vm_load = load, vm_masked = (instruction AND push_bit 25 1 = 0),
                   vm_element_width_bits = width, vm_addressing_mode = mode,
                   vm_vector_register = ucast (drop_bit 7 instruction AND 0x1F),
                   vm_base_register = ucast (drop_bit 15 instruction AND 0x1F),
                   vm_stride_register = fields\<rparr>)"

lemma decoded_vector_registers:
  "decode_vector_integer_instruction x = Some i \<Longrightarrow>
     unat (vi_destination i) < 32 \<and> unat (vi_source2 i) < 32 \<and> unat (vi_source1 i) < 32"
  "decode_vector_memory_operation x l = Some m \<Longrightarrow>
     unat (vm_vector_register m) < 32 \<and> unat (vm_base_register m) < 32 \<and> unat (vm_stride_register m) < 32
     \<and> vm_load m = l \<and> vm_element_width_bits m \<in> {8, 16, 32, 64}"
  by (auto simp: decode_vector_integer_instruction_def decode_vector_memory_operation_def Let_def u8_field_bound
      decode_element_width_def split: option.splits if_splits)

subsection \<open>Arithmetic on elements\<close>

text \<open>The two's-complement value of the low \<open>w\<close> bits.\<close>

definition element_int :: "nat \<Rightarrow> u64 \<Rightarrow> int" where
  "element_int w x = signed_take_bit (w - 1) (uint x)"

lemma and_mask_for: "w \<le> 64 \<Longrightarrow> x AND mask_for w = take_bit w x"
proof (cases "w = 64")
  case True
  then show ?thesis using take_bit_word_eq_self [of 64 x] by (simp add: mask_for_def)
next
  case False
  then show ?thesis by (simp add: mask_for_def take_bit_eq_mask mask_eq_exp_minus_1 push_bit_eq_mult)
qed

lemma element_negative:
  "0 < w \<Longrightarrow> w \<le> 64 \<Longrightarrow> negative (take_bit w x) w \<longleftrightarrow> element_int w x < 0"
proof -
  assume w: "0 < w" "w \<le> 64"
  have "negative (take_bit w x) w \<longleftrightarrow> bit x (w - 1)"
  proof -
    have "take_bit w x AND push_bit (w - 1) 1 = of_bool (bit x (w - 1)) * 2 ^ (w - 1)"
      using w by (intro bit_word_eqI) (auto simp: bit_simps)
    then show ?thesis using w by (auto simp: negative_def)
  qed
  then show ?thesis using w by (auto simp: element_int_def bit_uint_iff)
qed

lemma element_int_uint:
  assumes "0 < w" "w \<le> 64"
  shows "uint (take_bit w x) = element_int w x + (if element_int w x < 0 then 2 ^ w else 0)"
    "- (2 ^ (w - 1)) \<le> element_int w x" "element_int w x < 2 ^ (w - 1)"
proof -
  obtain k where k: "w = Suc k" using assms by (cases w) auto
  have u: "uint (take_bit w x) = take_bit w (uint x)" by (simp add: unsigned_take_bit_eq)
  show "- (2 ^ (w - 1)) \<le> element_int w x" "element_int w x < 2 ^ (w - 1)"
    by (simp_all add: element_int_def signed_take_bit_int_greater_eq_minus_exp signed_take_bit_int_less_exp)
  then have "- (2 ^ k) \<le> element_int w x" "element_int w x < 2 ^ k" by (simp_all add: k)
  moreover have "take_bit w (uint x) = element_int w x mod 2 ^ w"
    unfolding element_int_def k take_bit_eq_mod [symmetric] by (simp add: take_bit_signed_take_bit)
  moreover have "(element_int w x + 2 ^ w) mod 2 ^ w = element_int w x mod 2 ^ w" by simp
  ultimately show "uint (take_bit w x) = element_int w x + (if element_int w x < 0 then 2 ^ w else 0)"
    unfolding u using mod_pos_pos_trivial [of "element_int w x" "2 ^ w"]
      mod_pos_pos_trivial [of "element_int w x + 2 ^ w" "2 ^ w"] by (auto simp: k)
qed

lemma take_bit_word_of_int: "take_bit w (word_of_int k :: u64) = word_of_int (take_bit w k)"
  by (rule bit_word_eqI) (auto simp: bit_simps bit_word_of_int_iff)

lemma uint_negate:
  assumes "0 < w" "w \<le> 64"
  shows "negate (word_of_int k) (mask_for w) = take_bit w (word_of_int (- k))"
  using assms by (simp add: negate_def and_mask_for)

lemma element_magnitude:
  assumes "0 < w" "w \<le> 64"
  shows "(if negative (take_bit w x) w then negate (take_bit w x) (mask_for w) else take_bit w x)
    = word_of_int \<bar>element_int w x\<bar>"
proof (cases "element_int w x < 0")
  case True
  have "take_bit w x = word_of_int (element_int w x + 2 ^ w)"
    using element_int_uint(1) [OF assms, of x] True by (metis word_of_int_uint)
  then have "negate (take_bit w x) (mask_for w) = take_bit w (word_of_int (- (element_int w x + 2 ^ w)))"
    by (simp only: uint_negate [OF assms])
  also have "\<dots> = word_of_int (take_bit w (- (element_int w x + 2 ^ w)))"
    by (rule take_bit_word_of_int)
  also have "take_bit w (- (element_int w x + 2 ^ w)) = - element_int w x"
  proof -
    have "(2 :: int) ^ (w - 1) < 2 ^ w" using assms by (simp add: power_strict_increasing)
    then have "(- element_int w x) mod 2 ^ w = - element_int w x"
      using element_int_uint(2) [OF assms, of x] True by (intro mod_pos_pos_trivial) linarith+
    then show ?thesis by (simp add: take_bit_eq_mod minus_add_distrib)
  qed
  finally show ?thesis using True element_negative [OF assms] by simp
next
  case False
  then show ?thesis
    using element_int_uint(1) [OF assms, of x] element_negative [OF assms] by (metis abs_of_nonneg add_0_right linorder_not_less word_of_int_uint)
qed

lemma uint_small: "0 \<le> k \<Longrightarrow> k < 2 ^ 64 \<Longrightarrow> uint (word_of_int k :: u64) = k"
  by (simp add: uint_word_of_int)

lemma take_bit_small: "0 \<le> k \<Longrightarrow> k < 2 ^ w \<Longrightarrow> w \<le> 64 \<Longrightarrow> take_bit w (word_of_int k :: u64) = word_of_int k"
  unfolding take_bit_word_of_int by (simp add: take_bit_eq_mod)

lemma element_eq_iff:
  assumes "0 < w" "w \<le> 64" "0 \<le> k" "k < 2 ^ w"
  shows "take_bit w x = word_of_int k \<longleftrightarrow> element_int w x = (if k < 2 ^ (w - 1) then k else k - 2 ^ w)"
proof -
  have "k < 2 ^ 64" using assms(4) power_increasing [OF assms(2), of "2 :: int"] by simp
  then have "take_bit w x = word_of_int k \<longleftrightarrow> uint (take_bit w x) = k"
    using assms(3) by (metis uint_small word_of_int_uint)
  also have "\<dots> \<longleftrightarrow> element_int w x + (if element_int w x < 0 then 2 ^ w else 0) = k"
    by (simp add: element_int_uint(1) [OF assms(1,2)])
  also have "\<dots> \<longleftrightarrow> element_int w x = (if k < 2 ^ (w - 1) then k else k - 2 ^ w)"
  proof -
    obtain j where "w = Suc j" using assms(1) by (cases w) auto
    then show ?thesis
      using element_int_uint(2,3) [OF assms(1,2), of x] assms(3,4) by auto
  qed
  finally show ?thesis .
qed

lemma vector_signed_divide_general:
  fixes x y :: u64
  assumes w: "0 < w" "w \<le> 64" and b: "element_int w y \<noteq> 0"
  defines "q \<equiv> \<bar>element_int w x\<bar> div \<bar>element_int w y\<bar>"
  shows "(word_of_int \<bar>element_int w x\<bar> :: u64) div word_of_int \<bar>element_int w y\<bar> = word_of_int q"
    "0 \<le> q" "q \<le> 2 ^ (w - 1)" "q < 2 ^ w"
proof -
  have abs: "\<bar>element_int w z\<bar> \<le> 2 ^ (w - 1)" for z using element_int_uint(2,3) [OF w, of z] by linarith
  have pow: "(2 :: int) ^ (w - 1) < 2 ^ w" "(2 :: int) ^ w \<le> 2 ^ 64"
    using w power_increasing [OF w(2), of "2 :: int"] by (simp_all add: power_strict_increasing)
  show "0 \<le> q" by (simp add: q_def div_int_pos_iff)
  have "q \<le> \<bar>element_int w x\<bar>" unfolding q_def
    using zdiv_mono2 [of "\<bar>element_int w x\<bar>" 1 "\<bar>element_int w y\<bar>"] b by simp
  then show "q \<le> 2 ^ (w - 1)" using abs [of x] by linarith
  then show "q < 2 ^ w" using pow by linarith
  have "uint (word_of_int \<bar>element_int w z\<bar> :: u64) = \<bar>element_int w z\<bar>" for z
    using abs [of z] pow by (intro uint_small) linarith+
  then show "(word_of_int \<bar>element_int w x\<bar> :: u64) div word_of_int \<bar>element_int w y\<bar> = word_of_int q"
    by (simp add: word_div_def q_def)
qed

lemma special_elements:
  assumes w: "0 < w" "w \<le> 64"
  shows "take_bit w x = push_bit (w - 1) 1 \<longleftrightarrow> element_int w x = - (2 ^ (w - 1))"
    "take_bit w x = mask_for w \<longleftrightarrow> element_int w x = - 1"
proof -
  obtain k where k: "w = Suc k" using w by (cases w) auto
  show "take_bit w x = push_bit (w - 1) 1 \<longleftrightarrow> element_int w x = - (2 ^ (w - 1))"
    using element_eq_iff [OF w, of "2 ^ (w - 1)" x] by (simp add: k push_bit_eq_mult)
  have "mask_for w = take_bit w (NOT 0)" using and_mask_for [OF w(2), of "NOT 0"] by simp
  then have m: "mask_for w = word_of_int (2 ^ w - 1)"
    using w by (simp add: take_bit_minus_one_eq_mask mask_eq_exp_minus_1)
  have one: "1 \<le> (2 :: int) ^ k" by simp
  have "\<not> (2 :: int) ^ w - 1 < 2 ^ (w - 1)" unfolding k power_Suc diff_Suc_1 using one by linarith
  then show "take_bit w x = mask_for w \<longleftrightarrow> element_int w x = - 1"
    unfolding m using element_eq_iff [OF w, of "2 ^ w - 1" x] by simp
qed

lemma vector_signed_divide_correct:
  assumes w: "0 < w" "w \<le> 64"
  shows "vector_signed_divide x y w =
    (if element_int w y = 0 then mask_for w else take_bit w (word_of_int (element_int w x sdiv element_int w y)))"
proof -
  let ?a = "element_int w x" and ?b = "element_int w y"
  let ?q = "\<bar>?a\<bar> div \<bar>?b\<bar>"
  obtain k where k: "w = Suc k" using w by (cases w) auto
  have zero: "take_bit w y = 0 \<longleftrightarrow> ?b = 0" using element_eq_iff [OF w, of 0 y] by simp
  note min = special_elements(1) [OF w, of x] and ones = special_elements(2) [OF w, of y]
  show ?thesis
  proof (cases "?b = 0")
    case True
    then show ?thesis using zero by (simp add: vector_signed_divide_def Let_def and_mask_for w)
  next
    case False
    note gen = vector_signed_divide_general [OF w False, of x]
    have sd: "?a sdiv ?b = (if (?a < 0) \<noteq> (?b < 0) then - ?q else ?q)"
      using False by (auto simp: signed_divide_int_def sgn_if)
    show ?thesis
    proof (cases "?a = - (2 ^ (w - 1)) \<and> ?b = - 1")
      case True
      then have "?a sdiv ?b = 2 ^ (w - 1)" by (simp add: sd)
      moreover have "vector_signed_divide x y w = take_bit w x"
        using True False min ones zero by (simp add: vector_signed_divide_def Let_def and_mask_for w)
      moreover have "take_bit w x = push_bit (w - 1) 1" using True min by simp
      ultimately show ?thesis
        using False w by (auto simp: push_bit_eq_mult intro!: bit_word_eqI simp: bit_simps)
    next
      case no: False
      have "vector_signed_divide x y w =
          (if (?a < 0) \<noteq> (?b < 0) then negate (word_of_int ?q) (mask_for w) else word_of_int ?q)"
        unfolding vector_signed_divide_def Let_def and_mask_for [OF w(2)] zero min ones
        unfolding element_magnitude [OF w] unfolding element_negative [OF w] gen(1)
        using False no by (simp only: if_False)
      also have "\<dots> = take_bit w (word_of_int (?a sdiv ?b))"
        unfolding sd uint_negate [OF w] using take_bit_small [OF gen(2,4) w(2)] by simp
      finally show ?thesis using False by simp
    qed
  qed
qed

lemma element_int_cong: "take_bit w (word_of_int (element_int w x) :: u64) = take_bit w x" if "0 < w" "w \<le> 64"
proof -
  have "word_of_int (uint (take_bit w x)) = (take_bit w x :: u64)" by simp
  then have "take_bit w x = word_of_int (element_int w x) + (if element_int w x < 0 then 2 ^ w else 0)"
    unfolding element_int_uint(1) [OF that] by (auto split: if_splits)
  then have "take_bit w (take_bit w x) = take_bit w (word_of_int (element_int w x) + (if element_int w x < 0 then 2 ^ w else 0))"
    by simp
  also have "\<dots> = take_bit w (word_of_int (element_int w x + (if element_int w x < 0 then 2 ^ w else 0)))" by simp
  also have "\<dots> = take_bit w (word_of_int (element_int w x))"
    unfolding take_bit_word_of_int by (auto simp: take_bit_eq_mod)
  finally show ?thesis by simp
qed

lemma take_bit_word_arith:
  "take_bit w (take_bit w x + take_bit w y) = take_bit w (x + y)"
  "take_bit w (take_bit w x - take_bit w y) = take_bit w (x - y)"
  "take_bit w (take_bit w x * take_bit w y) = take_bit w (x * y)" for x y :: u64
proof -
  obtain a b where ab: "x = word_of_int a" "y = word_of_int b" by (metis word_of_int_uint)
  have i: "take_bit w (word_of_int (take_bit w a + take_bit w b) :: u64) = take_bit w (word_of_int (a + b))"
    "take_bit w (word_of_int (take_bit w a - take_bit w b) :: u64) = take_bit w (word_of_int (a - b))"
    "take_bit w (word_of_int (take_bit w a * take_bit w b) :: u64) = take_bit w (word_of_int (a * b))"
    unfolding take_bit_word_of_int by (simp_all only: take_bit_add take_bit_diff take_bit_mult)
  have t: "take_bit w x = word_of_int (take_bit w a)" "take_bit w y = word_of_int (take_bit w b)"
    unfolding ab take_bit_word_of_int by simp_all
  show "take_bit w (take_bit w x + take_bit w y) = take_bit w (x + y)"
    "take_bit w (take_bit w x - take_bit w y) = take_bit w (x - y)"
    "take_bit w (take_bit w x * take_bit w y) = take_bit w (x * y)"
    unfolding t using i by (simp_all only: of_int_add of_int_diff of_int_mult ab)
qed

lemma element_int_take_bit: "0 < w \<Longrightarrow> element_int w (take_bit w x) = element_int w x"
  by (cases w) (simp_all add: element_int_def unsigned_take_bit_eq signed_take_bit_take_bit)

lemma signed_remainder_correct:
  assumes w: "0 < w" "w \<le> 64" and b: "element_int w y \<noteq> 0"
  shows "take_bit w (take_bit w x - take_bit w (word_of_int (element_int w x sdiv element_int w y)) * take_bit w y)
    = take_bit w (word_of_int (element_int w x smod element_int w y))"
proof -
  let ?a = "element_int w x" and ?b = "element_int w y"
  let ?W = "\<lambda>k. take_bit w (word_of_int k) :: u64"
  have cong: "take_bit w (take_bit w X - take_bit w Y * take_bit w Z) = take_bit w (X - Y * Z)" for X Y Z :: u64
    using take_bit_word_arith(2) [of w "take_bit w X" "take_bit w Y * take_bit w Z"]
      take_bit_word_arith(2) [of w X "Y * Z"] take_bit_word_arith(3) [of w Y Z] by simp
  have "take_bit w (take_bit w x - ?W (?a sdiv ?b) * take_bit w y) = take_bit w (?W ?a - ?W (?a sdiv ?b) * ?W ?b)"
    by (simp only: element_int_cong [OF w])
  also have "\<dots> = ?W (?a - ?a sdiv ?b * ?b)"
    unfolding cong by simp
  also have "?a - ?a sdiv ?b * ?b = ?a smod ?b"
    by (metis minus_sdiv_mult_eq_smod)
  finally show ?thesis .
qed

text \<open>C33. Vector integer arithmetic on an element width of 8, 16, 32 or 64 bits is the scalar RISC-V arithmetic of
  that width: wrapping sum, difference and product, unsigned division with the all-ones quotient for a zero
  divisor, and signed division and remainder rounding toward zero, including division by zero and the signed
  overflow. Only the low SEW bits of the operands matter.\<close>

theorem vector_integer_reference:
  assumes "w \<in> {8, 16, 32, 64}"
  shows "execute_vector_integer_operation VAdd x y w = take_bit w (x + y)
    \<and> execute_vector_integer_operation VSubtract x y w = take_bit w (x - y)
    \<and> execute_vector_integer_operation VMultiply x y w = take_bit w (x * y)
    \<and> execute_vector_integer_operation VDivideUnsigned x y w =
        (if take_bit w y = 0 then mask w else take_bit w x div take_bit w y)
    \<and> execute_vector_integer_operation VRemainderUnsigned x y w =
        (if take_bit w y = 0 then take_bit w x else take_bit w x mod take_bit w y)
    \<and> execute_vector_integer_operation VDivideSigned x y w =
        (if element_int w y = 0 then mask w else take_bit w (word_of_int (element_int w x sdiv element_int w y)))
    \<and> execute_vector_integer_operation VRemainderSigned x y w =
        (if element_int w y = 0 then take_bit w x else take_bit w (word_of_int (element_int w x smod element_int w y)))"
proof -
  have w: "0 < w" "w \<le> 64" using assms by auto
  have m: "mask_for w = mask w"
    using and_mask_for [OF w(2), of "NOT 0"] by (simp add: take_bit_minus_one_eq_mask)
  have zero: "take_bit w y = 0 \<longleftrightarrow> element_int w y = 0" using element_eq_iff [OF w, of 0 y] by simp
  note ops = execute_vector_integer_operation_def Let_def and_mask_for [OF w(2)]
  have min: "take_bit w x = push_bit (w - 1) 1 \<longleftrightarrow> element_int w x = - (2 ^ (w - 1))"
    and ones: "take_bit w y = mask w \<longleftrightarrow> element_int w y = - 1"
    using special_elements [OF w] m by auto
  have div: "vector_signed_divide (take_bit w x) (take_bit w y) w = (if element_int w y = 0 then mask w
        else take_bit w (word_of_int (element_int w x sdiv element_int w y)))"
    by (simp add: vector_signed_divide_correct w element_int_take_bit m)
  have "execute_vector_integer_operation VRemainderSigned x y w =
        (if element_int w y = 0 then take_bit w x else take_bit w (word_of_int (element_int w x smod element_int w y)))"
  proof -
    have "execute_vector_integer_operation VRemainderSigned x y w =
        (if element_int w y = 0 then take_bit w x
         else if element_int w x = - (2 ^ (w - 1)) \<and> element_int w y = - 1 then 0
         else take_bit w (take_bit w x - vector_signed_divide (take_bit w x) (take_bit w y) w * take_bit w y))"
      unfolding ops by (simp only: vector_integer_operation.case zero min ones m)
    also have "\<dots> = (if element_int w y = 0 then take_bit w x
        else take_bit w (word_of_int (element_int w x smod element_int w y)))"
      unfolding div using signed_remainder_correct [OF w, of y x] by (auto simp: signed_modulo_int_def)
    finally show ?thesis .
  qed
  moreover have "execute_vector_integer_operation VDivideSigned x y w =
        (if element_int w y = 0 then mask w else take_bit w (word_of_int (element_int w x sdiv element_int w y)))"
    unfolding ops by (simp only: vector_integer_operation.case div)
  ultimately show ?thesis
    unfolding ops by (simp only: vector_integer_operation.case m take_bit_word_arith simp_thms)
qed

theorem vector_integer_reference_witness:
  "execute_vector_integer_operation VDivideSigned 0xF9 2 8 = 0xFD
   \<and> execute_vector_integer_operation VRemainderSigned 0xF9 2 8 = 0xFF"
proof -
  have "(8 :: nat) \<in> {8, 16, 32, 64}" by simp
  from vector_integer_reference [OF this, of "0xF9" 2] show ?thesis
    by (simp add: element_int_def signed_divide_int_def signed_modulo_int_def mask_eq_exp_minus_1)
qed

definition immediate_extension_ok :: "nat \<Rightarrow> u8 \<Rightarrow> bool" where
  "immediate_extension_ok w imm \<longleftrightarrow>
     (if w = 8 \<or> \<not> bit imm 4 then sign_extend_vector_immediate imm w = take_bit w (signed_take_bit 4 (ucast imm))
      else sign_extend_vector_immediate imm w = 0xE0 OR ucast imm
         \<and> sign_extend_vector_immediate imm w \<noteq> take_bit w (signed_take_bit 4 (ucast imm)))"

lemma immediate_extension_table:
  "list_all (\<lambda>w. list_all (\<lambda>k. immediate_extension_ok w (of_nat k)) [0..<32]) [8, 16, 32, 64]"
  by code_simp

text \<open>The 5-bit vector immediate is extended to eight bits only: for an 8-bit element or a non-negative
  immediate the result is the sign extension, while for a wider element a negative immediate stays below 256
  and so differs from its sign extension.\<close>

theorem vector_immediate_extension:
  assumes "w \<in> {8, 16, 32, 64}" "imm < 32"
  shows "(w = 8 \<or> \<not> bit imm 4 \<longrightarrow>
       sign_extend_vector_immediate imm w = take_bit w (signed_take_bit 4 (ucast imm)))
    \<and> (w \<noteq> 8 \<and> bit imm 4 \<longrightarrow> sign_extend_vector_immediate imm w = 0xE0 OR ucast imm
         \<and> sign_extend_vector_immediate imm w \<noteq> take_bit w (signed_take_bit 4 (ucast imm)))"
proof -
  have "unat imm \<in> set [0..<32]" "w \<in> set [8, 16, 32, 64]" using assms by (auto simp: word_less_nat_alt)
  then have "immediate_extension_ok w (of_nat (unat imm))"
    using immediate_extension_table unfolding list_all_iff by blast
  then show ?thesis by (auto simp: immediate_extension_ok_def)
qed

theorem vector_immediate_extension_witness:
  "sign_extend_vector_immediate 0x1F 16 = 0xFF \<and> sign_extend_vector_immediate 0x1F 8 = 0xFF"
proof -
  have "bit (0x1F :: u8) 4" "(0xE0 OR ucast (0x1F :: u8) :: u64) = 0xFF"
    "take_bit 8 (signed_take_bit 4 (ucast (0x1F :: u8))) = (0xFF :: u64)"
    by code_simp+
  then show ?thesis
    using vector_immediate_extension [of 16 "0x1F"] vector_immediate_extension [of 8 "0x1F"] by simp
qed

end
