(* ===== verification/Vector_Floating.thy ===== *)
theory Vector_Floating
  imports Vector_Integer Soft_Float
begin

unbundle bit_operations_syntax

text \<open>
  The vector floating-point instructions: decoding and the dispatch of one element to the software
  floating-point core, \<open>vector/vector_floating.hpp\<close> and \<open>vector/vector_floating.cpp\<close>.
\<close>

datatype vector_floating_operand_form = FloatVectorVector | FloatVectorScalar

datatype vector_floating_operation = VFAdd | VFSubtract | VFMultiply | VFDivide

record vector_floating_instruction =
  vf_operation :: vector_floating_operation
  vf_form :: vector_floating_operand_form
  vf_masked :: bool
  vf_destination :: u8
  vf_source2 :: u8
  vf_source1 :: u8

definition decode_vector_floating_instruction :: "u32 \<Rightarrow> vector_floating_instruction option" where
  "decode_vector_floating_instruction instruction =
     (let funct3 = (ucast (drop_bit 12 instruction AND 0x7) :: u8);
          funct6 = (ucast (drop_bit 26 instruction AND 0x3F) :: u8)
      in case (if funct3 = 1 then Some FloatVectorVector
               else if funct3 = 5 then Some FloatVectorScalar else None) of
           None \<Rightarrow> None
         | Some form \<Rightarrow>
             (case (if funct6 = 0x00 then Some VFAdd
                    else if funct6 = 0x02 then Some VFSubtract
                    else if funct6 = 0x20 then Some VFDivide
                    else if funct6 = 0x24 then Some VFMultiply
                    else None) of
                None \<Rightarrow> None
              | Some operation \<Rightarrow> Some \<lparr>vf_operation = operation, vf_form = form,
                  vf_masked = (instruction AND push_bit 25 1 = 0),
                  vf_destination = ucast (drop_bit 7 instruction AND 0x1F),
                  vf_source2 = ucast (drop_bit 20 instruction AND 0x1F),
                  vf_source1 = ucast (drop_bit 15 instruction AND 0x1F)\<rparr>))"

fun execute_vector_floating_operation ::
    "vector_floating_operation \<Rightarrow> floating_format \<Rightarrow> u64 \<Rightarrow> u64 \<Rightarrow> floating_rounding_mode \<Rightarrow> floating_result" where
  "execute_vector_floating_operation VFAdd fmt lhs rhs rounding = floating_add fmt lhs rhs rounding"
| "execute_vector_floating_operation VFSubtract fmt lhs rhs rounding = floating_subtract fmt lhs rhs rounding"
| "execute_vector_floating_operation VFMultiply fmt lhs rhs rounding = floating_multiply fmt lhs rhs rounding"
| "execute_vector_floating_operation VFDivide fmt lhs rhs rounding = floating_divide fmt lhs rhs rounding"

lemma decoded_vector_floating_registers:
  "decode_vector_floating_instruction x = Some i \<Longrightarrow>
     unat (vf_destination i) < 32 \<and> unat (vf_source2 i) < 32 \<and> unat (vf_source1 i) < 32"
  by (auto simp: decode_vector_floating_instruction_def Let_def u8_field_bound split: option.splits if_splits)

text \<open>The integer and the floating-point decoders never accept the same encoding.\<close>

lemma vector_decoders_disjoint:
  "decode_vector_floating_instruction x \<noteq> None \<Longrightarrow> decode_vector_integer_instruction x = None"
  by (auto simp: decode_vector_floating_instruction_def decode_vector_integer_instruction_def Let_def
      split: option.splits if_splits)

end
