(* ===== verification/Cpu_State.thy ===== *)
theory Cpu_State
  imports Mmu_Correct Vector_Floating
begin

unbundle bit_operations_syntax

text \<open>
  The architectural state of the hart: \<open>core/cpu_state.hpp\<close> and \<open>core/cpu_state.cpp\<close>. The outer \<open>None\<close> of an
  accessor is the \<open>std::out_of_range\<close> exception of the register index check. A reservation token is the
  number it wraps, zero for the empty token.
\<close>

record cpu_state =
  cs_integer_registers :: "u64 list"
  cs_floating_registers :: "u64 list"
  cs_vector_state :: vector_state
  cs_csrs :: csr_file
  cs_program_counter :: u64
  cs_privilege :: privilege_mode
  cs_waiting_for_interrupt :: bool
  cs_reservation_token :: u64

abbreviation (input) kRegisterCount :: nat where "kRegisterCount \<equiv> 32"

definition cpu_state_create :: cpu_state where
  "cpu_state_create = \<lparr>cs_integer_registers = replicate kRegisterCount 0,
     cs_floating_registers = replicate kRegisterCount 0, cs_vector_state = vs_reset, cs_csrs = csr_init,
     cs_program_counter = 0, cs_privilege = Machine, cs_waiting_for_interrupt = False,
     cs_reservation_token = 0\<rparr>"

definition cpu_state_reset :: "cpu_state \<Rightarrow> u64 \<Rightarrow> cpu_state" where
  "cpu_state_reset s reset_pc = s\<lparr>cs_integer_registers := replicate kRegisterCount 0,
     cs_floating_registers := replicate kRegisterCount 0, cs_vector_state := vs_reset,
     cs_csrs := csr_reset (cs_csrs s), cs_program_counter := reset_pc, cs_privilege := Machine,
     cs_waiting_for_interrupt := False, cs_reservation_token := 0\<rparr>"

definition require_register_index :: "nat \<Rightarrow> unit option" where
  "require_register_index index = (if kRegisterCount \<le> index then None else Some ())"

definition integer :: "cpu_state \<Rightarrow> nat \<Rightarrow> u64 option" where
  "integer s index = do {
     require_register_index index;
     Some (if index = 0 then 0 else cs_integer_registers s ! index)
   }"

definition set_integer :: "cpu_state \<Rightarrow> nat \<Rightarrow> u64 \<Rightarrow> cpu_state option" where
  "set_integer s index v = do {
     require_register_index index;
     Some (if index \<noteq> 0 then s\<lparr>cs_integer_registers := (cs_integer_registers s)[index := v]\<rparr> else s)
   }"

definition floating :: "cpu_state \<Rightarrow> nat \<Rightarrow> u64 option" where
  "floating s index = do {
     require_register_index index;
     Some (cs_floating_registers s ! index)
   }"

definition set_floating :: "cpu_state \<Rightarrow> nat \<Rightarrow> u64 \<Rightarrow> cpu_state option" where
  "set_floating s index v = do {
     require_register_index index;
     Some (s\<lparr>cs_floating_registers := (cs_floating_registers s)[index := v],
             cs_csrs := mark_floating_state_dirty (cs_csrs s)\<rparr>)
   }"

definition floating_single :: "cpu_state \<Rightarrow> nat \<Rightarrow> u32 option" where
  "floating_single s index = do {
     bits \<leftarrow> floating s index;
     Some (unbox_single_precision bits)
   }"

definition set_floating_single :: "cpu_state \<Rightarrow> nat \<Rightarrow> u32 \<Rightarrow> cpu_state option" where
  "set_floating_single s index v = set_floating s index (box_single_precision v)"

definition vector :: "cpu_state \<Rightarrow> nat \<Rightarrow> u8 list option" where
  "vector s index = vs_register_value (cs_vector_state s) index"

definition set_vector :: "cpu_state \<Rightarrow> nat \<Rightarrow> u8 list \<Rightarrow> cpu_state option" where
  "set_vector s index v = do {
     st \<leftarrow> vs_set_register_value (cs_vector_state s) index v;
     Some (s\<lparr>cs_vector_state := st, cs_csrs := mark_vector_state_dirty (cs_csrs s)\<rparr>)
   }"

definition vector_element :: "cpu_state \<Rightarrow> vector_register_group \<Rightarrow> u64 \<Rightarrow> u64 option option" where
  "vector_element s grp element_index = vg_read_element grp (cs_vector_state s) element_index"

text \<open>The inner \<open>None\<close> is the false return.\<close>

definition set_vector_element ::
    "cpu_state \<Rightarrow> vector_register_group \<Rightarrow> u64 \<Rightarrow> u64 \<Rightarrow> cpu_state option option" where
  "set_vector_element s grp element_index v = do {
     written \<leftarrow> vg_write_element grp (cs_vector_state s) element_index v;
     Some (case written of
         None \<Rightarrow> None
       | Some st \<Rightarrow> Some (s\<lparr>cs_vector_state := st, cs_csrs := mark_vector_state_dirty (cs_csrs s)\<rparr>))
   }"

definition vector_mask_bit :: "cpu_state \<Rightarrow> u64 \<Rightarrow> bool option option" where
  "vector_mask_bit s element_index = vg_mask_bit (cs_vector_state s) element_index"

end
