(* ===== verification/Integer_A.thy ===== *)
theory Integer_A
  imports Integer_M
begin

unbundle bit_operations_syntax

text \<open>
  The arithmetic of the RV64A read-modify-write operations: \<open>core/integer_a.hpp\<close> and
  \<open>core/integer_a.cpp\<close>. The C++ templates become definitions over words of any length.
\<close>

datatype atomic_operation =
    Swap | Add | Xor | And | Or | MinimumSigned | MaximumSigned | MinimumUnsigned | MaximumUnsigned

definition signed_less :: "'a :: len word \<Rightarrow> 'a word \<Rightarrow> bool" where
  "signed_less lhs rhs =
     (let sign_bit = push_bit (LENGTH('a) - 1) 1 in (lhs XOR sign_bit) < (rhs XOR sign_bit))"

fun calculate :: "atomic_operation \<Rightarrow> 'a :: len word \<Rightarrow> 'a word \<Rightarrow> 'a word" where
  "calculate Swap observed operand = operand"
| "calculate Add observed operand = observed + operand"
| "calculate Xor observed operand = observed XOR operand"
| "calculate And observed operand = observed AND operand"
| "calculate Or observed operand = observed OR operand"
| "calculate MinimumSigned observed operand = (if signed_less observed operand then observed else operand)"
| "calculate MaximumSigned observed operand = (if signed_less observed operand then operand else observed)"
| "calculate MinimumUnsigned observed operand = (if observed < operand then observed else operand)"
| "calculate MaximumUnsigned observed operand = (if observed < operand then operand else observed)"

definition decode_atomic_operation :: "u8 \<Rightarrow> atomic_operation option" where
  "decode_atomic_operation function5 =
     (if function5 = 0x01 then Some Swap
      else if function5 = 0x00 then Some Add
      else if function5 = 0x04 then Some Xor
      else if function5 = 0x0C then Some And
      else if function5 = 0x08 then Some Or
      else if function5 = 0x10 then Some MinimumSigned
      else if function5 = 0x14 then Some MaximumSigned
      else if function5 = 0x18 then Some MinimumUnsigned
      else if function5 = 0x1C then Some MaximumUnsigned
      else None)"

definition execute_atomic_operation :: "atomic_operation \<Rightarrow> u64 \<Rightarrow> u64 \<Rightarrow> bool \<Rightarrow> u64" where
  "execute_atomic_operation operation observed operand word_operation =
     (if word_operation then ucast (calculate operation (ucast observed :: u32) (ucast operand))
      else calculate operation observed operand)"

lemma uint_xor_sign:
  "uint (x XOR push_bit (LENGTH('a) - 1) 1) = sint x + 2 ^ (LENGTH('a) - 1)" for x :: "'a :: len word"
proof -
  define k where "k = LENGTH('a) - 1"
  have len: "LENGTH('a) = Suc k" by (simp add: k_def)
  have b: "bit x k \<longleftrightarrow> sint x < 0" by (simp add: k_def bit_last_iff)
  have "uint (word_of_int (2 ^ k) :: 'a word) = 2 ^ k mod 2 ^ Suc k"
    by (simp only: uint_word_of_int len)
  then have p: "uint (2 ^ k :: 'a word) = 2 ^ k" by (simp add: mod_pos_pos_trivial)
  show ?thesis
  proof (cases "bit x k")
    case True
    have "x = (x XOR push_bit k 1) + push_bit k 1"
    proof -
      have "(x XOR push_bit k 1) + push_bit k 1 = (x XOR push_bit k 1) OR push_bit k 1"
        using True len by (intro disjunctive_add_eq_or) (auto intro!: bit_word_eqI simp: bit_simps)
      also have "\<dots> = x" using True by (intro bit_word_eqI) (auto simp: bit_simps)
      finally show ?thesis by simp
    qed
    then have "uint (x XOR push_bit k 1) = uint (x - push_bit k 1)" by (metis add_diff_cancel_right')
    also have "\<dots> = uint x - 2 ^ k"
    proof -
      have "sint x + 2 ^ LENGTH('a) = uint x" using sint_eq_uint [of x] True b by simp
      then have "0 \<le> uint x - 2 ^ k" "uint x - 2 ^ k < 2 ^ LENGTH('a)"
        using sint_ge [of x] uint_ge_0 [of x] unsigned_less [of x, where 'a = int] len by auto
      then show ?thesis by (simp add: uint_word_ariths push_bit_eq_mult len p)
    qed
    finally show ?thesis using sint_eq_uint [of x] True b len by simp
  next
    case False
    have "x XOR push_bit k 1 = x OR push_bit k 1"
      using False by (intro bit_word_eqI) (auto simp: bit_simps)
    also have "\<dots> = x + push_bit k 1"
      using False by (intro disjunctive_add_eq_or [symmetric]) (auto intro!: bit_word_eqI simp: bit_simps)
    finally have "uint (x XOR push_bit k 1) = uint (x + push_bit k 1)" by simp
    also have "\<dots> = uint x + 2 ^ k"
      using False b sint_eq_uint [of x] sint_lt [of x] len
      by (simp add: uint_word_ariths push_bit_eq_mult p)
    finally show ?thesis using sint_eq_uint [of x] False b len by simp
  qed
qed

lemma signed_less_correct: "signed_less x y \<longleftrightarrow> sint x < sint y"
  unfolding signed_less_def Let_def word_less_def uint_xor_sign by simp

text \<open>The sign-flip comparison is the two's-complement order, so the signed atomics return the minimum
  and maximum as integers; the other atomics are the plain word operations, and the word forms work on the low
  32 bits of memory value and operand only.\<close>

theorem execute_atomic_reference:
  "sint (calculate MinimumSigned x y) = min (sint x) (sint y)
   \<and> sint (calculate MaximumSigned x y) = max (sint x) (sint y)
   \<and> uint (calculate MinimumUnsigned x y) = min (uint x) (uint y)
   \<and> uint (calculate MaximumUnsigned x y) = max (uint x) (uint y)
   \<and> calculate Add x y = word_of_int (sint x + sint y)
   \<and> execute_atomic_operation op v w True = execute_atomic_operation op (v AND 0xFFFFFFFF) (w AND 0xFFFFFFFF) True
   \<and> drop_bit 32 (execute_atomic_operation op v w True) = 0"
proof -
  have l: "(ucast (z AND 0xFFFFFFFF) :: u32) = ucast z" for z :: u64
    by (rule bit_word_eqI) (auto simp: bit_simps emu_bits)
  have "drop_bit 32 (execute_atomic_operation op v w True) = 0"
    by (rule bit_word_eqI)
      (auto simp: execute_atomic_operation_def bit_simps dest: bit_imp_le_length)
  then show ?thesis
    by (auto simp: execute_atomic_operation_def l signed_less_correct word_less_def)
qed

end
