(* ===== verification/Cpu.thy ===== *)
theory Cpu
  imports Cpu_State Compressed_Decoder Integer_A
begin

unbundle bit_operations_syntax

text \<open>
  The hart: \<open>core/cpu.hpp\<close>, \<open>core/cpu.cpp\<close> and \<open>core/cpu_floating.cpp\<close>. The hart owns its MMU and its state and
  refers to the bus, so a \<open>cpu\<close> holds all three. An operation returns \<open>None\<close> when the code would throw a host
  exception, dereference an empty optional or loop for ever; otherwise the new hart with the result of the source.
  The host memory fences of the aq and rl bits order no access of the single-threaded model and have no counterpart.
\<close>

record step_result =
  sr_retired :: bool
  sr_stalled :: bool
  sr_instruction_length :: u8
  sr_trap :: "trap option"

definition step_success :: "u8 \<Rightarrow> step_result" where
  "step_success len = \<lparr>sr_retired = True, sr_stalled = False, sr_instruction_length = len, sr_trap = None\<rparr>"

definition step_failure :: "trap \<Rightarrow> u8 \<Rightarrow> step_result" where
  "step_failure t len = \<lparr>sr_retired = False, sr_stalled = False, sr_instruction_length = len, sr_trap = Some t\<rparr>"

definition step_wait :: step_result where
  "step_wait = \<lparr>sr_retired = False, sr_stalled = True, sr_instruction_length = 0, sr_trap = None\<rparr>"

record trap_delivery =
  td_interrupt :: bool
  td_cause :: u64
  td_source :: privilege_mode
  td_target :: privilege_mode
  td_vector :: u64

record cpu =
  hart_bus :: bus
  hart_mmu :: mmu
  hart_state :: cpu_state
  hart_suppress_cycle_increment :: bool
  hart_suppress_instret_increment :: bool

record guest_access_result =
  ga_access :: access_result
  ga_trap :: "trap option"
  ga_token :: u64

datatype fetch_result = Fetched instruction_packet | FetchTrap trap

definition cpu_create :: "bus \<Rightarrow> cpu" where
  "cpu_create b = \<lparr>hart_bus = b, hart_mmu = mmu_create, hart_state = cpu_state_create,
     hart_suppress_cycle_increment = False, hart_suppress_instret_increment = False\<rparr>"

subsection \<open>Helpers\<close>

abbreviation (input) kInterruptFlag :: u64 where "kInterruptFlag \<equiv> bit64 63"

definition make_trap :: "instruction_packet \<Rightarrow> exception_cause \<Rightarrow> u64 \<Rightarrow> trap" where
  "make_trap packet cause v = \<lparr>trap_cause = cause, trap_value = v,
     trap_pc = ip_program_counter packet, trap_instruction = ip_bits packet\<rparr>"

definition cpu_signed_less :: "u64 \<Rightarrow> u64 \<Rightarrow> bool" where
  "cpu_signed_less lhs rhs \<longleftrightarrow> (lhs XOR bit64 63) < (rhs XOR bit64 63)"

definition arithmetic_shift_right64 :: "u64 \<Rightarrow> nat \<Rightarrow> u64" where
  "arithmetic_shift_right64 v amount =
     (if amount = 0 then v
      else let result = drop_bit amount v in
        if v AND bit64 63 \<noteq> 0 then result OR push_bit (64 - amount) (NOT 0) else result)"

definition arithmetic_shift_right32 :: "u32 \<Rightarrow> nat \<Rightarrow> u32" where
  "arithmetic_shift_right32 v amount =
     (if amount = 0 then v
      else let result = drop_bit amount v in
        if v AND push_bit 31 1 \<noteq> 0 then result OR push_bit (32 - amount) (NOT 0) else result)"

definition sign_extend_word :: "u64 \<Rightarrow> u64" where
  "sign_extend_word v = sign_extend (v AND 0xFFFFFFFF) 32"

fun environment_call_cause :: "privilege_mode \<Rightarrow> exception_cause" where
  "environment_call_cause User = EnvironmentCallFromUser"
| "environment_call_cause Supervisor = EnvironmentCallFromSupervisor"
| "environment_call_cause Machine = EnvironmentCallFromMachine"

definition privilege_from_mpp :: "u64 \<Rightarrow> privilege_mode" where
  "privilege_from_mpp mstatus =
     (let mpp = drop_bit 11 mstatus AND 3 in
      if mpp = privilege_rank Supervisor then Supervisor
      else if mpp = privilege_rank Machine then Machine
      else User)"

fun access_fault_cause :: "mmu_access_kind \<Rightarrow> exception_cause" where
  "access_fault_cause MmuInstructionFetch = InstructionAccessFault"
| "access_fault_cause MmuLoad = LoadAccessFault"
| "access_fault_cause MmuStore = StoreAccessFault"
| "access_fault_cause MmuAtomic = StoreAccessFault"

subsection \<open>Accesses by virtual address\<close>

definition fetch_context :: "cpu \<Rightarrow> mmu_context" where
  "fetch_context c = \<lparr>mc_privilege = cs_privilege (hart_state c),
     mc_satp = csr_peek (cs_csrs (hart_state c)) Satp, mc_mstatus = csr_peek (cs_csrs (hart_state c)) Mstatus\<rparr>"

definition data_context :: "cpu \<Rightarrow> mmu_context" where
  "data_context c =
     (let mstatus = csr_peek (cs_csrs (hart_state c)) Mstatus;
          privilege = cs_privilege (hart_state c);
          privilege = (if privilege = Machine \<and> mstatus AND bit64 17 \<noteq> 0
                       then privilege_from_mpp mstatus else privilege)
      in \<lparr>mc_privilege = privilege, mc_satp = csr_peek (cs_csrs (hart_state c)) Satp, mc_mstatus = mstatus\<rparr>)"

definition default_access :: access_result where
  "default_access = \<lparr>ar_error = no_error, ar_value = 0, ar_exchanged = False\<rparr>"

text \<open>
  The five accessors share their first half: translate and turn a fault into a trap. The continuation receives the
  physical address; reading it from an empty optional would be undefined.
\<close>

definition guest_translate ::
    "instruction_packet \<Rightarrow> u64 \<Rightarrow> access_width \<Rightarrow> mmu_access_kind \<Rightarrow> mmu_context \<Rightarrow> cpu
     \<Rightarrow> (cpu \<times> (trap + u64)) option" where
  "guest_translate packet va w kind ctx c =
     (let (m, b, translated) = translate va w kind ctx (hart_mmu c) (hart_bus c);
          c' = c\<lparr>hart_mmu := m, hart_bus := b\<rparr>
      in case tr_fault translated of
           Some fault \<Rightarrow> Some (c', Inl \<lparr>trap_cause = mf_cause fault, trap_value = mf_value fault,
               trap_pc = ip_program_counter packet, trap_instruction = ip_bits packet\<rparr>)
         | None \<Rightarrow> do {
             pa \<leftarrow> tr_physical_address translated;
             Some (c', Inr pa)
           })"

definition guest_fault :: "trap \<Rightarrow> guest_access_result" where
  "guest_fault t = \<lparr>ga_access = default_access, ga_trap = Some t, ga_token = 0\<rparr>"

definition guest_done ::
    "instruction_packet \<Rightarrow> exception_cause \<Rightarrow> u64 \<Rightarrow> access_result \<Rightarrow> u64 \<Rightarrow> guest_access_result" where
  "guest_done packet cause va access token =
     (if ar_ok access then \<lparr>ga_access = access, ga_trap = None, ga_token = token\<rparr>
      else \<lparr>ga_access = access, ga_trap = Some (make_trap packet cause va), ga_token = 0\<rparr>)"

definition guest_read ::
    "instruction_packet \<Rightarrow> u64 \<Rightarrow> access_width \<Rightarrow> mmu_access_kind \<Rightarrow> access_type \<Rightarrow> cpu
     \<Rightarrow> (cpu \<times> guest_access_result) option" where
  "guest_read packet va w kind t c = do {
     (c, translated) \<leftarrow> guest_translate packet va w kind
       (if kind = MmuInstructionFetch then fetch_context c else data_context c) c;
     case translated of
       Inl fault \<Rightarrow> Some (c, guest_fault fault)
     | Inr pa \<Rightarrow>
         let (b, loaded) = bus_read (hart_bus c) pa w t
         in Some (c\<lparr>hart_bus := b\<rparr>, guest_done packet (access_fault_cause kind) va loaded 0)
   }"

definition guest_write ::
    "instruction_packet \<Rightarrow> u64 \<Rightarrow> access_width \<Rightarrow> u64 \<Rightarrow> access_type \<Rightarrow> cpu
     \<Rightarrow> (cpu \<times> guest_access_result) option" where
  "guest_write packet va w v t c = do {
     (c, translated) \<leftarrow> guest_translate packet va w MmuAtomic (data_context c) c;
     case translated of
       Inl fault \<Rightarrow> Some (c, guest_fault fault)
     | Inr pa \<Rightarrow>
         let (b, stored) = bus_write (hart_bus c) pa w v t
         in Some (c\<lparr>hart_bus := b\<rparr>, guest_done packet StoreAccessFault va stored 0)
   }"

definition guest_load_reserved ::
    "instruction_packet \<Rightarrow> u64 \<Rightarrow> access_width \<Rightarrow> cpu \<Rightarrow> (cpu \<times> guest_access_result) option" where
  "guest_load_reserved packet va w c = do {
     (c, translated) \<leftarrow> guest_translate packet va w MmuLoad (data_context c) c;
     case translated of
       Inl fault \<Rightarrow> Some (c, guest_fault fault)
     | Inr pa \<Rightarrow>
         let (b, loaded) = load_reserved (hart_bus c) pa w
         in Some (c\<lparr>hart_bus := b\<rparr>, guest_done packet LoadAccessFault va (lr_access loaded) (lr_token loaded))
   }"

definition guest_store_conditional ::
    "instruction_packet \<Rightarrow> u64 \<Rightarrow> u64 \<Rightarrow> access_width \<Rightarrow> u64 \<Rightarrow> cpu \<Rightarrow> (cpu \<times> guest_access_result) option" where
  "guest_store_conditional packet token va w v c = do {
     (c, translated) \<leftarrow> guest_translate packet va w MmuStore (data_context c) c;
     case translated of
       Inl fault \<Rightarrow> Some (c, guest_fault fault)
     | Inr pa \<Rightarrow>
         let (b, stored) = store_conditional (hart_bus c) token pa w v
         in Some (c\<lparr>hart_bus := b\<rparr>, guest_done packet StoreAccessFault va stored 0)
   }"

definition guest_compare_exchange ::
    "instruction_packet \<Rightarrow> u64 \<Rightarrow> access_width \<Rightarrow> u64 \<Rightarrow> u64 \<Rightarrow> cpu \<Rightarrow> (cpu \<times> guest_access_result) option" where
  "guest_compare_exchange packet va w expected desired c = do {
     (c, translated) \<leftarrow> guest_translate packet va w MmuStore (data_context c) c;
     case translated of
       Inl fault \<Rightarrow> Some (c, guest_fault fault)
     | Inr pa \<Rightarrow>
         let (b, exchanged) = bus_compare_exchange (hart_bus c) pa w expected desired Atomic
         in Some (c\<lparr>hart_bus := b\<rparr>, guest_done packet StoreAccessFault va exchanged 0)
   }"

subsection \<open>Fetch\<close>

definition fetch :: "cpu \<Rightarrow> (cpu \<times> fetch_result) option" where
  "fetch c =
     (let pc = cs_program_counter (hart_state c) in
      if pc AND 1 \<noteq> 0 then
        Some (c, FetchTrap \<lparr>trap_cause = InstructionAddressMisaligned, trap_value = pc, trap_pc = pc,
          trap_instruction = 0\<rparr>)
      else do {
        let fetch_packet = \<lparr>ip_program_counter = pc, ip_bits = 0, ip_length = 0\<rparr>;
        (c, lower_result) \<leftarrow> guest_read fetch_packet pc HalfWord MmuInstructionFetch InstructionFetch c;
        case ga_trap lower_result of
          Some t \<Rightarrow> Some (c, FetchTrap t)
        | None \<Rightarrow>
            let lower = (ucast (ar_value (ga_access lower_result) AND 0xFFFF) :: u16) in
            if lower AND 3 \<noteq> 3
            then Some (c, Fetched \<lparr>ip_program_counter = pc, ip_bits = ucast lower, ip_length = 2\<rparr>)
            else if NOT 0 - 2 < pc
            then Some (c, FetchTrap \<lparr>trap_cause = InstructionAccessFault, trap_value = pc, trap_pc = pc,
                   trap_instruction = ucast lower\<rparr>)
            else do {
              (c, upper_result) \<leftarrow> guest_read fetch_packet (pc + 2) HalfWord MmuInstructionFetch InstructionFetch c;
              case ga_trap upper_result of
                Some t \<Rightarrow> Some (c, FetchTrap (t\<lparr>trap_instruction := ucast lower\<rparr>))
              | None \<Rightarrow>
                  let upper = (ucast (ar_value (ga_access upper_result) AND 0xFFFF) :: u32) in
                  Some (c, Fetched \<lparr>ip_program_counter = pc, ip_bits = ucast lower OR push_bit 16 upper,
                    ip_length = 4\<rparr>)
            }
      })"

subsection \<open>Ending an instruction\<close>

definition illegal :: "instruction_packet \<Rightarrow> step_result" where
  "illegal packet =
     step_failure (make_trap packet IllegalInstruction (ucast (ip_bits packet))) (ip_length packet)"

definition set_program_counter :: "u64 \<Rightarrow> cpu \<Rightarrow> cpu" where
  "set_program_counter v c = c\<lparr>hart_state := (hart_state c)\<lparr>cs_program_counter := v\<rparr>\<rparr>"

definition update_csrs :: "(csr_file \<Rightarrow> csr_file) \<Rightarrow> cpu \<Rightarrow> cpu" where
  "update_csrs f c = c\<lparr>hart_state := (hart_state c)\<lparr>cs_csrs := f (cs_csrs (hart_state c))\<rparr>\<rparr>"

definition retire :: "instruction_packet \<Rightarrow> u64 \<Rightarrow> cpu \<Rightarrow> (cpu \<times> step_result) option" where
  "retire packet next_pc c = Some (set_program_counter next_pc c, step_success (ip_length packet))"

definition write_and_retire ::
    "instruction_packet \<Rightarrow> u8 \<Rightarrow> u64 \<Rightarrow> u64 \<Rightarrow> cpu \<Rightarrow> (cpu \<times> step_result) option" where
  "write_and_retire packet destination v next_pc c = do {
     s \<leftarrow> set_integer (hart_state c) (unat destination) v;
     retire packet next_pc (c\<lparr>hart_state := s\<rparr>)
   }"

end
