(* ===== verification/Cpu_Floating.thy ===== *)
theory Cpu_Floating
  imports Cpu
begin

unbundle bit_operations_syntax

text \<open>
  The F and D instructions: \<open>core/cpu_floating.cpp\<close>. The numerical work is done by the software floating-point core;
  this file decodes, reads and boxes operands, commits results and accrues exception flags. The sequence of guarded
  blocks of \<open>execute_floating\<close> is split into one definition per block.
\<close>

definition decode_format :: "u8 \<Rightarrow> floating_format option" where
  "decode_format encoded = (if encoded = 0 then Some Single else if encoded = 1 then Some Double else None)"

definition read_computational_operand :: "cpu_state \<Rightarrow> floating_format \<Rightarrow> u8 \<Rightarrow> u64 option" where
  "read_computational_operand s fmt index =
     (if fmt = Single then do { v \<leftarrow> floating_single s (unat index); Some (ucast v) }
      else floating s (unat index))"

definition write_floating_result ::
    "cpu_state \<Rightarrow> floating_format \<Rightarrow> u8 \<Rightarrow> floating_result \<Rightarrow> cpu_state option" where
  "write_floating_result s fmt destination result = do {
     s \<leftarrow> (if fmt = Single then set_floating_single s (unat destination) (ucast (fr_bits result))
          else set_floating s (unat destination) (fr_bits result));
     Some (s\<lparr>cs_csrs := accrue_floating_exception_flags (cs_csrs s) (fr_flags result)\<rparr>)
   }"

definition resolve_rounding :: "cpu \<Rightarrow> decoded_instruction \<Rightarrow> floating_rounding_mode option" where
  "resolve_rounding c instruction = resolve_floating_rounding_mode (di_function3 instruction)
     (csr_floating_rounding_mode (cs_csrs (hart_state c)))"

text \<open>Commit a floating-point result to a floating-point register and retire.\<close>

definition finish_floating ::
    "instruction_packet \<Rightarrow> floating_format \<Rightarrow> u8 \<Rightarrow> floating_result \<Rightarrow> u64 \<Rightarrow> cpu \<Rightarrow> (cpu \<times> step_result) option" where
  "finish_floating packet fmt destination result sequential_pc c = do {
     s \<leftarrow> write_floating_result (hart_state c) fmt destination result;
     retire packet sequential_pc (c\<lparr>hart_state := s\<rparr>)
   }"

text \<open>Commit an integer result with its exception flags and retire.\<close>

definition finish_integer ::
    "instruction_packet \<Rightarrow> u8 \<Rightarrow> u64 \<Rightarrow> u8 \<Rightarrow> u64 \<Rightarrow> cpu \<Rightarrow> (cpu \<times> step_result) option" where
  "finish_integer packet destination v flags sequential_pc c = do {
     s \<leftarrow> set_integer (hart_state c) (unat destination) v;
     retire packet sequential_pc
       (update_csrs (\<lambda>csrs. accrue_floating_exception_flags csrs flags) (c\<lparr>hart_state := s\<rparr>))
   }"

definition execute_floating_load ::
    "instruction_packet \<Rightarrow> decoded_instruction \<Rightarrow> u64 \<Rightarrow> cpu \<Rightarrow> (cpu \<times> step_result) option" where
  "execute_floating_load packet instruction sequential_pc c =
     (if di_function3 instruction \<noteq> 2 \<and> di_function3 instruction \<noteq> 3 then Some (c, illegal packet)
      else do {
        let w = (if di_function3 instruction = 2 then Word32 else DoubleWord);
        let fmt = (if di_function3 instruction = 2 then Single else Double);
        base \<leftarrow> integer (hart_state c) (unat (di_source1 instruction));
        (c, loaded) \<leftarrow> guest_read packet (base + immediate_i (ip_bits packet)) w MmuLoad Load c;
        case ga_trap loaded of
          Some t \<Rightarrow> Some (c, step_failure t (ip_length packet))
        | None \<Rightarrow> do {
            s \<leftarrow> (if fmt = Single
                 then set_floating_single (hart_state c) (unat (di_destination instruction))
                        (ucast (ar_value (ga_access loaded)))
                 else set_floating (hart_state c) (unat (di_destination instruction)) (ar_value (ga_access loaded)));
            retire packet sequential_pc (c\<lparr>hart_state := s\<rparr>)
          }
      })"

definition execute_floating_store ::
    "instruction_packet \<Rightarrow> decoded_instruction \<Rightarrow> u64 \<Rightarrow> cpu \<Rightarrow> (cpu \<times> step_result) option" where
  "execute_floating_store packet instruction sequential_pc c =
     (if di_function3 instruction \<noteq> 2 \<and> di_function3 instruction \<noteq> 3 then Some (c, illegal packet)
      else do {
        let w = (if di_function3 instruction = 2 then Word32 else DoubleWord);
        base \<leftarrow> integer (hart_state c) (unat (di_source1 instruction));
        v \<leftarrow> floating (hart_state c) (unat (di_source2 instruction));
        (c, stored) \<leftarrow> guest_write packet (base + immediate_s (ip_bits packet)) w v Store c;
        case ga_trap stored of
          Some t \<Rightarrow> Some (c, step_failure t (ip_length packet))
        | None \<Rightarrow> retire packet sequential_pc c
      })"

definition execute_fused ::
    "instruction_packet \<Rightarrow> decoded_instruction \<Rightarrow> u64 \<Rightarrow> cpu \<Rightarrow> (cpu \<times> step_result) option" where
  "execute_fused packet instruction sequential_pc c =
     (case (decode_format (ucast (drop_bit 25 (ip_bits packet) AND 3)), resolve_rounding c instruction) of
        (Some fmt, Some rounding) \<Rightarrow> do {
          let source3 = (ucast (drop_bit 27 (ip_bits packet) AND 0x1F) :: u8);
          let negate_product = (di_opcode instruction = 0x4B \<or> di_opcode instruction = 0x4F);
          let negate_addend = (di_opcode instruction = 0x47 \<or> di_opcode instruction = 0x4F);
          a \<leftarrow> read_computational_operand (hart_state c) fmt (di_source1 instruction);
          b \<leftarrow> read_computational_operand (hart_state c) fmt (di_source2 instruction);
          d \<leftarrow> read_computational_operand (hart_state c) fmt source3;
          finish_floating packet fmt (di_destination instruction)
            (floating_fused_multiply_add fmt a b d negate_product negate_addend rounding) sequential_pc c
        }
      | _ \<Rightarrow> Some (c, illegal packet))"

definition execute_floating_binary ::
    "instruction_packet \<Rightarrow> decoded_instruction \<Rightarrow> u8 \<Rightarrow> floating_format \<Rightarrow> u64 \<Rightarrow> cpu \<Rightarrow> (cpu \<times> step_result) option" where
  "execute_floating_binary packet instruction function5 fmt sequential_pc c =
     (case resolve_rounding c instruction of
        None \<Rightarrow> Some (c, illegal packet)
      | Some rounding \<Rightarrow> do {
          lhs \<leftarrow> read_computational_operand (hart_state c) fmt (di_source1 instruction);
          rhs \<leftarrow> read_computational_operand (hart_state c) fmt (di_source2 instruction);
          finish_floating packet fmt (di_destination instruction)
            (if function5 = 0 then floating_add fmt lhs rhs rounding
             else if function5 = 1 then floating_subtract fmt lhs rhs rounding
             else if function5 = 2 then floating_multiply fmt lhs rhs rounding
             else floating_divide fmt lhs rhs rounding) sequential_pc c
        })"

definition execute_floating_sqrt ::
    "instruction_packet \<Rightarrow> decoded_instruction \<Rightarrow> floating_format \<Rightarrow> u64 \<Rightarrow> cpu \<Rightarrow> (cpu \<times> step_result) option" where
  "execute_floating_sqrt packet instruction fmt sequential_pc c =
     (case resolve_rounding c instruction of
        None \<Rightarrow> Some (c, illegal packet)
      | Some rounding \<Rightarrow>
          if di_source2 instruction \<noteq> 0 then Some (c, illegal packet)
          else do {
            operand \<leftarrow> read_computational_operand (hart_state c) fmt (di_source1 instruction);
            finish_floating packet fmt (di_destination instruction)
              (floating_square_root fmt operand rounding) sequential_pc c
          })"

definition execute_floating_sign ::
    "instruction_packet \<Rightarrow> decoded_instruction \<Rightarrow> floating_format \<Rightarrow> u64 \<Rightarrow> cpu \<Rightarrow> (cpu \<times> step_result) option" where
  "execute_floating_sign packet instruction fmt sequential_pc c =
     (if 2 < di_function3 instruction then Some (c, illegal packet)
      else do {
        magnitude \<leftarrow> read_computational_operand (hart_state c) fmt (di_source1 instruction);
        sign_source \<leftarrow> read_computational_operand (hart_state c) fmt (di_source2 instruction);
        finish_floating packet fmt (di_destination instruction)
          \<lparr>fr_bits = floating_sign_inject fmt magnitude sign_source (di_function3 instruction), fr_flags = 0\<rparr>
          sequential_pc c
      })"

definition execute_floating_min_max ::
    "instruction_packet \<Rightarrow> decoded_instruction \<Rightarrow> floating_format \<Rightarrow> u64 \<Rightarrow> cpu \<Rightarrow> (cpu \<times> step_result) option" where
  "execute_floating_min_max packet instruction fmt sequential_pc c =
     (if 1 < di_function3 instruction then Some (c, illegal packet)
      else do {
        lhs \<leftarrow> read_computational_operand (hart_state c) fmt (di_source1 instruction);
        rhs \<leftarrow> read_computational_operand (hart_state c) fmt (di_source2 instruction);
        finish_floating packet fmt (di_destination instruction)
          (floating_minimum_maximum fmt lhs rhs (di_function3 instruction = 1)) sequential_pc c
      })"

definition execute_floating_compare ::
    "instruction_packet \<Rightarrow> decoded_instruction \<Rightarrow> floating_format \<Rightarrow> u64 \<Rightarrow> cpu \<Rightarrow> (cpu \<times> step_result) option" where
  "execute_floating_compare packet instruction fmt sequential_pc c =
     (case (if di_function3 instruction = 0 then Some FLessThanOrEqual
            else if di_function3 instruction = 1 then Some FLessThan
            else if di_function3 instruction = 2 then Some FEqual else None) of
        None \<Rightarrow> Some (c, illegal packet)
      | Some comparison \<Rightarrow> do {
          lhs \<leftarrow> read_computational_operand (hart_state c) fmt (di_source1 instruction);
          rhs \<leftarrow> read_computational_operand (hart_state c) fmt (di_source2 instruction);
          let result = floating_compare fmt lhs rhs comparison;
          finish_integer packet (di_destination instruction) (if fcr_value result then 1 else 0)
            (fcr_flags result) sequential_pc c
        })"

definition execute_floating_to_integer ::
    "instruction_packet \<Rightarrow> decoded_instruction \<Rightarrow> floating_format \<Rightarrow> u64 \<Rightarrow> cpu \<Rightarrow> (cpu \<times> step_result) option" where
  "execute_floating_to_integer packet instruction fmt sequential_pc c =
     (case resolve_rounding c instruction of
        None \<Rightarrow> Some (c, illegal packet)
      | Some rounding \<Rightarrow>
          if 3 < di_source2 instruction then Some (c, illegal packet)
          else do {
            let integer_width = (if di_source2 instruction < 2 then 32 else 64);
            operand \<leftarrow> read_computational_operand (hart_state c) fmt (di_source1 instruction);
            let result = floating_to_integer fmt operand (di_source2 instruction AND 1 \<noteq> 0) integer_width rounding;
            finish_integer packet (di_destination instruction)
              (if integer_width = 32 then sign_extend (fir_value result AND 0xFFFFFFFF) 32 else fir_value result)
              (fir_flags result) sequential_pc c
          })"

definition execute_floating_from_integer ::
    "instruction_packet \<Rightarrow> decoded_instruction \<Rightarrow> floating_format \<Rightarrow> u64 \<Rightarrow> cpu \<Rightarrow> (cpu \<times> step_result) option" where
  "execute_floating_from_integer packet instruction fmt sequential_pc c =
     (case resolve_rounding c instruction of
        None \<Rightarrow> Some (c, illegal packet)
      | Some rounding \<Rightarrow>
          if 3 < di_source2 instruction then Some (c, illegal packet)
          else do {
            operand \<leftarrow> integer (hart_state c) (unat (di_source1 instruction));
            finish_floating packet fmt (di_destination instruction)
              (floating_from_integer fmt operand (di_source2 instruction AND 1 \<noteq> 0)
                (if di_source2 instruction < 2 then 32 else 64) rounding) sequential_pc c
          })"

definition execute_floating_class_or_move ::
    "instruction_packet \<Rightarrow> decoded_instruction \<Rightarrow> floating_format \<Rightarrow> u64 \<Rightarrow> cpu \<Rightarrow> (cpu \<times> step_result) option" where
  "execute_floating_class_or_move packet instruction fmt sequential_pc c =
     (if di_function3 instruction = 1 then do {
        operand \<leftarrow> read_computational_operand (hart_state c) fmt (di_source1 instruction);
        write_and_retire packet (di_destination instruction) (ucast (floating_classify fmt operand)) sequential_pc c
      }
      else if di_function3 instruction = 0 then do {
        raw \<leftarrow> floating (hart_state c) (unat (di_source1 instruction));
        write_and_retire packet (di_destination instruction)
          (if fmt = Single then sign_extend (raw AND 0xFFFFFFFF) 32 else raw) sequential_pc c
      }
      else Some (c, illegal packet))"

definition execute_floating_move_from_integer ::
    "instruction_packet \<Rightarrow> decoded_instruction \<Rightarrow> floating_format \<Rightarrow> u64 \<Rightarrow> cpu \<Rightarrow> (cpu \<times> step_result) option" where
  "execute_floating_move_from_integer packet instruction fmt sequential_pc c = do {
     v \<leftarrow> integer (hart_state c) (unat (di_source1 instruction));
     s \<leftarrow> (if fmt = Single then set_floating_single (hart_state c) (unat (di_destination instruction)) (ucast v)
          else set_floating (hart_state c) (unat (di_destination instruction)) v);
     retire packet sequential_pc (c\<lparr>hart_state := s\<rparr>)
   }"

definition execute_floating_convert_format ::
    "instruction_packet \<Rightarrow> decoded_instruction \<Rightarrow> u64 \<Rightarrow> cpu \<Rightarrow> (cpu \<times> step_result) option" where
  "execute_floating_convert_format packet instruction sequential_pc c =
     (case resolve_rounding c instruction of
        None \<Rightarrow> Some (c, illegal packet)
      | Some rounding \<Rightarrow> do {
          let destination = (if di_function7 instruction = 0x20 then Single else Double);
          let source = (if destination = Single then Double else Single);
          operand \<leftarrow> read_computational_operand (hart_state c) source (di_source1 instruction);
          finish_floating packet destination (di_destination instruction)
            (floating_convert_format destination source operand rounding) sequential_pc c
        })"

text \<open>The blocks of OP-FP in the order of the source; each guard is tried after the ones above it.\<close>

definition execute_op_fp ::
    "instruction_packet \<Rightarrow> decoded_instruction \<Rightarrow> u64 \<Rightarrow> cpu \<Rightarrow> (cpu \<times> step_result) option" where
  "execute_op_fp packet instruction sequential_pc c =
     (let function5 = drop_bit 2 (di_function7 instruction);
          format_name = decode_format (di_function7 instruction AND 3);
          has = (format_name \<noteq> None);
          fmt = (case format_name of Some f \<Rightarrow> f | None \<Rightarrow> Single)
      in
      if has \<and> function5 \<le> 3 then execute_floating_binary packet instruction function5 fmt sequential_pc c
      else if has \<and> function5 = 0x0B then execute_floating_sqrt packet instruction fmt sequential_pc c
      else if has \<and> function5 = 0x04 then execute_floating_sign packet instruction fmt sequential_pc c
      else if has \<and> function5 = 0x05 then execute_floating_min_max packet instruction fmt sequential_pc c
      else if has \<and> function5 = 0x14 then execute_floating_compare packet instruction fmt sequential_pc c
      else if has \<and> function5 = 0x18 then execute_floating_to_integer packet instruction fmt sequential_pc c
      else if has \<and> function5 = 0x1A then execute_floating_from_integer packet instruction fmt sequential_pc c
      else if has \<and> function5 = 0x1C \<and> di_source2 instruction = 0
        then execute_floating_class_or_move packet instruction fmt sequential_pc c
      else if has \<and> function5 = 0x1E \<and> di_source2 instruction = 0 \<and> di_function3 instruction = 0
        then execute_floating_move_from_integer packet instruction fmt sequential_pc c
      else if (di_function7 instruction = 0x20 \<and> di_source2 instruction = 1)
          \<or> (di_function7 instruction = 0x21 \<and> di_source2 instruction = 0)
        then execute_floating_convert_format packet instruction sequential_pc c
      else Some (c, illegal packet))"

definition execute_floating ::
    "instruction_packet \<Rightarrow> decoded_instruction \<Rightarrow> u64 \<Rightarrow> cpu \<Rightarrow> (cpu \<times> step_result) option" where
  "execute_floating packet instruction sequential_pc c =
     (if \<not> floating_state_enabled (cs_csrs (hart_state c)) then Some (c, illegal packet)
      else if di_opcode instruction = 0x07 then execute_floating_load packet instruction sequential_pc c
      else if di_opcode instruction = 0x27 then execute_floating_store packet instruction sequential_pc c
      else if di_opcode instruction = 0x43 \<or> di_opcode instruction = 0x47 \<or> di_opcode instruction = 0x4B
          \<or> di_opcode instruction = 0x4F
        then execute_fused packet instruction sequential_pc c
      else if di_opcode instruction \<noteq> 0x53 then Some (c, illegal packet)
      else execute_op_fp packet instruction sequential_pc c)"

end
