(* ===== verification/Cpu_Vector.thy ===== *)
theory Cpu_Vector
  imports Cpu
begin

unbundle bit_operations_syntax

text \<open>
  The vector instructions of the hart, in \<open>core/cpu.cpp\<close>: \<open>execute_vector_configuration\<close>, \<open>execute_vector_memory\<close>,
  \<open>execute_vector_integer\<close> and \<open>execute_vector_floating\<close>.

  A loop \<open>for (element = first; element < last; ++element)\<close> whose body may return from the instruction is
  \<open>element_loop\<close> over the list of its indices: the body gives the next hart and, when it returns, the result.
\<close>

type_synonym loop_body = "u64 \<Rightarrow> cpu \<Rightarrow> (cpu \<times> step_result option) option"

primrec element_loop :: "loop_body \<Rightarrow> u64 list \<Rightarrow> cpu \<Rightarrow> (cpu \<times> step_result option) option" where
  "element_loop body [] c = Some (c, None)"
| "element_loop body (i # is) c = do {
     (c, returned) \<leftarrow> body i c;
     case returned of
       Some r \<Rightarrow> Some (c, Some r)
     | None \<Rightarrow> element_loop body is c
   }"

definition element_range :: "u64 \<Rightarrow> u64 \<Rightarrow> u64 list" where
  "element_range first beyond = map of_nat [unat first..<unat beyond]"

text \<open>Store an element, or return an illegal instruction when the group refuses it.\<close>

definition put_element :: "instruction_packet \<Rightarrow> vector_register_group \<Rightarrow> u64 \<Rightarrow> loop_body" where
  "put_element packet g v element c = do {
     written \<leftarrow> set_vector_element (hart_state c) g element v;
     case written of
       None \<Rightarrow> Some (c, Some (illegal packet))
     | Some s \<Rightarrow> Some (c\<lparr>hart_state := s\<rparr>, None)
   }"

text \<open>Whether an element is active: not masked, or its bit of \<open>v0\<close> is set.\<close>

definition element_active :: "bool \<Rightarrow> u64 \<Rightarrow> cpu \<Rightarrow> bool option" where
  "element_active masked element c =
     (if \<not> masked then Some True
      else do {
        mask_bit \<leftarrow> vector_mask_bit (hart_state c) element;
        Some (case mask_bit of None \<Rightarrow> False | Some b \<Rightarrow> b)
      })"

subsection \<open>Configuration\<close>

datatype avl_request = PreserveVectorLength | ApplicationVectorLength u64

definition decode_vset ::
    "instruction_packet \<Rightarrow> decoded_instruction \<Rightarrow> u64 \<Rightarrow> u64 \<Rightarrow> (u64 \<times> avl_request) option" where
  "decode_vset packet instruction source1 source2 =
     (let function7 = (ucast (drop_bit 25 (ip_bits packet) AND 0x7F) :: u8);
          avl = (if di_source1 instruction = 0 \<and> di_destination instruction = 0 then PreserveVectorLength
                 else ApplicationVectorLength (if di_source1 instruction = 0 then NOT 0 else source1))
      in if function7 = 0x40 then Some (source2, avl)
         else if ip_bits packet AND push_bit 31 1 = 0
         then Some (ucast (drop_bit 20 (ip_bits packet) AND 0x7FF), avl)
         else if ip_bits packet AND push_bit 30 3 = push_bit 30 3
         then Some (ucast (drop_bit 20 (ip_bits packet) AND 0x3FF),
                ApplicationVectorLength (ucast (di_source1 instruction)))
         else None)"

definition execute_vector_configuration ::
    "instruction_packet \<Rightarrow> decoded_instruction \<Rightarrow> u64 \<Rightarrow> cpu \<Rightarrow> (cpu \<times> step_result) option" where
  "execute_vector_configuration packet instruction sequential_pc c =
     (let csrs = cs_csrs (hart_state c) in
      if di_function3 instruction \<noteq> 7 \<or> \<not> vector_state_enabled csrs then Some (c, illegal packet)
      else do {
        source1 \<leftarrow> integer (hart_state c) (unat (di_source1 instruction));
        source2 \<leftarrow> integer (hart_state c) (unat (di_source2 instruction));
        case decode_vset packet instruction source1 source2 of
          None \<Rightarrow> Some (c, illegal packet)
        | Some (requested_vtype, avl) \<Rightarrow>
            let configuration = decode_vector_configuration requested_vtype in
            (case avl of
              PreserveVectorLength \<Rightarrow>
                if \<not> can_preserve_vector_length (csr_peek csrs Vtype) requested_vtype then Some (c, illegal packet)
                else retire packet sequential_pc
                  (update_csrs (\<lambda>f. commit_vector_configuration f (vc_vtype configuration) (csr_peek csrs Vl)) c)
            | ApplicationVectorLength requested \<Rightarrow>
                let (vtype, vl) = (if vc_valid configuration
                    then (vc_vtype configuration, select_vector_length requested (vc_vlmax configuration))
                    else (kVtypeVill, 0))
                in write_and_retire packet (di_destination instruction) vl sequential_pc
                     (update_csrs (\<lambda>f. commit_vector_configuration f vtype vl) c))
      })"

subsection \<open>Memory\<close>

text \<open>The byte loops of one element. The second component of a result is the trap of the failing byte.\<close>

primrec load_bytes_loop ::
    "instruction_packet \<Rightarrow> u64 \<Rightarrow> nat \<Rightarrow> cpu \<Rightarrow> (cpu \<times> (trap + u64)) option" where
  "load_bytes_loop packet address 0 c = Some (c, Inr 0)"
| "load_bytes_loop packet address (Suc byte) c = do {
     (c, so_far) \<leftarrow> load_bytes_loop packet address byte c;
     case so_far of
       Inl t \<Rightarrow> Some (c, Inl t)
     | Inr v \<Rightarrow> do {
         (c, loaded) \<leftarrow> guest_read packet (address + of_nat byte) Byte MmuLoad Load c;
         Some (c, case ga_trap loaded of
             Some t \<Rightarrow> Inl t
           | None \<Rightarrow> Inr (v OR push_bit (byte * 8) (ar_value (ga_access loaded) AND 0xFF)))
       }
   }"

primrec store_bytes_loop ::
    "instruction_packet \<Rightarrow> u64 \<Rightarrow> u64 \<Rightarrow> nat \<Rightarrow> cpu \<Rightarrow> (cpu \<times> trap option) option" where
  "store_bytes_loop packet address v 0 c = Some (c, None)"
| "store_bytes_loop packet address v (Suc byte) c = do {
     (c, so_far) \<leftarrow> store_bytes_loop packet address v byte c;
     case so_far of
       Some t \<Rightarrow> Some (c, Some t)
     | None \<Rightarrow> do {
         (c, stored) \<leftarrow> guest_write packet (address + of_nat byte) Byte (drop_bit (byte * 8) v) Store c;
         Some (c, ga_trap stored)
       }
   }"

definition vector_trap :: "instruction_packet \<Rightarrow> trap \<Rightarrow> loop_body" where
  "vector_trap packet t element c =
     Some (update_csrs (\<lambda>f. set_vector_start_for_trap f element) c, Some (step_failure t (ip_length packet)))"

definition vector_memory_element ::
    "instruction_packet \<Rightarrow> vector_memory_operation \<Rightarrow> vector_register_group \<Rightarrow> u64 \<Rightarrow> u64 \<Rightarrow> u64 \<Rightarrow> bool \<Rightarrow> loop_body" where
  "vector_memory_element packet operation g base stride agnostic_value mask_agnostic element c = do {
     active \<leftarrow> element_active (vm_masked operation) element c;
     if \<not> active then
       if vm_load operation \<and> mask_agnostic then put_element packet g agnostic_value element c
       else Some (c, None)
     else do {
       let address = base + element * stride;
       let transfer_bytes = unat (vm_element_width_bits operation div 8);
       if vm_load operation then do {
         (c, loaded) \<leftarrow> load_bytes_loop packet address transfer_bytes c;
         case loaded of
           Inl t \<Rightarrow> vector_trap packet t element c
         | Inr v \<Rightarrow> put_element packet g v element c
       } else do {
         read \<leftarrow> vector_element (hart_state c) g element;
         case read of
           None \<Rightarrow> Some (c, Some (illegal packet))
         | Some v \<Rightarrow> do {
             (c, stored) \<leftarrow> store_bytes_loop packet address v transfer_bytes c;
             case stored of
               Some t \<Rightarrow> vector_trap packet t element c
             | None \<Rightarrow> Some (c, None)
           }
       }
     }
   }"

text \<open>The end of the element instructions: the body, then the tail, then the commit.\<close>

definition vector_body_and_tail ::
    "instruction_packet \<Rightarrow> loop_body \<Rightarrow> bool \<Rightarrow> vector_register_group \<Rightarrow> u64 \<Rightarrow> u64 \<Rightarrow> u64 \<Rightarrow> u64 \<Rightarrow> cpu
     \<Rightarrow> (cpu \<times> step_result option) option" where
  "vector_body_and_tail packet body fill_tail g agnostic_value start vl vlmax c =
     (if \<not> start < vl then Some (c, None)
      else do {
        (c, returned) \<leftarrow> element_loop body (element_range start vl) c;
        case returned of
          Some r \<Rightarrow> Some (c, Some r)
        | None \<Rightarrow>
            if fill_tail then element_loop (put_element packet g agnostic_value) (element_range vl vlmax) c
            else Some (c, None)
      })"

definition vector_commit ::
    "instruction_packet \<Rightarrow> u64 \<Rightarrow> cpu \<times> step_result option \<Rightarrow> (cpu \<times> step_result) option" where
  "vector_commit packet sequential_pc outcome =
     (case outcome of
        (c, Some r) \<Rightarrow> Some (c, r)
      | (c, None) \<Rightarrow> retire packet sequential_pc (update_csrs clear_vector_start_after_instruction c))"

definition execute_vector_memory ::
    "instruction_packet \<Rightarrow> vector_memory_operation \<Rightarrow> u64 \<Rightarrow> cpu \<Rightarrow> (cpu \<times> step_result) option" where
  "execute_vector_memory packet operation sequential_pc c =
     (let csrs = cs_csrs (hart_state c) in
      if \<not> vector_state_enabled csrs then Some (c, illegal packet)
      else do {
        let vtype = csr_peek csrs Vtype;
        let vl = csr_peek csrs Vl;
        let current = decode_vector_configuration vtype;
        derived \<leftarrow> derive_memory_configuration current (ucast (vm_element_width_bits operation));
        case derived of
          None \<Rightarrow> Some (c, illegal packet)
        | Some memory_configuration \<Rightarrow>
            (case vg_create memory_configuration (vm_vector_register operation) of
               None \<Rightarrow> Some (c, illegal packet)
             | Some g \<Rightarrow>
                 if vc_vlmax current < vl
                    \<or> (vm_load operation \<and> vm_masked operation \<and> vm_vector_register operation = 0)
                 then Some (c, illegal packet)
                 else do {
                   base \<leftarrow> integer (hart_state c) (unat (vm_base_register operation));
                   stride \<leftarrow> (if vm_addressing_mode operation = Strided
                              then integer (hart_state c) (unat (vm_stride_register operation))
                              else Some (ucast (vm_element_width_bits operation div 8)));
                   let agnostic_value = (if vm_element_width_bits operation = 64 then NOT 0
                     else push_bit (unat (vm_element_width_bits operation)) 1 - 1);
                   outcome \<leftarrow> vector_body_and_tail packet
                     (vector_memory_element packet operation g base stride agnostic_value (vtype AND bit64 7 \<noteq> 0))
                     (vm_load operation \<and> vtype AND bit64 6 \<noteq> 0) g agnostic_value (vector_start csrs) vl
                     (vc_vlmax current) c;
                   vector_commit packet sequential_pc outcome
                 })
      })"

subsection \<open>Integer arithmetic\<close>

definition vector_integer_element ::
    "instruction_packet \<Rightarrow> vector_integer_instruction \<Rightarrow> vector_register_group \<Rightarrow> vector_register_group
     \<Rightarrow> vector_register_group option \<Rightarrow> nat \<Rightarrow> u64 \<Rightarrow> bool \<Rightarrow> loop_body" where
  "vector_integer_element packet instruction destination source2 source1 sew_bits agnostic mask_agnostic element c = do {
     active \<leftarrow> element_active (vi_masked instruction) element c;
     if \<not> active then
       if mask_agnostic then put_element packet destination agnostic element c else Some (c, None)
     else do {
       lhs \<leftarrow> vector_element (hart_state c) source2 element;
       rhs \<leftarrow> (case vi_form instruction of
           VectorVector \<Rightarrow> do { g \<leftarrow> source1; vector_element (hart_state c) g element }
         | VectorScalar \<Rightarrow> do { v \<leftarrow> integer (hart_state c) (unat (vi_source1 instruction)); Some (Some v) }
         | VectorImmediate \<Rightarrow> Some (Some (sign_extend_vector_immediate (vi_source1 instruction) sew_bits)));
       case (lhs, rhs) of
         (Some l, Some r) \<Rightarrow> put_element packet destination
           (execute_vector_integer_operation (vi_operation instruction) l r sew_bits) element c
       | _ \<Rightarrow> Some (c, Some (illegal packet))
     }
   }"

definition execute_vector_integer ::
    "instruction_packet \<Rightarrow> vector_integer_instruction \<Rightarrow> u64 \<Rightarrow> cpu \<Rightarrow> (cpu \<times> step_result) option" where
  "execute_vector_integer packet instruction sequential_pc c =
     (let csrs = cs_csrs (hart_state c) in
      if \<not> vector_state_enabled csrs then Some (c, illegal packet)
      else
        let vtype = csr_peek csrs Vtype;
            vl = csr_peek csrs Vl;
            configuration = decode_vector_configuration vtype;
            source1 = (if vi_form instruction = VectorVector
              then vg_create configuration (vi_source1 instruction) else None)
        in case (vg_create configuration (vi_destination instruction),
                 vg_create configuration (vi_source2 instruction)) of
             (Some destination, Some source2) \<Rightarrow>
               if (vi_form instruction = VectorVector \<and> source1 = None)
                  \<or> (vi_masked instruction \<and> vi_destination instruction = 0)
                  \<or> vc_vlmax configuration < vl
               then Some (c, illegal packet)
               else do {
                 let agnostic = (if vc_sew_bits configuration = 64 then NOT 0
                   else push_bit (unat (vc_sew_bits configuration)) 1 - 1);
                 outcome \<leftarrow> vector_body_and_tail packet
                   (vector_integer_element packet instruction destination source2 source1
                      (unat (vc_sew_bits configuration)) agnostic (vtype AND bit64 7 \<noteq> 0))
                   (vtype AND bit64 6 \<noteq> 0) destination agnostic (vector_start csrs) vl
                   (vc_vlmax configuration) c;
                 vector_commit packet sequential_pc outcome
               }
           | _ \<Rightarrow> Some (c, illegal packet))"

subsection \<open>Floating-point arithmetic\<close>

text \<open>The flags accumulated by the loop are passed from one element to the next.\<close>

definition vector_floating_element ::
    "instruction_packet \<Rightarrow> vector_floating_instruction \<Rightarrow> vector_register_group \<Rightarrow> vector_register_group
     \<Rightarrow> vector_register_group option \<Rightarrow> floating_format \<Rightarrow> floating_rounding_mode \<Rightarrow> u64 \<Rightarrow> bool \<Rightarrow> u64 \<Rightarrow> cpu \<Rightarrow> u8
     \<Rightarrow> (cpu \<times> u8 \<times> step_result option) option" where
  "vector_floating_element packet instruction destination source2 source1 fmt rounding agnostic mask_agnostic
       element c flags = do {
     active \<leftarrow> element_active (vf_masked instruction) element c;
     if \<not> active then
       if mask_agnostic then do {
         (c, returned) \<leftarrow> put_element packet destination agnostic element c;
         Some (c, flags, returned)
       } else Some (c, flags, None)
     else do {
       lhs \<leftarrow> vector_element (hart_state c) source2 element;
       rhs \<leftarrow> (case vf_form instruction of
           FloatVectorVector \<Rightarrow> do { g \<leftarrow> source1; vector_element (hart_state c) g element }
         | FloatVectorScalar \<Rightarrow> do { v \<leftarrow> floating (hart_state c) (unat (vf_source1 instruction)); Some (Some v) });
       case (lhs, rhs) of
         (Some l, Some r) \<Rightarrow> do {
           let result = execute_vector_floating_operation (vf_operation instruction) fmt l r rounding;
           (c, returned) \<leftarrow> put_element packet destination (fr_bits result) element c;
           Some (c, if returned = None then flags OR fr_flags result else flags, returned)
         }
       | _ \<Rightarrow> Some (c, flags, Some (illegal packet))
     }
   }"

primrec floating_element_loop ::
    "(u64 \<Rightarrow> cpu \<Rightarrow> u8 \<Rightarrow> (cpu \<times> u8 \<times> step_result option) option) \<Rightarrow> u64 list \<Rightarrow> cpu \<Rightarrow> u8
     \<Rightarrow> (cpu \<times> u8 \<times> step_result option) option" where
  "floating_element_loop body [] c flags = Some (c, flags, None)"
| "floating_element_loop body (i # is) c flags = do {
     (c, flags, returned) \<leftarrow> body i c flags;
     case returned of
       Some r \<Rightarrow> Some (c, flags, Some r)
     | None \<Rightarrow> floating_element_loop body is c flags
   }"

definition execute_vector_floating ::
    "instruction_packet \<Rightarrow> vector_floating_instruction \<Rightarrow> u64 \<Rightarrow> cpu \<Rightarrow> (cpu \<times> step_result) option" where
  "execute_vector_floating packet instruction sequential_pc c =
     (let csrs = cs_csrs (hart_state c) in
      if \<not> vector_state_enabled csrs \<or> \<not> floating_state_enabled csrs then Some (c, illegal packet)
      else
        let vtype = csr_peek csrs Vtype;
            vl = csr_peek csrs Vl;
            configuration = decode_vector_configuration vtype;
            source1 = (if vf_form instruction = FloatVectorVector
              then vg_create configuration (vf_source1 instruction) else None)
        in if \<not> vc_valid configuration \<or> (vc_sew_bits configuration \<noteq> 32 \<and> vc_sew_bits configuration \<noteq> 64)
           then Some (c, illegal packet)
           else case (vg_create configuration (vf_destination instruction),
                      vg_create configuration (vf_source2 instruction),
                      resolve_floating_rounding_mode 7 (csr_floating_rounding_mode csrs)) of
             (Some destination, Some source2, Some rounding) \<Rightarrow>
               if (vf_form instruction = FloatVectorVector \<and> source1 = None)
                  \<or> (vf_masked instruction \<and> vf_destination instruction = 0)
                  \<or> vc_vlmax configuration < vl
               then Some (c, illegal packet)
               else do {
                 let agnostic = (if vc_sew_bits configuration = 64 then NOT 0 else 0xFFFFFFFF);
                 let fmt = (if vc_sew_bits configuration = 32 then Single else Double);
                 (c, flags, returned) \<leftarrow> (if \<not> vector_start csrs < vl then Some (c, 0, None)
                   else do {
                     (c, flags, returned) \<leftarrow> floating_element_loop
                       (vector_floating_element packet instruction destination source2 source1 fmt rounding agnostic
                          (vtype AND bit64 7 \<noteq> 0))
                       (element_range (vector_start csrs) vl) c 0;
                     case returned of
                       Some r \<Rightarrow> Some (c, flags, Some r)
                     | None \<Rightarrow>
                         if vtype AND bit64 6 \<noteq> 0 then do {
                           (c, returned) \<leftarrow> element_loop (put_element packet destination agnostic)
                             (element_range vl (vc_vlmax configuration)) c;
                           Some (c, flags, returned)
                         } else Some (c, flags, None)
                   });
                 vector_commit packet sequential_pc
                   (if returned = None then update_csrs (\<lambda>f. accrue_floating_exception_flags f flags) c else c, returned)
               }
           | _ \<Rightarrow> Some (c, illegal packet))"

end
