(* ===== verification/Cpu_Step.thy ===== *)
theory Cpu_Step
  imports Cpu_Floating Cpu_Vector
begin

unbundle bit_operations_syntax

text \<open>
  The dispatch of the hart, in \<open>core/cpu.cpp\<close>: the integer and atomic instructions, SYSTEM, compressed expansion, the
  step and the delivery of traps and interrupts. Each case of the switch in \<open>execute_standard\<close> is a definition.
\<close>

subsection \<open>Control transfer\<close>

definition jump ::
    "instruction_packet \<Rightarrow> u8 \<Rightarrow> u64 \<Rightarrow> u64 \<Rightarrow> cpu \<Rightarrow> (cpu \<times> step_result) option" where
  "jump packet destination link target c =
     (if target AND 1 \<noteq> 0
      then Some (c, step_failure (make_trap packet InstructionAddressMisaligned target) (ip_length packet))
      else write_and_retire packet destination link target c)"

definition execute_jalr ::
    "instruction_packet \<Rightarrow> decoded_instruction \<Rightarrow> u64 \<Rightarrow> u64 \<Rightarrow> cpu \<Rightarrow> (cpu \<times> step_result) option" where
  "execute_jalr packet instruction source1 sequential_pc c =
     (if di_function3 instruction \<noteq> 0 then Some (c, illegal packet)
      else jump packet (di_destination instruction) sequential_pc
             ((source1 + immediate_i (ip_bits packet)) AND NOT 1) c)"

definition branch_taken :: "u8 \<Rightarrow> u64 \<Rightarrow> u64 \<Rightarrow> bool option" where
  "branch_taken function3 source1 source2 =
     (if function3 = 0 then Some (source1 = source2)
      else if function3 = 1 then Some (source1 \<noteq> source2)
      else if function3 = 4 then Some (cpu_signed_less source1 source2)
      else if function3 = 5 then Some (\<not> cpu_signed_less source1 source2)
      else if function3 = 6 then Some (source1 < source2)
      else if function3 = 7 then Some (source2 \<le> source1)
      else None)"

definition execute_branch ::
    "instruction_packet \<Rightarrow> decoded_instruction \<Rightarrow> u64 \<Rightarrow> u64 \<Rightarrow> u64 \<Rightarrow> cpu \<Rightarrow> (cpu \<times> step_result) option" where
  "execute_branch packet instruction source1 source2 sequential_pc c =
     (case branch_taken (di_function3 instruction) source1 source2 of
        None \<Rightarrow> Some (c, illegal packet)
      | Some taken \<Rightarrow>
          if \<not> taken then retire packet sequential_pc c
          else let target = ip_program_counter packet + immediate_b (ip_bits packet) in
            if target AND 1 \<noteq> 0
            then Some (c, step_failure (make_trap packet InstructionAddressMisaligned target) (ip_length packet))
            else retire packet target c)"

subsection \<open>Loads and stores\<close>

text \<open>Width, whether the result is sign-extended, and the width of the extension.\<close>

definition decode_load :: "u8 \<Rightarrow> (access_width \<times> bool \<times> nat) option" where
  "decode_load function3 =
     (if function3 = 0 then Some (Byte, True, 8)
      else if function3 = 1 then Some (HalfWord, True, 16)
      else if function3 = 2 then Some (Word32, True, 32)
      else if function3 = 3 then Some (DoubleWord, True, 64)
      else if function3 = 4 then Some (Byte, False, 8)
      else if function3 = 5 then Some (HalfWord, False, 8)
      else if function3 = 6 then Some (Word32, False, 8)
      else None)"

definition execute_load ::
    "instruction_packet \<Rightarrow> decoded_instruction \<Rightarrow> u64 \<Rightarrow> u64 \<Rightarrow> cpu \<Rightarrow> (cpu \<times> step_result) option" where
  "execute_load packet instruction source1 sequential_pc c =
     (case decode_load (di_function3 instruction) of
        None \<Rightarrow> Some (c, illegal packet)
      | Some (w, sign_result, sign_width) \<Rightarrow> do {
          (c, loaded) \<leftarrow> guest_read packet (source1 + immediate_i (ip_bits packet)) w MmuLoad Load c;
          case ga_trap loaded of
            Some t \<Rightarrow> Some (c, step_failure t (ip_length packet))
          | None \<Rightarrow> write_and_retire packet (di_destination instruction)
              (if sign_result then sign_extend (ar_value (ga_access loaded)) sign_width
               else ar_value (ga_access loaded)) sequential_pc c
        })"

definition decode_store :: "u8 \<Rightarrow> access_width option" where
  "decode_store function3 =
     (if function3 = 0 then Some Byte
      else if function3 = 1 then Some HalfWord
      else if function3 = 2 then Some Word32
      else if function3 = 3 then Some DoubleWord
      else None)"

definition execute_store ::
    "instruction_packet \<Rightarrow> decoded_instruction \<Rightarrow> u64 \<Rightarrow> u64 \<Rightarrow> u64 \<Rightarrow> cpu \<Rightarrow> (cpu \<times> step_result) option" where
  "execute_store packet instruction source1 source2 sequential_pc c =
     (case decode_store (di_function3 instruction) of
        None \<Rightarrow> Some (c, illegal packet)
      | Some w \<Rightarrow> do {
          (c, stored) \<leftarrow> guest_write packet (source1 + immediate_s (ip_bits packet)) w source2 Store c;
          case ga_trap stored of
            Some t \<Rightarrow> Some (c, step_failure t (ip_length packet))
          | None \<Rightarrow> retire packet sequential_pc c
        })"

subsection \<open>Integer arithmetic\<close>

text \<open>The value an arithmetic instruction computes; \<open>None\<close> is an illegal encoding.\<close>

definition alu_immediate :: "u32 \<Rightarrow> u8 \<Rightarrow> u64 \<Rightarrow> u64 option" where
  "alu_immediate bits function3 source1 =
     (let immediate = immediate_i bits;
          function6 = (ucast (drop_bit 26 bits AND 0x3F) :: u8);
          amount = unat (ucast (drop_bit 20 bits AND 0x3F) :: u8)
      in if function3 = 0 then Some (source1 + immediate)
         else if function3 = 2 then Some (if cpu_signed_less source1 immediate then 1 else 0)
         else if function3 = 3 then Some (if source1 < immediate then 1 else 0)
         else if function3 = 4 then Some (source1 XOR immediate)
         else if function3 = 6 then Some (source1 OR immediate)
         else if function3 = 7 then Some (source1 AND immediate)
         else if function3 = 1 then
           if function6 \<noteq> 0 then None else Some (push_bit amount source1)
         else if function3 = 5 then
           if function6 = 0 then Some (drop_bit amount source1)
           else if function6 = 0x10 then Some (arithmetic_shift_right64 source1 amount)
           else None
         else None)"

definition alu_immediate_word :: "u32 \<Rightarrow> u8 \<Rightarrow> u8 \<Rightarrow> u64 \<Rightarrow> u64 option" where
  "alu_immediate_word bits function3 function7 source1 =
     (let source_word = (ucast (source1 AND 0xFFFFFFFF) :: u32);
          amount = unat (ucast (drop_bit 20 bits AND 0x1F) :: u8)
      in map_option (\<lambda>result. sign_extend_word (ucast result))
        (if function3 = 0 then Some (source_word + ucast (immediate_i bits))
         else if function3 = 1 then
           if function7 \<noteq> 0 then None else Some (push_bit amount source_word)
         else if function3 = 5 then
           if function7 = 0 then Some (drop_bit amount source_word)
           else if function7 = 0x20 then Some (arithmetic_shift_right32 source_word amount)
           else None
         else None))"

definition alu_register :: "u8 \<Rightarrow> u8 \<Rightarrow> u64 \<Rightarrow> u64 \<Rightarrow> u64 option" where
  "alu_register function3 function7 source1 source2 =
     (let amount = unat (source2 AND 0x3F) in
      if function7 = 1 then execute_integer_m function3 source1 source2 False
      else if function7 = 0 then
        if function3 = 0 then Some (source1 + source2)
        else if function3 = 1 then Some (push_bit amount source1)
        else if function3 = 2 then Some (if cpu_signed_less source1 source2 then 1 else 0)
        else if function3 = 3 then Some (if source1 < source2 then 1 else 0)
        else if function3 = 4 then Some (source1 XOR source2)
        else if function3 = 5 then Some (drop_bit amount source1)
        else if function3 = 6 then Some (source1 OR source2)
        else if function3 = 7 then Some (source1 AND source2)
        else None
      else if function7 = 0x20 \<and> function3 = 0 then Some (source1 - source2)
      else if function7 = 0x20 \<and> function3 = 5 then Some (arithmetic_shift_right64 source1 amount)
      else None)"

definition alu_register_word :: "u8 \<Rightarrow> u8 \<Rightarrow> u64 \<Rightarrow> u64 \<Rightarrow> u64 option" where
  "alu_register_word function3 function7 source1 source2 =
     (let lhs = (ucast (source1 AND 0xFFFFFFFF) :: u32);
          rhs = (ucast (source2 AND 0xFFFFFFFF) :: u32);
          amount = unat (rhs AND 0x1F)
      in if function7 = 1 then execute_integer_m function3 source1 source2 True
         else map_option (\<lambda>result. sign_extend_word (ucast result))
           (if function7 = 0 \<and> function3 = 0 then Some (lhs + rhs)
            else if function7 = 0x20 \<and> function3 = 0 then Some (lhs - rhs)
            else if function7 = 0 \<and> function3 = 1 then Some (push_bit amount lhs)
            else if function7 = 0 \<and> function3 = 5 then Some (drop_bit amount lhs)
            else if function7 = 0x20 \<and> function3 = 5 then Some (arithmetic_shift_right32 lhs amount)
            else None))"

definition finish_alu ::
    "instruction_packet \<Rightarrow> decoded_instruction \<Rightarrow> u64 option \<Rightarrow> u64 \<Rightarrow> cpu \<Rightarrow> (cpu \<times> step_result) option" where
  "finish_alu packet instruction result sequential_pc c =
     (case result of
        None \<Rightarrow> Some (c, illegal packet)
      | Some v \<Rightarrow> write_and_retire packet (di_destination instruction) v sequential_pc c)"

subsection \<open>Atomic instructions\<close>

definition misaligned_failure :: "instruction_packet \<Rightarrow> exception_cause \<Rightarrow> u64 \<Rightarrow> step_result" where
  "misaligned_failure packet cause address = step_failure (make_trap packet cause address) (ip_length packet)"

definition execute_lr ::
    "instruction_packet \<Rightarrow> decoded_instruction \<Rightarrow> bool \<Rightarrow> access_width \<Rightarrow> u64 \<Rightarrow> u64 \<Rightarrow> cpu
     \<Rightarrow> (cpu \<times> step_result) option" where
  "execute_lr packet instruction word_operation w address sequential_pc c =
     (if di_source2 instruction \<noteq> 0 then Some (c, illegal packet)
      else if address AND (width_in_bytes w - 1) \<noteq> 0
      then Some (c, misaligned_failure packet LoadAddressMisaligned address)
      else do {
        (c, loaded) \<leftarrow> guest_load_reserved packet address w c;
        case ga_trap loaded of
          Some t \<Rightarrow> Some (c, step_failure t (ip_length packet))
        | None \<Rightarrow> write_and_retire packet (di_destination instruction)
            (if word_operation then sign_extend_word (ar_value (ga_access loaded)) else ar_value (ga_access loaded))
            sequential_pc (c\<lparr>hart_state := (hart_state c)\<lparr>cs_reservation_token := ga_token loaded\<rparr>\<rparr>)
      })"

definition execute_sc ::
    "instruction_packet \<Rightarrow> decoded_instruction \<Rightarrow> access_width \<Rightarrow> u64 \<Rightarrow> u64 \<Rightarrow> u64 \<Rightarrow> cpu
     \<Rightarrow> (cpu \<times> step_result) option" where
  "execute_sc packet instruction w address source2 sequential_pc c =
     (let token = cs_reservation_token (hart_state c);
          c = c\<lparr>hart_state := (hart_state c)\<lparr>cs_reservation_token := 0\<rparr>\<rparr>
      in if address AND (width_in_bytes w - 1) \<noteq> 0
         then Some (c, misaligned_failure packet StoreAddressMisaligned address)
         else do {
           (c, stored) \<leftarrow> guest_store_conditional packet token address w source2 c;
           case ga_trap stored of
             Some t \<Rightarrow> Some (c, step_failure t (ip_length packet))
           | None \<Rightarrow> write_and_retire packet (di_destination instruction)
               (if ar_exchanged (ga_access stored) then 0 else 1) sequential_pc c
         })"

text \<open>The compare-exchange loop, which the source does not bound. The result is a trap or the value replaced.\<close>

partial_function (option) atomic_loop ::
    "instruction_packet \<Rightarrow> atomic_operation \<Rightarrow> bool \<Rightarrow> access_width \<Rightarrow> u64 \<Rightarrow> u64 \<Rightarrow> u64 \<Rightarrow> cpu
     \<Rightarrow> (cpu \<times> (trap + u64)) option" where
  "atomic_loop packet operation word_operation w address source2 original c =
     (case guest_compare_exchange packet address w original
             (execute_atomic_operation operation original source2 word_operation) c of
        None \<Rightarrow> None
      | Some (c, exchanged) \<Rightarrow>
          (case ga_trap exchanged of
             Some t \<Rightarrow> Some (c, Inl t)
           | None \<Rightarrow>
               if ar_exchanged (ga_access exchanged) then Some (c, Inr original)
               else atomic_loop packet operation word_operation w address source2
                      (ar_value (ga_access exchanged)) c))"

declare atomic_loop.simps [code]

definition execute_amo ::
    "instruction_packet \<Rightarrow> decoded_instruction \<Rightarrow> atomic_operation \<Rightarrow> bool \<Rightarrow> access_width \<Rightarrow> u64 \<Rightarrow> u64 \<Rightarrow> u64 \<Rightarrow> cpu
     \<Rightarrow> (cpu \<times> step_result) option" where
  "execute_amo packet instruction operation word_operation w address source2 sequential_pc c =
     (if address AND (width_in_bytes w - 1) \<noteq> 0
      then Some (c, misaligned_failure packet StoreAddressMisaligned address)
      else do {
        (c, observed) \<leftarrow> guest_read packet address w MmuAtomic Atomic c;
        case ga_trap observed of
          Some t \<Rightarrow> Some (c, step_failure t (ip_length packet))
        | None \<Rightarrow> do {
            (c, result) \<leftarrow> atomic_loop packet operation word_operation w address source2
              (ar_value (ga_access observed)) c;
            case result of
              Inl t \<Rightarrow> Some (c, step_failure t (ip_length packet))
            | Inr original \<Rightarrow> write_and_retire packet (di_destination instruction)
                (if word_operation then sign_extend_word original else original) sequential_pc c
          }
      })"

definition execute_atomic ::
    "instruction_packet \<Rightarrow> decoded_instruction \<Rightarrow> u64 \<Rightarrow> u64 \<Rightarrow> u64 \<Rightarrow> cpu \<Rightarrow> (cpu \<times> step_result) option" where
  "execute_atomic packet instruction source1 source2 sequential_pc c =
     (let word_operation = (di_function3 instruction = 2);
          w = (if word_operation then Word32 else DoubleWord);
          function5 = (ucast (drop_bit 27 (ip_bits packet) AND 0x1F) :: u8)
      in if \<not> word_operation \<and> di_function3 instruction \<noteq> 3 then Some (c, illegal packet)
         else if function5 = 2 then execute_lr packet instruction word_operation w source1 sequential_pc c
         else if function5 = 3 then execute_sc packet instruction w source1 source2 sequential_pc c
         else case decode_atomic_operation function5 of
                None \<Rightarrow> Some (c, illegal packet)
              | Some operation \<Rightarrow>
                  execute_amo packet instruction operation word_operation w source1 source2 sequential_pc c)"

subsection \<open>SYSTEM\<close>

definition trap_return ::
    "instruction_packet \<Rightarrow> (csr_file \<Rightarrow> csr_file \<times> trap_return_state) \<Rightarrow> cpu \<Rightarrow> (cpu \<times> step_result) option" where
  "trap_return packet f c =
     (let (csrs, returned) = f (cs_csrs (hart_state c))
      in Some (c\<lparr>hart_state := (hart_state c)\<lparr>cs_csrs := csrs, cs_privilege := tr_privilege returned,
                 cs_program_counter := tr_pc returned, cs_waiting_for_interrupt := False\<rparr>\<rparr>,
               step_success (ip_length packet)))"

definition execute_sfence ::
    "instruction_packet \<Rightarrow> decoded_instruction \<Rightarrow> u64 \<Rightarrow> u64 \<Rightarrow> cpu \<Rightarrow> (cpu \<times> step_result) option" where
  "execute_sfence packet instruction source1 sequential_pc c =
     (let privilege = cs_privilege (hart_state c);
          tvm = (csr_peek (cs_csrs (hart_state c)) Mstatus AND bit64 20 \<noteq> 0)
      in if privilege = User \<or> (privilege = Supervisor \<and> tvm) then Some (c, illegal packet)
         else do {
           let virtual_address = (if di_source1 instruction = 0 then None else Some source1);
           asid \<leftarrow> (if di_source2 instruction = 0 then Some None
             else do {
               v \<leftarrow> integer (hart_state c) (unat (di_source2 instruction));
               Some (Some (ucast (v AND 0xFFFF)))
             });
           retire packet sequential_pc (c\<lparr>hart_mmu := sfence_vma (hart_mmu c) virtual_address asid\<rparr>)
         })"

definition execute_privileged ::
    "instruction_packet \<Rightarrow> decoded_instruction \<Rightarrow> u64 \<Rightarrow> u64 \<Rightarrow> cpu \<Rightarrow> (cpu \<times> step_result) option" where
  "execute_privileged packet instruction source1 sequential_pc c =
     (let bits = ip_bits packet; privilege = cs_privilege (hart_state c); csrs = cs_csrs (hart_state c) in
      if bits AND 0xFE00707F = 0x12000073 then execute_sfence packet instruction source1 sequential_pc c
      else if bits = 0x00000073
        then Some (c, step_failure (make_trap packet (environment_call_cause privilege) 0) (ip_length packet))
      else if bits = 0x00100073 then Some (c, step_failure (make_trap packet Breakpoint 0) (ip_length packet))
      else if bits = 0x30200073 then
        if privilege \<noteq> Machine then Some (c, illegal packet) else trap_return packet return_from_machine c
      else if bits = 0x10200073 then
        if \<not> supervisor_return_allowed csrs privilege then Some (c, illegal packet)
        else trap_return packet return_from_supervisor c
      else if bits = 0x10500073 then
        if \<not> wait_for_interrupt_allowed csrs privilege then Some (c, illegal packet)
        else retire packet sequential_pc
          (c\<lparr>hart_state := (hart_state c)\<lparr>cs_waiting_for_interrupt := True\<rparr>\<rparr>)
      else Some (c, illegal packet))"

text \<open>The operation of a Zicsr instruction and whether its operand is the immediate field.\<close>

definition decode_zicsr :: "u8 \<Rightarrow> (csr_modify_operation \<times> bool) option" where
  "decode_zicsr function3 =
     (if function3 = 1 then Some (Replace, False)
      else if function3 = 2 then Some (SetBits, False)
      else if function3 = 3 then Some (ClearBits, False)
      else if function3 = 5 then Some (Replace, True)
      else if function3 = 6 then Some (SetBits, True)
      else if function3 = 7 then Some (ClearBits, True)
      else None)"

definition execute_zicsr ::
    "instruction_packet \<Rightarrow> decoded_instruction \<Rightarrow> u64 \<Rightarrow> u64 \<Rightarrow> cpu \<Rightarrow> (cpu \<times> step_result) option" where
  "execute_zicsr packet instruction source1 sequential_pc c =
     (case decode_zicsr (di_function3 instruction) of
        None \<Rightarrow> Some (c, illegal packet)
      | Some (operation, immediate) \<Rightarrow>
          let replace = (operation = Replace);
              writes = (replace \<or> di_source1 instruction \<noteq> 0);
              address = (ucast (drop_bit 20 (ip_bits packet) AND 0xFFF) :: csr_address);
              (csrs, accessed) = csr_access (cs_csrs (hart_state c))
                \<lparr>rq_address = address, rq_privilege = cs_privilege (hart_state c),
                 rq_read = (\<not> replace \<or> di_destination instruction \<noteq> 0), rq_write = writes,
                 rq_operation = operation,
                 rq_operand = (if immediate then ucast (di_source1 instruction) else source1)\<rparr>;
              c = c\<lparr>hart_state := (hart_state c)\<lparr>cs_csrs := csrs\<rparr>\<rparr>
          in if \<not> cr_success accessed then Some (c, illegal packet)
             else
               let c = c\<lparr>hart_suppress_cycle_increment :=
                       (hart_suppress_cycle_increment c \<or> (writes \<and> address = Mcycle)),
                     hart_suppress_instret_increment :=
                       (hart_suppress_instret_increment c \<or> (writes \<and> address = Minstret))\<rparr>
               in write_and_retire packet (di_destination instruction) (cr_value accessed) sequential_pc c)"

definition execute_system ::
    "instruction_packet \<Rightarrow> decoded_instruction \<Rightarrow> u64 \<Rightarrow> u64 \<Rightarrow> cpu \<Rightarrow> (cpu \<times> step_result) option" where
  "execute_system packet instruction source1 sequential_pc c =
     (if di_function3 instruction = 0 then execute_privileged packet instruction source1 sequential_pc c
      else execute_zicsr packet instruction source1 sequential_pc c)"

subsection \<open>Dispatch\<close>

definition execute_op_v ::
    "instruction_packet \<Rightarrow> decoded_instruction \<Rightarrow> u64 \<Rightarrow> cpu \<Rightarrow> (cpu \<times> step_result) option" where
  "execute_op_v packet instruction sequential_pc c =
     (case decode_vector_floating_instruction (ip_bits packet) of
        Some vf \<Rightarrow> execute_vector_floating packet vf sequential_pc c
      | None \<Rightarrow>
          (case decode_vector_integer_instruction (ip_bits packet) of
             Some vi \<Rightarrow> execute_vector_integer packet vi sequential_pc c
           | None \<Rightarrow> execute_vector_configuration packet instruction sequential_pc c))"

definition execute_fp_memory ::
    "instruction_packet \<Rightarrow> decoded_instruction \<Rightarrow> u64 \<Rightarrow> cpu \<Rightarrow> (cpu \<times> step_result) option" where
  "execute_fp_memory packet instruction sequential_pc c =
     (case decode_vector_memory_operation (ip_bits packet) (di_opcode instruction = 0x07) of
        Some operation \<Rightarrow> execute_vector_memory packet operation sequential_pc c
      | None \<Rightarrow> execute_floating packet instruction sequential_pc c)"

definition execute_standard :: "instruction_packet \<Rightarrow> cpu \<Rightarrow> (cpu \<times> step_result) option" where
  "execute_standard packet c = do {
     let instruction = decode (ip_bits packet);
     let opcode = di_opcode instruction;
     let rd = di_destination instruction;
     source1 \<leftarrow> integer (hart_state c) (unat (di_source1 instruction));
     source2 \<leftarrow> integer (hart_state c) (unat (di_source2 instruction));
     let pc = ip_program_counter packet;
     let sequential_pc = pc + ucast (ip_length packet);
     let bits = ip_bits packet;
     if opcode = 0x57 then execute_op_v packet instruction sequential_pc c
     else if opcode = 0x37 then write_and_retire packet rd (immediate_u bits) sequential_pc c
     else if opcode = 0x17 then write_and_retire packet rd (pc + immediate_u bits) sequential_pc c
     else if opcode = 0x6F then jump packet rd sequential_pc (pc + immediate_j bits) c
     else if opcode = 0x67 then execute_jalr packet instruction source1 sequential_pc c
     else if opcode = 0x63 then execute_branch packet instruction source1 source2 sequential_pc c
     else if opcode = 0x03 then execute_load packet instruction source1 sequential_pc c
     else if opcode = 0x23 then execute_store packet instruction source1 source2 sequential_pc c
     else if opcode = 0x13 then
       finish_alu packet instruction (alu_immediate bits (di_function3 instruction) source1) sequential_pc c
     else if opcode = 0x1B then finish_alu packet instruction
       (alu_immediate_word bits (di_function3 instruction) (di_function7 instruction) source1) sequential_pc c
     else if opcode = 0x33 then finish_alu packet instruction
       (alu_register (di_function3 instruction) (di_function7 instruction) source1 source2) sequential_pc c
     else if opcode = 0x3B then finish_alu packet instruction
       (alu_register_word (di_function3 instruction) (di_function7 instruction) source1 source2) sequential_pc c
     else if opcode = 0x2F then execute_atomic packet instruction source1 source2 sequential_pc c
     else if opcode = 0x07 \<or> opcode = 0x27 then execute_fp_memory packet instruction sequential_pc c
     else if opcode = 0x43 \<or> opcode = 0x47 \<or> opcode = 0x4B \<or> opcode = 0x4F \<or> opcode = 0x53
       then execute_floating packet instruction sequential_pc c
     else if opcode = 0x0F then
       if di_function3 instruction = 0 then retire packet sequential_pc c
       else if di_function3 instruction = 1 then retire packet sequential_pc c
       else Some (c, illegal packet)
     else if opcode = 0x73 then execute_system packet instruction source1 sequential_pc c
     else Some (c, illegal packet)
   }"

definition execute :: "instruction_packet \<Rightarrow> cpu \<Rightarrow> (cpu \<times> step_result) option" where
  "execute packet c =
     (if packet_compressed packet then
        (case decompress_rv64c (ucast (ip_bits packet)) of
           None \<Rightarrow> Some (c, illegal packet)
         | Some expanded \<Rightarrow> do {
             (c, result) \<leftarrow> execute_standard (packet\<lparr>ip_bits := expanded\<rparr>) c;
             Some (c, result\<lparr>sr_trap := map_option (\<lambda>t. t\<lparr>trap_instruction := ip_bits packet,
               trap_value := (if trap_cause t = IllegalInstruction then ucast (ip_bits packet) else trap_value t)\<rparr>)
               (sr_trap result)\<rparr>)
           })
      else execute_standard packet c)"

subsection \<open>Stepping and trap delivery\<close>

definition step_fetch_execute :: "cpu \<Rightarrow> (cpu \<times> step_result) option" where
  "step_fetch_execute c = do {
     (c, fetched) \<leftarrow> fetch c;
     case fetched of
       FetchTrap t \<Rightarrow> Some (update_csrs increment_cycle c, step_failure t 0)
     | Fetched packet \<Rightarrow> do {
         (c, result) \<leftarrow> execute packet c;
         let c = (if hart_suppress_cycle_increment c then c else update_csrs increment_cycle c);
         let c = (if sr_retired result \<and> \<not> hart_suppress_instret_increment c
                  then update_csrs increment_instret c else c);
         Some (c, result)
       }
   }"

definition step :: "cpu \<Rightarrow> (cpu \<times> step_result) option" where
  "step c =
     (let c = c\<lparr>hart_suppress_cycle_increment := False, hart_suppress_instret_increment := False\<rparr> in
      if cs_waiting_for_interrupt (hart_state c) then
        if \<not> has_locally_enabled_interrupt (cs_csrs (hart_state c))
        then Some (update_csrs increment_cycle c, step_wait)
        else step_fetch_execute (c\<lparr>hart_state := (hart_state c)\<lparr>cs_waiting_for_interrupt := False\<rparr>\<rparr>)
      else step_fetch_execute c)"

definition enter_trap ::
    "privilege_mode \<Rightarrow> bool \<Rightarrow> u64 \<Rightarrow> u64 \<Rightarrow> u64 \<Rightarrow> u64 \<Rightarrow> cpu \<Rightarrow> cpu \<times> trap_delivery" where
  "enter_trap target interrupt cause encoded_cause pc tval c =
     (let s = hart_state c;
          source = cs_privilege s;
          csrs = (if target = Supervisor then enter_supervisor_trap (cs_csrs s) source pc encoded_cause tval
                  else enter_machine_trap (cs_csrs s) source pc encoded_cause tval);
          vec = trap_vector csrs target interrupt cause
      in (c\<lparr>hart_state := s\<lparr>cs_csrs := csrs, cs_privilege := target, cs_program_counter := vec,
             cs_waiting_for_interrupt := False\<rparr>\<rparr>,
          \<lparr>td_interrupt = interrupt, td_cause = cause, td_source = source, td_target = target, td_vector = vec\<rparr>))"

definition take_trap :: "trap \<Rightarrow> cpu \<Rightarrow> cpu \<times> trap_delivery" where
  "take_trap t c =
     (let cause = exception_code (trap_cause t);
          target = (if exception_delegated (cs_csrs (hart_state c)) (cs_privilege (hart_state c)) (trap_cause t)
                    then Supervisor else Machine)
      in enter_trap target False cause cause (trap_pc t) (trap_value t) c)"

definition take_pending_interrupt :: "cpu \<Rightarrow> cpu \<times> trap_delivery option" where
  "take_pending_interrupt c =
     (case select_pending_interrupt (cs_csrs (hart_state c)) (cs_privilege (hart_state c)) of
        None \<Rightarrow> (c, None)
      | Some pending \<Rightarrow>
          let cause = interrupt_code (pi_cause pending);
              (c', d) = enter_trap (pi_target pending) True cause (kInterruptFlag OR cause)
                (cs_program_counter (hart_state c)) 0 c
          in (c', Some d))"

end
