(* ===== verification/Cpu_Invariant.thy ===== *)
theory Cpu_Invariant
  imports Cpu_Step
begin

unbundle bit_operations_syntax

text \<open>
  The invariant of the hart and the relations between the harts before, during and after an instruction that the
  theorems about \<open>step\<close> are built from.
\<close>

subsection \<open>The CSR file of a running hart\<close>

text \<open>
  Besides its own invariant, the CSR file of a running hart has a vector length that fits the vector type, and MPRV is
  never set outside machine mode.
\<close>

definition csr_ok :: "privilege_mode \<Rightarrow> csr_file \<Rightarrow> bool" where
  "csr_ok p c \<longleftrightarrow> csr_wf c \<and> csr_vl c \<le> vc_vlmax (decode_vector_configuration (csr_vtype c))
     \<and> (p \<noteq> Machine \<longrightarrow> \<not> bit (csr_mstatus c) 17)"

definition csr_keeps :: "privilege_mode \<Rightarrow> csr_file \<Rightarrow> csr_file \<Rightarrow> bool" where
  "csr_keeps p c c' \<longleftrightarrow> csr_ok p c' \<and> (p \<noteq> Machine \<longrightarrow> machine_view c' = machine_view c)"

text \<open>What a faulting instruction may change: vstart and the dirty field of the vector context.\<close>

definition csr_frozen :: "csr_file \<Rightarrow> csr_file \<Rightarrow> bool" where
  "csr_frozen c c' \<longleftrightarrow> c'\<lparr>csr_mstatus := csr_mstatus c' AND NOT (two_bits 9), csr_vstart := 0\<rparr>
     = c\<lparr>csr_mstatus := csr_mstatus c AND NOT (two_bits 9), csr_vstart := 0\<rparr>"

lemma machine_view_mprv: "machine_view c' = machine_view c \<Longrightarrow> bit (csr_mstatus c') 17 = bit (csr_mstatus c) 17"
proof -
  assume "machine_view c' = machine_view c"
  then have "csr_mstatus (machine_view c') = csr_mstatus (machine_view c)" by simp
  then have "bit (csr_mstatus c' AND NOT kSstatusWriteMask) 17 = bit (csr_mstatus c AND NOT kSstatusWriteMask) 17"
    by (simp add: machine_view_def)
  then show ?thesis by (simp add: bit_simps emu_bits)
qed

lemma csr_keepsI:
  assumes "csr_ok p c" "csr_wf c'" "csr_vl c' \<le> vc_vlmax (decode_vector_configuration (csr_vtype c'))"
    "p \<noteq> Machine \<Longrightarrow> machine_view c' = machine_view c"
  shows "csr_keeps p c c'"
  using assms machine_view_mprv [of c' c] by (auto simp: csr_keeps_def csr_ok_def)

lemma csr_keeps_refl: "csr_ok p c \<Longrightarrow> csr_keeps p c c"
  by (simp add: csr_keeps_def)

lemma csr_ok_vl: "csr_ok p c \<Longrightarrow> csr_vl c \<le> vc_vlmax (decode_vector_configuration (csr_vtype c))"
  and csr_ok_wf: "csr_ok p c \<Longrightarrow> csr_wf c"
  by (simp_all add: csr_ok_def)

lemma csr_vector_fields [simp]:
  "csr_vl (mark_vector_state_dirty c) = csr_vl c" "csr_vtype (mark_vector_state_dirty c) = csr_vtype c"
  "csr_vl (mark_floating_state_dirty c) = csr_vl c" "csr_vtype (mark_floating_state_dirty c) = csr_vtype c"
  by (simp_all add: mark_vector_state_dirty_def mark_floating_state_dirty_def)

lemma vector_fields_if:
  "csr_vl (if b then x else y) = (if b then csr_vl x else csr_vl y)"
  "csr_vtype (if b then x else y) = (if b then csr_vtype x else csr_vtype y)"
  by simp_all

lemma if_branches_cong: "x = x' \<Longrightarrow> y = y' \<Longrightarrow> (if b then x else y) = (if b then x' else y')"
  by simp

lemma csr_write_value_vl: "csr_vl (csr_write_value c a v) = csr_vl c" "csr_vtype (csr_write_value c a v) = csr_vtype c"
  unfolding csr_write_value_def Let_def unfolding vector_fields_if by (simp_all split del: if_split cong: if_branches_cong)

lemma vector_configuration_commit:
  assumes "vc_valid (decode_vector_configuration t)"
  shows "decode_vector_configuration (vc_vtype (decode_vector_configuration t)) = decode_vector_configuration t"
  using decode_shape(2) [OF assms] by simp

lemma illegal_vlmax: "\<not> vc_valid (decode_vector_configuration t) \<Longrightarrow> vc_vlmax (decode_vector_configuration t) = 0"
  by (auto simp: decode_vector_configuration_def illegal_configuration_def Let_def split: option.splits)

lemma select_vector_length_le: "select_vector_length avl vlmax \<le> vlmax"
  by (auto simp: select_vector_length_def)

lemmas csr_keeps_unfolds = accrue_floating_exception_flags_def set_vector_start_for_trap_def
  clear_vector_start_after_instruction_def commit_vector_configuration_def increment_cycle_def increment_instret_def

lemma machine_view_vector:
  "machine_view (c\<lparr>csr_vl := x\<rparr>) = machine_view c" "machine_view (c\<lparr>csr_vtype := x\<rparr>) = machine_view c"
  by (simp_all add: machine_view_def)

lemma csr_keeps_ops:
  assumes "csr_ok p c"
  shows "csr_keeps p c (mark_floating_state_dirty c)" "csr_keeps p c (mark_vector_state_dirty c)"
    "csr_keeps p c (accrue_floating_exception_flags c f)" "csr_keeps p c (set_vector_start_for_trap c e)"
    "csr_keeps p c (clear_vector_start_after_instruction c)"
    "l \<le> vc_vlmax (decode_vector_configuration t) \<Longrightarrow> csr_keeps p c (commit_vector_configuration c t l)"
  using csr_ok_vl [OF assms]
  by (auto intro!: csr_keepsI [OF assms] csr_wf_mark_floating csr_wf_mark_vector csr_wf_accrue csr_wf_vector_ops
      csr_ok_wf [OF assms])
    (simp_all add: csr_keeps_unfolds Let_def machine_view_mark_dirty machine_view_upd machine_view_vector)

lemma csr_keeps_access:
  assumes "csr_ok (rq_privilege rq) c"
  shows "csr_keeps (rq_privilege rq) c (fst (csr_access c rq))"
proof (rule csr_keepsI [OF assms])
  show "csr_wf (fst (csr_access c rq))" by (intro emu_wf csr_ok_wf [OF assms])
  show "csr_vl (fst (csr_access c rq)) \<le> vc_vlmax (decode_vector_configuration (csr_vtype (fst (csr_access c rq))))"
    using csr_ok_vl [OF assms] by (simp add: csr_access_def Let_def csr_write_value_vl)
  show "machine_view (fst (csr_access c rq)) = machine_view c" if "rq_privilege rq \<noteq> Machine"
  proof (cases "csr_access_allowed c (rq_address rq) (rq_privilege rq) (rq_write rq)")
    case True
    then have "csr_required_level (rq_address rq) \<noteq> 3"
      using access_allowed_level that by (cases "rq_privilege rq") (force simp: word_le_nat_alt)+
    then show ?thesis by (simp add: csr_access_def Let_def machine_view_write)
  qed (simp add: csr_access_def)
qed

lemma csr_frozen_refl: "csr_frozen c c"
  by (simp add: csr_frozen_def)

lemma csr_frozen_trans: "csr_frozen c d \<Longrightarrow> csr_frozen d e \<Longrightarrow> csr_frozen c e"
  by (simp add: csr_frozen_def)

lemma csr_frozen_ops:
  "csr_frozen c (mark_vector_state_dirty c)" "csr_frozen c (set_vector_start_for_trap c e)"
proof -
  have d: "((ms AND NOT (two_bits 9)) OR two_bits 9) AND NOT (two_bits 9) = ms AND NOT (two_bits 9)" for ms
    by (intro bit_word_eqI) (auto simp: bit_simps)
  show "csr_frozen c (mark_vector_state_dirty c)" "csr_frozen c (set_vector_start_for_trap c e)"
    by (simp_all add: csr_frozen_def mark_vector_state_dirty_def set_vector_start_for_trap_def d)
qed

subsection \<open>The invariant\<close>

definition state_wf :: "cpu_state \<Rightarrow> bool" where
  "state_wf s \<longleftrightarrow> length (cs_integer_registers s) = 32 \<and> length (cs_floating_registers s) = 32
     \<and> vs_wf (cs_vector_state s) \<and> csr_ok (cs_privilege s) (cs_csrs s) \<and> \<not> bit (cs_program_counter s) 0"

definition cpu_wf :: "cpu \<Rightarrow> bool" where
  "cpu_wf c \<longleftrightarrow> state_wf (hart_state c) \<and> bus_wf (hart_bus c) \<and> length (mm_tlb (hart_mmu c)) = 64"

text \<open>What relates the hart during an instruction to the hart before it.\<close>

definition ongoing :: "cpu \<Rightarrow> cpu \<Rightarrow> bool" where
  "ongoing c c' \<longleftrightarrow> cpu_wf c' \<and> bus_accessed (hart_bus c) (hart_bus c')
     \<and> privilege_rank (cs_privilege (hart_state c')) \<le> privilege_rank (cs_privilege (hart_state c))
     \<and> (cs_privilege (hart_state c) \<noteq> Machine \<longrightarrow>
          machine_view (cs_csrs (hart_state c')) = machine_view (cs_csrs (hart_state c)))"

definition frozen :: "cpu_state \<Rightarrow> cpu_state \<Rightarrow> bool" where
  "frozen s s' \<longleftrightarrow> cs_integer_registers s' = cs_integer_registers s
     \<and> cs_floating_registers s' = cs_floating_registers s \<and> cs_program_counter s' = cs_program_counter s
     \<and> cs_privilege s' = cs_privilege s \<and> cs_waiting_for_interrupt s' = cs_waiting_for_interrupt s
     \<and> csr_frozen (cs_csrs s) (cs_csrs s')"

definition during :: "cpu \<Rightarrow> cpu \<Rightarrow> bool" where
  "during c c' \<longleftrightarrow> ongoing c c' \<and> frozen (hart_state c) (hart_state c')"

definition trap_ok :: "instruction_packet \<Rightarrow> trap \<Rightarrow> bool" where
  "trap_ok p t \<longleftrightarrow> trap_pc t = ip_program_counter p \<and> trap_instruction t = ip_bits p
     \<and> trap_cause t \<noteq> InstructionAddressMisaligned
     \<and> (trap_cause t = IllegalInstruction \<longrightarrow> trap_value t = ucast (ip_bits p))"

text \<open>An instruction returns; a trap leaves the hart frozen and names the instruction.\<close>

definition instruction_ok :: "instruction_packet \<Rightarrow> cpu \<Rightarrow> (cpu \<times> step_result) option \<Rightarrow> bool" where
  "instruction_ok p c x \<longleftrightarrow> (\<exists>c' r. x = Some (c', r) \<and> ongoing c c' \<and> \<not> sr_stalled r
     \<and> sr_instruction_length r = ip_length p \<and> sr_retired r = (sr_trap r = None)
     \<and> (\<forall>t. sr_trap r = Some t \<longrightarrow> during c c' \<and> trap_ok p t))"

lemma ongoing_refl: "cpu_wf c \<Longrightarrow> ongoing c c"
  by (simp add: ongoing_def)

lemma during_refl: "cpu_wf c \<Longrightarrow> during c c"
  by (simp add: during_def ongoing_refl frozen_def csr_frozen_refl)

lemma duringD: "during c c' \<Longrightarrow> ongoing c c'" "during c c' \<Longrightarrow> cpu_wf c'" "ongoing c c' \<Longrightarrow> cpu_wf c'"
  by (simp_all add: during_def ongoing_def)

lemma duringD_bus: "during c c' \<Longrightarrow> bus_accessed (hart_bus c) (hart_bus c')" "ongoing c c' \<Longrightarrow> bus_accessed (hart_bus c) (hart_bus c')"
  by (simp_all add: during_def ongoing_def)

lemma rank_le_Machine: "privilege_rank p \<le> privilege_rank q \<Longrightarrow> q \<noteq> Machine \<Longrightarrow> p \<noteq> Machine"
  by (cases p; cases q) (simp_all add: word_le_nat_alt)

lemma ongoing_trans: "ongoing c d \<Longrightarrow> ongoing d e \<Longrightarrow> ongoing c e"
  using rank_le_Machine [of "cs_privilege (hart_state d)" "cs_privilege (hart_state c)"]
  by (auto simp: ongoing_def intro: bus_accessed_trans)

lemma frozen_trans: "frozen s t \<Longrightarrow> frozen t u \<Longrightarrow> frozen s u"
  using csr_frozen_trans by (auto simp: frozen_def)

lemma during_trans: "during c d \<Longrightarrow> during d e \<Longrightarrow> during c e"
  unfolding during_def using ongoing_trans frozen_trans by blast

subsection \<open>Steps that leave the state alone\<close>

definition quiet :: "cpu \<Rightarrow> cpu \<Rightarrow> bool" where
  "quiet c c' \<longleftrightarrow> hart_state c' = hart_state c \<and> bus_accessed (hart_bus c) (hart_bus c')
     \<and> length (mm_tlb (hart_mmu c')) = length (mm_tlb (hart_mmu c))"

lemma quiet_during: "quiet d d' \<Longrightarrow> during c d \<Longrightarrow> during c d'"
  by (auto simp: quiet_def during_def ongoing_def cpu_wf_def intro: bus_accessed_trans bus_accessed_wf)

lemma quiet_ongoing: "quiet d d' \<Longrightarrow> ongoing c d \<Longrightarrow> ongoing c d'"
  by (auto simp: quiet_def ongoing_def cpu_wf_def intro: bus_accessed_trans bus_accessed_wf)

definition guest_ok :: "instruction_packet \<Rightarrow> cpu \<Rightarrow> (cpu \<times> guest_access_result) option \<Rightarrow> bool" where
  "guest_ok p c x \<longleftrightarrow> (\<exists>c' g. x = Some (c', g) \<and> quiet c c' \<and> (\<forall>t. ga_trap g = Some t \<longrightarrow> trap_ok p t))"

lemma translate_defined:
  "tr_fault (snd (snd (translate va w kind ctx m b))) = None \<Longrightarrow>
     \<exists>pa. tr_physical_address (snd (snd (translate va w kind ctx m b))) = Some pa"
  "tr_fault (snd (snd (translate va w kind ctx m b))) = Some f \<Longrightarrow> mf_cause f = page_fault_cause kind"
proof -
  obtain m2 b2 r2 where w: "walk_page_table va kind ctx m b = (m2, b2, r2)"
    by (cases "walk_page_table va kind ctx m b")
  show "tr_fault (snd (snd (translate va w kind ctx m b))) = None \<Longrightarrow>
     \<exists>pa. tr_physical_address (snd (snd (translate va w kind ctx m b))) = Some pa"
    "tr_fault (snd (snd (translate va w kind ctx m b))) = Some f \<Longrightarrow> mf_cause f = page_fault_cause kind"
    using walk_outcome [OF w]
    by (auto simp: translate_def lookup_tlb_def translate_loop_eq w walk_faults_def page_fault_def
        split: if_splits option.splits)
qed

lemma page_fault_cause_other:
  "page_fault_cause kind \<noteq> InstructionAddressMisaligned" "page_fault_cause kind \<noteq> IllegalInstruction"
  "access_fault_cause kind \<noteq> InstructionAddressMisaligned" "access_fault_cause kind \<noteq> IllegalInstruction"
  by (cases kind; simp)+

lemma guest_translate_cases:
  obtains (fault) d t where "guest_translate p va w kind ctx c = Some (d, Inl t)" "quiet c d" "trap_ok p t"
  | (address) d pa where "guest_translate p va w kind ctx c = Some (d, Inr pa)" "quiet c d"
      "tr_fault (snd (snd (translate va w kind ctx (hart_mmu c) (hart_bus c)))) = None"
proof -
  obtain m b r where t: "translate va w kind ctx (hart_mmu c) (hart_bus c) = (m, b, r)"
    by (cases "translate va w kind ctx (hart_mmu c) (hart_bus c)")
  have q: "quiet c (c\<lparr>hart_mmu := m, hart_bus := b\<rparr>)"
    using bus_accessed_translate [of "hart_bus c" va w kind ctx "hart_mmu c"]
      mmu_length_translate [of va w kind ctx "hart_mmu c" "hart_bus c"] by (simp add: quiet_def t)
  show thesis
  proof (cases "tr_fault r")
    case (Some f)
    then show thesis using q translate_defined(2) [of va w kind ctx "hart_mmu c" "hart_bus c" f]
      by (intro fault [of _ "\<lparr>trap_cause = mf_cause f, trap_value = mf_value f,
            trap_pc = ip_program_counter p, trap_instruction = ip_bits p\<rparr>"])
        (simp_all add: guest_translate_def t trap_ok_def page_fault_cause_other)
  next
    case None
    then obtain pa where "tr_physical_address r = Some pa"
      using translate_defined(1) [of va w kind ctx "hart_mmu c" "hart_bus c"] by (auto simp: t)
    then show thesis using q None by (intro address) (simp_all add: guest_translate_def t)
  qed
qed

lemma guest_done_trap:
  "cause \<noteq> InstructionAddressMisaligned \<Longrightarrow> cause \<noteq> IllegalInstruction \<Longrightarrow>
     ga_trap (guest_done p cause va a k) = Some t \<Longrightarrow> trap_ok p t"
  by (auto simp: guest_done_def trap_ok_def make_trap_def split: if_splits)

lemma quiet_bus: "quiet c d \<Longrightarrow> bus_accessed (hart_bus d) b \<Longrightarrow> quiet c (d\<lparr>hart_bus := b\<rparr>)"
  by (auto simp: quiet_def intro: bus_accessed_trans)

lemma guest_fault_trap: "ga_trap (guest_fault t) = Some t' \<Longrightarrow> t' = t"
  by (simp add: guest_fault_def)

lemma guest_read_ok: "guest_ok p c (guest_read p va w kind t c)"
  by (cases rule: guest_translate_cases [of p va w kind
        "if kind = MmuInstructionFetch then fetch_context c else data_context c" c])
    (auto simp: guest_ok_def guest_read_def split_beta Let_def dest!: guest_fault_trap
      dest: guest_done_trap [OF page_fault_cause_other(3) page_fault_cause_other(4)] intro: quiet_bus bus_accessed_ops)

lemma guest_write_ok: "guest_ok p c (guest_write p va w v t c)"
  by (cases rule: guest_translate_cases [of p va w MmuAtomic "data_context c" c])
    (auto simp: guest_ok_def guest_write_def split_beta Let_def dest!: guest_fault_trap
      intro: quiet_bus guest_done_trap bus_accessed_ops)

lemma guest_load_reserved_ok: "guest_ok p c (guest_load_reserved p va w c)"
  by (cases rule: guest_translate_cases [of p va w MmuLoad "data_context c" c])
    (auto simp: guest_ok_def guest_load_reserved_def split_beta Let_def dest!: guest_fault_trap
      intro: quiet_bus guest_done_trap bus_accessed_ops)

lemma guest_store_conditional_ok: "guest_ok p c (guest_store_conditional p k va w v c)"
  by (cases rule: guest_translate_cases [of p va w MmuStore "data_context c" c])
    (auto simp: guest_ok_def guest_store_conditional_def split_beta Let_def dest!: guest_fault_trap
      intro: quiet_bus guest_done_trap bus_accessed_ops)

lemma guest_compare_exchange_ok: "guest_ok p c (guest_compare_exchange p va w e n c)"
  by (cases rule: guest_translate_cases [of p va w MmuStore "data_context c" c])
    (auto simp: guest_ok_def guest_compare_exchange_def split_beta Let_def dest!: guest_fault_trap
      intro: quiet_bus guest_done_trap bus_accessed_ops)

end
