(* ===== verification/Cpu_Exec.thy ===== *)
theory Cpu_Exec
  imports Cpu_Invariant
begin

unbundle bit_operations_syntax

text \<open>
  Every instruction keeps the invariant: the rules of the predicate \<open>instruction_ok\<close> and one lemma per instruction
  of the hart.
\<close>

subsection \<open>Rules\<close>

lemma ok_failure: "during c d \<Longrightarrow> trap_ok p t \<Longrightarrow> instruction_ok p c (Some (d, step_failure t (ip_length p)))"
  by (simp add: instruction_ok_def step_failure_def duringD)

lemma trap_ok_make:
  "cause \<noteq> InstructionAddressMisaligned \<Longrightarrow> cause \<noteq> IllegalInstruction \<or> v = ucast (ip_bits p) \<Longrightarrow> trap_ok p (make_trap p cause v)"
  by (auto simp: trap_ok_def make_trap_def)

lemma ok_illegal: "during c d \<Longrightarrow> instruction_ok p c (Some (d, illegal p))"
  unfolding illegal_def by (intro ok_failure trap_ok_make) simp_all

lemma ok_success:
  "ongoing c d \<Longrightarrow> instruction_ok p c (Some (d, step_success (ip_length p)))"
  by (simp add: instruction_ok_def step_success_def)

lemma ongoing_state:
  assumes "ongoing c d" "state_wf s" "cs_privilege s = cs_privilege (hart_state d)"
    "csr_keeps (cs_privilege s) (cs_csrs (hart_state d)) (cs_csrs s)"
  shows "ongoing c (d\<lparr>hart_state := s\<rparr>)"
  using assms rank_le_Machine [of "cs_privilege (hart_state d)" "cs_privilege (hart_state c)"]
  by (auto simp: ongoing_def cpu_wf_def csr_keeps_def)

lemma cpu_wf_state: "ongoing c d \<Longrightarrow> state_wf (hart_state d)"
  by (simp add: ongoing_def cpu_wf_def)

lemma ongoing_csr_ok: "ongoing c d \<Longrightarrow> csr_ok (cs_privilege (hart_state d)) (cs_csrs (hart_state d))"
  by (simp add: ongoing_def cpu_wf_def state_wf_def)

lemma during_state:
  assumes "during c d" "state_wf s" "frozen (hart_state d) s"
    "csr_keeps (cs_privilege s) (cs_csrs (hart_state d)) (cs_csrs s)"
  shows "during c (d\<lparr>hart_state := s\<rparr>)"
  using assms ongoing_state [of c d s] frozen_trans [of "hart_state c" "hart_state d" s]
  by (simp add: during_def frozen_def)

lemma ongoing_pc: "ongoing c d \<Longrightarrow> \<not> bit v 0 \<Longrightarrow> ongoing c (set_program_counter v d)"
  using cpu_wf_state ongoing_csr_ok unfolding set_program_counter_def
  by (intro ongoing_state) (auto simp: state_wf_def csr_keeps_refl)

lemma ongoing_csrs:
  assumes "ongoing c d" "csr_keeps (cs_privilege (hart_state d)) (cs_csrs (hart_state d)) (f (cs_csrs (hart_state d)))"
  shows "ongoing c (update_csrs f d)"
  using cpu_wf_state [OF assms(1)] assms unfolding update_csrs_def
  by (intro ongoing_state) (auto simp: state_wf_def csr_keeps_def)

lemma ok_retire: "ongoing c d \<Longrightarrow> \<not> bit v 0 \<Longrightarrow> instruction_ok p c (retire p v d)"
  unfolding retire_def by (intro ok_success ongoing_pc)

lemma register_reads:
  "n < 32 \<Longrightarrow> integer s n = Some (if n = 0 then 0 else cs_integer_registers s ! n)"
  "n < 32 \<Longrightarrow> floating s n = Some (cs_floating_registers s ! n)"
  by (simp_all add: integer_def floating_def require_register_index_def)

lemma set_integer_eq:
  "n < 32 \<Longrightarrow> set_integer s n v =
     Some (s\<lparr>cs_integer_registers := (if n = 0 then cs_integer_registers s else (cs_integer_registers s)[n := v])\<rparr>)"
  by (simp add: set_integer_def require_register_index_def)

lemma set_floating_eq:
  "n < 32 \<Longrightarrow> set_floating s n v = Some (s\<lparr>cs_floating_registers := (cs_floating_registers s)[n := v],
     cs_csrs := mark_floating_state_dirty (cs_csrs s)\<rparr>)"
  by (simp add: set_floating_def require_register_index_def)

lemma ongoing_set_integer:
  assumes "ongoing c d" "set_integer (hart_state d) n v = Some s"
  shows "ongoing c (d\<lparr>hart_state := s\<rparr>)"
  using cpu_wf_state [OF assms(1)] ongoing_csr_ok [OF assms(1)] assms(2)
  by (intro ongoing_state [OF assms(1)])
    (auto simp: set_integer_def require_register_index_def state_wf_def csr_keeps_refl split: if_splits)

lemma ongoing_set_floating:
  assumes "ongoing c d" "set_floating (hart_state d) n v = Some s"
  shows "ongoing c (d\<lparr>hart_state := s\<rparr>)"
  using cpu_wf_state [OF assms(1)] csr_keeps_ops(1) [OF ongoing_csr_ok [OF assms(1)]] assms(2)
  by (intro ongoing_state [OF assms(1)])
    (auto simp: set_floating_def require_register_index_def state_wf_def csr_keeps_def split: if_splits)

lemma ok_bind_set_integer:
  assumes "ongoing c d" "n < 32" "\<And>s. ongoing c (d\<lparr>hart_state := s\<rparr>) \<Longrightarrow> instruction_ok p c (f s)"
  shows "instruction_ok p c (set_integer (hart_state d) n v \<bind> f)"
proof -
  obtain s where s: "set_integer (hart_state d) n v = Some s" using assms(2) by (simp add: set_integer_eq)
  from assms(3) [OF ongoing_set_integer [OF assms(1) this]] show ?thesis by (simp add: s)
qed

lemma ok_bind_set_floating:
  assumes "ongoing c d" "n < 32" "\<And>s. ongoing c (d\<lparr>hart_state := s\<rparr>) \<Longrightarrow> instruction_ok p c (f s)"
  shows "instruction_ok p c (set_floating (hart_state d) n v \<bind> f)"
proof -
  obtain s where s: "set_floating (hart_state d) n v = Some s" using assms(2) by (simp add: set_floating_eq)
  from assms(3) [OF ongoing_set_floating [OF assms(1) this]] show ?thesis by (simp add: s)
qed

lemma ok_write_and_retire:
  "ongoing c d \<Longrightarrow> unat rd < 32 \<Longrightarrow> \<not> bit v 0 \<Longrightarrow> instruction_ok p c (write_and_retire p rd x v d)"
  unfolding write_and_retire_def by (intro ok_bind_set_integer ok_retire)

lemma ok_guest:
  assumes "guest_ok p d x" "during c d"
    "\<And>d' g. during c d' \<Longrightarrow> ga_trap g = None \<Longrightarrow> instruction_ok p c (f d' g)"
    "\<And>d' g t. ga_trap g = Some t \<Longrightarrow> f d' g = Some (d', step_failure t (ip_length p))"
  shows "instruction_ok p c (x \<bind> (\<lambda>(d', g). f d' g))"
proof -
  obtain d' g where x: "x = Some (d', g)" "quiet d d'" "\<And>t. ga_trap g = Some t \<Longrightarrow> trap_ok p t"
    using assms(1) by (auto simp: guest_ok_def)
  show ?thesis
    using quiet_during [OF x(2) assms(2)] x assms(3) [of d' g] assms(4) [of g _ d']
    by (cases "ga_trap g") (auto simp: quiet_def intro: ok_failure)
qed

definition fields_ok :: "decoded_instruction \<Rightarrow> bool" where
  "fields_ok i \<longleftrightarrow> unat (di_destination i) < 32 \<and> unat (di_source1 i) < 32 \<and> unat (di_source2 i) < 32"

lemma even_target: "target AND 1 \<noteq> 0 \<longleftrightarrow> bit (target :: u64) 0"
  by (simp add: and_one_eq odd_iff_mod_2_eq_one bit_0)

subsection \<open>Integer instructions\<close>

lemma ok_finish_alu:
  "during c d \<Longrightarrow> fields_ok i \<Longrightarrow> \<not> bit v 0 \<Longrightarrow> instruction_ok p c (finish_alu p i x v d)"
  by (auto simp: finish_alu_def fields_ok_def duringD intro!: ok_illegal ok_write_and_retire split: option.split)

lemma ok_jump:
  "during c d \<Longrightarrow> unat rd < 32 \<Longrightarrow> \<not> bit v 0 \<Longrightarrow> instruction_ok p c (jump p rd x v d)"
  by (auto simp: jump_def even_target duringD intro!: ok_write_and_retire)

lemma ok_jalr:
  "during c d \<Longrightarrow> fields_ok i \<Longrightarrow> instruction_ok p c (execute_jalr p i x v d)"
  by (auto simp: execute_jalr_def fields_ok_def bit_simps intro!: ok_jump ok_illegal)

lemma ok_branch:
  assumes "during c d" "\<not> bit v 0" "\<not> bit (ip_program_counter p + immediate_b (ip_bits p)) 0"
  shows "instruction_ok p c (execute_branch p i x y v d)"
  using assms
  by (auto simp: execute_branch_def Let_def even_target duringD intro!: ok_illegal ok_retire split: option.split)

lemma ok_load:
  "during c d \<Longrightarrow> fields_ok i \<Longrightarrow> \<not> bit v 0 \<Longrightarrow> instruction_ok p c (execute_load p i x v d)"
  by (auto simp: execute_load_def fields_ok_def duringD intro!: ok_illegal ok_guest [OF guest_read_ok] ok_write_and_retire
      split: option.split)

lemma ok_store:
  "during c d \<Longrightarrow> \<not> bit v 0 \<Longrightarrow> instruction_ok p c (execute_store p i x y v d)"
  by (auto simp: execute_store_def duringD intro!: ok_illegal ok_guest [OF guest_write_ok] ok_retire
      split: option.split)

subsection \<open>Atomic instructions\<close>

lemma during_token: "during c d \<Longrightarrow> during c (d\<lparr>hart_state := (hart_state d)\<lparr>cs_reservation_token := t\<rparr>\<rparr>)"
  using cpu_wf_state [of c d] ongoing_csr_ok [of c d]
  by (intro during_state) (auto simp: during_def state_wf_def csr_keeps_refl frozen_def csr_frozen_refl)

lemma ok_lr:
  "during c d \<Longrightarrow> fields_ok i \<Longrightarrow> \<not> bit v 0 \<Longrightarrow> instruction_ok p c (execute_lr p i b w a v d)"
  by (auto simp: execute_lr_def fields_ok_def misaligned_failure_def
      intro!: ok_illegal ok_failure trap_ok_make ok_guest [OF guest_load_reserved_ok] ok_write_and_retire
        duringD(1) [OF during_token] split: option.split)

lemma ok_sc:
  "during c d \<Longrightarrow> fields_ok i \<Longrightarrow> \<not> bit v 0 \<Longrightarrow> instruction_ok p c (execute_sc p i w a x v d)"
  unfolding execute_sc_def Let_def
  by (auto simp: fields_ok_def misaligned_failure_def duringD
      intro!: ok_failure trap_ok_make ok_guest [OF guest_store_conditional_ok] ok_write_and_retire during_token
      split: option.split)

text \<open>
  The compare-exchange loop ends after at most two rounds: a lost exchange leaves memory unchanged and reports the
  current value, the next translation yields the same address without touching memory, and the exchange then wins.
\<close>

lemma guest_compare_exchange_cases:
  assumes "bus_wf (hart_bus c)" "mm_tlb (hart_mmu c) \<noteq> []"
  obtains (finished) d g where "guest_compare_exchange p va w e n c = Some (d, g)"
      "ga_trap g \<noteq> None \<or> ar_exchanged (ga_access g)"
  | (lost) d g where "guest_compare_exchange p va w e n c = Some (d, g)" "ga_trap g = None"
      "\<And>n'. \<exists>d' g'. guest_compare_exchange p va w (ar_value (ga_access g)) n' d = Some (d', g')
         \<and> ga_trap g' = None \<and> ar_exchanged (ga_access g')"
proof (cases rule: guest_translate_cases [of p va w MmuStore "data_context c" c])
  case (fault d t)
  then show thesis by (intro finished) (auto simp: guest_compare_exchange_def guest_fault_def)
next
  case (address d pa)
  let ?x = "bus_compare_exchange (hart_bus d) pa w e n Atomic"
  have eq: "guest_compare_exchange p va w e n c
      = Some (d\<lparr>hart_bus := fst ?x\<rparr>, guest_done p StoreAccessFault va (snd ?x) 0)"
    by (simp add: guest_compare_exchange_def address split_beta)
  show thesis
  proof (cases "ar_ok (snd ?x) \<and> \<not> ar_exchanged (snd ?x)")
    case False
    then show thesis by (intro finished [OF eq]) (auto simp: guest_done_def)
  next
    case True
    obtain m b r where t: "translate va w MmuStore (data_context c) (hart_mmu c) (hart_bus c) = (m, b, r)"
      by (cases "translate va w MmuStore (data_context c) (hart_mmu c) (hart_bus c)")
    have r: "tr_fault r = None" using address(3) by (simp add: t)
    have d: "hart_mmu d = m" "hart_bus d = b" "tr_physical_address r = Some pa"
      using address(1) r by (auto simp: guest_translate_def t bind_eq_Some_conv)
    obtain m2 where again: "translate va w MmuStore (data_context c) m b = (m2, b, r)"
      using translate_idempotent [OF assms t r] by blast
    have same: "fst ?x = hart_bus d" using True phys_bus.cas_fail by blast
    have ctx: "data_context d = data_context c"
      using address(2) by (simp add: data_context_def quiet_def)
    have unchanged: "d\<lparr>hart_bus := fst ?x\<rparr> = d" using same by simp
    show thesis
    proof (rule lost [OF eq])
      show "ga_trap (guest_done p StoreAccessFault va (snd ?x) 0) = None" using True by (simp add: guest_done_def)
      fix n'
      let ?y = "bus_compare_exchange b pa w (ar_value (snd ?x)) n' Atomic"
      have won: "ar_exchanged (snd ?y)"
        using phys_bus.cas_second_attempt [of "hart_bus d" pa w e n Atomic n' Atomic] True same d by simp
      have "ar_ok (snd ?y)"
        using True phys_bus.cas_ok_cong d by blast
      with won show "\<exists>d' g'. guest_compare_exchange p va w
            (ar_value (ga_access (guest_done p StoreAccessFault va (snd ?x) 0))) n' (d\<lparr>hart_bus := fst ?x\<rparr>)
          = Some (d', g') \<and> ga_trap g' = None \<and> ar_exchanged (ga_access g')"
        using True unfolding unchanged
        by (simp add: guest_compare_exchange_def guest_translate_def ctx d again r guest_done_def split_beta)
    qed
  qed
qed

lemma atomic_loop_ok:
  assumes "during c d"
  shows "\<exists>d' r. atomic_loop p op b w va y x d = Some (d', r) \<and> during c d' \<and> (\<forall>t. r = Inl t \<longrightarrow> trap_ok p t)"
proof -
  have wf: "bus_wf (hart_bus d)" "mm_tlb (hart_mmu d) \<noteq> []"
    using duringD(2) [OF assms] by (auto simp: cpu_wf_def)
  have ok: "\<exists>e g. guest_compare_exchange p va w x n c' = Some (e, g) \<and> quiet c' e \<and> (\<forall>t. ga_trap g = Some t \<longrightarrow> trap_ok p t)"
    for x n c' using guest_compare_exchange_ok unfolding guest_ok_def by blast
  show ?thesis
  proof (cases rule: guest_compare_exchange_cases [OF wf, of p va w x "execute_atomic_operation op x y b",
        case_names finished lost])
    case (finished d1 g1)
    with ok [of x "execute_atomic_operation op x y b" d] assms show ?thesis
      by (subst atomic_loop.simps) (auto intro: quiet_during split: option.split)
  next
    case (lost d1 g1)
    let ?v = "ar_value (ga_access g1)"
    obtain d2 g2 where r2: "guest_compare_exchange p va w ?v (execute_atomic_operation op ?v y b) d1 = Some (d2, g2)"
        "ga_trap g2 = None" "ar_exchanged (ga_access g2)" using lost(3) by blast
    have d1: "during c d1" using ok [of x "execute_atomic_operation op x y b" d] lost(1) assms
      by (auto intro: quiet_during)
    have d2: "during c d2" using ok [of ?v "execute_atomic_operation op ?v y b" d1] r2(1) d1
      by (auto intro: quiet_during)
    have "atomic_loop p op b w va y ?v d1 = Some (d2, Inr ?v)" by (subst atomic_loop.simps) (simp add: r2)
    with lost d1 d2 show ?thesis by (subst atomic_loop.simps) auto
  qed
qed

lemma ok_amo:
  assumes "during c d" "fields_ok i" "\<not> bit v 0"
  shows "instruction_ok p c (execute_amo p i op b w a y v d)"
proof (cases "a AND (width_in_bytes w - 1) = 0")
  case False
  then show ?thesis
    using assms(1) by (auto simp: execute_amo_def misaligned_failure_def intro!: ok_failure trap_ok_make)
next
  case True
  have eq: "execute_amo p i op b w a y v d = guest_read p a w MmuAtomic Atomic d \<bind> (\<lambda>(d', g). case ga_trap g of
         None \<Rightarrow> atomic_loop p op b w a y (ar_value (ga_access g)) d' \<bind>
           (\<lambda>(e, result). case result of Inl t \<Rightarrow> Some (e, step_failure t (ip_length p))
             | Inr x \<Rightarrow> write_and_retire p (di_destination i) (if b then sign_extend_word x else x) v e)
       | Some t \<Rightarrow> Some (d', step_failure t (ip_length p)))"
    using True by (simp add: execute_amo_def)
  show ?thesis unfolding eq
  proof (intro ok_guest [OF guest_read_ok assms(1)])
    fix d' g assume *: "during c d'" "ga_trap g = None"
    show "instruction_ok p c (case ga_trap g of
         None \<Rightarrow> atomic_loop p op b w a y (ar_value (ga_access g)) d' \<bind>
           (\<lambda>(e, result). case result of Inl t \<Rightarrow> Some (e, step_failure t (ip_length p))
             | Inr x \<Rightarrow> write_and_retire p (di_destination i) (if b then sign_extend_word x else x) v e)
       | Some t \<Rightarrow> Some (d', step_failure t (ip_length p)))"
      using atomic_loop_ok [OF *(1), of p op b w a y "ar_value (ga_access g)"] assms(2,3) *(2)
      by (auto simp: fields_ok_def split: sum.split intro!: ok_failure ok_write_and_retire duringD(1))
  qed simp_all
qed

lemma ok_atomic:
  "during c d \<Longrightarrow> fields_ok i \<Longrightarrow> \<not> bit v 0 \<Longrightarrow> instruction_ok p c (execute_atomic p i x y v d)"
  unfolding execute_atomic_def Let_def
  by (auto intro!: ok_illegal ok_lr ok_sc ok_amo split: option.split)

subsection \<open>SYSTEM\<close>

lemma ok_sfence:
  assumes "during c d" "fields_ok i" "\<not> bit v 0"
  shows "instruction_ok p c (execute_sfence p i x v d)"
proof -
  have q: "quiet d (d\<lparr>hart_mmu := sfence_vma (hart_mmu d) va asid\<rparr>)" for va asid
    by (simp add: quiet_def sfence_vma_def)
  have "instruction_ok p c (retire p v (d\<lparr>hart_mmu := sfence_vma (hart_mmu d) va asid\<rparr>))" for va asid
    using quiet_ongoing [OF q duringD(1) [OF assms(1)]] assms(3) by (rule ok_retire)
  then show ?thesis
    using assms(1,2) by (auto simp: execute_sfence_def Let_def fields_ok_def register_reads intro: ok_illegal)
qed

lemma csr_file_pc_even: "csr_wf f \<Longrightarrow> \<not> bit (csr_mepc f) 0" "csr_wf f \<Longrightarrow> \<not> bit (csr_sepc f) 0"
  by (simp_all add: csr_wf_def)

lemma machine_view_sret:
  assumes "\<not> bit (csr_mstatus f) 17"
  shows "machine_view (fst (return_from_supervisor f)) = machine_view f"
proof -
  have "csr_mstatus (fst (return_from_supervisor f)) AND NOT kSstatusWriteMask = csr_mstatus f AND NOT kSstatusWriteMask"
    using assms by (intro bit_word_eqI) (auto simp: bit_simps emu_bits bit_return_from_supervisor)
  then show ?thesis by (intro machine_view_eqI) (simp_all add: return_from_supervisor_def Let_def)
qed

lemma return_keeps_vector:
  "csr_vl (fst (return_from_machine f)) = csr_vl f" "csr_vtype (fst (return_from_machine f)) = csr_vtype f"
  "csr_vl (fst (return_from_supervisor f)) = csr_vl f" "csr_vtype (fst (return_from_supervisor f)) = csr_vtype f"
  by (simp_all add: return_from_machine_def return_from_supervisor_def Let_def)

lemma ok_mret:
  assumes "during c d" "cs_privilege (hart_state d) = Machine"
  shows "instruction_ok p c (trap_return p return_from_machine d)"
proof -
  let ?f = "cs_csrs (hart_state d)"
  have w: "csr_wf ?f" "csr_vl ?f \<le> vc_vlmax (decode_vector_configuration (csr_vtype ?f))"
    "cpu_wf d" "cs_privilege (hart_state c) = Machine"
    using assms duringD(2) [OF assms(1)] by (auto simp: during_def frozen_def cpu_wf_def state_wf_def csr_ok_def)
  then have "csr_ok (tr_privilege (snd (return_from_machine ?f))) (fst (return_from_machine ?f))"
    by (auto simp: csr_ok_def csr_wf_mret return_keeps_vector bit_return_from_machine return_from_machine_target)
  then show ?thesis
    using w duringD_bus(1) [OF assms(1)] csr_file_pc_even(1) [OF w(1)] unfolding trap_return_def split_beta Let_def
    by (intro ok_success) (simp add: ongoing_def cpu_wf_def state_wf_def return_from_machine_target word_le_nat_alt)
qed

lemma ok_sret:
  assumes "during c d" "supervisor_return_allowed (cs_csrs (hart_state d)) (cs_privilege (hart_state d))"
  shows "instruction_ok p c (trap_return p return_from_supervisor d)"
proof -
  let ?f = "cs_csrs (hart_state d)"
  have w: "csr_wf ?f" "csr_vl ?f \<le> vc_vlmax (decode_vector_configuration (csr_vtype ?f))" "cpu_wf d"
    "cs_privilege (hart_state c) \<noteq> Machine \<longrightarrow> \<not> bit (csr_mstatus ?f) 17 \<and> machine_view ?f = machine_view (cs_csrs (hart_state c))"
    using assms duringD(2) [OF assms(1)]
    by (auto simp: during_def frozen_def cpu_wf_def state_wf_def csr_ok_def ongoing_def)
  have rank: "1 \<le> privilege_rank (cs_privilege (hart_state c))"
    using assms by (cases "cs_privilege (hart_state c)") (auto simp: during_def frozen_def supervisor_return_allowed_def word_le_nat_alt)
  have "csr_ok (tr_privilege (snd (return_from_supervisor ?f))) (fst (return_from_supervisor ?f))"
    using w by (auto simp: csr_ok_def csr_wf_sret return_keeps_vector bit_return_from_supervisor)
  moreover have "privilege_rank (tr_privilege (snd (return_from_supervisor ?f))) \<le> privilege_rank (cs_privilege (hart_state c))"
    using rank by (auto simp: return_from_supervisor_target)
  ultimately show ?thesis
    using w duringD_bus(1) [OF assms(1)] csr_file_pc_even(2) [OF w(1)] unfolding trap_return_def split_beta Let_def
    by (intro ok_success)
      (auto simp: ongoing_def cpu_wf_def state_wf_def return_from_supervisor_target(2) machine_view_sret)
qed

lemma environment_call_cause_other:
  "environment_call_cause p \<noteq> InstructionAddressMisaligned" "environment_call_cause p \<noteq> IllegalInstruction"
  by (cases p; simp)+

lemma ongoing_waiting: "during c d \<Longrightarrow> ongoing c (d\<lparr>hart_state := (hart_state d)\<lparr>cs_waiting_for_interrupt := b\<rparr>\<rparr>)"
  using cpu_wf_state [of c d] ongoing_csr_ok [of c d]
  by (intro ongoing_state) (auto simp: during_def state_wf_def csr_keeps_refl)

lemma ok_privileged:
  "during c d \<Longrightarrow> fields_ok i \<Longrightarrow> \<not> bit v 0 \<Longrightarrow> instruction_ok p c (execute_privileged p i x v d)"
  unfolding execute_privileged_def Let_def
  by (auto simp: environment_call_cause_other intro!: ok_illegal ok_sfence ok_failure trap_ok_make ok_mret ok_sret
      ok_retire ongoing_waiting)

lemma ok_zicsr:
  assumes "during c d" "fields_ok i" "\<not> bit v 0"
  shows "instruction_ok p c (execute_zicsr p i x v d)"
proof (cases "decode_zicsr (di_function3 i)")
  case None
  then show ?thesis using assms(1) by (simp add: execute_zicsr_def ok_illegal)
next
  case (Some oi)
  obtain operation immediate where oi: "oi = (operation, immediate)" by (cases oi)
  define rq where "rq = \<lparr>rq_address = ucast (drop_bit 20 (ip_bits p) AND 0xFFF), rq_privilege = cs_privilege (hart_state d),
     rq_read = (operation \<noteq> Replace \<or> di_destination i \<noteq> 0), rq_write = (operation = Replace \<or> di_source1 i \<noteq> 0),
     rq_operation = operation, rq_operand = (if immediate then ucast (di_source1 i) else x)\<rparr>"
  let ?f = "fst (csr_access (cs_csrs (hart_state d)) rq)"
  have keep: "csr_keeps (cs_privilege (hart_state d)) (cs_csrs (hart_state d)) ?f"
    using csr_keeps_access [of rq "cs_csrs (hart_state d)"] ongoing_csr_ok [OF duringD(1) [OF assms(1)]]
    by (simp add: rq_def)
  have o: "ongoing c (update_csrs (\<lambda>_. ?f) d)" using ongoing_csrs [OF duringD(1) [OF assms(1)], of "\<lambda>_. ?f"] keep by simp
  have o': "ongoing c ((update_csrs (\<lambda>_. ?f) d)\<lparr>hart_suppress_cycle_increment := s1, hart_suppress_instret_increment := s2\<rparr>)" for s1 s2
    using o by (simp add: ongoing_def cpu_wf_def)
  note unfolded = execute_zicsr_def Some oi option.case prod.case Let_def split_beta fst_conv snd_conv rq_def [symmetric]
  show ?thesis
  proof (cases "cr_success (snd (csr_access (cs_csrs (hart_state d)) rq))")
    case False
    have "?f = cs_csrs (hart_state d)" using csr_access_denied [OF False] by simp
    then show ?thesis unfolding unfolded using False assms(1) by (simp add: ok_illegal)
  next
    case True
    then show ?thesis unfolding unfolded
      using ok_write_and_retire [OF o' _ assms(3)] assms(2) by (simp add: update_csrs_def fields_ok_def)
  qed
qed

lemma ok_system:
  "during c d \<Longrightarrow> fields_ok i \<Longrightarrow> \<not> bit v 0 \<Longrightarrow> instruction_ok p c (execute_system p i x v d)"
  by (auto simp: execute_system_def intro!: ok_privileged ok_zicsr)

subsection \<open>Floating-point instructions\<close>

lemma read_operand_some:
  "unat n < 32 \<Longrightarrow> \<exists>x. read_computational_operand s fmt n = Some x"
  by (simp add: read_computational_operand_def floating_single_def register_reads)

lemma ok_bind_integer:
  assumes "n < 32" "\<And>x. instruction_ok p c (f x)"
  shows "instruction_ok p c (integer s n \<bind> f)" "instruction_ok p c (floating s n \<bind> f)"
  using assms by (simp_all add: register_reads)

lemma ok_bind_operand:
  assumes "unat n < 32" "\<And>x. instruction_ok p c (f x)"
  shows "instruction_ok p c (read_computational_operand s fmt n \<bind> f)"
  using read_operand_some [OF assms(1), of s fmt] assms(2) by auto

lemma ok_bind_set_fp:
  assumes "ongoing c d" "n < 32" "\<And>s. ongoing c (d\<lparr>hart_state := s\<rparr>) \<Longrightarrow> instruction_ok p c (f s)"
  shows "instruction_ok p c ((if fmt = Single then set_floating_single (hart_state d) n (ucast (x :: u64))
      else set_floating (hart_state d) n x) \<bind> f)"
  using ok_bind_set_floating [OF assms] by (simp add: set_floating_single_def)

lemma ongoing_accrue: "ongoing c d \<Longrightarrow> ongoing c (update_csrs (\<lambda>f. accrue_floating_exception_flags f fl) d)"
  by (intro ongoing_csrs csr_keeps_ops ongoing_csr_ok)

lemma ok_finish_floating:
  assumes "ongoing c d" "unat n < 32" "\<not> bit v 0"
  shows "instruction_ok p c (finish_floating p fmt n r v d)"
proof -
  have eq: "finish_floating p fmt n r v d = (if fmt = Single then set_floating_single (hart_state d) (unat n) (ucast (fr_bits r))
      else set_floating (hart_state d) (unat n) (fr_bits r)) \<bind>
        (\<lambda>s. retire p v (update_csrs (\<lambda>f. accrue_floating_exception_flags f (fr_flags r)) (d\<lparr>hart_state := s\<rparr>)))"
    by (simp add: finish_floating_def write_floating_result_def update_csrs_def)
  show ?thesis unfolding eq using assms by (intro ok_bind_set_fp ok_retire ongoing_accrue)
qed

lemma ok_finish_integer:
  assumes "ongoing c d" "unat n < 32" "\<not> bit v 0"
  shows "instruction_ok p c (finish_integer p n x fl v d)"
  unfolding finish_integer_def
  using assms by (intro ok_bind_set_integer ok_retire ongoing_accrue)

lemma if_ok:
  "(b \<Longrightarrow> instruction_ok p c x) \<Longrightarrow> (\<not> b \<Longrightarrow> instruction_ok p c y) \<Longrightarrow> instruction_ok p c (if b then x else y)"
  by simp

lemmas ok_floating_intros = ok_illegal ok_bind_integer ok_bind_operand ok_finish_floating ok_finish_integer
  ok_write_and_retire ok_bind_set_fp ok_retire if_ok duringD(1)

lemma ok_fused:
  "during c d \<Longrightarrow> fields_ok i \<Longrightarrow> \<not> bit v 0 \<Longrightarrow> instruction_ok p c (execute_fused p i v d)"
  unfolding execute_fused_def Let_def fields_ok_def
  by (auto split del: if_split split: option.split simp: u8_field_bound intro!: ok_floating_intros)

lemma ok_floating_binary:
  "during c d \<Longrightarrow> fields_ok i \<Longrightarrow> \<not> bit v 0 \<Longrightarrow> instruction_ok p c (execute_floating_binary p i k fmt v d)"
  unfolding execute_floating_binary_def Let_def fields_ok_def
  by (auto split del: if_split split: option.split simp: u8_field_bound intro!: ok_floating_intros)

lemma ok_floating_sqrt:
  "during c d \<Longrightarrow> fields_ok i \<Longrightarrow> \<not> bit v 0 \<Longrightarrow> instruction_ok p c (execute_floating_sqrt p i fmt v d)"
  unfolding execute_floating_sqrt_def Let_def fields_ok_def
  by (auto split del: if_split split: option.split simp: u8_field_bound intro!: ok_floating_intros)

lemma ok_floating_sign:
  "during c d \<Longrightarrow> fields_ok i \<Longrightarrow> \<not> bit v 0 \<Longrightarrow> instruction_ok p c (execute_floating_sign p i fmt v d)"
  unfolding execute_floating_sign_def Let_def fields_ok_def
  by (auto split del: if_split split: option.split simp: u8_field_bound intro!: ok_floating_intros)

lemma ok_floating_min_max:
  "during c d \<Longrightarrow> fields_ok i \<Longrightarrow> \<not> bit v 0 \<Longrightarrow> instruction_ok p c (execute_floating_min_max p i fmt v d)"
  unfolding execute_floating_min_max_def Let_def fields_ok_def
  by (auto split del: if_split split: option.split simp: u8_field_bound intro!: ok_floating_intros)

lemma ok_floating_compare:
  "during c d \<Longrightarrow> fields_ok i \<Longrightarrow> \<not> bit v 0 \<Longrightarrow> instruction_ok p c (execute_floating_compare p i fmt v d)"
  unfolding execute_floating_compare_def Let_def fields_ok_def
  by (auto split del: if_split split: option.split simp: u8_field_bound intro!: ok_floating_intros)

lemma ok_floating_to_integer:
  "during c d \<Longrightarrow> fields_ok i \<Longrightarrow> \<not> bit v 0 \<Longrightarrow> instruction_ok p c (execute_floating_to_integer p i fmt v d)"
  unfolding execute_floating_to_integer_def Let_def fields_ok_def
  by (auto split del: if_split split: option.split simp: u8_field_bound intro!: ok_floating_intros)

lemma ok_floating_from_integer:
  "during c d \<Longrightarrow> fields_ok i \<Longrightarrow> \<not> bit v 0 \<Longrightarrow> instruction_ok p c (execute_floating_from_integer p i fmt v d)"
  unfolding execute_floating_from_integer_def Let_def fields_ok_def
  by (auto split del: if_split split: option.split simp: u8_field_bound intro!: ok_floating_intros)

lemma ok_floating_class_or_move:
  "during c d \<Longrightarrow> fields_ok i \<Longrightarrow> \<not> bit v 0 \<Longrightarrow> instruction_ok p c (execute_floating_class_or_move p i fmt v d)"
  unfolding execute_floating_class_or_move_def Let_def fields_ok_def
  by (auto split del: if_split split: option.split simp: u8_field_bound intro!: ok_floating_intros)

lemma ok_floating_move_from_integer:
  "during c d \<Longrightarrow> fields_ok i \<Longrightarrow> \<not> bit v 0 \<Longrightarrow> instruction_ok p c (execute_floating_move_from_integer p i fmt v d)"
  unfolding execute_floating_move_from_integer_def Let_def fields_ok_def
  by (auto split del: if_split split: option.split simp: u8_field_bound intro!: ok_floating_intros)

lemma ok_floating_convert_format:
  "during c d \<Longrightarrow> fields_ok i \<Longrightarrow> \<not> bit v 0 \<Longrightarrow> instruction_ok p c (execute_floating_convert_format p i v d)"
  unfolding execute_floating_convert_format_def Let_def fields_ok_def
  by (auto split del: if_split split: option.split simp: u8_field_bound intro!: ok_floating_intros)

lemmas ok_floating_blocks = ok_fused ok_floating_binary ok_floating_sqrt ok_floating_sign ok_floating_min_max ok_floating_compare
  ok_floating_to_integer ok_floating_from_integer ok_floating_class_or_move ok_floating_move_from_integer ok_floating_convert_format

lemma ok_floating_load:
  "during c d \<Longrightarrow> fields_ok i \<Longrightarrow> \<not> bit v 0 \<Longrightarrow> instruction_ok p c (execute_floating_load p i v d)"
  unfolding execute_floating_load_def Let_def fields_ok_def
  by (auto simp: register_reads set_floating_single_def intro!: ok_illegal ok_guest [OF guest_read_ok] ok_bind_set_floating
      ok_retire duringD(1))

lemma ok_floating_store:
  "during c d \<Longrightarrow> fields_ok i \<Longrightarrow> \<not> bit v 0 \<Longrightarrow> instruction_ok p c (execute_floating_store p i v d)"
  unfolding execute_floating_store_def Let_def fields_ok_def
  by (auto simp: register_reads intro!: ok_illegal ok_guest [OF guest_write_ok] ok_retire duringD(1))

lemma ok_floating:
  "during c d \<Longrightarrow> fields_ok i \<Longrightarrow> \<not> bit v 0 \<Longrightarrow> instruction_ok p c (execute_floating p i v d)"
  unfolding execute_floating_def execute_op_fp_def Let_def
  by (intro if_ok ok_illegal ok_floating_blocks ok_floating_load ok_floating_store; assumption)

end
