(* ===== verification/Cpu_Exec_Vector.thy ===== *)
theory Cpu_Exec_Vector
  imports Cpu_Exec
begin

unbundle bit_operations_syntax

text \<open>The vector instructions keep the invariant, and so does every standard instruction.\<close>

subsection \<open>Loops over elements\<close>

definition returned_ok :: "instruction_packet \<Rightarrow> cpu \<Rightarrow> (cpu \<times> step_result option) option \<Rightarrow> bool" where
  "returned_ok p c x \<longleftrightarrow>
     (\<exists>d r. x = Some (d, r) \<and> during c d \<and> (\<forall>q. r = Some q \<longrightarrow> instruction_ok p c (Some (d, q))))"

lemma returned_None: "during c d \<Longrightarrow> returned_ok p c (Some (d, None))"
  by (simp add: returned_ok_def)

lemma returned_illegal: "during c d \<Longrightarrow> returned_ok p c (Some (d, Some (illegal p)))"
  by (simp add: returned_ok_def ok_illegal)

lemma element_loop_ok:
  assumes "\<And>e d. during c d \<Longrightarrow> returned_ok p c (body e d)"
  shows "during c d \<Longrightarrow> returned_ok p c (element_loop body es d)"
proof (induction es arbitrary: d)
  case (Cons e es)
  obtain d' r where b: "body e d = Some (d', r)" "during c d'" "\<And>q. r = Some q \<Longrightarrow> instruction_ok p c (Some (d', q))"
    using assms [OF Cons.prems, of e] by (auto simp: returned_ok_def)
  show ?case
    using b Cons.IH [OF b(2)] by (cases r) (auto simp: returned_ok_def)
qed (simp add: returned_None)

lemma put_element_ok:
  assumes "group_ok g" "during c d"
  shows "returned_ok p c (put_element p g v e d)"
proof -
  let ?s = "hart_state d"
  have w: "vs_wf (cs_vector_state ?s)" "state_wf ?s"
    using duringD(2) [OF assms(2)] by (simp_all add: cpu_wf_def state_wf_def)
  show ?thesis
  proof (cases "e < vc_vlmax (vg_configuration g)")
    case False
    then show ?thesis
      using assms by (simp add: put_element_def set_vector_element_def vg_write_element_eq [OF assms(1) w(1)] returned_illegal)
  next
    case True
    then obtain st where st: "vg_write_element g (cs_vector_state ?s) e v = Some (Some st)"
      by (simp add: vg_write_element_eq [OF assms(1) w(1)])
    have keep: "csr_keeps (cs_privilege ?s) (cs_csrs ?s) (mark_vector_state_dirty (cs_csrs ?s))"
      using ongoing_csr_ok [OF duringD(1) [OF assms(2)]] by (rule csr_keeps_ops)
    have "during c (d\<lparr>hart_state := ?s\<lparr>cs_vector_state := st, cs_csrs := mark_vector_state_dirty (cs_csrs ?s)\<rparr>\<rparr>)"
      using w keep vs_wf_write_element [OF assms(1) w(1) st]
      by (intro during_state [OF assms(2)])
        (simp_all add: state_wf_def csr_keeps_def frozen_def csr_frozen_ops)
    then show ?thesis by (simp add: put_element_def set_vector_element_def st returned_None)
  qed
qed

lemma element_active_some: "\<exists>b. element_active m e d = Some b"
proof -
  have "unat (ucast (e div 8) :: u8) < 32" if "\<not> 256 \<le> e"
  proof -
    have "unat (e div 8) < 32" using that by (simp add: word_le_nat_alt unat_div_distrib)
    then show ?thesis by (simp add: unsigned_ucast_eq take_bit_nat_eq_self)
  qed
  then show ?thesis
    by (auto simp: element_active_def vector_mask_bit_def vg_mask_bit_def vs_byte_value_def)
qed

lemma vector_trap_ok:
  assumes "during c d" "trap_ok p t"
  shows "returned_ok p c (vector_trap p t e d)"
proof -
  have "during c (update_csrs (\<lambda>f. set_vector_start_for_trap f e) d)"
    using csr_keeps_ops(4) [OF ongoing_csr_ok [OF duringD(1) [OF assms(1)]], of e] cpu_wf_state [OF duringD(1) [OF assms(1)]]
    unfolding update_csrs_def
    by (intro during_state [OF assms(1)]) (simp_all add: state_wf_def csr_keeps_def frozen_def csr_frozen_ops)
  with assms(2) show ?thesis by (simp add: returned_ok_def vector_trap_def ok_failure)
qed

subsection \<open>Vector memory\<close>

lemma load_bytes_ok:
  "during c d \<Longrightarrow> \<exists>d' r. load_bytes_loop p a n d = Some (d', r) \<and> during c d' \<and> (\<forall>t. r = Inl t \<longrightarrow> trap_ok p t)"
proof (induction n)
  case (Suc n)
  then obtain d' r where l: "load_bytes_loop p a n d = Some (d', r)" "during c d'" "\<forall>t. r = Inl t \<longrightarrow> trap_ok p t"
    by blast
  obtain d'' g where g: "guest_read p (a + of_nat n) Byte MmuLoad Load d' = Some (d'', g)" "quiet d' d''"
      "\<forall>t. ga_trap g = Some t \<longrightarrow> trap_ok p t"
    using guest_read_ok [of p d'] unfolding guest_ok_def by blast
  show ?case
    using l g quiet_during [OF g(2) l(2)] by (cases r) (auto split: option.split)
qed simp

lemma store_bytes_ok:
  "during c d \<Longrightarrow> \<exists>d' r. store_bytes_loop p a v n d = Some (d', r) \<and> during c d' \<and> (\<forall>t. r = Some t \<longrightarrow> trap_ok p t)"
proof (induction n)
  case (Suc n)
  then obtain d' r where l: "store_bytes_loop p a v n d = Some (d', r)" "during c d'" "\<forall>t. r = Some t \<longrightarrow> trap_ok p t"
    by blast
  obtain d'' g where g: "guest_write p (a + of_nat n) Byte (drop_bit (n * 8) v) Store d' = Some (d'', g)" "quiet d' d''"
      "\<forall>t. ga_trap g = Some t \<longrightarrow> trap_ok p t"
    using guest_write_ok [of p d'] unfolding guest_ok_def by blast
  show ?case
    using l g quiet_during [OF g(2) l(2)] by (cases r) auto
qed simp

lemma if_returned:
  "(b \<Longrightarrow> returned_ok p c x) \<Longrightarrow> (\<not> b \<Longrightarrow> returned_ok p c y) \<Longrightarrow> returned_ok p c (if b then x else y)"
  by simp

lemma vector_memory_element_ok:
  assumes "group_ok g" "during c d"
  shows "returned_ok p c (vector_memory_element p op g base stride ag m e d)"
proof -
  obtain active where a: "element_active (vm_masked op) e d = Some active" using element_active_some by blast
  let ?a = "base + e * stride" and ?n = "unat (vm_element_width_bits op div 8)"
  have load: "returned_ok p c (load_bytes_loop p ?a ?n d \<bind>
      (\<lambda>(d, loaded). case loaded of Inl t \<Rightarrow> vector_trap p t e d | Inr v \<Rightarrow> put_element p g v e d))"
    using load_bytes_ok [OF assms(2), of p ?a ?n]
    by (auto intro!: vector_trap_ok put_element_ok [OF assms(1)] split: sum.split)
  have store: "returned_ok p c (store_bytes_loop p ?a v ?n d \<bind>
      (\<lambda>(d, stored). case stored of Some t \<Rightarrow> vector_trap p t e d | None \<Rightarrow> Some (d, None)))" for v
    using store_bytes_ok [OF assms(2), of p ?a v ?n] by (auto intro!: vector_trap_ok returned_None split: option.split)
  obtain r where r: "vector_element (hart_state d) g e = Some r"
    by (simp add: vector_element_def vg_read_element_eq [OF assms(1)])
  have store': "returned_ok p c (case r of None \<Rightarrow> Some (d, Some (illegal p)) | Some v \<Rightarrow>
      store_bytes_loop p ?a v ?n d \<bind>
        (\<lambda>(d, stored). case stored of Some t \<Rightarrow> vector_trap p t e d | None \<Rightarrow> Some (d, None)))"
    using store returned_illegal [OF assms(2)] by (cases r) simp_all
  show ?thesis
    unfolding vector_memory_element_def a r Let_def bind.bind_lunit
    by (intro if_returned put_element_ok [OF assms] returned_None [OF assms(2)] load store')
qed

lemma vector_body_ok:
  assumes "group_ok g" "\<And>e d. during c d \<Longrightarrow> returned_ok p c (body e d)" "during c d"
  shows "returned_ok p c (vector_body_and_tail p body ft g ag start vl vlmax d)"
proof -
  obtain d' r where b: "element_loop body (element_range start vl) d = Some (d', r)" "during c d'"
      "\<And>q. r = Some q \<Longrightarrow> instruction_ok p c (Some (d', q))"
    using element_loop_ok [of c p body d, OF assms(2,3)] unfolding returned_ok_def by blast
  have t: "returned_ok p c (element_loop (put_element p g ag) es d')" for es
    using put_element_ok [OF assms(1)] b(2) by (rule element_loop_ok)
  show ?thesis
    using assms(3) b t by (cases r) (auto simp: vector_body_and_tail_def returned_ok_def)
qed

lemma ongoing_clear: "ongoing c d \<Longrightarrow> ongoing c (update_csrs clear_vector_start_after_instruction d)"
  by (intro ongoing_csrs csr_keeps_ops ongoing_csr_ok)

lemma ok_vector_commit:
  assumes "returned_ok p c x" "\<not> bit v 0"
  shows "instruction_ok p c (x \<bind> vector_commit p v)"
  using assms by (auto simp: returned_ok_def vector_commit_def intro!: ok_retire ongoing_clear dest: duringD(1) split: option.split)

lemma group_ok_create:
  assumes "vg_create (decode_vector_configuration t) n = Some g"
  shows "group_ok g"
proof -
  have "vc_valid (decode_vector_configuration t)" using assms by (simp add: vg_create_def split: if_splits)
  from vg_create_ok(1) [OF decode_configuration_ok [OF this] assms] show ?thesis .
qed

lemma derive_memory_ok:
  obtains r where "derive_memory_configuration (decode_vector_configuration t) w = Some r"
    "\<And>m. r = Some m \<Longrightarrow> configuration_ok m"
  using derive_memory_configuration_ok [of t w] by blast

lemma ok_vector_memory:
  assumes "during c d" "\<not> bit v 0" "unat (vm_base_register op) < 32" "unat (vm_stride_register op) < 32"
  shows "instruction_ok p c (execute_vector_memory p op v d)"
proof -
  let ?t = "csr_peek (cs_csrs (hart_state d)) Vtype"
  obtain r where r: "derive_memory_configuration (decode_vector_configuration ?t) (ucast (vm_element_width_bits op)) = Some r"
    "\<And>m. r = Some m \<Longrightarrow> configuration_ok m"
    using derive_memory_ok [of ?t "ucast (vm_element_width_bits op)"] by blast
  show ?thesis
  proof (cases "case r of None \<Rightarrow> None | Some m \<Rightarrow> vg_create m (vm_vector_register op)")
    case None
    then show ?thesis using assms(1) r(1)
      by (auto simp: execute_vector_memory_def Let_def intro!: ok_illegal split: option.splits)
  next
    case (Some g)
    then obtain m where m: "r = Some m" "vg_create m (vm_vector_register op) = Some g" by (cases r) auto
    have g: "group_ok g" using vg_create_ok(1) [OF r(2) [OF m(1)] m(2)] .
    obtain base where base: "integer (hart_state d) (unat (vm_base_register op)) = Some base"
      using assms(3) by (simp add: register_reads)
    obtain stride where stride: "(if vm_addressing_mode op = Strided then integer (hart_state d) (unat (vm_stride_register op))
          else Some (ucast (vm_element_width_bits op div 8))) = Some stride"
      using assms(4) by (cases "vm_addressing_mode op = Strided") (simp_all add: register_reads)
    show ?thesis
      unfolding execute_vector_memory_def Let_def r(1) m(1) bind.bind_lunit option.case m(2) base stride
      by (intro if_ok ok_illegal [OF assms(1)] ok_vector_commit [OF vector_body_ok [OF g _ assms(1)] assms(2)]
          vector_memory_element_ok [OF g])
  qed
qed

subsection \<open>Vector arithmetic\<close>

lemma vector_element_some: "group_ok g \<Longrightarrow> \<exists>r. vector_element s g e = Some r"
  by (simp add: vector_element_def vg_read_element_eq)

lemma vector_integer_element_ok:
  assumes "group_ok g" "group_ok g2" "vi_form i = VectorVector \<longrightarrow> (\<exists>h. g1 = Some h \<and> group_ok h)"
    "unat (vi_source1 i) < 32" "during c d"
  shows "returned_ok p c (vector_integer_element p i g g2 g1 sew ag m e d)"
proof -
  obtain active where a: "element_active (vi_masked i) e d = Some active" using element_active_some by blast
  obtain l where l: "vector_element (hart_state d) g2 e = Some l" using vector_element_some [OF assms(2)] by blast
  have "\<exists>r. (case vi_form i of
           VectorVector \<Rightarrow> g1 \<bind> (\<lambda>g. vector_element (hart_state d) g e)
         | VectorScalar \<Rightarrow> integer (hart_state d) (unat (vi_source1 i)) \<bind> (\<lambda>v. Some (Some v))
         | VectorImmediate \<Rightarrow> Some (Some (sign_extend_vector_immediate (vi_source1 i) sew))) = Some r"
    using assms(3,4) by (cases "vi_form i") (auto simp: register_reads intro: vector_element_some)
  then obtain r where r: "(case vi_form i of
           VectorVector \<Rightarrow> g1 \<bind> (\<lambda>g. vector_element (hart_state d) g e)
         | VectorScalar \<Rightarrow> integer (hart_state d) (unat (vi_source1 i)) \<bind> (\<lambda>v. Some (Some v))
         | VectorImmediate \<Rightarrow> Some (Some (sign_extend_vector_immediate (vi_source1 i) sew))) = Some r" by blast
  have "returned_ok p c (case (l, r) of
         (Some l, Some r) \<Rightarrow> put_element p g (execute_vector_integer_operation (vi_operation i) l r sew) e d
       | _ \<Rightarrow> Some (d, Some (illegal p)))"
    using put_element_ok [OF assms(1,5)] returned_illegal [OF assms(5)] by (simp split: option.split)
  then show ?thesis
    unfolding vector_integer_element_def a l r bind.bind_lunit
    by (intro if_returned put_element_ok [OF assms(1,5)] returned_None [OF assms(5)])
qed

lemma ok_vector_integer:
  assumes "during c d" "\<not> bit v 0" "unat (vi_source1 i) < 32"
  shows "instruction_ok p c (execute_vector_integer p i v d)"
proof -
  let ?c = "decode_vector_configuration (csr_peek (cs_csrs (hart_state d)) Vtype)"
  let ?s1 = "if vi_form i = VectorVector then vg_create ?c (vi_source1 i) else None"
  show ?thesis
  proof (cases "vg_create ?c (vi_destination i) = None \<or> vg_create ?c (vi_source2 i) = None
        \<or> (vi_form i = VectorVector \<and> ?s1 = None)")
    case True
    then show ?thesis using ok_illegal [OF assms(1)]
      by (auto simp: execute_vector_integer_def Let_def split: option.split)
  next
    case False
    then obtain g g2 where g: "vg_create ?c (vi_destination i) = Some g" "vg_create ?c (vi_source2 i) = Some g2"
      and h: "vi_form i = VectorVector \<longrightarrow> (\<exists>h. ?s1 = Some h \<and> group_ok h)" using group_ok_create by auto
    show ?thesis
      unfolding execute_vector_integer_def Let_def g option.case prod.case
      by (intro if_ok ok_illegal [OF assms(1)]
          ok_vector_commit [OF vector_body_ok [OF group_ok_create [OF g(1)] _ assms(1)] assms(2)]
          vector_integer_element_ok [OF group_ok_create [OF g(1)] group_ok_create [OF g(2)] h assms(3)])
  qed
qed

text \<open>The floating-point loop carries the flags; its body and loop satisfy the same contract for every flag value.\<close>

definition returned_flags_ok :: "instruction_packet \<Rightarrow> cpu \<Rightarrow> (cpu \<times> u8 \<times> step_result option) option \<Rightarrow> bool" where
  "returned_flags_ok p c x \<longleftrightarrow>
     (\<exists>d fl r. x = Some (d, fl, r) \<and> during c d \<and> (\<forall>q. r = Some q \<longrightarrow> instruction_ok p c (Some (d, q))))"

lemma returned_flags_bind:
  assumes "returned_ok p c x"
  shows "returned_flags_ok p c (x \<bind> (\<lambda>(d, r). Some (d, f r, r)))"
  using assms by (auto simp: returned_ok_def returned_flags_ok_def)

lemma if_returned_flags:
  "(b \<Longrightarrow> returned_flags_ok p c x) \<Longrightarrow> (\<not> b \<Longrightarrow> returned_flags_ok p c y) \<Longrightarrow> returned_flags_ok p c (if b then x else y)"
  by simp

lemma floating_element_loop_ok:
  assumes "\<And>e d fl. during c d \<Longrightarrow> returned_flags_ok p c (body e d fl)"
  shows "during c d \<Longrightarrow> returned_flags_ok p c (floating_element_loop body es d fl)"
proof (induction es arbitrary: d fl)
  case Nil
  then show ?case by (simp add: returned_flags_ok_def)
next
  case (Cons e es)
  obtain d' fl' r where b: "body e d fl = Some (d', fl', r)" "during c d'"
      "\<And>q. r = Some q \<Longrightarrow> instruction_ok p c (Some (d', q))"
    using assms [OF Cons.prems, of e fl] by (auto simp: returned_flags_ok_def)
  show ?case
    using b Cons.IH [OF b(2), of fl'] by (cases r) (auto simp: returned_flags_ok_def)
qed

lemma vector_floating_element_ok:
  assumes "group_ok g" "group_ok g2" "vf_form i = FloatVectorVector \<longrightarrow> (\<exists>h. g1 = Some h \<and> group_ok h)"
    "unat (vf_source1 i) < 32" "during c d"
  shows "returned_flags_ok p c (vector_floating_element p i g g2 g1 fmt rm ag m e d fl)"
proof -
  obtain active where a: "element_active (vf_masked i) e d = Some active" using element_active_some by blast
  obtain l where l: "vector_element (hart_state d) g2 e = Some l" using vector_element_some [OF assms(2)] by blast
  have "\<exists>r. (case vf_form i of
           FloatVectorVector \<Rightarrow> g1 \<bind> (\<lambda>g. vector_element (hart_state d) g e)
         | FloatVectorScalar \<Rightarrow> floating (hart_state d) (unat (vf_source1 i)) \<bind> (\<lambda>v. Some (Some v))) = Some r"
    using assms(3,4) by (cases "vf_form i") (auto simp: register_reads intro: vector_element_some)
  then obtain r where r: "(case vf_form i of
           FloatVectorVector \<Rightarrow> g1 \<bind> (\<lambda>g. vector_element (hart_state d) g e)
         | FloatVectorScalar \<Rightarrow> floating (hart_state d) (unat (vf_source1 i)) \<bind> (\<lambda>v. Some (Some v))) = Some r" by blast
  have put: "returned_flags_ok p c (put_element p g x e d \<bind> (\<lambda>(d, r). Some (d, f r, r)))" for x f
    by (intro returned_flags_bind put_element_ok [OF assms(1,5)])
  have none: "returned_flags_ok p c (Some (d, fl, None))" "returned_flags_ok p c (Some (d, fl, Some (illegal p)))"
    using assms(5) by (simp_all add: returned_flags_ok_def ok_illegal)
  show ?thesis
    unfolding vector_floating_element_def a l r bind.bind_lunit Let_def
    using put none by (simp split: option.split)
qed

lemma ok_vector_floating:
  assumes "during c d" "\<not> bit v 0" "unat (vf_source1 i) < 32"
  shows "instruction_ok p c (execute_vector_floating p i v d)"
proof -
  let ?f = "cs_csrs (hart_state d)"
  let ?c = "decode_vector_configuration (csr_peek ?f Vtype)"
  let ?s1 = "if vf_form i = FloatVectorVector then vg_create ?c (vf_source1 i) else None"
  let ?rm = "resolve_floating_rounding_mode 7 (csr_floating_rounding_mode ?f)"
  show ?thesis
  proof (cases "vg_create ?c (vf_destination i) = None \<or> vg_create ?c (vf_source2 i) = None
        \<or> (vf_form i = FloatVectorVector \<and> ?s1 = None) \<or> ?rm = None")
    case True
    then show ?thesis using ok_illegal [OF assms(1)]
      by (auto simp: execute_vector_floating_def Let_def split: option.split)
  next
    case False
    then obtain g g2 rm where g: "vg_create ?c (vf_destination i) = Some g" "vg_create ?c (vf_source2 i) = Some g2"
        "?rm = Some rm"
      and h: "vf_form i = FloatVectorVector \<longrightarrow> (\<exists>h. ?s1 = Some h \<and> group_ok h)" using group_ok_create by auto
    note body = vector_floating_element_ok [OF group_ok_create [OF g(1)] group_ok_create [OF g(2)] h assms(3)]
    have finish: "instruction_ok p c (x \<bind> (\<lambda>(d, fl, r). vector_commit p v
        (if r = None then update_csrs (\<lambda>f. accrue_floating_exception_flags f fl) d else d, r)))"
      if "returned_flags_ok p c x" for x
      using that assms(2)
      by (auto simp: returned_flags_ok_def vector_commit_def intro!: ok_retire ongoing_clear ongoing_accrue dest: duringD(1)
          split: option.split)
    have tail: "returned_flags_ok p c (x \<bind> (\<lambda>(d, fl, r). case r of Some q \<Rightarrow> Some (d, fl, Some q)
        | None \<Rightarrow> if b then element_loop (put_element p g ag) es d \<bind> (\<lambda>(d, r). Some (d, fl, r)) else Some (d, fl, None)))"
      if "returned_flags_ok p c x" for x b ag es
    proof -
      from that obtain d fl r where x: "x = Some (d, fl, r)" "during c d"
          "\<And>q. r = Some q \<Longrightarrow> instruction_ok p c (Some (d, q))" by (auto simp: returned_flags_ok_def)
      have "returned_flags_ok p c (element_loop (put_element p g ag) es d \<bind> (\<lambda>(d, r). Some (d, fl, r)))"
        by (rule returned_flags_bind [OF element_loop_ok [OF put_element_ok [OF group_ok_create [OF g(1)]] x(2)]])
      then show ?thesis using x by (cases r) (auto simp: returned_flags_ok_def)
    qed
    have start: "returned_flags_ok p c (Some (d, 0, None))" using assms(1) by (simp add: returned_flags_ok_def)
    show ?thesis
      unfolding execute_vector_floating_def Let_def g option.case prod.case
      by (intro if_ok ok_illegal [OF assms(1)] finish if_returned_flags start tail
          floating_element_loop_ok [OF body assms(1)])
  qed
qed

subsection \<open>Vector configuration\<close>

lemma csr_peek_vector: "csr_peek f Vl = csr_vl f" "csr_peek f Vtype = csr_vtype f"
  by (simp_all add: csr_peek_def csr_exists_def csr_read_value_def is_rv64_pmpcfg_def is_pmpaddr_def
      is_mhpmcounter_def is_mhpmevent_def)

lemma ok_vector_configuration:
  assumes "during c d" "fields_ok i" "\<not> bit v 0"
  shows "instruction_ok p c (execute_vector_configuration p i v d)"
proof -
  let ?f = "cs_csrs (hart_state d)"
  have o: "ongoing c (update_csrs (\<lambda>f. commit_vector_configuration f t l) d)"
    if "l \<le> vc_vlmax (decode_vector_configuration t)" for t l
    using that duringD(1) [OF assms(1)] by (intro ongoing_csrs csr_keeps_ops ongoing_csr_ok)
  have peek: "csr_peek ?f Vl \<le> vc_vlmax (decode_vector_configuration (csr_peek ?f Vtype))"
    using csr_ok_vl [OF ongoing_csr_ok [OF duringD(1) [OF assms(1)]]]
    by (simp add: csr_peek_vector)
  have preserve: "csr_peek ?f Vl \<le> vc_vlmax (decode_vector_configuration (vc_vtype (decode_vector_configuration t)))"
    if "can_preserve_vector_length (csr_peek ?f Vtype) t" for t
    using that peek by (simp add: can_preserve_vector_length_def Let_def vector_configuration_commit)
  have select: "select_vector_length a (vc_vlmax (decode_vector_configuration t))
      \<le> vc_vlmax (decode_vector_configuration (vc_vtype (decode_vector_configuration t)))"
    if "vc_valid (decode_vector_configuration t)" for a t
    using select_vector_length_le by (simp add: vector_configuration_commit [OF that])
  have rd: "unat (di_destination i) < 32" using assms(2) by (simp add: fields_ok_def)
  obtain x y where xy: "integer (hart_state d) (unat (di_source1 i)) = Some x"
      "integer (hart_state d) (unat (di_source2 i)) = Some y"
    using assms(2) by (auto simp: fields_ok_def register_reads)
  show ?thesis
    unfolding execute_vector_configuration_def Let_def xy bind.bind_lunit
    using ok_illegal [OF assms(1)] ok_retire [OF o [OF preserve] assms(3)]
      ok_write_and_retire [OF o [OF select] rd assms(3)] ok_write_and_retire [OF o [of 0] rd assms(3)]
    by (auto split: option.split avl_request.split)
qed

subsection \<open>Every instruction\<close>

lemma ok_op_v:
  assumes "during c d" "fields_ok i" "\<not> bit v 0"
  shows "instruction_ok p c (execute_op_v p i v d)"
  unfolding execute_op_v_def
  using ok_vector_configuration [OF assms] ok_vector_integer [OF assms(1,3)] ok_vector_floating [OF assms(1,3)]
    decoded_vector_registers(1) decoded_vector_floating_registers
  by (auto split: option.split)

lemma ok_fp_memory:
  assumes "during c d" "fields_ok i" "\<not> bit v 0"
  shows "instruction_ok p c (execute_fp_memory p i v d)"
  unfolding execute_fp_memory_def
  using ok_floating [OF assms] ok_vector_memory [OF assms(1,3)] decoded_vector_registers(2)
  by (auto split: option.split)

lemma even_sum: "\<not> bit (x :: u64) 0 \<Longrightarrow> \<not> bit y 0 \<Longrightarrow> \<not> bit (x + y) 0"
  by (simp add: bit_0 even_add)

lemma even_immediates: "\<not> bit (immediate_b b) 0" "\<not> bit (immediate_j b) 0"
  by (simp_all add: immediate_bits)

definition packet_ok :: "instruction_packet \<Rightarrow> bool" where
  "packet_ok p \<longleftrightarrow> \<not> bit (ip_program_counter p) 0 \<and> (ip_length p = 2 \<or> ip_length p = 4)"

lemma execute_standard_ok:
  assumes "cpu_wf c" "packet_ok p"
  shows "instruction_ok p c (execute_standard p c)"
proof -
  have d: "during c c" using assms(1) by (rule during_refl)
  have f: "fields_ok (decode (ip_bits p))" by (simp add: fields_ok_def)
  have pc: "\<not> bit (ip_program_counter p) 0" using assms(2) by (simp add: packet_ok_def)
  have v: "\<not> bit (ip_program_counter p + ucast (ip_length p)) 0"
    using assms(2) by (intro even_sum) (auto simp: packet_ok_def bit_0)
  obtain x y where xy: "integer (hart_state c) (unat (di_source1 (decode (ip_bits p)))) = Some x"
      "integer (hart_state c) (unat (di_source2 (decode (ip_bits p)))) = Some y"
    by (auto simp: register_reads)
  show ?thesis
    unfolding execute_standard_def Let_def xy bind.bind_lunit
    by (intro if_ok ok_op_v [OF d f v] ok_write_and_retire [OF duringD(1) [OF d] _ v] ok_jump [OF d]
        ok_jalr [OF d f] ok_branch [OF d v] ok_load [OF d f v] ok_store [OF d v] ok_finish_alu [OF d f v]
        ok_atomic [OF d f v] ok_fp_memory [OF d f v] ok_floating [OF d f v] ok_system [OF d f v]
        ok_retire [OF duringD(1) [OF d] v] ok_illegal [OF d] even_sum [OF pc] even_immediates decode_register_bounds)
qed

end
