(* ===== verification/Cpu_Correct.thy ===== *)
theory Cpu_Correct
  imports Cpu_Exec_Vector
begin

unbundle bit_operations_syntax

text \<open>
  The theorems about the hart as a whole: it never gets stuck and keeps its invariant, traps are precise, code below
  machine mode is confined, traps are delivered and returned from, atomic instructions are atomic.
\<close>

subsection \<open>Executing and fetching\<close>

lemma execute_ok:
  assumes "cpu_wf c" "packet_ok p"
  shows "instruction_ok p c (execute p c)"
proof (cases "packet_compressed p")
  case False
  then show ?thesis using execute_standard_ok [OF assms] by (simp add: execute_def)
next
  case True
  show ?thesis
  proof (cases "decompress_rv64c (ucast (ip_bits p))")
    case None
    then show ?thesis using True ok_illegal [OF during_refl [OF assms(1)]] by (simp add: execute_def)
  next
    case (Some e)
    have "packet_ok (p\<lparr>ip_bits := e\<rparr>)" using assms(2) by (simp add: packet_ok_def)
    from execute_standard_ok [OF assms(1) this] show ?thesis
      using True Some by (auto simp: execute_def instruction_ok_def trap_ok_def)
  qed
qed

definition fetch_trap_cause :: "exception_cause \<Rightarrow> bool" where
  "fetch_trap_cause cause \<longleftrightarrow> cause = InstructionAccessFault \<or> cause = InstructionPageFault"

lemma guest_fetch_ok:
  "\<exists>c' g. guest_read p va w MmuInstructionFetch t c = Some (c', g) \<and> quiet c c'
     \<and> (\<forall>t. ga_trap g = Some t \<longrightarrow> trap_pc t = ip_program_counter p \<and> fetch_trap_cause (trap_cause t))"
proof (cases rule: guest_translate_cases [of p va w MmuInstructionFetch "fetch_context c" c])
  case (fault d t)
  moreover have "trap_cause t = InstructionPageFault"
    using fault(1) translate_defined(2) [of va w MmuInstructionFetch "fetch_context c" "hart_mmu c" "hart_bus c"]
    by (auto simp: guest_translate_def split_beta Let_def bind_eq_Some_conv split: option.splits)
  ultimately show ?thesis
    by (auto simp: guest_read_def guest_fault_def fetch_trap_cause_def trap_ok_def)
next
  case (address d pa)
  then show ?thesis
    by (auto simp: guest_read_def guest_done_def make_trap_def fetch_trap_cause_def split_beta Let_def
        intro: quiet_bus bus_accessed_ops)
qed

lemma quiet_trans: "quiet c d \<Longrightarrow> quiet d e \<Longrightarrow> quiet c e"
  by (auto simp: quiet_def intro: bus_accessed_trans)

lemma fetch_ok:
  assumes "\<not> bit (cs_program_counter (hart_state c)) 0"
  shows "\<exists>c' f. fetch c = Some (c', f) \<and> quiet c c'
     \<and> (\<forall>p. f = Fetched p \<longrightarrow> packet_ok p \<and> ip_program_counter p = cs_program_counter (hart_state c))
     \<and> (\<forall>t. f = FetchTrap t \<longrightarrow> trap_pc t = cs_program_counter (hart_state c) \<and> fetch_trap_cause (trap_cause t))"
proof -
  let ?pc = "cs_program_counter (hart_state c)"
  let ?p = "\<lparr>ip_program_counter = ?pc, ip_bits = 0, ip_length = 0\<rparr>"
  let ?read = "\<lambda>a d. guest_read ?p a HalfWord MmuInstructionFetch InstructionFetch d"
  have even: "?pc AND 1 = 0" using assms even_target [of ?pc] by blast
  obtain d g where r1: "?read ?pc c = Some (d, g)" "quiet c d"
      "\<And>t. ga_trap g = Some t \<Longrightarrow> trap_pc t = ?pc \<and> fetch_trap_cause (trap_cause t)"
    using guest_fetch_ok [of ?p ?pc HalfWord InstructionFetch c] by auto
  obtain e h where r2: "?read (?pc + 2) d = Some (e, h)" "quiet d e"
      "\<And>t. ga_trap h = Some t \<Longrightarrow> trap_pc t = ?pc \<and> fetch_trap_cause (trap_cause t)"
    using guest_fetch_ok [of ?p "?pc + 2" HalfWord InstructionFetch d] by auto
  show ?thesis
    using assms r1 r2 quiet_trans [OF r1(2) r2(2)]
    by (auto simp: fetch_def even Let_def packet_ok_def fetch_trap_cause_def split: option.split)
qed

subsection \<open>One step\<close>

text \<open>The states a step may end in, in terms of the hart it starts from.\<close>

lemma increment_keeps:
  assumes "csr_ok p f"
  shows "csr_ok p (increment_cycle f)" "csr_ok p (increment_instret f)"
  using assms csr_wf_counters(2,3) [OF csr_ok_wf [OF assms]]
  by (simp_all add: csr_ok_def increment_cycle_def increment_instret_def split: if_splits)

lemma cpu_wf_update_csrs:
  "cpu_wf c \<Longrightarrow> csr_ok (cs_privilege (hart_state c)) (f (cs_csrs (hart_state c))) \<Longrightarrow> cpu_wf (update_csrs f c)"
  by (simp add: cpu_wf_def state_wf_def update_csrs_def)

lemma cpu_wf_counters:
  "cpu_wf c \<Longrightarrow> cpu_wf (update_csrs increment_cycle c)" "cpu_wf c \<Longrightarrow> cpu_wf (update_csrs increment_instret c)"
  by (intro cpu_wf_update_csrs increment_keeps; simp add: cpu_wf_def state_wf_def)+

definition uncounted :: "csr_file \<Rightarrow> csr_file" where
  "uncounted f = f\<lparr>csr_cycle := 0, csr_instret := 0\<rparr>"

lemma uncounted_increments [simp]:
  "uncounted (increment_cycle f) = uncounted f" "uncounted (increment_instret f) = uncounted f"
  "uncounted (machine_view (increment_cycle f)) = uncounted (machine_view f)"
  "uncounted (machine_view (increment_instret f)) = uncounted (machine_view f)"
  by (simp_all add: uncounted_def increment_cycle_def increment_instret_def machine_view_def)

lemma csr_frozen_uncounted: "csr_frozen f g \<Longrightarrow> csr_frozen (uncounted f) (uncounted g)"
proof -
  have commute: "uncounted (h\<lparr>csr_mstatus := x, csr_vstart := 0\<rparr>) = (uncounted h)\<lparr>csr_mstatus := x, csr_vstart := 0\<rparr>" for h x
    by (simp add: uncounted_def)
  have m: "csr_mstatus (uncounted h) = csr_mstatus h" for h by (simp add: uncounted_def)
  assume "csr_frozen f g"
  then show ?thesis unfolding csr_frozen_def m by (metis commute)
qed

text \<open>The effect of a step: what holds of the hart after it, whether it retired, stalled or trapped.\<close>

definition step_effect :: "cpu \<Rightarrow> cpu \<Rightarrow> step_result \<Rightarrow> bool" where
  "step_effect c c' r \<longleftrightarrow> cpu_wf c' \<and> bus_accessed (hart_bus c) (hart_bus c')
     \<and> privilege_rank (cs_privilege (hart_state c')) \<le> privilege_rank (cs_privilege (hart_state c))
     \<and> (cs_privilege (hart_state c) \<noteq> Machine \<longrightarrow>
          uncounted (machine_view (cs_csrs (hart_state c'))) = uncounted (machine_view (cs_csrs (hart_state c))))
     \<and> \<not> (sr_stalled r \<and> sr_trap r \<noteq> None) \<and> sr_retired r = (sr_trap r = None \<and> \<not> sr_stalled r)
     \<and> (\<forall>t. sr_trap r = Some t \<longrightarrow> trap_pc t = cs_program_counter (hart_state c)
          \<and> trap_cause t \<noteq> InstructionAddressMisaligned
          \<and> cs_integer_registers (hart_state c') = cs_integer_registers (hart_state c)
          \<and> cs_floating_registers (hart_state c') = cs_floating_registers (hart_state c)
          \<and> cs_program_counter (hart_state c') = cs_program_counter (hart_state c)
          \<and> cs_privilege (hart_state c') = cs_privilege (hart_state c)
          \<and> csr_frozen (uncounted (cs_csrs (hart_state c))) (uncounted (cs_csrs (hart_state c'))))"

lemma update_csrs_fields [simp]:
  "cs_integer_registers (hart_state (update_csrs f c)) = cs_integer_registers (hart_state c)"
  "cs_floating_registers (hart_state (update_csrs f c)) = cs_floating_registers (hart_state c)"
  "cs_program_counter (hart_state (update_csrs f c)) = cs_program_counter (hart_state c)"
  "cs_privilege (hart_state (update_csrs f c)) = cs_privilege (hart_state c)"
  "cs_csrs (hart_state (update_csrs f c)) = f (cs_csrs (hart_state c))"
  by (simp_all add: update_csrs_def)

lemma update_csrs_bus: "hart_bus (update_csrs f c) = hart_bus c"
  by (simp add: update_csrs_def)

lemma step_effect_counters:
  "step_effect c d r \<Longrightarrow> step_effect c (update_csrs increment_cycle d) r"
  "step_effect c d r \<Longrightarrow> step_effect c (update_csrs increment_instret d) r"
  by (simp_all add: step_effect_def cpu_wf_counters update_csrs_bus)

lemma instruction_effect:
  assumes "instruction_ok p c x" "ip_program_counter p = cs_program_counter (hart_state c)"
  shows "\<exists>d r. x = Some (d, r) \<and> step_effect c d r"
proof -
  obtain d r where x: "x = Some (d, r)" "ongoing c d" "\<not> sr_stalled r" "sr_retired r = (sr_trap r = None)"
    "\<And>t. sr_trap r = Some t \<Longrightarrow> during c d \<and> trap_ok p t"
    using assms(1) by (auto simp: instruction_ok_def)
  have "step_effect c d r"
    using x assms(2) csr_frozen_uncounted
    by (auto simp: step_effect_def ongoing_def during_def frozen_def trap_ok_def)
  with x(1) show ?thesis by blast
qed

lemma step_fetch_execute_effect:
  assumes "cpu_wf c"
  shows "\<exists>c' r. step_fetch_execute c = Some (c', r) \<and> step_effect c c' r"
proof -
  have even: "\<not> bit (cs_program_counter (hart_state c)) 0" using assms by (simp add: cpu_wf_def state_wf_def)
  obtain d f where f: "fetch c = Some (d, f)" "quiet c d"
      "\<And>p. f = Fetched p \<Longrightarrow> packet_ok p \<and> ip_program_counter p = cs_program_counter (hart_state c)"
      "\<And>t. f = FetchTrap t \<Longrightarrow> trap_pc t = cs_program_counter (hart_state c) \<and> fetch_trap_cause (trap_cause t)"
    using fetch_ok [OF even] by blast
  have d: "cpu_wf d" "hart_state d = hart_state c" "bus_accessed (hart_bus c) (hart_bus d)"
    using f(2) assms by (auto simp: quiet_def cpu_wf_def intro: bus_accessed_wf)
  show ?thesis
  proof (cases f)
    case (FetchTrap t)
    have "step_effect c d (step_failure t 0)"
      using f(4) [OF FetchTrap] d
      by (simp add: step_effect_def step_failure_def csr_frozen_refl) (auto simp: fetch_trap_cause_def)
    from step_effect_counters(1) [OF this] show ?thesis by (simp add: step_fetch_execute_def f(1) FetchTrap)
  next
    case (Fetched p)
    have same: "step_effect d e r \<Longrightarrow> step_effect c e r" for e r
      using bus_accessed_trans [OF d(3)] by (simp add: step_effect_def d(2))
    obtain e r where e: "execute p d = Some (e, r)" "step_effect c e r"
      using instruction_effect [OF execute_ok [OF d(1)], of p] f(3) [OF Fetched] same unfolding d(2) by blast
    then show ?thesis
      using step_effect_counters [of c] by (simp add: step_fetch_execute_def f(1) Fetched Let_def)
  qed
qed

lemma step_effect:
  assumes "cpu_wf c"
  shows "\<exists>c' r. step c = Some (c', r) \<and> step_effect c c' r"
proof -
  let ?c = "c\<lparr>hart_suppress_cycle_increment := False, hart_suppress_instret_increment := False\<rparr>"
  let ?w = "?c\<lparr>hart_state := (hart_state c)\<lparr>cs_waiting_for_interrupt := False\<rparr>\<rparr>"
  have w: "cpu_wf ?c" "cpu_wf ?w" using assms by (simp_all add: cpu_wf_def state_wf_def)
  have same: "step_effect ?c d r \<Longrightarrow> step_effect c d r" "step_effect ?w d r \<Longrightarrow> step_effect c d r" for d r
    by (simp_all add: step_effect_def)
  have "step_effect c ?c step_wait" using w(1) by (simp add: step_effect_def step_wait_def)
  note stall = step_effect_counters(1) [OF this]
  show ?thesis
    using stall step_fetch_execute_effect [OF w(1)] step_fetch_execute_effect [OF w(2)] same
    by (auto simp: step_def Let_def)
qed

subsection \<open>Trap delivery\<close>

lemma trap_vector_even: "\<not> bit (trap_vector f target interrupt cause) 0"
  by (auto simp: trap_vector_def Let_def bit_0 even_add even_and_iff)

lemma enter_trap_fields:
  "csr_vl (enter_machine_trap f p pc cause tv) = csr_vl f" "csr_vtype (enter_machine_trap f p pc cause tv) = csr_vtype f"
  "csr_vl (enter_supervisor_trap f p pc cause tv) = csr_vl f" "csr_vtype (enter_supervisor_trap f p pc cause tv) = csr_vtype f"
  by (simp_all add: enter_machine_trap_def enter_supervisor_trap_def Let_def)

lemma enter_trap_wf:
  assumes "cpu_wf c" "target \<noteq> User" "target = Supervisor \<longrightarrow> cs_privilege (hart_state c) \<noteq> Machine"
  shows "cpu_wf (fst (enter_trap target i cause enc pc tv c))"
proof -
  let ?f = "cs_csrs (hart_state c)" and ?p = "cs_privilege (hart_state c)"
  have f: "csr_ok ?p ?f" using assms(1) by (simp add: cpu_wf_def state_wf_def)
  have m: "csr_ok Machine (enter_machine_trap ?f ?p pc enc tv)"
    using f by (simp add: csr_ok_def csr_wf_machine_trap enter_trap_fields)
  have s: "?p \<noteq> Machine \<Longrightarrow> csr_ok Supervisor (enter_supervisor_trap ?f ?p pc enc tv)"
    using f by (simp add: csr_ok_def csr_wf_supervisor_trap enter_trap_fields bit_enter_supervisor_trap)
  show ?thesis
    using assms m s
    by (cases target) (simp_all add: enter_trap_def Let_def cpu_wf_def state_wf_def trap_vector_even)
qed

lemma take_trap_wf: "cpu_wf c \<Longrightarrow> cpu_wf (fst (take_trap t c))"
  unfolding take_trap_def Let_def by (intro enter_trap_wf) (auto simp: exception_delegated_def)

lemma take_pending_interrupt_wf:
  assumes "cpu_wf c"
  shows "cpu_wf (fst (take_pending_interrupt c))"
proof (cases "select_pending_interrupt (cs_csrs (hart_state c)) (cs_privilege (hart_state c))")
  case None
  then show ?thesis using assms by (simp add: take_pending_interrupt_def)
next
  case (Some i)
  have "pi_target i \<noteq> User" "pi_target i = Supervisor \<longrightarrow> cs_privilege (hart_state c) \<noteq> Machine"
    using interrupt_never_lowers_privilege [OF Some] by (auto simp: word_le_nat_alt)
  from enter_trap_wf [OF assms this] show ?thesis
    using Some by (simp add: take_pending_interrupt_def Let_def split_beta)
qed

subsection \<open>Running for ever\<close>

text \<open>
  The harts that can occur: after construction on any well-formed bus and reset to an even address, a step follows a
  step, a reported trap is delivered, interrupts are taken between steps, and in between the devices may change the
  bus, the clock and the pending interrupts.
\<close>

definition hart_boot :: "bus \<Rightarrow> u64 \<Rightarrow> cpu" where
  "hart_boot b pc = (cpu_create b)\<lparr>hart_state := cpu_state_reset cpu_state_create pc\<rparr>"

inductive hart_reachable :: "cpu \<Rightarrow> bool" where
  boot: "bus_wf b \<Longrightarrow> \<not> bit pc 0 \<Longrightarrow> hart_reachable (hart_boot b pc)"
| retire: "hart_reachable c \<Longrightarrow> step c = Some (c', r) \<Longrightarrow> sr_trap r = None \<Longrightarrow> hart_reachable c'"
| trap: "hart_reachable c \<Longrightarrow> step c = Some (c', r) \<Longrightarrow> sr_trap r = Some t \<Longrightarrow> hart_reachable (fst (take_trap t c'))"
| interrupt: "hart_reachable c \<Longrightarrow> hart_reachable (fst (take_pending_interrupt c))"
| device: "hart_reachable c \<Longrightarrow> bus_wf b \<Longrightarrow> hart_reachable (c\<lparr>hart_bus := b\<rparr>)"
| pending: "hart_reachable c \<Longrightarrow> hart_reachable (update_csrs (\<lambda>f. set_interrupt_pending f cause level) c)"
| clock: "hart_reachable c \<Longrightarrow> hart_reachable (update_csrs (\<lambda>f. set_time f now) c)"

lemma csr_ok_reset: "csr_wf f \<Longrightarrow> csr_ok p (csr_reset f)"
proof -
  have "csr_vl (csr_reset f) = 0" "csr_mstatus (csr_reset f) = kXlenFields" by (simp_all add: csr_reset_def)
  then show "csr_wf f \<Longrightarrow> csr_ok p (csr_reset f)" by (simp add: csr_ok_def csr_wf_reset emu_bits)
qed

lemma cpu_wf_boot: "bus_wf b \<Longrightarrow> \<not> bit pc 0 \<Longrightarrow> cpu_wf (hart_boot b pc)"
  by (simp add: hart_boot_def cpu_create_def cpu_state_reset_def cpu_state_create_def cpu_wf_def state_wf_def
      vs_wf_reset csr_ok_reset csr_wf_init mmu_create_def)

lemma csr_ok_outside:
  assumes "csr_ok p f"
  shows "csr_ok p (set_interrupt_pending f cause level)" "csr_ok p (set_time f now)"
  using assms csr_wf_set_interrupt [OF csr_ok_wf [OF assms]] csr_wf_counters(1) [OF csr_ok_wf [OF assms]]
  by (simp_all add: csr_ok_def set_interrupt_pending_def set_time_def Let_def split: if_splits)

lemma reachable_wf: "hart_reachable c \<Longrightarrow> cpu_wf c"
proof (induction rule: hart_reachable.induct)
  case (retire c c' r)
  then show ?case using step_effect [OF retire.IH] by (auto simp: step_effect_def)
next
  case (trap c c' r t)
  then show ?case using step_effect [OF trap.IH] take_trap_wf by (auto simp: step_effect_def)
next
  case (device c b)
  then show ?case by (simp add: cpu_wf_def)
next
  case (pending c cause level)
  then show ?case by (intro cpu_wf_update_csrs csr_ok_outside) (simp_all add: cpu_wf_def state_wf_def)
next
  case (clock c now)
  then show ?case by (intro cpu_wf_update_csrs csr_ok_outside) (simp_all add: cpu_wf_def state_wf_def)
qed (simp_all add: cpu_wf_boot take_pending_interrupt_wf)

text \<open>C1. The hart never gets stuck. From every hart that can occur, a step returns: no register index is out of range, no
  empty optional is read, and the unbounded compare-exchange loop of the atomic instructions ends. The step
  keeps the invariant: the sizes of the register files, the well-formed bus and TLB, all WARL fields of the CSR file, a
  vector length within the current VLMAX, MPRV clear outside machine mode and an even program counter.\<close>

theorem hart_never_stuck:
  assumes "hart_reachable c"
  shows "cpu_wf c \<and> (\<exists>c' r. step c = Some (c', r) \<and> cpu_wf c' \<and> sr_retired r = (sr_trap r = None \<and> \<not> sr_stalled r))"
  using reachable_wf [OF assms] step_effect [OF reachable_wf [OF assms]] by (auto simp: step_effect_def)

theorem hart_never_stuck_witness:
  "hart_reachable (hart_boot example_bus 0x80000000) \<and> (\<exists>c' r. step (hart_boot example_bus 0x80000000) = Some (c', r) \<and> cpu_wf c')"
proof -
  have "hart_reachable (hart_boot example_bus 0x80000000)"
    using example_bus_wf by (rule hart_reachable.boot) (simp add: bit_0)
  with hart_never_stuck [OF this] show ?thesis by blast
qed

text \<open>C3. Traps are precise: when a step reports a trap, its program counter is that of the instruction, the integer and
  floating-point registers, the program counter and the privilege are those before the step, and the CSR file differs
  at most in the cycle counter, in vstart and in the dirty bits of the vector context. Since the program counter is always
  even, an instruction-address-misaligned exception is never reported.\<close>

theorem traps_are_precise:
  assumes "cpu_wf c" "step c = Some (c', r)" "sr_trap r = Some t"
  shows "trap_pc t = cs_program_counter (hart_state c) \<and> trap_cause t \<noteq> InstructionAddressMisaligned \<and> \<not> sr_retired r
    \<and> cs_integer_registers (hart_state c') = cs_integer_registers (hart_state c)
    \<and> cs_floating_registers (hart_state c') = cs_floating_registers (hart_state c)
    \<and> cs_program_counter (hart_state c') = cs_program_counter (hart_state c)
    \<and> cs_privilege (hart_state c') = cs_privilege (hart_state c)
    \<and> csr_frozen (uncounted (cs_csrs (hart_state c))) (uncounted (cs_csrs (hart_state c')))"
  using step_effect [OF assms(1)] assms(2,3) by (auto simp: step_effect_def)

text \<open>The zeroed RAM of the example holds an illegal compressed instruction.\<close>

theorem traps_are_precise_witness:
  "\<exists>c' t. step (hart_boot example_bus 0x80000000) = Some (c', step_failure t 2) \<and> trap_cause t = IllegalInstruction
     \<and> trap_pc t = 0x80000000 \<and> cs_program_counter (hart_state c') = 0x80000000"
proof -
  let ?c = "hart_boot example_bus 0x80000000"
  have w: "cpu_wf ?c" by (intro cpu_wf_boot example_bus_wf) (simp add: bit_0)
  have s: "map_option snd (step ?c) = Some (step_failure \<lparr>trap_cause = IllegalInstruction, trap_value = 0,
      trap_pc = 0x80000000, trap_instruction = 0\<rparr> 2)" by code_simp
  then obtain c' where c': "step ?c = Some (c', step_failure \<lparr>trap_cause = IllegalInstruction, trap_value = 0,
      trap_pc = 0x80000000, trap_instruction = 0\<rparr> 2)" by (cases "step ?c") auto
  from traps_are_precise [OF w this] have "cs_program_counter (hart_state c') = cs_program_counter (hart_state ?c)"
    by (simp add: step_failure_def)
  moreover have "cs_program_counter (hart_state ?c) = 0x80000000" by (simp add: hart_boot_def cpu_state_reset_def)
  ultimately show ?thesis using c' by (intro exI conjI) auto
qed

text \<open>C2. Code is confined to its privilege: a step never raises the privilege of the hart, and a step in user or
  supervisor mode changes no machine-level CSR state other than the cycle and instret counters.\<close>

theorem step_confined:
  assumes "cpu_wf c" "step c = Some (c', r)"
  shows "privilege_rank (cs_privilege (hart_state c')) \<le> privilege_rank (cs_privilege (hart_state c))
    \<and> (cs_privilege (hart_state c) \<noteq> Machine \<longrightarrow>
         uncounted (machine_view (cs_csrs (hart_state c'))) = uncounted (machine_view (cs_csrs (hart_state c))))"
  using step_effect [OF assms(1)] assms(2) by (auto simp: step_effect_def)

text \<open>A supervisor-mode hart at an instruction that writes 10 to sscratch.\<close>

definition example_supervisor :: cpu where
  "example_supervisor = (let c = hart_boot (fst (bus_write example_bus 0x80000000 Word32 0x14055073 Store)) 0x80000000
     in c\<lparr>hart_state := (hart_state c)\<lparr>cs_privilege := Supervisor\<rparr>\<rparr>)"

theorem step_confined_witness:
  "\<exists>c' r. step example_supervisor = Some (c', r) \<and> csr_sscratch (cs_csrs (hart_state c')) = 10
     \<and> uncounted (machine_view (cs_csrs (hart_state c'))) = uncounted (machine_view (cs_csrs (hart_state example_supervisor)))"
proof -
  have "bus_wf (fst (bus_write example_bus 0x80000000 Word32 0x14055073 Store))"
    by (rule phys_bus.inv_wr [OF example_bus_wf])
  then have "cpu_wf (hart_boot (fst (bus_write example_bus 0x80000000 Word32 0x14055073 Store)) 0x80000000)"
    by (rule cpu_wf_boot) (simp add: bit_0)
  moreover have "csr_ok Supervisor (csr_reset csr_init)" by (simp add: csr_ok_reset csr_wf_init)
  ultimately have w: "cpu_wf example_supervisor"
    by (simp add: example_supervisor_def Let_def cpu_wf_def state_wf_def hart_boot_def cpu_create_def
        cpu_state_reset_def cpu_state_create_def)
  have "map_option (\<lambda>(c, r). csr_sscratch (cs_csrs (hart_state c))) (step example_supervisor) = Some 10" by code_simp
  then obtain c' r where s: "step example_supervisor = Some (c', r)" "csr_sscratch (cs_csrs (hart_state c')) = 10"
    by (cases "step example_supervisor") auto
  moreover have "cs_privilege (hart_state example_supervisor) \<noteq> Machine" by (simp add: example_supervisor_def Let_def)
  ultimately show ?thesis using step_confined [OF w s(1)] by blast
qed

subsection \<open>Delivering a trap and returning from it\<close>

lemma execute_xret:
  assumes "ip_length p = 4"
  shows "ip_bits p = 0x30200073 \<Longrightarrow> execute p c = (if cs_privilege (hart_state c) \<noteq> Machine then Some (c, illegal p)
      else trap_return p return_from_machine c)"
    and "ip_bits p = 0x10200073 \<Longrightarrow> execute p c =
      (if \<not> supervisor_return_allowed (cs_csrs (hart_state c)) (cs_privilege (hart_state c)) then Some (c, illegal p)
       else trap_return p return_from_supervisor c)"
proof -
  have d: "decode 0x30200073 = \<lparr>di_bits = 0x30200073, di_opcode = 0x73, di_destination = 0, di_function3 = 0,
      di_source1 = 0, di_source2 = 2, di_function7 = 0x18\<rparr>"
    "decode 0x10200073 = \<lparr>di_bits = 0x10200073, di_opcode = 0x73, di_destination = 0, di_function3 = 0,
      di_source1 = 0, di_source2 = 2, di_function7 = 8\<rparr>" by code_simp+
  show "ip_bits p = 0x30200073 \<Longrightarrow> execute p c = (if cs_privilege (hart_state c) \<noteq> Machine then Some (c, illegal p)
      else trap_return p return_from_machine c)"
    "ip_bits p = 0x10200073 \<Longrightarrow> execute p c =
      (if \<not> supervisor_return_allowed (cs_csrs (hart_state c)) (cs_privilege (hart_state c)) then Some (c, illegal p)
       else trap_return p return_from_supervisor c)"
    using assms by (simp_all add: execute_def packet_compressed_def execute_standard_def d register_reads
        execute_system_def execute_privileged_def Let_def)
qed

text \<open>C4. Delivery of an exception and the return from it: the hart goes to machine mode, or to supervisor mode when the
  exception is delegated and did not occur in machine mode, at the base of that mode's trap vector, with the cause, the
  trap value and the program counter recorded. Executing MRET there, or SRET when supervisor software may use it,
  resumes at the trapping instruction in the privilege it had, with its registers and the global interrupt enable
  of the handler's mode as they were.\<close>

theorem trap_delivery_roundtrip:
  assumes "cpu_wf c" "trap_pc t = cs_program_counter (hart_state c)"
    "\<not> bit (csr_mstatus (cs_csrs (hart_state c))) 22"
  shows "let s = hart_state c;
       delegated = (cs_privilege s \<noteq> Machine \<and> csr_medeleg (cs_csrs s) AND bit64 (unat (exception_code (trap_cause t))) \<noteq> 0);
       c1 = fst (take_trap t c); s1 = hart_state c1; f1 = cs_csrs s1;
       p = \<lparr>ip_program_counter = cs_program_counter s1, ip_bits = (if delegated then 0x10200073 else 0x30200073), ip_length = 4\<rparr>
     in cs_privilege s1 = (if delegated then Supervisor else Machine)
      \<and> cs_program_counter s1 = (if delegated then csr_stvec f1 else csr_mtvec f1) AND NOT 3
      \<and> (if delegated then csr_scause f1 = exception_code (trap_cause t) \<and> csr_stval f1 = trap_value t \<and> \<not> bit (csr_mstatus f1) 1
         else csr_mcause f1 = exception_code (trap_cause t) \<and> csr_mtval f1 = trap_value t \<and> \<not> bit (csr_mstatus f1) 3)
      \<and> (\<exists>c2. execute p c1 = Some (c2, step_success 4)
           \<and> cs_privilege (hart_state c2) = cs_privilege s \<and> cs_program_counter (hart_state c2) = cs_program_counter s
           \<and> cs_integer_registers (hart_state c2) = cs_integer_registers s
           \<and> cs_floating_registers (hart_state c2) = cs_floating_registers s
           \<and> (let n = (if delegated then 1 else 3) in
                bit (csr_mstatus (cs_csrs (hart_state c2))) n = bit (csr_mstatus (cs_csrs s)) n))"
proof -
  let ?s = "hart_state c" let ?f = "cs_csrs ?s" and ?p = "cs_privilege (hart_state c)"
  let ?del = "?p \<noteq> Machine \<and> csr_medeleg ?f AND bit64 (unat (exception_code (trap_cause t))) \<noteq> 0"
  have even: "cs_program_counter ?s AND NOT 1 = cs_program_counter ?s"
    using assms(1) by (intro bit_word_eqI) (auto simp: bit_simps cpu_wf_def state_wf_def intro!: gr0I)
  have del: "exception_delegated ?f ?p (trap_cause t) = ?del"
    using exception_code_less [of "trap_cause t"] by (simp add: exception_delegated_def cause_bit_def word_less_nat_alt)
  show ?thesis
  proof (cases ?del)
    case True
    let ?g = "enter_supervisor_trap ?f ?p (trap_pc t) (exception_code (trap_cause t)) (trap_value t)"
    have allowed: "supervisor_return_allowed ?g Supervisor"
      using assms(3) by (simp add: supervisor_return_allowed_def bit_enter_supervisor_trap)
    note returns = supervisor_trap_roundtrip [of ?p ?f "trap_pc t" "exception_code (trap_cause t)" "trap_value t", unfolded Let_def]
    show ?thesis
      using True returns allowed assms(2) even
      by (simp add: Let_def take_trap_def del enter_trap_def execute_xret trap_return_def split_beta trap_vector_def)
        (simp add: enter_supervisor_trap_def Let_def)
  next
    case False
    let ?g = "enter_machine_trap ?f ?p (trap_pc t) (exception_code (trap_cause t)) (trap_value t)"
    note returns = machine_trap_roundtrip [of ?f ?p "trap_pc t" "exception_code (trap_cause t)" "trap_value t", unfolded Let_def]
    show ?thesis
      using False returns assms(2) even
      by (simp add: Let_def take_trap_def del enter_trap_def execute_xret trap_return_def split_beta trap_vector_def
          del: de_Morgan_conj)
        (simp add: enter_machine_trap_def Let_def)
  qed
qed

theorem trap_delivery_roundtrip_witness:
  "let c = hart_boot example_bus 0x80000000;
     t = \<lparr>trap_cause = IllegalInstruction, trap_value = 7, trap_pc = 0x80000000, trap_instruction = 7\<rparr>;
     c1 = fst (take_trap t c);
     p = \<lparr>ip_program_counter = cs_program_counter (hart_state c1), ip_bits = 0x30200073, ip_length = 4\<rparr>
   in csr_mtval (cs_csrs (hart_state c1)) = 7
    \<and> (\<exists>c2. execute p c1 = Some (c2, step_success 4) \<and> cs_program_counter (hart_state c2) = 0x80000000)"
proof -
  let ?c = "hart_boot example_bus 0x80000000"
  let ?t = "\<lparr>trap_cause = IllegalInstruction, trap_value = 7, trap_pc = 0x80000000, trap_instruction = 7\<rparr>"
  have w: "cpu_wf ?c" using example_bus_wf by (rule cpu_wf_boot) (simp add: bit_0)
  have pc: "cs_program_counter (hart_state ?c) = 0x80000000" "cs_privilege (hart_state ?c) = Machine"
    by (simp_all add: hart_boot_def cpu_state_reset_def)
  have m: "\<not> bit (csr_mstatus (cs_csrs (hart_state ?c))) 22" by code_simp
  show ?thesis
    using trap_delivery_roundtrip [of ?c ?t, OF w _ m] by (auto simp: Let_def pc)
qed

end
