(* ===== verification/Cpu_Atomic.thy ===== *)
theory Cpu_Atomic
  imports Cpu_Correct
begin

unbundle bit_operations_syntax

text \<open>
  The read-modify-write instructions: a completed AMO is one won compare-exchange on the bus, at the physical address
  the store translation gave, from the value memory held to the value of the operation.
\<close>

lemma pm_cas_won:
  assumes "ar_exchanged (snd (pm_compare_exchange m off w e n t))"
  shows "ar_ok (snd (pm_compare_exchange m off w e n t))
    \<and> ar_value (snd (pm_compare_exchange m off w e n t)) = e AND value_mask w"
  using assms pm_cas_exchanged(1) [OF assms] by (auto simp: pm_compare_exchange_def Let_def split: if_splits)

lemma bus_cas_won:
  assumes "ar_exchanged (snd (bus_compare_exchange b a w e n t))"
  shows "ar_ok (snd (bus_compare_exchange b a w e n t))"
    "ar_value (snd (bus_compare_exchange b a w e n t)) = e AND value_mask w"
proof -
  from assms obtain i off where l: "bus_locate b a w = Inr (i, off)"
      "ar_exchanged (snd (region_compare_exchange (bus_regions b ! i) off w e n t))"
    by (rule bus_cas_exchanged)
  from l(2) obtain m where "bus_regions b ! i = RamRegion m" "ar_exchanged (snd (pm_compare_exchange m off w e n t))"
    by (rule region_cas_exchanged)
  with l(1) pm_cas_won show "ar_ok (snd (bus_compare_exchange b a w e n t))"
    "ar_value (snd (bus_compare_exchange b a w e n t)) = e AND value_mask w"
    by (auto simp: bus_compare_exchange_def split_beta Let_def map_prod_simps)
qed

text \<open>
  The rounds of the loop: what an AMO does to the hart between its first read and the exchange it wins is to
  translate the operand's address again, once per round. A round that loses the exchange writes nothing.
\<close>

inductive operand_located :: "instruction_packet \<Rightarrow> u64 \<Rightarrow> access_width \<Rightarrow> cpu \<Rightarrow> cpu \<Rightarrow> u64 \<Rightarrow> bool"
  for p :: instruction_packet and va :: u64 and w :: access_width where
  located_here: "guest_translate p va w MmuStore (data_context c) c = Some (d, Inr pa) \<Longrightarrow> operand_located p va w c d pa"
| located_again: "guest_translate p va w MmuStore (data_context c) c = Some (d, Inr pa') \<Longrightarrow>
    operand_located p va w d e pa \<Longrightarrow> operand_located p va w c e pa"

lemma quiet_refl_trans: "quiet c c" "quiet c d \<Longrightarrow> quiet d e \<Longrightarrow> quiet c e"
  by (auto simp: quiet_def intro: bus_accessed_trans)

lemma operand_located_quiet: "operand_located p va w c d pa \<Longrightarrow> quiet c d"
proof (induction rule: operand_located.induct)
  case (located_here c d pa)
  then show ?case by (cases rule: guest_translate_cases [of p va w MmuStore "data_context c" c]) auto
next
  case (located_again c d pa' e pa)
  from located_again(1) have "quiet c d"
    by (cases rule: guest_translate_cases [of p va w MmuStore "data_context c" c]) auto
  with located_again(3) show ?case by (rule quiet_refl_trans(2) [rotated])
qed

definition untranslated :: "mmu_context \<Rightarrow> bool" where
  "untranslated ctx \<longleftrightarrow> mc_privilege ctx = Machine \<or> satp_mode (mc_satp ctx) = 0"

lemma guest_translate_untranslated:
  "untranslated ctx \<Longrightarrow> guest_translate p va w kind ctx c = Some (c, Inr va)"
  by (auto simp: untranslated_def guest_translate_def translate_def)

lemma operand_located_untranslated:
  "operand_located p va w c d pa \<Longrightarrow> untranslated (data_context c) \<Longrightarrow> d = c \<and> pa = va"
  by (induction rule: operand_located.induct) (auto simp: guest_translate_untranslated)

lemma region_cas_lost:
  assumes "ar_ok (snd (region_compare_exchange r off w e n t))" "\<not> ar_exchanged (snd (region_compare_exchange r off w e n t))"
  shows "fst (region_compare_exchange r off w e n t) = r"
  using assms
  by (cases r) (auto simp: map_prod_simps pm_compare_exchange_def br_compare_exchange_def clint_compare_exchange_def
      plic_compare_exchange_def uart_compare_exchange_def virtio_compare_exchange_def Let_def split: if_splits)

lemma bus_cas_lost:
  assumes "ar_ok (snd (bus_compare_exchange b a w e n t))" "\<not> ar_exchanged (snd (bus_compare_exchange b a w e n t))"
  shows "fst (bus_compare_exchange b a w e n t) = b"
  using assms
  by (auto simp: bus_compare_exchange_def split_beta Let_def region_cas_lost set_region_def
      split: sum.splits prod.splits)

lemma region_read_ram: "fst (region_read r off w t) = RamRegion m \<Longrightarrow> r = RamRegion m"
  by (cases r) (auto simp: map_prod_simps pm_read_def Let_def)

lemma bus_cas_won_read:
  assumes "ar_exchanged (snd (bus_compare_exchange (fst (bus_read b a w t)) a w e n t'))"
  shows "fst (bus_read b a w t) = b"
proof (cases "bus_locate b a w")
  case (Inr p)
  let ?b = "fst (bus_read b a w t)"
  obtain i off where p: "p = (i, off)" by (cases p)
  have l: "bus_locate ?b a w = Inr p" by (rule bus_locate_layout [OF Inr]) (rule phys_bus.rng_rd)
  from assms have "ar_exchanged (snd (region_compare_exchange (bus_regions ?b ! i) off w e n t'))"
    by (rule bus_cas_exchanged) (use l p in auto)
  then obtain m where "bus_regions ?b ! i = RamRegion m" by (rule region_cas_exchanged)
  then have "fst (region_read (bus_regions b ! i) off w t) = bus_regions b ! i"
    using Inr p bus_locate_Inr(1) [of b a w i off] region_read_ram [of "bus_regions b ! i" off w t m]
    by (simp add: bus_read_def split_beta Let_def set_region_def)
  then show ?thesis using Inr p by (simp add: bus_read_def split_beta Let_def set_region_def)
qed (simp add: bus_read_def)

text \<open>The exchange that ends the loop.\<close>

definition amo_exchange ::
    "instruction_packet \<Rightarrow> atomic_operation \<Rightarrow> bool \<Rightarrow> access_width \<Rightarrow> u64 \<Rightarrow> u64 \<Rightarrow> u64 \<Rightarrow> cpu \<Rightarrow> cpu \<Rightarrow> bool" where
  "amo_exchange p op b w va y old c c' \<longleftrightarrow> (\<exists>d pa. operand_located p va w c d pa
     \<and> ar_exchanged (snd (bus_compare_exchange (hart_bus d) pa w old (execute_atomic_operation op old y b) Atomic))
     \<and> c' = d\<lparr>hart_bus := fst (bus_compare_exchange (hart_bus d) pa w old (execute_atomic_operation op old y b) Atomic)\<rparr>)"

lemma guest_exchange_won:
  assumes "guest_compare_exchange p va w x (execute_atomic_operation op x y b) c = Some (c', g)"
    and "ga_trap g = None" "ar_exchanged (ga_access g)"
  shows "amo_exchange p op b w va y x c c'"
proof (cases rule: guest_translate_cases [of p va w MmuStore "data_context c" c])
  case (fault d t)
  then show ?thesis using assms by (auto simp: guest_compare_exchange_def guest_fault_def)
next
  case (address d pa)
  then show ?thesis
    using assms unfolding amo_exchange_def
    by (intro exI [of _ d] exI [of _ pa])
      (auto simp: guest_compare_exchange_def guest_done_def split_beta split: if_splits intro: located_here)
qed

lemma guest_exchange_lost:
  assumes "guest_compare_exchange p va w x n c = Some (c', g)" "ga_trap g = None" "\<not> ar_exchanged (ga_access g)"
  shows "\<exists>pa. guest_translate p va w MmuStore (data_context c) c = Some (c', Inr pa)"
    "ar_value (ga_access g) AND value_mask w = ar_value (ga_access g)"
proof -
  show "\<exists>pa. guest_translate p va w MmuStore (data_context c) c = Some (c', Inr pa)"
  proof (cases rule: guest_translate_cases [of p va w MmuStore "data_context c" c])
    case (fault d t)
    then show ?thesis using assms by (auto simp: guest_compare_exchange_def guest_fault_def)
  next
    case (address d pa)
    with assms bus_cas_lost [of "hart_bus d" pa w x n Atomic] show ?thesis
      by (auto simp: guest_compare_exchange_def guest_done_def split_beta split: if_splits)
  qed
  show "ar_value (ga_access g) AND value_mask w = ar_value (ga_access g)"
  proof (cases rule: guest_translate_cases [of p va w MmuStore "data_context c" c])
    case (fault d t)
    then show ?thesis using assms by (auto simp: guest_compare_exchange_def guest_fault_def)
  next
    case (address d pa)
    then show ?thesis
      using assms phys_bus.cas_value_fits [of "hart_bus d" pa w x n Atomic]
      by (auto simp: guest_compare_exchange_def guest_done_def split_beta and_value_mask split: if_splits)
  qed
qed

lemma atomic_loop_won:
  assumes "atomic_loop p op b w va y x c = Some r"
  shows "snd r = Inr old \<longrightarrow> x AND value_mask w = x \<longrightarrow>
    amo_exchange p op b w va y old c (fst r) \<and> old AND value_mask w = old"
  using assms
proof (induction p op b w va y x c r rule: atomic_loop.raw_induct [rotated, consumes 1, case_names round])
  case (round loop p op b w va y x c r)
  from round(2) obtain d g where x: "guest_compare_exchange p va w x (execute_atomic_operation op x y b) c = Some (d, g)"
    and r: "(case ga_trap g of None \<Rightarrow> if ar_exchanged (ga_access g) then Some (d, Inr x)
        else loop p op b w va y (ar_value (ga_access g)) d | Some t \<Rightarrow> Some (d, Inl t)) = Some r"
    by (auto split: option.splits)
  show ?case
  proof (cases "ga_trap g = None")
    case False
    then show ?thesis using r by auto
  next
    case trapless: True
    show ?thesis
    proof (cases "ar_exchanged (ga_access g)")
      case True
      then show ?thesis using guest_exchange_won [OF x trapless] r trapless by auto
    next
      case False
      then have "loop p op b w va y (ar_value (ga_access g)) d = Some r" using r trapless by simp
      from round(1) [OF this] guest_exchange_lost [OF x trapless False] show ?thesis
        unfolding amo_exchange_def by (blast intro: located_again)
    qed
  qed
qed

lemma guest_read_fits:
  assumes "guest_read p va w kind t c = Some (c', g)" "ga_trap g = None"
  shows "quiet c c'" "ar_value (ga_access g) AND value_mask w = ar_value (ga_access g)"
proof -
  let ?ctx = "if kind = MmuInstructionFetch then fetch_context c else data_context c"
  show "quiet c c'" using guest_read_ok [of p c va w kind t] assms(1) by (auto simp: guest_ok_def)
  show "ar_value (ga_access g) AND value_mask w = ar_value (ga_access g)"
  proof (cases rule: guest_translate_cases [of p va w kind ?ctx c])
    case (fault d t)
    then show ?thesis using assms by (auto simp: guest_read_def Let_def guest_fault_def)
  next
    case (address d pa)
    then show ?thesis
      using assms phys_bus.rd_value [of "hart_bus d" pa w t]
      by (auto simp: guest_read_def guest_done_def Let_def split_beta and_value_mask split: if_splits)
  qed
qed

lemma execute_amo_completed:
  assumes "execute_amo p i op b w va y pc c = Some (c', r)" "sr_trap r = None"
  obtains d g e old where "guest_read p va w MmuAtomic Atomic c = Some (d, g)" "ga_trap g = None"
    "atomic_loop p op b w va y (ar_value (ga_access g)) d = Some (e, Inr old)"
    "write_and_retire p (di_destination i) (if b then sign_extend_word old else old) pc e = Some (c', r)"
proof -
  have eq: "execute_amo p i op b w va y pc c = guest_read p va w MmuAtomic Atomic c \<bind> (\<lambda>(d, g). case ga_trap g of
         None \<Rightarrow> atomic_loop p op b w va y (ar_value (ga_access g)) d \<bind>
           (\<lambda>(e, result). case result of Inl t \<Rightarrow> Some (e, step_failure t (ip_length p))
             | Inr x \<Rightarrow> write_and_retire p (di_destination i) (if b then sign_extend_word x else x) pc e)
       | Some t \<Rightarrow> Some (d, step_failure t (ip_length p)))"
    using assms by (auto simp: execute_amo_def misaligned_failure_def step_failure_def split: if_splits)
  from assms(1) obtain d g where read: "guest_read p va w MmuAtomic Atomic c = Some (d, g)"
    unfolding eq by (auto simp: bind_eq_Some_conv)
  with assms have trapless: "ga_trap g = None" unfolding eq by (auto simp: step_failure_def split: option.splits)
  with assms(1) read obtain e q where loop': "atomic_loop p op b w va y (ar_value (ga_access g)) d = Some (e, q)"
    unfolding eq by (auto simp: bind_eq_Some_conv)
  with assms read trapless obtain old where q: "q = Inr old"
    unfolding eq by (cases q) (auto simp: step_failure_def)
  have fin: "write_and_retire p (di_destination i) (if b then sign_extend_word old else old) pc e = Some (c', r)"
    using assms(1) read trapless loop' q unfolding eq by simp
  show thesis by (rule that [OF read trapless loop' [unfolded q] fin])
qed

lemma guest_read_translated:
  assumes "guest_read p va w MmuAtomic t c = Some (c', g)" "ga_trap g = None"
  shows "\<exists>d pa. guest_translate p va w MmuAtomic (data_context c) c = Some (d, Inr pa)
    \<and> c' = d\<lparr>hart_bus := fst (bus_read (hart_bus d) pa w t)\<rparr>"
  by (cases rule: guest_translate_cases [of p va w MmuAtomic "data_context c" c])
    (use assms in \<open>auto simp: guest_read_def guest_fault_def split_beta Let_def\<close>)

lemma amo_untranslated:
  assumes "untranslated (data_context c)"
    and "guest_translate p va w MmuAtomic (data_context c) c = Some (d1, Inr pa1)"
    and d0: "d0 = d1\<lparr>hart_bus := fst (bus_read (hart_bus d1) pa1 w Atomic)\<rparr>"
    and located: "operand_located p va w d0 d pa"
    and won: "ar_exchanged (snd (bus_compare_exchange (hart_bus d) pa w old n Atomic))"
  shows "d = c \<and> pa = va"
proof -
  have d1: "d1 = c" "pa1 = va" using assms(1,2) by (simp_all add: guest_translate_untranslated)
  then have "data_context d0 = data_context c" by (simp add: d0 data_context_def)
  with operand_located_untranslated [OF located] assms(1) have d: "d = d0" "pa = va" by simp_all
  from won have "fst (bus_read (hart_bus c) va w Atomic) = hart_bus c"
    unfolding d by (intro bus_cas_won_read) (simp add: d0 d1)
  then show ?thesis by (simp add: d d0 d1)
qed

text \<open>C5. A completed AMO is atomic and touches memory nowhere else: from the state c before the instruction the
  hart translates the operand's address for the atomic read, reads it, and then does nothing but translate the address
  again until one bus compare-exchange finds in memory the value old and replaces it by the operation applied to old
  and rs2, leaving every other location alone. Where addresses are not translated, the exchange is made on the very
  bus and address the instruction started with, so old is what memory held before the instruction. rd receives old,
  sign-extended for the word forms, and nothing else of the hart changes.\<close>

theorem amo_atomic:
  assumes "cpu_wf c" "execute_amo p i op b w va y pc c = Some (c', r)" "sr_trap r = None"
  shows "\<exists>d1 pa1 d pa old s. guest_translate p va w MmuAtomic (data_context c) c = Some (d1, Inr pa1)
     \<and> operand_located p va w (d1\<lparr>hart_bus := fst (bus_read (hart_bus d1) pa1 w Atomic)\<rparr>) d pa
     \<and> (mc_privilege (data_context c) = Machine \<or> satp_mode (mc_satp (data_context c)) = 0 \<longrightarrow> d = c \<and> pa = va)
     \<and> ar_ok (snd (bus_read (hart_bus d) pa w t)) \<and> ar_value (snd (bus_read (hart_bus d) pa w t)) = old
     \<and> snd (bus_read (hart_bus c') pa w t)
         = ar_success (take_bit (8 * unat (width_in_bytes w)) (execute_atomic_operation op old y b)) False
     \<and> (\<forall>pa' w'. unat pa + unat (width_in_bytes w) \<le> unat pa' \<or> unat pa' + unat (width_in_bytes w') \<le> unat pa \<longrightarrow>
          snd (bus_read (hart_bus c') pa' w' t) = snd (bus_read (hart_bus d) pa' w' t))
     \<and> set_integer (hart_state c) (unat (di_destination i)) (if b then sign_extend_word old else old) = Some s
     \<and> hart_state c' = s\<lparr>cs_program_counter := pc\<rparr>"
proof -
  from assms(2,3) obtain d0 g e old where read: "guest_read p va w MmuAtomic Atomic c = Some (d0, g)"
    and trapless: "ga_trap g = None"
    and loop: "atomic_loop p op b w va y (ar_value (ga_access g)) d0 = Some (e, Inr old)"
    and fin: "write_and_retire p (di_destination i) (if b then sign_extend_word old else old) pc e = Some (c', r)"
    by (rule execute_amo_completed)
  note fits = guest_read_fits [OF read trapless]
  from guest_read_translated [OF read trapless] obtain d1 pa1
    where first: "guest_translate p va w MmuAtomic (data_context c) c = Some (d1, Inr pa1)"
      "d0 = d1\<lparr>hart_bus := fst (bus_read (hart_bus d1) pa1 w Atomic)\<rparr>" by auto
  from atomic_loop_won [OF loop, of old] fits(2) have won: "amo_exchange p op b w va y old d0 e" "old AND value_mask w = old"
    by auto
  from won(1) obtain d pa where x: "operand_located p va w d0 d pa"
    "ar_exchanged (snd (bus_compare_exchange (hart_bus d) pa w old (execute_atomic_operation op old y b) Atomic))"
    "e = d\<lparr>hart_bus := fst (bus_compare_exchange (hart_bus d) pa w old (execute_atomic_operation op old y b) Atomic)\<rparr>"
    by (auto simp: amo_exchange_def)
  have q: "quiet c d" by (rule quiet_refl_trans(2) [OF fits(1) operand_located_quiet [OF x(1)]])
  have wf: "bus_wf (hart_bus d)" using q assms(1) by (auto simp: quiet_def cpu_wf_def intro: bus_accessed_wf)
  note before = bus_cas_won [OF x(2)]
  note observed = phys_bus.cas_observed [OF before(1), of t]
  from fin obtain s where s: "set_integer (hart_state e) (unat (di_destination i)) (if b then sign_extend_word old else old) = Some s"
    "c' = e\<lparr>hart_state := s\<lparr>cs_program_counter := pc\<rparr>\<rparr>"
    by (auto simp: write_and_retire_def retire_def set_program_counter_def bind_eq_Some_conv)
  have bus: "hart_bus c' = fst (bus_compare_exchange (hart_bus d) pa w old (execute_atomic_operation op old y b) Atomic)"
    using s(2) x(3) by simp
  have same: "d = c \<and> pa = va" if "untranslated (data_context c)"
    using amo_untranslated [OF that first x(1,2)] .
  show ?thesis
  proof (intro exI conjI allI impI)
    show "operand_located p va w (d1\<lparr>hart_bus := fst (bus_read (hart_bus d1) pa1 w Atomic)\<rparr>) d pa"
      using x(1) first(2) by simp
    show "ar_value (snd (bus_read (hart_bus d) pa w t)) = old" using observed before(2) won(2) by simp
    show "set_integer (hart_state c) (unat (di_destination i)) (if b then sign_extend_word old else old) = Some s"
      using s(1) q x(3) by (simp add: quiet_def)
    fix pa' :: u64 and w'
    assume "unat pa + unat (width_in_bytes w) \<le> unat pa' \<or> unat pa' + unat (width_in_bytes w') \<le> unat pa"
    then show "snd (bus_read (hart_bus c') pa' w' t) = snd (bus_read (hart_bus d) pa' w' t)"
      unfolding bus by (rule phys_bus.rd_after_cas_other [OF wf x(2)])
  qed (use first(1) same observed s phys_bus.rd_after_cas [OF wf x(2)] bus in \<open>auto simp: untranslated_def\<close>)
qed

text \<open>AMOADD.W of 3 to a word of RAM that holds 5: memory then holds 8 and a1 is 5.\<close>

definition example_amo :: cpu where
  "example_amo = hart_boot (fst (bus_write example_bus 0x80000008 Word32 5 Store)) 0x80000000"

theorem amo_atomic_witness:
  "\<exists>c' r s. execute_amo \<lparr>ip_program_counter = 0x80000000, ip_bits = 0x00B525AF, ip_length = 4\<rparr> (decode 0x00B525AF)
       Add True Word32 0x80000008 3 0x80000004 example_amo = Some (c', r)
     \<and> ar_value (snd (bus_read (hart_bus c') 0x80000008 Word32 Load)) = 8
     \<and> set_integer (hart_state example_amo) 11 5 = Some s \<and> hart_state c' = s\<lparr>cs_program_counter := 0x80000004\<rparr>"
proof -
  let ?p = "\<lparr>ip_program_counter = 0x80000000, ip_bits = 0x00B525AF, ip_length = 4\<rparr>"
  let ?e = "execute_amo ?p (decode 0x00B525AF) Add True Word32 0x80000008 3 0x80000004 example_amo"
  have w: "cpu_wf example_amo"
    unfolding example_amo_def by (rule cpu_wf_boot [OF phys_bus.inv_wr [OF example_bus_wf]]) (simp add: bit_0)
  have "map_option (\<lambda>(c, r). sr_trap r) ?e = Some None" by code_simp
  then obtain c' r where e: "?e = Some (c', r)" "sr_trap r = None" by (cases ?e) auto
  have bare: "mc_privilege (data_context example_amo) = Machine" by code_simp
  have five: "ar_value (snd (bus_read (hart_bus example_amo) 0x80000008 Word32 Load)) = 5" by code_simp
  have rd: "unat (di_destination (decode 0x00B525AF)) = 11" "sign_extend_word 5 = 5"
    "take_bit 32 (execute_atomic_operation Add 5 3 True) = 8" by code_simp+
  from amo_atomic [OF w e, of Load] bare five rd e(1) show ?thesis
    by (elim exE conjE) (auto simp: ar_success_def)
qed

end
