(* ===== verification/Cpu_Integer.thy ===== *)
theory Cpu_Integer
  imports Cpu_Step
begin

unbundle bit_operations_syntax

text \<open>
  The integer arithmetic and the branches of the hart against integer arithmetic: a reference written with the signed
  and unsigned values of the operands, at the width of the operation.
\<close>

definition alu_reference :: "u8 \<Rightarrow> u8 \<Rightarrow> 'a::len word \<Rightarrow> 'a word \<Rightarrow> 'a word option" where
  "alu_reference function3 function7 a b =
     (let n = nat (uint b mod int LENGTH('a)) in
      if function7 = 0 then
        if function3 = 0 then Some (word_of_int (uint a + uint b))
        else if function3 = 1 then Some (word_of_int (uint a * 2 ^ n))
        else if function3 = 2 then Some (if sint a < sint b then 1 else 0)
        else if function3 = 3 then Some (if uint a < uint b then 1 else 0)
        else if function3 = 4 then Some (word_of_int (uint a XOR uint b))
        else if function3 = 5 then Some (word_of_int (uint a div 2 ^ n))
        else if function3 = 6 then Some (word_of_int (uint a OR uint b))
        else if function3 = 7 then Some (word_of_int (uint a AND uint b))
        else None
      else if function7 = 0x20 \<and> function3 = 0 then Some (word_of_int (uint a - uint b))
      else if function7 = 0x20 \<and> function3 = 5 then Some (word_of_int (sint a div 2 ^ n))
      else None)"

definition branch_reference :: "u8 \<Rightarrow> u64 \<Rightarrow> u64 \<Rightarrow> bool option" where
  "branch_reference function3 a b =
     (if function3 = 0 then Some (uint a = uint b)
      else if function3 = 1 then Some (uint a \<noteq> uint b)
      else if function3 = 4 then Some (sint a < sint b)
      else if function3 = 5 then Some (sint b \<le> sint a)
      else if function3 = 6 then Some (uint a < uint b)
      else if function3 = 7 then Some (uint b \<le> uint a)
      else None)"

lemma cpu_signed_less_sint: "cpu_signed_less a b \<longleftrightarrow> sint a < sint b"
proof -
  have "cpu_signed_less a b = signed_less a b" by (simp add: cpu_signed_less_def signed_less_def Let_def bit64_def)
  then show ?thesis by (simp only: signed_less_correct)
qed

lemma word_sign_test: "v AND push_bit (LENGTH('a) - 1) 1 \<noteq> 0 \<longleftrightarrow> bit v (LENGTH('a) - 1)" for v :: "'a::len word"
  by (simp add: push_bit_eq_mult and_exp_eq_0_iff_not_bit)

lemma fill_shift_signed:
  fixes v :: "'a::len word"
  assumes "n < LENGTH('a)"
  shows "(if n = 0 then v else let r = drop_bit n v in
      if bit v (LENGTH('a) - 1) then r OR push_bit (LENGTH('a) - n) (NOT 0) else r) = signed_drop_bit n v"
  using assms
  by (intro bit_word_eqI) (auto simp: Let_def bit_simps not_le add.commute dest: bit_imp_le_length)

lemma shift_right_signed:
  "n < 64 \<Longrightarrow> arithmetic_shift_right64 v n = signed_drop_bit n v"
  "n < 32 \<Longrightarrow> arithmetic_shift_right32 x n = signed_drop_bit n x"
proof -
  show "n < 64 \<Longrightarrow> arithmetic_shift_right64 v n = signed_drop_bit n v"
    using fill_shift_signed [of n v] word_sign_test [of v] by (simp add: arithmetic_shift_right64_def bit64_def Let_def split: if_splits)
  show "n < 32 \<Longrightarrow> arithmetic_shift_right32 x n = signed_drop_bit n x"
    using fill_shift_signed [of n x] word_sign_test [of x] by (simp add: arithmetic_shift_right32_def Let_def split: if_splits)
qed

lemma signed_drop_bit_int: "signed_drop_bit n (v :: 'a::len word) = word_of_int (sint v div 2 ^ n)"
proof -
  have "signed_drop_bit n v = word_of_int (sint (signed_drop_bit n v))" by simp
  then show ?thesis by (simp only: sint_signed_drop_bit_eq drop_bit_eq_div)
qed

lemma push_bit_int: "push_bit n (v :: 'a::len word) = word_of_int (uint v * 2 ^ n)"
  by (simp add: push_bit_eq_mult)

lemma drop_bit_int: "drop_bit n (v :: 'a::len word) = word_of_int (uint v div 2 ^ n)"
proof -
  have "drop_bit n v = word_of_int (uint (drop_bit n v))" by simp
  also have "uint (drop_bit n v) = uint v div 2 ^ n"
    by (subst unsigned_drop_bit_eq) (simp add: drop_bit_eq_div [where 'a = int] take_bit_int_eq_self)
  finally show ?thesis .
qed

lemma shift_amount_masks:
  "unat (b AND 0x3F :: u64) = nat (uint b mod 64)" "unat (x AND 0x1F :: u32) = nat (uint x mod 32)"
proof -
  have "b AND 0x3F = take_bit 6 b" "x AND 0x1F = take_bit 5 x" by (simp_all add: take_bit_eq_mask mask_numeral)
  then show "unat (b AND 0x3F :: u64) = nat (uint b mod 64)" "unat (x AND 0x1F :: u32) = nat (uint x mod 32)"
    by (simp_all add: unsigned_take_bit_eq take_bit_eq_mod nat_mod_distrib unat_mod_distrib)
qed

lemma word_ops_int:
  "a + b = word_of_int (uint a + uint b)" "a - b = word_of_int (uint a - uint b)"
  "a XOR b = word_of_int (uint a XOR uint b)" "a OR b = word_of_int (uint a OR uint b)"
  "a AND b = word_of_int (uint a AND uint b)" for a b :: "'a::len word"
  by (simp_all add: of_int_xor_eq of_int_or_eq of_int_and_eq)

lemmas word_values = word_ops_int [symmetric] signed_drop_bit_int [symmetric] push_bit_int [symmetric]
  drop_bit_int [symmetric]

lemma ucast_low_word: "ucast (a AND 0xFFFFFFFF :: u64) = (ucast a :: u32)"
  by (rule bit_word_eqI) (auto simp: low_word bit_simps)

lemma alu_register_values:
  assumes "function7 \<noteq> 1"
  shows "alu_register function3 function7 a b = alu_reference function3 function7 a b"
proof -
  have n: "nat (uint b mod 64) < 64" by (simp add: nat_less_iff)
  show ?thesis
    unfolding alu_register_def alu_reference_def Let_def word_values
    using assms by (simp add: shift_amount_masks cpu_signed_less_sint shift_right_signed(1) [OF n] word_less_def)
qed

text \<open>The immediate forms are the register forms on the sign-extended immediate; for the 64-bit shifts the upper six
  bits of the instruction take the place of function7.\<close>

lemma immediate_shift_amounts:
  "immediate_i bits AND 0x3F = ucast (drop_bit 20 bits AND 0x3F)"
  "(ucast (immediate_i bits) :: u32) AND 0x1F = drop_bit 20 bits AND 0x1F"
proof -
  have m: "(0x3F :: 'a::len word) = mask 6" "(0x1F :: 'a word) = mask 5" by (simp_all add: mask_eq_exp_minus_1)
  show "immediate_i bits AND 0x3F = ucast (drop_bit 20 bits AND 0x3F)"
    "(ucast (immediate_i bits) :: u32) AND 0x1F = drop_bit 20 bits AND 0x1F"
    unfolding m by (auto intro!: bit_word_eqI simp: immediate_i_def sign_extend_bits bit_simps)
qed

lemma narrow_cast:
  "unat (ucast (x AND 0x3F :: u32) :: u64) = unat (ucast (x AND 0x3F) :: u8)"
  "unat (ucast (x AND 0x1F :: u32) :: u8) = unat (x AND 0x1F)"
proof -
  have "x AND 0x3F < 2 ^ 8" "x AND 0x1F < 2 ^ 8"
    using unat_and_le [of x "0x3F"] unat_and_le [of x "0x1F"] by (simp_all add: word_less_nat_alt)
  then show "unat (ucast (x AND 0x3F) :: u64) = unat (ucast (x AND 0x3F) :: u8)"
    "unat (ucast (x AND 0x1F) :: u8) = unat (x AND 0x1F)"
    by (simp_all add: unsigned_ucast_eq take_bit_eq_mod word_less_nat_alt)
qed

lemma function6_codes:
  fixes x :: u32
  defines "function6 \<equiv> (ucast (x AND 0x3F) :: u8)"
  shows "2 * function6 \<noteq> 1" "2 * function6 = 0 \<longleftrightarrow> function6 = 0"
    "2 * function6 = 0x20 \<longleftrightarrow> function6 = 0x10"
proof -
  have "list_all (\<lambda>n. 2 * (of_nat n :: u8) \<noteq> 1 \<and> (2 * (of_nat n :: u8) = 0 \<longleftrightarrow> (of_nat n :: u8) = 0)
      \<and> (2 * (of_nat n :: u8) = 0x20 \<longleftrightarrow> (of_nat n :: u8) = 0x10)) [0..<64]" by code_simp
  moreover have "unat function6 < 64"
    using unat_and_le [of x "0x3F"] by (simp add: function6_def unsigned_ucast_eq take_bit_eq_mod word_le_nat_alt)
  ultimately show "2 * function6 \<noteq> 1" "2 * function6 = 0 \<longleftrightarrow> function6 = 0"
    "2 * function6 = 0x20 \<longleftrightarrow> function6 = 0x10"
    unfolding list_all_iff by (force dest: bspec [of _ _ "unat function6"])+
qed

lemma immediate_forms:
  "alu_immediate bits function3 a = alu_register function3
     (if function3 = 1 \<or> function3 = 5 then 2 * ucast (drop_bit 26 bits AND 0x3F) else 0) a (immediate_i bits)"
  "function7 \<noteq> 1 \<Longrightarrow> alu_immediate_word bits function3 function7 a =
     alu_register_word function3 (if function3 = 0 then 0 else function7) a (immediate_i bits)"
proof -
  show "alu_immediate bits function3 a = alu_register function3
     (if function3 = 1 \<or> function3 = 5 then 2 * ucast (drop_bit 26 bits AND 0x3F) else 0) a (immediate_i bits)"
    unfolding alu_immediate_def alu_register_def Let_def
    by (simp add: immediate_shift_amounts narrow_cast function6_codes)
  show "function7 \<noteq> 1 \<Longrightarrow> alu_immediate_word bits function3 function7 a =
     alu_register_word function3 (if function3 = 0 then 0 else function7) a (immediate_i bits)"
    by (simp add: alu_immediate_word_def alu_register_word_def Let_def immediate_shift_amounts narrow_cast ucast_low_word)
qed



end
