(* ===== verification/Cpu_Memory.thy ===== *)
theory Cpu_Memory
  imports Cpu_Correct
begin

unbundle bit_operations_syntax

text \<open>
  Two limits of the guest accesses, on concrete machines: a scalar access that crosses a page boundary is translated at
  its first byte only, and an atomic instruction on a device register reads the register before it is refused.
\<close>

text \<open>
  A page table at 0x80000000 that maps the first gigabyte of the address space to 0xC0000000 and nothing else, and RAM
  around the physical address 0x100000000, one byte past the end of that page.
\<close>

definition crossing_bus :: bus where
  "crossing_bus = foldl (\<lambda>b r. fst (register_region b (Some r))) bus_create
     [RamRegion \<lparr>pm_range = \<lparr>rng_base = 0x80000000, rng_size = 16, rng_end_exclusive = 0x80000010\<rparr>, pm_name = ''table'',
        pm_bytes = [0xCF, 0, 0, 0x30] @ replicate 12 0\<rparr>,
      RamRegion \<lparr>pm_range = \<lparr>rng_base = 0xFFFFFFF8, rng_size = 16, rng_end_exclusive = 0x100000008\<rparr>, pm_name = ''ram'',
        pm_bytes = [1, 2, 3, 4, 5, 6, 7, 8, 9, 10, 11, 12, 13, 14, 15, 16]\<rparr>]"

definition crossing_hart :: cpu where
  "crossing_hart = (let c = hart_boot crossing_bus 0; s = hart_state c in
     c\<lparr>hart_state := s\<lparr>cs_privilege := Supervisor,
         cs_csrs := (cs_csrs s)\<lparr>csr_satp := 0x8000000000080000\<rparr>,
         cs_integer_registers := (cs_integer_registers s)[10 := 0x3FFFFFFC]\<rparr>\<rparr>)"

text \<open>LD and LBU at an offset from x10.\<close>

definition load_outcome :: "u32 \<Rightarrow> cpu \<Rightarrow> (u64 + trap) option" where
  "load_outcome bits c =
     (case execute \<lparr>ip_program_counter = 0, ip_bits = bits, ip_length = 4\<rparr> c of
        None \<Rightarrow> None
      | Some (c', r) \<Rightarrow> Some (case sr_trap r of None \<Rightarrow> Inl (cs_integer_registers (hart_state c') ! 11) | Some t \<Rightarrow> Inr t))"

text \<open>A scalar access that crosses a page boundary is checked at its first byte only: with the second page
  unmapped, a byte load from it faults, yet a doubleword load that starts four bytes before it completes and takes
  its upper half from the physical memory behind the first page.\<close>

theorem page_crossing_load_unchecked:
  "load_outcome 0x00053583 crossing_hart = Some (Inl 0x0C0B0A0908070605)
   \<and> load_outcome 0x00454583 crossing_hart = Some (Inr \<lparr>trap_cause = LoadPageFault, trap_value = 0x40000000,
        trap_pc = 0, trap_instruction = 0x00454583\<rparr>)"
proof
  show "load_outcome 0x00053583 crossing_hart = Some (Inl 0x0C0B0A0908070605)" by code_simp
  show "load_outcome 0x00454583 crossing_hart = Some (Inr \<lparr>trap_cause = LoadPageFault, trap_value = 0x40000000,
        trap_pc = 0, trap_instruction = 0x00454583\<rparr>)" by code_simp
qed

text \<open>A PLIC with source 1 pending and enabled for the machine context, and AMOADD.W on its claim register.\<close>

definition claiming_hart :: cpu where
  "claiming_hart = hart_boot (fst (register_region bus_create (Some (PlicRegion (set_source_level
     (plic_create\<lparr>pl_priority := (replicate 32 0)[1 := 7], pl_enable := [2, 0]\<rparr>) 1 True))))) 0"

definition plic_claims :: "cpu \<Rightarrow> u8 list list" where
  "plic_claims c = List.map_filter (\<lambda>r. case r of PlicRegion d \<Rightarrow> Some (take 2 (pl_claimed_by d)) | _ \<Rightarrow> None) (bus_regions (hart_bus c))"

text \<open>An atomic instruction on the claim register of the PLIC raises a store access fault, but the claim it refused to
  complete has been made: the source is claimed and its interrupt is lost to the handler.\<close>

theorem amo_claims_before_fault:
  "plic_claims claiming_hart = [[0, 0]]
   \<and> map_option (\<lambda>(c, r). (plic_claims c, map_option trap_cause (sr_trap r)))
       (execute_amo \<lparr>ip_program_counter = 0, ip_bits = 0x00B525AF, ip_length = 4\<rparr> (decode 0x00B525AF)
          Add True Word32 0x0C200004 0 4 claiming_hart)
     = Some ([[0, 1]], Some StoreAccessFault)"
proof
  show "plic_claims claiming_hart = [[0, 0]]" by code_simp
  show "map_option (\<lambda>(c, r). (plic_claims c, map_option trap_cause (sr_trap r)))
       (execute_amo \<lparr>ip_program_counter = 0, ip_bits = 0x00B525AF, ip_length = 4\<rparr> (decode 0x00B525AF)
          Add True Word32 0x0C200004 0 4 claiming_hart)
     = Some ([[0, 1]], Some StoreAccessFault)" by code_simp
qed

end
