(* ===== verification/Terminal.thy ===== *)
theory Terminal
  imports Emu_Prelude
begin

unbundle bit_operations_syntax

text \<open>
  The host terminal (\<open>include/rvemu/platform/terminal.hpp\<close>, \<open>src/platform/terminal.cpp\<close>): raw mode with what was there
  before saved and restored, and single non-blocking reads and writes. The system calls and the constants of the host's
  headers are a parameter, \<open>host_tty\<close>, over the state of the host. A call that is interrupted is repeated, so a read or
  write has the value \<open>None\<close> if it is interrupted for ever. The text of an error is left out.
\<close>

datatype terminal_error_code = TerminalNone | NotTty | TermiosFailure | FcntlFailure | TerminalIoFailure

record terminal_result =
  tr_code :: terminal_error_code
  tr_errno_value :: int

datatype terminal_io_status = TerminalReady | WouldBlock | TerminalClosed | TerminalError

record terminal_io_result =
  tio_status :: terminal_io_status
  tio_byte_count :: nat
  tio_errno_value :: int

record termios =
  c_iflag :: u64
  c_oflag :: u64
  c_cflag :: u64
  c_lflag :: u64
  c_cc :: "nat \<Rightarrow> u8"

text \<open>The constants: the flags \<open>make_raw\<close> clears in the three flag words, CS8, and the positions of VMIN and VTIME.\<close>

record tty_constants =
  tc_brkint :: u64
  tc_icrnl :: u64
  tc_inpck :: u64
  tc_istrip :: u64
  tc_ixon :: u64
  tc_opost :: u64
  tc_cs8 :: u64
  tc_echo :: u64
  tc_icanon :: u64
  tc_iexten :: u64
  tc_isig :: u64
  tc_vmin :: nat
  tc_vtime :: nat
  tc_o_nonblock :: u32
  tc_eintr :: int
  tc_eagain :: int
  tc_ewouldblock :: int
  tc_einval :: int

text \<open>The system calls; an integer on the right, or in an option, is the error number of a failed call.\<close>

record 'h host_tty =
  ht_constants :: tty_constants
  ht_isatty :: "'h \<Rightarrow> int option"
  ht_tcgetattr :: "'h \<Rightarrow> termios + int"
  ht_tcsetattr :: "termios \<Rightarrow> 'h \<Rightarrow> 'h \<times> int option"
  ht_getfl :: "'h \<Rightarrow> u32 + int"
  ht_setfl :: "u32 \<Rightarrow> 'h \<Rightarrow> 'h \<times> int option"
  ht_read :: "'h \<Rightarrow> 'h \<times> (u8 option + int)"
  ht_write :: "u8 list \<Rightarrow> 'h \<Rightarrow> 'h \<times> (nat + int)"

record terminal_backend =
  tm_termios_saved :: bool
  tm_flags_saved :: bool
  tm_active :: bool
  tm_original_flags :: u32
  tm_original_termios :: termios

definition terminal_success :: terminal_result where
  "terminal_success = \<lparr>tr_code = TerminalNone, tr_errno_value = 0\<rparr>"

definition terminal_failure :: "terminal_error_code \<Rightarrow> int \<Rightarrow> terminal_result" where
  "terminal_failure code errno = \<lparr>tr_code = code, tr_errno_value = errno\<rparr>"

definition io_ready :: "nat \<Rightarrow> terminal_io_result" where
  "io_ready n = \<lparr>tio_status = TerminalReady, tio_byte_count = n, tio_errno_value = 0\<rparr>"

definition io_would_block :: terminal_io_result where
  "io_would_block = \<lparr>tio_status = WouldBlock, tio_byte_count = 0, tio_errno_value = 0\<rparr>"

definition io_closed :: terminal_io_result where
  "io_closed = \<lparr>tio_status = TerminalClosed, tio_byte_count = 0, tio_errno_value = 0\<rparr>"

definition io_error :: "int \<Rightarrow> terminal_io_result" where
  "io_error errno = \<lparr>tio_status = TerminalError, tio_byte_count = 0, tio_errno_value = errno\<rparr>"

definition terminal_create :: terminal_backend where
  "terminal_create = \<lparr>tm_termios_saved = False, tm_flags_saved = False, tm_active = False, tm_original_flags = 0,
     tm_original_termios = \<lparr>c_iflag = 0, c_oflag = 0, c_cflag = 0, c_lflag = 0, c_cc = \<lambda>_. 0\<rparr>\<rparr>"

definition make_raw :: "tty_constants \<Rightarrow> termios \<Rightarrow> termios" where
  "make_raw k v =
     v\<lparr>c_iflag := c_iflag v AND NOT (tc_brkint k OR tc_icrnl k OR tc_inpck k OR tc_istrip k OR tc_ixon k),
       c_oflag := c_oflag v AND NOT (tc_opost k),
       c_cflag := c_cflag v OR tc_cs8 k,
       c_lflag := c_lflag v AND NOT (tc_echo k OR tc_icanon k OR tc_iexten k OR tc_isig k),
       c_cc := (c_cc v)(tc_vmin k := 0, tc_vtime k := 0)\<rparr>"

definition is_transient_io_error :: "tty_constants \<Rightarrow> int \<Rightarrow> bool" where
  "is_transient_io_error k v \<longleftrightarrow> v = tc_eintr k \<or> v = tc_eagain k \<or> v = tc_ewouldblock k"

definition terminal_restore ::
    "'h host_tty \<Rightarrow> terminal_backend \<Rightarrow> 'h \<Rightarrow> terminal_backend \<times> 'h \<times> terminal_result" where
  "terminal_restore ops t h =
     (let (h, e1) = (if tm_termios_saved t then ht_tcsetattr ops (tm_original_termios t) h else (h, None));
          first_failure = (case e1 of Some e \<Rightarrow> terminal_failure TermiosFailure e | None \<Rightarrow> terminal_success);
          (h, e2) = (if tm_flags_saved t then ht_setfl ops (tm_original_flags t) h else (h, None));
          first_failure = (case e2 of
             Some e \<Rightarrow> if tr_code first_failure = TerminalNone then terminal_failure FcntlFailure e else first_failure
           | None \<Rightarrow> first_failure)
      in (t\<lparr>tm_active := False, tm_termios_saved := False, tm_flags_saved := False\<rparr>, h, first_failure))"

definition activate_raw ::
    "'h host_tty \<Rightarrow> terminal_backend \<Rightarrow> 'h \<Rightarrow> terminal_backend \<times> 'h \<times> terminal_result" where
  "activate_raw ops t h =
     (if tm_active t then (t, h, terminal_success)
      else case ht_isatty ops h of
        Some e \<Rightarrow> (t, h, terminal_failure NotTty e)
      | None \<Rightarrow>
        case ht_tcgetattr ops h of
          Inr e \<Rightarrow> (t, h, terminal_failure TermiosFailure e)
        | Inl current \<Rightarrow>
          let t = t\<lparr>tm_original_termios := current, tm_termios_saved := True\<rparr> in
          case ht_getfl ops h of
            Inr e \<Rightarrow> (case terminal_restore ops t h of (t, h, _) \<Rightarrow> (t, h, terminal_failure FcntlFailure e))
          | Inl flags \<Rightarrow>
            let t = t\<lparr>tm_original_flags := flags, tm_flags_saved := True\<rparr> in
            case ht_tcsetattr ops (make_raw (ht_constants ops) current) h of
              (h, Some e) \<Rightarrow> (case terminal_restore ops t h of (t, h, _) \<Rightarrow> (t, h, terminal_failure TermiosFailure e))
            | (h, None) \<Rightarrow>
              case ht_setfl ops (flags OR tc_o_nonblock (ht_constants ops)) h of
                (h, Some e) \<Rightarrow> (case terminal_restore ops t h of (t, h, _) \<Rightarrow> (t, h, terminal_failure FcntlFailure e))
              | (h, None) \<Rightarrow> (t\<lparr>tm_active := True\<rparr>, h, terminal_success))"

text \<open>A read byte comes with the result; it is only meaningful when the result is ready.\<close>

partial_function (option) read_byte :: "'h host_tty \<Rightarrow> 'h \<Rightarrow> ('h \<times> terminal_io_result \<times> u8) option" where
  "read_byte ops h =
     (case ht_read ops h of
        (h, Inl (Some byte)) \<Rightarrow> Some (h, io_ready 1, byte)
      | (h, Inl None) \<Rightarrow> Some (h, io_would_block, 0)
      | (h, Inr e) \<Rightarrow>
          if e = tc_eintr (ht_constants ops) then read_byte ops h
          else if e = tc_eagain (ht_constants ops) \<or> e = tc_ewouldblock (ht_constants ops) then Some (h, io_would_block, 0)
          else Some (h, io_error e, 0))"

partial_function (option) write_loop :: "'h host_tty \<Rightarrow> u8 list \<Rightarrow> 'h \<Rightarrow> ('h \<times> terminal_io_result) option" where
  "write_loop ops data h =
     (case ht_write ops data h of
        (h, Inl n) \<Rightarrow> Some (h, if 0 < n then io_ready n else io_would_block)
      | (h, Inr e) \<Rightarrow>
          if e = tc_eintr (ht_constants ops) then write_loop ops data h
          else if is_transient_io_error (ht_constants ops) e then Some (h, io_would_block)
          else Some (h, io_error e))"

declare read_byte.simps [code] write_loop.simps [code]

text \<open>\<open>None\<close> is the null pointer.\<close>

definition write_bytes :: "'h host_tty \<Rightarrow> u8 list option \<Rightarrow> nat \<Rightarrow> 'h \<Rightarrow> ('h \<times> terminal_io_result) option" where
  "write_bytes ops data len h =
     (if len = 0 then Some (h, io_ready 0)
      else case data of
        None \<Rightarrow> Some (h, io_error (tc_einval (ht_constants ops)))
      | Some bytes \<Rightarrow> write_loop ops (take len bytes) h)"

subsection \<open>Raw mode is given back\<close>

text \<open>
  A terminal whose settings and flags are those last set: the queries report them, a successful change makes them what was
  asked for and nothing else, and a failed change leaves them alone.
\<close>

definition tty_settings :: "('h \<Rightarrow> termios) \<Rightarrow> ('h \<Rightarrow> u32) \<Rightarrow> 'h host_tty \<Rightarrow> bool" where
  "tty_settings settings flags ops \<longleftrightarrow>
     (\<forall>h v. ht_tcgetattr ops h = Inl v \<longrightarrow> v = settings h) \<and> (\<forall>h v. ht_getfl ops h = Inl v \<longrightarrow> v = flags h)
   \<and> (\<forall>v h. flags (fst (ht_tcsetattr ops v h)) = flags h
        \<and> settings (fst (ht_tcsetattr ops v h)) = (if snd (ht_tcsetattr ops v h) = None then v else settings h))
   \<and> (\<forall>v h. settings (fst (ht_setfl ops v h)) = settings h
        \<and> flags (fst (ht_setfl ops v h)) = (if snd (ht_setfl ops v h) = None then v else flags h))"

definition terminal_idle :: "terminal_backend \<Rightarrow> bool" where
  "terminal_idle t \<longleftrightarrow> \<not> tm_active t \<and> \<not> tm_termios_saved t \<and> \<not> tm_flags_saved t"

lemma terminal_restore_settings:
  assumes "tty_settings settings flags ops" "terminal_restore ops t h = (t', h', r)"
  shows "terminal_idle t'"
    "settings h' = settings h \<or> tm_termios_saved t \<and> settings h' = tm_original_termios t"
    "flags h' = flags h \<or> tm_flags_saved t \<and> flags h' = tm_original_flags t"
    "tm_termios_saved t \<Longrightarrow> tr_code r = TerminalNone \<or> (\<forall>h. snd (ht_tcsetattr ops (tm_original_termios t) h) = None)
       \<Longrightarrow> settings h' = tm_original_termios t"
    "tm_flags_saved t \<Longrightarrow> tr_code r = TerminalNone \<Longrightarrow> flags h' = tm_original_flags t"
proof -
  obtain h1 e1 where s: "(if tm_termios_saved t then ht_tcsetattr ops (tm_original_termios t) h else (h, None)) = (h1, e1)"
    by fastforce
  obtain h2 e2 where f: "(if tm_flags_saved t then ht_setfl ops (tm_original_flags t) h1 else (h1, None)) = (h2, e2)"
    by fastforce
  have r: "t' = t\<lparr>tm_active := False, tm_termios_saved := False, tm_flags_saved := False\<rparr>" "h' = h2"
    "tr_code r = TerminalNone \<longleftrightarrow> e1 = None \<and> e2 = None"
    using assms(2) unfolding terminal_restore_def s Let_def prod.case f
    by (auto simp: terminal_failure_def terminal_success_def split: option.splits)
  have h1: "flags h1 = flags h" "settings h1 = (if tm_termios_saved t \<and> e1 = None then tm_original_termios t else settings h)"
    using assms(1) s unfolding tty_settings_def by (metis fst_conv snd_conv)+
  have h2: "settings h2 = settings h1" "flags h2 = (if tm_flags_saved t \<and> e2 = None then tm_original_flags t else flags h1)"
    using assms(1) f unfolding tty_settings_def by (metis fst_conv snd_conv)+
  show "terminal_idle t'" using r(1) by (simp add: terminal_idle_def)
  show "settings h' = settings h \<or> tm_termios_saved t \<and> settings h' = tm_original_termios t"
    "flags h' = flags h \<or> tm_flags_saved t \<and> flags h' = tm_original_flags t" using r(2) h1 h2 by auto
  show "tm_termios_saved t \<Longrightarrow> tr_code r = TerminalNone \<or> (\<forall>h. snd (ht_tcsetattr ops (tm_original_termios t) h) = None)
       \<Longrightarrow> settings h' = tm_original_termios t"
    using r(2,3) h1 h2 s by (metis snd_conv)
  show "tm_flags_saved t \<Longrightarrow> tr_code r = TerminalNone \<Longrightarrow> flags h' = tm_original_flags t" using r h2 by simp
qed

lemma terminal_restore_idle:
  "terminal_idle t \<Longrightarrow> terminal_restore ops t h = (t, h, terminal_success)"
  by (simp add: terminal_restore_def terminal_success_def terminal_idle_def)

text \<open>The terminal is given back as it was found. A successful activation puts the terminal into raw mode, and whatever is
  read and written in between, a restore that reports success puts settings and flags back and a second restore changes
  nothing. An activation that fails leaves the flags as they were, and the settings too unless the host refuses to put
  the old ones back.\<close>

theorem terminal_restored:
  assumes "tty_settings settings flags ops" "terminal_idle t" "activate_raw ops t h = (t1, h1, r)"
  shows "if tr_code r = TerminalNone
    then tm_active t1 \<and> settings h1 = make_raw (ht_constants ops) (settings h)
      \<and> (\<forall>h2 t3 h3 r3. terminal_restore ops t1 h2 = (t3, h3, r3) \<longrightarrow>
           terminal_idle t3 \<and> terminal_restore ops t3 h3 = (t3, h3, terminal_success)
           \<and> (tr_code r3 = TerminalNone \<longrightarrow> settings h3 = settings h \<and> flags h3 = flags h))
    else terminal_idle t1 \<and> flags h1 = flags h
      \<and> ((\<forall>g. snd (ht_tcsetattr ops (settings h) g) = None) \<longrightarrow> settings h1 = settings h)"
proof -
  let ?raw = "make_raw (ht_constants ops) (settings h)"
  let ?t0 = "t\<lparr>tm_original_termios := settings h, tm_termios_saved := True\<rparr>"
  let ?t1 = "?t0\<lparr>tm_original_flags := flags h, tm_flags_saved := True\<rparr>"
  have get: "ht_tcgetattr ops h = Inl v \<Longrightarrow> v = settings h" "ht_getfl ops h = Inl w \<Longrightarrow> w = flags h" for v w
    using assms(1) by (auto simp: tty_settings_def)
  have set: "flags g = flags h" "settings g = (if e = None then ?raw else settings h)"
    if "ht_tcsetattr ops ?raw h = (g, e)" for g e
    using assms(1) that unfolding tty_settings_def by (metis fst_conv snd_conv)+
  have fset: "settings g' = settings g" "flags g' = flags g \<or> e = None" if "ht_setfl ops v g = (g', e)" for v g g' e
    using assms(1) that unfolding tty_settings_def by (metis fst_conv snd_conv)+
  have undone: "terminal_idle t' \<and> flags g' = flags h \<and> ((\<forall>g. snd (ht_tcsetattr ops (settings h) g) = None) \<longrightarrow> settings g' = settings h)"
    if "terminal_restore ops s g = (t', g', x)" "s \<in> {?t0, ?t1}" "flags g = flags h" for s g t' g' x
    using terminal_restore_settings [OF assms(1) that(1)] that(2,3) assms(2) by (auto simp: terminal_idle_def)
  have raw: "terminal_idle t3 \<and> terminal_restore ops t3 h3 = (t3, h3, terminal_success)
      \<and> (tr_code r3 = TerminalNone \<longrightarrow> settings h3 = settings h \<and> flags h3 = flags h)"
    if "terminal_restore ops (?t1\<lparr>tm_active := True\<rparr>) h2 = (t3, h3, r3)" for h2 t3 h3 r3
    using terminal_restore_settings [OF assms(1) that] terminal_restore_idle by auto
  have code: "tr_code terminal_success = TerminalNone" "tr_code (terminal_failure c e) = c" for c e
    by (simp_all add: terminal_success_def terminal_failure_def)
  have not_active: "\<not> tm_active t" using assms(2) by (simp add: terminal_idle_def)
  consider (refused) e where "(ht_isatty ops h = Some e \<or> ht_tcgetattr ops h = Inr e)"
    | (no_flags) e where "ht_isatty ops h = None" "ht_tcgetattr ops h = Inl (settings h)" "ht_getfl ops h = Inr e"
    | (tried) g e where "ht_isatty ops h = None" "ht_tcgetattr ops h = Inl (settings h)" "ht_getfl ops h = Inl (flags h)"
        "ht_tcsetattr ops ?raw h = (g, e)"
    using get by (cases "ht_isatty ops h"; cases "ht_tcgetattr ops h"; cases "ht_getfl ops h"; cases "ht_tcsetattr ops ?raw h") auto
  then show ?thesis
  proof cases
    case refused
    then show ?thesis
      using assms(2,3) not_active by (auto simp: activate_raw_def code split: option.splits sum.splits)
  next
    case no_flags
    obtain t' g' x where u: "terminal_restore ops ?t0 h = (t', g', x)" by (cases "terminal_restore ops ?t0 h")
    then have e: "t1 = t'" "h1 = g'" "tr_code r \<noteq> TerminalNone"
      using assms(3) no_flags not_active by (auto simp: activate_raw_def code)
    show ?thesis unfolding if_not_P [OF e(3)] e(1,2) by (rule undone [OF u]) simp_all
  next
    case (tried g e)
    obtain g2 e2 where f: "ht_setfl ops (flags h OR tc_o_nonblock (ht_constants ops)) g = (g2, e2)" by fastforce
    note def = assms(3) [unfolded activate_raw_def Let_def, simplified not_active tried if_False option.case sum.case prod.case f]
    show ?thesis
    proof (cases "e = None \<and> e2 = None")
      case True
      then have e: "t1 = ?t1\<lparr>tm_active := True\<rparr>" "h1 = g2" "tr_code r = TerminalNone" using def by (simp_all add: code)
      have g2: "settings g2 = ?raw" using True set(2) [OF tried(4)] fset(1) [OF f] by simp
      show ?thesis unfolding if_P [OF e(3)] e(1,2) by (intro conjI allI impI; (drule raw, blast)?) (simp_all add: g2)
    next
      case False
      define s where "s = (if e = None then g2 else g)"
      obtain t' g' x where u: "terminal_restore ops ?t1 s = (t', g', x)" by (cases "terminal_restore ops ?t1 s")
      have "flags s = flags h" using set(1) [OF tried(4)] fset(2) [OF f] False by (auto simp: s_def)
      moreover have e: "t1 = t'" "h1 = g'" "tr_code r \<noteq> TerminalNone"
        using def u False by (auto simp: s_def code split: option.splits)
      ultimately show ?thesis unfolding if_not_P [OF e(3)] e(1,2) by (intro undone [OF u]) simp_all
    qed
  qed
qed


text \<open>A host with one terminal: its settings and its flags.\<close>

definition example_tty :: "(termios \<times> u32) host_tty" where
  "example_tty = \<lparr>ht_constants = \<lparr>tc_brkint = 2, tc_icrnl = 256, tc_inpck = 16, tc_istrip = 32, tc_ixon = 512, tc_opost = 1,
       tc_cs8 = 768, tc_echo = 8, tc_icanon = 256, tc_iexten = 1024, tc_isig = 128, tc_vmin = 16, tc_vtime = 17,
       tc_o_nonblock = 4, tc_eintr = 4, tc_eagain = 35, tc_ewouldblock = 35, tc_einval = 22\<rparr>,
     ht_isatty = \<lambda>_. None, ht_tcgetattr = \<lambda>h. Inl (fst h), ht_tcsetattr = \<lambda>v h. ((v, snd h), None),
     ht_getfl = \<lambda>h. Inl (snd h), ht_setfl = \<lambda>v h. ((fst h, v), None),
     ht_read = \<lambda>h. (h, Inl None), ht_write = \<lambda>bs h. (h, Inl (length bs))\<rparr>"

theorem terminal_restored_witness:
  "\<exists>t1 h1 r. activate_raw example_tty terminal_create (tm_original_termios terminal_create, 2) = (t1, h1, r)
     \<and> tm_active t1 \<and> fst h1 = make_raw (ht_constants example_tty) (tm_original_termios terminal_create)"
proof -
  obtain t1 h1 r where a: "activate_raw example_tty terminal_create (tm_original_termios terminal_create, 2) = (t1, h1, r)"
    by (cases "activate_raw example_tty terminal_create (tm_original_termios terminal_create, 2)")
  then have "tr_code r = TerminalNone"
    by (auto simp: activate_raw_def example_tty_def terminal_create_def terminal_success_def)
  moreover have "tty_settings fst snd example_tty" by (simp add: tty_settings_def example_tty_def)
  moreover have "terminal_idle terminal_create" by (simp add: terminal_idle_def terminal_create_def)
  ultimately show ?thesis using terminal_restored [OF _ _ a, of fst snd] a by auto
qed

end
