(* ===== verification/Bus_Devices.thy ===== *)
theory Bus_Devices
  imports Bus
begin

unbundle bit_operations_syntax

text \<open>
  The bus as the platform code sees it. The shared pointers to the devices are indices of their regions, which no access
  moves or turns into another kind of device; and RAM is seen through the bus one byte at a time, as the DMA loops of the
  block device do. The proofs about the platform use only these laws.
\<close>

subsection \<open>References to devices\<close>

definition clint_at :: "bus \<Rightarrow> nat \<Rightarrow> clint option" where
  "clint_at b i =
     (if i < length (bus_regions b) then case bus_regions b ! i of ClintRegion d \<Rightarrow> Some d | _ \<Rightarrow> None else None)"

definition plic_at :: "bus \<Rightarrow> nat \<Rightarrow> plic option" where
  "plic_at b i =
     (if i < length (bus_regions b) then case bus_regions b ! i of PlicRegion d \<Rightarrow> Some d | _ \<Rightarrow> None else None)"

definition uart_at :: "bus \<Rightarrow> nat \<Rightarrow> uart option" where
  "uart_at b i =
     (if i < length (bus_regions b) then case bus_regions b ! i of UartRegion d \<Rightarrow> Some d | _ \<Rightarrow> None else None)"

definition virtio_at :: "bus \<Rightarrow> nat \<Rightarrow> virtio option" where
  "virtio_at b i =
     (if i < length (bus_regions b) then case bus_regions b ! i of VirtioRegion v \<Rightarrow> Some v | _ \<Rightarrow> None else None)"

fun region_kind :: "region \<Rightarrow> nat" where
  "region_kind (RamRegion d) = 0"
| "region_kind (RomRegion d) = 1"
| "region_kind (ClintRegion d) = 2"
| "region_kind (PlicRegion d) = 3"
| "region_kind (UartRegion d) = 4"
| "region_kind (VirtioRegion d) = 5"

definition bus_kinds :: "bus \<Rightarrow> nat list" where
  "bus_kinds b = map region_kind (bus_regions b)"

definition kind_at :: "bus \<Rightarrow> nat \<Rightarrow> nat \<Rightarrow> bool" where
  "kind_at b i k \<longleftrightarrow> i < length (bus_kinds b) \<and> bus_kinds b ! i = k"

lemma device_at_kind:
  "clint_at b i \<noteq> None \<longleftrightarrow> kind_at b i 2" "plic_at b i \<noteq> None \<longleftrightarrow> kind_at b i 3" "uart_at b i \<noteq> None \<longleftrightarrow> kind_at b i 4"
  "virtio_at b i \<noteq> None \<longleftrightarrow> kind_at b i 5"
  by (auto simp: clint_at_def plic_at_def uart_at_def virtio_at_def kind_at_def bus_kinds_def split: region.split)

lemma device_at_Some:
  "clint_at b i = Some d \<longleftrightarrow> i < length (bus_regions b) \<and> bus_regions b ! i = ClintRegion d"
  "plic_at b i = Some p \<longleftrightarrow> i < length (bus_regions b) \<and> bus_regions b ! i = PlicRegion p"
  "uart_at b i = Some u \<longleftrightarrow> i < length (bus_regions b) \<and> bus_regions b ! i = UartRegion u"
  "virtio_at b i = Some t \<longleftrightarrow> i < length (bus_regions b) \<and> bus_regions b ! i = VirtioRegion t"
  by (auto simp: clint_at_def plic_at_def uart_at_def virtio_at_def split: region.splits)

lemma region_kind_ops:
  "region_kind (fst (region_read r off w t)) = region_kind r" "region_kind (fst (region_write r off w v t)) = region_kind r"
  "region_kind (fst (region_compare_exchange r off w x n t)) = region_kind r"
  by (cases r; simp add: map_prod_simps)+

lemma bus_accessed_kinds: "bus_accessed b b' \<Longrightarrow> bus_kinds b' = bus_kinds b"
  using bus_accessed_nth [of b b' "\<lambda>j r. region_kind r = region_kind (bus_regions b ! j)"]
  by (auto simp: bus_kinds_def region_kind_ops intro: nth_equalityI)

lemma bus_kinds_set:
  "region_kind r = region_kind (bus_regions b ! i) \<Longrightarrow> bus_kinds (set_region b i r) = bus_kinds b"
  by (simp add: bus_kinds_def set_region_def map_update) (metis list_update_id map_update)

lemma bus_accessed_layout: "bus_accessed b b' \<Longrightarrow> bus_layout b' = bus_layout b"
  using bus_accessed_nth [of b b' "\<lambda>j r. region_range r = region_range (bus_regions b ! j)"]
  by (auto simp: bus_layout_def any_region.rng_rd any_region.rng_wr any_region.rng_cas intro: nth_equalityI)

lemma virtio_at_accessed: "bus_accessed b b' \<Longrightarrow> virtio_at b i \<noteq> None \<Longrightarrow> virtio_at b' i \<noteq> None"
  unfolding device_at_kind by (simp add: kind_at_def bus_accessed_kinds)

lemma virtio_at_set [simp]: "i < length (bus_regions b) \<Longrightarrow> virtio_at (set_region b i (VirtioRegion t)) i = Some t"
  by (simp add: virtio_at_def set_region_def)

subsection \<open>Bytes of RAM\<close>

definition ram_at :: "bus \<Rightarrow> u64 \<Rightarrow> bool" where
  "ram_at b a \<longleftrightarrow> (case bus_locate b a Byte of
     Inl _ \<Rightarrow> False
   | Inr (i, off) \<Rightarrow> (case bus_regions b ! i of RamRegion m \<Rightarrow> True | _ \<Rightarrow> False))"

definition guest_byte :: "bus \<Rightarrow> u64 \<Rightarrow> u8" where
  "guest_byte b a = ucast (ar_value (snd (bus_read b a Byte DmaRead)))"

lemma ram_atE:
  assumes "bus_wf b" "ram_at b a"
  obtains i off m where "bus_locate b a Byte = Inr (i, off)" "i < length (bus_regions b)" "bus_regions b ! i = RamRegion m"
    "pm_wf m" "off = a - rng_base (pm_range m)" "ar_ok (pm_validate m off Byte)"
    "unat off < length (pm_bytes m)"
proof -
  obtain i off m where l: "bus_locate b a Byte = Inr (i, off)" "bus_regions b ! i = RamRegion m"
    using assms(2) by (auto simp: ram_at_def split: sum.splits region.splits)
  note i = bus_locate_Inr [OF l(1)]
  have wf: "pm_wf m" using nth_region_wf [OF assms(1) i(1)] l(2) by simp
  have off: "off = a - rng_base (pm_range m)" using i(3) l(2) by (simp add: range_offset_of_def)
  have "unat off < length (pm_bytes m)"
    using i(2,3) l(2) wf range_offset_fits(1) [of "pm_range m" a 1] by (simp add: pm_wf_def)
  then show thesis using that [OF l(1) i(1) l(2) wf off] wf by (simp add: pm_validate_ok_iff)
qed

lemma guest_read:
  assumes "bus_wf b" "ram_at b a"
  shows "bus_read b a Byte DmaRead = (b, ar_success (ucast (guest_byte b a)) False)"
  using assms
proof (cases rule: ram_atE)
  case (1 i off m)
  then have r: "bus_read b a Byte DmaRead = (b, ar_success (pm_read_unlocked m off Byte) False)"
    using set_region_self [of i b] by (simp add: bus_read_def pm_read_def Let_def)
  have "ucast (ucast (pm_read_unlocked m off Byte) :: u8) = pm_read_unlocked m off Byte"
    using pm_read_unlocked_fits [of Byte m off] by (simp add: unsigned_ucast_eq)
  then show ?thesis by (simp add: r guest_byte_def)
qed

lemma guest_byte_eq:
  assumes "bus_locate b a Byte = Inr (i, off)" "bus_regions b ! i = RamRegion m" "ar_ok (pm_validate m off Byte)"
  shows "guest_byte b a = pm_bytes m ! unat off"
  using assms by (simp add: guest_byte_def bus_read_def pm_read_def Let_def pm_read_unlocked_def le_read_Suc)

lemma byte_store_exact: "ucast (ucast (v :: u8) AND 0xFF :: u64) = v"
proof -
  have "ucast (ucast v AND mask 8 :: u64) = v" by (rule bit_word_eqI) (simp add: bit_simps)
  then show ?thesis by (simp add: mask_eq_exp_minus_1)
qed

lemma guest_write:
  assumes "bus_wf b" "ram_at b a"
  obtains b' r where "bus_write b a Byte (ucast v) DmaWrite = (b', r)" "ar_ok r" "bus_wf b'" "ram_at b' = ram_at b"
    "\<And>a'. ram_at b a' \<Longrightarrow> guest_byte b' a' = (if a' = a then v else guest_byte b a')"
  using assms
proof (cases rule: ram_atE)
  case (1 i off m)
  let ?m = "pm_write_unlocked m off Byte (ucast v)"
  let ?b = "set_region b i (RamRegion ?m)" and ?b' = "fst (bus_write b a Byte (ucast v) DmaWrite)"
  have w: "bus_write b a Byte (ucast v) DmaWrite = (invalidate_reservation ?b a 1, ar_success 0 False)"
    using 1 by (simp add: bus_write_def pm_write_def Let_def)
  then have b': "?b' = invalidate_reservation ?b a 1" by simp
  have lay: "bus_layout ?b' = bus_layout b" by (rule phys_bus.rng_wr)
  have loc: "bus_locate ?b' a' Byte = Inr p \<longleftrightarrow> bus_locate b a' Byte = Inr p" for a' p
    using bus_locate_layout [OF _ lay] bus_locate_layout [OF _ lay [symmetric]] by blast
  have nth: "bus_regions ?b' ! j = (if j = i then RamRegion ?m else bus_regions b ! j)" for j
    using 1(2) by (simp add: b' set_region_def)
  have kind: "(\<exists>x. bus_regions ?b' ! j = RamRegion x) = (\<exists>x. bus_regions b ! j = RamRegion x)" for j
    using 1(3) by (simp add: nth)
  have at: "ram_at c a' \<longleftrightarrow> (\<exists>j o'. bus_locate c a' Byte = Inr (j, o') \<and> (\<exists>x. bus_regions c ! j = RamRegion x))" for c a'
    by (auto simp: ram_at_def split: sum.splits region.splits)
  have ram: "ram_at ?b' = ram_at b" by (rule ext) (simp only: at loc kind)
  have wf: "bus_wf ?b'" using assms(1) by (rule phys_bus.inv_wr)
  have byte: "guest_byte ?b' a' = (if a' = a then v else guest_byte b a')" if "ram_at b a'" for a'
    using assms(1) that
  proof (cases rule: ram_atE)
    case o: (1 j off' m')
    show ?thesis
    proof (cases "j = i")
      case True
      with o 1 have m': "m' = m" by simp
      have "guest_byte ?b' a' = pm_bytes ?m ! unat off'"
        using o True m' by (intro guest_byte_eq) (auto simp: loc nth)
      moreover have "guest_byte b a' = pm_bytes m ! unat off'" using o m' by (intro guest_byte_eq) simp_all
      moreover have "unat off' = unat off \<longleftrightarrow> a' = a" using o 1 m' by (simp flip: word_unat_eq_iff)
      ultimately show ?thesis
        using 1(7) byte_store_exact [of v] by (auto simp: pm_write_unlocked_def le_write_Suc nth_list_update)
    next
      case False
      with o 1 have "a' \<noteq> a" by auto
      moreover have "guest_byte ?b' a' = pm_bytes m' ! unat off'" using o False by (intro guest_byte_eq) (auto simp: loc nth)
      moreover have "guest_byte b a' = pm_bytes m' ! unat off'" using o by (intro guest_byte_eq) simp_all
      ultimately show ?thesis by simp
    qed
  qed
  show thesis by (rule that [of ?b' "ar_success 0 False"]) (use w wf ram byte in simp_all)
qed

end
