(* ===== verification/Event_Loop.thy ===== *)
theory Event_Loop
  imports Cpu_Correct Terminal Bus_Devices
begin

text \<open>
  One round of the run loop (\<open>include/rvemu/runtime/event_loop.hpp\<close>, \<open>src/runtime/event_loop.cpp\<close>): terminal input into the
  UART, UART output to the terminal, the device levels into the CSR file, and one interrupt or one instruction of the
  hart. The references to the devices are the indices of their regions on the hart's bus. The value \<open>None\<close> stands for a
  round that does not return or has no defined result: a host call that is interrupted for ever, or a reference that
  does not lead to its device.
\<close>

record event_loop_options =
  elo_clint_ticks_per_iteration :: u64
  elo_max_terminal_rx_bytes :: nat
  elo_max_uart_tx_bytes :: nat

record event_loop_iteration_result =
  it_cpu_retired :: bool
  it_cpu_stalled :: bool
  it_interrupt_taken :: bool
  it_trap_taken :: bool
  it_terminal_rx_bytes :: nat
  it_terminal_tx_bytes :: nat
  it_delivery :: "trap_delivery option"
  it_synchronous_trap :: "trap option"
  it_terminal_input_status :: terminal_io_status
  it_terminal_output_status :: terminal_io_status
  it_terminal_input_errno :: int
  it_terminal_output_errno :: int

record event_loop =
  el_clint :: nat
  el_plic :: nat
  el_uart :: nat
  el_options :: event_loop_options
  el_pending_tx :: "u8 list"

definition event_loop_create :: "nat \<Rightarrow> nat \<Rightarrow> nat \<Rightarrow> event_loop_options \<Rightarrow> event_loop" where
  "event_loop_create clint plic uart options =
     \<lparr>el_clint = clint, el_plic = plic, el_uart = uart, el_options = options, el_pending_tx = []\<rparr>"

definition iteration_start :: event_loop_iteration_result where
  "iteration_start = \<lparr>it_cpu_retired = False, it_cpu_stalled = False, it_interrupt_taken = False, it_trap_taken = False,
     it_terminal_rx_bytes = 0, it_terminal_tx_bytes = 0, it_delivery = None, it_synchronous_trap = None,
     it_terminal_input_status = TerminalReady, it_terminal_output_status = TerminalReady,
     it_terminal_input_errno = 0, it_terminal_output_errno = 0\<rparr>"

definition set_device :: "nat \<Rightarrow> region \<Rightarrow> cpu \<Rightarrow> cpu" where
  "set_device i r c = c\<lparr>hart_bus := set_region (hart_bus c) i r\<rparr>"

text \<open>The two service loops, with the bytes that may still be transferred in place of the counter.\<close>

primrec terminal_input_loop ::
    "'h host_tty \<Rightarrow> event_loop \<Rightarrow> nat \<Rightarrow> cpu \<Rightarrow> 'h \<Rightarrow> event_loop_iteration_result
     \<Rightarrow> (cpu \<times> 'h \<times> event_loop_iteration_result) option" where
  "terminal_input_loop ops el 0 c h r = Some (c, h, r)"
| "terminal_input_loop ops el (Suc n) c h r =
     (case read_byte ops h of
        None \<Rightarrow> None
      | Some (h, input, byte) \<Rightarrow>
          let r = r\<lparr>it_terminal_input_status := tio_status input, it_terminal_input_errno := tio_errno_value input\<rparr> in
          if tio_status input \<noteq> TerminalReady then Some (c, h, r)
          else case uart_at (hart_bus c) (el_uart el) of
            None \<Rightarrow> None
          | Some u \<Rightarrow>
              case push_rx u byte of (u, pushed) \<Rightarrow>
                let c = set_device (el_uart el) (UartRegion u) c in
                if \<not> pushed then Some (c, h, r)
                else terminal_input_loop ops el n c h (r\<lparr>it_terminal_rx_bytes := it_terminal_rx_bytes r + 1\<rparr>))"

definition service_terminal_input ::
    "'h host_tty \<Rightarrow> event_loop \<Rightarrow> cpu \<Rightarrow> 'h \<Rightarrow> event_loop_iteration_result
     \<Rightarrow> (cpu \<times> 'h \<times> event_loop_iteration_result) option" where
  "service_terminal_input ops el c h r = terminal_input_loop ops el (elo_max_terminal_rx_bytes (el_options el)) c h r"

text \<open>The byte to send next: the one kept from an earlier attempt, or else one from the UART.\<close>

definition next_tx :: "event_loop \<Rightarrow> cpu \<Rightarrow> (event_loop \<times> cpu \<times> u8 option) option" where
  "next_tx el c =
     (case el_pending_tx el of
        byte # _ \<Rightarrow> Some (el, c, Some byte)
      | [] \<Rightarrow>
          case uart_at (hart_bus c) (el_uart el) of
            None \<Rightarrow> None
          | Some u \<Rightarrow>
              case pop_tx u of
                (u, None) \<Rightarrow> Some (el, c, None)
              | (u, Some byte) \<Rightarrow>
                  Some (el\<lparr>el_pending_tx := [byte]\<rparr>, set_device (el_uart el) (UartRegion u) c, Some byte))"

primrec uart_output_loop ::
    "'h host_tty \<Rightarrow> nat \<Rightarrow> event_loop \<Rightarrow> cpu \<Rightarrow> 'h \<Rightarrow> event_loop_iteration_result
     \<Rightarrow> (event_loop \<times> cpu \<times> 'h \<times> event_loop_iteration_result) option" where
  "uart_output_loop ops 0 el c h r = Some (el, c, h, r)"
| "uart_output_loop ops (Suc n) el c h r =
     (case next_tx el c of
        None \<Rightarrow> None
      | Some (el, c, None) \<Rightarrow> Some (el, c, h, r)
      | Some (el, c, Some byte) \<Rightarrow>
          case write_bytes ops (Some [byte]) 1 h of
            None \<Rightarrow> None
          | Some (h, out) \<Rightarrow>
              let r = r\<lparr>it_terminal_output_status := tio_status out, it_terminal_output_errno := tio_errno_value out\<rparr> in
              if tio_status out \<noteq> TerminalReady \<or> tio_byte_count out = 0 then Some (el, c, h, r)
              else uart_output_loop ops n (el\<lparr>el_pending_tx := tl (el_pending_tx el)\<rparr>) c h
                     (r\<lparr>it_terminal_tx_bytes := it_terminal_tx_bytes r + 1\<rparr>))"

definition service_uart_output ::
    "'h host_tty \<Rightarrow> event_loop \<Rightarrow> cpu \<Rightarrow> 'h \<Rightarrow> event_loop_iteration_result
     \<Rightarrow> (event_loop \<times> cpu \<times> 'h \<times> event_loop_iteration_result) option" where
  "service_uart_output ops el c h r = uart_output_loop ops (elo_max_uart_tx_bytes (el_options el)) el c h r"

definition synchronize_devices :: "event_loop \<Rightarrow> cpu \<Rightarrow> cpu option" where
  "synchronize_devices el c =
     (case clint_at (hart_bus c) (el_clint el) of
        None \<Rightarrow> None
      | Some clint \<Rightarrow>
          let clint = clint_advance clint (elo_clint_ticks_per_iteration (el_options el));
              c = set_device (el_clint el) (ClintRegion clint) c;
              c = update_csrs (clint_synchronize clint) c in
          case (uart_at (hart_bus c) (el_uart el), plic_at (hart_bus c) (el_plic el)) of
            (Some uart, Some plic) \<Rightarrow>
              let plic = uart_synchronize uart plic;
                  c = set_device (el_plic el) (PlicRegion plic) c in
              Some (update_csrs (plic_synchronize plic) c)
          | _ \<Rightarrow> None)"

definition step_cpu :: "cpu \<Rightarrow> event_loop_iteration_result \<Rightarrow> (cpu \<times> event_loop_iteration_result) option" where
  "step_cpu c r =
     (case take_pending_interrupt c of
        (c, Some delivery) \<Rightarrow> Some (c, r\<lparr>it_interrupt_taken := True, it_delivery := Some delivery\<rparr>)
      | (c, None) \<Rightarrow>
          case step c of
            None \<Rightarrow> None
          | Some (c, s) \<Rightarrow>
              let r = r\<lparr>it_cpu_retired := sr_retired s, it_cpu_stalled := sr_stalled s\<rparr> in
              case sr_trap s of
                None \<Rightarrow> Some (c, r)
              | Some t \<Rightarrow>
                  let (c, delivery) = take_trap t c in
                  Some (c, r\<lparr>it_trap_taken := True, it_synchronous_trap := Some t, it_delivery := Some delivery\<rparr>))"

definition run_once ::
    "'h host_tty \<Rightarrow> event_loop \<Rightarrow> cpu \<Rightarrow> 'h \<Rightarrow> (event_loop \<times> cpu \<times> 'h \<times> event_loop_iteration_result) option" where
  "run_once ops el c h =
     (case service_terminal_input ops el c h iteration_start of
        None \<Rightarrow> None
      | Some (c, h, r) \<Rightarrow>
        case service_uart_output ops el c h r of
          None \<Rightarrow> None
        | Some (el, c, h, r) \<Rightarrow>
          case synchronize_devices el c of
            None \<Rightarrow> None
          | Some c \<Rightarrow>
            case step_cpu c r of
              None \<Rightarrow> None
            | Some (c, r) \<Rightarrow> Some (el, c, h, r))"


subsection \<open>A round returns\<close>

text \<open>What a round relies on, and keeps.\<close>

definition board_wf :: "event_loop \<Rightarrow> cpu \<Rightarrow> bool" where
  "board_wf el c \<longleftrightarrow> cpu_wf c \<and> kind_at (hart_bus c) (el_clint el) 2 \<and> kind_at (hart_bus c) (el_plic el) 3
     \<and> kind_at (hart_bus c) (el_uart el) 4"

definition same_board :: "event_loop \<Rightarrow> cpu \<Rightarrow> event_loop \<Rightarrow> cpu \<Rightarrow> bool" where
  "same_board el c el' c' \<longleftrightarrow> el_clint el' = el_clint el \<and> el_plic el' = el_plic el \<and> el_uart el' = el_uart el
     \<and> el_options el' = el_options el \<and> bus_kinds (hart_bus c') = bus_kinds (hart_bus c) \<and> cpu_wf c'"

lemma same_board_wf: "same_board el c el' c' \<Longrightarrow> board_wf el c \<Longrightarrow> board_wf el' c'"
  by (simp add: same_board_def board_wf_def kind_at_def)

lemma same_board_trans: "same_board el c el1 c1 \<Longrightarrow> same_board el1 c1 el2 c2 \<Longrightarrow> same_board el c el2 c2"
  by (simp add: same_board_def)

lemma set_device_board:
  assumes "cpu_wf c" "i < length (bus_regions (hart_bus c))" "region_wf r"
    and "region_range r = region_range (bus_regions (hart_bus c) ! i)" "region_kind r = region_kind (bus_regions (hart_bus c) ! i)"
  shows "same_board el c el (set_device i r c)"
  using assms by (simp add: same_board_def set_device_def bus_kinds_set cpu_wf_def bus_wf_set_region)

lemma uart_update_board:
  assumes "cpu_wf c" "uart_at (hart_bus c) i = Some u" "uart_wf u \<Longrightarrow> uart_wf u'"
  shows "same_board el c el (set_device i (UartRegion u') c)"
proof -
  have "uart_wf u" using assms(1,2) nth_region_wf [of "hart_bus c" i] by (auto simp: cpu_wf_def device_at_Some)
  then show ?thesis using assms by (intro set_device_board) (auto simp: device_at_Some)
qed

definition terminal_answers :: "'h host_tty \<Rightarrow> bool" where
  "terminal_answers ops \<longleftrightarrow> (\<forall>h. read_byte ops h \<noteq> None) \<and> (\<forall>bs h. write_loop ops bs h \<noteq> None)"

lemma terminal_answersD: "terminal_answers ops \<Longrightarrow> read_byte ops h \<noteq> None" "terminal_answers ops \<Longrightarrow> write_loop ops bs h \<noteq> None"
  by (simp_all only: terminal_answers_def simp_thms)

text \<open>What the host must promise for that: signals interrupt a call only finitely often in a row.\<close>

definition interrupted_finitely :: "'h host_tty \<Rightarrow> bool" where
  "interrupted_finitely ops \<longleftrightarrow> (\<exists>patience :: 'h \<Rightarrow> nat.
     (\<forall>h h'. ht_read ops h = (h', Inr (tc_eintr (ht_constants ops))) \<longrightarrow> patience h' < patience h)
   \<and> (\<forall>bs h h'. ht_write ops bs h = (h', Inr (tc_eintr (ht_constants ops))) \<longrightarrow> patience h' < patience h))"

lemma interrupted_finitely_answers:
  assumes "interrupted_finitely ops"
  shows "terminal_answers ops"
proof -
  obtain patience :: "'a \<Rightarrow> nat" where p: "\<And>h h'. ht_read ops h = (h', Inr (tc_eintr (ht_constants ops))) \<Longrightarrow> patience h' < patience h"
    "\<And>bs h h'. ht_write ops bs h = (h', Inr (tc_eintr (ht_constants ops))) \<Longrightarrow> patience h' < patience h"
    using assms unfolding interrupted_finitely_def by blast
  have "read_byte ops h \<noteq> None" for h
  proof (induction "patience h" arbitrary: h rule: less_induct)
    case less
    then show ?case using p(1) [of h] by (subst read_byte.simps) (auto split: prod.split sum.split option.split)
  qed
  moreover have "write_loop ops bs h \<noteq> None" for bs h
  proof (induction "patience h" arbitrary: h rule: less_induct)
    case less
    then show ?case using p(2) [of bs h] by (subst write_loop.simps) (auto split: prod.split sum.split)
  qed
  ultimately show ?thesis by (simp add: terminal_answers_def)
qed

lemma terminal_input_returns:
  assumes "terminal_answers ops" "board_wf el c"
  shows "\<exists>c' h' r'. terminal_input_loop ops el n c h r = Some (c', h', r') \<and> same_board el c el c'"
  using assms(2)
proof (induction n arbitrary: c h r)
  case 0
  then show ?case by (simp add: same_board_def board_wf_def)
next
  case (Suc n)
  obtain h1 input byte where rd: "read_byte ops h = Some (h1, input, byte)"
    using terminal_answersD(1) [OF assms(1), of h] by auto
  obtain u where u: "uart_at (hart_bus c) (el_uart el) = Some u"
    using Suc.prems device_at_kind(3) by (auto simp: board_wf_def)
  obtain u' pushed where p: "push_rx u byte = (u', pushed)" by fastforce
  let ?c = "set_device (el_uart el) (UartRegion u') c"
  have c: "same_board el c el ?c"
    by (rule uart_update_board [OF _ u]) (use Suc.prems p in \<open>auto simp: board_wf_def uart_wf_def push_rx_def split: if_splits\<close>)
  have same: "same_board el c el c" using Suc.prems by (simp add: same_board_def board_wf_def)
  have "\<exists>c' h' r'. terminal_input_loop ops el n ?c h r = Some (c', h', r') \<and> same_board el c el c'" for h r
    using Suc.IH [OF same_board_wf [OF c Suc.prems], of h r] same_board_trans [OF c] by blast
  then show ?case using c same by (simp add: rd u p Let_def)
qed


lemma next_tx_returns:
  assumes "board_wf el c"
  obtains el' c' byte where "next_tx el c = Some (el', c', byte)" "same_board el c el' c'"
    "byte \<noteq> None \<Longrightarrow> el_pending_tx el' \<noteq> [] \<and> byte = Some (hd (el_pending_tx el'))"
proof (cases "el_pending_tx el")
  case (Cons b bs)
  then show thesis using that [of el c "Some b"] assms by (simp add: next_tx_def same_board_def board_wf_def)
next
  case Nil
  obtain u where u: "uart_at (hart_bus c) (el_uart el) = Some u"
    using assms device_at_kind(3) by (auto simp: board_wf_def)
  obtain u' byte where p: "pop_tx u = (u', byte)" by fastforce
  have wf: "uart_wf u \<Longrightarrow> uart_wf u'" using uart_wf_pop_tx [of u] p by simp
  have "same_board el c el (set_device (el_uart el) (UartRegion u') c)"
    by (rule uart_update_board [OF _ u wf]) (use assms in \<open>simp_all add: board_wf_def\<close>)
  then have "same_board el c (el\<lparr>el_pending_tx := x\<rparr>) (set_device (el_uart el) (UartRegion u') c)" for x
    by (simp add: same_board_def)
  moreover have "same_board el c el c" using assms by (simp add: same_board_def board_wf_def)
  ultimately show thesis
    using that [of el c None] that [of "el\<lparr>el_pending_tx := [the byte]\<rparr>" "set_device (el_uart el) (UartRegion u') c" byte]
    by (cases byte) (simp_all add: next_tx_def Nil u p)
qed

lemma write_one: "write_bytes ops (Some [b]) (Suc 0) h = write_loop ops [b] h"
  by (simp add: write_bytes_def)

lemma uart_output_returns:
  assumes "terminal_answers ops" "board_wf el c"
  shows "\<exists>el' c' h' r'. uart_output_loop ops n el c h r = Some (el', c', h', r') \<and> same_board el c el' c'"
  using assms(2)
proof (induction n arbitrary: el c h r)
  case 0
  then show ?case by (simp add: same_board_def board_wf_def)
next
  case (Suc n)
  obtain el1 c1 byte where nx: "next_tx el c = Some (el1, c1, byte)" "same_board el c el1 c1"
    by (rule next_tx_returns [OF Suc.prems])
  show ?case
  proof (cases byte)
    case None
    then show ?thesis using nx by simp
  next
    case (Some b)
    obtain h1 out where w: "write_loop ops [b] h = Some (h1, out)"
      using terminal_answersD(2) [OF assms(1), of "[b]" h] by auto
    let ?el = "el1\<lparr>el_pending_tx := tl (el_pending_tx el1)\<rparr>"
    have e: "same_board el c ?el c1" using nx(2) by (simp add: same_board_def)
    have "\<exists>el' c' h' r'. uart_output_loop ops n ?el c1 h r = Some (el', c', h', r') \<and> same_board el c el' c'" for h r
      using Suc.IH [OF same_board_wf [OF e Suc.prems], of h r] same_board_trans [OF e] by blast
    then show ?thesis using nx by (simp add: Some write_one w Let_def)
  qed
qed

lemma update_csrs_board:
  assumes "cpu_wf c" "\<And>f. csr_ok (cs_privilege (hart_state c)) f \<Longrightarrow> csr_ok (cs_privilege (hart_state c)) (g f)"
  shows "same_board el c el (update_csrs g c)"
  using assms cpu_wf_update_csrs [of c g] by (simp add: same_board_def update_csrs_bus cpu_wf_def state_wf_def)

lemma synchronize_returns:
  assumes "board_wf el c"
  shows "\<exists>c'. synchronize_devices el c = Some c' \<and> same_board el c el c'"
proof -
  have wf: "cpu_wf c" using assms by (simp add: board_wf_def)
  obtain d where d: "clint_at (hart_bus c) (el_clint el) = Some d"
    using assms device_at_kind(1) by (auto simp: board_wf_def)
  let ?d = "clint_advance d (elo_clint_ticks_per_iteration (el_options el))"
  let ?c1 = "set_device (el_clint el) (ClintRegion ?d) c"
  let ?c2 = "update_csrs (clint_synchronize ?d) ?c1"
  have c1: "same_board el c el ?c1" using wf d by (intro set_device_board) (auto simp: device_at_Some)
  have "same_board el ?c1 el ?c2"
    using c1 by (intro update_csrs_board) (auto simp: same_board_def clint_synchronize_def intro: csr_ok_outside)
  with c1 have c2: "same_board el c el ?c2" by (rule same_board_trans)
  from same_board_wf [OF this assms] obtain u p where dev: "uart_at (hart_bus ?c2) (el_uart el) = Some u"
    "plic_at (hart_bus ?c2) (el_plic el) = Some p"
    using device_at_kind(2,3) by (fastforce simp: board_wf_def)
  let ?p = "uart_synchronize u p"
  let ?c3 = "set_device (el_plic el) (PlicRegion ?p) ?c2"
  have "plic_wf p" using c2 dev nth_region_wf [of "hart_bus ?c2"] by (fastforce simp: same_board_def cpu_wf_def device_at_Some)
  then have c3: "same_board el c el ?c3"
    using same_board_trans [OF c2 set_device_board] c2 dev
    by (auto simp: same_board_def device_at_Some uart_synchronize_def plic_wf_level)
  have "same_board el ?c3 el (update_csrs (plic_synchronize ?p) ?c3)"
    using c3 by (intro update_csrs_board) (auto simp: same_board_def plic_synchronize_def intro: csr_ok_outside)
  with c3 have "same_board el c el (update_csrs (plic_synchronize ?p) ?c3)" by (rule same_board_trans)
  then show ?thesis using d dev by (simp add: synchronize_devices_def Let_def)
qed


lemma take_trap_bus [simp]: "hart_bus (fst (take_trap t c)) = hart_bus c"
  by (simp add: take_trap_def enter_trap_def Let_def)

lemma take_interrupt_bus [simp]: "hart_bus (fst (take_pending_interrupt c)) = hart_bus c"
  by (simp add: take_pending_interrupt_def enter_trap_def Let_def split: option.split)

text \<open>Exactly one thing happens in a round: an interrupt is taken, an instruction retires, it traps, or the hart waits.\<close>

definition one_event :: "event_loop_iteration_result \<Rightarrow> bool" where
  "one_event r \<longleftrightarrow> length (filter id [it_interrupt_taken r, it_cpu_retired r, it_trap_taken r, it_cpu_stalled r]) = 1"

lemma step_cpu_returns:
  assumes "cpu_wf c" "\<not> it_interrupt_taken r" "\<not> it_trap_taken r" "\<not> it_cpu_retired r" "\<not> it_cpu_stalled r"
  shows "\<exists>c' r'. step_cpu c r = Some (c', r') \<and> cpu_wf c' \<and> bus_accessed (hart_bus c) (hart_bus c') \<and> one_event r'"
proof (cases "snd (take_pending_interrupt c)")
  case (Some d)
  then have "take_pending_interrupt c = (fst (take_pending_interrupt c), Some d)" by (metis prod.collapse)
  then show ?thesis
    using take_pending_interrupt_wf [OF assms(1)] assms(2-) take_interrupt_bus [of c]
    by (cases "take_pending_interrupt c") (simp add: step_cpu_def one_event_def)
next
  case None
  then have i: "take_pending_interrupt c = (c, None)"
    by (auto simp: take_pending_interrupt_def Let_def split: option.splits prod.splits)
  obtain c1 s where s: "step c = Some (c1, s)" "step_effect c c1 s" using step_effect [OF assms(1)] by blast
  show ?thesis
  proof (cases "sr_trap s")
    case None
    then show ?thesis using s assms by (auto simp: step_cpu_def i one_event_def step_effect_def)
  next
    case (Some t)
    have "cpu_wf (fst (take_trap t c1))" using s(2) take_trap_wf by (simp add: step_effect_def)
    then show ?thesis
      using s assms Some take_trap_bus [of t c1]
      by (cases "take_trap t c1") (auto simp: step_cpu_def i one_event_def step_effect_def)
  qed
qed

text \<open>The service loops report nothing about the hart.\<close>

lemma input_keeps_events:
  "terminal_input_loop ops el n c h r = Some (c', h', r') \<Longrightarrow>
     it_interrupt_taken r' = it_interrupt_taken r \<and> it_trap_taken r' = it_trap_taken r
     \<and> it_cpu_retired r' = it_cpu_retired r \<and> it_cpu_stalled r' = it_cpu_stalled r"
  by (induction n arbitrary: c h r) (auto simp: Let_def split: option.splits if_splits prod.splits)

lemma output_keeps_events:
  "uart_output_loop ops n el c h r = Some (el', c', h', r') \<Longrightarrow>
     it_interrupt_taken r' = it_interrupt_taken r \<and> it_trap_taken r' = it_trap_taken r
     \<and> it_cpu_retired r' = it_cpu_retired r \<and> it_cpu_stalled r' = it_cpu_stalled r"
proof (induction n arbitrary: el c h r)
  case (Suc n)
  then show ?case by (fastforce simp: Let_def split: option.splits if_splits prod.splits)
qed simp

lemma run_once_returns:
  assumes "terminal_answers ops" "board_wf el c"
  shows "\<exists>el' c' h' r. run_once ops el c h = Some (el', c', h', r) \<and> same_board el c el' c' \<and> one_event r"
proof -
  obtain c1 h1 r1 where i: "service_terminal_input ops el c h iteration_start = Some (c1, h1, r1)" "same_board el c el c1"
    using terminal_input_returns [OF assms] by (metis service_terminal_input_def)
  obtain el2 c2 h2 r2 where o: "service_uart_output ops el c1 h1 r1 = Some (el2, c2, h2, r2)" "same_board el c1 el2 c2"
    using uart_output_returns [OF assms(1) same_board_wf [OF i(2) assms(2)]] by (metis service_uart_output_def)
  have b2: "same_board el c el2 c2" using i(2) o(2) by (rule same_board_trans)
  obtain c3 where y: "synchronize_devices el2 c2 = Some c3" "same_board el2 c2 el2 c3"
    using synchronize_returns [OF same_board_wf [OF b2 assms(2)]] by blast
  have b3: "same_board el c el2 c3" using b2 y(2) by (rule same_board_trans)
  have flags: "\<not> it_interrupt_taken r2 \<and> \<not> it_trap_taken r2 \<and> \<not> it_cpu_retired r2 \<and> \<not> it_cpu_stalled r2"
    using input_keeps_events [OF i(1) [unfolded service_terminal_input_def]]
      output_keeps_events [OF o(1) [unfolded service_uart_output_def]] by (simp add: iteration_start_def)
  obtain c4 r4 where s: "step_cpu c3 r2 = Some (c4, r4)" "cpu_wf c4" "bus_accessed (hart_bus c3) (hart_bus c4)" "one_event r4"
    using step_cpu_returns [of c3 r2] b3 flags by (auto simp: same_board_def)
  have "same_board el c el2 c4" using b3 s(2) bus_accessed_kinds [OF s(3)] by (simp add: same_board_def)
  then show ?thesis using i o y s by (simp add: run_once_def)
qed


subsection \<open>Bytes on their way\<close>

text \<open>
  A host that keeps a record of what it was given and what it gave: a write appends the bytes it counts, a read of one byte
  appends that byte, and neither touches the other record.
\<close>

definition terminal_log :: "('h \<Rightarrow> u8 list) \<Rightarrow> ('h \<Rightarrow> u8 list) \<Rightarrow> 'h host_tty \<Rightarrow> bool" where
  "terminal_log sent received ops \<longleftrightarrow>
     (\<forall>bs h. sent (fst (ht_write ops bs h)) = sent h @ (case snd (ht_write ops bs h) of Inl n \<Rightarrow> take n bs | Inr _ \<Rightarrow> [])
        \<and> received (fst (ht_write ops bs h)) = received h)
   \<and> (\<forall>h. received (fst (ht_read ops h)) = received h @ (case snd (ht_read ops h) of Inl (Some b) \<Rightarrow> [b] | _ \<Rightarrow> [])
        \<and> sent (fst (ht_read ops h)) = sent h)"

lemma write_loop_log:
  assumes "write_loop ops bs h = Some y" "terminal_log sent received ops" "bs = [b]"
  shows "sent (fst y) = sent h @ (if tio_status (snd y) = TerminalReady \<and> tio_byte_count (snd y) \<noteq> 0 then [b] else [])
     \<and> received (fst y) = received h"
  using assms
proof (induction rule: write_loop.raw_induct [rotated, consumes 1, case_names step])
  case (step f ops bs h y)
  obtain h1 r where w: "ht_write ops bs h = (h1, r)" by fastforce
  have log: "sent h1 = sent h @ (case r of Inl n \<Rightarrow> take n bs | Inr _ \<Rightarrow> [])" "received h1 = received h"
    using step.prems(1) w unfolding terminal_log_def by (metis fst_conv snd_conv)+
  show ?case
  proof (cases r)
    case (Inl n)
    then show ?thesis
      using step.hyps step.prems(2) w log by (cases n) (auto simp: io_ready_def io_would_block_def)
  next
    case (Inr e)
    then show ?thesis
      using step.hyps step.IH [of ops bs h1 y] step.prems w log
      by (auto simp: io_would_block_def io_error_def split: if_splits)
  qed
qed

lemma read_byte_log:
  assumes "read_byte ops h = Some y" "terminal_log sent received ops"
  shows "received (fst y) = received h @ (if tio_status (fst (snd y)) = TerminalReady then [snd (snd y)] else [])
     \<and> sent (fst y) = sent h"
  using assms
proof (induction rule: read_byte.raw_induct [rotated, consumes 1, case_names step])
  case (step f ops h y)
  obtain h1 r where w: "ht_read ops h = (h1, r)" by fastforce
  have log: "received h1 = received h @ (case r of Inl (Some b) \<Rightarrow> [b] | _ \<Rightarrow> [])" "sent h1 = sent h"
    using step.prems(1) w unfolding terminal_log_def by (metis fst_conv snd_conv)+
  show ?case
  proof (cases r)
    case (Inl x)
    then show ?thesis
      using step.hyps w log by (cases x) (auto simp: io_ready_def io_would_block_def)
  next
    case (Inr e)
    then show ?thesis
      using step.hyps step.IH [of ops h1 y] step.prems w log
      by (auto simp: io_would_block_def io_error_def split: if_splits)
  qed
qed

text \<open>The bytes of a FIFO of the UART the loop refers to.\<close>

definition tx_waiting :: "event_loop \<Rightarrow> cpu \<Rightarrow> u8 list" where
  "tx_waiting el c = (case uart_at (hart_bus c) (el_uart el) of None \<Rightarrow> [] | Some u \<Rightarrow> ua_tx_fifo u)"

definition rx_waiting :: "event_loop \<Rightarrow> cpu \<Rightarrow> u8 list" where
  "rx_waiting el c = (case uart_at (hart_bus c) (el_uart el) of None \<Rightarrow> [] | Some u \<Rightarrow> ua_rx_fifo u)"

lemma uart_at_set_device [simp]:
  "uart_at (hart_bus c) i = Some u \<Longrightarrow> uart_at (hart_bus (set_device i (UartRegion u') c)) i = Some u'"
  by (simp add: device_at_Some set_device_def set_region_def)

lemma next_tx_queue:
  assumes "next_tx el c = Some (el', c', byte)"
  shows "el_uart el' = el_uart el" "el_pending_tx el' @ tx_waiting el' c' = el_pending_tx el @ tx_waiting el c"
    "case byte of None \<Rightarrow> True | Some b \<Rightarrow> el_pending_tx el' = b # tl (el_pending_tx el')"
  using assms by (auto simp: next_tx_def tx_waiting_def pop_tx_def split: list.splits option.splits prod.splits)

lemma uart_output_queue:
  assumes "terminal_log sent received ops" "uart_output_loop ops n el c h r = Some (el', c', h', r')"
  shows "sent h' @ el_pending_tx el' @ tx_waiting el' c' = sent h @ el_pending_tx el @ tx_waiting el c
     \<and> length (sent h') + it_terminal_tx_bytes r = length (sent h) + it_terminal_tx_bytes r'
     \<and> length (sent h') \<le> length (sent h) + n \<and> received h' = received h"
  using assms(2)
proof (induction n arbitrary: el c h r)
  case (Suc n)
  obtain el1 c1 byte where nx: "next_tx el c = Some (el1, c1, byte)"
    using Suc.prems by (cases "next_tx el c") auto
  note q = next_tx_queue [OF nx]
  show ?case
  proof (cases byte)
    case None
    then show ?thesis using Suc.prems nx q by simp
  next
    case (Some b)
    obtain h1 out where w: "write_loop ops [b] h = Some (h1, out)"
      using Suc.prems nx Some by (cases "write_loop ops [b] h") (auto simp: write_one)
    note log = write_loop_log [OF w assms(1) refl, simplified]
    let ?el = "el1\<lparr>el_pending_tx := tl (el_pending_tx el1)\<rparr>"
    have t: "tx_waiting ?el c1 = tx_waiting el1 c1" by (simp add: tx_waiting_def)
    obtain rest where p: "el_pending_tx el1 = b # rest" using q(3) Some by (cases "el_pending_tx el1") auto
    show ?thesis
    proof (cases "tio_status out = TerminalReady \<and> tio_byte_count out \<noteq> 0")
      case True
      let ?r = "r\<lparr>it_terminal_output_status := tio_status out, it_terminal_output_errno := tio_errno_value out,
        it_terminal_tx_bytes := it_terminal_tx_bytes r + 1\<rparr>"
      have "uart_output_loop ops n ?el c1 h1 ?r = Some (el', c', h', r')"
        using Suc.prems nx Some w True by (simp add: write_one Let_def)
      from Suc.IH [OF this] show ?thesis using log True p q(2) t by auto
    next
      case False
      then show ?thesis using Suc.prems nx Some w log q(2) by (auto simp: write_one Let_def split: if_splits)
    qed
  qed
qed simp

text \<open>A host with bytes to give, and a hart with nothing on its bus but a UART.\<close>

definition example_host :: "(u8 list \<times> u8 list \<times> u8 list) host_tty" where
  "example_host = \<lparr>ht_constants = \<lparr>tc_brkint = 2, tc_icrnl = 256, tc_inpck = 16, tc_istrip = 32, tc_ixon = 512, tc_opost = 1,
       tc_cs8 = 768, tc_echo = 8, tc_icanon = 256, tc_iexten = 1024, tc_isig = 128, tc_vmin = 16, tc_vtime = 17,
       tc_o_nonblock = 4, tc_eintr = 4, tc_eagain = 35, tc_ewouldblock = 35, tc_einval = 22\<rparr>,
     ht_isatty = \<lambda>_. None, ht_tcgetattr = \<lambda>_. Inr 25, ht_tcsetattr = \<lambda>v h. (h, Some 25),
     ht_getfl = \<lambda>h. Inl 0, ht_setfl = \<lambda>v h. (h, None),
     ht_read = \<lambda>(input, received, sent). case input of [] \<Rightarrow> (([], received, sent), Inl None)
       | b # rest \<Rightarrow> ((rest, received @ [b], sent), Inl (Some b)),
     ht_write = \<lambda>bs (input, received, sent). ((input, received, sent @ bs), Inl (length bs))\<rparr>"

lemma example_host_log: "terminal_log (\<lambda>h. snd (snd h)) (\<lambda>h. fst (snd h)) example_host"
  by (auto simp: terminal_log_def example_host_def split: list.split)

definition example_console :: cpu where
  "example_console = hart_boot (fst (register_region bus_create (Some (UartRegion
     ((uart_create 10)\<lparr>ua_rx_fifo := replicate 15 7, ua_tx_fifo := [1, 2, 3]\<rparr>))))) 0x80000000"

definition example_loop :: event_loop where
  "example_loop = event_loop_create 1 2 0 \<lparr>elo_clint_ticks_per_iteration = 1, elo_max_terminal_rx_bytes = 64, elo_max_uart_tx_bytes = 64\<rparr>"

text \<open>UART output is neither lost nor reordered. However little the terminal accepts, what has been written to it,
  followed by the bytes kept for the next attempt and those still in the transmit FIFO, is the same sequence before and
  after the service; the count it reports is the number of bytes the terminal took, at most the bound of a round; and
  nothing is read.\<close>

theorem uart_output_lossless:
  assumes "terminal_log sent received ops" "service_uart_output ops el c h r = Some (el', c', h', r')"
  shows "sent h' @ el_pending_tx el' @ tx_waiting el' c' = sent h @ el_pending_tx el @ tx_waiting el c
     \<and> length (sent h') - length (sent h) = it_terminal_tx_bytes r' - it_terminal_tx_bytes r
     \<and> length (sent h') \<le> length (sent h) + elo_max_uart_tx_bytes (el_options el) \<and> received h' = received h"
  using uart_output_queue [OF assms(1) assms(2) [unfolded service_uart_output_def]] by auto


theorem uart_output_lossless_witness:
  "\<exists>el' c' h' r'. service_uart_output example_host example_loop example_console ([], [], [0]) iteration_start
       = Some (el', c', h', r') \<and> snd (snd h') @ el_pending_tx el' @ tx_waiting el' c' = [0, 1, 2, 3]"
proof -
  have "service_uart_output example_host example_loop example_console ([], [], [0]) iteration_start \<noteq> None" by code_simp
  then obtain el' c' h' r' where s: "service_uart_output example_host example_loop example_console ([], [], [0]) iteration_start
      = Some (el', c', h', r')" by auto
  have "el_pending_tx example_loop @ tx_waiting example_loop example_console = [1, 2, 3]" by code_simp
  then show ?thesis using uart_output_lossless [OF example_host_log s] s by auto
qed

lemma terminal_input_queue:
  assumes "terminal_log sent received ops" "terminal_input_loop ops el n c h r = Some (c', h', r')"
    and "uart_at (hart_bus c) (el_uart el) \<noteq> None"
  shows "\<exists>accepted lost. received h' = received h @ accepted @ lost \<and> rx_waiting el c' = rx_waiting el c @ accepted
     \<and> it_terminal_rx_bytes r' = it_terminal_rx_bytes r + length accepted \<and> length accepted \<le> n
     \<and> length lost \<le> 1 \<and> (lost \<noteq> [] \<longrightarrow> 16 \<le> length (rx_waiting el c')) \<and> sent h' = sent h"
  using assms(2,3)
proof (induction n arbitrary: c h r)
  case (Suc n)
  obtain h1 input byte where rd: "read_byte ops h = Some (h1, input, byte)"
    using Suc.prems(1) by (cases "read_byte ops h") auto
  note log = read_byte_log [OF rd assms(1), simplified]
  obtain u where u: "uart_at (hart_bus c) (el_uart el) = Some u" using Suc.prems(2) by auto
  obtain u' pushed where p: "push_rx u byte = (u', pushed)" by fastforce
  let ?c = "set_device (el_uart el) (UartRegion u') c"
  let ?r = "r\<lparr>it_terminal_input_status := tio_status input, it_terminal_input_errno := tio_errno_value input\<rparr>"
  consider (nothing) "tio_status input \<noteq> TerminalReady" | (full) "tio_status input = TerminalReady" "\<not> pushed"
    | (more) "tio_status input = TerminalReady" "pushed" by blast
  then show ?case
  proof cases
    case nothing
    then show ?thesis using Suc.prems(1) rd log by auto
  next
    case full
    then have "c' = ?c" "h' = h1" "r' = ?r" using Suc.prems(1) rd u p by (simp_all add: Let_def)
    moreover have "ua_rx_fifo u' = ua_rx_fifo u" "16 \<le> length (ua_rx_fifo u)"
      using p full(2) by (auto simp: push_rx_def split: if_splits)
    ultimately show ?thesis
      using full log u by (intro exI [of _ "[]"] exI [of _ "[byte]"]) (simp add: rx_waiting_def)
  next
    case more
    then have "terminal_input_loop ops el n ?c h1 (?r\<lparr>it_terminal_rx_bytes := it_terminal_rx_bytes ?r + 1\<rparr>) = Some (c', h', r')"
      using Suc.prems(1) rd u p by (simp add: Let_def)
    from Suc.IH [OF this] u obtain accepted lost where ih: "received h' = received h1 @ accepted @ lost"
      "rx_waiting el c' = rx_waiting el ?c @ accepted" "it_terminal_rx_bytes r' = Suc (it_terminal_rx_bytes r) + length accepted"
      "length accepted \<le> n" "length lost \<le> 1" "lost \<noteq> [] \<longrightarrow> 16 \<le> length (rx_waiting el c')" "sent h' = sent h1" by auto
    have "rx_waiting el ?c = rx_waiting el c @ [byte]"
      using p more u by (auto simp: rx_waiting_def push_rx_def split: if_splits)
    then show ?thesis using ih log more by (intro exI [of _ "byte # accepted"] exI [of _ lost]) auto
  qed
qed (auto intro: exI [of _ "[]"])

text \<open>Terminal input reaches the UART in order, except that a byte is lost whenever the receive FIFO is full. The bytes
  taken from the terminal in a round are those appended to the receive FIFO, which the round counts, followed by at most one
  that is dropped; the round takes no more than its bound plus that one and writes nothing.\<close>

theorem terminal_input_accounted:
  assumes "terminal_log sent received ops" "service_terminal_input ops el c h r = Some (c', h', r')"
    and "uart_at (hart_bus c) (el_uart el) = Some u"
  shows "\<exists>accepted lost. received h' = received h @ accepted @ lost \<and> rx_waiting el c' = rx_waiting el c @ accepted
     \<and> it_terminal_rx_bytes r' = it_terminal_rx_bytes r + length accepted
     \<and> length accepted \<le> elo_max_terminal_rx_bytes (el_options el)
     \<and> length lost \<le> 1 \<and> (lost \<noteq> [] \<longrightarrow> 16 \<le> length (rx_waiting el c')) \<and> sent h' = sent h"
  using terminal_input_queue [OF assms(1) assms(2) [unfolded service_terminal_input_def]] assms(3) by simp

theorem terminal_input_accounted_witness:
  "\<exists>c' h' r' accepted lost. service_terminal_input example_host example_loop example_console ([8, 9], [], []) iteration_start
       = Some (c', h', r') \<and> fst (snd h') = [8, 9] \<and> [8, 9] = accepted @ lost
     \<and> rx_waiting example_loop c' = replicate 15 7 @ accepted \<and> length lost = 1"
proof -
  have r: "map_option (\<lambda>(c, h, r). (fst (snd h), rx_waiting example_loop c))
      (service_terminal_input example_host example_loop example_console ([8, 9], [], []) iteration_start)
    = Some ([8, 9], replicate 15 7 @ [8])" by code_simp
  then obtain c' h' r' where s: "service_terminal_input example_host example_loop example_console ([8, 9], [], []) iteration_start
      = Some (c', h', r')" and out: "fst (snd h') = [8, 9]" "rx_waiting example_loop c' = replicate 15 7 @ [8]" by auto
  have x: "uart_at (hart_bus example_console) (el_uart example_loop) \<noteq> None"
    "rx_waiting example_loop example_console = replicate 15 7" by code_simp+
  then obtain u where "uart_at (hart_bus example_console) (el_uart example_loop) = Some u" by blast
  from terminal_input_accounted [OF example_host_log s this] s out x(2) show ?thesis by auto
qed

end
