(* ===== verification/Virtqueue.thy ===== *)
theory Virtqueue
  imports Bus
begin

unbundle bit_operations_syntax

text \<open>
  The split virtqueue (\<open>include/rvemu/devices/virtqueue.hpp\<close>, \<open>src/devices/virtqueue.cpp\<close>): the bounded walk of a
  descriptor chain, direct or through one indirect table, and the device side of the two rings. Every access is a DMA
  access to the bus, which is passed along. The diagnostic text of a failed parse is left out.
\<close>

datatype virtqueue_descriptor_direction = DeviceReads | DeviceWrites | AnyDirection

datatype virtqueue_parse_error_code =
  ParseNone | ParseQueueNotReady | IndexOutOfRange | ChainLoop | ChainTooLong | DirectionMismatch
| DescriptorAddressOverflow | ParseDmaReadFailure | IndirectUnsupported

datatype virtqueue_ring_error_code =
  RingNone | RingQueueNotReady | TooManyPending | RingDmaReadFailure | RingDmaWriteFailure

record virtqueue_segment =
  sg_address :: u64
  sg_length :: u32
  sg_device_writes :: bool

record virtqueue_parse_result =
  vp_code :: virtqueue_parse_error_code
  vp_segments :: "virtqueue_segment list"

record virtqueue_available_result =
  va_code :: virtqueue_ring_error_code
  va_available_index :: u16
  va_head :: u16
  va_pending_count :: u16

record raw_descriptor =
  rd_address :: u64
  rd_length :: u32
  rd_flags :: u16
  rd_next :: u16

abbreviation (input) kDescriptorFlagNext :: u16 where "kDescriptorFlagNext \<equiv> 1"
abbreviation (input) kDescriptorFlagWrite :: u16 where "kDescriptorFlagWrite \<equiv> 2"
abbreviation (input) kDescriptorFlagIndirect :: u16 where "kDescriptorFlagIndirect \<equiv> 4"
abbreviation (input) kDescriptorSize :: u64 where "kDescriptorSize \<equiv> 16"
abbreviation (input) kAvailableFlagNoInterrupt :: u16 where "kAvailableFlagNoInterrupt \<equiv> 1"

definition virtqueue_index_delta :: "u16 \<Rightarrow> u16 \<Rightarrow> u16" where
  "virtqueue_index_delta newer older = newer - older"

definition virtqueue_ring_slot :: "u16 \<Rightarrow> u16 \<Rightarrow> u16" where
  "virtqueue_ring_slot index queue_size = index mod queue_size"

definition virtqueue_event_needed :: "u16 \<Rightarrow> u16 \<Rightarrow> u16 \<Rightarrow> bool" where
  "virtqueue_event_needed event_index new_index old_index \<longleftrightarrow> new_index - event_index - 1 < new_index - old_index"

subsection \<open>Descriptor chains\<close>

definition parse_failure :: "virtqueue_parse_error_code \<Rightarrow> virtqueue_parse_result" where
  "parse_failure code = \<lparr>vp_code = code, vp_segments = []\<rparr>"

definition read_descriptor_field :: "bus \<Rightarrow> u64 \<Rightarrow> access_width \<Rightarrow> bus \<times> access_result" where
  "read_descriptor_field b a w = bus_read b a w DmaRead"

definition sum_overflows :: "u64 \<Rightarrow> u64 \<Rightarrow> bool" where
  "sum_overflows lhs rhs \<longleftrightarrow> lhs > NOT 0 - rhs"

fun direction_matches :: "bool \<Rightarrow> virtqueue_descriptor_direction \<Rightarrow> bool" where
  "direction_matches descriptor_write AnyDirection = True"
| "direction_matches descriptor_write DeviceReads = (\<not> descriptor_write)"
| "direction_matches descriptor_write DeviceWrites = descriptor_write"

definition read_raw_descriptor :: "bus \<Rightarrow> u64 \<Rightarrow> u16 \<Rightarrow> bus \<times> raw_descriptor option" where
  "read_raw_descriptor b table_address index =
     (let descriptor_address = table_address + ucast index * kDescriptorSize;
          (b, address) = read_descriptor_field b descriptor_address DoubleWord;
          (b, len) = read_descriptor_field b (descriptor_address + 8) Word32;
          (b, flags) = read_descriptor_field b (descriptor_address + 12) HalfWord;
          (b, next) = read_descriptor_field b (descriptor_address + 14) HalfWord
      in (b, if \<not> ar_ok address \<or> \<not> ar_ok len \<or> \<not> ar_ok flags \<or> \<not> ar_ok next then None
             else Some \<lparr>rd_address = ar_value address, rd_length = ucast (ar_value len),
                    rd_flags = ucast (ar_value flags), rd_next = ucast (ar_value next)\<rparr>))"

definition descriptor_write :: "raw_descriptor \<Rightarrow> bool" where
  "descriptor_write d \<longleftrightarrow> rd_flags d AND kDescriptorFlagWrite \<noteq> 0"

definition segment_of :: "raw_descriptor \<Rightarrow> virtqueue_segment" where
  "segment_of d = \<lparr>sg_address = rd_address d, sg_length = rd_length d, sg_device_writes = descriptor_write d\<rparr>"

text \<open>
  The loop of \<open>parse_table\<close>, with the iterations left in place of the counter. \<open>indirect\<close> is what a head with the
  indirect flag leads to, \<open>None\<close> where the table may not contain one.
\<close>

primrec parse_table_loop ::
    "nat \<Rightarrow> (bus \<Rightarrow> raw_descriptor \<Rightarrow> bus \<times> virtqueue_parse_result) option \<Rightarrow> u64 \<Rightarrow> u16
     \<Rightarrow> virtqueue_descriptor_direction list \<Rightarrow> bool list \<Rightarrow> virtqueue_segment list \<Rightarrow> u64 \<Rightarrow> u16 \<Rightarrow> bus
     \<Rightarrow> bus \<times> virtqueue_parse_result" where
  "parse_table_loop 0 indirect table_address table_size expected visited segments total_length index b =
     (b, parse_failure ChainTooLong)"
| "parse_table_loop (Suc n) indirect table_address table_size expected visited segments total_length index b =
     (if table_size \<le> index then (b, parse_failure IndexOutOfRange)
      else if visited ! unat index then (b, parse_failure ChainLoop)
      else case read_raw_descriptor b table_address index of
        (b, None) \<Rightarrow> (b, parse_failure ParseDmaReadFailure)
      | (b, Some d) \<Rightarrow>
          if rd_flags d AND kDescriptorFlagIndirect \<noteq> 0 then
            (case indirect of
               None \<Rightarrow> (b, parse_failure IndirectUnsupported)
             | Some f \<Rightarrow> if segments \<noteq> [] then (b, parse_failure IndirectUnsupported) else f b d)
          else if expected \<noteq> [] \<and> (length expected \<le> length segments
               \<or> \<not> direction_matches (descriptor_write d) (expected ! length segments))
          then (b, parse_failure DirectionMismatch)
          else if rd_length d \<noteq> 0 \<and> sum_overflows (rd_address d) (ucast (rd_length d) - 1)
          then (b, parse_failure DescriptorAddressOverflow)
          else if sum_overflows total_length (ucast (rd_length d)) then (b, parse_failure DescriptorAddressOverflow)
          else
            let segments = segments @ [segment_of d] in
            if rd_flags d AND kDescriptorFlagNext = 0 then
              if expected \<noteq> [] \<and> length segments \<noteq> length expected then (b, parse_failure DirectionMismatch)
              else (b, \<lparr>vp_code = ParseNone, vp_segments = segments\<rparr>)
            else parse_table_loop n indirect table_address table_size expected (visited[unat index := True]) segments
                   (total_length + ucast (rd_length d)) (rd_next d) b)"

definition parse_table ::
    "(bus \<Rightarrow> raw_descriptor \<Rightarrow> bus \<times> virtqueue_parse_result) option \<Rightarrow> bus \<Rightarrow> u64 \<Rightarrow> u16 \<Rightarrow> u16
     \<Rightarrow> virtqueue_descriptor_direction list \<Rightarrow> bus \<times> virtqueue_parse_result" where
  "parse_table indirect b table_address table_size head expected =
     (if table_size \<le> head then (b, parse_failure IndexOutOfRange)
      else parse_table_loop (unat table_size) indirect table_address table_size expected
             (replicate (unat table_size) False) [] 0 head b)"

definition parse_indirect_descriptor ::
    "virtqueue_descriptor_direction list \<Rightarrow> bus \<Rightarrow> raw_descriptor \<Rightarrow> bus \<times> virtqueue_parse_result" where
  "parse_indirect_descriptor expected b d =
     (if rd_flags d AND kDescriptorFlagWrite \<noteq> 0 \<or> rd_flags d AND kDescriptorFlagNext \<noteq> 0
         \<or> rd_length d = 0 \<or> (ucast (rd_length d) :: u64) mod kDescriptorSize \<noteq> 0
      then (b, parse_failure IndirectUnsupported)
      else let indirect_count = (ucast (rd_length d) :: u64) div kDescriptorSize in
        if indirect_count = 0 \<or> indirect_count > 0xFFFF then (b, parse_failure ChainTooLong)
        else parse_table None b (rd_address d) (ucast indirect_count) 0 expected)"

definition parse_descriptor_chain ::
    "bus \<Rightarrow> virtqueue_layout \<Rightarrow> u16 \<Rightarrow> virtqueue_descriptor_direction list \<Rightarrow> bus \<times> virtqueue_parse_result" where
  "parse_descriptor_chain b layout head expected =
     (if \<not> vl_ready layout \<or> vl_size layout = 0 then (b, parse_failure ParseQueueNotReady)
      else if vl_size layout \<le> head then (b, parse_failure IndexOutOfRange)
      else parse_table (if vl_indirect_enabled layout then Some (parse_indirect_descriptor expected) else None)
             b (vl_descriptor_table layout) (vl_size layout) head expected)"

subsection \<open>The rings\<close>

record virtqueue_runtime_state =
  vr_last_available_idx :: u16
  vr_used_idx :: u16
  vr_generation :: u64

definition virtqueue_runtime_create :: virtqueue_runtime_state where
  "virtqueue_runtime_create = \<lparr>vr_last_available_idx = 0, vr_used_idx = 0, vr_generation = 0\<rparr>"

definition virtqueue_runtime_reset :: "u16 \<Rightarrow> virtqueue_runtime_state \<Rightarrow> virtqueue_runtime_state" where
  "virtqueue_runtime_reset initial_index q =
     \<lparr>vr_last_available_idx = initial_index, vr_used_idx = initial_index, vr_generation = vr_generation q + 1\<rparr>"

definition consume_available ::
    "virtqueue_runtime_state \<Rightarrow> bus \<Rightarrow> virtqueue_layout
     \<Rightarrow> virtqueue_runtime_state \<times> bus \<times> virtqueue_available_result" where
  "consume_available q b layout =
     (if \<not> vl_ready layout \<or> vl_size layout = 0
      then (q, b, \<lparr>va_code = RingQueueNotReady, va_available_index = 0, va_head = 0, va_pending_count = 0\<rparr>)
      else case bus_read b (vl_available_ring layout + 2) HalfWord DmaRead of (b, idx) \<Rightarrow>
        if \<not> ar_ok idx
        then (q, b, \<lparr>va_code = RingDmaReadFailure, va_available_index = 0, va_head = 0, va_pending_count = 0\<rparr>)
        else
          let available_index = ucast (ar_value idx);
              pending = virtqueue_index_delta available_index (vr_last_available_idx q) in
          if pending = 0
          then (q, b, \<lparr>va_code = RingNone, va_available_index = available_index, va_head = 0, va_pending_count = 0\<rparr>)
          else if pending > vl_size layout
          then (q, b, \<lparr>va_code = TooManyPending, va_available_index = available_index, va_head = 0,
                  va_pending_count = pending\<rparr>)
          else
            let slot = virtqueue_ring_slot (vr_last_available_idx q) (vl_size layout) in
            case bus_read b (vl_available_ring layout + 4 + ucast slot * 2) HalfWord DmaRead of (b, head) \<Rightarrow>
              if \<not> ar_ok head
              then (q, b, \<lparr>va_code = RingDmaReadFailure, va_available_index = available_index, va_head = 0,
                      va_pending_count = pending\<rparr>)
              else (q\<lparr>vr_last_available_idx := vr_last_available_idx q + 1\<rparr>, b,
                    \<lparr>va_code = RingNone, va_available_index = available_index, va_head = ucast (ar_value head),
                     va_pending_count = pending\<rparr>))"

definition publish_used ::
    "virtqueue_runtime_state \<Rightarrow> bus \<Rightarrow> virtqueue_layout \<Rightarrow> u32 \<Rightarrow> u32
     \<Rightarrow> virtqueue_runtime_state \<times> bus \<times> virtqueue_ring_error_code" where
  "publish_used q b layout ident len =
     (if \<not> vl_ready layout \<or> vl_size layout = 0 then (q, b, RingQueueNotReady)
      else
        let slot = virtqueue_ring_slot (vr_used_idx q) (vl_size layout);
            element = vl_used_ring layout + 4 + ucast slot * 8 in
        case bus_write b element Word32 (ucast ident) DmaWrite of (b, id_write) \<Rightarrow>
        if \<not> ar_ok id_write then (q, b, RingDmaWriteFailure)
        else case bus_write b (element + 4) Word32 (ucast len) DmaWrite of (b, len_write) \<Rightarrow>
        if \<not> ar_ok len_write then (q, b, RingDmaWriteFailure)
        else
          let next_used_idx = vr_used_idx q + 1 in
          case bus_write b (vl_used_ring layout + 2) HalfWord (ucast next_used_idx) DmaWrite of (b, idx_write) \<Rightarrow>
          if \<not> ar_ok idx_write then (q, b, RingDmaWriteFailure)
          else (q\<lparr>vr_used_idx := next_used_idx\<rparr>, b, RingNone))"

definition driver_notification_needed ::
    "virtqueue_runtime_state \<Rightarrow> bus \<Rightarrow> virtqueue_layout \<Rightarrow> bus \<times> virtqueue_ring_error_code \<times> bool" where
  "driver_notification_needed q b layout =
     (if \<not> vl_ready layout \<or> vl_size layout = 0 then (b, RingQueueNotReady, False)
      else if \<not> vl_event_idx_enabled layout then
        (case bus_read b (vl_available_ring layout) HalfWord DmaRead of (b, flags) \<Rightarrow>
           if \<not> ar_ok flags then (b, RingDmaReadFailure, False)
           else (b, RingNone, (ucast (ar_value flags) :: u16) AND kAvailableFlagNoInterrupt = 0))
      else
        (case bus_read b (vl_available_ring layout + 4 + ucast (vl_size layout) * 2) HalfWord DmaRead of
           (b, used_event) \<Rightarrow>
             if \<not> ar_ok used_event then (b, RingDmaReadFailure, False)
             else (b, RingNone, virtqueue_event_needed (ucast (ar_value used_event)) (vr_used_idx q) (vr_used_idx q - 1))))"

subsection \<open>What a chain is\<close>

text \<open>The descriptors that \<open>next\<close> links from an index of a table, up to the first without the next flag.\<close>

inductive descriptor_chain ::
    "(u16 \<Rightarrow> raw_descriptor option) \<Rightarrow> u16 \<Rightarrow> u16 \<Rightarrow> u16 list \<Rightarrow> raw_descriptor list \<Rightarrow> bool" for T n where
  chain_last: "i < n \<Longrightarrow> T i = Some d \<Longrightarrow> rd_flags d AND kDescriptorFlagNext = 0 \<Longrightarrow> descriptor_chain T n i [i] [d]"
| chain_next: "i < n \<Longrightarrow> T i = Some d \<Longrightarrow> rd_flags d AND kDescriptorFlagNext \<noteq> 0 \<Longrightarrow>
    descriptor_chain T n (rd_next d) is ds \<Longrightarrow> descriptor_chain T n i (i # is) (d # ds)"

inductive_cases descriptor_chain_elim: "descriptor_chain T n i is ds"

definition descriptor_ok :: "raw_descriptor \<Rightarrow> bool" where
  "descriptor_ok d \<longleftrightarrow> rd_flags d AND kDescriptorFlagIndirect = 0
     \<and> (rd_length d \<noteq> 0 \<longrightarrow> unat (rd_address d) + unat (rd_length d) \<le> 2 ^ 64)"

definition request_matches :: "virtqueue_descriptor_direction list \<Rightarrow> raw_descriptor list \<Rightarrow> bool" where
  "request_matches expected ds \<longleftrightarrow> expected = [] \<or> list_all2 (\<lambda>d. direction_matches (descriptor_write d)) ds expected"

definition chain_accepts ::
    "(u16 \<Rightarrow> raw_descriptor option) \<Rightarrow> u16 \<Rightarrow> u16 \<Rightarrow> virtqueue_descriptor_direction list
     \<Rightarrow> virtqueue_segment list \<Rightarrow> bool" where
  "chain_accepts T n head expected segments \<longleftrightarrow> (\<exists>is ds. descriptor_chain T n head is ds \<and> distinct is
     \<and> (\<forall>d\<in>set ds. descriptor_ok d) \<and> request_matches expected ds \<and> segments = map segment_of ds)"

definition descriptor_at :: "bus \<Rightarrow> u64 \<Rightarrow> u16 \<Rightarrow> raw_descriptor option" where
  "descriptor_at b table_address index = snd (read_raw_descriptor b table_address index)"

text \<open>Reading descriptors has no side effect, as in RAM.\<close>

definition descriptors_pure :: "bus \<Rightarrow> u64 \<Rightarrow> u16 \<Rightarrow> bool" where
  "descriptors_pure b table_address n \<longleftrightarrow> (\<forall>i < n. fst (read_raw_descriptor b table_address i) = b)"

lemma sum_overflows_iff: "sum_overflows x y \<longleftrightarrow> 2 ^ 64 \<le> unat x + unat y"
proof -
  have "unat (NOT 0 - y) = 2 ^ 64 - 1 - unat y"
    using unat_sub [of y "NOT 0"] by (simp add: unsigned_minus_1_eq_mask mask_eq_exp_minus_1)
  then show ?thesis using unat_u64_less [of y] by (auto simp: sum_overflows_def word_less_nat_alt)
qed

lemma range_no_wrap:
  "(rd_length d \<noteq> 0 \<and> sum_overflows (rd_address d) (ucast (rd_length d) - 1)) \<longleftrightarrow>
     rd_length d \<noteq> 0 \<and> 2 ^ 64 < unat (rd_address d) + unat (rd_length d)"
proof (cases "rd_length d = 0")
  case False
  have l: "unat (ucast (rd_length d) :: u64) = unat (rd_length d)"
    using unsigned_less [of "rd_length d", where 'a = nat] by (simp add: unsigned_ucast_eq take_bit_eq_mod)
  then have "1 \<le> (ucast (rd_length d) :: u64)" using False by (simp add: word_le_nat_alt unat_gt_0 Suc_le_eq)
  then have "unat (ucast (rd_length d) - 1 :: u64) = unat (rd_length d) - 1" by (simp add: unat_sub l)
  moreover have "0 < unat (rd_length d)" using False by (simp add: unat_gt_0)
  ultimately show ?thesis using False by (auto simp: sum_overflows_iff)
qed simp

lemma chain_indices:
  "descriptor_chain T n i is ds \<Longrightarrow> set is \<subseteq> {..<n} \<and> length ds = length is \<and> is \<noteq> [] \<and> hd is = i"
  by (induction rule: descriptor_chain.induct) auto

definition loop_done ::
    "(u16 \<Rightarrow> raw_descriptor option) \<Rightarrow> u16 \<Rightarrow> nat \<Rightarrow> virtqueue_descriptor_direction list \<Rightarrow> bool list
     \<Rightarrow> virtqueue_segment list \<Rightarrow> u16 \<Rightarrow> virtqueue_segment list \<Rightarrow> bool" where
  "loop_done T sz n expected visited segments i result \<longleftrightarrow> (\<exists>is ds. descriptor_chain T sz i is ds \<and> distinct is
     \<and> (\<forall>j\<in>set is. \<not> visited ! unat j) \<and> length is \<le> n \<and> (\<forall>d\<in>set ds. descriptor_ok d)
     \<and> (expected = [] \<or> length segments \<le> length expected
          \<and> list_all2 (\<lambda>d. direction_matches (descriptor_write d)) ds (drop (length segments) expected))
     \<and> result = segments @ map segment_of ds)"

lemma loop_done_0: "\<not> loop_done T sz 0 expected visited segments i result"
  by (auto simp: loop_done_def dest: chain_indices)

lemma list_all2_drop:
  "k < length xs \<Longrightarrow> list_all2 P (y # ys) (drop k xs) \<longleftrightarrow> P y (xs ! k) \<and> list_all2 P ys (drop (Suc k) xs)"
  by (simp add: Cons_nth_drop_Suc [symmetric])

lemma loop_done_Suc:
  assumes "length visited = unat sz"
  shows "loop_done T sz (Suc n) expected visited segments i result \<longleftrightarrow>
    i < sz \<and> \<not> visited ! unat i \<and> (\<exists>d. T i = Some d \<and> descriptor_ok d
      \<and> (expected = [] \<or> length segments < length expected
           \<and> direction_matches (descriptor_write d) (expected ! length segments))
      \<and> (if rd_flags d AND kDescriptorFlagNext = 0
         then (expected = [] \<or> Suc (length segments) = length expected) \<and> result = segments @ [segment_of d]
         else loop_done T sz n expected (visited[unat i := True]) (segments @ [segment_of d]) (rd_next d) result))"
    (is "?L \<longleftrightarrow> ?R")
proof
  assume ?L
  then obtain "is" ds where c: "descriptor_chain T sz i is ds" "distinct is" "\<forall>j\<in>set is. \<not> visited ! unat j"
    "length is \<le> Suc n" "\<forall>d\<in>set ds. descriptor_ok d"
    "expected = [] \<or> length segments \<le> length expected
          \<and> list_all2 (\<lambda>d. direction_matches (descriptor_write d)) ds (drop (length segments) expected)"
    "result = segments @ map segment_of ds" by (auto simp: loop_done_def)
  from c(1) show ?R
  proof (cases rule: descriptor_chain.cases)
    case (chain_last d)
    have "expected = [] \<or> length segments < length expected \<and> Suc (length segments) = length expected
        \<and> direction_matches (descriptor_write d) (expected ! length segments)"
      using c(6) chain_last by (auto simp: list_all2_conv_all_nth)
    then show ?thesis using chain_last c by auto
  next
    case (chain_next d is' ds')
    have e: "expected = [] \<or> length segments < length expected
        \<and> direction_matches (descriptor_write d) (expected ! length segments)
        \<and> list_all2 (\<lambda>d. direction_matches (descriptor_write d)) ds' (drop (Suc (length segments)) expected)"
      using c(6) chain_next(2) list_all2_lengthD
      by (cases "length segments < length expected") (auto simp: list_all2_drop)
    have v: "\<forall>j\<in>set is'. \<not> visited[unat i := True] ! unat j"
    proof
      fix j assume j: "j \<in> set is'"
      then have "unat i \<noteq> unat j" using c(2) chain_next(1) by (auto simp flip: word_unat_eq_iff)
      then show "\<not> visited[unat i := True] ! unat j" using c(3) chain_next(1) j by simp
    qed
    have "loop_done T sz n expected (visited[unat i := True]) (segments @ [segment_of d]) (rd_next d) result"
      unfolding loop_done_def
      by (rule exI [of _ is'], rule exI [of _ ds']) (use c e v chain_next in auto)
    then show ?thesis using chain_next c e by auto
  qed
next
  assume ?R
  then obtain d where d: "i < sz" "\<not> visited ! unat i" "T i = Some d" "descriptor_ok d"
    "expected = [] \<or> length segments < length expected
           \<and> direction_matches (descriptor_write d) (expected ! length segments)"
    "if rd_flags d AND kDescriptorFlagNext = 0
         then (expected = [] \<or> Suc (length segments) = length expected) \<and> result = segments @ [segment_of d]
         else loop_done T sz n expected (visited[unat i := True]) (segments @ [segment_of d]) (rd_next d) result"
    by blast
  show ?L
  proof (cases "rd_flags d AND kDescriptorFlagNext = 0")
    case True
    then show ?thesis unfolding loop_done_def
      by (intro exI [of _ "[i]"] exI [of _ "[d]"]) (use d in \<open>auto simp: list_all2_drop intro: chain_last\<close>)
  next
    case False
    then obtain "is" ds where c: "descriptor_chain T sz (rd_next d) is ds" "distinct is"
      "\<forall>j\<in>set is. \<not> visited[unat i := True] ! unat j" "length is \<le> n" "\<forall>d\<in>set ds. descriptor_ok d"
      "expected = [] \<or> Suc (length segments) \<le> length expected
          \<and> list_all2 (\<lambda>d. direction_matches (descriptor_write d)) ds (drop (Suc (length segments)) expected)"
      "result = segments @ [segment_of d] @ map segment_of ds" using d(6) by (auto simp: loop_done_def)
    have i: "unat i < length visited" using d(1) assms by (simp add: word_less_nat_alt)
    have notin: "i \<notin> set is" using c(3) i by auto
    have v: "\<forall>j\<in>set (i # is). \<not> visited ! unat j"
      using c(3) d(2) i notin by (auto simp: nth_list_update word_unat_eq_iff split: if_splits)
    show ?thesis unfolding loop_done_def
      by (rule exI [of _ "i # is"], rule exI [of _ "d # ds"])
        (use d c v notin False in \<open>auto simp: list_all2_drop intro: chain_next\<close>)
  qed
qed

lemma unat_ucast_u32: "unat (ucast (x :: u32) :: u64) = unat x"
  using unsigned_less [of x, where 'a = nat] by (simp add: unsigned_ucast_eq take_bit_eq_mod)

lemma total_length_bound:
  assumes "unat total_length \<le> k * 2 ^ 32" "k < 65536"
  shows "\<not> sum_overflows total_length (ucast (len :: u32))" "unat (total_length + ucast len) \<le> Suc k * 2 ^ 32"
proof -
  have "unat (ucast len :: u64) < 2 ^ 32" using unsigned_less [of len, where 'a = nat] by (simp add: unat_ucast_u32)
  moreover have "k * 2 ^ 32 \<le> 65535 * 2 ^ 32" using assms(2) by simp
  ultimately show "\<not> sum_overflows total_length (ucast len)" "unat (total_length + ucast len) \<le> Suc k * 2 ^ 32"
    using assms(1) unat_word_ariths(1) [of total_length "ucast len"] by (simp_all add: sum_overflows_iff)
qed

lemma parse_table_loop_next:
  assumes "\<not> sz \<le> i" "\<not> visited ! unat i" "read_raw_descriptor b t i = (b, Some d)"
    "\<not> rd_flags d AND kDescriptorFlagIndirect \<noteq> 0"
    "\<not> (expected \<noteq> [] \<and> (length expected \<le> length segments
        \<or> \<not> direction_matches (descriptor_write d) (expected ! length segments)))"
    "\<not> (rd_length d \<noteq> 0 \<and> sum_overflows (rd_address d) (ucast (rd_length d) - 1))"
    "\<not> sum_overflows total_length (ucast (rd_length d))" "\<not> rd_flags d AND kDescriptorFlagNext = 0"
  shows "parse_table_loop (Suc n) ind t sz expected visited segments total_length i b
    = parse_table_loop n ind t sz expected (visited[unat i := True]) (segments @ [segment_of d])
        (total_length + ucast (rd_length d)) (rd_next d) b"
  by (simp only: parse_table_loop.simps assms if_False prod.case option.case Let_def)

lemma parse_table_loop_iff:
  assumes "descriptors_pure b t sz" "length visited = unat sz" "length segments + n \<le> unat sz"
    and "unat sum_so_far \<le> length segments * 2 ^ 32"
  shows "vp_code (snd (parse_table_loop n ind t sz expected visited segments sum_so_far i b)) = ParseNone
     \<and> vp_segments (snd (parse_table_loop n ind t sz expected visited segments sum_so_far i b)) = result \<longleftrightarrow>
    loop_done (descriptor_at b t) sz n expected visited segments i result
    \<or> segments = [] \<and> n \<noteq> 0 \<and> i < sz \<and> \<not> visited ! unat i
        \<and> (\<exists>f d. ind = Some f \<and> descriptor_at b t i = Some d \<and> rd_flags d AND kDescriptorFlagIndirect \<noteq> 0
             \<and> vp_code (snd (f b d)) = ParseNone \<and> vp_segments (snd (f b d)) = result)"
  using assms(2-4)
proof (induction n arbitrary: visited segments sum_so_far i)
  case 0
  then show ?case by (simp add: loop_done_0 parse_failure_def)
next
  case (Suc n)
  have sz: "unat sz < 65536" using unsigned_less [of sz, where 'a = nat] by simp
  show ?case
  proof (cases "i < sz \<and> \<not> visited ! unat i")
    case False
    then show ?thesis by (auto simp: loop_done_Suc [OF Suc.prems(1)] parse_failure_def not_less)
  next
    case True
    then have r: "read_raw_descriptor b t i = (b, descriptor_at b t i)"
      using assms(1) by (simp add: descriptors_pure_def descriptor_at_def prod_eq_iff)
    show ?thesis
    proof (cases "descriptor_at b t i")
      case None
      then show ?thesis using True r by (simp add: loop_done_Suc [OF Suc.prems(1)] parse_failure_def not_le)
    next
      case (Some d)
      let ?len = "ucast (rd_length d) :: u64"
      have no: "\<not> sum_overflows sum_so_far ?len" and sums: "unat (sum_so_far + ?len) \<le> Suc (length segments) * 2 ^ 32"
        using total_length_bound [OF Suc.prems(3)] Suc.prems(2) sz by auto
      have IH: "vp_code (snd (parse_table_loop n ind t sz expected (visited[unat i := True]) (segments @ [segment_of d])
              (sum_so_far + ?len) (rd_next d) b)) = ParseNone
          \<and> vp_segments (snd (parse_table_loop n ind t sz expected (visited[unat i := True]) (segments @ [segment_of d])
              (sum_so_far + ?len) (rd_next d) b)) = result \<longleftrightarrow>
          loop_done (descriptor_at b t) sz n expected (visited[unat i := True]) (segments @ [segment_of d]) (rd_next d) result"
        using Suc.IH [of "visited[unat i := True]" "segments @ [segment_of d]" "sum_so_far + ?len" "rd_next d"]
          Suc.prems sums by simp
      note step = loop_done_Suc [OF Suc.prems(1), of "descriptor_at b t" n expected segments i result]
      let ?mismatch = "expected \<noteq> [] \<and> (length expected \<le> length segments
          \<or> \<not> direction_matches (descriptor_write d) (expected ! length segments))"
      show ?thesis
      proof (cases "rd_flags d AND kDescriptorFlagIndirect = 0")
        case False
        then show ?thesis
          using True Some r unfolding step
          by (cases ind) (auto simp: parse_failure_def not_le descriptor_ok_def)
      next
        case direct: True
        show ?thesis
        proof (cases "?mismatch \<or> rd_length d \<noteq> 0 \<and> sum_overflows (rd_address d) (?len - 1)")
          case True
          then have "\<not> (descriptor_ok d \<and> \<not> ?mismatch)" using range_no_wrap [of d] by (auto simp: descriptor_ok_def)
          then have "\<not> loop_done (descriptor_at b t) sz (Suc n) expected visited segments i result"
            using Some unfolding step by auto
          moreover have "vp_code (snd (parse_table_loop (Suc n) ind t sz expected visited segments sum_so_far i b)) \<noteq> ParseNone"
            using True \<open>i < sz \<and> \<not> visited ! unat i\<close> r Some direct
            by (cases ?mismatch) (simp_all add: parse_failure_def not_le)
          ultimately show ?thesis using Some direct by simp
        next
          case False
          then have ok: "descriptor_ok d" "expected = [] \<or> length segments < length expected
              \<and> direction_matches (descriptor_write d) (expected ! length segments)"
            using range_no_wrap [of d] direct by (auto simp: descriptor_ok_def)
          show ?thesis
          proof (cases "rd_flags d AND kDescriptorFlagNext = 0")
            case last: True
            show ?thesis
              using True Some r no direct False ok last unfolding step
              by (auto simp: parse_failure_def not_le)
          next
            case more: False
            have eq: "parse_table_loop (Suc n) ind t sz expected visited segments sum_so_far i b
                = parse_table_loop n ind t sz expected (visited[unat i := True]) (segments @ [segment_of d])
                    (sum_so_far + ?len) (rd_next d) b"
              using True direct False no more r Some by (intro parse_table_loop_next) auto
            show ?thesis unfolding eq IH step using True Some direct ok more by auto
          qed
        qed
      qed
    qed
  qed
qed

lemma loop_done_start:
  "loop_done T sz (unat sz) expected (replicate (unat sz) False) [] i result \<longleftrightarrow> chain_accepts T sz i expected result"
proof -
  have "length is \<le> unat sz \<and> (\<forall>j\<in>set is. \<not> replicate (unat sz) False ! unat j)"
    if "descriptor_chain T sz i is ds" "distinct is" for "is" ds
  proof -
    have s: "set is \<subseteq> {..<sz}" using chain_indices [OF that(1)] by blast
    then have "unat ` set is \<subseteq> {..<unat sz}" by (auto simp: word_less_nat_alt)
    then have "card (unat ` set is) \<le> unat sz" using card_mono [of "{..<unat sz}" "unat ` set is"] by simp
    moreover have "card (unat ` set is) = length is"
      using that(2) by (simp add: card_image distinct_card inj_on_def word_unat_eq_iff)
    moreover have "\<not> replicate (unat sz) False ! unat j" if "j \<in> set is" for j
      using s that by (auto simp: word_less_nat_alt)
    ultimately show ?thesis by simp
  qed
  then show ?thesis unfolding loop_done_def chain_accepts_def request_matches_def by (auto; blast)
qed

lemma parse_table_iff:
  assumes "descriptors_pure b t sz"
  shows "vp_code (snd (parse_table ind b t sz head expected)) = ParseNone
     \<and> vp_segments (snd (parse_table ind b t sz head expected)) = result \<longleftrightarrow>
    head < sz \<and> (chain_accepts (descriptor_at b t) sz head expected result
      \<or> (\<exists>f d. ind = Some f \<and> descriptor_at b t head = Some d \<and> rd_flags d AND kDescriptorFlagIndirect \<noteq> 0
             \<and> vp_code (snd (f b d)) = ParseNone \<and> vp_segments (snd (f b d)) = result))"
proof (cases "head < sz")
  case True
  then have "unat head < unat sz" by (simp add: word_less_nat_alt)
  then show ?thesis
    using True parse_table_loop_iff [OF assms, of "replicate (unat sz) False" "[]" "unat sz" 0 ind expected head result]
    by (auto simp: parse_table_def loop_done_start not_le)
qed (simp add: parse_table_def parse_failure_def not_less)

text \<open>A descriptor that may stand for an indirect table, and the number of entries of the table.\<close>

definition indirect_head :: "raw_descriptor \<Rightarrow> bool" where
  "indirect_head d \<longleftrightarrow> rd_flags d AND kDescriptorFlagIndirect \<noteq> 0 \<and> rd_flags d AND kDescriptorFlagWrite = 0
     \<and> rd_flags d AND kDescriptorFlagNext = 0 \<and> 0 < unat (rd_length d) \<and> 16 dvd unat (rd_length d)
     \<and> unat (rd_length d) div 16 \<le> 65535"

definition indirect_entries :: "raw_descriptor \<Rightarrow> u16" where
  "indirect_entries d = of_nat (unat (rd_length d) div 16)"

lemma parse_indirect_iff:
  assumes "descriptors_pure b (rd_address d) (indirect_entries d)" "rd_flags d AND kDescriptorFlagIndirect \<noteq> 0"
  shows "vp_code (snd (parse_indirect_descriptor expected b d)) = ParseNone
     \<and> vp_segments (snd (parse_indirect_descriptor expected b d)) = result \<longleftrightarrow>
    indirect_head d \<and> chain_accepts (descriptor_at b (rd_address d)) (indirect_entries d) 0 expected result"
proof -
  let ?l = "ucast (rd_length d) :: u64"
  have l: "unat (?l mod 16) = unat (rd_length d) mod 16" "unat (?l div 16) = unat (rd_length d) div 16"
    by (simp_all add: unat_mod unat_div unat_ucast_u32)
  have zero: "rd_length d = 0 \<longleftrightarrow> unat (rd_length d) = 0" "?l mod 16 = 0 \<longleftrightarrow> 16 dvd unat (rd_length d)"
    "?l div 16 = 0 \<longleftrightarrow> unat (rd_length d) div 16 = 0" "?l div 16 > 0xFFFF \<longleftrightarrow> 65535 < unat (rd_length d) div 16"
    using l by (auto simp: word_unat_eq_iff word_less_nat_alt)
  have e: "ucast (?l div 16) = indirect_entries d"
    by (metis indirect_entries_def l(2) of_nat_unat)
  show ?thesis
  proof (cases "indirect_head d")
    case False
    then show ?thesis using assms(2) unfolding parse_indirect_descriptor_def Let_def zero
      by (auto simp: indirect_head_def parse_failure_def not_le)
  next
    case True
    then have "parse_indirect_descriptor expected b d = parse_table None b (rd_address d) (indirect_entries d) 0 expected"
      unfolding parse_indirect_descriptor_def Let_def zero e by (auto simp: indirect_head_def dvd_def)
    moreover have "0 < indirect_entries d"
    proof -
      have "unat (indirect_entries d) = unat (rd_length d) div 16"
        using True by (simp add: indirect_head_def indirect_entries_def unat_of_nat)
      then show ?thesis using True by (auto simp: indirect_head_def word_less_nat_alt dvd_def)
    qed
    ultimately show ?thesis
      using True parse_table_iff [OF assms(1), of None 0 expected result] by simp
  qed
qed

text \<open>C38. The descriptor walk accepts exactly the well-formed requests. It returns segments if and only if the queue is
  ready and they are those of a chain of descriptors, in the table of the queue or in the one indirect table its head
  names when that feature is negotiated: the indices are in range and never repeat, no descriptor of the chain is
  itself indirect, no DMA range wraps around, and the directions are those the device expects. Everything else is
  refused with an error, and the walk always ends.\<close>

theorem parse_descriptor_chain_correct:
  assumes "descriptors_pure b (vl_descriptor_table layout) (vl_size layout)"
    and "\<And>d. descriptor_at b (vl_descriptor_table layout) head = Some d \<Longrightarrow>
           descriptors_pure b (rd_address d) (indirect_entries d)"
  shows "vp_code (snd (parse_descriptor_chain b layout head expected)) = ParseNone
     \<and> vp_segments (snd (parse_descriptor_chain b layout head expected)) = segments \<longleftrightarrow>
    vl_ready layout \<and> head < vl_size layout
    \<and> (chain_accepts (descriptor_at b (vl_descriptor_table layout)) (vl_size layout) head expected segments
       \<or> vl_indirect_enabled layout \<and> (\<exists>d. descriptor_at b (vl_descriptor_table layout) head = Some d \<and> indirect_head d
           \<and> chain_accepts (descriptor_at b (rd_address d)) (indirect_entries d) 0 expected segments))"
proof (cases "vl_ready layout \<and> head < vl_size layout")
  case False
  then show ?thesis by (auto simp: parse_descriptor_chain_def parse_failure_def not_less)
next
  case True
  let ?ind = "if vl_indirect_enabled layout then Some (parse_indirect_descriptor expected) else None"
  have "parse_descriptor_chain b layout head expected
      = parse_table ?ind b (vl_descriptor_table layout) (vl_size layout) head expected"
    using True by (auto simp: parse_descriptor_chain_def not_le)
  then show ?thesis
    using True parse_table_iff [OF assms(1), of ?ind head expected segments]
      parse_indirect_iff [OF assms(2), of _ expected segments]
    by (auto simp: indirect_head_def split: if_splits)
qed

lemma ram_reads_pure: "\<forall>r\<in>set (bus_regions b). \<exists>m. r = RamRegion m \<Longrightarrow> fst (bus_read b a w t) = b"
proof (cases "bus_locate b a w")
  case (Inr p)
  assume ram: "\<forall>r\<in>set (bus_regions b). \<exists>m. r = RamRegion m"
  obtain i off where p: "p = (i, off)" by (cases p)
  with Inr have i: "i < length (bus_regions b)" by (auto dest: bus_locate_Inr)
  then obtain m where "bus_regions b ! i = RamRegion m" using ram nth_mem by blast
  then show ?thesis
    using Inr p list_update_id [of "bus_regions b" i]
    by (simp add: bus_read_def pm_read_def Let_def set_region_def map_prod_simps split_beta)
qed (simp add: bus_read_def)

lemma ram_descriptors_pure: "\<forall>r\<in>set (bus_regions b). \<exists>m. r = RamRegion m \<Longrightarrow> descriptors_pure b t n"
  by (simp add: descriptors_pure_def read_raw_descriptor_def read_descriptor_field_def ram_reads_pure split_beta Let_def)

text \<open>A request of two descriptors, 0 and then 2, in RAM.\<close>

definition example_queue_bus :: bus where
  "example_queue_bus = fst (register_region bus_create (Some (RamRegion
     \<lparr>pm_range = \<lparr>rng_base = 0x80000000, rng_size = 48, rng_end_exclusive = 0x80000030\<rparr>, pm_name = ''ram'',
      pm_bytes = [0, 0x10, 0, 0x80, 0, 0, 0, 0, 16, 0, 0, 0, 1, 0, 2, 0] @ replicate 16 0
        @ [0, 0x20, 0, 0x80, 0, 0, 0, 0, 1, 0, 0, 0, 2, 0, 0, 0]\<rparr>)))"

definition example_layout :: virtqueue_layout where
  "example_layout = \<lparr>vl_size = 4, vl_descriptor_table = 0x80000000, vl_available_ring = 0, vl_used_ring = 0,
     vl_ready = True, vl_indirect_enabled = False, vl_event_idx_enabled = False\<rparr>"

theorem parse_descriptor_chain_correct_witness:
  "chain_accepts (descriptor_at example_queue_bus 0x80000000) 4 0 [DeviceReads, DeviceWrites]
     [\<lparr>sg_address = 0x80001000, sg_length = 16, sg_device_writes = False\<rparr>,
      \<lparr>sg_address = 0x80002000, sg_length = 1, sg_device_writes = True\<rparr>]"
proof -
  have ram: "\<forall>r\<in>set (bus_regions example_queue_bus). \<exists>m. r = RamRegion m"
    by (simp add: example_queue_bus_def register_region_def bus_create_def)
  have "snd (parse_descriptor_chain example_queue_bus example_layout 0 [DeviceReads, DeviceWrites])
    = \<lparr>vp_code = ParseNone, vp_segments = [\<lparr>sg_address = 0x80001000, sg_length = 16, sg_device_writes = False\<rparr>,
         \<lparr>sg_address = 0x80002000, sg_length = 1, sg_device_writes = True\<rparr>]\<rparr>" by code_simp
  then show ?thesis
    using parse_descriptor_chain_correct [of example_queue_bus example_layout 0 "[DeviceReads, DeviceWrites]"
        "[\<lparr>sg_address = 0x80001000, sg_length = 16, sg_device_writes = False\<rparr>,
          \<lparr>sg_address = 0x80002000, sg_length = 1, sg_device_writes = True\<rparr>]"]
      ram_descriptors_pure [OF ram] by (simp add: example_layout_def)
qed

text \<open>The EVENT_IDX test asks for a notification exactly when the index the driver waits for is among those just
  published, counted modulo \<open>2 ^ 16\<close>.\<close>

theorem event_needed_iff:
  "virtqueue_event_needed event_index new_index old_index \<longleftrightarrow>
     (\<exists>k < unat (new_index - old_index). event_index = old_index + of_nat k)"
proof -
  let ?n = "new_index - old_index" and ?e = "event_index - old_index"
  have "x - 1 - y < x \<longleftrightarrow> y < x" for x y :: u16 by uint_arith
  from this [of ?n ?e] have "new_index - event_index - 1 < ?n \<longleftrightarrow> ?e < ?n" by (simp add: diff_diff_eq add.commute)
  also have "\<dots> \<longleftrightarrow> (\<exists>k < unat ?n. event_index = old_index + of_nat k)"
  proof
    assume "?e < ?n"
    then have "unat ?e < unat ?n" by (simp add: word_less_nat_alt)
    moreover have "event_index = old_index + of_nat (unat ?e)" by simp
    ultimately show "\<exists>k < unat ?n. event_index = old_index + of_nat k" by blast
  next
    assume "\<exists>k < unat ?n. event_index = old_index + of_nat k"
    then obtain k where k: "k < unat ?n" "event_index = old_index + of_nat k" by blast
    have "k < 2 ^ 16" using k(1) unsigned_less [of ?n, where 'a = nat] by simp
    then have "unat ?e = k" using k(2) by (simp add: unat_of_nat)
    then show "?e < ?n" using k(1) by (simp add: word_less_nat_alt)
  qed
  finally show ?thesis by (simp add: virtqueue_event_needed_def)
qed

end
