(* ===== verification/Disk_Backend.thy ===== *)
theory Disk_Backend
  imports Emu_Prelude
begin

unbundle bit_operations_syntax

text \<open>
  The disk image (\<open>include/rvemu/platform/disk_backend.hpp\<close>, \<open>src/platform/disk_backend.cpp\<close>): range checks and the
  loops that complete short transfers. The host file is a parameter: what \<open>pread\<close> and \<open>pwrite\<close> do to it is given by
  \<open>host_file\<close>, with an empty or zero transfer for an error or end of file. The error number and text of a failure are
  left out.
\<close>

datatype disk_error_code =
  DiskNone | OpenFailure | StatFailure | InvalidFileType | InvalidSize | DiskReadOnly | DiskOutOfRange | IoFailure

datatype disk_open_mode = OpenReadOnly | OpenReadWrite

record 'f host_file =
  hf_pread :: "'f \<Rightarrow> nat \<Rightarrow> nat \<Rightarrow> u8 list"
  hf_pwrite :: "'f \<Rightarrow> nat \<Rightarrow> u8 list \<Rightarrow> 'f \<times> nat"

text \<open>The file behind the descriptor, \<open>None\<close> while it is negative.\<close>

record 'f disk_backend =
  db_file :: "'f option"
  db_writable :: bool
  db_capacity_sectors :: u64

abbreviation (input) kSectorSize :: u64 where "kSectorSize \<equiv> 512"
abbreviation (input) kOffMax :: u64 where "kOffMax \<equiv> 0x7FFFFFFFFFFFFFFF"

definition disk_create :: "'f disk_backend" where
  "disk_create = \<lparr>db_file = None, db_writable = False, db_capacity_sectors = 0\<rparr>"

definition disk_close :: "'f disk_backend \<Rightarrow> 'f disk_backend" where
  "disk_close d = \<lparr>db_file = None, db_writable = False, db_capacity_sectors = 0\<rparr>"

text \<open>\<open>opened\<close> and \<open>stat\<close> are what the host answers: the file, and whether it is regular with its size.\<close>

definition open_existing ::
    "'f option \<Rightarrow> (bool \<times> int) option \<Rightarrow> disk_open_mode \<Rightarrow> 'f disk_backend \<Rightarrow> 'f disk_backend \<times> disk_error_code" where
  "open_existing opened stat mode d =
     (let d = disk_close d in
      case opened of
        None \<Rightarrow> (d, OpenFailure)
      | Some f \<Rightarrow> let d = d\<lparr>db_file := Some f\<rparr> in
          (case stat of
             None \<Rightarrow> (disk_close d, StatFailure)
           | Some (regular, len) \<Rightarrow>
               if \<not> regular then (disk_close d, InvalidFileType)
               else if len \<le> 0 \<or> (word_of_int len :: u64) mod kSectorSize \<noteq> 0 then (disk_close d, InvalidSize)
               else (d\<lparr>db_capacity_sectors := word_of_int len div kSectorSize, db_writable := (mode = OpenReadWrite)\<rparr>,
                     DiskNone)))"

definition disk_check_range :: "'f disk_backend \<Rightarrow> u64 \<Rightarrow> nat \<Rightarrow> disk_error_code" where
  "disk_check_range d sector byte_count =
     (if db_file d = None then IoFailure
      else if byte_count = 0 then DiskNone
      else
        let sector_offset = sector * kSectorSize;
            capacity_bytes = db_capacity_sectors d * kSectorSize in
        if sector \<noteq> 0 \<and> sector_offset div kSectorSize \<noteq> sector then DiskOutOfRange
        else if sector_offset > capacity_bytes \<or> int byte_count > uint (capacity_bytes - sector_offset) then DiskOutOfRange
        else if sector_offset > kOffMax \<or> int byte_count > uint (kOffMax - sector_offset) then DiskOutOfRange
        else DiskNone)"

text \<open>The transfer loops; \<open>left\<close> counts the bytes of the buffer that are still to be transferred.\<close>

function disk_read_loop :: "'f host_file \<Rightarrow> 'f \<Rightarrow> nat \<Rightarrow> nat \<Rightarrow> u8 list \<Rightarrow> disk_error_code \<times> u8 list" where
  "disk_read_loop ops f position left done =
     (if left = 0 then (DiskNone, done)
      else let bytes = hf_pread ops f position left in
        if bytes = [] then (IoFailure, done)
        else disk_read_loop ops f (position + length bytes) (left - length bytes) (done @ bytes))"
  by pat_completeness auto

termination by (relation "measure (\<lambda>(ops, f, position, left, done). left)") auto

declare disk_read_loop.simps [simp del]

definition disk_read :: "'f host_file \<Rightarrow> 'f disk_backend \<Rightarrow> u64 \<Rightarrow> nat \<Rightarrow> disk_error_code \<times> u8 list" where
  "disk_read ops d sector count =
     (case disk_check_range d sector count of
        DiskNone \<Rightarrow>
          (case db_file d of
             None \<Rightarrow> (IoFailure, [])
           | Some f \<Rightarrow> disk_read_loop ops f (unat (sector * kSectorSize)) count [])
      | code \<Rightarrow> (code, []))"

function disk_write_loop :: "'f host_file \<Rightarrow> 'f \<Rightarrow> nat \<Rightarrow> u8 list \<Rightarrow> 'f \<times> disk_error_code" where
  "disk_write_loop ops f position bytes =
     (if bytes = [] then (f, DiskNone)
      else case hf_pwrite ops f position bytes of (f, count) \<Rightarrow>
        if count = 0 then (f, IoFailure)
        else disk_write_loop ops f (position + count) (drop count bytes))"
  by pat_completeness auto

termination by (relation "measure (\<lambda>(ops, f, position, bytes). length bytes)") auto

declare disk_write_loop.simps [simp del]

definition disk_write :: "'f host_file \<Rightarrow> 'f disk_backend \<Rightarrow> u64 \<Rightarrow> u8 list \<Rightarrow> 'f disk_backend \<times> disk_error_code" where
  "disk_write ops d sector buffer =
     (if \<not> db_writable d then (d, DiskReadOnly)
      else case disk_check_range d sector (length buffer) of
        DiskNone \<Rightarrow>
          (case db_file d of
             None \<Rightarrow> (d, IoFailure)
           | Some f \<Rightarrow>
               let (f, code) = disk_write_loop ops f (unat (sector * kSectorSize)) buffer
               in (d\<lparr>db_file := Some f\<rparr>, code))
      | code \<Rightarrow> (d, code))"


subsection \<open>The image behind the descriptor\<close>

definition overwrite :: "'a list \<Rightarrow> nat \<Rightarrow> 'a list \<Rightarrow> 'a list" where
  "overwrite xs p ys = take p xs @ ys @ drop (p + length ys) xs"

lemma length_overwrite [simp]: "p + length ys \<le> length xs \<Longrightarrow> length (overwrite xs p ys) = length xs"
  by (simp add: overwrite_def)

lemma overwrite_nothing [simp]: "overwrite xs p [] = xs"
  by (simp add: overwrite_def)

lemma overwrite_slice: "p + length ys \<le> length xs \<Longrightarrow> take (length ys) (drop p (overwrite xs p ys)) = ys"
  by (simp add: overwrite_def)

lemma overwrite_in_parts:
  assumes "p + length ys \<le> length xs" "k \<le> length ys"
  shows "overwrite (overwrite xs p (take k ys)) (p + k) (drop k ys) = overwrite xs p ys"
  using assms by (auto simp: overwrite_def intro!: nth_equalityI) (auto simp: nth_append)

text \<open>
  What POSIX says of the two calls on a regular file whose bytes are \<open>content\<close>: a read returns some of the bytes at the
  position, a write inside the file stores some of the bytes given and leaves the others alone.
\<close>

definition posix_file :: "('f \<Rightarrow> u8 list) \<Rightarrow> 'f host_file \<Rightarrow> bool" where
  "posix_file content ops \<longleftrightarrow>
     (\<forall>f p n. \<exists>k\<le>n. hf_pread ops f p n = take k (drop p (content f)))
   \<and> (\<forall>f p bs. p + length bs \<le> length (content f) \<longrightarrow>
        snd (hf_pwrite ops f p bs) \<le> length bs
        \<and> content (fst (hf_pwrite ops f p bs)) = overwrite (content f) p (take (snd (hf_pwrite ops f p bs)) bs))"

text \<open>No error is reported: inside the file something is transferred.\<close>

definition file_responds :: "('f \<Rightarrow> u8 list) \<Rightarrow> 'f host_file \<Rightarrow> bool" where
  "file_responds content ops \<longleftrightarrow>
     (\<forall>f p n. 0 < n \<and> p + n \<le> length (content f) \<longrightarrow> hf_pread ops f p n \<noteq> [])
   \<and> (\<forall>f p bs. bs \<noteq> [] \<and> p + length bs \<le> length (content f) \<longrightarrow> 0 < snd (hf_pwrite ops f p bs))"

text \<open>The image is open, and its length is the frozen capacity, which fits the type of a file offset.\<close>

definition disk_backed :: "('f \<Rightarrow> u8 list) \<Rightarrow> 'f disk_backend \<Rightarrow> 'f \<Rightarrow> bool" where
  "disk_backed content d f \<longleftrightarrow>
     db_file d = Some f \<and> length (content f) = 512 * unat (db_capacity_sectors d) \<and> length (content f) < 2 ^ 63"

lemma open_existing_backed:
  assumes "open_existing (Some f) (Some (regular, int (length (content f)))) mode d = (d', DiskNone)"
    and "length (content f) < 2 ^ 63"
  shows "disk_backed content d' f \<and> db_writable d' = (mode = OpenReadWrite) \<and> content f \<noteq> []"
proof -
  let ?w = "of_nat (length (content f)) :: u64"
  have n: "unat ?w = length (content f)" using assms(2) by (simp add: unat_of_nat)
  from assms(1) have d: "d' = \<lparr>db_file = Some f, db_writable = (mode = OpenReadWrite), db_capacity_sectors = ?w div 512\<rparr>"
    and m: "?w mod 512 = 0" and e: "content f \<noteq> []"
    by (auto simp: open_existing_def disk_close_def Let_def split: if_splits)
  from m have "length (content f) mod 512 = 0"
    using unat_mod [of ?w 512] n by simp
  then show ?thesis
    using assms(2) d e unat_div [of ?w 512] n by (auto simp: disk_backed_def)
qed

lemma disk_check_range_iff:
  assumes "disk_backed content d f"
  shows "disk_check_range d s n =
     (if n = 0 \<or> 512 * unat s + n \<le> length (content f) then DiskNone else DiskOutOfRange)"
proof (cases "n = 0")
  case False
  let ?o = "s * 512" and ?c = "db_capacity_sectors d * 512"
  from assms have f: "db_file d = Some f" and len: "length (content f) = 512 * unat (db_capacity_sectors d)"
    and small: "length (content f) < 2 ^ 63" by (simp_all add: disk_backed_def)
  from small len have c: "unat ?c = length (content f)" by (simp add: unat_word_ariths)
  show ?thesis
  proof (cases "512 * unat s < 2 ^ 64")
    case True
    then have o1: "unat ?o = 512 * unat s" by (simp add: unat_word_ariths)
    then have back_div: "?o div 512 = s" by (simp add: word_unat_eq_iff unat_div)
    have sub: "unat (?c - ?o) = length (content f) - 512 * unat s" if "\<not> ?c < ?o"
      using that o1 c by (simp add: unat_sub not_less)
    have off: "unat (kOffMax - ?o) = (2 ^ 63 - 1) - 512 * unat s" if "\<not> kOffMax < ?o"
      using that o1 by (simp add: unat_sub not_less)
    have cmp: "?c < ?o \<longleftrightarrow> length (content f) < 512 * unat s" "kOffMax < ?o \<longleftrightarrow> 2 ^ 63 - 1 < 512 * unat s"
      using o1 c by (simp_all add: word_less_nat_alt)
    have nat_cmp: "int n > uint x \<longleftrightarrow> n > unat x" for x :: u64
      by (metis int_eq_iff nat_less_iff of_nat_0_le_iff of_nat_less_iff unat_eq_nat_uint uint_ge_0 nat_0_le)
    show ?thesis
      using False f small back_div sub off cmp unfolding disk_check_range_def Let_def nat_cmp
      by (cases "?c < ?o"; cases "kOffMax < ?o") (auto simp: back_div)
  next
    case over: False
    have "?o div 512 \<noteq> s"
    proof
      assume "?o div 512 = s"
      then have "unat ?o div 512 = unat s" using unat_div [of ?o 512] by simp
      moreover have "unat ?o < 2 ^ 64" using unsigned_less [of ?o, where 'a = nat] by simp
      ultimately show False using over times_div_less_eq_dividend [of 512 "unat ?o"] by linarith
    qed
    moreover have "s \<noteq> 0" using over by auto
    ultimately show ?thesis
      using False f over small len unfolding disk_check_range_def Let_def by auto
  qed
qed (use assms in \<open>simp add: disk_check_range_def disk_backed_def\<close>)

lemma posix_read_prefix:
  assumes "posix_file content ops"
  obtains k where "k \<le> n" "k \<le> length (content f) - p" "hf_pread ops f p n = take k (drop p (content f))"
proof -
  from assms obtain k where "k \<le> n" "hf_pread ops f p n = take k (drop p (content f))"
    unfolding posix_file_def by blast
  then show thesis
    using that [of "min k (length (content f) - p)"] by (cases "k \<le> length (content f) - p") auto
qed

lemma disk_read_loop_slice:
  assumes "posix_file content ops" "disk_read_loop ops f p n acc = (DiskNone, data)"
  shows "data = acc @ take n (drop p (content f))"
  using assms(2)
proof (induction n arbitrary: p acc rule: less_induct)
  case (less n)
  obtain k where k: "k \<le> n" "k \<le> length (content f) - p" "hf_pread ops f p n = take k (drop p (content f))"
    using posix_read_prefix [OF assms(1)] by blast
  show ?case
  proof (cases "n = 0 \<or> hf_pread ops f p n = []")
    case True
    then show ?thesis using less.prems by (auto simp: disk_read_loop.simps [of _ _ _ n] Let_def split: if_splits)
  next
    case False
    with k have len: "length (hf_pread ops f p n) = k" "0 < k" by auto
    from False less.prems have "disk_read_loop ops f (p + k) (n - k) (acc @ hf_pread ops f p n) = (DiskNone, data)"
      by (simp add: disk_read_loop.simps [of _ _ _ n] len)
    from less.IH [OF _ this] k len False have "data = acc @ take k (drop p (content f)) @ take (n - k) (drop (p + k) (content f))"
      by simp
    moreover have "take n (drop p (content f)) = take k (drop p (content f)) @ take (n - k) (drop (p + k) (content f))"
      using take_add [of k "n - k" "drop p (content f)"] k(1) by (simp add: add.commute)
    ultimately show ?thesis by simp
  qed
qed

lemma disk_read_loop_responds:
  assumes "posix_file content ops" "file_responds content ops" "p + n \<le> length (content f)"
  shows "fst (disk_read_loop ops f p n acc) = DiskNone"
  using assms(3)
proof (induction n arbitrary: p acc rule: less_induct)
  case (less n)
  obtain k where k: "k \<le> n" "k \<le> length (content f) - p" "hf_pread ops f p n = take k (drop p (content f))"
    using posix_read_prefix [OF assms(1)] by blast
  show ?case
  proof (cases "n = 0")
    case False
    then have "hf_pread ops f p n \<noteq> []" using assms(2) less.prems by (simp add: file_responds_def)
    with k False less show ?thesis by (auto simp: disk_read_loop.simps [of _ _ _ n])
  qed (simp add: disk_read_loop.simps)
qed

lemma disk_write_loop_prefix:
  assumes "posix_file content ops" "p + length bs \<le> length (content f)" "disk_write_loop ops f p bs = (f', code)"
  shows "\<exists>k\<le>length bs. content f' = overwrite (content f) p (take k bs) \<and> (code = DiskNone \<longrightarrow> k = length bs)"
  using assms(2,3)
proof (induction "length bs" arbitrary: f p bs rule: less_induct)
  case less
  obtain g k where w: "hf_pwrite ops f p bs = (g, k)" by fastforce
  with assms(1) less.prems(1) have g: "k \<le> length bs" "content g = overwrite (content f) p (take k bs)"
    by (auto simp: posix_file_def dest!: spec [of _ f] spec [of _ p] spec [of _ bs])
  show ?case
  proof (cases "bs = [] \<or> k = 0")
    case True
    then show ?thesis using less.prems(2) w g by (auto simp: disk_write_loop.simps [of _ _ _ bs] intro: exI [of _ 0] split: if_splits)
  next
    case False
    with less.prems(2) w have "disk_write_loop ops g (p + k) (drop k bs) = (f', code)"
      by (simp add: disk_write_loop.simps [of _ _ _ bs])
    moreover have "p + k + length (drop k bs) \<le> length (content g)" using less.prems(1) g by simp
    ultimately obtain j where j: "j \<le> length (drop k bs)" "content f' = overwrite (content g) (p + k) (take j (drop k bs))"
        "code = DiskNone \<longrightarrow> j = length (drop k bs)"
      using less.hyps [of "drop k bs" "p + k" g] False by auto
    have parts: "take k (take (k + j) bs) = take k bs" "drop k (take (k + j) bs) = take j (drop k bs)"
      by (simp_all add: drop_take min_def)
    have "content f' = overwrite (content f) p (take (k + j) bs)"
      using overwrite_in_parts [of p "take (k + j) bs" "content f" k] less.prems(1) g j(1,2)
      unfolding parts by simp
    then show ?thesis using j g(1) by (intro exI [of _ "k + j"]) auto
  qed
qed

lemma disk_write_loop_responds:
  assumes "posix_file content ops" "file_responds content ops" "p + length bs \<le> length (content f)"
  shows "snd (disk_write_loop ops f p bs) = DiskNone"
  using assms(3)
proof (induction "length bs" arbitrary: f p bs rule: less_induct)
  case less
  obtain g k where w: "hf_pwrite ops f p bs = (g, k)" by fastforce
  with assms(1) less.prems have g: "k \<le> length bs" "content g = overwrite (content f) p (take k bs)"
    by (auto simp: posix_file_def dest!: spec [of _ f] spec [of _ p] spec [of _ bs])
  show ?case
  proof (cases "bs = []")
    case False
    then have "0 < k" using assms(2) less.prems w by (auto simp: file_responds_def dest!: spec [of _ f] spec [of _ p] spec [of _ bs])
    with False w g less.prems less.hyps [of "drop k bs" "p + k" g] show ?thesis
      by (simp add: disk_write_loop.simps [of _ _ _ bs])
  qed (simp add: disk_write_loop.simps)
qed


lemma disk_read_correct:
  assumes "posix_file content ops" "disk_backed content d f" "disk_read ops d s n = (DiskNone, data)"
  shows "(n = 0 \<or> 512 * unat s + n \<le> length (content f)) \<and> data = take n (drop (512 * unat s) (content f))"
proof (cases "n = 0 \<or> 512 * unat s + n \<le> length (content f)")
  case True
  then have "n = 0 \<or> unat (s * 512) = 512 * unat s"
    using assms(2) by (auto simp: disk_backed_def unat_word_ariths)
  then show ?thesis
    using True assms disk_read_loop_slice [OF assms(1), of f "unat (s * 512)" n "[]" data]
    by (auto simp: disk_read_def disk_check_range_iff [OF assms(2)] disk_backed_def)
qed (use assms in \<open>simp add: disk_read_def disk_check_range_iff [OF assms(2)]\<close>)

lemma disk_read_length:
  "posix_file content ops \<Longrightarrow> disk_backed content d f \<Longrightarrow> disk_read ops d s n = (DiskNone, data) \<Longrightarrow> length data = n"
  by (drule (2) disk_read_correct) auto

text \<open>Whatever a write does, the image keeps its length and the backend its capacity and mode.\<close>

lemma disk_write_correct:
  assumes "posix_file content ops" "disk_backed content d f" "disk_write ops d s bs = (d', code)"
  shows "\<exists>f' k. disk_backed content d' f' \<and> db_capacity_sectors d' = db_capacity_sectors d \<and> db_writable d' = db_writable d
     \<and> content f' = overwrite (content f) (512 * unat s) (take k bs) \<and> k \<le> length bs
     \<and> (k = 0 \<or> db_writable d \<and> 512 * unat s + length bs \<le> length (content f)) \<and> (code = DiskNone \<longrightarrow> k = length bs)"
proof (cases "db_writable d \<and> bs \<noteq> [] \<and> 512 * unat s + length bs \<le> length (content f)")
  case True
  then have s: "unat (s * 512) = 512 * unat s" using assms(2) by (auto simp: disk_backed_def unat_word_ariths)
  obtain f' where l: "disk_write_loop ops f (512 * unat s) bs = (f', code)" and d': "d' = d\<lparr>db_file := Some f'\<rparr>"
    using True assms(2,3) s
    by (auto simp: disk_write_def disk_check_range_iff [OF assms(2)] disk_backed_def split: prod.splits)
  from disk_write_loop_prefix [OF assms(1) _ l] True obtain k where
    "k \<le> length bs" "content f' = overwrite (content f) (512 * unat s) (take k bs)" "code = DiskNone \<longrightarrow> k = length bs"
    by auto
  moreover from this True have "length (content f') = length (content f)" by simp
  ultimately show ?thesis using True assms(2) d' by (intro exI [of _ f'] exI [of _ k]) (simp add: disk_backed_def)
next
  case False
  then have "d' = d" "code = DiskNone \<longrightarrow> bs = []"
    using assms(2,3)
    by (auto simp: disk_write_def disk_check_range_iff [OF assms(2)] disk_backed_def disk_write_loop.simps split: if_splits)
  then show ?thesis using assms(2) by (intro exI [of _ f] exI [of _ 0]) auto
qed

lemma disk_read_responds:
  assumes "posix_file content ops" "file_responds content ops" "disk_backed content d f"
    and "512 * unat s + n \<le> length (content f)"
  shows "disk_read ops d s n = (DiskNone, take n (drop (512 * unat s) (content f)))"
proof -
  have "unat (s * 512) = 512 * unat s" using assms(3,4) by (auto simp: disk_backed_def unat_word_ariths)
  then have "fst (disk_read ops d s n) = DiskNone"
    using assms(3,4) disk_read_loop_responds [OF assms(1,2), of "512 * unat s" n f "[]"]
    by (auto simp: disk_read_def disk_check_range_iff [OF assms(3)] disk_backed_def)
  then show ?thesis using disk_read_correct [OF assms(1,3)] by (metis prod.collapse)
qed

lemma disk_write_responds:
  assumes "posix_file content ops" "file_responds content ops" "disk_backed content d f" "db_writable d"
    and "512 * unat s + length bs \<le> length (content f)"
  obtains d' f' where "disk_write ops d s bs = (d', DiskNone)" "disk_backed content d' f'" "db_writable d'"
    "db_capacity_sectors d' = db_capacity_sectors d" "content f' = overwrite (content f) (512 * unat s) bs"
proof -
  obtain d' code where w: "disk_write ops d s bs = (d', code)" by fastforce
  have "unat (s * 512) = 512 * unat s" using assms(3,5) by (auto simp: disk_backed_def unat_word_ariths)
  then have "code = DiskNone"
    using w assms disk_write_loop_responds [OF assms(1,2), of "512 * unat s" bs f]
    by (auto simp: disk_write_def disk_check_range_iff [OF assms(3)] disk_backed_def split: prod.splits)
  with disk_write_correct [OF assms(1,3) w] assms(4) show thesis using that w by auto
qed

text \<open>A disk write can be read back. On a host file that answers its calls, however short its transfers are, a write
  inside a writable image succeeds, after it every read inside the image returns the bytes written where the two
  overlap and the old bytes elsewhere, the capacity stays frozen, and what reaches past the end is refused without
  touching the image.\<close>

theorem disk_round_trip:
  assumes "posix_file content ops" "file_responds content ops" "disk_backed content d f" "db_writable d"
    and "512 * unat s + length bs \<le> length (content f)"
  shows "\<exists>d' f'. disk_write ops d s bs = (d', DiskNone) \<and> disk_backed content d' f'
     \<and> db_capacity_sectors d' = db_capacity_sectors d
     \<and> (\<forall>s' n. disk_read ops d' s' n =
          (if n = 0 \<or> 512 * unat s' + n \<le> length (content f)
           then (DiskNone, take n (drop (512 * unat s') (overwrite (content f) (512 * unat s) bs)))
           else (DiskOutOfRange, [])))
     \<and> (\<forall>s' cs. 512 * unat s' + length cs > length (content f) \<and> cs \<noteq> [] \<longrightarrow>
          disk_write ops d' s' cs = (d', DiskOutOfRange))"
proof -
  obtain d' f' where w: "disk_write ops d s bs = (d', DiskNone)" and f': "disk_backed content d' f'" "db_writable d'"
    "db_capacity_sectors d' = db_capacity_sectors d" and content: "content f' = overwrite (content f) (512 * unat s) bs"
    by (rule disk_write_responds [OF assms])
  from content assms(5) have len: "length (content f') = length (content f)" by simp
  have "disk_read ops d' s' n = (DiskNone, take n (drop (512 * unat s') (content f')))"
    if "512 * unat s' + n \<le> length (content f)" for s' n
    using disk_read_responds [OF assms(1,2) f'(1)] that len by simp
  moreover have "disk_read ops d' s' n = (DiskOutOfRange, [])" if "\<not> (n = 0 \<or> 512 * unat s' + n \<le> length (content f))" for s' n
    using that len by (simp add: disk_read_def disk_check_range_iff [OF f'(1)])
  moreover have "disk_read ops d' s' 0 = (DiskNone, [])" for s'
    using f'(1) by (auto simp: disk_read_def disk_check_range_iff [OF f'(1)] disk_backed_def disk_read_loop.simps)
  moreover have "disk_write ops d' s' cs = (d', DiskOutOfRange)" if "512 * unat s' + length cs > length (content f)" "cs \<noteq> []" for s' cs
    using that len f'(2) by (simp add: disk_write_def disk_check_range_iff [OF f'(1)])
  ultimately show ?thesis using w f' content by (intro exI [of _ d'] exI [of _ f']) auto
qed

text \<open>A file in memory whose calls transfer at most seven bytes.\<close>

definition short_file :: "u8 list host_file" where
  "short_file = \<lparr>hf_pread = \<lambda>f p n. take (min 7 n) (drop p f),
     hf_pwrite = \<lambda>f p bs. (if p + length bs \<le> length f then overwrite f p (take 7 bs) else f, min 7 (length bs))\<rparr>"

lemma short_file_posix: "posix_file id short_file" "file_responds id short_file"
  by (auto simp: posix_file_def file_responds_def short_file_def min_def intro: exI [of _ 7])

theorem disk_round_trip_witness:
  "\<exists>d'. disk_write short_file \<lparr>db_file = Some (replicate 1024 0), db_writable = True, db_capacity_sectors = 2\<rparr> 1 (replicate 20 5)
         = (d', DiskNone) \<and> disk_read short_file d' 1 20 = (DiskNone, replicate 20 5)"
proof -
  have "disk_backed id \<lparr>db_file = Some (replicate 1024 0), db_writable = True, db_capacity_sectors = 2\<rparr> (replicate 1024 0)"
    by (simp add: disk_backed_def)
  from disk_round_trip [OF short_file_posix this, of 1 "replicate 20 5"] show ?thesis
    by (auto simp: overwrite_def)
qed

end
