(* ===== verification/Virtio_Block.thy ===== *)
theory Virtio_Block
  imports Virtqueue Disk_Backend Bus_Devices
begin

unbundle bit_operations_syntax

text \<open>
  The block device (\<open>include/rvemu/devices/virtio_block.hpp\<close>, \<open>src/devices/virtio_block.cpp\<close>): one notified request is
  taken from the queue, its buffers are gathered, the disk is accessed and the request is completed. The reference to the
  transport is the index of its region on the bus, so a DMA access that reaches the registers of the transport changes
  the state the device goes on with. An operation has the value \<open>None\<close> where the language defines no behaviour: an
  iterator range that leaves its vector, or a reference that does not lead to a transport. Exhausted host memory is not
  modelled.
\<close>

datatype virtio_block_process_status = NoNotification | Completed | QueueError

record virtio_block_device =
  vb_transport :: nat
  vb_queue_runtime :: virtqueue_runtime_state
  vb_observed_transport_generation :: u64

record request_header =
  rh_type :: u32
  rh_sector :: u64

abbreviation (input) kRequestIn :: u32 where "kRequestIn \<equiv> 0"
abbreviation (input) kRequestOut :: u32 where "kRequestOut \<equiv> 1"
abbreviation (input) kStatusOk :: u8 where "kStatusOk \<equiv> 0"
abbreviation (input) kStatusIoError :: u8 where "kStatusIoError \<equiv> 1"
abbreviation (input) kStatusUnsupported :: u8 where "kStatusUnsupported \<equiv> 2"

definition sector_range_valid :: "u64 \<Rightarrow> u64 \<Rightarrow> u64 \<Rightarrow> bool" where
  "sector_range_valid sector byte_count capacity_sectors =
     (let sector_count = (byte_count + kSectorSize - 1) div kSectorSize in
      \<not> sum_overflows sector sector_count \<and> sector + sector_count \<le> capacity_sectors)"

definition virtio_block_create :: "bus \<Rightarrow> nat \<Rightarrow> virtio_block_device option" where
  "virtio_block_create b transport =
     map_option (\<lambda>t. \<lparr>vb_transport = transport, vb_queue_runtime = virtqueue_runtime_create,
       vb_observed_transport_generation = vi_generation t\<rparr>) (virtio_at b transport)"

definition read_header :: "bus \<Rightarrow> virtqueue_segment \<Rightarrow> bus \<times> request_header option" where
  "read_header b segment =
     (if sg_device_writes segment \<or> sg_length segment < 16 then (b, None)
      else
        let (b, ty) = bus_read b (sg_address segment) Word32 DmaRead;
            (b, sector) = bus_read b (sg_address segment + 8) DoubleWord DmaRead in
        if \<not> ar_ok ty \<or> \<not> ar_ok sector then (b, None)
        else (b, Some \<lparr>rh_type = ucast (ar_value ty), rh_sector = ar_value sector\<rparr>))"

fun copy_from_guest_loop :: "u64 \<Rightarrow> nat list \<Rightarrow> u8 list \<Rightarrow> bus \<Rightarrow> bus \<times> u8 list option" where
  "copy_from_guest_loop address [] out b = (b, Some out)"
| "copy_from_guest_loop address (index # rest) out b =
     (case bus_read b (address + of_nat index) Byte DmaRead of (b, byte) \<Rightarrow>
        if \<not> ar_ok byte then (b, None)
        else copy_from_guest_loop address rest (out @ [ucast (ar_value byte)]) b)"

definition copy_from_guest :: "bus \<Rightarrow> virtqueue_segment \<Rightarrow> bus \<times> u8 list option" where
  "copy_from_guest b segment =
     (if sg_device_writes segment then (b, None)
      else copy_from_guest_loop (sg_address segment) [0..<unat (sg_length segment)] [] b)"

fun copy_to_guest_loop :: "u64 \<Rightarrow> nat \<Rightarrow> u8 list \<Rightarrow> bus \<Rightarrow> bus \<times> bool" where
  "copy_to_guest_loop address index [] b = (b, True)"
| "copy_to_guest_loop address index (byte # rest) b =
     (case bus_write b (address + of_nat index) Byte (ucast byte) DmaWrite of (b, written) \<Rightarrow>
        if \<not> ar_ok written then (b, False) else copy_to_guest_loop address (Suc index) rest b)"

definition copy_to_guest :: "bus \<Rightarrow> virtqueue_segment \<Rightarrow> u8 list \<Rightarrow> bus \<times> bool" where
  "copy_to_guest b segment input =
     (if \<not> sg_device_writes segment \<or> unat (sg_length segment) \<noteq> length input then (b, False)
      else copy_to_guest_loop (sg_address segment) 0 input b)"

definition block_write_status :: "bus \<Rightarrow> virtqueue_segment \<Rightarrow> u8 \<Rightarrow> bus \<times> bool" where
  "block_write_status b segment status =
     (if \<not> sg_device_writes segment \<or> sg_length segment < 1 then (b, False)
      else map_prod id ar_ok (bus_write b (sg_address segment) Byte (ucast status) DmaWrite))"

definition synchronize_queue_generation :: "virtio \<Rightarrow> virtio_block_device \<Rightarrow> virtio_block_device" where
  "synchronize_queue_generation transport d =
     (let current_generation = vi_generation transport in
      if current_generation = vb_observed_transport_generation d then d
      else d\<lparr>vb_observed_transport_generation := current_generation,
             vb_queue_runtime := virtqueue_runtime_reset 0 (vb_queue_runtime d)\<rparr>)"

text \<open>The first loop of a request: the bytes to write, or as many zeros as are to be read.\<close>

fun gather_data :: "u32 \<Rightarrow> virtqueue_segment list \<Rightarrow> u8 list \<Rightarrow> bus \<Rightarrow> bus \<times> u8 list" where
  "gather_data type [] data b = (b, data)"
| "gather_data type (segment # rest) data b =
     (if type = kRequestIn \<and> \<not> sg_device_writes segment \<or> type = kRequestOut \<and> sg_device_writes segment then (b, [])
      else if type = kRequestOut then
        (case copy_from_guest b segment of
           (b, None) \<Rightarrow> (b, [])
         | (b, Some part) \<Rightarrow> gather_data type rest (data @ part) b)
      else gather_data type rest (data @ replicate (unat (sg_length segment)) 0) b)"

text \<open>The second loop, which hands the bytes of the disk to the guest.\<close>

fun scatter_data :: "virtqueue_segment list \<Rightarrow> u8 list \<Rightarrow> nat \<Rightarrow> bus \<Rightarrow> (bus \<times> u8) option" where
  "scatter_data [] data off b = Some (b, kStatusOk)"
| "scatter_data (segment # rest) data off b =
     (let len = unat (sg_length segment) in
      if length data < off + len then None
      else case copy_to_guest b segment (take len (drop off data)) of (b, copied) \<Rightarrow>
        if \<not> copied then Some (b, kStatusIoError) else scatter_data rest data (off + len) b)"

text \<open>The disk access of a request, with the status and the length it reports.\<close>

definition perform_request ::
    "'f host_file \<Rightarrow> request_header \<Rightarrow> virtqueue_segment list \<Rightarrow> bus \<Rightarrow> 'f disk_backend
     \<Rightarrow> (bus \<times> 'f disk_backend \<times> u8 \<times> u32) option" where
  "perform_request ops header segments b disk =
     (if rh_type header \<noteq> kRequestIn \<and> rh_type header \<noteq> kRequestOut then Some (b, disk, kStatusUnsupported, 1)
      else case gather_data (rh_type header) (butlast (tl segments)) [] b of (b, data) \<Rightarrow>
        if data = [] \<and> length segments \<noteq> 3 then Some (b, disk, kStatusIoError, 1)
        else if \<not> sector_range_valid (rh_sector header) (of_nat (length data)) (db_capacity_sectors disk)
        then Some (b, disk, kStatusIoError, 1)
        else if rh_type header = kRequestOut then
          (case disk_write ops disk (rh_sector header) data of
             (disk, code) \<Rightarrow> Some (b, disk, if code = DiskNone then kStatusOk else kStatusIoError, 1))
        else
          (case disk_read ops disk (rh_sector header) (length data) of (code, data) \<Rightarrow>
             if code \<noteq> DiskNone then Some (b, disk, kStatusIoError, 1)
             else case scatter_data (butlast (tl segments)) data 0 b of
               None \<Rightarrow> None
             | Some (b, status) \<Rightarrow>
                 Some (b, disk, status, if status = kStatusOk then 1 + of_nat (length data) else 1)))"

text \<open>The rest of a request whose header could be read: disk access, status byte, used ring, interrupt.\<close>

definition complete_request ::
    "'f host_file \<Rightarrow> virtio_block_device \<Rightarrow> virtqueue_layout \<Rightarrow> u16 \<Rightarrow> virtqueue_segment list \<Rightarrow> request_header \<Rightarrow> bus
     \<Rightarrow> 'f disk_backend \<Rightarrow> (virtio_block_device \<times> bus \<times> 'f disk_backend \<times> virtio_block_process_status) option" where
  "complete_request ops dev layout head segments header b disk =
     (let status_segment = last segments in
      if \<not> sg_device_writes status_segment \<or> sg_length status_segment < 1 then Some (dev, b, disk, QueueError)
      else case perform_request ops header segments b disk of
        None \<Rightarrow> None
      | Some (b, disk, status, used_length) \<Rightarrow>
        case block_write_status b status_segment status of (b, stored) \<Rightarrow>
        if \<not> stored then Some (dev, b, disk, QueueError)
        else case publish_used (vb_queue_runtime dev) b layout (ucast head) used_length of
          (runtime, b, ring_code) \<Rightarrow>
            let dev = dev\<lparr>vb_queue_runtime := runtime\<rparr> in
            if ring_code \<noteq> RingNone then Some (dev, b, disk, QueueError)
            else case virtio_at b (vb_transport dev) of
              None \<Rightarrow> None
            | Some transport \<Rightarrow>
                Some (dev, set_region b (vb_transport dev) (VirtioRegion (raise_used_buffer_interrupt transport)),
                      disk, Completed))"

definition process_one ::
    "'f host_file \<Rightarrow> virtio_block_device \<Rightarrow> bus \<Rightarrow> 'f disk_backend
     \<Rightarrow> (virtio_block_device \<times> bus \<times> 'f disk_backend \<times> virtio_block_process_status) option" where
  "process_one ops dev b disk =
     (case virtio_at b (vb_transport dev) of
        None \<Rightarrow> None
      | Some transport \<Rightarrow>
        case pop_notification transport of
          (transport, None) \<Rightarrow> Some (dev, b, disk, NoNotification)
        | (transport, Some queue_index) \<Rightarrow>
          let b = set_region b (vb_transport dev) (VirtioRegion transport);
              layout = queue_layout transport queue_index;
              dev = synchronize_queue_generation transport dev;
              (runtime, b, available) = consume_available (vb_queue_runtime dev) b layout;
              dev = dev\<lparr>vb_queue_runtime := runtime\<rparr> in
          if va_code available \<noteq> RingNone \<or> va_pending_count available = 0 then Some (dev, b, disk, QueueError)
          else case parse_descriptor_chain b layout (va_head available) [] of (b, parsed) \<Rightarrow>
            if vp_code parsed \<noteq> ParseNone \<or> length (vp_segments parsed) < 3 then Some (dev, b, disk, QueueError)
            else case read_header b (hd (vp_segments parsed)) of
                (b, None) \<Rightarrow> Some (dev, b, disk, QueueError)
              | (b, Some header) \<Rightarrow>
                  complete_request ops dev layout (va_head available) (vp_segments parsed) header b disk)"

subsection \<open>Requests\<close>

lemma gather_in:
  "snd (gather_data 0 segs data b) =
     (if list_all sg_device_writes segs
      then data @ replicate (sum_list (map (\<lambda>s. unat (sg_length s)) segs)) 0 else [])"
  by (induction segs arbitrary: data) (auto simp: replicate_add)

lemma gather_in_bus: "fst (gather_data 0 segs data b) = b"
  by (induction segs arbitrary: data) auto

lemma scatter_defined:
  "off + sum_list (map (\<lambda>s. unat (sg_length s)) segs) \<le> length data \<Longrightarrow> scatter_data segs data off b \<noteq> None"
  by (induction segs arbitrary: off b) (auto simp: Let_def split: prod.split)

lemma sector_range_valid_0: "sector_range_valid s 0 c \<longleftrightarrow> s \<le> c"
  by (simp add: sector_range_valid_def sum_overflows_def Let_def not_less)

lemma butlast_tl_singleton: "length xs = 3 \<Longrightarrow> \<exists>h s st. xs = [h, s, st]"
  by (cases xs; cases "tl xs"; cases "tl (tl xs)") auto

text \<open>The requests that leave the language: the buffer list was emptied and a part is taken out of it.\<close>

lemma perform_undefined_iff:
  assumes "posix_file content ops" "disk_backed content disk f"
  shows "perform_request ops header segments b disk = None \<longleftrightarrow>
    rh_type header = 0 \<and> rh_sector header \<le> db_capacity_sectors disk
    \<and> (\<exists>h s st. segments = [h, s, st] \<and> \<not> sg_device_writes s \<and> sg_length s \<noteq> 0)"
proof (cases "rh_type header = 0")
  case False
  then show ?thesis by (auto simp: perform_request_def split: prod.split)
next
  case True
  let ?segs = "butlast (tl segments)" and ?sum = "\<lambda>segs. sum_list (map (\<lambda>s. unat (sg_length s)) segs)"
  have g: "gather_data 0 ?segs [] b = (b, if list_all sg_device_writes ?segs then replicate (?sum ?segs) 0 else [])"
    by (rule prod_eqI) (simp_all add: gather_in gather_in_bus)
  show ?thesis
  proof (cases "list_all sg_device_writes ?segs")
    case writable: True
    obtain code data where r: "disk_read ops disk (rh_sector header) (?sum ?segs) = (code, data)" by fastforce
    then have "code = DiskNone \<Longrightarrow> scatter_data ?segs data 0 b \<noteq> None"
      using disk_read_length [OF assms] by (simp add: scatter_defined)
    then have "perform_request ops header segments b disk \<noteq> None"
      using r by (auto simp: perform_request_def True g writable split: option.split prod.split)
    then show ?thesis using writable by auto
  next
    case False
    have "disk_read ops disk s 0 = (DiskNone, [])" for s
      using assms(2) by (simp add: disk_read_def disk_check_range_def disk_backed_def disk_read_loop.simps)
    then have "perform_request ops header segments b disk = None \<longleftrightarrow>
        length segments = 3 \<and> rh_sector header \<le> db_capacity_sectors disk \<and> scatter_data ?segs [] 0 b = None"
      using True g False unfolding perform_request_def
      by (auto simp: sector_range_valid_0 split: option.split)
    also have "\<dots> \<longleftrightarrow> rh_sector header \<le> db_capacity_sectors disk
        \<and> (\<exists>h s st. segments = [h, s, st] \<and> \<not> sg_device_writes s \<and> sg_length s \<noteq> 0)"
      using False butlast_tl_singleton [of segments]
      by (auto simp: Let_def unat_eq_0 split: prod.splits if_splits)
    finally show ?thesis using True by simp
  qed
qed

subsection \<open>What a request does to the bus\<close>

lemmas bus_accessed_after =
  bus_accessed_trans [OF _ bus_accessed_ops(1)] bus_accessed_trans [OF _ bus_accessed_ops(2)]

lemma accessed_raw_descriptor: "bus_accessed b (fst (read_raw_descriptor b t i))"
  by (auto simp: read_raw_descriptor_def read_descriptor_field_def Let_def split_beta intro!: bus_accessed_after)

lemma accessed_table_loop:
  assumes "\<And>f c d. ind = Some f \<Longrightarrow> bus_accessed c (fst (f c d))"
  shows "bus_accessed b (fst (parse_table_loop n ind t sz ex vis segs tot i b))"
proof (induction n arbitrary: vis segs tot i b)
  case (Suc n)
  obtain c d where r: "read_raw_descriptor b t i = (c, d)" by fastforce
  then have c: "bus_accessed b c" using accessed_raw_descriptor [of b t i] by simp
  show ?case
    using r c bus_accessed_trans [OF c assms] bus_accessed_trans [OF c Suc.IH]
    by (cases d) (auto simp: Let_def split: option.split)
qed simp

lemma accessed_parse: "bus_accessed b (fst (parse_descriptor_chain b layout head ex))"
proof -
  have "bus_accessed c (fst (parse_table None c t sz h e))" for c t sz h e
    using accessed_table_loop [of None] by (simp add: parse_table_def)
  then have "bus_accessed c (fst (parse_indirect_descriptor e c d))" for c e d
    by (simp add: parse_indirect_descriptor_def Let_def)
  then show ?thesis
    by (auto simp: parse_descriptor_chain_def parse_table_def intro: accessed_table_loop)
qed

lemma accessed_consume: "bus_accessed b (fst (snd (consume_available q b layout)))"
  by (auto simp: consume_available_def Let_def split_beta intro!: bus_accessed_after)

lemma accessed_publish: "bus_accessed b (fst (snd (publish_used q b layout h n)))"
  by (auto simp: publish_used_def Let_def split_beta intro!: bus_accessed_after)

lemma accessed_read_header: "bus_accessed b (fst (read_header b s))"
  by (auto simp: read_header_def Let_def split_beta intro!: bus_accessed_after)

lemma accessed_write_status: "bus_accessed b (fst (block_write_status b s v))"
  by (auto simp: block_write_status_def split_beta intro!: bus_accessed_ops)

lemma accessed_from_guest_loop: "bus_accessed b (fst (copy_from_guest_loop a is out b))"
proof (induction "is" arbitrary: out b)
  case (Cons i "is")
  then show ?case by (auto simp: split_beta intro: bus_accessed_ops bus_accessed_trans [OF bus_accessed_ops(1)])
qed simp

lemma accessed_to_guest_loop: "bus_accessed b (fst (copy_to_guest_loop a i bs b))"
proof (induction bs arbitrary: i b)
  case (Cons x bs)
  then show ?case by (auto simp: split_beta intro: bus_accessed_ops bus_accessed_trans [OF bus_accessed_ops(2)])
qed simp

lemma accessed_gather: "bus_accessed b (fst (gather_data ty segs data b))"
proof (induction segs arbitrary: data b)
  case (Cons s segs)
  obtain c part where p: "copy_from_guest b s = (c, part)" by fastforce
  then have c: "bus_accessed b c"
    using accessed_from_guest_loop by (auto simp: copy_from_guest_def split: if_splits) (metis fst_conv)
  show ?case using p c bus_accessed_trans [OF c Cons.IH] Cons.IH by (cases part) auto
qed simp

lemma accessed_scatter: "scatter_data segs data off b = Some (b', st) \<Longrightarrow> bus_accessed b b'"
proof (induction segs arbitrary: off b)
  case (Cons s segs)
  obtain c ok where p: "copy_to_guest b s (take (unat (sg_length s)) (drop off data)) = (c, ok)" by fastforce
  then have "bus_accessed b c"
    using accessed_to_guest_loop by (auto simp: copy_to_guest_def split: if_splits) (metis fst_conv)
  then show ?case using p Cons by (auto simp: Let_def split: if_splits intro: bus_accessed_trans)
qed simp

lemma accessed_perform:
  assumes "perform_request ops header segments b disk = Some (b', disk', st, n)"
  shows "bus_accessed b b'"
proof -
  obtain c data where g: "gather_data (rh_type header) (butlast (tl segments)) [] b = (c, data)" by fastforce
  then have c: "bus_accessed b c" using accessed_gather by (metis fst_conv)
  then show ?thesis
    using assms g by (auto simp: perform_request_def split: if_splits prod.splits option.splits
        dest!: accessed_scatter intro: bus_accessed_trans)
qed


lemma perform_disk:
  assumes "posix_file content ops" "disk_backed content disk f"
    and "perform_request ops header segments b disk = Some (b', disk', st, n)"
  shows "\<exists>f'. disk_backed content disk' f' \<and> db_capacity_sectors disk' = db_capacity_sectors disk
     \<and> db_writable disk' = db_writable disk \<and> (\<not> db_writable disk \<or> rh_type header \<noteq> 1 \<longrightarrow> content f' = content f)"
proof (cases "\<exists>data code. disk_write ops disk (rh_sector header) data = (disk', code) \<and> rh_type header = 1")
  case True
  then show ?thesis using disk_write_correct [OF assms(1,2)] by fastforce
next
  case False
  then have "disk' = disk"
    using assms(3) by (auto simp: perform_request_def split: if_splits prod.splits option.splits)
  then show ?thesis using assms(2) by blast
qed

text \<open>The stages of a request: the notification is taken, the bus is accessed, and the interrupt is raised at the end.\<close>

definition accessed_and_raised :: "nat \<Rightarrow> bus \<Rightarrow> bus \<Rightarrow> bool" where
  "accessed_and_raised i b b' \<longleftrightarrow> bus_accessed b b'
     \<or> (\<exists>b1 t. bus_accessed b b1 \<and> virtio_at b1 i = Some t
            \<and> b' = set_region b1 i (VirtioRegion (raise_used_buffer_interrupt t)))"

definition request_effect ::
    "('f \<Rightarrow> u8 list) \<Rightarrow> virtio_block_device \<Rightarrow> bus \<Rightarrow> 'f disk_backend \<Rightarrow> virtio_block_device \<Rightarrow> bus \<Rightarrow> 'f disk_backend \<Rightarrow> bool" where
  "request_effect content dev b disk dev' b' disk' \<longleftrightarrow>
     vb_transport dev' = vb_transport dev \<and> accessed_and_raised (vb_transport dev) b b'
   \<and> (\<forall>f. disk_backed content disk f \<longrightarrow> (\<exists>f'. disk_backed content disk' f'
        \<and> db_capacity_sectors disk' = db_capacity_sectors disk \<and> db_writable disk' = db_writable disk
        \<and> (\<not> db_writable disk \<longrightarrow> content f' = content f)))"

lemma request_effect_accessed:
  "bus_accessed b b' \<Longrightarrow> vb_transport dev' = vb_transport dev \<Longrightarrow> request_effect content dev b disk dev' b' disk"
  by (auto simp: request_effect_def accessed_and_raised_def)

lemma accessed_and_raised_trans: "bus_accessed b c \<Longrightarrow> accessed_and_raised i c d \<Longrightarrow> accessed_and_raised i b d"
  by (auto simp: accessed_and_raised_def dest: bus_accessed_trans)

lemma complete_request_effect:
  assumes "posix_file content ops"
    and "complete_request ops dev layout head segments header b disk = Some (dev', b', disk', status)"
  shows "request_effect content dev b disk dev' b' disk' \<and> status \<noteq> NoNotification"
proof (cases "\<not> sg_device_writes (last segments) \<or> sg_length (last segments) < 1")
  case True
  then show ?thesis using assms(2) by (auto simp: complete_request_def intro: request_effect_accessed)
next
  case False
  with assms(2) obtain b1 d1 st n where p: "perform_request ops header segments b disk = Some (b1, d1, st, n)"
    by (auto simp: complete_request_def split: option.splits)
  obtain b2 stored where w: "block_write_status b1 (last segments) st = (b2, stored)" by fastforce
  obtain rt b3 code where u: "publish_used (vb_queue_runtime dev) b2 layout (ucast head) n = (rt, b3, code)"
    by (cases "publish_used (vb_queue_runtime dev) b2 layout (ucast head) n")
  have acc: "bus_accessed b b1" "bus_accessed b1 b2" "bus_accessed b2 b3"
    using accessed_perform [OF p] accessed_write_status [of b1 "last segments" st]
      accessed_publish [of b2 "vb_queue_runtime dev" layout "ucast head" n] by (simp_all add: w u)
  then have "bus_accessed b b2" "bus_accessed b b3" by (blast intro: bus_accessed_trans)+
  with assms(2) False p w u have "vb_transport dev' = vb_transport dev \<and> accessed_and_raised (vb_transport dev) b b'
      \<and> disk' = d1 \<and> status \<noteq> NoNotification"
    by (auto simp: complete_request_def accessed_and_raised_def Let_def split: if_splits option.splits)
  then show ?thesis using perform_disk [OF assms(1) _ p] by (fastforce simp: request_effect_def)
qed

text \<open>
  The request a notification leads to: the descriptor head the available ring of the notified queue holds, the layout of
  that queue, and the bus after the ring has been read.
\<close>

definition request_taken :: "virtio_block_device \<Rightarrow> bus \<Rightarrow> u16 \<Rightarrow> bus \<Rightarrow> virtqueue_layout \<Rightarrow> bool" where
  "request_taken dev b head b1 layout \<longleftrightarrow> (\<exists>t t' q runtime available.
     virtio_at b (vb_transport dev) = Some t \<and> pop_notification t = (t', Some q) \<and> layout = queue_layout t' q
     \<and> consume_available (vb_queue_runtime (synchronize_queue_generation t' dev))
         (set_region b (vb_transport dev) (VirtioRegion t')) layout = (runtime, b1, available)
     \<and> head = va_head available)"

text \<open>A read request of exactly three descriptors whose data buffer is not empty and not writable by the device.\<close>

definition undefined_read :: "virtio_block_device \<Rightarrow> bus \<Rightarrow> bool" where
  "undefined_read dev b \<longleftrightarrow> (\<exists>head b1 layout b2 h s st b3 header. request_taken dev b head b1 layout
     \<and> parse_descriptor_chain b1 layout head [] = (b2, \<lparr>vp_code = ParseNone, vp_segments = [h, s, st]\<rparr>)
     \<and> read_header b2 h = (b3, Some header) \<and> rh_type header = 0 \<and> \<not> sg_device_writes s \<and> sg_length s \<noteq> 0)"

text \<open>A notified request is either refused before its header is read, or completed.\<close>

lemma process_one_cases:
  assumes "virtio_at b (vb_transport dev) = Some t" "pop_notification t = (t', Some q)"
  obtains (refused) dev1 b1 where "process_one ops dev b disk = Some (dev1, b1, disk, QueueError)"
      "vb_transport dev1 = vb_transport dev" "bus_accessed (set_region b (vb_transport dev) (VirtioRegion t')) b1"
  | (served) dev1 b1 head b2 segments b3 header where
      "process_one ops dev b disk = complete_request ops dev1 (queue_layout t' q) head segments header b3 disk"
      "vb_transport dev1 = vb_transport dev" "bus_accessed (set_region b (vb_transport dev) (VirtioRegion t')) b3"
      "request_taken dev b head b1 (queue_layout t' q)"
      "parse_descriptor_chain b1 (queue_layout t' q) head [] = (b2, \<lparr>vp_code = ParseNone, vp_segments = segments\<rparr>)"
      "read_header b2 (hd segments) = (b3, Some header)"
proof -
  let ?b0 = "set_region b (vb_transport dev) (VirtioRegion t')" and ?layout = "queue_layout t' q"
  let ?dev = "synchronize_queue_generation t' dev"
  obtain rt b1 av where con: "consume_available (vb_queue_runtime ?dev) ?b0 ?layout = (rt, b1, av)"
    by (cases "consume_available (vb_queue_runtime ?dev) ?b0 ?layout")
  let ?dev1 = "?dev\<lparr>vb_queue_runtime := rt\<rparr>"
  obtain b2 parsed where par: "parse_descriptor_chain b1 ?layout (va_head av) [] = (b2, parsed)" by fastforce
  obtain b3 header where hdr: "read_header b2 (hd (vp_segments parsed)) = (b3, header)" by fastforce
  have "bus_accessed ?b0 b1" "bus_accessed b1 b2" "bus_accessed b2 b3"
    using accessed_consume [of ?b0 "vb_queue_runtime ?dev" ?layout] accessed_parse [of b1 ?layout "va_head av" "[]"]
      accessed_read_header [of b2 "hd (vp_segments parsed)"] by (simp_all add: con par hdr)
  then have acc: "bus_accessed ?b0 b1" "bus_accessed ?b0 b2" "bus_accessed ?b0 b3" by (blast intro: bus_accessed_trans)+
  have tr: "vb_transport ?dev1 = vb_transport dev" by (simp add: synchronize_queue_generation_def Let_def)
  have taken: "request_taken dev b (va_head av) b1 ?layout" unfolding request_taken_def using assms con by blast
  have "(\<exists>c \<in> {b1, b2, b3}. process_one ops dev b disk = Some (?dev1, c, disk, QueueError))
    \<or> (\<exists>h. process_one ops dev b disk = complete_request ops ?dev1 ?layout (va_head av) (vp_segments parsed) h b3 disk
          \<and> header = Some h \<and> vp_code parsed = ParseNone)"
    unfolding process_one_def Let_def assms option.case prod.case con par hdr by (auto split: option.split)
  then show thesis
  proof
    assume "\<exists>c \<in> {b1, b2, b3}. process_one ops dev b disk = Some (?dev1, c, disk, QueueError)"
    then show thesis using refused acc tr by blast
  next
    assume "\<exists>h. process_one ops dev b disk = complete_request ops ?dev1 ?layout (va_head av) (vp_segments parsed) h b3 disk
          \<and> header = Some h \<and> vp_code parsed = ParseNone"
    then obtain h where h: "process_one ops dev b disk
        = complete_request ops ?dev1 ?layout (va_head av) (vp_segments parsed) h b3 disk"
      "header = Some h" "vp_code parsed = ParseNone" by blast
    from h(3) have "parsed = \<lparr>vp_code = ParseNone, vp_segments = vp_segments parsed\<rparr>" by simp
    then show thesis using served [OF h(1) tr acc(3) taken] par hdr h(2) by metis
  qed
qed

lemma process_one_effect:
  assumes "posix_file content ops" "virtio_at b (vb_transport dev) = Some t" "pop_notification t = (t', Some q)"
    and "process_one ops dev b disk = Some (dev', b', disk', status)"
  shows "request_effect content dev (set_region b (vb_transport dev) (VirtioRegion t')) disk dev' b' disk'
     \<and> status \<noteq> NoNotification"
  using assms(2,3)
proof (cases rule: process_one_cases [where ops = ops and disk = disk, consumes 2])
  case (refused dev1 b1)
  then show ?thesis using assms(4) by (simp add: request_effect_accessed)
next
  case (served dev1 b1 head b2 segments b3 header)
  with complete_request_effect [OF assms(1), of dev1] assms(4) have
    "request_effect content dev1 b3 disk dev' b' disk' \<and> status \<noteq> NoNotification" by simp
  with served(2,3) show ?thesis by (auto simp: request_effect_def intro: accessed_and_raised_trans)
qed

lemma virtio_set_wf:
  assumes "bus_wf b" "virtio_at b i = Some t" "vi_range t' = vi_range t" "virtio_wf t \<Longrightarrow> virtio_wf t'"
  shows "bus_wf (set_region b i (VirtioRegion t')) \<and> bus_layout (set_region b i (VirtioRegion t')) = bus_layout b"
proof -
  have i: "i < length (bus_regions b)" "bus_regions b ! i = VirtioRegion t" using assms(2) by (simp_all add: device_at_Some)
  moreover have "region_wf (VirtioRegion t')" using assms(1,4) i nth_region_wf by fastforce
  ultimately show ?thesis using assms(1,3) by (simp add: bus_wf_set_region bus_layout_set_region)
qed

lemma accessed_and_raised_wf:
  assumes "accessed_and_raised i b b'" "bus_wf b" "virtio_at b i \<noteq> None"
  shows "bus_wf b' \<and> bus_layout b' = bus_layout b \<and> bus_kinds b' = bus_kinds b"
  using assms(1) unfolding accessed_and_raised_def
proof (elim disjE exE conjE)
  fix b1 t assume b1: "bus_accessed b b1" "virtio_at b1 i = Some t"
    "b' = set_region b1 i (VirtioRegion (raise_used_buffer_interrupt t))"
  then have "bus_wf b1" using assms(2) bus_accessed_wf by blast
  from virtio_set_wf [OF this b1(2), of "raise_used_buffer_interrupt t"]
  show ?thesis
    using b1 bus_accessed_layout [OF b1(1)] bus_accessed_kinds [OF b1(1)] virtio_wf_step [of t VirtioRaiseUsed]
    by (auto simp: raise_used_buffer_interrupt_def device_at_Some bus_kinds_set)
qed (use assms bus_accessed_wf bus_accessed_layout bus_accessed_kinds in blast)

lemma complete_request_undefined:
  assumes "posix_file content ops" "disk_backed content disk f" "virtio_at b (vb_transport dev) \<noteq> None"
    and "complete_request ops dev layout head segments header b disk = None"
  shows "rh_type header = 0 \<and> (\<exists>h s st. segments = [h, s, st] \<and> \<not> sg_device_writes s \<and> sg_length s \<noteq> 0)"
proof (cases "perform_request ops header segments b disk")
  case None
  then show ?thesis using perform_undefined_iff [OF assms(1,2)] by blast
next
  case (Some p)
  obtain b1 d1 st n where "p = (b1, d1, st, n)" by (cases p)
  with Some have p: "perform_request ops header segments b disk = Some (b1, d1, st, n)" by simp
  obtain b2 stored where w: "block_write_status b1 (last segments) st = (b2, stored)" by fastforce
  obtain rt b3 code where u: "publish_used (vb_queue_runtime dev) b2 layout (ucast head) n = (rt, b3, code)"
    by (cases "publish_used (vb_queue_runtime dev) b2 layout (ucast head) n")
  have "bus_accessed b b1" "bus_accessed b1 b2" "bus_accessed b2 b3"
    using accessed_perform [OF p] accessed_write_status [of b1 "last segments" st]
      accessed_publish [of b2 "vb_queue_runtime dev" layout "ucast head" n] by (simp_all add: w u)
  then have "virtio_at b3 (vb_transport dev) \<noteq> None" using assms(3) virtio_at_accessed by blast
  then have False using assms(4) p w u by (auto simp: complete_request_def Let_def split: if_splits)
  then show ?thesis ..
qed


text \<open>What a request leaves as it was, and the one request that has no defined outcome.\<close>

lemma process_one_keeps:
  assumes "posix_file content ops" "bus_wf b" "disk_backed content disk f"
    and "process_one ops dev b disk = Some (dev', b', disk', status)"
  shows "bus_wf b' \<and> bus_layout b' = bus_layout b \<and> bus_kinds b' = bus_kinds b \<and> vb_transport dev' = vb_transport dev
     \<and> (status = NoNotification \<longrightarrow> dev' = dev \<and> b' = b \<and> disk' = disk)
     \<and> (\<exists>f'. disk_backed content disk' f' \<and> db_capacity_sectors disk' = db_capacity_sectors disk
          \<and> db_writable disk' = db_writable disk \<and> (\<not> db_writable disk \<longrightarrow> content f' = content f))"
proof -
  obtain t where t: "virtio_at b (vb_transport dev) = Some t" using assms(4) by (auto simp: process_one_def split: option.splits)
  obtain t' n where pop: "pop_notification t = (t', n)" by fastforce
  show ?thesis
  proof (cases n)
    case None
    then show ?thesis using assms t pop by (auto simp: process_one_def)
  next
    case (Some q)
    let ?b0 = "set_region b (vb_transport dev) (VirtioRegion t')"
    have b0: "bus_wf ?b0 \<and> bus_layout ?b0 = bus_layout b"
      using virtio_set_wf [OF assms(2) t, of t'] pop virtio_wf_step [of t VirtioPopNotification]
      by (auto simp: pop_notification_def split: list.splits)
    have k: "bus_kinds ?b0 = bus_kinds b" using t by (simp add: bus_kinds_set device_at_Some)
    have v: "virtio_at ?b0 (vb_transport dev) \<noteq> None" using t by (simp add: device_at_Some)
    from process_one_effect [OF assms(1) t pop [unfolded Some] assms(4)]
    have e: "request_effect content dev ?b0 disk dev' b' disk'" "status \<noteq> NoNotification" by auto
    then have "vb_transport dev' = vb_transport dev" "accessed_and_raised (vb_transport dev) ?b0 b'"
      by (simp_all add: request_effect_def)
    moreover from this(2) have "bus_wf b' \<and> bus_layout b' = bus_layout ?b0 \<and> bus_kinds b' = bus_kinds ?b0"
      by (rule accessed_and_raised_wf) (use b0 v in auto)
    moreover have "\<exists>f'. disk_backed content disk' f' \<and> db_capacity_sectors disk' = db_capacity_sectors disk
           \<and> db_writable disk' = db_writable disk \<and> (\<not> db_writable disk \<longrightarrow> content f' = content f)"
      using e(1) assms(3) by (simp add: request_effect_def)
    ultimately show ?thesis using e(2) b0 k by simp
  qed
qed

lemma process_one_undefined:
  assumes "posix_file content ops" "disk_backed content disk f" "virtio_at b (vb_transport dev) \<noteq> None"
    and "process_one ops dev b disk = None"
  shows "undefined_read dev b"
proof -
  obtain t where t: "virtio_at b (vb_transport dev) = Some t" using assms(3) by blast
  obtain t' n where pop: "pop_notification t = (t', n)" by fastforce
  then obtain q where q: "n = Some q" using assms(4) t by (cases n) (simp_all add: process_one_def)
  from t pop [unfolded q] show ?thesis
  proof (cases rule: process_one_cases [where ops = ops and disk = disk, consumes 2])
    case (served dev1 b1 head b2 segments b3 header)
    have "virtio_at b3 (vb_transport dev1) \<noteq> None"
      using virtio_at_accessed [OF served(3), of "vb_transport dev"] served(2) t by (simp add: virtio_at_def set_region_def split: region.splits if_splits)
    from complete_request_undefined [OF assms(1,2) this, of "queue_layout t' q" head segments header] served(1) assms(4)
    obtain h s st where "rh_type header = 0" "segments = [h, s, st]" "\<not> sg_device_writes s" "sg_length s \<noteq> 0" by auto
    then show ?thesis unfolding undefined_read_def using served(4-6) by (intro exI conjI) auto
  qed (use assms(4) in simp)
qed

end
