(* ===== verification/Cli.thy ===== *)
theory Cli
  imports Emu_Prelude "HOL-Library.Sublist"
begin

text \<open>
  The command line (\<open>include/rvemu/runtime/cli.hpp\<close>, \<open>src/runtime/cli.cpp\<close>). An argument is an optional string, \<open>None\<close> for a
  null pointer in the vector; the program name is not part of the list. A failure carries the argument its message names
  instead of the text, and the usage text is left out.
\<close>

datatype exit_code = ExitSuccess | CliUsage | ResourceFailure | ImageFormatFailure | RuntimeIo | InternalFailure

fun exit_code_value :: "exit_code \<Rightarrow> int" where
  "exit_code_value ExitSuccess = 0"
| "exit_code_value CliUsage = 2"
| "exit_code_value ResourceFailure = 3"
| "exit_code_value ImageFormatFailure = 4"
| "exit_code_value RuntimeIo = 5"
| "exit_code_value InternalFailure = 70"

datatype image_format = RawFormat

record cli_options =
  co_bios_path :: string
  co_kernel_path :: string
  co_disk_path :: string
  co_net :: string
  co_bios_format :: image_format
  co_kernel_format :: image_format
  co_help :: bool

datatype cli_error =
  UnknownPositional string | DuplicateArgument string | MissingValue string | UnsupportedFormat string
| UnknownArgument string | MissingRequired string | EmptyNet

definition empty_value :: "string option \<Rightarrow> bool" where
  "empty_value v \<longleftrightarrow> (case v of None \<Rightarrow> True | Some s \<Rightarrow> s = [])"

definition parse_image_format :: "string \<Rightarrow> image_format option" where
  "parse_image_format v = (if v = ''raw'' then Some RawFormat else None)"

definition cli_defaults :: cli_options where
  "cli_defaults = \<lparr>co_bios_path = [], co_kernel_path = [], co_disk_path = [], co_net = ''none'',
     co_bios_format = RawFormat, co_kernel_format = RawFormat, co_help = False\<rparr>"

definition apply_argument :: "string \<Rightarrow> string \<Rightarrow> cli_options \<Rightarrow> cli_error + cli_options" where
  "apply_argument argument value options =
     (if argument = ''--bios'' then Inr (options\<lparr>co_bios_path := value\<rparr>)
      else if argument = ''--kernel'' then Inr (options\<lparr>co_kernel_path := value\<rparr>)
      else if argument = ''--disk'' then Inr (options\<lparr>co_disk_path := value\<rparr>)
      else if argument = ''--net'' then Inr (options\<lparr>co_net := value\<rparr>)
      else if argument = ''--bios-format'' then
        (case parse_image_format value of
           None \<Rightarrow> Inl (UnsupportedFormat value)
         | Some format \<Rightarrow> Inr (options\<lparr>co_bios_format := format\<rparr>))
      else if argument = ''--kernel-format'' then
        (case parse_image_format value of
           None \<Rightarrow> Inl (UnsupportedFormat value)
         | Some format \<Rightarrow> Inr (options\<lparr>co_kernel_format := format\<rparr>))
      else Inl (UnknownArgument argument))"

definition check_required :: "cli_options \<Rightarrow> cli_error + cli_options" where
  "check_required options =
     (if co_bios_path options = [] then Inl (MissingRequired ''--bios'')
      else if co_kernel_path options = [] then Inl (MissingRequired ''--kernel'')
      else if co_disk_path options = [] then Inl (MissingRequired ''--disk'')
      else if co_net options = [] then Inl EmptyNet
      else Inr options)"

fun parse_cli_loop :: "cli_options \<Rightarrow> string list \<Rightarrow> string option list \<Rightarrow> cli_error + cli_options" where
  "parse_cli_loop options seen [] = check_required options"
| "parse_cli_loop options seen (a # rest) =
     (let argument = (case a of None \<Rightarrow> [] | Some s \<Rightarrow> s) in
      if argument = ''--help'' \<or> argument = ''-h'' then Inr (options\<lparr>co_help := True\<rparr>)
      else if \<not> prefix ''--'' argument then Inl (UnknownPositional argument)
      else if argument \<in> set seen then Inl (DuplicateArgument argument)
      else case rest of
        [] \<Rightarrow> Inl (MissingValue argument)
      | v # rest \<Rightarrow>
          if empty_value v then Inl (MissingValue argument)
          else case v of
            None \<Rightarrow> Inl (MissingValue argument)
          | Some value \<Rightarrow>
              (case apply_argument argument value options of
                 Inl e \<Rightarrow> Inl e
               | Inr options \<Rightarrow> parse_cli_loop options (argument # seen) rest))"

definition parse_cli :: "string option list \<Rightarrow> cli_error + cli_options" where
  "parse_cli args = parse_cli_loop cli_defaults [] args"

subsection \<open>The language of the command line\<close>

definition known_argument :: "string \<times> string \<Rightarrow> bool" where
  "known_argument p \<longleftrightarrow> snd p \<noteq> [] \<and> (fst p \<in> {''--bios'', ''--kernel'', ''--disk'', ''--net''}
     \<or> fst p \<in> {''--bios-format'', ''--kernel-format''} \<and> snd p = ''raw'')"

definition render_arguments :: "(string \<times> string) list \<Rightarrow> string option list" where
  "render_arguments ps = concat (map (\<lambda>(k, v). [Some k, Some v]) ps)"

definition argument_value :: "string \<Rightarrow> string \<Rightarrow> (string \<times> string) list \<Rightarrow> string" where
  "argument_value key dflt ps = (case map_of ps key of None \<Rightarrow> dflt | Some v \<Rightarrow> v)"

lemma render_simps [simp]: "render_arguments [] = []" "render_arguments (p # ps) = Some (fst p) # Some (snd p) # render_arguments ps"
  by (simp_all add: render_arguments_def split_beta)

lemma apply_argument_Inr: "apply_argument k v options = Inr x \<Longrightarrow> v \<noteq> [] \<Longrightarrow> known_argument (k, v)"
  by (auto simp: apply_argument_def known_argument_def parse_image_format_def split: if_splits option.splits)

lemma known_argument_apply: "known_argument (k, v) \<Longrightarrow> prefix ''--'' k \<and> k \<noteq> ''--help'' \<and> k \<noteq> ''-h'' \<and>
   (\<exists>x. apply_argument k v options = Inr x \<and> co_help x = co_help options)"
  by (auto simp: apply_argument_def known_argument_def parse_image_format_def)


definition fill :: "(string \<times> string) list \<Rightarrow> cli_options \<Rightarrow> cli_options" where
  "fill ps c = c\<lparr>co_bios_path := argument_value ''--bios'' (co_bios_path c) ps,
     co_kernel_path := argument_value ''--kernel'' (co_kernel_path c) ps,
     co_disk_path := argument_value ''--disk'' (co_disk_path c) ps, co_net := argument_value ''--net'' (co_net c) ps\<rparr>"

lemma argument_value_simps [simp]:
  "argument_value key d [] = d"
  "argument_value key d ((k, v) # ps) = (if key = k then v else argument_value key d ps)"
  by (simp_all add: argument_value_def)

lemma argument_value_absent: "key \<notin> fst ` set ps \<Longrightarrow> argument_value key d ps = d"
  by (simp add: argument_value_def map_of_eq_None_iff [THEN iffD2])

lemma fill_Nil [simp]: "fill [] c = c"
  by (simp add: fill_def)

lemma format_unique: "(x :: image_format) = y"
  by (cases x; cases y) simp

lemma fill_Cons: "apply_argument k v c = Inr c' \<Longrightarrow> k \<notin> fst ` set ps \<Longrightarrow> fill ps c' = fill ((k, v) # ps) c"
  using format_unique
  by (auto simp: apply_argument_def fill_def argument_value_absent split: if_splits option.splits)

lemma parse_cli_loop_iff:
  assumes "\<not> co_help c"
  shows "parse_cli_loop c seen args = Inr x \<and> \<not> co_help x \<longleftrightarrow>
    (\<exists>ps. args = render_arguments ps \<and> distinct (map fst ps) \<and> fst ` set ps \<inter> set seen = {} \<and> list_all known_argument ps
        \<and> check_required (fill ps c) = Inr x)"
  using assms
proof (induction c seen args rule: parse_cli_loop.induct)
  case (1 c seen)
  have "[] = render_arguments ps \<longleftrightarrow> ps = []" for ps by (cases ps) auto
  moreover have "check_required c = Inr x \<Longrightarrow> x = c" by (auto simp: check_required_def split: if_splits)
  ultimately show ?case using 1 by auto
next
  case (2 c seen a rest)
  show ?case
  proof (cases "\<exists>k v rest'. a = Some k \<and> rest = Some v # rest' \<and> known_argument (k, v) \<and> k \<notin> set seen")
    case True
    then obtain k v rest' where arg: "a = Some k" "rest = Some v # rest'" "known_argument (k, v)" "k \<notin> set seen" by blast
    obtain c' where c': "apply_argument k v c = Inr c'" "co_help c' = co_help c"
      using known_argument_apply [OF arg(3), of c] by blast
    have v: "\<not> empty_value (Some v)" using arg(3) by (simp add: known_argument_def empty_value_def)
    note k = known_argument_apply [OF arg(3), of c]
    have "parse_cli_loop c seen (a # rest) = parse_cli_loop c' (k # seen) rest'"
      using arg(1,2,4) k v c'(1) by simp
    moreover have "parse_cli_loop c' (k # seen) rest' = Inr x \<and> \<not> co_help x \<longleftrightarrow>
      (\<exists>ps. rest' = render_arguments ps \<and> distinct (map fst ps) \<and> fst ` set ps \<inter> set (k # seen) = {}
         \<and> list_all known_argument ps \<and> check_required (fill ps c') = Inr x)"
      using 2 arg k v c' by (intro 2(1)) auto
    moreover have "(\<exists>ps. a # rest = render_arguments ps \<and> distinct (map fst ps) \<and> fst ` set ps \<inter> set seen = {}
         \<and> list_all known_argument ps \<and> check_required (fill ps c) = Inr x) \<longleftrightarrow>
      (\<exists>ps. rest' = render_arguments ps \<and> distinct (map fst ps) \<and> fst ` set ps \<inter> set (k # seen) = {}
         \<and> list_all known_argument ps \<and> check_required (fill ps c') = Inr x)" (is "?L = ?R")
    proof
      assume ?L
      then obtain ps where ps: "a # rest = render_arguments ps" "distinct (map fst ps)" "fst ` set ps \<inter> set seen = {}"
        "list_all known_argument ps" "check_required (fill ps c) = Inr x" by blast
      then obtain qs where "ps = (k, v) # qs" "rest' = render_arguments qs" using arg by (cases ps) auto
      then show ?R using ps fill_Cons [OF c'(1), of qs] by (intro exI [of _ qs]) auto
    next
      assume ?R
      then obtain ps where ps: "rest' = render_arguments ps" "distinct (map fst ps)" "fst ` set ps \<inter> set (k # seen) = {}"
        "list_all known_argument ps" "check_required (fill ps c') = Inr x" by blast
      then show ?L using arg fill_Cons [OF c'(1), of ps] by (intro exI [of _ "(k, v) # ps"]) auto
    qed
    ultimately show ?thesis by simp
  next
    case False
    have "\<not> (parse_cli_loop c seen (a # rest) = Inr x \<and> \<not> co_help x)"
      using False by (auto simp: Let_def empty_value_def dest!: apply_argument_Inr split: if_splits list.splits option.splits sum.splits)
    moreover have "a # rest \<noteq> render_arguments ps \<or> \<not> list_all known_argument ps \<or> fst ` set ps \<inter> set seen \<noteq> {}" for ps
      using False by (cases ps) auto
    ultimately show ?thesis by blast
  qed
qed


lemma check_required_iff:
  "check_required c = Inr x \<longleftrightarrow> x = c \<and> co_bios_path c \<noteq> [] \<and> co_kernel_path c \<noteq> [] \<and> co_disk_path c \<noteq> [] \<and> co_net c \<noteq> []"
  by (auto simp: check_required_def)

lemma argument_value_present:
  assumes "list_all known_argument ps"
  shows "argument_value key d ps \<noteq> [] \<longleftrightarrow> d \<noteq> [] \<or> key \<in> fst ` set ps"
proof (cases "map_of ps key")
  case None
  moreover from this have "key \<notin> fst ` set ps" by (simp add: map_of_eq_None_iff)
  ultimately show ?thesis by (simp add: argument_value_def)
next
  case (Some v)
  then have "(key, v) \<in> set ps" by (rule map_of_SomeD)
  moreover from this assms have "v \<noteq> []" by (auto simp: list_all_iff known_argument_def)
  ultimately show ?thesis using Some by (force simp: argument_value_def)
qed

text \<open>The command line is accepted exactly when it is a sequence of pairs of a known argument and a non-empty value, no
  argument twice, image formats raw, with firmware, kernel and disk among them; the options are then the values given, with
  no network as the default. (A help option where an argument is expected ends the parse before that.)\<close>

theorem parse_cli_correct:
  "parse_cli args = Inr options \<and> \<not> co_help options \<longleftrightarrow>
     (\<exists>ps. args = render_arguments ps \<and> distinct (map fst ps) \<and> list_all known_argument ps
        \<and> {''--bios'', ''--kernel'', ''--disk''} \<subseteq> fst ` set ps
        \<and> options = \<lparr>co_bios_path = argument_value ''--bios'' [] ps, co_kernel_path = argument_value ''--kernel'' [] ps,
             co_disk_path = argument_value ''--disk'' [] ps, co_net = argument_value ''--net'' ''none'' ps,
             co_bios_format = RawFormat, co_kernel_format = RawFormat, co_help = False\<rparr>)"
proof -
  have f: "fill ps cli_defaults = \<lparr>co_bios_path = argument_value ''--bios'' [] ps, co_kernel_path = argument_value ''--kernel'' [] ps,
      co_disk_path = argument_value ''--disk'' [] ps, co_net = argument_value ''--net'' ''none'' ps,
      co_bios_format = RawFormat, co_kernel_format = RawFormat, co_help = False\<rparr>" for ps
    by (simp add: fill_def cli_defaults_def)
  have "check_required (fill ps cli_defaults) = Inr options \<longleftrightarrow>
      {''--bios'', ''--kernel'', ''--disk''} \<subseteq> fst ` set ps \<and> options = fill ps cli_defaults"
    if "list_all known_argument ps" for ps
    using argument_value_present [OF that] by (auto simp: check_required_iff f)
  then show ?thesis
    using parse_cli_loop_iff [of cli_defaults "[]" args options] unfolding parse_cli_def f
    by (auto simp: cli_defaults_def)
qed

end
