(* ===== verification/Runner.thy ===== *)
theory Runner
  imports Event_Loop Virtio_Block Cli
begin

text \<open>
  The machine and its run loop (\<open>struct Machine\<close> of \<open>include/rvemu/runtime/machine.hpp\<close>, \<open>src/runtime/runner.cpp\<close>): before
  every round of the event loop one block request is served. The bus of the machine is the one the hart holds. Whether a
  stop was requested is asked of the host. The value \<open>None\<close> stands for a run that does not end or that reaches behaviour
  the language does not define. Boot traces and the text of a failure are left out.
\<close>

record 'f machine =
  mc_cpu :: cpu
  mc_loop :: event_loop
  mc_disk :: "'f disk_backend"
  mc_block :: virtio_block_device

record run_options =
  ro_clint_ticks_per_iteration :: u64
  ro_max_iterations :: u64

record run_result =
  rr_exit_code :: exit_code
  rr_iterations :: u64

definition terminal_failed :: "event_loop_iteration_result \<Rightarrow> bool" where
  "terminal_failed r \<longleftrightarrow> it_terminal_input_status r = TerminalError \<or> it_terminal_output_status r = TerminalError
     \<or> it_terminal_output_status r = TerminalClosed"

text \<open>One pass through the body of the loop: how the run ends, or the machine and the host after it.\<close>

definition machine_pass ::
    "'f host_file \<Rightarrow> 'h host_tty \<Rightarrow> run_options \<Rightarrow> 'f machine \<Rightarrow> 'h \<Rightarrow> u64
     \<Rightarrow> ('f machine \<times> 'h \<times> u64 \<times> exit_code option) option" where
  "machine_pass disk_ops tty_ops options m h iterations =
     (case process_one disk_ops (mc_block m) (hart_bus (mc_cpu m)) (mc_disk m) of
        None \<Rightarrow> None
      | Some (block, b, disk, block_status) \<Rightarrow>
          let m = m\<lparr>mc_block := block, mc_disk := disk, mc_cpu := (mc_cpu m)\<lparr>hart_bus := b\<rparr>\<rparr> in
          if block_status = QueueError then Some (m, h, iterations, Some RuntimeIo)
          else case run_once tty_ops (mc_loop m) (mc_cpu m) h of
            None \<Rightarrow> None
          | Some (loop, c, h, iteration) \<Rightarrow>
              let m = m\<lparr>mc_loop := loop, mc_cpu := c\<rparr>; iterations = iterations + 1 in
              if terminal_failed iteration then Some (m, h, iterations, Some RuntimeIo)
              else if ro_max_iterations options \<noteq> 0 \<and> ro_max_iterations options \<le> iterations
              then Some (m, h, iterations, Some ExitSuccess)
              else Some (m, h, iterations, None))"

partial_function (option) run_loop ::
    "'f host_file \<Rightarrow> 'h host_tty \<Rightarrow> ('h \<Rightarrow> 'h \<times> bool) \<Rightarrow> run_options \<Rightarrow> 'f machine \<Rightarrow> 'h \<Rightarrow> u64
     \<Rightarrow> ('f machine \<times> 'h \<times> run_result) option" where
  "run_loop disk_ops tty_ops stop_requested options m h iterations =
     (case stop_requested h of (h, stop) \<Rightarrow>
        if stop then Some (m, h, \<lparr>rr_exit_code = ExitSuccess, rr_iterations = iterations\<rparr>)
        else case machine_pass disk_ops tty_ops options m h iterations of
          None \<Rightarrow> None
        | Some (m, h, iterations, Some code) \<Rightarrow> Some (m, h, \<lparr>rr_exit_code = code, rr_iterations = iterations\<rparr>)
        | Some (m, h, iterations, None) \<Rightarrow> run_loop disk_ops tty_ops stop_requested options m h iterations)"

text \<open>The machine with the event loop the run constructs for it.\<close>

definition machine_started :: "run_options \<Rightarrow> 'f machine \<Rightarrow> 'f machine" where
  "machine_started options m =
     m\<lparr>mc_loop := event_loop_create (el_clint (mc_loop m)) (el_plic (mc_loop m)) (el_uart (mc_loop m))
         \<lparr>elo_clint_ticks_per_iteration = ro_clint_ticks_per_iteration options, elo_max_terminal_rx_bytes = 64,
          elo_max_uart_tx_bytes = 64\<rparr>\<rparr>"

definition run_machine ::
    "'f host_file \<Rightarrow> 'h host_tty \<Rightarrow> ('h \<Rightarrow> 'h \<times> bool) \<Rightarrow> run_options \<Rightarrow> 'f machine \<Rightarrow> 'h
     \<Rightarrow> ('f machine \<times> 'h \<times> run_result) option" where
  "run_machine disk_ops tty_ops stop_requested options m h =
     run_loop disk_ops tty_ops stop_requested options (machine_started options m) h 0"

subsection \<open>The run ends\<close>

definition machine_wf :: "('f \<Rightarrow> u8 list) \<Rightarrow> 'f machine \<Rightarrow> bool" where
  "machine_wf content m \<longleftrightarrow> board_wf (mc_loop m) (mc_cpu m) \<and> virtio_at (hart_bus (mc_cpu m)) (vb_transport (mc_block m)) \<noteq> None
     \<and> (\<exists>f. disk_backed content (mc_disk m) f)"


text \<open>The pass is stuck: serving the block request leaves the language, which only the request \<open>undefined_read\<close> does.\<close>

definition block_stuck :: "'f host_file \<Rightarrow> 'f machine \<Rightarrow> bool" where
  "block_stuck disk_ops m \<longleftrightarrow> process_one disk_ops (mc_block m) (hart_bus (mc_cpu m)) (mc_disk m) = None"

lemma block_stuck_read:
  assumes "posix_file content disk_ops" "machine_wf content m" "block_stuck disk_ops m"
  shows "undefined_read (mc_block m) (hart_bus (mc_cpu m))"
proof -
  obtain f where "disk_backed content (mc_disk m) f" using assms(2) by (auto simp: machine_wf_def)
  then show ?thesis using assms process_one_undefined [OF assms(1)] unfolding block_stuck_def machine_wf_def by metis
qed

lemma machine_pass_returns:
  assumes "posix_file content disk_ops" "terminal_answers tty_ops" "machine_wf content m" "\<not> block_stuck disk_ops m"
  shows "\<exists>m' h' n code. machine_pass disk_ops tty_ops options m h iterations = Some (m', h', n, code) \<and> machine_wf content m'
     \<and> (n = iterations \<and> code \<noteq> None \<or> n = iterations + 1
        \<and> (code = None \<longrightarrow> ro_max_iterations options \<noteq> 0 \<longrightarrow> n < ro_max_iterations options))"
proof -
  obtain dev b disk st where p: "process_one disk_ops (mc_block m) (hart_bus (mc_cpu m)) (mc_disk m) = Some (dev, b, disk, st)"
    using assms(4) by (auto simp: block_stuck_def)
  obtain f where wf: "board_wf (mc_loop m) (mc_cpu m)" "kind_at (hart_bus (mc_cpu m)) (vb_transport (mc_block m)) 5"
    "disk_backed content (mc_disk m) f" using assms(3) unfolding machine_wf_def device_at_kind by blast
  let ?c = "(mc_cpu m)\<lparr>hart_bus := b\<rparr>"
  let ?m = "m\<lparr>mc_block := dev, mc_disk := disk, mc_cpu := ?c\<rparr>"
  have k: "bus_wf b" "bus_kinds b = bus_kinds (hart_bus (mc_cpu m))" "vb_transport dev = vb_transport (mc_block m)"
    "\<exists>f'. disk_backed content disk f'"
    using process_one_keeps [OF assms(1) _ wf(3) p] wf(1) by (auto simp: board_wf_def cpu_wf_def)
  have m: "machine_wf content ?m"
    using wf k unfolding machine_wf_def device_at_kind by (simp add: board_wf_def kind_at_def cpu_wf_def)
  then have "board_wf (mc_loop m) ?c" by (simp add: machine_wf_def)
  from run_once_returns [OF assms(2) this, of h] obtain el c h' r where
    o: "run_once tty_ops (mc_loop m) ?c h = Some (el, c, h', r)" "same_board (mc_loop m) ?c el c" by blast
  have "machine_wf content (?m\<lparr>mc_loop := el, mc_cpu := c\<rparr>)"
    using m o(2) same_board_wf [OF o(2)] unfolding machine_wf_def device_at_kind by (simp add: same_board_def kind_at_def)
  then show ?thesis using p o(1) m by (simp add: machine_pass_def Let_def not_le)
qed

text \<open>One round of the run loop that does not end it.\<close>

definition run_step ::
    "'f host_file \<Rightarrow> 'h host_tty \<Rightarrow> ('h \<Rightarrow> 'h \<times> bool) \<Rightarrow> run_options \<Rightarrow> 'f machine \<times> 'h \<times> u64 \<Rightarrow> 'f machine \<times> 'h \<times> u64 \<Rightarrow> bool" where
  "run_step disk_ops tty_ops stop_requested options s s' \<longleftrightarrow>
     (case s of (m, h, n) \<Rightarrow> \<not> snd (stop_requested h)
        \<and> machine_pass disk_ops tty_ops options m (fst (stop_requested h)) n = Some (case s' of (m', h', n') \<Rightarrow> (m', h', n', None)))"

text \<open>The round at a machine fails: the block device reports a queue error, or the terminal an error or its end.\<close>

definition round_failed :: "'f host_file \<Rightarrow> 'h host_tty \<Rightarrow> 'f machine \<Rightarrow> 'h \<Rightarrow> bool" where
  "round_failed disk_ops tty_ops m h \<longleftrightarrow> (\<exists>dev b disk status.
     process_one disk_ops (mc_block m) (hart_bus (mc_cpu m)) (mc_disk m) = Some (dev, b, disk, status)
     \<and> (status = QueueError \<or> (\<exists>loop c h' iteration.
          run_once tty_ops (mc_loop m) ((mc_cpu m)\<lparr>hart_bus := b\<rparr>) h = Some (loop, c, h', iteration) \<and> terminal_failed iteration)))"

lemma machine_pass_ends:
  assumes "machine_pass disk_ops tty_ops options m h n = Some (m', h', n', Some code)"
  shows "code = RuntimeIo \<and> round_failed disk_ops tty_ops m h \<and> n' \<in> {n, n + 1}
    \<or> code = ExitSuccess \<and> \<not> round_failed disk_ops tty_ops m h \<and> n' = n + 1 \<and> ro_max_iterations options \<le> n'"
  using assms by (auto simp: machine_pass_def round_failed_def Let_def split: option.splits if_splits)

lemma machine_pass_continues:
  "machine_pass disk_ops tty_ops options m h n = Some (m', h', n', None) \<Longrightarrow> \<not> round_failed disk_ops tty_ops m h"
  by (auto simp: machine_pass_def round_failed_def Let_def split: option.splits if_splits)

text \<open>How a run ends at a machine it has reached, with its result: asked to stop, at the limit, or after a failed round.\<close>

definition run_ends ::
    "'f host_file \<Rightarrow> 'h host_tty \<Rightarrow> ('h \<Rightarrow> 'h \<times> bool) \<Rightarrow> run_options \<Rightarrow> 'f machine \<times> 'h \<times> u64 \<Rightarrow> run_result \<Rightarrow> bool" where
  "run_ends disk_ops tty_ops stop_requested options s r \<longleftrightarrow> (case s of (m, h, n) \<Rightarrow>
     (case stop_requested h of (h', stop) \<Rightarrow>
        if stop then rr_exit_code r = ExitSuccess \<and> rr_iterations r = n
        else if round_failed disk_ops tty_ops m h' then rr_exit_code r = RuntimeIo \<and> rr_iterations r \<in> {n, n + 1}
        else rr_exit_code r = ExitSuccess \<and> rr_iterations r = n + 1 \<and> n + 1 = ro_max_iterations options))"

lemma run_loop_returns:
  assumes "posix_file content disk_ops" "terminal_answers tty_ops" "ro_max_iterations options \<noteq> 0"
    and "machine_wf content m" "n < ro_max_iterations options"
  shows "(\<exists>m' h' r s. run_loop disk_ops tty_ops stop_requested options m h n = Some (m', h', r) \<and> machine_wf content m'
          \<and> rr_iterations r \<le> ro_max_iterations options
          \<and> (run_step disk_ops tty_ops stop_requested options)\<^sup>*\<^sup>* (m, h, n) s
          \<and> run_ends disk_ops tty_ops stop_requested options s r)
     \<or> (\<exists>s. (run_step disk_ops tty_ops stop_requested options)\<^sup>*\<^sup>* (m, h, n) s
          \<and> machine_wf content (fst s) \<and> block_stuck disk_ops (fst s))"
  using assms(4,5)
proof (induction "unat (ro_max_iterations options) - unat n" arbitrary: m h n rule: less_induct)
  case less
  obtain h1 stop where st: "stop_requested h = (h1, stop)" by fastforce
  show ?case
  proof (cases "stop \<or> block_stuck disk_ops m")
    case True
    then consider "stop" | "block_stuck disk_ops m" by blast
    then show ?thesis
    proof cases
      case 1
      then have "run_ends disk_ops tty_ops stop_requested options (m, h, n) \<lparr>rr_exit_code = ExitSuccess, rr_iterations = n\<rparr>"
        using st by (simp add: run_ends_def)
      with 1 show ?thesis using less.prems st order_less_imp_le [OF less.prems(2)]
        by (intro disjI1) (force simp: run_loop.simps [of _ _ _ _ _ h])
    next
      case 2
      then show ?thesis using less.prems(1) by (intro disjI2 exI [of _ "(m, h, n)"]) simp
    qed
  next
    case False
    then obtain m' h' n' code where p: "machine_pass disk_ops tty_ops options m h1 n = Some (m', h', n', code)" "machine_wf content m'"
      "n' = n \<and> code \<noteq> None \<or> n' = n + 1 \<and> (code = None \<longrightarrow> n' < ro_max_iterations options)"
      using machine_pass_returns [OF assms(1,2) less.prems(1), of options h1 n] assms(3) by auto
    have next_n: "unat (n + 1) = Suc (unat n)" "n + 1 \<le> ro_max_iterations options"
      using less.prems(2) by (auto simp: unatSuc word_le_nat_alt word_less_nat_alt) (unat_arith; simp)+
    show ?thesis
    proof (cases code)
      case (Some x)
      let ?r = "\<lparr>rr_exit_code = x, rr_iterations = n'\<rparr>"
      have "run_loop disk_ops tty_ops stop_requested options m h n = Some (m', h', ?r)"
        using p(1) st False Some by (simp add: run_loop.simps [of _ _ _ _ _ h])
      moreover have "run_ends disk_ops tty_ops stop_requested options (m, h, n) ?r"
        using machine_pass_ends [of disk_ops tty_ops options m h1 n m' h' n' x] p(1) Some st False next_n(2)
        by (auto simp: run_ends_def intro: order_antisym)
      moreover have "n' \<le> ro_max_iterations options" using p(3) next_n(2) less.prems(2) by (auto intro: order_less_imp_le)
      ultimately show ?thesis using p(2) by (intro disjI1) force
    next
      case None
      then have n': "n' = n + 1" "n' < ro_max_iterations options" using p(3) by auto
      have s: "run_step disk_ops tty_ops stop_requested options (m, h, n) (m', h', n')"
        using st False p(1) None by (simp add: run_step_def)
      have "run_loop disk_ops tty_ops stop_requested options m h n = run_loop disk_ops tty_ops stop_requested options m' h' n'"
        using st False p(1) None by (simp add: run_loop.simps [of _ _ _ _ m h])
      moreover have "unat (ro_max_iterations options) - unat n' < unat (ro_max_iterations options) - unat n"
        using n' next_n less.prems(2) by (simp add: word_less_nat_alt)
      ultimately show ?thesis
        using less.hyps [OF _ p(2) n'(2), of h'] converse_rtranclp_into_rtranclp [of "run_step disk_ops tty_ops stop_requested options", OF s]
        by metis
    qed
  qed
qed

subsection \<open>Interrupts of the block device\<close>

text \<open>A source of the interrupt controller that is low, not pending, and that the UART does not drive.\<close>

fun source_silent :: "nat \<Rightarrow> region \<Rightarrow> bool" where
  "source_silent s (PlicRegion p) = (\<not> pl_level p ! s \<and> \<not> pl_pending p ! s)"
| "source_silent s (UartRegion u) = (ua_interrupt_source u \<noteq> of_nat s)"
| "source_silent s r = True"

definition bus_silent :: "nat \<Rightarrow> bus \<Rightarrow> bool" where
  "bus_silent s b \<longleftrightarrow> (\<forall>r\<in>set (bus_regions b). source_silent s r)"

lemma update_stays_low: "\<not> xs ! s \<Longrightarrow> (i = s \<Longrightarrow> \<not> v) \<Longrightarrow> \<not> xs[i := v] ! s"
  by (cases "i = s"; cases "i < length xs") (auto simp: list_update_beyond)

lemma plic_silent:
  assumes "source_silent s (PlicRegion p)"
  shows "source_silent s (PlicRegion (fst (plic_read p off w t)))"
    "source_silent s (PlicRegion (fst (plic_write p off w v t)))"
    "source_silent s (PlicRegion (fst (plic_compare_exchange p off w x n t)))"
    "unat src \<noteq> s \<Longrightarrow> source_silent s (PlicRegion (set_source_level p src level))"
proof -
  have claim: "source_silent s (PlicRegion (fst (plic_claim p c)))" for c
    using assms update_stays_low [of "pl_pending p" s "plic_select p c" False] by (auto simp: plic_claim_def Let_def)
  have complete: "source_silent s (PlicRegion (plic_complete p c k))" for c k
    using assms update_stays_low [of "pl_pending p" s "unat k" "pl_level p ! unat k"] by (auto simp: plic_complete_def)
  show "source_silent s (PlicRegion (fst (plic_read p off w t)))"
    using assms claim by (simp add: plic_read_def Let_def split_beta)
  show "source_silent s (PlicRegion (fst (plic_write p off w v t)))"
    using assms complete by (simp add: plic_write_def)
  show "source_silent s (PlicRegion (fst (plic_compare_exchange p off w x n t)))"
    using assms by (simp add: plic_compare_exchange_def)
  show "unat src \<noteq> s \<Longrightarrow> source_silent s (PlicRegion (set_source_level p src level))"
    using assms by (simp add: set_source_level_def Let_def)
qed

lemma uart_source_kept:
  "ua_interrupt_source (fst (uart_read u off w t)) = ua_interrupt_source u"
  "ua_interrupt_source (fst (uart_write u off w v t)) = ua_interrupt_source u"
  "ua_interrupt_source (fst (uart_compare_exchange u off w x n t)) = ua_interrupt_source u"
  "ua_interrupt_source (fst (push_rx u byte)) = ua_interrupt_source u"
  "ua_interrupt_source (fst (pop_tx u)) = ua_interrupt_source u"
  by (auto simp: uart_read_def uart_write_def uart_write_fcr_def uart_compare_exchange_def push_rx_def pop_tx_def Let_def
      reset_rx_fifo_def reset_tx_fifo_def split: list.split)

lemma region_silent:
  assumes "source_silent s r"
  shows "source_silent s (fst (region_read r off w t))" "source_silent s (fst (region_write r off w v t))"
    "source_silent s (fst (region_compare_exchange r off w x n t))"
  using assms plic_silent by (cases r; simp add: map_prod_simps uart_source_kept)+

lemma bus_silent_accessed: "bus_accessed b b' \<Longrightarrow> bus_silent s b \<Longrightarrow> bus_silent s b'"
  unfolding bus_silent_def by (rule bus_accessed_regions) (simp_all add: region_silent)

lemma bus_silent_set: "bus_silent s b \<Longrightarrow> source_silent s r \<Longrightarrow> bus_silent s (set_region b i r)"
  by (auto simp: bus_silent_def set_region_def dest: set_update_subset_insert [THEN subsetD])

lemma process_one_silent:
  assumes "posix_file content ops" "process_one ops dev b disk = Some (dev', b', disk', status)" "bus_silent s b"
  shows "bus_silent s b'"
proof -
  obtain t where t: "virtio_at b (vb_transport dev) = Some t" using assms(2) by (auto simp: process_one_def split: option.splits)
  obtain t' n where pop: "pop_notification t = (t', n)" by fastforce
  show ?thesis
  proof (cases n)
    case None
    then show ?thesis using assms t pop by (simp add: process_one_def)
  next
    case (Some q)
    have "accessed_and_raised (vb_transport dev) (set_region b (vb_transport dev) (VirtioRegion t')) b'"
      using process_one_effect [OF assms(1) t pop [unfolded Some] assms(2)] by (simp add: request_effect_def)
    moreover have "bus_silent s (set_region b (vb_transport dev) (VirtioRegion t'))" using assms(3) by (simp add: bus_silent_set)
    ultimately show ?thesis by (auto simp: accessed_and_raised_def intro: bus_silent_accessed bus_silent_set)
  qed
qed


lemma bus_silentD: "bus_silent s b \<Longrightarrow> i < length (bus_regions b) \<Longrightarrow> source_silent s (bus_regions b ! i)"
  by (simp add: bus_silent_def)

lemma uart_update_silent:
  assumes "bus_silent s (hart_bus c)" "uart_at (hart_bus c) i = Some u" "ua_interrupt_source u' = ua_interrupt_source u"
  shows "bus_silent s (hart_bus (set_device i (UartRegion u') c))"
  using bus_silentD [OF assms(1), of i] assms by (simp add: set_device_def device_at_Some bus_silent_set)

lemma input_silent:
  "terminal_input_loop ops el n c h r = Some (c', h', r') \<Longrightarrow> bus_silent s (hart_bus c) \<Longrightarrow> bus_silent s (hart_bus c')"
proof (induction n arbitrary: c h r)
  case (Suc n)
  obtain h1 io b where rd: "read_byte ops h = Some (h1, io, b)" using Suc.prems(1) by (cases "read_byte ops h") auto
  show ?case
  proof (cases "tio_status io = TerminalReady")
    case True
    then obtain u where u: "uart_at (hart_bus c) (el_uart el) = Some u"
      using Suc.prems(1) rd by (cases "uart_at (hart_bus c) (el_uart el)") auto
    obtain u' pushed where p: "push_rx u b = (u', pushed)" by fastforce
    have "bus_silent s (hart_bus (set_device (el_uart el) (UartRegion u') c))"
      using uart_update_silent [OF Suc.prems(2) u, of u'] p uart_source_kept(4) [of u b] by simp
    then show ?thesis using Suc rd u p True by (auto simp: Let_def split: if_splits)
  qed (use Suc.prems rd in \<open>auto simp: Let_def\<close>)
qed simp

lemma next_tx_silent:
  assumes "next_tx el c = Some (el', c', byte)" "bus_silent s (hart_bus c)"
  shows "bus_silent s (hart_bus c')"
proof (cases "el_pending_tx el")
  case Nil
  then obtain u where u: "uart_at (hart_bus c) (el_uart el) = Some u" using assms(1) by (auto simp: next_tx_def split: option.splits)
  obtain u' b where p: "pop_tx u = (u', b)" by fastforce
  have "bus_silent s (hart_bus (set_device (el_uart el) (UartRegion u') c))"
    using uart_update_silent [OF assms(2) u, of u'] p uart_source_kept(5) [of u] by simp
  then show ?thesis using assms Nil u p by (auto simp: next_tx_def split: option.splits)
qed (use assms in \<open>auto simp: next_tx_def\<close>)

lemma output_silent:
  "uart_output_loop ops n el c h r = Some (el', c', h', r') \<Longrightarrow> bus_silent s (hart_bus c) \<Longrightarrow> bus_silent s (hart_bus c')"
proof (induction n arbitrary: el c h r)
  case (Suc n)
  obtain el1 c1 byte where nx: "next_tx el c = Some (el1, c1, byte)" using Suc.prems(1) by (cases "next_tx el c") auto
  note s = next_tx_silent [OF nx Suc.prems(2)]
  show ?case
    using Suc.prems(1) Suc.IH [OF _ s] s nx by (auto simp: Let_def split: option.splits if_splits prod.splits)
qed simp

lemma synchronize_silent:
  assumes "synchronize_devices el c = Some c'" "bus_silent s (hart_bus c)"
  shows "bus_silent s (hart_bus c')"
proof -
  obtain d where d: "clint_at (hart_bus c) (el_clint el) = Some d"
    using assms(1) by (auto simp: synchronize_devices_def split: option.splits)
  let ?d = "clint_advance d (elo_clint_ticks_per_iteration (el_options el))"
  let ?c = "update_csrs (clint_synchronize ?d) (set_device (el_clint el) (ClintRegion ?d) c)"
  have c: "bus_silent s (hart_bus ?c)" using assms(2) by (simp add: update_csrs_bus set_device_def bus_silent_set)
  obtain u p where dev: "uart_at (hart_bus ?c) (el_uart el) = Some u" "plic_at (hart_bus ?c) (el_plic el) = Some p"
    using assms(1) d by (auto simp: synchronize_devices_def Let_def split: option.splits)
  then have "source_silent s (UartRegion u)" "source_silent s (PlicRegion p)"
    using bus_silentD [OF c] by (metis device_at_Some(2,3))+
  then have "source_silent s (PlicRegion (uart_synchronize u p))"
    using plic_silent(4) [of s p "ua_interrupt_source u"] unfolding uart_synchronize_def by force
  then show ?thesis
    using assms(1) d dev c by (auto simp: synchronize_devices_def Let_def update_csrs_bus set_device_def bus_silent_set)
qed

lemma step_cpu_accessed:
  assumes "step_cpu c r = Some (c', r')" "cpu_wf c"
  shows "bus_accessed (hart_bus c) (hart_bus c')"
proof -
  obtain c1 s where s: "step c = Some (c1, s)" "bus_accessed (hart_bus c) (hart_bus c1)"
    using step_effect [OF assms(2)] by (auto simp: step_effect_def)
  obtain ci d where i: "take_pending_interrupt c = (ci, d)" "hart_bus ci = hart_bus c"
    using take_interrupt_bus [of c] by (cases "take_pending_interrupt c") auto
  have "d = None \<Longrightarrow> ci = c" using i(1) by (auto simp: take_pending_interrupt_def Let_def split: option.splits prod.splits)
  moreover have "hart_bus x = hart_bus c1" if "take_trap t c1 = (x, y)" for t x y
    using take_trap_bus [of t c1] that by simp
  ultimately show ?thesis
    using assms(1) s i by (cases d; cases "sr_trap s") (auto simp: step_cpu_def Let_def split: prod.splits)
qed

lemma run_once_silent:
  assumes "run_once ops el c h = Some (el', c', h', r)" "terminal_answers ops" "board_wf el c" "bus_silent s (hart_bus c)"
  shows "bus_silent s (hart_bus c')"
proof -
  obtain c1 h1 r1 where i: "service_terminal_input ops el c h iteration_start = Some (c1, h1, r1)" "same_board el c el c1"
    using terminal_input_returns [OF assms(2,3)] by (metis service_terminal_input_def)
  obtain el2 c2 h2 r2 where o: "service_uart_output ops el c1 h1 r1 = Some (el2, c2, h2, r2)" "same_board el c1 el2 c2"
    using uart_output_returns [OF assms(2) same_board_wf [OF i(2) assms(3)]] by (metis service_uart_output_def)
  obtain c3 where y: "synchronize_devices el2 c2 = Some c3" "same_board el2 c2 el2 c3"
    using synchronize_returns [OF same_board_wf [OF o(2) same_board_wf [OF i(2) assms(3)]]] by blast
  obtain c4 r4 where p: "step_cpu c3 r2 = Some (c4, r4)" "c' = c4"
    using assms(1) i(1) o(1) y(1) by (auto simp: run_once_def split: option.splits)
  have "bus_silent s (hart_bus c3)"
    using synchronize_silent [OF y(1)] output_silent [OF o(1) [unfolded service_uart_output_def]]
      input_silent [OF i(1) [unfolded service_terminal_input_def]] assms(4) by blast
  moreover have "cpu_wf c3" using y(2) by (simp add: same_board_def)
  ultimately show ?thesis using step_cpu_accessed [OF p(1)] p(2) bus_silent_accessed by blast
qed


lemma run_step_silent:
  assumes "posix_file content disk_ops" "terminal_answers tty_ops"
    and "run_step disk_ops tty_ops stop_requested options (m, h, n) (m', h', n')"
    and "machine_wf content m" "bus_silent s (hart_bus (mc_cpu m))"
  shows "machine_wf content m' \<and> bus_silent s (hart_bus (mc_cpu m'))"
proof -
  let ?h = "fst (stop_requested h)"
  have p: "machine_pass disk_ops tty_ops options m ?h n = Some (m', h', n', None)" using assms(3) by (simp add: run_step_def)
  then have "\<not> block_stuck disk_ops m" unfolding block_stuck_def by (rule contrapos_pn) (simp add: machine_pass_def)
  from machine_pass_returns [OF assms(1,2,4) this, of options ?h n] p have wf: "machine_wf content m'" by auto
  obtain dev b disk st where q: "process_one disk_ops (mc_block m) (hart_bus (mc_cpu m)) (mc_disk m) = Some (dev, b, disk, st)"
    using p by (auto simp: machine_pass_def split: option.splits)
  obtain f where d: "disk_backed content (mc_disk m) f" using assms(4) by (auto simp: machine_wf_def)
  let ?c = "(mc_cpu m)\<lparr>hart_bus := b\<rparr>"
  have c: "board_wf (mc_loop m) ?c"
    using process_one_keeps [OF assms(1) _ d q] assms(4) by (auto simp: machine_wf_def board_wf_def cpu_wf_def kind_at_def)
  obtain el' r where "run_once tty_ops (mc_loop m) ?c ?h = Some (el', mc_cpu m', h', r)"
    using p q by (auto simp: machine_pass_def Let_def split: if_splits option.splits)
  from run_once_silent [OF this assms(2) c] process_one_silent [OF assms(1) q assms(5)] wf show ?thesis by simp
qed

lemma process_one_spurious:
  assumes "virtio_at b (vb_transport dev) = Some t" "vi_notifications t = q # rest"
    and "consume_available (vb_queue_runtime (synchronize_queue_generation t dev))
           (set_region b (vb_transport dev) (VirtioRegion (t\<lparr>vi_notifications := rest\<rparr>)))
           (queue_layout (t\<lparr>vi_notifications := rest\<rparr>) q) = (runtime, b', available)"
    and "va_pending_count available = 0"
  shows "\<exists>dev'. process_one ops dev b disk = Some (dev', b', disk, QueueError)"
proof -
  have "synchronize_queue_generation (t\<lparr>vi_notifications := rest\<rparr>) dev = synchronize_queue_generation t dev"
    by (simp add: synchronize_queue_generation_def)
  then show ?thesis using assms by (simp add: process_one_def pop_notification_def Let_def)
qed

end
