(* ===== verification/Virtio_Block_Correct.thy ===== *)
theory Virtio_Block_Correct
  imports Virtio_Block
begin

unbundle bit_operations_syntax

text \<open>
  What the block device does to the guest's memory and to the disk image: the data phase of reads and writes, the safety
  of a whole request, and two requests on a concrete machine that the program does not handle.
\<close>

subsection \<open>The buffers of a request\<close>

text \<open>The addresses of the bytes of the buffers of a request, in order.\<close>

definition buffer_addresses :: "virtqueue_segment \<Rightarrow> u64 list" where
  "buffer_addresses s = map (\<lambda>k. sg_address s + of_nat k) [0..<unat (sg_length s)]"

definition request_addresses :: "virtqueue_segment list \<Rightarrow> u64 list" where
  "request_addresses ss = concat (map buffer_addresses ss)"

lemma request_addresses_simps [simp]:
  "request_addresses [] = []" "request_addresses (s # ss) = buffer_addresses s @ request_addresses ss"
  by (simp_all add: request_addresses_def)

lemma length_request_addresses: "length (request_addresses ss) = sum_list (map (\<lambda>s. unat (sg_length s)) ss)"
  by (induction ss) (simp_all add: buffer_addresses_def)

subsection \<open>From the guest\<close>

lemma copy_from_guest_loop_ram:
  assumes "bus_wf b" "\<forall>i\<in>set is. ram_at b (a + of_nat i)"
  shows "copy_from_guest_loop a is out b = (b, Some (out @ map (\<lambda>i. guest_byte b (a + of_nat i)) is))"
  using assms(2)
proof (induction "is" arbitrary: out)
  case (Cons i "is")
  then show ?case using guest_read [OF assms(1), of "a + of_nat i"] by simp
qed simp

lemma gather_out:
  assumes "bus_wf b" "list_all (\<lambda>s. \<not> sg_device_writes s) ss" "\<forall>a\<in>set (request_addresses ss). ram_at b a"
  shows "gather_data 1 ss data b = (b, data @ map (guest_byte b) (request_addresses ss))"
  using assms(2,3)
proof (induction ss arbitrary: data)
  case (Cons s ss)
  then have "copy_from_guest b s = (b, Some (map (guest_byte b) (buffer_addresses s)))"
    by (simp add: copy_from_guest_def copy_from_guest_loop_ram [OF assms(1)] buffer_addresses_def)
  with Cons show ?case by simp
qed simp

subsection \<open>To the guest\<close>

text \<open>Bytes stored in RAM one after the other, and nothing else.\<close>

definition store_bytes :: "('a \<Rightarrow> 'b) \<Rightarrow> ('a \<times> 'b) list \<Rightarrow> 'a \<Rightarrow> 'b" where
  "store_bytes m xs a = (case map_of (rev xs) a of None \<Rightarrow> m a | Some v \<Rightarrow> v)"

definition guest_updated :: "bus \<Rightarrow> (u64 \<times> u8) list \<Rightarrow> bus \<Rightarrow> bool" where
  "guest_updated b xs b' \<longleftrightarrow> bus_wf b' \<and> ram_at b' = ram_at b
     \<and> (\<forall>a. ram_at b a \<longrightarrow> guest_byte b' a = store_bytes (guest_byte b) xs a)"

lemma guest_updated_trans: "guest_updated b xs c \<Longrightarrow> guest_updated c ys d \<Longrightarrow> guest_updated b (xs @ ys) d"
  by (auto simp: guest_updated_def store_bytes_def map_add_def split: option.split)

lemma store_bytes_other:
  assumes "a \<notin> set as"
  shows "store_bytes m (zip as vs) a = m a"
proof -
  have "a \<notin> fst ` set (rev (zip as vs))" using assms by (auto dest: set_zip_leftD)
  then have "map_of (rev (zip as vs)) a = None" by (simp only: map_of_eq_None_iff not_False_eq_True)
  then show ?thesis by (simp add: store_bytes_def)
qed

lemma store_bytes_zip:
  assumes "distinct as" "length as = length vs"
  shows "map (store_bytes m (zip as vs)) as = vs"
proof (rule nth_equalityI)
  fix k assume k: "k < length (map (store_bytes m (zip as vs)) as)"
  have "distinct (map fst (rev (zip as vs)))" using assms by (simp flip: rev_map)
  moreover have "(as ! k, vs ! k) \<in> set (rev (zip as vs))" using k assms(2) by (auto simp: set_zip)
  ultimately have "map_of (rev (zip as vs)) (as ! k) = Some (vs ! k)" by (rule map_of_is_SomeI)
  then show "map (store_bytes m (zip as vs)) as ! k = vs ! k" using k by (simp add: store_bytes_def)
qed (use assms in simp)

lemma copy_to_guest_loop_ram:
  assumes "bus_wf b" "\<forall>k < length bs. ram_at b (a + of_nat (i + k))"
  shows "\<exists>b'. copy_to_guest_loop a i bs b = (b', True)
     \<and> guest_updated b (zip (map (\<lambda>k. a + of_nat k) [i..<i + length bs]) bs) b'"
  using assms
proof (induction bs arbitrary: i b)
  case (Cons v bs)
  from Cons.prems have "ram_at b (a + of_nat i)" by (metis add_0_right length_greater_0_conv list.distinct(1))
  obtain c r where c: "bus_write b (a + of_nat i) Byte (ucast v) DmaWrite = (c, r)"
    "ar_ok r" "guest_updated b [(a + of_nat i, v)] c"
    by (rule guest_write [OF Cons.prems(1) \<open>ram_at b (a + of_nat i)\<close>, of v]) (auto simp: guest_updated_def store_bytes_def)
  then have "bus_wf c" "\<forall>k < length bs. ram_at c (a + of_nat (Suc i + k))"
    using Cons.prems(2) by (auto simp: guest_updated_def ac_simps simp flip: of_nat_Suc of_nat_add)
  from Cons.IH [OF this] obtain d where "copy_to_guest_loop a (Suc i) bs c = (d, True)"
    "guest_updated c (zip (map (\<lambda>k. a + of_nat k) [Suc i..<Suc i + length bs]) bs) d" by blast
  moreover have "[i..<i + length (v # bs)] = i # [Suc i..<Suc i + length bs]"
    using upt_conv_Cons [of i "Suc i + length bs"] by simp
  ultimately show ?case using c guest_updated_trans [OF c(3)] by (auto simp del: upt_Suc)
qed (simp add: guest_updated_def store_bytes_def)

lemma copy_to_guest_ram:
  assumes "bus_wf b" "sg_device_writes s" "length bs = unat (sg_length s)" "\<forall>a\<in>set (buffer_addresses s). ram_at b a"
  obtains b' where "copy_to_guest b s bs = (b', True)" "guest_updated b (zip (buffer_addresses s) bs) b'"
  using copy_to_guest_loop_ram [OF assms(1), of bs "sg_address s" 0] assms(2-)
  by (auto simp: copy_to_guest_def buffer_addresses_def)

lemma scatter_ram:
  assumes "bus_wf b" "list_all sg_device_writes ss" "\<forall>a\<in>set (request_addresses ss). ram_at b a"
    and "off + length (request_addresses ss) \<le> length data"
  shows "\<exists>b'. scatter_data ss data off b = Some (b', 0)
     \<and> guest_updated b (zip (request_addresses ss) (drop off data)) b'"
  using assms
proof (induction ss arbitrary: off b)
  case (Cons s ss)
  let ?len = "unat (sg_length s)"
  have len: "length (buffer_addresses s) = ?len" by (simp add: buffer_addresses_def)
  obtain c where c: "copy_to_guest b s (take ?len (drop off data)) = (c, True)"
    "guest_updated b (zip (buffer_addresses s) (take ?len (drop off data))) c"
    by (rule copy_to_guest_ram [of b s "take ?len (drop off data)"]) (use Cons.prems len in auto)
  then have "bus_wf c" "\<forall>a\<in>set (request_addresses ss). ram_at c a"
    using Cons.prems by (auto simp: guest_updated_def)
  from Cons.IH [OF this(1) _ this(2), of "off + ?len"] obtain d where "scatter_data ss data (off + ?len) c = Some (d, 0)"
    "guest_updated c (zip (request_addresses ss) (drop (off + ?len) data)) d"
    using Cons.prems len by auto
  moreover have "zip (request_addresses (s # ss)) (drop off data)
      = zip (buffer_addresses s) (take ?len (drop off data)) @ zip (request_addresses ss) (drop (off + ?len) data)"
    using Cons.prems(4) len by (simp add: zip_append1 min_def add.commute)
  ultimately show ?case using c Cons.prems(4) len guest_updated_trans [OF c(2)] by (auto simp: Let_def)
qed (simp add: guest_updated_def store_bytes_def)

lemma sector_range_in_image:
  assumes "disk_backed content disk f" "512 * unat sector + n \<le> length (content f)"
  shows "sector_range_valid sector (of_nat n) (db_capacity_sectors disk)"
proof -
  define cap where "cap = unat (db_capacity_sectors disk)"
  from assms have le: "512 * unat sector + n \<le> 512 * cap" and small: "512 * cap < 2 ^ 63"
    by (simp_all add: disk_backed_def cap_def)
  define k where "k = (of_nat n + 512 - 1 :: u64) div 512"
  have e: "of_nat n + 512 - 1 = (of_nat (n + 511) :: u64)" by simp
  have "n + 511 < 2 ^ 64" using le small by simp
  then have "unat (of_nat (n + 511) :: u64) = n + 511" by (simp add: unat_of_nat del: of_nat_add)
  then have k: "unat k = (n + 511) div 512" unfolding k_def e by (simp add: unat_div)
  have "n + 511 \<le> 512 * (cap - unat sector) + 511" using le by simp
  then have "(n + 511) div 512 \<le> (512 * (cap - unat sector) + 511) div 512" by (rule div_le_mono)
  then have sum: "unat sector + unat k \<le> cap" using le k by simp
  then have "unat (sector + k) = unat sector + unat k" using small by (simp add: unat_word_ariths(1))
  moreover have "\<not> sum_overflows sector k"
    using sum small unat_max64 [of k] by (simp add: sum_overflows_def word_less_nat_alt)
  ultimately show ?thesis
    using sum unfolding sector_range_valid_def Let_def k_def [symmetric] by (simp add: word_le_nat_alt cap_def)
qed


text \<open>A read request delivers the disk. If the buffers are device-writable RAM that does not overlap and the request lies
  inside the image, it is carried out with status OK: afterwards the bytes of the buffers, in order, are those of the
  image from the requested sector on, all other RAM is as before, and the length reported is theirs plus the status
  byte.\<close>

lemma block_read_delivers:
  assumes "posix_file content ops" "file_responds content ops" "disk_backed content disk f" "bus_wf b"
    and "rh_type header = 0" "list_all sg_device_writes ss" "\<forall>a\<in>set (request_addresses ss). ram_at b a"
    and "distinct (request_addresses ss)" "request_addresses ss \<noteq> []"
    and "512 * unat (rh_sector header) + length (request_addresses ss) \<le> length (content f)"
  shows "\<exists>b'. perform_request ops header (h # ss @ [st]) b disk
        = Some (b', disk, 0, 1 + of_nat (length (request_addresses ss)))
     \<and> bus_wf b' \<and> map (guest_byte b') (request_addresses ss)
          = take (length (request_addresses ss)) (drop (512 * unat (rh_sector header)) (content f))
     \<and> (\<forall>a. ram_at b a \<and> a \<notin> set (request_addresses ss) \<longrightarrow> guest_byte b' a = guest_byte b a)"
proof -
  let ?as = "request_addresses ss" and ?n = "length (request_addresses ss)"
  let ?data = "take ?n (drop (512 * unat (rh_sector header)) (content f))"
  have g: "gather_data 0 ss [] b = (b, replicate ?n 0)"
    by (rule prod_eqI) (simp_all add: gather_in gather_in_bus assms(6) length_request_addresses)
  have r: "disk_read ops disk (rh_sector header) ?n = (DiskNone, ?data)"
    using disk_read_responds [OF assms(1-3,10)] .
  have len: "length ?data = ?n" using assms(10) by simp
  obtain b' where b': "scatter_data ss ?data 0 b = Some (b', 0)" "guest_updated b (zip ?as ?data) b'"
    using scatter_ram [OF assms(4,6,7), of 0 ?data] assms(10) by auto
  have "perform_request ops header (h # ss @ [st]) b disk = Some (b', disk, 0, 1 + of_nat ?n)"
    using assms(5,9) len sector_range_in_image [OF assms(3,10)]
    by (simp add: perform_request_def g r b'(1) butlast_append)
  moreover have "map (guest_byte b') ?as = ?data"
    using b'(2) assms(7) store_bytes_zip [OF assms(8) len [symmetric], of "guest_byte b"]
    by (simp add: guest_updated_def cong: map_cong)
  moreover have "guest_byte b' a = guest_byte b a" if "ram_at b a" "a \<notin> set ?as" for a
    using b'(2) that by (simp add: guest_updated_def store_bytes_other)
  ultimately show ?thesis using b'(2) by (simp add: guest_updated_def)
qed

text \<open>A write request stores the guest's bytes. If the buffers are device-readable RAM and the request lies inside a
  writable image, the image afterwards holds the bytes of the buffers, in order, from the requested sector on and is
  otherwise unchanged, the status is OK and RAM is untouched.\<close>

lemma block_write_stores:
  assumes "posix_file content ops" "file_responds content ops" "disk_backed content disk f" "bus_wf b"
    and "rh_type header = 1" "list_all (\<lambda>s. \<not> sg_device_writes s) ss" "\<forall>a\<in>set (request_addresses ss). ram_at b a"
    and "db_writable disk" "request_addresses ss \<noteq> []"
    and "512 * unat (rh_sector header) + length (request_addresses ss) \<le> length (content f)"
  shows "\<exists>disk' f'. perform_request ops header (h # ss @ [st]) b disk = Some (b, disk', 0, 1)
     \<and> disk_backed content disk' f'
     \<and> content f' = overwrite (content f) (512 * unat (rh_sector header)) (map (guest_byte b) (request_addresses ss))"
proof -
  let ?data = "map (guest_byte b) (request_addresses ss)"
  have g: "gather_data 1 ss [] b = (b, ?data)" using gather_out [OF assms(4,6,7)] by simp
  obtain disk' f' where w: "disk_write ops disk (rh_sector header) ?data = (disk', DiskNone)" "disk_backed content disk' f'"
    "content f' = overwrite (content f) (512 * unat (rh_sector header)) ?data"
    by (rule disk_write_responds [OF assms(1-3,8), of "rh_sector header" ?data]) (use assms(10) in simp_all)
  have "perform_request ops header (h # ss @ [st]) b disk = Some (b, disk', 0, 1)"
    using assms(5,9) sector_range_in_image [OF assms(3,10)]
    by (simp add: perform_request_def g w(1) butlast_append)
  then show ?thesis using w by blast
qed


subsection \<open>A small machine\<close>

text \<open>
  A machine with RAM and a block device whose driver has published one request of three descriptors: the header at 0x90,
  a data buffer of four bytes at 0xA0 with the flags given, the status byte at 0xA8.
\<close>

definition example_block_ram :: "u8 \<Rightarrow> u8 \<Rightarrow> phys_mem" where
  "example_block_ram type flags = \<lparr>pm_range = \<lparr>rng_base = 0x80000000, rng_size = 176, rng_end_exclusive = 0x800000B0\<rparr>,
     pm_name = ''ram'', pm_bytes = foldl (\<lambda>m (p, bs). overwrite m p bs) (replicate 176 0)
       [(0, [0x90, 0, 0, 0x80, 0, 0, 0, 0, 16, 0, 0, 0, 1, 0, 1, 0]),
        (16, [0xA0, 0, 0, 0x80, 0, 0, 0, 0, 4, 0, 0, 0, flags OR 1, 0, 2, 0]),
        (32, [0xA8, 0, 0, 0x80, 0, 0, 0, 0, 1, 0, 0, 0, 2, 0, 0, 0]),
        (0x42, [1, 0]), (0x90, [type]), (0xA0, [1, 2, 3, 4]), (0xA8, [0xFF])]\<rparr>"

definition example_block_transport :: virtio where
  "example_block_transport = foldl virtio_step example_virtio (map (\<lambda>(off, v). VirtioWrite off Word32 v Store)
     [(0x070, 3), (0x024, 1), (0x020, 1), (0x070, 11), (0x038, 4), (0x080, 0x80000000), (0x090, 0x80000040),
      (0x0A0, 0x80000060), (0x044, 1), (0x070, 15), (0x050, 0)])"

definition example_block_bus :: "u8 \<Rightarrow> u8 \<Rightarrow> bus" where
  "example_block_bus type flags = fst (register_region
     (fst (register_region bus_create (Some (VirtioRegion example_block_transport))))
     (Some (RamRegion (example_block_ram type flags))))"

definition example_block_device :: virtio_block_device where
  "example_block_device = \<lparr>vb_transport = 0, vb_queue_runtime = virtqueue_runtime_create, vb_observed_transport_generation = 0\<rparr>"

definition example_disk :: "u8 list disk_backend" where
  "example_disk = \<lparr>db_file = Some (replicate 512 9), db_writable = True, db_capacity_sectors = 1\<rparr>"

text \<open>What the guest finds afterwards: how the device answered, the status byte, the buffer, and the first bytes of the image.\<close>

definition block_outcome ::
    "(virtio_block_device \<times> bus \<times> u8 list disk_backend \<times> virtio_block_process_status) option
     \<Rightarrow> (virtio_block_process_status \<times> u64 \<times> u64 \<times> u8 list option) option" where
  "block_outcome r = map_option (\<lambda>(dev, b, disk, status).
     (status, ar_value (snd (bus_read b 0x800000A8 Byte DmaRead)), ar_value (snd (bus_read b 0x800000A0 Word32 DmaRead)),
      map_option (take 6) (db_file disk))) r"


lemma example_transport_wf: "virtio_wf example_block_transport"
proof -
  have "virtio_wf (foldl virtio_step d es)" if "virtio_wf d" for d es
    using that by (induction es arbitrary: d) (simp_all add: virtio_wf_step)
  then show ?thesis
    using virtio_create_wf [OF example_virtio_created] unfolding example_block_transport_def by blast
qed

lemma example_block_bus_wf: "bus_wf (example_block_bus type flags)"
proof -
  have "bus_wf bus_create" by (simp add: bus_wf_def bus_create_def)
  moreover have "region_wf (RamRegion (example_block_ram type flags))"
    by (simp add: example_block_ram_def pm_wf_def range_wf_def overwrite_def)
  moreover have "region_wf (VirtioRegion example_block_transport)" by (simp add: example_transport_wf)
  ultimately show ?thesis unfolding example_block_bus_def by (intro bus_wf_register)
qed

lemma example_disk_backed: "disk_backed id example_disk (replicate 512 9)"
  by (simp add: disk_backed_def example_disk_def)

definition example_buffer :: "bool \<Rightarrow> virtqueue_segment" where
  "example_buffer writes = \<lparr>sg_address = 0x800000A0, sg_length = 4, sg_device_writes = writes\<rparr>"

lemma example_buffer_addresses: "request_addresses [example_buffer writes] = [0x800000A0, 0x800000A1, 0x800000A2, 0x800000A3]"
  by (simp add: buffer_addresses_def example_buffer_def upt_rec)

lemma example_buffer_in_ram:
  "\<forall>a\<in>set (request_addresses [example_buffer w]). ram_at (example_block_bus 0 2) a"
  "\<forall>a\<in>set (request_addresses [example_buffer w]). ram_at (example_block_bus 1 0) a"
  unfolding example_buffer_addresses by code_simp+

lemma replicate_four: "replicate 4 x = [x, x, x, x]"
  by (simp add: numeral_eq_Suc)

text \<open>C39. The data phase of a block request, between reading its header and writing its status, transfers the data between the
  disk image and the buffers of the guest, on a host file that answers its calls, however short its transfers are. If the buffers are RAM and the request lies inside the image, a read
  into device-writable buffers that do not overlap is carried out with status OK: afterwards the bytes of the buffers, in
  order, are those of the image from the requested sector on, all other RAM is as before, and the length reported is
  theirs plus the status byte. A write from device-readable buffers to a writable image leaves the image with the bytes of
  the buffers, in order, from the requested sector on and otherwise unchanged, and RAM untouched.\<close>

theorem block_request_transfers:
  assumes "posix_file content ops" "file_responds content ops" "disk_backed content disk f" "bus_wf b"
    and "\<forall>a\<in>set (request_addresses ss). ram_at b a" "request_addresses ss \<noteq> []"
    and "512 * unat (rh_sector header) + length (request_addresses ss) \<le> length (content f)"
  shows "(rh_type header = 0 \<and> list_all sg_device_writes ss \<and> distinct (request_addresses ss) \<longrightarrow>
      (\<exists>b'. perform_request ops header (h # ss @ [st]) b disk
         = Some (b', disk, 0, 1 + of_nat (length (request_addresses ss)))
       \<and> bus_wf b' \<and> map (guest_byte b') (request_addresses ss)
            = take (length (request_addresses ss)) (drop (512 * unat (rh_sector header)) (content f))
       \<and> (\<forall>a. ram_at b a \<and> a \<notin> set (request_addresses ss) \<longrightarrow> guest_byte b' a = guest_byte b a)))
    \<and> (rh_type header = 1 \<and> list_all (\<lambda>s. \<not> sg_device_writes s) ss \<and> db_writable disk \<longrightarrow>
      (\<exists>disk' f'. perform_request ops header (h # ss @ [st]) b disk = Some (b, disk', 0, 1)
       \<and> disk_backed content disk' f'
       \<and> content f' = overwrite (content f) (512 * unat (rh_sector header)) (map (guest_byte b) (request_addresses ss))))"
  using block_read_delivers [OF assms(1-4) _ _ assms(5) _ assms(6,7)]
    block_write_stores [OF assms(1-4) _ _ assms(5) _ assms(6,7)] by blast

text \<open>The first four bytes of a sector of nines are read into RAM, and four bytes of RAM are written over them.\<close>

theorem block_request_transfers_witness:
  "(\<exists>b'. perform_request short_file \<lparr>rh_type = 0, rh_sector = 0\<rparr> [example_buffer False, example_buffer True, example_buffer True]
          (example_block_bus 0 2) example_disk = Some (b', example_disk, 0, 5)
     \<and> map (guest_byte b') [0x800000A0, 0x800000A1, 0x800000A2, 0x800000A3] = [9, 9, 9, 9])
   \<and> (\<exists>disk'. perform_request short_file \<lparr>rh_type = 1, rh_sector = 0\<rparr> [example_buffer False, example_buffer False, example_buffer True]
          (example_block_bus 1 0) example_disk = Some (example_block_bus 1 0, disk', 0, 1))"
proof
  show "\<exists>b'. perform_request short_file \<lparr>rh_type = 0, rh_sector = 0\<rparr> [example_buffer False, example_buffer True, example_buffer True]
          (example_block_bus 0 2) example_disk = Some (b', example_disk, 0, 5)
     \<and> map (guest_byte b') [0x800000A0, 0x800000A1, 0x800000A2, 0x800000A3] = [9, 9, 9, 9]"
    using block_request_transfers [OF short_file_posix example_disk_backed example_block_bus_wf, of "[example_buffer True]" 0 2
        "\<lparr>rh_type = 0, rh_sector = 0\<rparr>" "example_buffer False" "example_buffer True"] example_buffer_in_ram(1) [of True]
      replicate_four unfolding example_buffer_addresses by (auto simp: example_buffer_def)
  show "\<exists>disk'. perform_request short_file \<lparr>rh_type = 1, rh_sector = 0\<rparr> [example_buffer False, example_buffer False, example_buffer True]
          (example_block_bus 1 0) example_disk = Some (example_block_bus 1 0, disk', 0, 1)"
    using block_request_transfers [OF short_file_posix example_disk_backed example_block_bus_wf, of "[example_buffer False]" 1 0
        "\<lparr>rh_type = 1, rh_sector = 0\<rparr>" "example_buffer False" "example_buffer True"] example_buffer_in_ram(2) [of False]
    unfolding example_buffer_addresses by (auto simp: example_buffer_def example_disk_def)
qed

text \<open>Undefined behaviour is reachable from the guest. On a concrete machine, with a regular image and a request that
  asks for a read but whose only data buffer is not marked device-writable, serving the notification takes a part out of an
  empty vector.\<close>

theorem block_read_undefined:
  "process_one short_file example_block_device (example_block_bus 0 0) example_disk = None"
  by code_simp

text \<open>A write request can be acknowledged without being carried out. On the same machine a write request whose only data
  buffer is marked device-writable completes with status OK although nothing was written; with the buffer marked readable
  the four bytes reach the image.\<close>

theorem block_write_lost:
  "block_outcome (process_one short_file example_block_device (example_block_bus 1 2) example_disk)
     = Some (Completed, 0, 0x04030201, Some [9, 9, 9, 9, 9, 9])
   \<and> block_outcome (process_one short_file example_block_device (example_block_bus 1 0) example_disk)
     = Some (Completed, 0, 0x04030201, Some [1, 2, 3, 4, 9, 9])"
proof
  show "block_outcome (process_one short_file example_block_device (example_block_bus 1 2) example_disk)
     = Some (Completed, 0, 0x04030201, Some [9, 9, 9, 9, 9, 9])" by code_simp
  show "block_outcome (process_one short_file example_block_device (example_block_bus 1 0) example_disk)
     = Some (Completed, 0, 0x04030201, Some [1, 2, 3, 4, 9, 9])" by code_simp
qed

text \<open>A notified block request is safe. It leaves the bus well formed with every region in its place and the image
  with its length, its capacity and its mode, and no request ever changes an image opened read-only; without a
  notification nothing changes. The one request for which the program has no defined behaviour is a read of exactly three
  descriptors whose data buffer is not empty and not writable by the device.\<close>

theorem process_one_safe:
  assumes "posix_file content ops" "bus_wf b" "virtio_at b (vb_transport dev) \<noteq> None" "disk_backed content disk f"
  shows "case process_one ops dev b disk of
      None \<Rightarrow> undefined_read dev b
    | Some (dev', b', disk', status) \<Rightarrow>
        bus_wf b' \<and> bus_layout b' = bus_layout b \<and> virtio_at b' (vb_transport dev') \<noteq> None
        \<and> (status = NoNotification \<longrightarrow> dev' = dev \<and> b' = b \<and> disk' = disk)
        \<and> (\<exists>f'. disk_backed content disk' f' \<and> db_capacity_sectors disk' = db_capacity_sectors disk
             \<and> db_writable disk' = db_writable disk \<and> (\<not> db_writable disk \<longrightarrow> content f' = content f))"
proof (cases "process_one ops dev b disk")
  case None
  then show ?thesis using process_one_undefined [OF assms(1,4,3)] by simp
next
  case (Some r)
  obtain dev' b' disk' status where r: "r = (dev', b', disk', status)" by (cases r)
  from process_one_keeps [OF assms(1,2,4) Some [unfolded r]] show ?thesis
    using assms(3) Some r unfolding device_at_kind by (simp add: kind_at_def)
qed

theorem process_one_safe_witness:
  "\<exists>dev' b' disk' f'. process_one short_file example_block_device (example_block_bus 0 2) example_disk
       = Some (dev', b', disk', Completed) \<and> bus_wf b' \<and> disk_backed id disk' f'"
proof -
  have "block_outcome (process_one short_file example_block_device (example_block_bus 0 2) example_disk)
     = Some (Completed, 0, 0x09090909, Some (replicate 6 9))" by code_simp
  then obtain dev' b' disk' where p: "process_one short_file example_block_device (example_block_bus 0 2) example_disk
      = Some (dev', b', disk', Completed)" by (auto simp: block_outcome_def)
  have "virtio_at (example_block_bus 0 2) (vb_transport example_block_device) \<noteq> None" by code_simp
  from process_one_safe [OF short_file_posix(1) example_block_bus_wf this example_disk_backed] p show ?thesis by auto
qed

end
