(* ===== verification/Machine_Run.thy ===== *)
theory Machine_Run
  imports Runner Virtio_Block_Correct
begin

text \<open>
  Whole runs of the machine: a bounded run ends, and what the run loop does and does not do for the block device, on
  every machine and on a small concrete one with all the devices of the platform.
\<close>

subsection \<open>A machine with all its devices\<close>

definition example_board :: "u8 \<Rightarrow> u8 \<Rightarrow> bus" where
  "example_board type flags = foldl (\<lambda>b r. fst (register_region b (Some r))) bus_create
     [RamRegion (example_block_ram type flags), ClintRegion clint_create, PlicRegion plic_create, UartRegion (uart_create 10),
      VirtioRegion example_block_transport]"

definition example_machine :: "u8 \<Rightarrow> u8 \<Rightarrow> u8 list machine" where
  "example_machine type flags = \<lparr>mc_cpu = hart_boot (example_board type flags) 0x80000000,
     mc_loop = event_loop_create 0 1 2 \<lparr>elo_clint_ticks_per_iteration = 1, elo_max_terminal_rx_bytes = 64, elo_max_uart_tx_bytes = 64\<rparr>,
     mc_disk = example_disk, mc_block = example_block_device\<lparr>vb_transport := 3\<rparr>\<rparr>"

lemma example_board_wf: "bus_wf (example_board type flags)"
proof -
  have step: "bus_wf (foldl (\<lambda>b r. fst (register_region b (Some r))) b rs)" if "bus_wf b" "list_all region_wf rs" for b rs
    using that by (induction rs arbitrary: b) (simp_all add: bus_wf_register)
  have "region_wf (RamRegion (example_block_ram type flags))"
    by (simp add: example_block_ram_def pm_wf_def range_wf_def overwrite_def)
  then show ?thesis
    unfolding example_board_def
    by (intro step) (simp_all add: bus_wf_def bus_create_def plic_wf_create uart_wf_create example_transport_wf)
qed

lemma example_machine_wf: "machine_wf id (example_machine 0 2)"
proof -
  have k: "kind_at (hart_bus (mc_cpu (example_machine 0 2))) 0 2" "kind_at (hart_bus (mc_cpu (example_machine 0 2))) 1 3"
    "kind_at (hart_bus (mc_cpu (example_machine 0 2))) 2 4" "virtio_at (hart_bus (mc_cpu (example_machine 0 2))) 3 \<noteq> None"
    by code_simp+
  have "cpu_wf (mc_cpu (example_machine 0 2))"
    unfolding example_machine_def by simp (rule cpu_wf_boot [OF example_board_wf], simp add: bit_0)
  with k show ?thesis
    using example_disk_backed
    by (auto simp: machine_wf_def board_wf_def example_machine_def event_loop_create_def)
qed

lemma example_host_patient: "interrupted_finitely example_host"
  by (auto simp: interrupted_finitely_def example_host_def split: list.splits)

text \<open>C40. A bounded run ends, and for a reason. From a well-formed machine on a host that interrupts its terminal calls only
  finitely often in a row, a run with an iteration limit returns after at most that many rounds and leaves a well-formed
  machine. It ends at a machine it has reached, with exit code zero exactly when there the host asks to stop or the last
  round within the limit succeeds, and with a runtime I/O error exactly when that round fails, in the block queue or at the
  terminal. The one thing that can keep it from returning is a block request met on the way whose handling the language does
  not define: a read of exactly three descriptors whose data buffer is not empty and not writable by the device.\<close>

theorem run_machine_returns:
  assumes "posix_file content disk_ops" "interrupted_finitely tty_ops" "machine_wf content m" "ro_max_iterations options \<noteq> 0"
  shows "(\<exists>m' h' r s. run_machine disk_ops tty_ops stop_requested options m h = Some (m', h', r) \<and> machine_wf content m'
          \<and> rr_iterations r \<le> ro_max_iterations options
          \<and> (run_step disk_ops tty_ops stop_requested options)\<^sup>*\<^sup>* (machine_started options m, h, 0) s
          \<and> run_ends disk_ops tty_ops stop_requested options s r)
     \<or> (\<exists>m' h' n. (run_step disk_ops tty_ops stop_requested options)\<^sup>*\<^sup>* (machine_started options m, h, 0) (m', h', n)
          \<and> undefined_read (mc_block m') (hart_bus (mc_cpu m')))"
proof -
  have wf: "machine_wf content (machine_started options m)"
    using assms(3) by (simp add: machine_wf_def board_wf_def machine_started_def event_loop_create_def)
  have "0 < ro_max_iterations options" using assms(4) by (simp add: word_neq_0_conv)
  from run_loop_returns [OF assms(1) interrupted_finitely_answers [OF assms(2)] assms(4) wf this, of stop_requested h]
  show ?thesis
  proof
    assume "\<exists>s. (run_step disk_ops tty_ops stop_requested options)\<^sup>*\<^sup>* (machine_started options m, h, 0) s
      \<and> machine_wf content (fst s) \<and> block_stuck disk_ops (fst s)"
    then show ?thesis using block_stuck_read [OF assms(1)] by (metis prod.collapse)
  qed (simp add: run_machine_def)
qed

text \<open>The machine whose driver has asked for a read, run for at most two rounds.\<close>

theorem run_machine_returns_witness:
  "let options = \<lparr>ro_clint_ticks_per_iteration = 1, ro_max_iterations = 2\<rparr>; stop = (\<lambda>h. (h, False));
       m = example_machine 0 2 in
   machine_wf id m \<and> ((\<exists>m' h' r s. run_machine short_file example_host stop options m ([], [], []) = Some (m', h', r)
          \<and> machine_wf id m' \<and> rr_iterations r \<le> 2
          \<and> (run_step short_file example_host stop options)\<^sup>*\<^sup>* (machine_started options m, ([], [], []), 0) s
          \<and> run_ends short_file example_host stop options s r)
     \<or> (\<exists>m' h' n. (run_step short_file example_host stop options)\<^sup>*\<^sup>* (machine_started options m, ([], [], []), 0) (m', h', n)
          \<and> undefined_read (mc_block m') (hart_bus (mc_cpu m'))))"
  using run_machine_returns [OF short_file_posix(1) example_host_patient example_machine_wf,
      of "\<lparr>ro_clint_ticks_per_iteration = 1, ro_max_iterations = 2\<rparr>" "\<lambda>h. (h, False)" "([], [], [])"] example_machine_wf
  unfolding Let_def by simp

text \<open>The interrupt of the block device never reaches the interrupt controller. Whatever the guest does and however many
  requests complete, the line of source 1, which the block device is configured to drive, stays low and is never pending: the
  run loop forwards the levels of the timer and the UART and no other.\<close>

theorem block_interrupt_never_pending:
  assumes "posix_file content disk_ops" "terminal_answers tty_ops" "machine_wf content m" "bus_silent 1 (hart_bus (mc_cpu m))"
    and "(run_step disk_ops tty_ops stop_requested options)\<^sup>*\<^sup>* (m, h, n) (m', h', n')"
    and "plic_at (hart_bus (mc_cpu m')) i = Some p"
  shows "\<not> pl_level p ! 1 \<and> \<not> pl_pending p ! 1"
proof -
  have "machine_wf content (fst s) \<and> bus_silent 1 (hart_bus (mc_cpu (fst s)))"
    if "(run_step disk_ops tty_ops stop_requested options)\<^sup>*\<^sup>* (m, h, n) s" for s
    using that
  proof (induction rule: rtranclp_induct)
    case (step s s')
    obtain m1 h1 n1 m2 h2 n2 where e: "s = (m1, h1, n1)" "s' = (m2, h2, n2)" by (cases s, cases s')
    from run_step_silent [OF assms(1,2) step(2) [unfolded e], of 1] step(3) show ?case by (simp add: e)
  qed (use assms(3,4) in simp)
  from this [OF assms(5)] assms(6) show ?thesis
    using bus_silentD [of 1 "hart_bus (mc_cpu m')" i] by (simp add: device_at_Some)
qed

text \<open>A notification without a new buffer ends the emulator. If the driver notifies the block queue although the available
  ring holds nothing the device has not taken already, as a driver may, the run ends at once with a runtime I/O error.\<close>

theorem spurious_notification_ends_run:
  assumes "virtio_at (hart_bus (mc_cpu m)) (vb_transport (mc_block m)) = Some t" "vi_notifications t = q # rest"
    and "consume_available (vb_queue_runtime (synchronize_queue_generation t (mc_block m)))
           (set_region (hart_bus (mc_cpu m)) (vb_transport (mc_block m)) (VirtioRegion (t\<lparr>vi_notifications := rest\<rparr>)))
           (queue_layout (t\<lparr>vi_notifications := rest\<rparr>) q) = (runtime, b', available)"
    and "va_pending_count available = 0" "stop_requested h = (h', False)"
  shows "\<exists>m'. run_loop disk_ops tty_ops stop_requested options m h n
     = Some (m', h', \<lparr>rr_exit_code = RuntimeIo, rr_iterations = n\<rparr>)"
  using process_one_spurious [OF assms(1-4), of disk_ops "mc_disk m"] assms(5)
  by (auto simp: run_loop.simps [of _ _ _ _ m] machine_pass_def)

end
