(* ===== verification/Spec2Isabelle.thy ===== *)
theory Spec2Isabelle
  imports Compressed_Decoder Soft_Float_Compare Cpu_Atomic Cpu_Integer Cpu_Memory Machine_Run
begin

text \<open>
  Verification of a single-hart RV64GCV emulator written in C++17 (paths below are relative to \<open>src/\<close>).

  \<^bold>\<open>The program.\<close> The emulator is a hart in front of a physical bus. The hart fetches through the Sv39 memory
  management unit, expands compressed encodings, decodes and executes, and delivers traps through the CSR file. The bus
  owns RAM, the boot ROM and the memory-mapped devices; the devices drive the PLIC, and the PLIC and the CLINT drive the
  interrupt-pending bits of the CSR file. A run loop serves the block device, moves bytes between the UART and the host
  terminal, advances time and steps the hart, in turn.

  \<^bold>\<open>Modelling conventions.\<close> Pure C++ functions are HOL functions over words of the same width; objects are records,
  and a method that changes its object returns the new one. A reference held by an object (the bus in the MMU) is passed
  along explicitly. A bus or translation failure is a value of the result type of the source; a host exception
  (\<open>std::out_of_range\<close>, \<open>std::invalid_argument\<close>) is the outer \<open>None\<close> or the left of a sum. Every method of a
  device runs under that device's mutex and is therefore one atomic step.

  \<^bold>\<open>Theories.\<close>
  \<^item> Emu_Prelude: machine integers, little-endian byte loops, the collections of simplification rules.
  \<^item> Bus_Access, Region_Interface, Bus: \<open>bus/access.hpp\<close>, \<open>address_range\<close>, \<open>address_map\<close>, \<open>address_region.hpp\<close> and
    \<open>bus/bus.cpp\<close>. The locale \<open>address_region\<close> states the contract of \<open>AddressRegion\<close>; each region interprets it and
    the bus interprets it again, so that a client of the bus may use the same laws. Shown: regions stay disjoint and
    sorted, decoding is exact, a reservation is consumed and broken exactly when it must be.
  \<^item> Physical_Memory, Boot_Rom, Clint, Plic, Uart16550, Virtio_Mmio: the regions of the same names under \<open>memory/\<close> and
    \<open>devices/\<close>, each with its invariant and the functional behaviour of its registers: every byte offered to the UART is
    accounted for over a run, and every bit of the VirtIO status register after a status write is given, the FAILED write
    that skips the negotiation included.
  \<^item> Trap, Csr, Csr_Correct: \<open>core/trap.hpp\<close> and \<open>core/csr.cpp\<close>: access control, WARL masks, interrupt selection,
    trap entry and return. Shown: every reachable CSR file is legal, accesses below machine mode are confined, interrupt
    priorities are exact, entry and return are inverse.
  \<^item> Mmu, Mmu_Correct: \<open>memory/mmu.cpp\<close>: the 64-entry TLB and the three-level walk with its atomic accessed and dirty
    updates. Shown: a translation is the Sv39 leaf of the page table in memory; over any run of translations from a full
    fence on, hits and walks alike are allowed by the flags of the leaf in memory; the TLB is transparent after a fill;
    the optimistic retry loop ends.
  \<^item> Decoder, Compressed_Decoder, Integer_M, Integer_A, Floating_State: the files of the same names under \<open>core/\<close>,
    against instruction formats and integer arithmetic. The encoders of the compressed expander and the decoder are inverse
    to each other on every field.
  \<^item> Wide_Unsigned, Soft_Float: the 4608-bit integers and the operations of \<open>core/soft_float_arithmetic.cpp\<close> and
    \<open>soft_float_conversion.cpp\<close>. Soft_Float_Round defines the IEEE 754 rounding of a real number and shows that the one
    rounding routine computes it; the value, the sign and the class of a bit pattern are read off its fields there, and the
    overflow rule is stated apart from the code's. Soft_Float_Exact shows that the significand loops are exact; Soft_Float_Correct,
    Soft_Float_Convert and Soft_Float_Compare conclude that arithmetic, conversions and comparisons are those of the real
    numbers the bit patterns stand for, with the saturation values and flags of the integer conversions written out.
  \<^item> Vector_Configuration, Vector_State, Vector_Integer: the vector unit's configuration, register groups, integer
    operations and memory decoder under \<open>vector/\<close>. Shown: a vtype is accepted exactly when RVV allows it and vl is the
    smaller of the request and VLMAX; a register group is an array; the integer operations are integer arithmetic.
  \<^item> Vector_Floating, Cpu_State, Cpu, Cpu_Floating, Cpu_Vector, Cpu_Step: the hart, that is \<open>core/cpu_state.cpp\<close>,
    \<open>core/cpu.cpp\<close>, \<open>core/cpu_floating.cpp\<close> and \<open>vector/vector_floating.cpp\<close>. The record \<open>cpu\<close> holds the architectural
    state, the MMU and the bus the source reaches through a reference; every instruction is a function from harts to a
    hart and a step result, inside an option whose \<open>None\<close> is a host exception, undefined behaviour or a loop without
    end. The opcode cases of \<open>execute_standard\<close> are one definition each, in the order of the source.
  \<^item> Cpu_Invariant, Cpu_Exec, Cpu_Exec_Vector, Cpu_Correct: the invariant of the hart, that every instruction keeps it,
    and the conclusions for a step: it always returns, its traps are precise, it never raises the privilege and below
    machine mode leaves machine-level CSRs alone, and trap delivery followed by the matching return resumes the
    interrupted context. The harts in question are those reached from reset by steps, traps and interrupts.
  \<^item> Cpu_Integer: the integer instructions and branches against integer arithmetic. Cpu_Atomic: a completed AMO is a
    translation, one read of the operand, translations only, and one won compare-exchange of the value read.
    Cpu_Memory: two limits of the guest accesses, on concrete machines.
  \<^item> Bus_Devices: the bus as the platform sees it, devices as region indices and RAM byte by byte. Virtqueue:
    \<open>devices/virtqueue.cpp\<close>; shown: the walk accepts exactly the well-formed descriptor chains and always ends, the
    EVENT_IDX test is exact. Disk_Backend: \<open>platform/disk_backend.cpp\<close> over a host file. Virtio_Block,
    Virtio_Block_Correct: \<open>devices/virtio_block.cpp\<close>; shown: the data phase of a request moves exactly its bytes between
    the image and RAM, a request keeps the bus and a read-only image, and the one request without defined behaviour.
  \<^item> Terminal, Cli, Event_Loop, Runner, Machine_Run: \<open>platform/terminal.cpp\<close>, \<open>runtime/cli.cpp\<close>,
    \<open>runtime/event_loop.cpp\<close> and the run loop of \<open>runtime/runner.cpp\<close>. Shown: raw mode is undone by restore, the parser
    accepts exactly the documented options, bytes between the UART and the terminal are accounted for, a bounded run
    returns and why it ends. The calls of the host (files, terminal, stop request) are parameters; what is assumed of
    them is named: \<open>posix_file\<close>, \<open>file_responds\<close>, \<open>interrupted_finitely\<close>.

  \<^bold>\<open>Bounds.\<close> The wide integers have 72 limbs (4608 bits); the longest shift distance of a binary64 fused
  multiply-add stays below that, which the proofs of Soft_Float_Correct discharge. Exponents are integers: the code keeps
  them in \<open>int32_t\<close> and their absolute value stays below 2200. No definition uses fuel: the
  retry loop of the page-table walk (Mmu) is a total function because no walk asks for a retry; the compare-exchange
  loop of the atomic instructions (Cpu_Step), the interrupted calls of the terminal and the run loop (Runner) are a
  \<open>partial_function (option)\<close>, shown to return: the first after at most two rounds, the others on a host that interrupts
  a call only finitely often in a row and, for the run, with an iteration limit. The descriptor walk counts down the size
  of its table, as the source does.

  \<^bold>\<open>Not modelled.\<close> The serialised device tree, the construction of the machine, the boot loader, the ELF loader of the
  conformance runner and the installation of signal handlers: they build on host files and signals, and the device tree
  is the part of them that a later extension can add. The host memory fences issued for the aq and rl bits have no effect
  in a sequential model. Error texts and boot traces are left out.
\<close>

end
